(* ===== verification/Prelude.thy ===== *)
theory Prelude
  imports Main "HOL-Library.Word" "HOL-Library.AList" "HOL-Library.List_Lexorder" "HOL-Library.Char_ord"
begin

text \<open>
  Shared vocabulary of the development.

  \<^item> Rust results: an operation returning \<open>Result<T, E>\<close> has type \<open>'e + 'a\<close> with \<open>Inl\<close> for
    \<open>Err\<close>; \<open>rbind\<close> is the \<open>?\<close> operator.
  \<^item> Machine integers: the widths the sources use, and the saturating operations of \<open>u64\<close>.
  \<^item> Standard collections: \<open>HashMap\<close> as an association list updated by \<open>AList.update\<close> (iteration
    order is the order of the list, which no theorem relies on), \<open>BTreeMap\<close> as an association
    list that \<open>bt_insert\<close> keeps strictly sorted by key. Both provide the interface \<open>kv_store\<close>,
    whose client lemmas are proved once inside the locale.
  \<^item> State machines: reachability over a step relation, and the locale \<open>inv_system\<close> that turns
    "holds initially and every step keeps it" into "holds in every reachable state".
\<close>

section \<open>Fact collections\<close>

named_theorems result_simps \<open>unfolding of the result operators\<close>
named_theorems sat_arith \<open>the saturating operations read as natural numbers\<close>

section \<open>Results and the question-mark operator\<close>

definition rbind :: "'e + 'a \<Rightarrow> ('a \<Rightarrow> 'e + 'b) \<Rightarrow> 'e + 'b" where
  "rbind r f = (case r of Inl e \<Rightarrow> Inl e | Inr x \<Rightarrow> f x)"

definition ok_or :: "'e \<Rightarrow> 'a option \<Rightarrow> 'e + 'a" where
  "ok_or e x = (case x of None \<Rightarrow> Inl e | Some v \<Rightarrow> Inr v)"

lemma rbind_simps [simp, result_simps]:
  "rbind (Inl e) f = Inl e"
  "rbind (Inr x) f = f x"
  by (simp_all add: rbind_def)

lemma rbind_Inr_iff: "rbind r f = Inr y \<longleftrightarrow> (\<exists>x. r = Inr x \<and> f x = Inr y)"
  by (cases r) auto

lemma rbind_Inl_iff: "rbind r f = Inl e \<longleftrightarrow> r = Inl e \<or> (\<exists>x. r = Inr x \<and> f x = Inl e)"
  by (cases r) auto

lemma ok_or_simps [simp, result_simps]:
  "ok_or e None = Inl e"
  "ok_or e (Some v) = Inr v"
  by (simp_all add: ok_or_def)

lemma ok_or_Inr_iff [simp]: "ok_or e x = Inr v \<longleftrightarrow> x = Some v"
  by (cases x) auto

lemma ok_or_Inl_iff [simp]: "ok_or e x = Inl e' \<longleftrightarrow> x = None \<and> e' = e"
  by (cases x) auto

definition is_ok :: "'e + 'a \<Rightarrow> bool" where
  "is_ok r = (case r of Inl _ \<Rightarrow> False | Inr _ \<Rightarrow> True)"

lemma is_ok_simps [simp, result_simps]:
  "is_ok (Inl e) = False"
  "is_ok (Inr x) = True"
  by (simp_all add: is_ok_def)

section \<open>Machine integers\<close>

type_synonym u8 = "8 word"
type_synonym u16 = "16 word"
type_synonym u32 = "32 word"
type_synonym u64 = "64 word"

definition sat_sub :: "'a::len word \<Rightarrow> 'a word \<Rightarrow> 'a word" where
  "sat_sub a b = (if a < b then 0 else a - b)"

definition sat_add :: "'a::len word \<Rightarrow> 'a word \<Rightarrow> 'a word" where
  "sat_add a b = (if unat a + unat b < 2 ^ LENGTH('a) then a + b else - 1)"

lemma unat_sat_sub [sat_arith]: "unat (sat_sub a b) = unat a - unat b"
  by (auto simp: sat_sub_def unat_sub_if' word_less_nat_alt word_le_nat_alt)

lemma unat_sat_add [sat_arith]:
  "unat (sat_add a b) = min (unat a + unat b) (2 ^ LENGTH('a) - 1)"
  for a b :: "'a::len word"
proof (cases "unat a + unat b < 2 ^ LENGTH('a)")
  case True
  then show ?thesis by (simp add: sat_add_def unat_word_ariths)
next
  case False
  then have "unat (sat_add a b) = unat (- 1 :: 'a word)" by (simp add: sat_add_def)
  also have "\<dots> = 2 ^ LENGTH('a) - 1" by (simp add: unsigned_minus_1_eq_mask mask_eq_exp_minus_1)
  finally show ?thesis using False by simp
qed

section \<open>Collections\<close>

text \<open>
  The interface both standard maps provide: what \<open>get\<close> answers after \<open>put\<close>, and that \<open>put\<close> keeps
  the representation invariant.
\<close>

locale kv_store =
  fixes get :: "'m \<Rightarrow> 'k \<Rightarrow> 'v option"
    and put :: "'k \<Rightarrow> 'v \<Rightarrow> 'm \<Rightarrow> 'm"
    and valid :: "'m \<Rightarrow> bool"
  assumes get_put: "valid m \<Longrightarrow> get (put k v m) k' = (if k' = k then Some v else get m k')"
    and valid_put: "valid m \<Longrightarrow> valid (put k v m)"
begin

lemma valid_fold_put: "valid m \<Longrightarrow> valid (fold (\<lambda>(k, v). put k v) kvs m)"
  by (induction kvs arbitrary: m) (auto simp: valid_put)

lemma get_fold_put:
  assumes "valid m"
  shows "get (fold (\<lambda>(k, v). put k v) kvs m) x
    = (case map_of (rev kvs) x of None \<Rightarrow> get m x | Some v \<Rightarrow> Some v)"
  using assms
proof (induction kvs arbitrary: m)
  case Nil
  then show ?case by simp
next
  case (Cons kv kvs)
  obtain k v where kv: "kv = (k, v)" by (cases kv)
  have "get (fold (\<lambda>(k, v). put k v) (kv # kvs) m) x
      = (case map_of (rev kvs) x of None \<Rightarrow> get (put k v m) x | Some w \<Rightarrow> Some w)"
    using Cons.IH [of "put k v m"] Cons.prems by (simp add: kv valid_put)
  then show ?case
    by (simp add: kv get_put [OF Cons.prems] map_add_def split: option.splits)
qed

lemma get_put_swap:
  assumes "valid m" "k \<noteq> k'"
  shows "get (put k v (put k' w m)) = get (put k' w (put k v m))"
  using assms by (auto simp: get_put valid_put fun_eq_iff)

end

text \<open>\<open>HashMap\<close>: distinct keys, insertion replaces in place.\<close>

type_synonym ('k, 'v) hash_map = "('k \<times> 'v) list"

definition hm_valid :: "('k, 'v) hash_map \<Rightarrow> bool" where
  "hm_valid m \<longleftrightarrow> distinct (map fst m)"

interpretation hm: kv_store map_of AList.update hm_valid
  by unfold_locales (auto simp: AList.update_conv' hm_valid_def distinct_update)

text \<open>\<open>BTreeMap\<close>: strictly ascending keys.\<close>

type_synonym ('k, 'v) btree_map = "('k \<times> 'v) list"

definition bt_valid :: "('k::linorder, 'v) btree_map \<Rightarrow> bool" where
  "bt_valid m \<longleftrightarrow> sorted_wrt (<) (map fst m)"

fun bt_insert :: "'k::linorder \<Rightarrow> 'v \<Rightarrow> ('k, 'v) btree_map \<Rightarrow> ('k, 'v) btree_map" where
  "bt_insert k v [] = [(k, v)]"
| "bt_insert k v ((k', v') # m) =
     (if k = k' then (k, v) # m
      else if k < k' then (k, v) # (k', v') # m
      else (k', v') # bt_insert k v m)"

lemma set_bt_insert_keys: "fst ` set (bt_insert k v m) = insert k (fst ` set m)"
  by (induction k v m rule: bt_insert.induct) auto

lemma bt_valid_Nil [simp]: "bt_valid []"
  by (simp add: bt_valid_def)

lemma bt_valid_Cons: "bt_valid ((k, v) # m) \<longleftrightarrow> (\<forall>x \<in> fst ` set m. k < x) \<and> bt_valid m"
  by (auto simp: bt_valid_def)

lemma bt_valid_insert: "bt_valid m \<Longrightarrow> bt_valid (bt_insert k v m)"
  by (induction k v m rule: bt_insert.induct) (auto simp: bt_valid_Cons set_bt_insert_keys)

lemma bt_valid_distinct: "bt_valid m \<Longrightarrow> distinct (map fst m)"
  by (simp add: bt_valid_def strict_sorted_iff)

lemma map_of_bt_insert: "map_of (bt_insert k v m) = (map_of m)(k \<mapsto> v)"
  by (induction k v m rule: bt_insert.induct) (auto simp: fun_eq_iff)

lemma bt_valid_filter: "bt_valid m \<Longrightarrow> bt_valid (filter P m)"
  by (auto simp: bt_valid_def sorted_wrt_map intro: sorted_wrt_filter)

lemma map_fst_retag [simp]: "map fst (map (\<lambda>(k, v). (k, f k v)) m) = map fst m"
  by (induction m) auto

interpretation bt: kv_store map_of bt_insert bt_valid
  by unfold_locales (auto simp: map_of_bt_insert bt_valid_insert)

lemma map_of_eq_Some_distinct:
  "distinct (map fst m) \<Longrightarrow> map_of m k = Some v \<longleftrightarrow> (k, v) \<in> set m"
  by (auto dest: map_of_SomeD intro: map_of_is_SomeI)

lemma map_of_retag:
  "map_of (map (\<lambda>(k, v). (k, f k v)) m) k = map_option (f k) (map_of m k)"
  by (induction m) auto

lemma map_of_filter_distinct:
  "distinct (map fst m) \<Longrightarrow>
    map_of (filter P m) k = (case map_of m k of None \<Rightarrow> None | Some v \<Rightarrow> if P (k, v) then Some v else None)"
  by (induction m) (auto split: option.splits simp: map_of_eq_None_iff rev_image_eqI)

section \<open>Lists\<close>

lemma sort_key_sorted: "sorted (map f xs) \<Longrightarrow> sort_key f xs = xs"
  by (induction xs) (auto simp: insort_is_Cons)

lemma set_map_filter: "set (List.map_filter f xs) = {y. \<exists>x \<in> set xs. f x = Some y}"
  by (induction xs) (auto simp: List.map_filter_simps split: option.splits)

lemma find_append:
  "List.find P (xs @ ys) = (case List.find P xs of None \<Rightarrow> List.find P ys | Some x \<Rightarrow> Some x)"
  by (induction xs) auto

section \<open>Text\<close>

text \<open>Decimal rendering of a natural number, as \<open>format!\<close> prints it.\<close>

definition digit :: "nat \<Rightarrow> char" where
  "digit d = char_of (48 + d)"

function show_nat :: "nat \<Rightarrow> string" where
  "show_nat n = (if n < 10 then [digit n] else show_nat (n div 10) @ [digit (n mod 10)])"
  by auto

termination by (relation "measure (\<lambda>n. n)") auto

declare show_nat.simps [simp del]

definition newline :: char where "newline = CHR 0x0A"

section \<open>JSON\<close>

text \<open>
  JSON values as \<open>serde_json\<close> delivers them, restricted to the numbers the code reads; the text form is
  a codec that the definitions take as an argument. An object keeps its entries in document order; a
  later duplicate wins, as in \<open>Map::insert\<close>.
\<close>

datatype json = JNull | JBool bool | JInt int | JStr string | JArr "json list" | JObj "(string \<times> json) list"

record json_codec =
  to_text :: "json \<Rightarrow> string"
  from_text :: "string \<Rightarrow> json option"

fun json_get :: "string \<Rightarrow> json \<Rightarrow> json option" where
  "json_get k (JObj kvs) = map_of (rev kvs) k"
| "json_get k _ = None"

fun json_str :: "json \<Rightarrow> string option" where
  "json_str (JStr s) = Some s"
| "json_str _ = None"

definition json_u64 :: "json \<Rightarrow> nat option" where
  "json_u64 j = (case j of JInt i \<Rightarrow> if 0 \<le> i \<and> i < 2 ^ 64 then Some (nat i) else None | _ \<Rightarrow> None)"

definition json_i64 :: "json \<Rightarrow> int option" where
  "json_i64 j = (case j of JInt i \<Rightarrow> if - (2 ^ 63) \<le> i \<and> i < 2 ^ 63 then Some i else None | _ \<Rightarrow> None)"

section \<open>Paths\<close>

text \<open>A path is the list of its components; \<open>Path::starts_with\<close> compares whole components.\<close>

type_synonym path = "string list"

definition starts_with :: "path \<Rightarrow> path \<Rightarrow> bool" where
  "starts_with p base \<longleftrightarrow> take (length base) p = base"

lemma starts_with_Nil [simp]: "starts_with p []"
  by (simp add: starts_with_def)

lemma starts_with_Cons [simp]:
  "starts_with p (x # base) \<longleftrightarrow> (\<exists>p'. p = x # p' \<and> starts_with p' base)"
  by (cases p) (auto simp: starts_with_def)

lemma starts_with_refl [simp]: "starts_with p p"
  by (simp add: starts_with_def)

lemma starts_with_le: "starts_with k p \<Longrightarrow> p \<le> k"
  by (induction p arbitrary: k) auto

section \<open>State machines\<close>

inductive reaches :: "('s \<Rightarrow> bool) \<Rightarrow> ('s \<Rightarrow> 's \<Rightarrow> bool) \<Rightarrow> 's \<Rightarrow> bool" for init step where
  start: "init s \<Longrightarrow> reaches init step s"
| move: "reaches init step s \<Longrightarrow> step s t \<Longrightarrow> reaches init step t"

lemma reaches_one: "init s \<Longrightarrow> step s t \<Longrightarrow> reaches init step t"
  by (blast intro: reaches.intros)

locale inv_system =
  fixes init :: "'s \<Rightarrow> bool"
    and step :: "'s \<Rightarrow> 's \<Rightarrow> bool"
    and inv :: "'s \<Rightarrow> bool"
  assumes inv_init: "init s \<Longrightarrow> inv s"
    and inv_step: "step s t \<Longrightarrow> inv s \<Longrightarrow> inv t"
begin

lemma reaches_inv: "reaches init step s \<Longrightarrow> inv s"
  by (induction rule: reaches.induct) (auto intro: inv_init inv_step)

end

end
