(* ===== verification/Approval.thy ===== *)
theory Approval
  imports Prelude
begin

text \<open>
  The asynchronous approval store (\<open>kallip-runtime/src/approval.rs\<close>, statuses from
  \<open>kallip-common/src/approval.rs\<close>).

  A deferred tool call is stored as an action and walks
  \<open>Pending -> Committed -> Approved -> Redeemed\<close>, with \<open>Denied\<close> as the other outcome of a review and
  \<open>Cancelled\<close> reachable from every state that is not terminal. The store is a record with the map of
  actions, the queue of notifications for the agent, and three one-shot slots. Every method of the
  Rust \<open>impl\<close> is one definition; a method that fails leaves the store as it was, so it returns only
  the error.

  Parameters: the UUID and the clock value \<open>enqueue\<close> reads, and the JSON parser that \<open>ApprovalInfo\<close>
  applies to the stored argument text.
\<close>

section \<open>Data\<close>

datatype approval_status = Pending | Committed | Approved | Denied | Redeemed | Cancelled

fun status_from_str_name :: "string \<Rightarrow> approval_status option" where
  "status_from_str_name s =
     (if s = ''pending'' then Some Pending
      else if s = ''committed'' then Some Committed
      else if s = ''approved'' then Some Approved
      else if s = ''denied'' then Some Denied
      else if s = ''redeemed'' then Some Redeemed
      else if s = ''cancelled'' then Some Cancelled
      else None)"

fun status_as_str :: "approval_status \<Rightarrow> string" where
  "status_as_str Pending = ''pending''"
| "status_as_str Committed = ''committed''"
| "status_as_str Approved = ''approved''"
| "status_as_str Denied = ''denied''"
| "status_as_str Redeemed = ''redeemed''"
| "status_as_str Cancelled = ''cancelled''"

record approval_action =
  act_id :: string
  act_tool_name :: string
  act_args_json :: string
  act_commit_reason :: "string option"
  act_status :: approval_status
  act_deny_reason :: "string option"
  act_defer_reason :: "string option"
  act_created_at :: int

record 'j tool_call_content =
  tcc_tool_name :: string
  tcc_arguments :: 'j

record 'j approval_info =
  info_id :: string
  info_content :: "'j tool_call_content"
  info_commit_reason :: "string option"
  info_status :: approval_status
  info_deny_reason :: "string option"
  info_defer_reason :: "string option"
  info_created_at :: int

record committed_info =
  ci_id :: string
  ci_tool_name :: string
  ci_args_json :: string
  ci_commit_reason :: string

datatype approval_notification = NotifApproved string | NotifDenied string string

record approval_store =
  st_actions :: "(string, approval_action) hash_map"
  st_notifications :: "approval_notification list"
  st_last_committed :: "committed_info option"
  st_last_redeemed :: "string option"
  st_last_cancelled :: "string option"

datatype approval_err =
    ApprovalNotFound string
  | NotCommitted string approval_status
  | StillPending string
  | AwaitingApproval string
  | WasDenied string string
  | AlreadyRedeemed string
  | WasCancelled string
  | AlreadyCancelled string
  | NotPending string approval_status

section \<open>Operations\<close>

definition new_approvals :: approval_store where
  "new_approvals = \<lparr>st_actions = [], st_notifications = [], st_last_committed = None,
     st_last_redeemed = None, st_last_cancelled = None\<rparr>"

definition enqueue ::
  "string \<Rightarrow> int \<Rightarrow> string \<Rightarrow> string \<Rightarrow> string option \<Rightarrow> approval_store \<Rightarrow> string \<times> approval_store" where
  "enqueue uuid now tool args defer_reason s =
     (let aid = ''ap_'' @ uuid;
          a = \<lparr>act_id = aid, act_tool_name = tool, act_args_json = args, act_commit_reason = None,
               act_status = Pending, act_deny_reason = None, act_defer_reason = defer_reason,
               act_created_at = now\<rparr>
      in (aid, s\<lparr>st_actions := AList.update aid a (st_actions s)\<rparr>))"

definition approve :: "string \<Rightarrow> approval_store \<Rightarrow> approval_err + approval_store" where
  "approve aid s =
     rbind (ok_or (ApprovalNotFound aid) (map_of (st_actions s) aid)) (\<lambda>a.
       if act_status a \<noteq> Committed then Inl (NotCommitted aid (act_status a))
       else Inr (s\<lparr>st_actions := AList.update aid (a\<lparr>act_status := Approved\<rparr>) (st_actions s),
                   st_notifications := st_notifications s @ [NotifApproved aid]\<rparr>))"

definition deny :: "string \<Rightarrow> string \<Rightarrow> approval_store \<Rightarrow> approval_err + approval_store" where
  "deny aid reason s =
     rbind (ok_or (ApprovalNotFound aid) (map_of (st_actions s) aid)) (\<lambda>a.
       if act_status a \<noteq> Committed then Inl (NotCommitted aid (act_status a))
       else Inr (s\<lparr>st_actions := AList.update aid
                     (a\<lparr>act_status := Denied, act_deny_reason := Some reason\<rparr>) (st_actions s),
                   st_notifications := st_notifications s @ [NotifDenied aid reason]\<rparr>))"

definition take_for_redeem ::
  "string \<Rightarrow> approval_store \<Rightarrow> approval_err + (approval_action \<times> approval_store)" where
  "take_for_redeem aid s =
     rbind (ok_or (ApprovalNotFound aid) (map_of (st_actions s) aid)) (\<lambda>a.
       case act_status a of
         Pending \<Rightarrow> Inl (StillPending aid)
       | Committed \<Rightarrow> Inl (AwaitingApproval aid)
       | Denied \<Rightarrow> Inl (WasDenied aid (case act_deny_reason a of None \<Rightarrow> ''unknown'' | Some r \<Rightarrow> r))
       | Redeemed \<Rightarrow> Inl (AlreadyRedeemed aid)
       | Cancelled \<Rightarrow> Inl (WasCancelled aid)
       | Approved \<Rightarrow>
           (let a' = a\<lparr>act_status := Redeemed\<rparr>
            in Inr (a', s\<lparr>st_actions := AList.update aid a' (st_actions s),
                          st_last_redeemed := Some aid\<rparr>)))"

definition cancel ::
  "string \<Rightarrow> approval_store \<Rightarrow> approval_err + (approval_status \<times> approval_store)" where
  "cancel aid s =
     rbind (ok_or (ApprovalNotFound aid) (map_of (st_actions s) aid)) (\<lambda>a.
       case act_status a of
         Redeemed \<Rightarrow> Inl (AlreadyRedeemed aid)
       | Cancelled \<Rightarrow> Inl (AlreadyCancelled aid)
       | prev \<Rightarrow>
           Inr (prev, s\<lparr>st_actions := AList.update aid (a\<lparr>act_status := Cancelled\<rparr>) (st_actions s),
                        st_last_cancelled := Some aid\<rparr>))"

definition commit :: "string \<Rightarrow> string \<Rightarrow> approval_store \<Rightarrow> approval_err + approval_store" where
  "commit aid reason s =
     rbind (ok_or (ApprovalNotFound aid) (map_of (st_actions s) aid)) (\<lambda>a.
       if act_status a \<noteq> Pending then Inl (NotPending aid (act_status a))
       else Inr (s\<lparr>st_actions := AList.update aid
                     (a\<lparr>act_commit_reason := Some reason, act_status := Committed\<rparr>) (st_actions s),
                   st_last_committed := Some \<lparr>ci_id = aid, ci_tool_name = act_tool_name a,
                     ci_args_json = act_args_json a, ci_commit_reason = reason\<rparr>\<rparr>))"

definition take_last_committed :: "approval_store \<Rightarrow> committed_info option \<times> approval_store" where
  "take_last_committed s = (st_last_committed s, s\<lparr>st_last_committed := None\<rparr>)"

definition take_last_redeemed :: "approval_store \<Rightarrow> string option \<times> approval_store" where
  "take_last_redeemed s = (st_last_redeemed s, s\<lparr>st_last_redeemed := None\<rparr>)"

definition take_last_cancelled :: "approval_store \<Rightarrow> string option \<times> approval_store" where
  "take_last_cancelled s = (st_last_cancelled s, s\<lparr>st_last_cancelled := None\<rparr>)"

definition info_of :: "(string \<Rightarrow> 'j option) \<Rightarrow> 'j \<Rightarrow> approval_action \<Rightarrow> 'j approval_info" where
  "info_of parse null a =
     \<lparr>info_id = act_id a,
      info_content = \<lparr>tcc_tool_name = act_tool_name a,
        tcc_arguments = (case parse (act_args_json a) of None \<Rightarrow> null | Some j \<Rightarrow> j)\<rparr>,
      info_commit_reason = act_commit_reason a, info_status = act_status a,
      info_deny_reason = act_deny_reason a, info_defer_reason = act_defer_reason a,
      info_created_at = act_created_at a\<rparr>"

definition list_approvals ::
  "(string \<Rightarrow> 'j option) \<Rightarrow> 'j \<Rightarrow> approval_status option \<Rightarrow> approval_store \<Rightarrow> 'j approval_info list" where
  "list_approvals parse null flt s =
     map (info_of parse null)
       (filter (\<lambda>a. case flt of None \<Rightarrow> True | Some f \<Rightarrow> act_status a = f) (map snd (st_actions s)))"

definition contains_approval :: "string \<Rightarrow> approval_store \<Rightarrow> bool" where
  "contains_approval aid s \<longleftrightarrow> map_of (st_actions s) aid \<noteq> None"

definition get_approval ::
  "(string \<Rightarrow> 'j option) \<Rightarrow> 'j \<Rightarrow> string \<Rightarrow> approval_store \<Rightarrow> 'j approval_info option" where
  "get_approval parse null aid s = map_option (info_of parse null) (map_of (st_actions s) aid)"

definition drain_notifications :: "approval_store \<Rightarrow> approval_notification list \<times> approval_store" where
  "drain_notifications s = (st_notifications s, s\<lparr>st_notifications := []\<rparr>)"

definition has_notifications :: "approval_store \<Rightarrow> bool" where
  "has_notifications s \<longleftrightarrow> st_notifications s \<noteq> []"

fun notification_text :: "approval_notification \<Rightarrow> string" where
  "notification_text (NotifApproved aid) =
     ''Approval '' @ aid @ '' has been approved. Call approval_redeem with this id to execute.''"
| "notification_text (NotifDenied aid reason) =
     ''Approval '' @ aid @ '' has been denied: '' @ reason"

fun join_lines :: "string list \<Rightarrow> string" where
  "join_lines [] = ''''"
| "join_lines [x] = x"
| "join_lines (x # xs) = x @ [CHR 0x0A] @ join_lines xs"

definition format_approval_notifications :: "approval_notification list \<Rightarrow> string" where
  "format_approval_notifications ns =
     ''[system]'' @ [CHR 0x0A] @ join_lines (map notification_text ns)"

text \<open>
  What survives a restart: the serialised form keeps the actions only, every transient field comes
  back as its default.
\<close>

definition restored :: "approval_store \<Rightarrow> approval_store" where
  "restored s = new_approvals\<lparr>st_actions := st_actions s\<rparr>"

lemmas approval_op_defs =
  enqueue_def approve_def deny_def take_for_redeem_def cancel_def commit_def
  take_last_committed_def take_last_redeemed_def take_last_cancelled_def drain_notifications_def

section \<open>Steps of the store\<close>

text \<open>
  One rule per mutating method. \<open>enqueue\<close> draws a version-4 UUID; the rule carries what the code
  relies on, that the id is not in the store yet.
\<close>

inductive approval_step :: "approval_store \<Rightarrow> approval_store \<Rightarrow> bool" where
  st_enqueue: "map_of (st_actions s) (''ap_'' @ u) = None \<Longrightarrow>
     approval_step s (snd (enqueue u now tool args dr s))"
| st_commit: "commit aid r s = Inr t \<Longrightarrow> approval_step s t"
| st_approve: "approve aid s = Inr t \<Longrightarrow> approval_step s t"
| st_deny: "deny aid r s = Inr t \<Longrightarrow> approval_step s t"
| st_redeem: "take_for_redeem aid s = Inr (a, t) \<Longrightarrow> approval_step s t"
| st_cancel: "cancel aid s = Inr (p, t) \<Longrightarrow> approval_step s t"
| st_take_committed: "approval_step s (snd (take_last_committed s))"
| st_take_redeemed: "approval_step s (snd (take_last_redeemed s))"
| st_take_cancelled: "approval_step s (snd (take_last_cancelled s))"
| st_drain: "approval_step s (snd (drain_notifications s))"
| st_restart: "approval_step s (restored s)"

text \<open>The status an id has, and the abstract lifecycle every action follows.\<close>

definition status_at :: "approval_store \<Rightarrow> string \<Rightarrow> approval_status option" where
  "status_at s aid = map_option act_status (map_of (st_actions s) aid)"

inductive life_edge :: "approval_status option \<Rightarrow> approval_status option \<Rightarrow> bool" where
  le_enqueue: "life_edge None (Some Pending)"
| le_commit: "life_edge (Some Pending) (Some Committed)"
| le_approve: "life_edge (Some Committed) (Some Approved)"
| le_deny: "life_edge (Some Committed) (Some Denied)"
| le_redeem: "life_edge (Some Approved) (Some Redeemed)"
| le_cancel: "p \<notin> {Redeemed, Cancelled} \<Longrightarrow> life_edge (Some p) (Some Cancelled)"

inductive_simps life_edge_simps:
  "life_edge None x" "life_edge (Some Pending) x" "life_edge (Some Committed) x"
  "life_edge (Some Approved) x" "life_edge (Some Denied) x"
  "life_edge (Some Redeemed) x" "life_edge (Some Cancelled) x"

text \<open>
  Well-formed stores: keys are the ids of their actions, and the optional fields agree with the
  status.
\<close>

definition action_ok :: "approval_action \<Rightarrow> bool" where
  "action_ok a \<longleftrightarrow>
     (act_status a = Pending \<longrightarrow> act_commit_reason a = None) \<and>
     (act_status a \<in> {Committed, Approved, Denied, Redeemed} \<longrightarrow> act_commit_reason a \<noteq> None) \<and>
     (act_status a = Denied \<longrightarrow> act_deny_reason a \<noteq> None) \<and>
     (act_status a \<in> {Pending, Committed, Approved, Redeemed} \<longrightarrow> act_deny_reason a = None)"

definition approvals_ok :: "approval_store \<Rightarrow> bool" where
  "approvals_ok s \<longleftrightarrow> hm_valid (st_actions s) \<and>
     (\<forall>aid a. map_of (st_actions s) aid = Some a \<longrightarrow> act_id a = aid \<and> action_ok a)"

section \<open>Behaviour of the single operations\<close>

lemma status_name_roundtrip [simp]: "status_from_str_name (status_as_str st) = Some st"
  by (cases st) auto

lemma status_at_update:
  "status_at (s\<lparr>st_actions := AList.update aid a (st_actions s)\<rparr>) x
    = (if x = aid then Some (act_status a) else status_at s x)"
  by (simp add: status_at_def AList.update_conv')

lemma status_at_frame [simp]:
  "status_at (s\<lparr>st_notifications := n\<rparr>) = status_at s"
  "status_at (s\<lparr>st_last_committed := c\<rparr>) = status_at s"
  "status_at (s\<lparr>st_last_redeemed := r\<rparr>) = status_at s"
  "status_at (s\<lparr>st_last_cancelled := r\<rparr>) = status_at s"
  by (simp_all add: status_at_def fun_eq_iff)

lemma approvals_ok_frame [simp]:
  "approvals_ok (s\<lparr>st_notifications := n\<rparr>) = approvals_ok s"
  "approvals_ok (s\<lparr>st_last_committed := c\<rparr>) = approvals_ok s"
  "approvals_ok (s\<lparr>st_last_redeemed := r\<rparr>) = approvals_ok s"
  "approvals_ok (s\<lparr>st_last_cancelled := r\<rparr>) = approvals_ok s"
  by (simp_all add: approvals_ok_def)

lemma approvals_ok_update:
  "approvals_ok s \<Longrightarrow> act_id a = aid \<Longrightarrow> action_ok a \<Longrightarrow>
    approvals_ok (s\<lparr>st_actions := AList.update aid a (st_actions s)\<rparr>)"
  by (auto simp: approvals_ok_def AList.update_conv' hm.valid_put split: if_splits)

lemma approvals_ok_change:
  assumes "map_of (st_actions s) aid = Some a" "approvals_ok s"
    and "act_id a = aid \<Longrightarrow> action_ok a \<Longrightarrow> act_id a' = aid \<and> action_ok a'"
  shows "approvals_ok (s\<lparr>st_actions := AList.update aid a' (st_actions s)\<rparr>)"
proof -
  have "act_id a = aid \<and> action_ok a" using assms(1,2) by (simp add: approvals_ok_def)
  with assms(2,3) show ?thesis by (intro approvals_ok_update) auto
qed

lemma commit_Inr:
  "commit aid r s = Inr t \<longleftrightarrow> (\<exists>a. map_of (st_actions s) aid = Some a \<and> act_status a = Pending \<and>
     t = s\<lparr>st_actions := AList.update aid (a\<lparr>act_commit_reason := Some r, act_status := Committed\<rparr>) (st_actions s),
           st_last_committed := Some \<lparr>ci_id = aid, ci_tool_name = act_tool_name a,
             ci_args_json = act_args_json a, ci_commit_reason = r\<rparr>\<rparr>)"
  by (auto simp: commit_def rbind_Inr_iff)

lemma approve_Inr:
  "approve aid s = Inr t \<longleftrightarrow> (\<exists>a. map_of (st_actions s) aid = Some a \<and> act_status a = Committed \<and>
     t = s\<lparr>st_actions := AList.update aid (a\<lparr>act_status := Approved\<rparr>) (st_actions s),
           st_notifications := st_notifications s @ [NotifApproved aid]\<rparr>)"
  by (auto simp: approve_def rbind_Inr_iff)

lemma deny_Inr:
  "deny aid r s = Inr t \<longleftrightarrow> (\<exists>a. map_of (st_actions s) aid = Some a \<and> act_status a = Committed \<and>
     t = s\<lparr>st_actions := AList.update aid (a\<lparr>act_status := Denied, act_deny_reason := Some r\<rparr>) (st_actions s),
           st_notifications := st_notifications s @ [NotifDenied aid r]\<rparr>)"
  by (auto simp: deny_def rbind_Inr_iff)

lemma redeem_Inr:
  "take_for_redeem aid s = Inr (a', t) \<longleftrightarrow>
    (\<exists>a. map_of (st_actions s) aid = Some a \<and> act_status a = Approved \<and> a' = a\<lparr>act_status := Redeemed\<rparr> \<and>
     t = s\<lparr>st_actions := AList.update aid a' (st_actions s), st_last_redeemed := Some aid\<rparr>)"
  by (cases "map_of (st_actions s) aid")
    (auto simp: take_for_redeem_def Let_def split: approval_status.splits)

lemma cancel_Inr:
  "cancel aid s = Inr (p, t) \<longleftrightarrow>
    (\<exists>a. map_of (st_actions s) aid = Some a \<and> act_status a = p \<and> p \<notin> {Redeemed, Cancelled} \<and>
     t = s\<lparr>st_actions := AList.update aid (a\<lparr>act_status := Cancelled\<rparr>) (st_actions s),
           st_last_cancelled := Some aid\<rparr>)"
  by (cases "map_of (st_actions s) aid") (auto simp: cancel_def split: approval_status.splits)

lemmas approval_success = commit_Inr approve_Inr deny_Inr redeem_Inr cancel_Inr


section \<open>The store follows the lifecycle\<close>

lemma status_at_enqueue:
  "status_at (snd (enqueue u now tool args dr s)) x
    = (if x = ''ap_'' @ u then Some Pending else status_at s x)"
  by (simp add: enqueue_def Let_def status_at_update)

lemma status_at_restored [simp]: "status_at (restored s) = status_at s"
  by (simp add: status_at_def restored_def fun_eq_iff)

lemma step_lifecycle:
  assumes "approval_step s t"
  shows "(\<forall>x. status_at t x = status_at s x) \<or>
    (\<exists>aid. life_edge (status_at s aid) (status_at t aid) \<and>
           (\<forall>x. x \<noteq> aid \<longrightarrow> status_at t x = status_at s x))"
  using assms
proof cases
  case (st_enqueue u now tool args dr)
  then have "life_edge (status_at s (''ap_'' @ u)) (status_at t (''ap_'' @ u))"
    by (simp add: status_at_enqueue) (simp add: status_at_def life_edge_simps)
  with st_enqueue show ?thesis
    by (intro disjI2 exI [of _ "''ap_'' @ u"]) (simp add: status_at_enqueue)
next
  case (st_commit aid r)
  then show ?thesis
    by (intro disjI2 exI [of _ aid])
      (auto simp: commit_Inr status_at_update life_edge_simps status_at_def AList.update_conv')
next
  case (st_approve aid)
  then show ?thesis
    by (intro disjI2 exI [of _ aid])
      (auto simp: approve_Inr life_edge_simps status_at_def AList.update_conv')
next
  case (st_deny aid r)
  then show ?thesis
    by (intro disjI2 exI [of _ aid])
      (auto simp: deny_Inr life_edge_simps status_at_def AList.update_conv')
next
  case (st_redeem aid a)
  then show ?thesis
    by (intro disjI2 exI [of _ aid])
      (auto simp: redeem_Inr life_edge_simps status_at_def AList.update_conv')
next
  case (st_cancel aid p)
  then show ?thesis
    by (intro disjI2 exI [of _ aid])
      (auto simp: cancel_Inr status_at_def AList.update_conv' intro: le_cancel)
qed (auto simp: take_last_committed_def take_last_redeemed_def take_last_cancelled_def
       drain_notifications_def)

lemma terminal_step:
  assumes "approval_step s t" "status_at s aid = Some st" "st \<in> {Redeemed, Cancelled}"
  shows "status_at t aid = Some st"
  using step_lifecycle [OF assms(1)] assms(2,3) by (metis insertE empty_iff life_edge_simps(6,7))

lemma terminal_forever:
  assumes "approval_step\<^sup>*\<^sup>* s t" "status_at s aid = Some st" "st \<in> {Redeemed, Cancelled}"
  shows "status_at t aid = Some st"
  using assms by (induction rule: rtranclp_induct) (auto intro: terminal_step)

lemma step_ok:
  assumes "approval_step s t" "approvals_ok s"
  shows "approvals_ok t"
  using assms(1)
proof cases
  case (st_enqueue u now tool args dr)
  then show ?thesis
    using assms(2) by (auto simp: enqueue_def Let_def action_ok_def intro!: approvals_ok_update)
next
  case st_restart
  then show ?thesis using assms(2) by (simp add: restored_def approvals_ok_def new_approvals_def)
qed (insert assms(2), (auto simp: approval_success take_last_committed_def take_last_redeemed_def
       take_last_cancelled_def drain_notifications_def;
       erule (1) approvals_ok_change; auto simp: action_ok_def)+)

interpretation approvals: inv_system "\<lambda>s. s = new_approvals" approval_step approvals_ok
proof
  show "approvals_ok s" if "s = new_approvals" for s
    using that by (simp add: new_approvals_def approvals_ok_def hm_valid_def)
qed (rule step_ok)

section \<open>Delivery of review outcomes\<close>

text \<open>
  A run of the store as the tagma routes, the tools and the agent loop drive it: each call is
  answered, a failed call leaves the store as it was, and the loop's drain hands the queue over.
\<close>

datatype approval_op =
    OpEnqueue string int string string "string option"
  | OpCommit string string
  | OpApprove string
  | OpDeny string string
  | OpRedeem string
  | OpCancel string
  | OpDrain

definition or_same :: "'s \<Rightarrow> 'e + 's \<Rightarrow> 's" where
  "or_same s r = (case r of Inl _ \<Rightarrow> s | Inr t \<Rightarrow> t)"

fun approval_op_step ::
  "approval_op \<Rightarrow> approval_store \<Rightarrow> approval_notification list \<times> approval_store" where
  "approval_op_step (OpEnqueue u now tool args dr) s = ([], snd (enqueue u now tool args dr s))"
| "approval_op_step (OpCommit aid r) s = ([], or_same s (commit aid r s))"
| "approval_op_step (OpApprove aid) s = ([], or_same s (approve aid s))"
| "approval_op_step (OpDeny aid r) s = ([], or_same s (deny aid r s))"
| "approval_op_step (OpRedeem aid) s =
     ([], case take_for_redeem aid s of Inl _ \<Rightarrow> s | Inr (_, t) \<Rightarrow> t)"
| "approval_op_step (OpCancel aid) s = ([], case cancel aid s of Inl _ \<Rightarrow> s | Inr (_, t) \<Rightarrow> t)"
| "approval_op_step OpDrain s = drain_notifications s"

fun approval_run ::
  "approval_op list \<Rightarrow> approval_store \<Rightarrow> approval_notification list \<times> approval_store" where
  "approval_run [] s = ([], s)"
| "approval_run (x # xs) s =
     (let (d, t) = approval_op_step x s; (ds, u) = approval_run xs t in (d @ ds, u))"

text \<open>The review calls of the run that the store accepted, in order.\<close>

fun accepted_review :: "approval_op \<Rightarrow> approval_store \<Rightarrow> approval_notification list" where
  "accepted_review (OpApprove aid) s = (if is_ok (approve aid s) then [NotifApproved aid] else [])"
| "accepted_review (OpDeny aid r) s = (if is_ok (deny aid r s) then [NotifDenied aid r] else [])"
| "accepted_review _ s = []"

fun accepted_reviews :: "approval_op list \<Rightarrow> approval_store \<Rightarrow> approval_notification list" where
  "accepted_reviews [] s = []"
| "accepted_reviews (x # xs) s = accepted_review x s @ accepted_reviews xs (snd (approval_op_step x s))"

lemma op_step_conserves:
  "fst (approval_op_step x s) @ st_notifications (snd (approval_op_step x s))
    = st_notifications s @ accepted_review x s"
proof (cases x)
  case (OpApprove aid)
  then show ?thesis
    by (cases "approve aid s") (auto simp: or_same_def dest!: approve_Inr [THEN iffD1])
next
  case (OpDeny aid r)
  then show ?thesis
    by (cases "deny aid r s") (auto simp: or_same_def dest!: deny_Inr [THEN iffD1])
next
  case (OpCommit aid r)
  then show ?thesis
    by (cases "commit aid r s") (auto simp: or_same_def dest!: commit_Inr [THEN iffD1])
next
  case (OpRedeem aid)
  then show ?thesis
    by (auto simp: redeem_Inr split: sum.split)
next
  case (OpCancel aid)
  then show ?thesis
    by (auto simp: cancel_Inr split: sum.split)
qed (auto simp: enqueue_def Let_def drain_notifications_def)

section \<open>Properties\<close>

text \<open>
  C22. Every mutating method of the store changes the status of at most one approval, and only along
  an edge of the lifecycle (created as pending, pending to committed, committed to approved or
  denied, approved to redeemed, any non-terminal status to cancelled): the store refines the
  abstract lifecycle machine.
\<close>

theorem approval_step_refines_lifecycle:
  assumes "approval_step s t"
  shows "(\<forall>x. status_at t x = status_at s x) \<or>
    (\<exists>aid. life_edge (status_at s aid) (status_at t aid) \<and>
           (\<forall>x. x \<noteq> aid \<longrightarrow> status_at t x = status_at s x))"
  using assms by (rule step_lifecycle)

definition sample_approvals :: approval_store where
  "sample_approvals = snd (enqueue ''1'' 0 ''file_write'' ''{}'' None new_approvals)"

theorem approval_step_refines_lifecycle_witness:
  "life_edge (status_at sample_approvals ''ap_1'')
     (status_at (or_same sample_approvals (commit ''ap_1'' ''why'' sample_approvals)) ''ap_1'')"
proof -
  let ?s = sample_approvals and ?t = "or_same sample_approvals (commit ''ap_1'' ''why'' sample_approvals)"
  have st: "status_at ?s ''ap_1'' = Some Pending" "status_at ?t ''ap_1'' = Some Committed"
    by code_simp+
  have "approval_step ?s ?t" by (rule st_commit [of "''ap_1''" "''why''"]) code_simp
  from approval_step_refines_lifecycle [OF this] st show ?thesis by (metis option.inject approval_status.distinct(1))
qed

text \<open>
  In every store reachable from an empty one, the keys are distinct and equal to the ids of
  their actions; a committed, approved, denied or redeemed action carries its justification, a
  denied one its denial reason, and an action that was not denied carries none.
\<close>

theorem approvals_ok_reachable:
  assumes "reaches (\<lambda>s. s = new_approvals) approval_step s"
  shows "approvals_ok s"
  using assms by (rule approvals.reaches_inv)

theorem approvals_ok_reachable_witness: "approvals_ok sample_approvals"
proof -
  have "approval_step new_approvals sample_approvals"
    unfolding sample_approvals_def by (rule st_enqueue) (simp add: new_approvals_def)
  then have "reaches (\<lambda>s. s = new_approvals) approval_step sample_approvals"
    by (intro reaches_one) simp_all
  then show ?thesis by (rule approvals_ok_reachable)
qed

lemma redeem_at_most_once_facts:
  "is_ok (take_for_redeem aid s) \<longleftrightarrow> status_at s aid = Some Approved"
  "take_for_redeem aid s = Inr (a, t) \<Longrightarrow> approval_step\<^sup>*\<^sup>* t u \<Longrightarrow>
     take_for_redeem aid u = Inl (AlreadyRedeemed aid)"
proof -
  show "is_ok (take_for_redeem aid s) \<longleftrightarrow> status_at s aid = Some Approved"
    by (cases "map_of (st_actions s) aid")
      (auto simp: take_for_redeem_def status_at_def Let_def split: approval_status.split)
  assume r: "take_for_redeem aid s = Inr (a, t)" and run: "approval_step\<^sup>*\<^sup>* t u"
  from r have "status_at t aid = Some Redeemed"
    by (auto simp: redeem_Inr status_at_def AList.update_conv')
  from terminal_forever [OF run this] have "status_at u aid = Some Redeemed" by simp
  then show "take_for_redeem aid u = Inl (AlreadyRedeemed aid)"
    by (auto simp: status_at_def take_for_redeem_def)
qed

text \<open>
  C1. Redemption: a redeem succeeds exactly when the approval is in the approved state, and once it
  has succeeded every later redeem of the same id, after any further operations on the store,
  fails as already redeemed. An approved call is handed out for execution at most once.
\<close>

theorem redeem_at_most_once:
  "(is_ok (take_for_redeem aid s) \<longleftrightarrow> status_at s aid = Some Approved) \<and>
    (take_for_redeem aid s = Inr (a, t) \<longrightarrow> approval_step\<^sup>*\<^sup>* t u \<longrightarrow>
     take_for_redeem aid u = Inl (AlreadyRedeemed aid))"
  by (rule redeem_at_most_once_facts conjI impI | assumption)+

definition sample_approved :: approval_store where
  "sample_approved = snd (approval_run [OpCommit ''ap_1'' ''why'', OpApprove ''ap_1''] sample_approvals)"

theorem redeem_at_most_once_witness:
  "take_for_redeem ''ap_1'' (snd (approval_run [OpRedeem ''ap_1''] sample_approved))
    = Inl (AlreadyRedeemed ''ap_1'')"
  by (rule redeem_at_most_once [THEN conjunct2, rule_format, of _ sample_approved
        "the (map_of (st_actions (snd (approval_run [OpRedeem ''ap_1''] sample_approved))) ''ap_1'')"
        "snd (approval_run [OpRedeem ''ap_1''] sample_approved)"]) (code_simp, simp)

text \<open>
  Delivery: over any sequence of calls, what the agent loop has drained followed by what is
  still queued is exactly the earlier queue followed by the accepted reviews, in order; no
  review outcome is lost, duplicated or reordered, and a refused call produces none.
\<close>

theorem review_outcomes_delivered_once:
  "fst (approval_run ops s) @ st_notifications (snd (approval_run ops s))
    = st_notifications s @ accepted_reviews ops s"
proof (induction ops arbitrary: s)
  case (Cons x xs)
  then show ?case
    using op_step_conserves [of x s]
    by (simp add: Let_def split: prod.splits) (metis append.assoc fst_conv snd_conv)
qed simp

end
