(* ===== verification/Policy.thy ===== *)
theory Policy
  imports Prelude
begin

text \<open>
  The static policy vocabulary: presets, per-command overrides and the strictness check of
  \<open>kallip-common/src/policy.rs\<close>, and the permission axes of
  \<open>kallip-runtime/src/config/permissions.rs\<close>.

  \<open>ExecDecision\<close> and \<open>PermissionClass\<close> derive \<open>Ord\<close> from the order of their variants; here they
  are instances of \<open>linorder\<close> through their rank. The catalogue baseline that
  \<open>validate_at_least_as_strict_as\<close> takes as a closure is an argument. The self-describing data that
  serde hands to the visitor of \<open>ExecOverride\<close> is the datatype \<open>wire\<close> (a string, a table with its
  entries in document order, or anything else). Characters are the code points below 256.
\<close>

section \<open>Data\<close>

datatype policy_preset = Default | Auto | AllowAll

datatype exec_decision = Allow | Ask | Deny

record exec_override =
  decision :: exec_decision
  reason :: "string option"

record exec_policy =
  overrides :: "(string, exec_override) btree_map"

datatype permission_class = Guest | Normal

datatype delegation_mode = CarveOut | FullHandoff

datatype wire = WStr string | WMap "(string \<times> wire) list" | WOther

datatype wire_err =
    BadDecision string | DuplicateField string | UnknownField string | MissingField string | BadType

record permission_profile =
  max_depth :: u8
  boundary_root :: string

section \<open>The derived orders\<close>

fun decision_rank :: "exec_decision \<Rightarrow> nat" where
  "decision_rank Allow = 0" | "decision_rank Ask = 1" | "decision_rank Deny = 2"

lemma decision_rank_inj: "decision_rank a = decision_rank b \<longleftrightarrow> a = b"
  by (cases a; cases b) auto

instantiation exec_decision :: linorder
begin

definition less_eq_exec_decision :: "exec_decision \<Rightarrow> exec_decision \<Rightarrow> bool" where
  "less_eq_exec_decision a b \<longleftrightarrow> decision_rank a \<le> decision_rank b"

definition less_exec_decision :: "exec_decision \<Rightarrow> exec_decision \<Rightarrow> bool" where
  "less_exec_decision a b \<longleftrightarrow> decision_rank a < decision_rank b"

instance
  by standard (auto simp: less_eq_exec_decision_def less_exec_decision_def decision_rank_inj)

end

fun class_rank :: "permission_class \<Rightarrow> nat" where
  "class_rank Guest = 0" | "class_rank Normal = 1"

lemma class_rank_inj: "class_rank a = class_rank b \<longleftrightarrow> a = b"
  by (cases a; cases b) auto

instantiation permission_class :: linorder
begin

definition less_eq_permission_class :: "permission_class \<Rightarrow> permission_class \<Rightarrow> bool" where
  "less_eq_permission_class a b \<longleftrightarrow> class_rank a \<le> class_rank b"

definition less_permission_class :: "permission_class \<Rightarrow> permission_class \<Rightarrow> bool" where
  "less_permission_class a b \<longleftrightarrow> class_rank a < class_rank b"

instance
  by standard (auto simp: less_eq_permission_class_def less_permission_class_def class_rank_inj)

end

section \<open>Operations\<close>

fun preset_display :: "policy_preset \<Rightarrow> string" where
  "preset_display Default = ''default''"
| "preset_display Auto = ''auto''"
| "preset_display AllowAll = ''allow-all''"

definition preset_from_str :: "string \<Rightarrow> string + policy_preset" where
  "preset_from_str s =
     (if s = ''default'' then Inr Default
      else if s = ''auto'' then Inr Auto
      else if s = ''allow-all'' then Inr AllowAll
      else Inl (''invalid policy preset '' @ s))"

fun decision_display :: "exec_decision \<Rightarrow> string" where
  "decision_display Allow = ''allow''"
| "decision_display Ask = ''ask''"
| "decision_display Deny = ''deny''"

definition decision_from_str :: "string \<Rightarrow> wire_err + exec_decision" where
  "decision_from_str s =
     (if s = ''allow'' then Inr Allow
      else if s = ''ask'' then Inr Ask
      else if s = ''deny'' then Inr Deny
      else Inl (BadDecision s))"

fun class_display :: "permission_class \<Rightarrow> string" where
  "class_display Guest = ''guest''"
| "class_display Normal = ''normal''"

definition class_from_str :: "string \<Rightarrow> string + permission_class" where
  "class_from_str s =
     (if s = ''normal'' then Inr Normal else if s = ''guest'' then Inr Guest else Inl s)"

fun delegation_display :: "delegation_mode \<Rightarrow> string" where
  "delegation_display CarveOut = ''carve_out''"
| "delegation_display FullHandoff = ''full_handoff''"

definition delegation_from_str :: "string \<Rightarrow> string + delegation_mode" where
  "delegation_from_str s =
     (if s = ''carve_out'' then Inr CarveOut
      else if s = ''full_handoff'' then Inr FullHandoff else Inl s)"

definition DEFAULT_MAX_DEPTH :: u8 where "DEFAULT_MAX_DEPTH = 3"

definition new_profile :: "string \<Rightarrow> permission_profile" where
  "new_profile root = \<lparr>max_depth = DEFAULT_MAX_DEPTH, boundary_root = root\<rparr>"

definition subagent_profile :: "string \<Rightarrow> u8 \<Rightarrow> permission_profile" where
  "subagent_profile root supervisor_depth =
     \<lparr>max_depth = sat_sub supervisor_depth 1, boundary_root = root\<rparr>"

definition new_override :: "exec_decision \<Rightarrow> exec_override" where
  "new_override d = \<lparr>decision = d, reason = None\<rparr>"

definition with_reason :: "string \<Rightarrow> exec_override \<Rightarrow> exec_override" where
  "with_reason r o1 = o1\<lparr>reason := Some r\<rparr>"

subsection \<open>The two wire forms of an override\<close>

definition serialize_override :: "exec_override \<Rightarrow> wire" where
  "serialize_override o1 =
     (case reason o1 of
        None \<Rightarrow> WStr (decision_display (decision o1))
      | Some r \<Rightarrow> WMap [(''decision'', WStr (decision_display (decision o1))), (''reason'', WStr r)])"

definition is_space :: "char \<Rightarrow> bool" where
  "is_space c \<longleftrightarrow> (let n = of_char c :: nat in 9 \<le> n \<and> n \<le> 13 \<or> n = 32 \<or> n = 133 \<or> n = 160)"

definition trim :: "string \<Rightarrow> string" where
  "trim s = rev (dropWhile is_space (rev (dropWhile is_space s)))"

definition visit_str :: "string \<Rightarrow> wire_err + exec_override" where
  "visit_str v = rbind (decision_from_str (trim v)) (\<lambda>d. Inr (new_override d))"

fun decision_of_wire :: "wire \<Rightarrow> wire_err + exec_decision" where
  "decision_of_wire (WStr s) = decision_from_str s"
| "decision_of_wire _ = Inl BadType"

fun string_of_wire :: "wire \<Rightarrow> wire_err + string" where
  "string_of_wire (WStr s) = Inr s"
| "string_of_wire _ = Inl BadType"

fun visit_map ::
  "(string \<times> wire) list \<Rightarrow> exec_decision option \<Rightarrow> string option \<Rightarrow> wire_err + exec_override" where
  "visit_map [] d r = rbind (ok_or (MissingField ''decision'') d) (\<lambda>d'. Inr \<lparr>decision = d', reason = r\<rparr>)"
| "visit_map ((k, v) # kvs) d r =
     (if k = ''decision'' then
        (if d \<noteq> None then Inl (DuplicateField ''decision'')
         else rbind (decision_of_wire v) (\<lambda>d'. visit_map kvs (Some d') r))
      else if k = ''reason'' then
        (if r \<noteq> None then Inl (DuplicateField ''reason'')
         else rbind (string_of_wire v) (\<lambda>r'. visit_map kvs d (Some r')))
      else Inl (UnknownField k))"

fun deserialize_override :: "wire \<Rightarrow> wire_err + exec_override" where
  "deserialize_override (WStr s) = visit_str s"
| "deserialize_override (WMap kvs) = visit_map kvs None None"
| "deserialize_override WOther = Inl BadType"

subsection \<open>Effective decisions and strictness\<close>

definition override_for :: "exec_policy \<Rightarrow> string \<Rightarrow> exec_override option" where
  "override_for p name = map_of (overrides p) name"

definition effective :: "(string \<Rightarrow> exec_decision) \<Rightarrow> exec_policy \<Rightarrow> string \<Rightarrow> exec_decision" where
  "effective baseline p name =
     (case override_for p name of None \<Rightarrow> baseline name | Some o1 \<Rightarrow> decision o1)"

definition override_names :: "exec_policy \<Rightarrow> exec_policy \<Rightarrow> string list" where
  "override_names p q = sorted_list_of_set (set (map fst (overrides p) @ map fst (overrides q)))"

definition validate_at_least_as_strict_as ::
  "exec_policy \<Rightarrow> exec_policy \<Rightarrow> (string \<Rightarrow> exec_decision) \<Rightarrow> string list + unit" where
  "validate_at_least_as_strict_as self other baseline =
     (let violations =
        map (\<lambda>name. name @ '': '' @ decision_display (effective baseline self name)
               @ '' is less strict than parent's '' @ decision_display (effective baseline other name))
          (filter (\<lambda>name. effective baseline self name < effective baseline other name)
            (override_names self other))
      in if violations = [] then Inr () else Inl violations)"

definition ascii_lower :: "char \<Rightarrow> char" where
  "ascii_lower c =
     (let n = of_char c :: nat in if 65 \<le> n \<and> n \<le> 90 then char_of (n + 32) else c)"

definition to_ascii_lowercase :: "string \<Rightarrow> string" where
  "to_ascii_lowercase s = map ascii_lower s"

definition lowercase_keys :: "exec_policy \<Rightarrow> exec_policy" where
  "lowercase_keys p =
     p\<lparr>overrides := fold (\<lambda>(k, v). bt_insert k v)
         (map (\<lambda>(k, v). (to_ascii_lowercase k, v)) (overrides p)) []\<rparr>"

section \<open>Strictness is a preorder on effective decisions\<close>

definition stricter :: "(string \<Rightarrow> exec_decision) \<Rightarrow> exec_policy \<Rightarrow> exec_policy \<Rightarrow> bool" where
  "stricter baseline p q \<longleftrightarrow> (\<forall>name. effective baseline q name \<le> effective baseline p name)"

lemma stricter_refl: "stricter b p p"
  by (simp add: stricter_def)

lemma stricter_trans: "stricter b p q \<Longrightarrow> stricter b q r \<Longrightarrow> stricter b p r"
  unfolding stricter_def by (meson order.trans)

lemma set_override_names [simp]:
  "set (override_names p q) = fst ` set (overrides p) \<union> fst ` set (overrides q)"
  by (simp add: override_names_def)

lemma effective_no_override: "name \<notin> fst ` set (overrides p) \<Longrightarrow> effective b p name = b name"
  by (simp add: effective_def override_for_def map_of_eq_None_iff [THEN iffD2])

lemma validate_ok_iff: "is_ok (validate_at_least_as_strict_as p q b) \<longleftrightarrow> stricter b p q"
proof -
  have "is_ok (validate_at_least_as_strict_as p q b) \<longleftrightarrow>
      (\<forall>name \<in> set (override_names p q). effective b q name \<le> effective b p name)"
    by (auto simp: validate_at_least_as_strict_as_def Let_def filter_empty_conv not_less)
  also have "\<dots> \<longleftrightarrow> stricter b p q"
    unfolding stricter_def
    by (auto simp: not_less) (metis Un_iff effective_no_override order.refl)
  finally show ?thesis .
qed

section \<open>Lowercasing the keys\<close>

lemma ascii_lower_ge: "c \<le> ascii_lower c"
  by (auto simp: ascii_lower_def Let_def less_eq_char_def)

lemma ascii_lower_idem [simp]: "ascii_lower (ascii_lower c) = ascii_lower c"
  by (auto simp: ascii_lower_def Let_def)

lemma lowercase_idem [simp]: "to_ascii_lowercase (to_ascii_lowercase s) = to_ascii_lowercase s"
  by (simp add: to_ascii_lowercase_def)

lemma lowercase_ge: "s \<le> to_ascii_lowercase s"
proof (induction s)
  case (Cons c s)
  then show ?case
    using ascii_lower_ge [of c] by (auto simp: to_ascii_lowercase_def order.order_iff_strict)
qed (simp add: to_ascii_lowercase_def)

lemma override_lowercase_keys:
  "override_for (lowercase_keys p) name =
    map_of (rev (map (\<lambda>(k, v). (to_ascii_lowercase k, v)) (overrides p))) name"
  by (simp add: override_for_def lowercase_keys_def bt.get_fold_put split: option.split)

lemma map_of_rev_last:
  assumes "bt_valid m" "map_of m k = Some v" "f k = k" "\<And>k'. k' \<in> fst ` set m \<Longrightarrow> f k' = k \<Longrightarrow> k' \<le> k"
  shows "map_of (rev (map (\<lambda>(k, v). (f k, v)) m)) k = Some v"
  using assms
proof (induction m)
  case (Cons kv m)
  obtain a w where kv: "kv = (a, w)" by (cases kv)
  let ?rest = "map_of (rev (map (\<lambda>(k, v). (f k, v)) m)) k"
  show ?case
  proof (cases "a = k")
    case True
    then have "\<forall>k' \<in> fst ` set m. f k' \<noteq> k"
      using Cons.prems(1,4) by (force simp: kv bt_valid_Cons)
    then have "?rest = None" by (force simp: map_of_eq_None_iff)
    with True Cons.prems(2,3) show ?thesis by (simp add: kv map_add_def)
  next
    case False
    then have "?rest = Some v" using Cons by (auto simp: kv bt_valid_Cons)
    then show ?thesis by (simp add: kv map_add_def)
  qed
qed simp

section \<open>Properties\<close>

text \<open>
  The strictness check accepts a child policy exactly when, for every command name (not only
  the overridden ones it compares), the child's effective decision is at least as strict as the
  parent's under \<open>Allow < Ask < Deny\<close>.
\<close>

theorem validate_decides_strictness:
  "is_ok (validate_at_least_as_strict_as p q b) \<longleftrightarrow>
    (\<forall>name. effective b q name \<le> effective b p name)"
  by (simp add: validate_ok_iff stricter_def)

text \<open>
  Lowercasing the override keys makes every lookup name lowercase, an override that was already
  stored under the lowercase name always survives a collision with a mixed-case spelling, and
  the result stays a valid ordered map.
\<close>

theorem lowercase_keys_lookup:
  assumes "bt_valid (overrides p)"
  shows "bt_valid (overrides (lowercase_keys p)) \<and>
    (\<forall>name. override_for (lowercase_keys p) name \<noteq> None \<longrightarrow> to_ascii_lowercase name = name) \<and>
    (\<forall>name o1. override_for p name = Some o1 \<longrightarrow> to_ascii_lowercase name = name \<longrightarrow>
       override_for (lowercase_keys p) name = Some o1) \<and>
    (\<forall>name. override_for p name \<noteq> None \<longrightarrow>
       override_for (lowercase_keys p) (to_ascii_lowercase name) \<noteq> None)"
proof (intro conjI allI impI)
  show "bt_valid (overrides (lowercase_keys p))"
    by (simp add: lowercase_keys_def bt.valid_fold_put)
next
  fix name assume "override_for (lowercase_keys p) name \<noteq> None"
  then show "to_ascii_lowercase name = name"
    by (auto simp: override_lowercase_keys dest!: map_of_SomeD)
next
  fix name o1
  assume "override_for p name = Some o1" "to_ascii_lowercase name = name"
  then show "override_for (lowercase_keys p) name = Some o1"
    unfolding override_lowercase_keys
    using lowercase_ge by (intro map_of_rev_last [OF assms]) (auto simp: override_for_def)
next
  fix name assume "override_for p name \<noteq> None"
  then have "name \<in> fst ` set (overrides p)"
    by (auto simp: override_for_def map_of_eq_None_iff)
  then show "override_for (lowercase_keys p) (to_ascii_lowercase name) \<noteq> None"
    unfolding override_lowercase_keys map_of_eq_None_iff by force
qed

definition sample_policy :: exec_policy where
  "sample_policy = \<lparr>overrides = [(''Sed'', new_override Allow), (''sed'', new_override Deny)]\<rparr>"

theorem lowercase_keys_lookup_witness:
  "override_for (lowercase_keys sample_policy) ''sed'' = Some (new_override Deny)"
proof -
  have "bt_valid (overrides sample_policy)"
    by (simp add: sample_policy_def bt_valid_Cons less_char_def)
  moreover have "override_for sample_policy ''sed'' = Some (new_override Deny)"
    "to_ascii_lowercase ''sed'' = ''sed''"
    by code_simp+
  ultimately show ?thesis using lowercase_keys_lookup [of sample_policy] by blast
qed

text \<open>
  Round trips of the wire spellings: every override survives serialisation in either form (bare
  string without a reason, table with one), and every preset, decision, permission class and
  delegation mode is read back from its printed name.
\<close>

theorem wire_roundtrips:
  "deserialize_override (serialize_override o1) = Inr o1 \<and>
   preset_from_str (preset_display pr) = Inr pr \<and>
   decision_from_str (decision_display d) = Inr d \<and>
   class_from_str (class_display c) = Inr c \<and>
   delegation_from_str (delegation_display m) = Inr m"
proof (intro conjI)
  have "trim (decision_display d') = decision_display d'" for d'
    by (cases d') (simp_all add: trim_def is_space_def)
  moreover have dec: "decision_from_str (decision_display d') = Inr d'" for d'
    by (cases d') (simp_all add: decision_from_str_def)
  ultimately show "deserialize_override (serialize_override o1) = Inr o1"
    by (cases o1) (simp add: serialize_override_def visit_str_def new_override_def split: option.split)
  show "decision_from_str (decision_display d) = Inr d" by (rule dec)
  show "preset_from_str (preset_display pr) = Inr pr" by (cases pr) (simp_all add: preset_from_str_def)
  show "class_from_str (class_display c) = Inr c" by (cases c) (simp_all add: class_from_str_def)
  show "delegation_from_str (delegation_display m) = Inr m"
    by (cases m) (simp_all add: delegation_from_str_def)
qed

end
