(* ===== verification/Registry.thy ===== *)
theory Registry
  imports Policy
begin

text \<open>
  The agent registry of the tagma daemon and its supervision hierarchy
  (\<open>kallip-tagma/src/state.rs\<close>: \<open>RegistryEntry\<close>, \<open>AgentRegistry\<close>), with the chain validators that
  restore runs over it (\<open>kallip-tagma/src/lifecycle/restore.rs\<close>).

  An entry is live or faulted; both carry the durable identity. Of the configuration only the
  fields these components read are kept; of a live agent's runtime handle only the hash of its
  auth token. The invalidation channel is its generation counter together with whether anybody
  subscribes (\<open>watch::Sender::send\<close> leaves the value alone without receivers).

  The chain walks are loops with a visited set; they are recursive functions whose termination
  proof is that every iteration visits one more registered id. The locale \<open>delegation\<close> is what
  the lock coordinator needs of the hierarchy; it is interpreted on the chains of any registry.
\<close>

section \<open>Data\<close>

type_synonym agent_id = string
type_synonym token_hash = string

record agent_config =
  cfg_created_by :: "agent_id option"
  cfg_workspace_root :: string
  cfg_permissions_class :: permission_class
  cfg_delegation_mode :: delegation_mode
  cfg_role :: string
  cfg_description :: string
  cfg_profile_set :: "string option"
  cfg_permissions :: permission_profile

record agent_identity =
  config :: agent_config
  agent_dir :: "string option"

record agent_entry =
  ae_identity :: agent_identity
  ae_auth_token_hash :: token_hash
  ae_subagent_ids :: "agent_id list"
  ae_exec_policy :: exec_policy

record faulted_entry =
  fe_identity :: agent_identity
  fe_subagent_ids :: "agent_id list"
  fe_reason :: string
  fe_at :: u64

datatype registry_entry = Live agent_entry | Faulted faulted_entry

record agent_registry =
  rg_agents :: "(agent_id, registry_entry) hash_map"
  rg_token_index :: "(token_hash, agent_id) hash_map"
  rg_generation :: u64
  rg_subscribed :: bool

datatype identity = Operator | Agent agent_id

datatype api_err =
    NotFound string
  | Forbidden string
  | Conflict string
  | Internal string
  | Unavailable string

datatype sender_relation = RelOperator | Superior | Subordinate | Peer | Same | Unknown

section \<open>Entries\<close>

fun identity_of :: "registry_entry \<Rightarrow> agent_identity" where
  "identity_of (Live e) = ae_identity e"
| "identity_of (Faulted e) = fe_identity e"

fun subagent_ids :: "registry_entry \<Rightarrow> agent_id list" where
  "subagent_ids (Live e) = ae_subagent_ids e"
| "subagent_ids (Faulted e) = fe_subagent_ids e"

fun set_subagent_ids :: "agent_id list \<Rightarrow> registry_entry \<Rightarrow> registry_entry" where
  "set_subagent_ids ids (Live e) = Live (e\<lparr>ae_subagent_ids := ids\<rparr>)"
| "set_subagent_ids ids (Faulted e) = Faulted (e\<lparr>fe_subagent_ids := ids\<rparr>)"

fun as_live :: "registry_entry \<Rightarrow> agent_entry option" where
  "as_live (Live e) = Some e"
| "as_live (Faulted _) = None"

definition created_by :: "registry_entry \<Rightarrow> agent_id option" where
  "created_by e = cfg_created_by (config (identity_of e))"

definition is_root :: "agent_config \<Rightarrow> bool" where
  "is_root c \<longleftrightarrow> cfg_created_by c = None"

section \<open>The registry\<close>

definition with_invalidation :: "bool \<Rightarrow> u64 \<Rightarrow> agent_registry" where
  "with_invalidation subscribed gen =
     \<lparr>rg_agents = [], rg_token_index = [], rg_generation = gen, rg_subscribed = subscribed\<rparr>"

definition notify_invalidation :: "agent_registry \<Rightarrow> agent_registry" where
  "notify_invalidation r =
     (if rg_subscribed r then r\<lparr>rg_generation := rg_generation r + 1\<rparr> else r)"

definition registry_get :: "agent_registry \<Rightarrow> agent_id \<Rightarrow> registry_entry option" where
  "registry_get r aid = map_of (rg_agents r) aid"

definition get_agent_id_by_token :: "agent_registry \<Rightarrow> token_hash \<Rightarrow> agent_id option" where
  "get_agent_id_by_token r h = map_of (rg_token_index r) h"

definition update_subagents ::
  "(agent_id list \<Rightarrow> agent_id list) \<Rightarrow> agent_id option \<Rightarrow>
   (agent_id, registry_entry) hash_map \<Rightarrow> (agent_id, registry_entry) hash_map" where
  "update_subagents f supervisor agents =
     (case supervisor of
        None \<Rightarrow> agents
      | Some s \<Rightarrow>
          (case map_of agents s of
             None \<Rightarrow> agents
           | Some e \<Rightarrow> AList.update s (set_subagent_ids (f (subagent_ids e)) e) agents))"

definition index_token :: "agent_id \<Rightarrow> registry_entry \<Rightarrow> (token_hash, agent_id) hash_map \<Rightarrow> (token_hash, agent_id) hash_map" where
  "index_token aid e idx =
     (case as_live e of None \<Rightarrow> idx | Some l \<Rightarrow> AList.update (ae_auth_token_hash l) aid idx)"

definition register_no_subagent_push :: "agent_id \<Rightarrow> registry_entry \<Rightarrow> agent_registry \<Rightarrow> agent_registry" where
  "register_no_subagent_push aid e r =
     notify_invalidation
       (r\<lparr>rg_token_index := index_token aid e (rg_token_index r),
          rg_agents := AList.update aid e (rg_agents r)\<rparr>)"

definition register :: "agent_id \<Rightarrow> registry_entry \<Rightarrow> agent_registry \<Rightarrow> agent_registry" where
  "register aid e r =
     notify_invalidation
       (r\<lparr>rg_token_index := index_token aid e (rg_token_index r),
          rg_agents := AList.update aid e
            (update_subagents (\<lambda>ids. ids @ [aid]) (created_by e) (rg_agents r))\<rparr>)"

definition root_agent :: "agent_registry \<Rightarrow> (agent_id \<times> registry_entry) option" where
  "root_agent r = List.find (\<lambda>(_, e). is_root (config (identity_of e))) (rg_agents r)"

definition register_root :: "agent_id \<Rightarrow> registry_entry \<Rightarrow> agent_registry \<Rightarrow> api_err + agent_registry" where
  "register_root aid e r =
     (if created_by e \<noteq> None then Inl (Internal ''register_root: entry is not a root (created_by is set)'')
      else if root_agent r \<noteq> None
      then Inl (Conflict ''a root agent already exists; the tagma owns exactly one root'')
      else Inr (register aid e r))"

definition unregister :: "agent_id \<Rightarrow> agent_registry \<Rightarrow> registry_entry option \<times> agent_registry" where
  "unregister aid r =
     (case map_of (rg_agents r) aid of
        None \<Rightarrow> (None, r)
      | Some e \<Rightarrow>
          (Some e,
           notify_invalidation
             (r\<lparr>rg_token_index := (case as_live e of
                    None \<Rightarrow> rg_token_index r
                  | Some l \<Rightarrow> AList.delete (ae_auth_token_hash l) (rg_token_index r)),
                rg_agents := update_subagents (filter (\<lambda>sid. sid \<noteq> aid)) (created_by e)
                  (AList.delete aid (rg_agents r))\<rparr>)))"

definition drain :: "agent_registry \<Rightarrow> (agent_id \<times> registry_entry) list \<times> agent_registry" where
  "drain r = (rg_agents r, notify_invalidation (r\<lparr>rg_token_index := [], rg_agents := []\<rparr>))"

section \<open>Supervisor chains\<close>

text \<open>The loop both chain walkers share: the ids and entries from \<open>cur\<close> up to the root.\<close>

function chain_walk ::
  "(agent_id, registry_entry) hash_map \<Rightarrow> agent_id list \<Rightarrow> agent_id \<Rightarrow>
   api_err + (agent_id \<times> registry_entry) list" where
  "chain_walk agents visited cur =
     (if cur \<in> set visited then Inl (Forbidden ''circular supervisor chain'')
      else case map_of agents cur of
             None \<Rightarrow> Inl (Forbidden ''broken supervisor chain'')
           | Some e \<Rightarrow>
               (case created_by e of
                  None \<Rightarrow> Inr [(cur, e)]
                | Some s \<Rightarrow> rbind (chain_walk agents (cur # visited) s) (\<lambda>c. Inr ((cur, e) # c))))"
  by auto

termination
proof (relation "measure (\<lambda>(agents, visited, _). card (fst ` set agents - set visited))", goal_cases)
  case (2 agents visited cur e s)
  then have "cur \<in> fst ` set agents - set visited"
    by (auto dest!: map_of_SomeD intro: rev_image_eqI)
  then have "fst ` set agents - set (cur # visited) \<subset> fst ` set agents - set visited" by auto
  then show ?case by (auto intro!: psubset_card_mono)
qed simp

declare chain_walk.simps [simp del]

definition walk_supervisor_chain :: "agent_registry \<Rightarrow> agent_id \<Rightarrow> api_err + registry_entry list" where
  "walk_supervisor_chain r start = rbind (chain_walk (rg_agents r) [] start) (\<lambda>c. Inr (map snd c))"

definition supervisor_chain_ids :: "agent_registry \<Rightarrow> agent_id \<Rightarrow> api_err + agent_id list" where
  "supervisor_chain_ids r start = rbind (chain_walk (rg_agents r) [] start) (\<lambda>c. Inr (map fst c))"

definition chain_has :: "agent_id \<Rightarrow> api_err + agent_id list \<Rightarrow> bool" where
  "chain_has x c = (case c of Inl _ \<Rightarrow> False | Inr ids \<Rightarrow> x \<in> set (tl ids))"

definition relation_of :: "agent_registry \<Rightarrow> agent_id option \<Rightarrow> agent_id \<Rightarrow> sender_relation" where
  "relation_of r sender receiver =
     (case sender of
        None \<Rightarrow> RelOperator
      | Some sid \<Rightarrow>
          if sid = receiver then Same
          else if chain_has sid (supervisor_chain_ids r receiver) then Superior
          else if chain_has receiver (supervisor_chain_ids r sid) then Subordinate
          else if \<not> is_ok (supervisor_chain_ids r receiver) \<or> \<not> is_ok (supervisor_chain_ids r sid)
          then Unknown else Peer)"

section \<open>Authorisation\<close>

definition require_supervisor :: "agent_registry \<Rightarrow> identity \<Rightarrow> agent_id \<Rightarrow> api_err + registry_entry" where
  "require_supervisor r who boss =
     rbind (ok_or (NotFound (''supervisor agent '' @ boss @ '' not found'')) (registry_get r boss))
       (\<lambda>e. if who = Operator \<or> who = Agent boss then Inr e
            else Inl (Forbidden ''invalid auth token for supervisor agent''))"

definition require_superior :: "agent_registry \<Rightarrow> identity \<Rightarrow> agent_id \<Rightarrow> api_err + unit" where
  "require_superior r who target =
     (case who of
        Operator \<Rightarrow> Inr ()
      | Agent caller \<Rightarrow>
          rbind (walk_supervisor_chain r target) (\<lambda>chain.
            if \<exists>e \<in> set chain. created_by e = Some caller then Inr ()
            else Inl (Forbidden ''not authorized to manage this agent'')))"

definition require_direct_supervisor :: "agent_registry \<Rightarrow> identity \<Rightarrow> agent_id \<Rightarrow> api_err + unit" where
  "require_direct_supervisor r who target =
     rbind (ok_or (NotFound (''agent '' @ target @ '' not found'')) (registry_get r target))
       (\<lambda>e. case who of
              Operator \<Rightarrow> Inr ()
            | Agent caller \<Rightarrow>
                if created_by e = Some caller then Inr ()
                else Inl (Forbidden ''only the direct supervisor may change this agent's metadata''))"

definition require_self_or_operator :: "agent_registry \<Rightarrow> identity \<Rightarrow> agent_id \<Rightarrow> api_err + unit" where
  "require_self_or_operator r who target =
     (if who = Operator \<or> who = Agent target then Inr ()
      else Inl (Forbidden ''only the agent itself or operator is authorized for this action''))"

definition require_self :: "agent_registry \<Rightarrow> identity \<Rightarrow> agent_id \<Rightarrow> api_err + unit" where
  "require_self r who target =
     (if who = Agent target then Inr ()
      else Inl (Forbidden ''only the agent itself may send as that agent''))"

section \<open>The hierarchy as an interface\<close>

text \<open>
  What clients of the hierarchy rely on: the strict ancestors of an ancestor are ancestors, and no
  agent is above itself.
\<close>

locale delegation =
  fixes anc_of :: "agent_id \<Rightarrow> agent_id list"
  assumes anc_trans: "a \<in> set (anc_of b) \<Longrightarrow> set (anc_of a) \<subseteq> set (anc_of b)"
    and anc_irrefl: "a \<notin> set (anc_of a)"
begin

lemma anc_antisym: "a \<in> set (anc_of b) \<Longrightarrow> b \<notin> set (anc_of a)"
  using anc_trans anc_irrefl by blast

end

text \<open>
  The chain the tagma passes to \<open>acquire\<close> for a registered agent: the ids above it, or nothing
  where the walk fails (the callers then refuse to go on).
\<close>

definition strict_ancestors :: "agent_registry \<Rightarrow> agent_id \<Rightarrow> agent_id list" where
  "strict_ancestors r a = (case supervisor_chain_ids r a of Inl _ \<Rightarrow> [] | Inr ids \<Rightarrow> tl ids)"

text \<open>Reference: the path of \<open>created_by\<close> links from an agent to a root.\<close>

inductive root_path :: "(agent_id, registry_entry) hash_map \<Rightarrow> agent_id \<Rightarrow> (agent_id \<times> registry_entry) list \<Rightarrow> bool"
  for agents where
  rp_root: "map_of agents a = Some e \<Longrightarrow> created_by e = None \<Longrightarrow> root_path agents a [(a, e)]"
| rp_up: "map_of agents a = Some e \<Longrightarrow> created_by e = Some s \<Longrightarrow> root_path agents s c \<Longrightarrow>
     root_path agents a ((a, e) # c)"

inductive_cases root_pathE: "root_path agents a c"

lemma root_path_unique: "root_path agents a c \<Longrightarrow> root_path agents a c' \<Longrightarrow> c' = c"
proof (induction arbitrary: c' rule: root_path.induct)
  case (rp_root a e)
  then show ?case by (auto elim: root_pathE)
next
  case (rp_up a e s c)
  from rp_up.prems rp_up.hyps(1,2) obtain c'' where "root_path agents s c''" "c' = (a, e) # c''"
    by (auto elim: root_pathE)
  with rp_up.IH show ?case by simp
qed

lemma root_path_suffix:
  "root_path agents a c \<Longrightarrow> (b, e) \<in> set c \<Longrightarrow> \<exists>pre post. c = pre @ (b, e) # post \<and> root_path agents b ((b, e) # post)"
proof (induction rule: root_path.induct)
  case (rp_root a e')
  then show ?case by (intro exI [of _ "[]"]) (auto intro: root_path.rp_root)
next
  case (rp_up a e' s c)
  show ?case
  proof (cases "(b, e) = (a, e')")
    case True
    then show ?thesis using root_path.rp_up [OF rp_up.hyps] by (intro exI [of _ "[]"] exI [of _ c]) simp
  next
    case False
    then obtain pre post where "c = pre @ (b, e) # post" "root_path agents b ((b, e) # post)"
      using rp_up by auto
    then show ?thesis by (intro exI [of _ "(a, e') # pre"] exI [of _ post]) simp
  qed
qed

lemma root_path_distinct: "root_path agents a c \<Longrightarrow> distinct (map fst c)"
proof (induction rule: root_path.induct)
  case (rp_up a e s c)
  have "a \<notin> fst ` set c"
  proof
    assume "a \<in> fst ` set c"
    then obtain e' where "(a, e') \<in> set c" by auto
    then obtain pre post where *: "c = pre @ (a, e') # post" "root_path agents a ((a, e') # post)"
      using root_path_suffix [OF rp_up.hyps(3)] by blast
    with root_path_unique [OF _ root_path.rp_up [OF rp_up.hyps]] have "(a, e) # c = (a, e') # post"
      by blast
    then have "length c = length post" by simp
    with * show False by simp
  qed
  with rp_up show ?case by simp
qed simp

lemma chain_walk_sound: "chain_walk agents visited a = Inr c \<Longrightarrow> root_path agents a c"
proof (induction agents visited a arbitrary: c rule: chain_walk.induct)
  case (1 agents visited cur)
  from 1(2) obtain e where e: "cur \<notin> set visited" "map_of agents cur = Some e"
    by (subst (asm) chain_walk.simps) (auto split: if_splits option.splits)
  show ?case
  proof (cases "created_by e")
    case None
    with 1(2) e show ?thesis by (auto simp: chain_walk.simps [of _ _ cur] intro: root_path.rp_root)
  next
    case (Some s)
    with 1(2) e obtain c' where "chain_walk agents (cur # visited) s = Inr c'" "c = (cur, e) # c'"
      by (auto simp: chain_walk.simps [of _ _ cur] rbind_Inr_iff)
    with 1(1) e Some show ?thesis by (auto intro: root_path.rp_up)
  qed
qed

lemma chain_walk_complete:
  "root_path agents a c \<Longrightarrow> fst ` set c \<inter> set visited = {} \<Longrightarrow> chain_walk agents visited a = Inr c"
proof (induction arbitrary: visited rule: root_path.induct)
  case (rp_root a e)
  then show ?case by (subst chain_walk.simps) simp
next
  case (rp_up a e s c)
  have "a \<notin> fst ` set c" using root_path_distinct [OF root_path.rp_up [OF rp_up.hyps]] by simp
  with rp_up show ?case by (subst chain_walk.simps) simp
qed

lemma chain_walk_iff: "chain_walk agents [] a = Inr c \<longleftrightarrow> root_path agents a c"
  using chain_walk_sound [of agents "[]" a c] chain_walk_complete [of agents a c "[]"] by auto

lemma chain_ids_Inr:
  "supervisor_chain_ids r a = Inr ids \<longleftrightarrow> (\<exists>c. root_path (rg_agents r) a c \<and> ids = map fst c)"
  by (auto simp: supervisor_chain_ids_def rbind_Inr_iff chain_walk_iff)

lemma root_path_hd: "root_path agents a c \<Longrightarrow> \<exists>e c'. c = (a, e) # c'"
  by (auto elim: root_pathE)

lemma strict_ancestors_iff:
  "x \<in> set (strict_ancestors r a) \<longleftrightarrow> (\<exists>c. root_path (rg_agents r) a c \<and> x \<in> fst ` set (tl c))"
proof (cases "supervisor_chain_ids r a")
  case (Inl e)
  then have "\<not> root_path (rg_agents r) a c" for c using chain_ids_Inr by (metis sum.distinct(1))
  then show ?thesis by (simp add: strict_ancestors_def Inl)
next
  case (Inr ids)
  then obtain c where "root_path (rg_agents r) a c" "ids = map fst c" by (auto simp: chain_ids_Inr)
  moreover from this have "x \<in> set (strict_ancestors r a) \<longleftrightarrow> x \<in> fst ` set (tl c)"
    by (simp add: strict_ancestors_def Inr flip: map_tl)
  ultimately show ?thesis using root_path_unique by blast
qed

interpretation hierarchy: delegation "strict_ancestors r" for r
proof
  fix a b
  assume "a \<in> set (strict_ancestors r b)"
  then obtain c where c: "root_path (rg_agents r) b c" and a: "a \<in> fst ` set (tl c)"
    by (auto simp: strict_ancestors_iff)
  from a obtain e where "(a, e) \<in> set (tl c)" by auto
  moreover obtain e0 c0 where c0: "c = (b, e0) # c0" using root_path_hd [OF c] by blast
  ultimately have ae: "(a, e) \<in> set c0" by simp
  then obtain pre post where post: "c = pre @ (a, e) # post" "root_path (rg_agents r) a ((a, e) # post)"
    using root_path_suffix [OF c] c0 by (metis list.set_intros(2))
  have "pre \<noteq> []" using post(1) ae c0 root_path_distinct [OF c] by (cases pre) (auto simp: image_iff)
  then have "set post \<subseteq> set (tl c)" using post(1) by (cases pre) auto
  then show "set (strict_ancestors r a) \<subseteq> set (strict_ancestors r b)"
  proof (intro subsetI)
    fix x assume "x \<in> set (strict_ancestors r a)"
    then have "x \<in> fst ` set post"
      by (auto simp: strict_ancestors_iff dest!: root_path_unique [OF post(2)] intro: rev_image_eqI)
    with \<open>set post \<subseteq> set (tl c)\<close> c show "x \<in> set (strict_ancestors r b)"
      by (auto simp: strict_ancestors_iff)
  qed
next
  fix a
  show "a \<notin> set (strict_ancestors r a)"
  proof
    assume "a \<in> set (strict_ancestors r a)"
    then obtain c where "root_path (rg_agents r) a c" "a \<in> fst ` set (tl c)"
      by (auto simp: strict_ancestors_iff)
    with root_path_hd obtain e c' where "root_path (rg_agents r) a ((a, e) # c')" "a \<in> fst ` set c'"
      by fastforce
    then show False using root_path_distinct [of "rg_agents r" a "(a, e) # c'"] by simp
  qed
qed


section \<open>Consistency of the index\<close>

text \<open>What the invariant sees of an entry: its supervisor and, for a live one, its token hash.\<close>

definition entry_key :: "registry_entry \<Rightarrow> agent_id option \<times> token_hash option" where
  "entry_key e = (created_by e, map_option ae_auth_token_hash (as_live e))"

definition key_at :: "(agent_id, registry_entry) hash_map \<Rightarrow> agent_id \<Rightarrow> (agent_id option \<times> token_hash option) option" where
  "key_at agents a = map_option entry_key (map_of agents a)"

definition registry_ok :: "agent_registry \<Rightarrow> bool" where
  "registry_ok r \<longleftrightarrow> hm_valid (rg_agents r) \<and> hm_valid (rg_token_index r) \<and>
     (\<forall>h a. map_of (rg_token_index r) h = Some a \<longleftrightarrow> (\<exists>c. key_at (rg_agents r) a = Some (c, Some h))) \<and>
     (\<forall>a b t u. key_at (rg_agents r) a = Some (None, t) \<longrightarrow> key_at (rg_agents r) b = Some (None, u) \<longrightarrow> a = b)"

text \<open>
  Steps: the mutators as production code calls them, subagents through \<open>register\<close> or the
  pre-reserved form, the root only through \<open>register_root\<close>, with a fresh id and a fresh token.
\<close>

definition fresh_entry :: "agent_registry \<Rightarrow> agent_id \<Rightarrow> registry_entry \<Rightarrow> bool" where
  "fresh_entry r aid e \<longleftrightarrow> registry_get r aid = None \<and>
     (\<forall>l. as_live e = Some l \<longrightarrow> get_agent_id_by_token r (ae_auth_token_hash l) = None)"

inductive registry_step :: "agent_registry \<Rightarrow> agent_registry \<Rightarrow> bool" where
  rs_subagent: "fresh_entry r aid e \<Longrightarrow> created_by e \<noteq> None \<Longrightarrow> registry_step r (register aid e r)"
| rs_reserved: "fresh_entry r aid e \<Longrightarrow> created_by e \<noteq> None \<Longrightarrow>
     registry_step r (register_no_subagent_push aid e r)"
| rs_root: "fresh_entry r aid e \<Longrightarrow> register_root aid e r = Inr r' \<Longrightarrow> registry_step r r'"
| rs_unregister: "registry_step r (snd (unregister aid r))"
| rs_drain: "registry_step r (snd (drain r))"

lemma notify_frame [simp]:
  "rg_agents (notify_invalidation r) = rg_agents r"
  "rg_token_index (notify_invalidation r) = rg_token_index r"
  by (simp_all add: notify_invalidation_def)

lemma registry_ok_notify [simp]: "registry_ok (notify_invalidation r) = registry_ok r"
  by (simp add: registry_ok_def)

lemma entry_key_set_subagents [simp]: "entry_key (set_subagent_ids ids e) = entry_key e"
  by (cases e) (simp_all add: entry_key_def created_by_def)

lemma key_at_update_subagents [simp]: "key_at (update_subagents f s agents) = key_at agents"
  by (auto simp: update_subagents_def key_at_def AList.update_conv' fun_eq_iff split: option.split)

lemma valid_update_subagents [simp]: "hm_valid agents \<Longrightarrow> hm_valid (update_subagents f s agents)"
  by (auto simp: update_subagents_def hm.valid_put split: option.split)

lemma key_at_update: "key_at (AList.update aid e agents) a = (if a = aid then Some (entry_key e) else key_at agents a)"
  by (simp add: key_at_def AList.update_conv')

lemma key_at_delete: "key_at (AList.delete aid agents) a = (if a = aid then None else key_at agents a)"
  by (simp add: key_at_def AList.delete_conv')

lemma valid_index_token [simp]: "hm_valid idx \<Longrightarrow> hm_valid (index_token aid e idx)"
  by (auto simp: index_token_def hm.valid_put split: option.split)

lemma map_of_index_token:
  "map_of (index_token aid e idx) h = (if snd (entry_key e) = Some h then Some aid else map_of idx h)"
  by (cases "as_live e") (auto simp: index_token_def entry_key_def AList.update_conv')

lemma registry_ok_insert:
  assumes ok: "registry_ok r" and fresh: "fresh_entry r aid e"
    and keys: "key_at agents = key_at (rg_agents r)" and valid: "hm_valid agents"
    and root: "created_by e = None \<Longrightarrow> \<forall>a t. key_at (rg_agents r) a \<noteq> Some (None, t)"
  shows "registry_ok (r\<lparr>rg_token_index := index_token aid e (rg_token_index r),
    rg_agents := AList.update aid e agents\<rparr>)"
proof -
  have new: "key_at (rg_agents r) aid = None"
    using fresh by (simp add: fresh_entry_def registry_get_def key_at_def)
  have tok: "map_of (rg_token_index r) h = None" if "snd (entry_key e) = Some h" for h
    using fresh that by (auto simp: fresh_entry_def get_agent_id_by_token_def entry_key_def)
  have key: "entry_key e = (created_by e, snd (entry_key e))" by (simp add: entry_key_def)
  have idx: "map_of (index_token aid e (rg_token_index r)) h = Some a \<longleftrightarrow>
      (\<exists>c. key_at (AList.update aid e agents) a = Some (c, Some h))" for h a
  proof (cases "a = aid")
    case True
    then show ?thesis
      using ok new key by (auto simp: map_of_index_token key_at_update registry_ok_def)
  next
    case False
    then show ?thesis
      using ok tok by (auto simp: map_of_index_token key_at_update keys registry_ok_def)
        (metis option.distinct(1))
  qed
  have "a = b" if "key_at (AList.update aid e agents) a = Some (None, t)"
    "key_at (AList.update aid e agents) b = Some (None, u)" for a b t u
    using that ok root key by (auto simp: key_at_update keys registry_ok_def split: if_splits)
  with idx show ?thesis
    using ok valid by (auto simp: registry_ok_def hm.valid_put)
qed

lemma find_None_root:
  assumes "root_agent r = None"
  shows "key_at (rg_agents r) a \<noteq> Some (None, t)"
  using assms
  by (auto simp: root_agent_def find_None_iff key_at_def entry_key_def is_root_def created_by_def
      dest!: map_of_SomeD)

lemma registry_ok_unregister:
  assumes ok: "registry_ok r"
  shows "registry_ok (snd (unregister aid r))"
proof (cases "map_of (rg_agents r) aid")
  case None
  then show ?thesis using ok by (simp add: unregister_def)
next
  case (Some e)
  let ?idx = "case as_live e of None \<Rightarrow> rg_token_index r
    | Some l \<Rightarrow> AList.delete (ae_auth_token_hash l) (rg_token_index r)"
  have key: "key_at (rg_agents r) aid = Some (created_by e, snd (entry_key e))"
    by (simp add: key_at_def Some entry_key_def)
  have del: "map_of ?idx h = (if snd (entry_key e) = Some h then None else map_of (rg_token_index r) h)" for h
    by (cases "as_live e") (auto simp: entry_key_def AList.delete_conv')
  have idx: "map_of ?idx h = Some a \<longleftrightarrow> (\<exists>c. a \<noteq> aid \<and> key_at (rg_agents r) a = Some (c, Some h))" for h a
    using ok key by (auto simp: del registry_ok_def) (metis option.inject)+
  have "hm_valid ?idx" "hm_valid (AList.delete aid (rg_agents r))"
    using ok by (auto simp: registry_ok_def hm_valid_def distinct_delete split: option.split)
  with idx show ?thesis
    using ok by (simp add: unregister_def Some) (auto simp: registry_ok_def key_at_delete)
qed

lemma registry_step_ok: "registry_step r r' \<Longrightarrow> registry_ok r \<Longrightarrow> registry_ok r'"
proof (induction rule: registry_step.induct)
  case (rs_subagent r aid e)
  then show ?case by (auto simp: register_def registry_ok_def [of r] intro!: registry_ok_insert)
next
  case (rs_reserved r aid e)
  then show ?case
    by (auto simp: register_no_subagent_push_def registry_ok_def [of r] intro!: registry_ok_insert)
next
  case (rs_root r aid e r')
  then have "root_agent r = None" "r' = register aid e r"
    by (cases "root_agent r"; simp add: register_root_def split: if_splits)+
  with rs_root show ?case
    using find_None_root [of r] by (auto simp: register_def registry_ok_def [of r] intro!: registry_ok_insert)
next
  case (rs_unregister r aid)
  then show ?case by (rule registry_ok_unregister)
next
  case (rs_drain r)
  then show ?case by (simp add: drain_def registry_ok_def key_at_def hm_valid_def)
qed

interpretation registry: inv_system "\<lambda>r. \<exists>sub gen. r = with_invalidation sub gen" registry_step registry_ok
proof
  show "registry_ok r" if "\<exists>sub gen. r = with_invalidation sub gen" for r
    using that by (auto simp: with_invalidation_def registry_ok_def key_at_def hm_valid_def)
qed (rule registry_step_ok)


section \<open>Who may manage whom\<close>

lemma strict_ancestors_path:
  "root_path (rg_agents r) a c \<Longrightarrow> set (strict_ancestors r a) = fst ` set (tl c)"
  by (rule set_eqI) (metis strict_ancestors_iff root_path_unique)

lemma root_path_supervisors:
  "root_path agents a c \<Longrightarrow> (\<exists>e \<in> set (map snd c). created_by e = Some x) \<longleftrightarrow> x \<in> fst ` set (tl c)"
proof (induction rule: root_path.induct)
  case (rp_up a e s c)
  moreover obtain e' c' where "c = (s, e') # c'" using root_path_hd [OF rp_up.hyps(3)] by blast
  ultimately show ?case by auto
qed auto

lemma require_superior_agent:
  "is_ok (require_superior r (Agent x) target) \<longleftrightarrow> x \<in> set (strict_ancestors r target)"
proof (cases "chain_walk (rg_agents r) [] target")
  case (Inl e)
  then have "\<not> root_path (rg_agents r) target c" for c using chain_walk_iff by (metis sum.distinct(1))
  with Inl show ?thesis
    by (simp add: require_superior_def walk_supervisor_chain_def strict_ancestors_iff)
next
  case (Inr c)
  then have c: "root_path (rg_agents r) target c" by (simp add: chain_walk_iff)
  from root_path_supervisors [OF c, of x] show ?thesis
    by (simp add: require_superior_def walk_supervisor_chain_def strict_ancestors_path [OF c] Inr)
qed

lemma chain_has_iff: "chain_has x (supervisor_chain_ids r a) \<longleftrightarrow> x \<in> set (strict_ancestors r a)"
  by (simp add: chain_has_def strict_ancestors_def split: sum.split)

section \<open>Properties\<close>

lemma registry_reachable_facts:
  assumes "reaches (\<lambda>r. \<exists>sub gen. r = with_invalidation sub gen) registry_step r"
  shows "get_agent_id_by_token r h = Some a \<longleftrightarrow>
      (\<exists>l. registry_get r a = Some (Live l) \<and> ae_auth_token_hash l = h)"
    and "registry_get r a = Some e \<Longrightarrow> registry_get r b = Some e' \<Longrightarrow>
      created_by e = None \<Longrightarrow> created_by e' = None \<Longrightarrow> a = b"
proof -
  have ok: "registry_ok r" using assms by (rule registry.reaches_inv)
  have "(\<exists>l. registry_get r a = Some (Live l) \<and> ae_auth_token_hash l = h) \<longleftrightarrow>
      (\<exists>c. key_at (rg_agents r) a = Some (c, Some h))"
    by (auto simp: registry_get_def key_at_def entry_key_def elim!: as_live.elims)
  with ok show "get_agent_id_by_token r h = Some a \<longleftrightarrow>
      (\<exists>l. registry_get r a = Some (Live l) \<and> ae_auth_token_hash l = h)"
    by (simp add: registry_ok_def get_agent_id_by_token_def)
  show "a = b" if "registry_get r a = Some e" "registry_get r b = Some e'"
    "created_by e = None" "created_by e' = None"
  proof -
    have "key_at (rg_agents r) a = Some (None, snd (entry_key e))"
      "key_at (rg_agents r) b = Some (None, snd (entry_key e'))"
      using that by (simp_all add: key_at_def entry_key_def registry_get_def)
    with ok show ?thesis unfolding registry_ok_def by blast
  qed
qed


definition sample_entry :: "agent_id option \<Rightarrow> token_hash \<Rightarrow> registry_entry" where
  "sample_entry boss h = Live \<lparr>ae_identity = \<lparr>config = \<lparr>cfg_created_by = boss, cfg_workspace_root = ''/w'',
     cfg_permissions_class = Normal, cfg_delegation_mode = CarveOut, cfg_role = ''r'',
     cfg_description = [], cfg_profile_set = None, cfg_permissions = new_profile ''/w''\<rparr>, agent_dir = None\<rparr>,
     ae_auth_token_hash = h, ae_subagent_ids = [], ae_exec_policy = \<lparr>overrides = []\<rparr>\<rparr>"

definition sample_registry :: agent_registry where
  "sample_registry = register ''root'' (sample_entry None ''h0'') (with_invalidation True 0)"


text \<open>
  The chain walk always returns; it succeeds exactly when the \<open>created_by\<close> links lead from the
  agent to a root through registered agents, its result is that path (from the agent itself to
  the root), and no agent occurs on it twice. On a missing link or a cycle it answers forbidden.
\<close>

theorem supervisor_chain_exact:
  "(supervisor_chain_ids r a = Inr ids \<longleftrightarrow> (\<exists>c. root_path (rg_agents r) a c \<and> ids = map fst c)) \<and>
   (\<forall>c. root_path (rg_agents r) a c \<longrightarrow> distinct (map fst c) \<and> hd (map fst c) = a) \<and>
   (supervisor_chain_ids r a = Inl err \<longrightarrow> (\<exists>msg. err = Forbidden msg) \<and> (\<nexists>c. root_path (rg_agents r) a c))"
proof (intro conjI allI impI)
  show "supervisor_chain_ids r a = Inr ids \<longleftrightarrow> (\<exists>c. root_path (rg_agents r) a c \<and> ids = map fst c)"
    by (rule chain_ids_Inr)
  fix c assume "root_path (rg_agents r) a c"
  then show "distinct (map fst c)" "hd (map fst c) = a"
    using root_path_distinct root_path_hd by fastforce+
next
  assume err: "supervisor_chain_ids r a = Inl err"
  have "chain_walk agents visited x = Inl y \<Longrightarrow> \<exists>msg. y = Forbidden msg" for agents visited x y
  proof (induction agents visited x rule: chain_walk.induct)
    case (1 agents visited cur)
    show ?case
    proof (cases "cur \<in> set visited \<or> map_of agents cur = None")
      case True
      with 1(2) show ?thesis by (subst (asm) chain_walk.simps) (auto split: if_splits)
    next
      case False
      then obtain e where e: "cur \<notin> set visited" "map_of agents cur = Some e" by auto
      with 1 show ?thesis
        by (cases "created_by e") (auto simp: chain_walk.simps [of _ _ cur] rbind_Inl_iff)
    qed
  qed
  with err show "\<exists>msg. err = Forbidden msg"
    by (auto simp: supervisor_chain_ids_def rbind_Inl_iff)
  from err show "\<nexists>c. root_path (rg_agents r) a c"
    using chain_ids_Inr [of r a] by (metis sum.distinct(1))
qed

theorem supervisor_chain_exact_witness:
  "supervisor_chain_ids sample_registry ''root'' = Inr [''root''] \<and>
   distinct [''root''] \<and> supervisor_chain_ids sample_registry ''x'' = Inl (Forbidden ''broken supervisor chain'')"
proof -
  have "rg_agents sample_registry = [(''root'', sample_entry None ''h0'')]" by code_simp
  then have "root_path (rg_agents sample_registry) ''root'' [(''root'', sample_entry None ''h0'')]"
    by (intro root_path.rp_root) (simp_all add: sample_entry_def created_by_def)
  with supervisor_chain_exact [of sample_registry "''root''" "[''root'']"]
  have "supervisor_chain_ids sample_registry ''root'' = Inr [''root'']" by auto
  moreover have "supervisor_chain_ids sample_registry ''x'' = Inl (Forbidden ''broken supervisor chain'')"
    by code_simp
  ultimately show ?thesis by simp
qed

text \<open>
  An agent passes \<open>require_superior\<close> for a target exactly when it is one of the target's strict
  ancestors; hence no agent may manage itself, no two agents may manage each other, and a
  superior of a superior is a superior.
\<close>

theorem require_superior_order:
  "(is_ok (require_superior r (Agent x) t) \<longleftrightarrow> x \<in> set (strict_ancestors r t)) \<and>
   \<not> is_ok (require_superior r (Agent t) t) \<and>
   \<not> (is_ok (require_superior r (Agent x) t) \<and> is_ok (require_superior r (Agent t) x)) \<and>
   (is_ok (require_superior r (Agent x) y) \<and> is_ok (require_superior r (Agent y) t)
      \<longrightarrow> is_ok (require_superior r (Agent x) t))"
  unfolding require_superior_agent
  using hierarchy.anc_irrefl hierarchy.anc_antisym hierarchy.anc_trans by blast

definition sample_tree :: agent_registry where
  "sample_tree = register ''leaf'' (sample_entry (Some ''mid'') ''h2'')
     (register ''mid'' (sample_entry (Some ''root'') ''h1'') sample_registry)"

theorem require_superior_order_witness:
  "is_ok (require_superior sample_tree (Agent ''root'') ''leaf'')"
proof -
  have "is_ok (require_superior sample_tree (Agent ''root'') ''mid'')"
    "is_ok (require_superior sample_tree (Agent ''mid'') ''leaf'')"
    by code_simp+
  then show ?thesis using require_superior_order [of sample_tree "''root''" "''leaf''" "''mid''"] by blast
qed

lemma relation_of_dual_facts:
  assumes "a \<noteq> b"
  shows "relation_of r (Some a) b = Superior \<longleftrightarrow> relation_of r (Some b) a = Subordinate"
    and "relation_of r (Some a) b = Unknown \<Longrightarrow>
      \<not> is_ok (supervisor_chain_ids r a) \<or> \<not> is_ok (supervisor_chain_ids r b)"
    and "relation_of r (Some a) b = Peer \<longleftrightarrow> relation_of r (Some b) a = Peer"
  using assms hierarchy.anc_antisym [of a r b]
  by (auto simp: relation_of_def chain_has_iff split: if_splits)

text \<open>
  Sender relations are dual: for two different agents, the first is a superior of the second
  exactly when the second is a subordinate of the first; \<open>Unknown\<close> is answered only when one of the
  two chains is broken or circular, and a peer is neither above nor below.
\<close>

theorem relation_of_dual:
  assumes "a \<noteq> b"
  shows "(relation_of r (Some a) b = Superior \<longleftrightarrow> relation_of r (Some b) a = Subordinate) \<and>
    (relation_of r (Some a) b = Unknown \<longrightarrow>
      \<not> is_ok (supervisor_chain_ids r a) \<or> \<not> is_ok (supervisor_chain_ids r b)) \<and>
    (relation_of r (Some a) b = Peer \<longleftrightarrow> relation_of r (Some b) a = Peer)"
  by (rule relation_of_dual_facts [OF assms] conjI impI | assumption)+

theorem relation_of_dual_witness: "relation_of sample_tree (Some ''leaf'') ''root'' = Subordinate"
proof -
  have "relation_of sample_tree (Some ''root'') ''leaf'' = Superior" by code_simp
  then show ?thesis using relation_of_dual [of "''root''" "''leaf''" sample_tree] by simp
qed

end
