(* ===== verification/Restore_Chain.thy ===== *)
theory Restore_Chain
  imports Registry
begin

text \<open>
  The delegation checks that restore runs before an agent comes back
  (\<open>kallip-tagma/src/lifecycle/restore.rs\<close>): loading the supervisor chain from the index with a
  fall-back to disk, and validating depth, permission class and exec policy along it.

  The disk is a parameter: the metadata and exec policies its agent directories hold. The lemmas
  show that comparing neighbours along the chain is enough: an accepted agent is bounded by every
  one of its ancestors.
\<close>

section \<open>Data\<close>

record agent_meta =
  meta_created_by :: "agent_id option"
  meta_workspace_root :: path
  meta_permissions_class :: permission_class
  meta_role :: string
  meta_description :: string
  meta_profile_set :: "string option"
  meta_delegation_mode :: delegation_mode

record chain_node =
  cn_agent_id :: agent_id
  cn_meta :: agent_meta
  cn_exec_policy :: exec_policy

record restore_index =
  ri_meta :: "(agent_id, agent_meta) hash_map"
  ri_exec :: "(agent_id, exec_policy) hash_map"

record restore_disk =
  dk_meta :: "(agent_id, agent_meta) hash_map"
  dk_exec :: "(agent_id, exec_policy) hash_map"

datatype restore_err =
    CircularChain
  | IncompleteChain agent_id
  | NoExecPolicy agent_id
  | NoSupervisorChain
  | OutsideBoundary
  | ClassExceeds agent_id permission_class permission_class
  | LessStrict agent_id "string list"

section \<open>Operations\<close>

definition get_meta :: "restore_disk \<Rightarrow> restore_index \<Rightarrow> agent_id \<Rightarrow> agent_meta option" where
  "get_meta dk ix a = (case map_of (ri_meta ix) a of Some m \<Rightarrow> Some m | None \<Rightarrow> map_of (dk_meta dk) a)"

definition get_exec_policy :: "restore_disk \<Rightarrow> restore_index \<Rightarrow> agent_id \<Rightarrow> exec_policy option" where
  "get_exec_policy dk ix a = (case map_of (ri_exec ix) a of Some p \<Rightarrow> Some p | None \<Rightarrow> map_of (dk_exec dk) a)"

function load_chain ::
  "restore_disk \<Rightarrow> restore_index \<Rightarrow> agent_id list \<Rightarrow> agent_id \<Rightarrow> restore_err + chain_node list" where
  "load_chain dk ix visited cur =
     (if cur \<in> set visited then Inl CircularChain
      else case get_meta dk ix cur of
             None \<Rightarrow> Inl (IncompleteChain cur)
           | Some meta \<Rightarrow>
               (case get_exec_policy dk ix cur of
                  None \<Rightarrow> Inl (NoExecPolicy cur)
                | Some pol \<Rightarrow>
                    (let node = \<lparr>cn_agent_id = cur, cn_meta = meta, cn_exec_policy = pol\<rparr>
                     in case meta_created_by meta of
                          None \<Rightarrow> Inr [node]
                        | Some pid \<Rightarrow>
                            rbind (load_chain dk ix (cur # visited) pid) (\<lambda>c. Inr (node # c)))))"
  by auto

termination
proof (relation "measure (\<lambda>(dk, ix, visited, _).
    card (fst ` set (ri_meta ix) \<union> fst ` set (dk_meta dk) - set visited))", goal_cases)
  case (2 dk ix visited cur meta)
  let ?K = "fst ` set (ri_meta ix) \<union> fst ` set (dk_meta dk)"
  have "cur \<in> ?K - set visited"
    using 2(1,2) by (auto simp: get_meta_def split: option.splits dest!: map_of_SomeD intro: rev_image_eqI)
  then have "?K - set (cur # visited) \<subset> ?K - set visited" by auto
  then show ?case by (auto intro!: psubset_card_mono)
qed simp

definition load_supervisor_chain ::
  "restore_disk \<Rightarrow> restore_index \<Rightarrow> agent_id \<Rightarrow> restore_err + chain_node list" where
  "load_supervisor_chain dk ix supervisor = load_chain dk ix [] supervisor"

definition validate_depth_from_chain :: "path \<Rightarrow> chain_node list \<Rightarrow> restore_err + u8" where
  "validate_depth_from_chain root chain =
     (case chain of
        [] \<Rightarrow> Inl NoSupervisorChain
      | supervisor # _ \<Rightarrow>
          if \<not> starts_with root (meta_workspace_root (cn_meta supervisor)) then Inl OutsideBoundary
          else Inr (sat_sub DEFAULT_MAX_DEPTH
                 (if length chain \<le> 255 then of_nat (length chain) else 255)))"

fun windows2 :: "'a list \<Rightarrow> ('a \<times> 'a) list" where
  "windows2 (x # y # xs) = (x, y) # windows2 (y # xs)"
| "windows2 _ = []"

fun check_all :: "('e + unit) list \<Rightarrow> 'e + unit" where
  "check_all [] = Inr ()"
| "check_all (c # cs) = rbind c (\<lambda>_. check_all cs)"

definition exec_window_check ::
  "(string \<Rightarrow> exec_decision) \<Rightarrow> agent_id \<Rightarrow> exec_policy \<Rightarrow> exec_policy \<Rightarrow> restore_err + unit" where
  "exec_window_check baseline a child parent =
     (case validate_at_least_as_strict_as child parent baseline of
        Inl vs \<Rightarrow> Inl (LessStrict a vs)
      | Inr _ \<Rightarrow> Inr ())"

definition validate_exec_policy_from_chain ::
  "(string \<Rightarrow> exec_decision) \<Rightarrow> agent_id \<Rightarrow> exec_policy \<Rightarrow> chain_node list \<Rightarrow> restore_err + unit" where
  "validate_exec_policy_from_chain baseline a pol chain =
     rbind (case chain of
              [] \<Rightarrow> Inr ()
            | supervisor # _ \<Rightarrow> exec_window_check baseline a pol (cn_exec_policy supervisor))
       (\<lambda>_. check_all (map (\<lambda>(c, p). exec_window_check baseline (cn_agent_id c)
                (cn_exec_policy c) (cn_exec_policy p)) (windows2 chain)))"

definition class_window_check ::
  "agent_id \<Rightarrow> permission_class \<Rightarrow> permission_class \<Rightarrow> restore_err + unit" where
  "class_window_check a child parent =
     (if parent < child then Inl (ClassExceeds a child parent) else Inr ())"

definition node_class :: "chain_node \<Rightarrow> permission_class" where
  "node_class n = meta_permissions_class (cn_meta n)"

definition validate_permission_class_from_chain ::
  "agent_id \<Rightarrow> permission_class \<Rightarrow> chain_node list \<Rightarrow> restore_err + unit" where
  "validate_permission_class_from_chain a cls chain =
     rbind (case chain of [] \<Rightarrow> Inr () | supervisor # _ \<Rightarrow> class_window_check a cls (node_class supervisor))
       (\<lambda>_. check_all (map (\<lambda>(c, p). class_window_check (cn_agent_id c) (node_class c) (node_class p))
                (windows2 chain)))"

text \<open>The part of \<open>restore_one\<close> that decides about the hierarchy.\<close>

definition restore_chain_checks ::
  "(string \<Rightarrow> exec_decision) \<Rightarrow> restore_disk \<Rightarrow> restore_index \<Rightarrow> agent_id \<Rightarrow> agent_meta \<Rightarrow> u8 \<Rightarrow>
   restore_err + (u8 \<times> agent_id list)" where
  "restore_chain_checks baseline dk ix a meta depth0 =
     rbind (ok_or (NoExecPolicy a) (get_exec_policy dk ix a)) (\<lambda>pol.
       case meta_created_by meta of
         None \<Rightarrow> Inr (depth0, [])
       | Some supervisor \<Rightarrow>
           rbind (load_supervisor_chain dk ix supervisor) (\<lambda>chain.
           rbind (validate_depth_from_chain (meta_workspace_root meta) chain) (\<lambda>depth.
           rbind (validate_permission_class_from_chain a (meta_permissions_class meta) chain) (\<lambda>_.
           rbind (validate_exec_policy_from_chain baseline a pol chain) (\<lambda>_.
             Inr (depth, map cn_agent_id chain))))))"

section \<open>Neighbour comparisons bound the whole chain\<close>

lemma check_all_ok: "check_all cs = Inr () \<longleftrightarrow> (\<forall>c \<in> set cs. c = Inr ())"
  by (induction cs) (auto simp: rbind_Inr_iff)

lemma windows2_chain:
  assumes trans: "\<And>x y z. R x y \<Longrightarrow> R y z \<Longrightarrow> R x z"
    and "\<forall>(x, y) \<in> set (windows2 (a # xs)). R x y" "b \<in> set xs"
  shows "R a b"
  using assms(2,3)
proof (induction xs arbitrary: a)
  case (Cons y ys)
  then show ?case using trans by auto
qed simp

lemma exec_window_ok: "exec_window_check b a p q = Inr () \<longleftrightarrow> stricter b p q"
  using validate_ok_iff [of p q b] by (auto simp: exec_window_check_def split: sum.splits)

lemma exec_chain_bounds:
  assumes "validate_exec_policy_from_chain b a pol chain = Inr ()" "n \<in> set chain"
  shows "stricter b pol (cn_exec_policy n)"
proof (cases chain)
  case (Cons s rest)
  have first: "stricter b pol (cn_exec_policy s)"
    and wins: "\<forall>(x, y) \<in> set (windows2 (s # rest)). stricter b (cn_exec_policy x) (cn_exec_policy y)"
    using assms(1)
    by (auto simp: validate_exec_policy_from_chain_def Cons rbind_Inr_iff check_all_ok exec_window_ok)
  show ?thesis
  proof (cases "n = s")
    case False
    then have "n \<in> set rest" using assms(2) by (simp add: Cons)
    with wins have "stricter b (cn_exec_policy s) (cn_exec_policy n)"
      by (rule windows2_chain [rotated]) (rule stricter_trans)
    then show ?thesis by (rule stricter_trans [OF first])
  qed (simp add: first)
qed (use assms in simp)

lemma class_chain_bounds:
  assumes "validate_permission_class_from_chain a cls chain = Inr ()" "n \<in> set chain"
  shows "cls \<le> node_class n"
proof (cases chain)
  case (Cons s rest)
  have first: "cls \<le> node_class s"
    and wins: "\<forall>(x, y) \<in> set (windows2 (s # rest)). node_class x \<le> node_class y"
    using assms(1)
    by (auto simp: validate_permission_class_from_chain_def Cons rbind_Inr_iff check_all_ok
        class_window_check_def split: if_splits)
  show ?thesis
  proof (cases "n = s")
    case False
    then have "n \<in> set rest" using assms(2) by (simp add: Cons)
    with wins have "node_class s \<le> node_class n"
      by (rule windows2_chain [where R = "\<lambda>x y. node_class x \<le> node_class y", rotated]) (rule order.trans)
    with first show ?thesis by (rule order.trans)
  qed (simp add: first)
qed (use assms in simp)

lemma depth_value:
  assumes "validate_depth_from_chain root chain = Inr d"
  shows "unat d = 3 - length chain \<and> chain \<noteq> [] \<and>
    starts_with root (meta_workspace_root (cn_meta (hd chain)))"
proof -
  have "unat (if length chain \<le> 255 then of_nat (length chain) else 255 :: u8) = min (length chain) 255"
    by (simp add: unat_of_nat min_def)
  then have "unat (sat_sub (3 :: u8) (if length chain \<le> 255 then of_nat (length chain) else 255))
      = 3 - min (length chain) 255"
    by (simp add: sat_arith)
  with assms show ?thesis
    by (auto simp: validate_depth_from_chain_def DEFAULT_MAX_DEPTH_def split: list.splits if_splits)
qed

lemma restored_agent_bounds:
  assumes "restore_chain_checks b dk ix a meta d0 = Inr (d, ids)" "meta_created_by meta = Some boss"
    "get_exec_policy dk ix a = Some pol"
  shows "\<exists>chain. load_supervisor_chain dk ix boss = Inr chain \<and> ids = map cn_agent_id chain \<and>
    (\<forall>n \<in> set chain. meta_permissions_class meta \<le> meta_permissions_class (cn_meta n)) \<and>
    (\<forall>n \<in> set chain. \<forall>cmd. effective b (cn_exec_policy n) cmd \<le> effective b pol cmd) \<and>
    starts_with (meta_workspace_root meta) (meta_workspace_root (cn_meta (hd chain))) \<and>
    unat d = 3 - length ids"
proof -
  from assms obtain chain where c: "load_supervisor_chain dk ix boss = Inr chain"
    "validate_depth_from_chain (meta_workspace_root meta) chain = Inr d"
    "validate_permission_class_from_chain a (meta_permissions_class meta) chain = Inr ()"
    "validate_exec_policy_from_chain b a pol chain = Inr ()" "ids = map cn_agent_id chain"
    by (auto simp: restore_chain_checks_def rbind_Inr_iff)
  from class_chain_bounds [OF c(3)] exec_chain_bounds [OF c(4)] depth_value [OF c(2)] c(1,5)
  show ?thesis by (auto simp: node_class_def stricter_def)
qed

section \<open>Properties\<close>

text \<open>
  A subagent whose restore passes the chain checks has a permission class no higher than that
  of every ancestor on its supervisor chain, an exec policy at least as strict as every
  ancestor's for every command, a workspace inside its supervisor's, and exactly
  \<open>3 - (number of ancestors)\<close> remaining delegation levels, never below zero.
\<close>

theorem restored_agent_bounded:
  assumes "restore_chain_checks b dk ix a meta d0 = Inr (d, ids)" "meta_created_by meta = Some boss"
    "get_exec_policy dk ix a = Some pol"
  shows "\<exists>chain. load_supervisor_chain dk ix boss = Inr chain \<and> ids = map cn_agent_id chain \<and>
    (\<forall>n \<in> set chain. meta_permissions_class meta \<le> meta_permissions_class (cn_meta n)) \<and>
    (\<forall>n \<in> set chain. \<forall>cmd. effective b (cn_exec_policy n) cmd \<le> effective b pol cmd) \<and>
    starts_with (meta_workspace_root meta) (meta_workspace_root (cn_meta (hd chain))) \<and>
    unat d = 3 - length ids"
  using restored_agent_bounds [OF assms] .

definition sample_disk :: restore_disk where
  "sample_disk = \<lparr>dk_meta =
      [(''root'', \<lparr>meta_created_by = None, meta_workspace_root = [''w''], meta_permissions_class = Normal, meta_role = ''r'', meta_description = [],
      meta_profile_set = None, meta_delegation_mode = CarveOut\<rparr>)],
     dk_exec = [(''root'', \<lparr>overrides = []\<rparr>), (''kid'', \<lparr>overrides = [(''ls'', new_override Deny)]\<rparr>)]\<rparr>"

definition sample_meta :: agent_meta where
  "sample_meta = \<lparr>meta_created_by = Some ''root'', meta_workspace_root = [''w'', ''x''],
     meta_permissions_class = Guest, meta_role = ''r'', meta_description = [],
      meta_profile_set = None, meta_delegation_mode = CarveOut\<rparr>"

theorem restored_agent_bounded_witness:
  "\<exists>chain. load_supervisor_chain sample_disk \<lparr>ri_meta = [], ri_exec = []\<rparr> ''root'' = Inr chain \<and>
     (\<forall>n \<in> set chain. Guest \<le> meta_permissions_class (cn_meta n))"
proof -
  have "restore_chain_checks (\<lambda>_. Ask) sample_disk \<lparr>ri_meta = [], ri_exec = []\<rparr> ''kid'' sample_meta 3
      = Inr (2, [''root''])"
    by code_simp
  moreover have "meta_created_by sample_meta = Some ''root''"
    "get_exec_policy sample_disk \<lparr>ri_meta = [], ri_exec = []\<rparr> ''kid''
      = Some \<lparr>overrides = [(''ls'', new_override Deny)]\<rparr>"
    by code_simp+
  ultimately show ?thesis
    using restored_agent_bounded by (fastforce simp: sample_meta_def)
qed

end
