(* ===== verification/Dir_Lock.thy ===== *)
theory Dir_Lock
  imports Registry
begin

text \<open>
  The directory write-lock coordinator (\<open>kallip-runtime/src/dirlock/mod.rs\<close>).

  A canonical absolute path is the list of its components below the root, so that the order of
  \<open>PathBuf\<close> (component-wise lexicographic) is the order of lists of strings. The state behind the
  mutex is the \<open>BTreeMap\<close> from canonical directories to their writer; each method runs in one
  critical section and is one definition. The filesystem's \<open>canonicalize\<close> is a parameter: a
  function from raw paths to canonical ones that is undefined where the system call fails.

  The lemmas show that the two-phase overlap check (walk of the ancestors, then an ordered range
  scan that stops at the first non-descendant) decides the specification "no foreign lock above or
  below except a delegation ancestor's above", and the invariants that follow for every sequence of
  operations.
\<close>

section \<open>Data\<close>

definition MAX_LOCKS_PER_AGENT :: nat where "MAX_LOCKS_PER_AGENT = 8"

record dir_state =
  writer :: "agent_id option"

type_synonym dir_map = "(path, dir_state) btree_map"

datatype acquire_outcome = Acquired | AlreadyHeld | Busy agent_id path

datatype transfer_outcome = Transferred | NotOwner

datatype lock_err =
    CannotLock string
  | SelfOverlap path path
  | LockCapReached

section \<open>Path operations of the standard library\<close>

definition ancestors :: "path \<Rightarrow> path list" where
  "ancestors p = map (\<lambda>n. take n p) (rev [0..<Suc (length p)])"

definition range_after :: "path \<Rightarrow> dir_map \<Rightarrow> dir_map" where
  "range_after p dirs = filter (\<lambda>(k, _). p < k) dirs"

section \<open>Operations\<close>

definition canonicalize :: "(string \<Rightarrow> path option) \<Rightarrow> string \<Rightarrow> lock_err + path" where
  "canonicalize cz raw = ok_or (CannotLock raw) (cz raw)"

definition new_dirs :: dir_map where "new_dirs = []"

definition count_held :: "dir_map \<Rightarrow> agent_id \<Rightarrow> nat" where
  "count_held dirs agent = length (filter (\<lambda>st. writer st = Some agent) (map snd dirs))"

definition blocked_by :: "agent_id \<Rightarrow> path \<Rightarrow> agent_id \<Rightarrow> path \<Rightarrow> lock_err + acquire_outcome" where
  "blocked_by agent canon w conflict =
     (if w = agent then Inl (SelfOverlap canon conflict) else Inr (Busy w conflict))"

fun ancestor_scan ::
  "dir_map \<Rightarrow> path \<Rightarrow> agent_id \<Rightarrow> agent_id list \<Rightarrow> path list \<Rightarrow> (lock_err + acquire_outcome) option" where
  "ancestor_scan dirs canon agent chain [] = None"
| "ancestor_scan dirs canon agent chain (anc # ancs) =
     (case map_of dirs anc of
        None \<Rightarrow> ancestor_scan dirs canon agent chain ancs
      | Some st \<Rightarrow>
          (case writer st of
             None \<Rightarrow> ancestor_scan dirs canon agent chain ancs
           | Some w \<Rightarrow>
               if w = agent then Some (blocked_by agent canon w anc)
               else if w \<in> set chain then ancestor_scan dirs canon agent chain ancs
               else Some (blocked_by agent canon w anc)))"

fun descendant_scan ::
  "path \<Rightarrow> agent_id \<Rightarrow> dir_map \<Rightarrow> (lock_err + acquire_outcome) option" where
  "descendant_scan canon agent [] = None"
| "descendant_scan canon agent ((k, st) # rest) =
     (if \<not> starts_with k canon then None
      else case writer st of
             None \<Rightarrow> descendant_scan canon agent rest
           | Some w \<Rightarrow> Some (blocked_by agent canon w k))"

definition overlap_conflict ::
  "dir_map \<Rightarrow> path \<Rightarrow> agent_id \<Rightarrow> agent_id list \<Rightarrow> (lock_err + acquire_outcome) option" where
  "overlap_conflict dirs canon agent chain =
     (case ancestor_scan dirs canon agent chain (tl (ancestors canon)) of
        Some r \<Rightarrow> Some r
      | None \<Rightarrow> descendant_scan canon agent (range_after canon dirs))"

definition set_writer :: "path \<Rightarrow> agent_id option \<Rightarrow> dir_map \<Rightarrow> dir_map" where
  "set_writer canon w dirs = bt_insert canon \<lparr>writer = w\<rparr> dirs"

definition acquire ::
  "(string \<Rightarrow> path option) \<Rightarrow> agent_id \<Rightarrow> string \<Rightarrow> agent_id list \<Rightarrow> dir_map \<Rightarrow>
   (lock_err + acquire_outcome) \<times> dir_map" where
  "acquire cz agent raw chain dirs =
     (case canonicalize cz raw of
        Inl e \<Rightarrow> (Inl e, dirs)
      | Inr canon \<Rightarrow>
          (case Option.bind (map_of dirs canon) writer of
             Some w \<Rightarrow> (Inr (if w = agent then AlreadyHeld else Busy w canon), dirs)
           | None \<Rightarrow>
               (case overlap_conflict dirs canon agent chain of
                  Some r \<Rightarrow> (r, dirs)
                | None \<Rightarrow>
                    if MAX_LOCKS_PER_AGENT \<le> count_held dirs agent then (Inl LockCapReached, dirs)
                    else (Inr Acquired, set_writer canon (Some agent) dirs))))"

definition retain_held :: "dir_map \<Rightarrow> dir_map" where
  "retain_held dirs = filter (\<lambda>(_, st). writer st \<noteq> None) dirs"

definition release :: "(string \<Rightarrow> path option) \<Rightarrow> agent_id \<Rightarrow> string \<Rightarrow> dir_map \<Rightarrow> dir_map" where
  "release cz agent raw dirs =
     (case canonicalize cz raw of
        Inl _ \<Rightarrow> dirs
      | Inr canon \<Rightarrow>
          retain_held
            (if Option.bind (map_of dirs canon) writer = Some agent
             then set_writer canon None dirs else dirs))"

definition transfer ::
  "(string \<Rightarrow> path option) \<Rightarrow> agent_id \<Rightarrow> agent_id \<Rightarrow> string \<Rightarrow> dir_map \<Rightarrow>
   (lock_err + transfer_outcome) \<times> dir_map" where
  "transfer cz from_id to_id raw dirs =
     (case canonicalize cz raw of
        Inl e \<Rightarrow> (Inl e, dirs)
      | Inr canon \<Rightarrow>
          if Option.bind (map_of dirs canon) writer = Some from_id
          then (Inr Transferred, set_writer canon (Some to_id) dirs)
          else (Inr NotOwner, dirs))"

definition release_all :: "agent_id \<Rightarrow> dir_map \<Rightarrow> dir_map" where
  "release_all agent dirs =
     retain_held
       (map (\<lambda>(k, st). (k, if writer st = Some agent then st\<lparr>writer := None\<rparr> else st)) dirs)"

definition write_paths :: "agent_id \<Rightarrow> dir_map \<Rightarrow> path list" where
  "write_paths agent dirs = map fst (filter (\<lambda>(_, st). writer st = Some agent) dirs)"

definition readonly_paths :: "agent_id \<Rightarrow> dir_map \<Rightarrow> path list" where
  "readonly_paths agent dirs =
     map fst (filter (\<lambda>(_, st). writer st \<noteq> None \<and> writer st \<noteq> Some agent) dirs)"

definition holder :: "(string \<Rightarrow> path option) \<Rightarrow> string \<Rightarrow> dir_map \<Rightarrow> lock_err + agent_id option" where
  "holder cz raw dirs =
     rbind (canonicalize cz raw) (\<lambda>canon. Inr (Option.bind (map_of dirs canon) writer))"

definition holds_exact :: "(string \<Rightarrow> path option) \<Rightarrow> agent_id \<Rightarrow> string \<Rightarrow> dir_map \<Rightarrow> bool" where
  "holds_exact cz agent raw dirs =
     (case canonicalize cz raw of
        Inl _ \<Rightarrow> False
      | Inr canon \<Rightarrow> (case map_of dirs canon of None \<Rightarrow> False | Some st \<Rightarrow> writer st = Some agent))"

section \<open>Specification\<close>

text \<open>The abstract state: who holds the write-lock of a canonical directory.\<close>

definition held :: "dir_map \<Rightarrow> path \<Rightarrow> agent_id option" where
  "held dirs p = Option.bind (map_of dirs p) writer"

definition strictly_below :: "path \<Rightarrow> path \<Rightarrow> bool" where
  "strictly_below p base \<longleftrightarrow> starts_with p base \<and> p \<noteq> base"

text \<open>
  What \<open>overlap_conflict\<close> promises: nothing is locked below, and every lock above belongs to a
  delegation ancestor other than the caller itself.
\<close>

definition no_overlap :: "dir_map \<Rightarrow> path \<Rightarrow> agent_id \<Rightarrow> agent_id list \<Rightarrow> bool" where
  "no_overlap dirs canon agent chain \<longleftrightarrow>
     (\<forall>k w. held dirs k = Some w \<longrightarrow>
        \<not> strictly_below k canon \<and>
        (strictly_below canon k \<longrightarrow> w \<noteq> agent \<and> w \<in> set chain))"

text \<open>
  Well-formed lock tables over a delegation order \<open>anc_of\<close> (\<open>anc_of a\<close> lists the strict delegation
  ancestors of \<open>a\<close>): sorted, no idle entries, and wherever two locks overlap, the outer one belongs
  to a delegation ancestor of the holder of the inner one.
\<close>

definition delegation_ok :: "(agent_id \<Rightarrow> agent_id list) \<Rightarrow> (path \<Rightarrow> agent_id option) \<Rightarrow> bool" where
  "delegation_ok anc_of h \<longleftrightarrow>
     (\<forall>k k' w w'. h k = Some w \<longrightarrow> h k' = Some w' \<longrightarrow> strictly_below k' k \<longrightarrow>
        w \<noteq> w' \<and> w \<in> set (anc_of w'))"

definition dirs_ok :: "dir_map \<Rightarrow> bool" where
  "dirs_ok dirs \<longleftrightarrow> bt_valid dirs \<and> (\<forall>st \<in> snd ` set dirs. writer st \<noteq> None)"

definition locks_ok :: "(agent_id \<Rightarrow> agent_id list) \<Rightarrow> dir_map \<Rightarrow> bool" where
  "locks_ok anc_of dirs \<longleftrightarrow> dirs_ok dirs \<and> delegation_ok anc_of (held dirs)"

text \<open>
  Steps of the coordinator: the methods, called with the caller's real delegation chain. A
  transfer is a full-workspace handoff: the receiver was created below the giver, and nothing is
  locked beneath the handed-over directory.
\<close>

inductive lock_step :: "(agent_id \<Rightarrow> agent_id list) \<Rightarrow> dir_map \<Rightarrow> dir_map \<Rightarrow> bool" for anc_of where
  ls_acquire: "lock_step anc_of dirs (snd (acquire cz a raw (anc_of a) dirs))"
| ls_release: "lock_step anc_of dirs (release cz a raw dirs)"
| ls_release_all: "lock_step anc_of dirs (release_all a dirs)"
| ls_handoff: "a \<in> set (anc_of b) \<Longrightarrow> \<forall>k. strictly_below k canon \<longrightarrow> held dirs k = None \<Longrightarrow>
     cz raw = Some canon \<Longrightarrow> lock_step anc_of dirs (snd (transfer cz a b raw dirs))"


section \<open>Paths and the ordered range scan\<close>

lemma strictly_below_less: "strictly_below k p \<Longrightarrow> p < k"
  by (auto simp: strictly_below_def order.strict_iff_order dest: starts_with_le)

text \<open>The descendants of a directory are contiguous in the order of the map.\<close>

lemma starts_with_between: "starts_with k p \<Longrightarrow> p \<le> j \<Longrightarrow> j \<le> k \<Longrightarrow> starts_with j p"
proof (induction p arbitrary: j k)
  case (Cons x p)
  then obtain k' where k: "k = x # k'" "starts_with k' p" by auto
  from Cons.prems(2) obtain y j' where j: "j = y # j'" by (cases j) auto
  with Cons.prems(2,3) k show ?case by (auto intro: Cons.IH [OF k(2)])
qed simp

lemma strictly_below_antisym: "strictly_below k p \<Longrightarrow> \<not> strictly_below p k"
  using strictly_below_less order.asym by blast

lemma set_proper_ancestors: "set (tl (ancestors p)) = {k. strictly_below p k}"
proof -
  have "strictly_below p k \<longleftrightarrow> (\<exists>n < length p. k = take n p)" for k
  proof
    assume *: "strictly_below p k"
    then have "length k < length p"
      by (metis strictly_below_def starts_with_def length_take linorder_not_less min.absorb_iff2 min_def take_all)
    with * show "\<exists>n < length p. k = take n p" by (metis strictly_below_def starts_with_def)
  next
    assume "\<exists>n < length p. k = take n p"
    then show "strictly_below p k"
      by (auto simp: strictly_below_def starts_with_def min_def) (metis length_take min.absorb4 nat_neq_iff)
  qed
  then show ?thesis by (auto simp: ancestors_def simp flip: map_tl)
qed

section \<open>The overlap check decides its specification\<close>

lemma ancestor_scan_None:
  "ancestor_scan dirs canon agent chain ancs = None \<longleftrightarrow>
    (\<forall>k \<in> set ancs. \<forall>w. held dirs k = Some w \<longrightarrow> w \<noteq> agent \<and> w \<in> set chain)"
  by (induction dirs canon agent chain ancs rule: ancestor_scan.induct)
    (auto simp: held_def bind_eq_Some_conv split: option.splits)

lemma descendant_scan_None:
  assumes "sorted_wrt (<) (map fst xs)" "\<forall>k \<in> fst ` set xs. canon < k"
  shows "descendant_scan canon agent xs = None \<longleftrightarrow>
    (\<forall>(k, st) \<in> set xs. starts_with k canon \<longrightarrow> writer st = None)"
  using assms
proof (induction canon agent xs rule: descendant_scan.induct)
  case (2 canon agent k st rest)
  show ?case
  proof (cases "starts_with k canon")
    case True
    with 2 show ?thesis by (auto split: option.splits)
  next
    case False
    have "\<not> starts_with j canon" if "j \<in> fst ` set rest" for j
      using 2(3,2) that False starts_with_between [of j canon k] by (auto simp: less_imp_le)
    with False show ?thesis by force
  qed
qed simp

lemma held_range_after:
  assumes "bt_valid dirs"
  shows "(\<forall>(k, st) \<in> set (range_after canon dirs). starts_with k canon \<longrightarrow> writer st = None) \<longleftrightarrow>
    (\<forall>k. strictly_below k canon \<longrightarrow> held dirs k = None)"
proof -
  have in_range: "(k, st) \<in> set (range_after canon dirs) \<and> starts_with k canon \<longleftrightarrow>
      map_of dirs k = Some st \<and> strictly_below k canon" for k st
    using assms strictly_below_less
    by (auto simp: range_after_def map_of_eq_Some_distinct [OF bt_valid_distinct] strictly_below_def)
  have "(\<forall>(k, st) \<in> set (range_after canon dirs). starts_with k canon \<longrightarrow> writer st = None) \<longleftrightarrow>
      (\<forall>k st. map_of dirs k = Some st \<and> strictly_below k canon \<longrightarrow> writer st = None)"
    using in_range by blast
  also have "\<dots> \<longleftrightarrow> (\<forall>k. strictly_below k canon \<longrightarrow> held dirs k = None)"
    by (auto simp: held_def split: Option.bind_splits)
  finally show ?thesis .
qed

lemma overlap_conflict_None:
  assumes "bt_valid dirs"
  shows "overlap_conflict dirs canon agent chain = None \<longleftrightarrow> no_overlap dirs canon agent chain"
proof -
  have "sorted_wrt (<) (map fst (range_after canon dirs))"
    using bt_valid_filter [OF assms] by (simp add: range_after_def bt_valid_def)
  moreover have "\<forall>k \<in> fst ` set (range_after canon dirs). canon < k" by (auto simp: range_after_def)
  ultimately have "descendant_scan canon agent (range_after canon dirs) = None \<longleftrightarrow>
      (\<forall>k. strictly_below k canon \<longrightarrow> held dirs k = None)"
    by (simp add: descendant_scan_None held_range_after [OF assms])
  moreover have "overlap_conflict dirs canon agent chain = None \<longleftrightarrow>
      ancestor_scan dirs canon agent chain (tl (ancestors canon)) = None \<and>
      descendant_scan canon agent (range_after canon dirs) = None"
    by (simp add: overlap_conflict_def split: option.split)
  ultimately show ?thesis
    by (auto simp: no_overlap_def ancestor_scan_None set_proper_ancestors)
qed


section \<open>The abstract effect of each operation\<close>

lemma held_set_writer: "held (set_writer p w dirs) = (held dirs)(p := w)"
  by (auto simp: held_def set_writer_def map_of_bt_insert fun_eq_iff)

lemma held_retain: "bt_valid dirs \<Longrightarrow> held (retain_held dirs) = held dirs"
  by (auto simp: held_def retain_held_def map_of_filter_distinct bt_valid_distinct fun_eq_iff
      split: option.split Option.bind_split)

lemma bt_valid_set_writer [simp]: "bt_valid dirs \<Longrightarrow> bt_valid (set_writer p w dirs)"
  by (simp add: set_writer_def bt_valid_insert)

lemma dirs_ok_retain: "bt_valid dirs \<Longrightarrow> dirs_ok (retain_held dirs)"
  by (auto simp: dirs_ok_def retain_held_def bt_valid_filter)

lemma set_bt_insert: "set (bt_insert k v m) \<subseteq> insert (k, v) (set m)"
  by (induction k v m rule: bt_insert.induct) auto

lemma dirs_ok_set_writer: "dirs_ok dirs \<Longrightarrow> dirs_ok (set_writer p (Some a) dirs)"
  using set_bt_insert by (fastforce simp: dirs_ok_def set_writer_def bt_valid_insert)

lemma bt_valid_retag:
  "bt_valid dirs \<Longrightarrow> bt_valid (map (\<lambda>(k, st). (k, f k st)) dirs)"
  unfolding bt_valid_def map_fst_retag .

lemma held_release_all:
  assumes "bt_valid dirs"
  shows "held (release_all a dirs) p = (if held dirs p = Some a then None else held dirs p)"
proof -
  let ?f = "\<lambda>k st. if writer st = Some a then st\<lparr>writer := None\<rparr> else st"
  have "release_all a dirs = retain_held (map (\<lambda>(k, st). (k, ?f k st)) dirs)"
    by (simp add: release_all_def)
  then have "held (release_all a dirs) p = held (map (\<lambda>(k, st). (k, ?f k st)) dirs) p"
    using held_retain [OF bt_valid_retag [OF assms, of ?f]] by simp
  also have "\<dots> = Option.bind (map_option (?f p) (map_of dirs p)) writer"
    by (simp only: held_def map_of_retag)
  finally show ?thesis by (cases "map_of dirs p") (auto simp: held_def)
qed

lemma held_release:
  assumes "bt_valid dirs"
  shows "held (release cz a raw dirs) p =
    (if cz raw = Some p \<and> held dirs p = Some a then None else held dirs p)"
  using assms
  by (cases "cz raw") (auto simp: release_def canonicalize_def held_retain held_set_writer held_def [symmetric])

lemma held_transfer:
  "held (snd (transfer cz a b raw dirs)) p =
    (if cz raw = Some p \<and> held dirs p = Some a then Some b else held dirs p)"
  by (cases "cz raw") (auto simp: transfer_def canonicalize_def held_set_writer held_def [symmetric])

lemma acquire_cases:
  assumes "bt_valid dirs"
  shows "acquire cz a raw chain dirs = (r, dirs') \<Longrightarrow> dirs' \<noteq> dirs \<Longrightarrow>
    \<exists>canon. cz raw = Some canon \<and> r = Inr Acquired \<and> held dirs canon = None \<and>
      no_overlap dirs canon a chain \<and> count_held dirs a < MAX_LOCKS_PER_AGENT \<and>
      dirs' = set_writer canon (Some a) dirs"
  using overlap_conflict_None [OF assms]
  by (cases "cz raw") (auto simp: acquire_def canonicalize_def held_def [symmetric] split: option.splits if_splits)

section \<open>The delegation invariant\<close>

lemma delegation_ok_subset:
  "delegation_ok anc_of h \<Longrightarrow> (\<And>k. h' k = None \<or> h' k = h k) \<Longrightarrow> delegation_ok anc_of h'"
  unfolding delegation_ok_def by (metis option.distinct(1))

lemma delegation_ok_acquire:
  assumes "delegation_ok anc_of (held dirs)" "no_overlap dirs p a (anc_of a)"
  shows "delegation_ok anc_of ((held dirs)(p := Some a))"
  unfolding delegation_ok_def
proof (intro allI impI)
  fix k k' w w'
  assume "((held dirs)(p := Some a)) k = Some w" "((held dirs)(p := Some a)) k' = Some w'"
    "strictly_below k' k"
  then show "w \<noteq> w' \<and> w \<in> set (anc_of w')"
    using assms unfolding delegation_ok_def no_overlap_def
    by (cases "k = p"; cases "k' = p") (auto simp: strictly_below_def)
qed

lemma dirs_ok_acquire:
  assumes "dirs_ok dirs" shows "dirs_ok (snd (acquire cz a raw chain dirs))"
proof (cases "snd (acquire cz a raw chain dirs) = dirs")
  case False
  then obtain canon where "snd (acquire cz a raw chain dirs) = set_writer canon (Some a) dirs"
    using acquire_cases [of dirs cz a raw chain] assms by (metis dirs_ok_def prod.collapse)
  with assms show ?thesis by (simp add: dirs_ok_set_writer)
qed (simp add: assms)

lemma dirs_ok_transfer: "dirs_ok dirs \<Longrightarrow> dirs_ok (snd (transfer cz a b raw dirs))"
  by (auto simp: transfer_def dirs_ok_set_writer split: sum.split)

lemma dirs_ok_release: "dirs_ok dirs \<Longrightarrow> dirs_ok (release cz a raw dirs)"
  by (auto simp: release_def dirs_ok_def [of dirs] intro!: dirs_ok_retain split: sum.split)

lemma dirs_ok_release_all: "dirs_ok dirs \<Longrightarrow> dirs_ok (release_all a dirs)"
  by (auto simp: release_all_def dirs_ok_def [of dirs] intro!: dirs_ok_retain bt_valid_retag)

context delegation
begin

lemma handoff_ok:
  assumes ok: "delegation_ok anc_of h" and p: "h p = Some a" "a \<in> set (anc_of b)"
    and below: "\<forall>k. strictly_below k p \<longrightarrow> h k = None"
  shows "delegation_ok anc_of (h(p := Some b))"
  unfolding delegation_ok_def
proof (intro allI impI)
  fix k k' w w'
  assume *: "(h(p := Some b)) k = Some w" "(h(p := Some b)) k' = Some w'" "strictly_below k' k"
  then have kp: "k \<noteq> p" using below by (auto simp: strictly_below_def split: if_splits)
  show "w \<noteq> w' \<and> w \<in> set (anc_of w')"
  proof (cases "k' = p")
    case True
    with * kp p ok have "w \<in> set (anc_of a)" by (auto simp: delegation_ok_def)
    with anc_trans [OF p(2)] anc_irrefl * True show ?thesis by auto
  next
    case False
    with * kp ok show ?thesis by (auto simp: delegation_ok_def)
  qed
qed

lemma lock_step_ok: "lock_step anc_of dirs dirs' \<Longrightarrow> locks_ok anc_of dirs \<Longrightarrow> locks_ok anc_of dirs'"
proof (induction rule: lock_step.induct)
  case (ls_acquire dirs cz a raw)
  then have ok: "dirs_ok dirs" "bt_valid dirs" "delegation_ok anc_of (held dirs)"
    by (auto simp: locks_ok_def dirs_ok_def)
  show ?case
  proof (cases "snd (acquire cz a raw (anc_of a) dirs) = dirs")
    case False
    then obtain canon where "no_overlap dirs canon a (anc_of a)"
      "snd (acquire cz a raw (anc_of a) dirs) = set_writer canon (Some a) dirs"
      using acquire_cases [OF ok(2)] by (metis prod.collapse)
    then show ?thesis
      using ok by (simp add: locks_ok_def dirs_ok_set_writer held_set_writer delegation_ok_acquire)
  qed (simp add: ls_acquire)
next
  case (ls_release dirs cz a raw)
  then show ?case
    using delegation_ok_subset [of anc_of "held dirs" "held (release cz a raw dirs)"]
    by (auto simp: locks_ok_def dirs_ok_release held_release dirs_ok_def [of dirs])
next
  case (ls_release_all dirs a)
  then show ?case
    using delegation_ok_subset [of anc_of "held dirs" "held (release_all a dirs)"]
    by (auto simp: locks_ok_def dirs_ok_release_all held_release_all dirs_ok_def [of dirs])
next
  case (ls_handoff a b canon dirs cz raw)
  have "held (snd (transfer cz a b raw dirs)) =
      (if held dirs canon = Some a then (held dirs)(canon := Some b) else held dirs)"
    using ls_handoff by (auto simp: held_transfer fun_eq_iff)
  then show ?case
    using ls_handoff handoff_ok [of "held dirs" canon a b] by (auto simp: locks_ok_def dirs_ok_transfer)
qed

end


section \<open>What a refusal names\<close>

lemma ancestor_scan_Some:
  "ancestor_scan dirs canon agent chain ancs = Some r \<Longrightarrow>
    \<exists>k \<in> set ancs. \<exists>w. held dirs k = Some w \<and> (w = agent \<or> w \<notin> set chain) \<and> r = blocked_by agent canon w k"
  by (induction dirs canon agent chain ancs rule: ancestor_scan.induct)
    (auto simp: held_def split: option.splits if_splits)

lemma descendant_scan_Some:
  "descendant_scan canon agent xs = Some r \<Longrightarrow>
    \<exists>(k, st) \<in> set xs. \<exists>w. writer st = Some w \<and> starts_with k canon \<and> r = blocked_by agent canon w k"
  by (induction canon agent xs rule: descendant_scan.induct) (auto split: option.splits if_splits)

lemma overlap_conflict_Some:
  assumes "bt_valid dirs" "overlap_conflict dirs canon agent chain = Some r"
  shows "\<exists>k w. held dirs k = Some w \<and> r = blocked_by agent canon w k \<and>
    (strictly_below canon k \<and> (w = agent \<or> w \<notin> set chain) \<or> strictly_below k canon)"
proof (cases "ancestor_scan dirs canon agent chain (tl (ancestors canon))")
  case None
  with assms(2) have "descendant_scan canon agent (range_after canon dirs) = Some r"
    by (simp add: overlap_conflict_def)
  then obtain k st w where *: "(k, st) \<in> set (range_after canon dirs)" "writer st = Some w"
    "starts_with k canon" "r = blocked_by agent canon w k"
    by (auto dest!: descendant_scan_Some)
  then have "map_of dirs k = Some st" "canon < k"
    using assms(1) by (auto simp: range_after_def map_of_eq_Some_distinct bt_valid_distinct)
  with * show ?thesis
    by (intro exI [of _ k] exI [of _ w]) (auto simp: held_def strictly_below_def)
next
  case (Some r')
  with assms(2) have "r' = r" by (simp add: overlap_conflict_def)
  with ancestor_scan_Some [OF Some] show ?thesis by (auto simp: set_proper_ancestors)
qed

lemma overlap_conflict_not_granted:
  "bt_valid dirs \<Longrightarrow> overlap_conflict dirs canon agent chain \<noteq> Some (Inr Acquired)"
  by (auto simp: blocked_by_def dest!: overlap_conflict_Some split: if_splits)

lemma count_held_card:
  assumes "bt_valid dirs"
  shows "count_held dirs a = card {k. held dirs k = Some a}"
proof -
  have d: "distinct (map fst dirs)" using assms by (rule bt_valid_distinct)
  have "count_held dirs a = length (map fst (filter (\<lambda>(k, st). writer st = Some a) dirs))"
    by (simp add: count_held_def filter_map comp_def case_prod_unfold)
  also have "\<dots> = card (set (map fst (filter (\<lambda>(k, st). writer st = Some a) dirs)))"
    using d by (intro distinct_card [symmetric]) (simp add: distinct_map_filter)
  also have "set (map fst (filter (\<lambda>(k, st). writer st = Some a) dirs)) = {k. held dirs k = Some a}"
    using map_of_eq_Some_distinct [OF d] by (force simp: held_def bind_eq_Some_conv)
  finally show ?thesis .
qed

lemma finite_held: "finite {k. held dirs k = Some a}"
proof (rule finite_subset)
  show "{k. held dirs k = Some a} \<subseteq> fst ` set dirs"
    by (auto simp: held_def bind_eq_Some_conv dest!: map_of_SomeD intro: rev_image_eqI)
qed simp

lemma set_write_paths:
  assumes "bt_valid dirs"
  shows "set (write_paths a dirs) = {k. held dirs k = Some a}"
    "set (readonly_paths a dirs) = {k. \<exists>w. held dirs k = Some w \<and> w \<noteq> a}"
  using map_of_eq_Some_distinct [OF bt_valid_distinct [OF assms]]
  by (force simp: write_paths_def readonly_paths_def held_def bind_eq_Some_conv)+

interpretation locks: inv_system "\<lambda>d. d = new_dirs" "lock_step (strict_ancestors r)"
  "locks_ok (strict_ancestors r)" for r
proof
  show "locks_ok (strict_ancestors r) d" if "d = new_dirs" for d
    using that by (simp add: new_dirs_def locks_ok_def dirs_ok_def delegation_ok_def held_def)
qed (rule hierarchy.lock_step_ok)

section \<open>Properties\<close>

lemma acquired_iff:
  assumes "bt_valid dirs"
  shows "fst (acquire cz a raw chain dirs) = Inr Acquired \<longleftrightarrow>
      (\<exists>canon. cz raw = Some canon \<and> held dirs canon = None \<and> count_held dirs a < 8 \<and>
        (\<forall>k w. held dirs k = Some w \<longrightarrow> \<not> strictly_below k canon \<and>
           (strictly_below canon k \<longrightarrow> w \<noteq> a \<and> w \<in> set chain)))"
proof (cases "cz raw")
  case None
  then show ?thesis by (simp add: acquire_def canonicalize_def)
next
  case (Some canon)
  with overlap_conflict_not_granted [OF assms] overlap_conflict_None [OF assms, of canon a chain]
  show ?thesis
    by (cases "held dirs canon"; cases "overlap_conflict dirs canon a chain")
      (auto simp: acquire_def canonicalize_def held_def [symmetric] no_overlap_def MAX_LOCKS_PER_AGENT_def)
qed

lemma acquire_decides_hierarchy_facts:
  assumes "bt_valid dirs"
  shows "fst (acquire cz a raw chain dirs) = Inr Acquired \<longleftrightarrow>
      (\<exists>canon. cz raw = Some canon \<and> held dirs canon = None \<and> count_held dirs a < 8 \<and>
        (\<forall>k w. held dirs k = Some w \<longrightarrow> \<not> strictly_below k canon \<and>
           (strictly_below canon k \<longrightarrow> w \<noteq> a \<and> w \<in> set chain)))"
    and "fst (acquire cz a raw chain dirs) = Inr (Busy w k) \<Longrightarrow>
      \<exists>canon. cz raw = Some canon \<and> held dirs k = Some w \<and> w \<noteq> a \<and>
        (k = canon \<or> strictly_below k canon \<or> strictly_below canon k)"
proof -
  show "fst (acquire cz a raw chain dirs) = Inr Acquired \<longleftrightarrow>
      (\<exists>canon. cz raw = Some canon \<and> held dirs canon = None \<and> count_held dirs a < 8 \<and>
        (\<forall>k w. held dirs k = Some w \<longrightarrow> \<not> strictly_below k canon \<and>
           (strictly_below canon k \<longrightarrow> w \<noteq> a \<and> w \<in> set chain)))"
    by (rule acquired_iff [OF assms])
next
  assume b: "fst (acquire cz a raw chain dirs) = Inr (Busy w k)"
  then obtain canon where c: "cz raw = Some canon" by (cases "cz raw") (auto simp: acquire_def canonicalize_def)
  show "\<exists>canon. cz raw = Some canon \<and> held dirs k = Some w \<and> w \<noteq> a \<and>
      (k = canon \<or> strictly_below k canon \<or> strictly_below canon k)"
  proof (cases "held dirs canon")
    case (Some w')
    with b c show ?thesis by (auto simp: acquire_def canonicalize_def held_def split: if_splits)
  next
    case None
    with b c have "overlap_conflict dirs canon a chain = Some (Inr (Busy w k))"
      by (auto simp: acquire_def canonicalize_def held_def split: option.splits if_splits)
    from overlap_conflict_Some [OF assms this] c show ?thesis
      by (auto simp: blocked_by_def split: if_splits)
  qed
qed

text \<open>
  C21. \<open>acquire\<close> grants a new lock exactly when the path resolves, nobody holds it, nothing is locked
  below it, every lock above it belongs to a delegation ancestor in the chain, and the caller
  holds fewer than eight locks: the two-phase check with the early-stopping range scan decides
  the hierarchical specification. When it answers \<open>Busy\<close>, the named holder really holds the named
  lock, which is the path itself or overlaps it, and is not the caller.
\<close>

theorem acquire_decides_hierarchy:
  assumes "bt_valid dirs"
  shows "(fst (acquire cz a raw chain dirs) = Inr Acquired \<longleftrightarrow>
      (\<exists>canon. cz raw = Some canon \<and> held dirs canon = None \<and> count_held dirs a < 8 \<and>
        (\<forall>k w. held dirs k = Some w \<longrightarrow> \<not> strictly_below k canon \<and>
           (strictly_below canon k \<longrightarrow> w \<noteq> a \<and> w \<in> set chain)))) \<and>
    (fst (acquire cz a raw chain dirs) = Inr (Busy w k) \<longrightarrow>
      (\<exists>canon. cz raw = Some canon \<and> held dirs k = Some w \<and> w \<noteq> a \<and>
        (k = canon \<or> strictly_below k canon \<or> strictly_below canon k)))"
  by (rule acquire_decides_hierarchy_facts [OF assms] conjI impI | assumption)+

definition sample_fs :: "string \<Rightarrow> path option" where
  "sample_fs raw = (if raw = ''/a/b'' then Some [''a'', ''b'']
     else if raw = ''/a/b/c'' then Some [''a'', ''b'', ''c''] else None)"

definition sample_locks :: dir_map where
  "sample_locks = snd (acquire sample_fs ''boss'' ''/a/b'' [] new_dirs)"

theorem acquire_decides_hierarchy_witness:
  "fst (acquire sample_fs ''kid'' ''/a/b/c'' [''boss''] sample_locks) = Inr Acquired"
proof -
  have l: "sample_locks = [([''a'', ''b''], \<lparr>writer = Some ''boss''\<rparr>)]" by code_simp
  have "bt_valid sample_locks" by (simp add: l bt_valid_Cons)
  moreover have "sample_fs ''/a/b/c'' = Some [''a'', ''b'', ''c'']" by (simp add: sample_fs_def)
  moreover have "held sample_locks = [[''a'', ''b''] \<mapsto> ''boss'']" by (auto simp: l held_def fun_eq_iff)
  moreover have "count_held sample_locks ''kid'' < 8" by (simp add: l count_held_def)
  ultimately show ?thesis
    by (subst acquire_decides_hierarchy [THEN conjunct1]) (auto simp: strictly_below_def split: if_splits)
qed



text \<open>
  The per-agent cap: a granted acquire raises the caller's number of locks by exactly one, to at
  most eight, and leaves every other agent's locks as they were; any other answer changes nothing.
\<close>

theorem acquire_bounds:
  assumes "bt_valid dirs"
  shows "if fst (acquire cz a raw chain dirs) = Inr Acquired
    then count_held (snd (acquire cz a raw chain dirs)) a = Suc (count_held dirs a) \<and>
      count_held (snd (acquire cz a raw chain dirs)) a \<le> 8 \<and>
      (\<forall>b. b \<noteq> a \<longrightarrow> write_paths b (snd (acquire cz a raw chain dirs)) = write_paths b dirs)
    else snd (acquire cz a raw chain dirs) = dirs"
proof (cases "snd (acquire cz a raw chain dirs) = dirs")
  case True
  have "fst (acquire cz a raw chain dirs) \<noteq> Inr Acquired"
  proof
    assume g: "fst (acquire cz a raw chain dirs) = Inr Acquired"
    then obtain canon where "cz raw = Some canon" "held dirs canon = None"
      using acquired_iff [OF assms, of cz a raw chain] by blast
    with g have "held (snd (acquire cz a raw chain dirs)) canon = Some a"
      using overlap_conflict_not_granted [OF assms]
      by (auto simp: acquire_def canonicalize_def held_def [symmetric] held_set_writer split: option.splits if_splits)
    with True \<open>held dirs canon = None\<close> show False by simp
  qed
  with True show ?thesis by simp
next
  case False
  then obtain canon where c: "fst (acquire cz a raw chain dirs) = Inr Acquired" "held dirs canon = None"
    "count_held dirs a < 8" "snd (acquire cz a raw chain dirs) = set_writer canon (Some a) dirs"
    using acquire_cases [OF assms, of cz a raw chain] unfolding MAX_LOCKS_PER_AGENT_def by (metis prod.collapse)
  let ?d = "set_writer canon (Some a) dirs"
  have "{k. held ?d k = Some a} = insert canon {k. held dirs k = Some a}"
    by (auto simp: held_set_writer)
  then have "count_held ?d a = Suc (count_held dirs a)"
    using assms c(2) by (simp add: count_held_card finite_held)
  moreover have "write_paths b ?d = write_paths b dirs" if "b \<noteq> a" for b
  proof -
    have "map_of dirs canon = Some st \<Longrightarrow> writer st = None" for st using c(2) by (simp add: held_def)
    with that show ?thesis unfolding set_writer_def write_paths_def
      by (induction canon "\<lparr>writer = Some a\<rparr>" dirs rule: bt_insert.induct) (auto split: if_splits)
  qed
  ultimately show ?thesis using c by simp
qed

theorem acquire_bounds_witness:
  "count_held (snd (acquire sample_fs ''kid'' ''/a/b/c'' [''boss''] sample_locks)) ''kid'' = Suc 0"
proof -
  have "bt_valid sample_locks"
    by (simp add: sample_locks_def new_dirs_def dirs_ok_acquire [unfolded dirs_ok_def, THEN conjunct1])
  moreover have "fst (acquire sample_fs ''kid'' ''/a/b/c'' [''boss''] sample_locks) = Inr Acquired"
    "count_held sample_locks ''kid'' = 0"
    by code_simp+
  ultimately show ?thesis
    using acquire_bounds [of sample_locks sample_fs "''kid''" "''/a/b/c''" "[''boss'']"] by simp
qed

lemma lock_views_facts:
  assumes "bt_valid dirs"
  shows "set (write_paths a dirs) \<inter> set (readonly_paths a dirs) = {}"
    and "set (write_paths a dirs) \<union> set (readonly_paths a dirs) = {k. held dirs k \<noteq> None}"
    and "write_paths a (release_all a dirs) = []"
    and "b \<noteq> a \<Longrightarrow> set (write_paths b (release_all a dirs)) = set (write_paths b dirs)"
proof -
  have valid: "bt_valid (release_all a dirs)"
    by (simp add: release_all_def retain_held_def bt_valid_filter bt_valid_retag assms)
  show "set (write_paths a dirs) \<inter> set (readonly_paths a dirs) = {}"
    "set (write_paths a dirs) \<union> set (readonly_paths a dirs) = {k. held dirs k \<noteq> None}"
    by (auto simp: set_write_paths [OF assms])
  have "set (write_paths a (release_all a dirs)) = {}"
    by (auto simp: set_write_paths [OF valid] held_release_all [OF assms])
  then show "write_paths a (release_all a dirs) = []" by simp
  show "set (write_paths b (release_all a dirs)) = set (write_paths b dirs)" if "b \<noteq> a"
    using that by (auto simp: set_write_paths [OF valid] set_write_paths [OF assms] held_release_all [OF assms])
qed

text \<open>
  The views the sandbox derives from the table: an agent's writable and read-only directories
  are disjoint and together are exactly the locked directories, and after \<open>release_all\<close> the agent
  has no writable directory while every other agent keeps its own.
\<close>

theorem lock_views:
  assumes "bt_valid dirs"
  shows "set (write_paths a dirs) \<inter> set (readonly_paths a dirs) = {} \<and>
    set (write_paths a dirs) \<union> set (readonly_paths a dirs) = {k. held dirs k \<noteq> None} \<and>
    write_paths a (release_all a dirs) = [] \<and>
    (b \<noteq> a \<longrightarrow> set (write_paths b (release_all a dirs)) = set (write_paths b dirs))"
  by (rule lock_views_facts [OF assms] conjI impI | assumption)+

theorem lock_views_witness:
  "set (write_paths ''boss'' (release_all ''kid'' sample_locks)) = {[''a'', ''b'']}"
proof -
  have l: "sample_locks = [([''a'', ''b''], \<lparr>writer = Some ''boss''\<rparr>)]" by code_simp
  have "bt_valid sample_locks" by (simp add: l bt_valid_Cons)
  from lock_views [OF this, of "''kid''" "''boss''"] show ?thesis by (simp add: l write_paths_def)
qed

end
