(* ===== verification/Workspace_Lock.thy ===== *)
theory Workspace_Lock
  imports Dir_Lock
begin

text \<open>
  The workspace lock protocol that create, restore and reactivation share
  (\<open>kallip-tagma/src/lifecycle/workspace.rs\<close>): acquire, the forward transfer of a full handoff, and
  the guards whose destructors undo both.

  The guards are records; a destructor is a function from the lock table to the lock table, and
  \<open>drop_established\<close> runs the manual body before the field's own destructor, as Rust does. The file
  system may change between two calls of \<open>canonicalize\<close>, so the protocol takes one resolver per
  call (\<open>fs 0\<close> for the forward transfer, \<open>fs 1\<close> for the acquire, \<open>fs 2\<close> for the reversal).
\<close>

section \<open>Data\<close>

record workspace_guard =
  wg_id :: agent_id
  wg_armed :: bool

record handoff_rollback =
  hr_child :: agent_id
  hr_supervisor :: agent_id
  hr_ws :: string
  hr_armed :: bool

record established_lock =
  el_handoff :: "handoff_rollback option"
  el_workspace :: "workspace_guard option"

datatype acquire_failure = AcqBusy agent_id path | AcqOther lock_err

datatype establish_failure =
    HandoffWithoutSupervisor
  | ForwardTransferFailed lock_err
  | EstBusy agent_id path
  | AcquireFailed lock_err

datatype http_err = HttpConflict | HttpBadRequest | HttpInternal

section \<open>Operations\<close>

definition disarm_guard :: "workspace_guard \<Rightarrow> workspace_guard" where
  "disarm_guard g = g\<lparr>wg_armed := False\<rparr>"

definition drop_guard :: "workspace_guard \<Rightarrow> dir_map \<Rightarrow> dir_map" where
  "drop_guard g dirs = (if wg_armed g then release_all (wg_id g) dirs else dirs)"

definition try_acquire_workspace_lock ::
  "(string \<Rightarrow> path option) \<Rightarrow> agent_id \<Rightarrow> agent_config \<Rightarrow> agent_id list \<Rightarrow> dir_map \<Rightarrow>
   (acquire_failure + workspace_guard option) \<times> dir_map" where
  "try_acquire_workspace_lock cz a cfg chain dirs =
     (if cfg_permissions_class cfg \<noteq> Normal then (Inr None, dirs)
      else case acquire cz a (cfg_workspace_root cfg) chain dirs of
             (Inl e, dirs') \<Rightarrow> (Inl (AcqOther e), dirs')
           | (Inr (Busy h c), dirs') \<Rightarrow> (Inl (AcqBusy h c), dirs')
           | (Inr _, dirs') \<Rightarrow> (Inr (Some \<lparr>wg_id = a, wg_armed = True\<rparr>), dirs'))"

definition disarm :: "established_lock \<Rightarrow> established_lock" where
  "disarm e = e\<lparr>el_handoff := map_option (\<lambda>h. h\<lparr>hr_armed := False\<rparr>) (el_handoff e),
                el_workspace := map_option disarm_guard (el_workspace e)\<rparr>"

definition drop_established ::
  "(string \<Rightarrow> path option) \<Rightarrow> established_lock \<Rightarrow> dir_map \<Rightarrow> dir_map" where
  "drop_established cz e dirs =
     (let dirs1 = (case el_handoff e of
                     Some h \<Rightarrow> if hr_armed h
                               then snd (transfer cz (hr_child h) (hr_supervisor h) (hr_ws h) dirs)
                               else dirs
                   | None \<Rightarrow> dirs)
      in case el_workspace e of Some g \<Rightarrow> drop_guard g dirs1 | None \<Rightarrow> dirs1)"

definition reverse_transfer ::
  "(string \<Rightarrow> path option) \<Rightarrow> agent_id \<Rightarrow> agent_id option \<Rightarrow> string \<Rightarrow> dir_map \<Rightarrow> dir_map" where
  "reverse_transfer cz a supervisor ws dirs =
     (case supervisor of None \<Rightarrow> dirs | Some s \<Rightarrow> snd (transfer cz a s ws dirs))"

definition establish_workspace_lock ::
  "(nat \<Rightarrow> string \<Rightarrow> path option) \<Rightarrow> agent_id \<Rightarrow> agent_config \<Rightarrow> agent_id list \<Rightarrow> dir_map \<Rightarrow>
   (establish_failure + established_lock) \<times> dir_map" where
  "establish_workspace_lock fs a cfg chain dirs =
     (let is_handoff = (cfg_delegation_mode cfg = FullHandoff);
          ws = cfg_workspace_root cfg
      in if is_handoff \<and> cfg_created_by cfg = None then (Inl HandoffWithoutSupervisor, dirs)
         else
           (let supervisor = (if is_handoff then cfg_created_by cfg else None);
                (fwd, dirs1) = (case supervisor of
                                  None \<Rightarrow> (Inr NotOwner, dirs)
                                | Some s \<Rightarrow> transfer (fs 0) s a ws dirs)
            in case fwd of
                 Inl e \<Rightarrow> (Inl (ForwardTransferFailed e), dirs1)
               | Inr _ \<Rightarrow>
                   (case try_acquire_workspace_lock (fs 1) a cfg chain dirs1 of
                      (Inl (AcqBusy h c), dirs2) \<Rightarrow>
                        (Inl (EstBusy h c), reverse_transfer (fs 2) a supervisor ws dirs2)
                    | (Inl (AcqOther e), dirs2) \<Rightarrow>
                        (Inl (AcquireFailed e), reverse_transfer (fs 2) a supervisor ws dirs2)
                    | (Inr guard, dirs2) \<Rightarrow>
                        (Inr \<lparr>el_handoff = map_option (\<lambda>s. \<lparr>hr_child = a, hr_supervisor = s,
                                hr_ws = ws, hr_armed = True\<rparr>) supervisor,
                              el_workspace = guard\<rparr>, dirs2))))"

fun establish_lock_api_error :: "establish_failure \<Rightarrow> http_err" where
  "establish_lock_api_error (EstBusy _ _) = HttpConflict"
| "establish_lock_api_error (AcquireFailed _) = HttpBadRequest"
| "establish_lock_api_error HandoffWithoutSupervisor = HttpInternal"
| "establish_lock_api_error (ForwardTransferFailed _) = HttpInternal"

section \<open>Helper lemmas\<close>

lemma bt_insert_same: "bt_valid m \<Longrightarrow> map_of m k = Some v \<Longrightarrow> bt_insert k v m = m"
proof (induction k v m rule: bt_insert.induct)
  case (2 k v k' v' m)
  then show ?case by (auto simp: bt_valid_Cons split: if_splits dest!: map_of_SomeD)
qed simp

lemma bt_insert_twice: "bt_insert k v (bt_insert k w m) = bt_insert k v m"
  by (induction k v m rule: bt_insert.induct) auto

lemma set_writer_same:
  assumes "bt_valid dirs" "held dirs p = Some a"
  shows "set_writer p (Some a) dirs = dirs"
proof -
  obtain st where st: "map_of dirs p = Some st" "writer st = Some a"
    using assms(2) by (auto simp: held_def bind_eq_Some_conv)
  then have "st = \<lparr>writer = Some a\<rparr>" by (cases st) simp
  with assms(1) st(1) show ?thesis by (simp add: set_writer_def bt_insert_same)
qed

lemma set_writer_twice [simp]: "set_writer p v (set_writer p w dirs) = set_writer p v dirs"
  by (simp add: set_writer_def bt_insert_twice)

lemma transfer_owner:
  "cz ws = Some p \<Longrightarrow> held dirs p = Some a \<Longrightarrow> transfer cz a b ws dirs = (Inr Transferred, set_writer p (Some b) dirs)"
  by (simp add: transfer_def canonicalize_def held_def)

lemma transfer_not_owner:
  "cz ws = Some p \<Longrightarrow> held dirs p \<noteq> Some a \<Longrightarrow> transfer cz a b ws dirs = (Inr NotOwner, dirs)"
  by (simp add: transfer_def canonicalize_def held_def)

lemma transfer_unresolved: "cz ws = None \<Longrightarrow> transfer cz a b ws dirs = (Inl (CannotLock ws), dirs)"
  by (simp add: transfer_def canonicalize_def)

lemma acquire_held_by_self:
  "cz raw = Some p \<Longrightarrow> held dirs p = Some a \<Longrightarrow> acquire cz a raw chain dirs = (Inr AlreadyHeld, dirs)"
  by (simp add: acquire_def canonicalize_def held_def)

lemma try_acquire_err:
  assumes "bt_valid dirs" "try_acquire_workspace_lock cz a cfg chain dirs = (Inl e, dirs')"
  shows "dirs' = dirs"
proof (rule ccontr)
  assume "dirs' \<noteq> dirs"
  with assms(2) have "snd (acquire cz a (cfg_workspace_root cfg) chain dirs) \<noteq> dirs"
    by (auto simp: try_acquire_workspace_lock_def split: if_splits prod.splits sum.splits acquire_outcome.splits)
  then have "fst (acquire cz a (cfg_workspace_root cfg) chain dirs) = Inr Acquired"
    using acquire_cases [OF assms(1)] by (metis prod.collapse)
  with assms(2) show False
    by (auto simp: try_acquire_workspace_lock_def split: if_splits prod.splits)
qed

lemma try_acquire_held:
  assumes "cz (cfg_workspace_root cfg) = Some p" "held dirs p = Some a"
  shows "\<exists>g. try_acquire_workspace_lock cz a cfg chain dirs = (Inr g, dirs)"
  using assms acquire_held_by_self [of cz "cfg_workspace_root cfg" p] by (simp add: try_acquire_workspace_lock_def)

lemma reverse_noop:
  assumes "bt_valid dirs" "try_acquire_workspace_lock cz a cfg chain dirs = (Inl e, dirs)"
  shows "reverse_transfer cz a s (cfg_workspace_root cfg) dirs = dirs"
proof (cases "cz (cfg_workspace_root cfg)")
  case None
  then show ?thesis by (simp add: reverse_transfer_def transfer_unresolved split: option.split)
next
  case (Some p)
  have "held dirs p \<noteq> Some a"
    using try_acquire_held [of cz cfg p dirs a chain] Some assms(2) by auto
  then show ?thesis
    using Some by (simp add: reverse_transfer_def transfer_not_owner split: option.split)
qed

lemma release_all_nothing:
  assumes "dirs_ok dirs" "\<forall>k. held dirs k \<noteq> Some a"
  shows "release_all a dirs = dirs"
proof -
  have "writer st \<noteq> Some a \<and> writer st \<noteq> None" if "(k, st) \<in> set dirs" for k st
  proof -
    have "map_of dirs k = Some st"
      using that assms(1) by (simp add: dirs_ok_def map_of_eq_Some_distinct bt_valid_distinct)
    then have "held dirs k = writer st" by (simp add: held_def)
    with assms(2) have "writer st \<noteq> Some a" by metis
    moreover have "writer st \<noteq> None" using assms(1) that by (force simp: dirs_ok_def)
    ultimately show ?thesis by simp
  qed
  then have "map (\<lambda>(k, st). (k, if writer st = Some a then st\<lparr>writer := None\<rparr> else st)) dirs = dirs"
    "filter (\<lambda>(_, st). writer st \<noteq> None) dirs = dirs"
    by (auto intro!: map_idI filter_True)
  then show ?thesis by (simp add: release_all_def retain_held_def)
qed

lemma drop_disarmed [simp]: "drop_established cz (disarm e) dirs = dirs"
  by (cases "el_handoff e"; cases "el_workspace e")
    (simp_all add: drop_established_def disarm_def disarm_guard_def drop_guard_def)

text \<open>What a successful establish of a full handoff returns, by whether the supervisor held the lock.\<close>

lemma establish_handoff:
  assumes "cfg_delegation_mode cfg = FullHandoff" "cfg_created_by cfg = Some s"
    "cz (cfg_workspace_root cfg) = Some p"
    "establish_workspace_lock (\<lambda>_. cz) a cfg chain dirs = (Inr e, d)"
  shows "el_handoff e = Some \<lparr>hr_child = a, hr_supervisor = s, hr_ws = cfg_workspace_root cfg, hr_armed = True\<rparr> \<and>
    el_workspace e = (if cfg_permissions_class cfg = Normal then Some \<lparr>wg_id = a, wg_armed = True\<rparr> else None) \<and>
    try_acquire_workspace_lock cz a cfg chain (snd (transfer cz s a (cfg_workspace_root cfg) dirs))
      = (Inr (el_workspace e), d)"
proof -
  let ?t = "try_acquire_workspace_lock cz a cfg chain (snd (transfer cz s a (cfg_workspace_root cfg) dirs))"
  have *: "?t = (Inr (el_workspace e), d)"
    "el_handoff e = Some \<lparr>hr_child = a, hr_supervisor = s, hr_ws = cfg_workspace_root cfg, hr_armed = True\<rparr>"
    using assms(1,2,4)
    by (auto simp: establish_workspace_lock_def Let_def split: prod.splits sum.splits acquire_failure.splits)
  from *(1) have "el_workspace e = (if cfg_permissions_class cfg = Normal then Some \<lparr>wg_id = a, wg_armed = True\<rparr> else None)"
    by (auto simp: try_acquire_workspace_lock_def split: if_splits prod.splits sum.splits acquire_outcome.splits)
  with * show ?thesis by simp
qed

section \<open>Properties\<close>

text \<open>
  Error contract: when \<open>establish_workspace_lock\<close> fails and the workspace path resolves the same
  way throughout the call, the lock table is exactly what it was before, on every failure branch
  (missing supervisor, failed forward transfer, busy, failed acquire).
\<close>

theorem establish_err_restores:
  assumes "bt_valid dirs" "establish_workspace_lock (\<lambda>_. cz) a cfg chain dirs = (Inl e, dirs')"
  shows "dirs' = dirs"
proof -
  let ?ws = "cfg_workspace_root cfg"
  define sv where "sv = (if cfg_delegation_mode cfg = FullHandoff then cfg_created_by cfg else None)"
  define d1 where "d1 = (case sv of None \<Rightarrow> dirs | Some s \<Rightarrow> snd (transfer cz s a ?ws dirs))"
  have valid: "bt_valid d1"
    using assms(1) by (auto simp: d1_def transfer_def split: option.split sum.split)
  have keep: "reverse_transfer cz a sv ?ws d1 = d1 \<and> d1 = dirs"
    if f: "try_acquire_workspace_lock cz a cfg chain d1 = (Inl x, d1)" for x
  proof
    show "reverse_transfer cz a sv ?ws d1 = d1" by (rule reverse_noop [OF valid f])
    show "d1 = dirs"
    proof (cases "\<exists>s p. sv = Some s \<and> cz ?ws = Some p \<and> held dirs p = Some s")
      case True
      then obtain s p where "sv = Some s" "cz ?ws = Some p" "held dirs p = Some s" by blast
      then have "d1 = set_writer p (Some a) dirs" "cz ?ws = Some p"
        by (simp_all add: d1_def transfer_owner)
      with try_acquire_held [of cz cfg p d1 a chain] f show ?thesis by (auto simp: held_set_writer)
    next
      case False
      then show ?thesis
        by (cases "cz ?ws") (auto simp: d1_def transfer_unresolved transfer_not_owner split: option.split)
    qed
  qed
  show ?thesis
  proof (cases "try_acquire_workspace_lock cz a cfg chain d1")
    case (Pair r d2)
    show ?thesis
    proof (cases r)
      case (Inl x)
      with Pair try_acquire_err [OF valid, of cz a cfg chain x d2] have "d2 = d1" by simp
      with Inl Pair keep assms(2) show ?thesis
        by (auto simp: establish_workspace_lock_def Let_def sv_def d1_def transfer_def
            split: if_splits option.splits sum.splits acquire_failure.splits prod.splits)
    next
      case (Inr g)
      with Pair assms(2) show ?thesis
        by (auto simp: establish_workspace_lock_def Let_def sv_def d1_def transfer_def
            split: if_splits option.splits sum.splits prod.splits)
    qed
  qed
qed


definition handoff_config :: "agent_config" where
  "handoff_config = \<lparr>cfg_created_by = Some ''boss'', cfg_workspace_root = ''/a/b'',
     cfg_permissions_class = Normal, cfg_delegation_mode = FullHandoff, cfg_role = ''r'',
     cfg_description = [], cfg_profile_set = None, cfg_permissions = new_profile ''/a/b''\<rparr>"

definition stranger_locks :: dir_map where
  "stranger_locks = snd (acquire sample_fs ''other'' ''/a/b/c'' [] new_dirs)"

theorem establish_err_restores_witness:
  "snd (establish_workspace_lock (\<lambda>_. sample_fs) ''kid'' handoff_config [] stranger_locks) = stranger_locks"
proof -
  have "bt_valid stranger_locks"
    by (simp add: stranger_locks_def new_dirs_def dirs_ok_acquire [unfolded dirs_ok_def, THEN conjunct1])
  moreover have "fst (establish_workspace_lock (\<lambda>_. sample_fs) ''kid'' handoff_config [] stranger_locks)
      = Inl (EstBusy ''other'' [''a'', ''b'', ''c''])"
    by code_simp
  ultimately show ?thesis
    using establish_err_restores [of stranger_locks sample_fs "''kid''" handoff_config "[]"]
    by (metis prod.collapse)
qed

text \<open>
  A full handoff is undone exactly: when the supervisor held the workspace lock and the new
  child held nothing, a successful establish makes the child the holder, dropping the armed guard
  afterwards (any later failure) gives back exactly the old lock table, and dropping the disarmed
  guard (success) keeps the child's lock.
\<close>

theorem handoff_rollback_exact:
  assumes "dirs_ok dirs" "cfg_delegation_mode cfg = FullHandoff" "cfg_created_by cfg = Some s"
    "cz (cfg_workspace_root cfg) = Some p" "held dirs p = Some s" "\<forall>k. held dirs k \<noteq> Some a"
    "establish_workspace_lock (\<lambda>_. cz) a cfg chain dirs = (Inr e, d)"
  shows "held d p = Some a \<and> drop_established cz e d = dirs \<and> drop_established cz (disarm e) d = d"
proof -
  have valid: "bt_valid dirs" using assms(1) by (simp add: dirs_ok_def)
  have h: "held (set_writer p (Some a) dirs) p = Some a" by (simp add: held_set_writer)
  obtain g where "try_acquire_workspace_lock cz a cfg chain (set_writer p (Some a) dirs)
      = (Inr g, set_writer p (Some a) dirs)"
    using try_acquire_held [of cz cfg p] assms(4) h by blast
  with establish_handoff [OF assms(2,3,4,7)] have e:
    "el_handoff e = Some \<lparr>hr_child = a, hr_supervisor = s, hr_ws = cfg_workspace_root cfg, hr_armed = True\<rparr>"
    "el_workspace e = (if cfg_permissions_class cfg = Normal then Some \<lparr>wg_id = a, wg_armed = True\<rparr> else None)"
    and d: "d = set_writer p (Some a) dirs"
    using transfer_owner [of cz "cfg_workspace_root cfg" p dirs s a] assms(4,5) by auto
  have "snd (transfer cz a s (cfg_workspace_root cfg) d) = dirs"
    using transfer_owner [of cz "cfg_workspace_root cfg" p d a s] assms(4) h
      set_writer_same [OF valid assms(5)] by (simp add: d)
  then have "drop_established cz e d = dirs"
    using release_all_nothing [OF assms(1,6)] by (simp add: drop_established_def e drop_guard_def)
  then show ?thesis by (simp add: d h)
qed

theorem handoff_rollback_exact_witness:
  "held (drop_established sample_fs
      (the (case fst (establish_workspace_lock (\<lambda>_. sample_fs) ''kid'' handoff_config [] sample_locks) of
         Inr e \<Rightarrow> Some e | _ \<Rightarrow> None))
      (snd (establish_workspace_lock (\<lambda>_. sample_fs) ''kid'' handoff_config [] sample_locks))) [''a'', ''b'']
    = Some ''boss''"
proof -
  have l: "sample_locks = [([''a'', ''b''], \<lparr>writer = Some ''boss''\<rparr>)]" by code_simp
  have ok: "dirs_ok sample_locks" by (simp add: l dirs_ok_def bt_valid_Cons)
  obtain e d where ed: "establish_workspace_lock (\<lambda>_. sample_fs) ''kid'' handoff_config [] sample_locks = (Inr e, d)"
  proof -
    have "is_ok (fst (establish_workspace_lock (\<lambda>_. sample_fs) ''kid'' handoff_config [] sample_locks))"
      by code_simp
    then show ?thesis
      using that by (cases "establish_workspace_lock (\<lambda>_. sample_fs) ''kid'' handoff_config [] sample_locks")
        (auto simp: is_ok_def split: sum.splits)
  qed
  have bs: "held sample_locks [''a'', ''b''] = Some ''boss''" "\<forall>k. held sample_locks k \<noteq> Some ''kid''"
    by (simp_all add: l held_def)
  with handoff_rollback_exact [of sample_locks handoff_config "''boss''" sample_fs "[''a'', ''b'']" "''kid''" "[]" e d]
    ok ed have "drop_established sample_fs e d = sample_locks"
    by (simp add: handoff_config_def sample_fs_def)
  then show ?thesis by (simp add: ed bs(1))
qed

text \<open>
  The rollback is not conditional on the forward transfer having happened: when the supervisor
  did not hold the lock (it was free), a full-handoff establish still succeeds by a fresh acquire,
  and dropping the armed guard leaves the supervisor holding a workspace lock it did not have
  before the call.
\<close>

theorem handoff_rollback_grants_new_lock:
  assumes "dirs_ok dirs" "cfg_delegation_mode cfg = FullHandoff" "cfg_created_by cfg = Some s"
    "cz (cfg_workspace_root cfg) = Some p" "held dirs p = None" "s \<noteq> a"
    "cfg_permissions_class cfg = Normal"
    "establish_workspace_lock (\<lambda>_. cz) a cfg chain dirs = (Inr e, d)"
  shows "held dirs p = None \<and> held (drop_established cz e d) p = Some s"
proof -
  have valid: "bt_valid dirs" using assms(1) by (simp add: dirs_ok_def)
  have fwd: "snd (transfer cz s a (cfg_workspace_root cfg) dirs) = dirs"
    using transfer_not_owner [of cz "cfg_workspace_root cfg" p dirs s a] assms(4,5) by simp
  from establish_handoff [OF assms(2,3,4,8)] have e:
    "el_handoff e = Some \<lparr>hr_child = a, hr_supervisor = s, hr_ws = cfg_workspace_root cfg, hr_armed = True\<rparr>"
    "el_workspace e = Some \<lparr>wg_id = a, wg_armed = True\<rparr>"
    and t: "try_acquire_workspace_lock cz a cfg chain dirs = (Inr (el_workspace e), d)"
    using assms(7) by (auto simp: fwd)
  from t assms(7) have "snd (acquire cz a (cfg_workspace_root cfg) chain dirs) = d"
    "fst (acquire cz a (cfg_workspace_root cfg) chain dirs) \<in> {Inr Acquired, Inr AlreadyHeld}"
    by (auto simp: try_acquire_workspace_lock_def split: prod.splits sum.splits acquire_outcome.splits)
  then have d: "d = set_writer p (Some a) dirs"
    using assms(4,5) overlap_conflict_Some [OF valid]
    by (fastforce simp: acquire_def canonicalize_def held_def [symmetric] blocked_by_def split: option.splits if_splits)
  have "held d p = Some a" by (simp add: d held_set_writer)
  then have undo: "snd (transfer cz a s (cfg_workspace_root cfg) d) = set_writer p (Some s) dirs"
    using transfer_owner [of cz "cfg_workspace_root cfg" p d a s] assms(4) by (simp add: d)
  have "held (release_all a (set_writer p (Some s) dirs)) p = Some s"
    using valid assms(6) by (simp add: held_release_all held_set_writer)
  then show ?thesis
    using assms(5) by (simp add: drop_established_def e undo drop_guard_def)
qed

theorem handoff_rollback_grants_new_lock_witness:
  "\<exists>e d. establish_workspace_lock (\<lambda>_. sample_fs) ''kid'' handoff_config [] new_dirs = (Inr e, d) \<and>
     held (drop_established sample_fs e d) [''a'', ''b''] = Some ''boss''"
proof -
  obtain e d where ed: "establish_workspace_lock (\<lambda>_. sample_fs) ''kid'' handoff_config [] new_dirs = (Inr e, d)"
  proof -
    have "is_ok (fst (establish_workspace_lock (\<lambda>_. sample_fs) ''kid'' handoff_config [] new_dirs))"
      by code_simp
    then show ?thesis
      using that by (cases "establish_workspace_lock (\<lambda>_. sample_fs) ''kid'' handoff_config [] new_dirs")
        (auto simp: is_ok_def split: sum.splits)
  qed
  with handoff_rollback_grants_new_lock [of new_dirs handoff_config "''boss''" sample_fs "[''a'', ''b'']" "''kid''" "[]" e d]
  show ?thesis by (auto simp: new_dirs_def dirs_ok_def held_def handoff_config_def sample_fs_def)
qed

end
