(* ===== verification/Token_Budget.thy ===== *)
theory Token_Budget
  imports Prelude
begin

text \<open>
  The tagma-wide token budget (\<open>kallip-runtime/src/token_budget.rs\<close>): two 64-bit counters shared by
  all agents.

  The counters are words, so that wrap-around and truncation are what the hardware does: \<open>fetch_add\<close>
  wraps, the saturating operations clamp, and \<open>as u8\<close> keeps the low eight bits. Other agents may
  change the counters between two loads of one method; \<open>adjust_delta\<close> therefore takes the
  consumption it loaded before its compare-and-swap loop as an argument, and the state the
  successful (or finally refused) swap sees.
\<close>

record token_budget =
  tb_budget :: u64
  tb_consumed :: u64

type_synonym budget_snapshot = token_budget

definition new_budget :: "u64 \<Rightarrow> u64 \<Rightarrow> token_budget" where
  "new_budget b c = \<lparr>tb_budget = b, tb_consumed = c\<rparr>"

definition snapshot :: "token_budget \<Rightarrow> budget_snapshot" where
  "snapshot t = \<lparr>tb_budget = tb_budget t, tb_consumed = tb_consumed t\<rparr>"

definition remaining :: "budget_snapshot \<Rightarrow> u64" where
  "remaining s = sat_sub (tb_budget s) (tb_consumed s)"

definition is_exceeded :: "budget_snapshot \<Rightarrow> bool" where
  "is_exceeded s \<longleftrightarrow> tb_budget s \<le> tb_consumed s"

definition usage_pct :: "budget_snapshot \<Rightarrow> u8" where
  "usage_pct s = (if tb_budget s = 0 then 0 else ucast ((tb_consumed s * 100) div tb_budget s))"

definition record_usage :: "u64 \<Rightarrow> u64 \<Rightarrow> token_budget \<Rightarrow> token_budget" where
  "record_usage prompt completion t = t\<lparr>tb_consumed := tb_consumed t + sat_add prompt completion\<rparr>"

definition set_limit :: "u64 \<Rightarrow> token_budget \<Rightarrow> token_budget" where
  "set_limit lim t = t\<lparr>tb_budget := lim\<rparr>"

definition set_remaining :: "u64 \<Rightarrow> token_budget \<Rightarrow> u64 \<times> token_budget" where
  "set_remaining v t = (let b = sat_add (tb_consumed t) v in (b, t\<lparr>tb_budget := b\<rparr>))"

definition unsigned_abs :: "64 word \<Rightarrow> u64" where
  "unsigned_abs d = word_of_int \<bar>sint d\<bar>"

definition adjust_delta :: "u64 \<Rightarrow> 64 word \<Rightarrow> token_budget \<Rightarrow> (u64 + u64) \<times> token_budget" where
  "adjust_delta consumed delta t =
     (let b = (if 0 < sint delta then sat_add (tb_budget t) (unsigned_abs delta)
               else sat_sub (tb_budget t) (unsigned_abs delta))
      in if b \<le> consumed then (Inl b, t) else (Inr b, t\<lparr>tb_budget := b\<rparr>))"

section \<open>Helper lemmas\<close>

lemma unat_unsigned_abs: "unat (unsigned_abs d) = nat \<bar>sint d\<bar>"
proof -
  have "\<bar>sint d\<bar> \<le> 2 ^ 63" using sint_ge [of d] sint_lt [of d] by simp
  then have "\<bar>sint d\<bar> mod 2 ^ 64 = \<bar>sint d\<bar>" by (intro mod_pos_pos_trivial) auto
  then have "uint (unsigned_abs d) = \<bar>sint d\<bar>" by (simp add: unsigned_abs_def uint_word_of_int)
  then show ?thesis by (simp add: unat_eq_nat_uint)
qed

lemma unat_mult_100:
  fixes x :: u64
  assumes "unat x * 100 < 2 ^ 64"
  shows "unat (x * 100) = unat x * 100"
  using assms by (simp add: unat_word_ariths)

lemma unat_usage_pct:
  assumes "unat (tb_consumed s) * 100 < 2 ^ 64"
  shows "unat (usage_pct s) = unat (tb_consumed s) * 100 div unat (tb_budget s) mod 256"
proof (cases "tb_budget s = 0")
  case False
  then show ?thesis
    by (simp add: usage_pct_def unsigned_ucast_eq take_bit_eq_mod unat_div_distrib unat_mult_100 [OF assms])
qed (simp add: usage_pct_def)

lemma len64: "LENGTH(64) = 64"
  by simp

lemma clamp_nat:
  fixes B :: nat and D :: int
  assumes "B < 2 ^ 64"
  shows "(if 0 < D then min (B + nat \<bar>D\<bar>) (2 ^ 64 - 1) else B - nat \<bar>D\<bar>)
    = nat (max 0 (min (int B + D) (2 ^ 64 - 1)))"
  using assms by (auto simp: max_def min_def)

definition total_usage :: "(u64 \<times> u64) list \<Rightarrow> nat" where
  "total_usage us = (\<Sum>(p, c) \<leftarrow> us. unat p + unat c)"

section \<open>Properties\<close>

lemma usage_pct_exact_facts:
  assumes "unat (tb_consumed s) * 100 < 2 ^ 64"
  shows "unat (usage_pct s) = unat (tb_consumed s) * 100 div unat (tb_budget s) mod 256"
    and "tb_consumed s \<le> tb_budget s \<Longrightarrow>
      unat (usage_pct s) = unat (tb_consumed s) * 100 div unat (tb_budget s) \<and> unat (usage_pct s) \<le> 100"
proof -
  show pct: "unat (usage_pct s) = unat (tb_consumed s) * 100 div unat (tb_budget s) mod 256"
    by (rule unat_usage_pct [OF assms])
  assume "tb_consumed s \<le> tb_budget s"
  then have "unat (tb_consumed s) * 100 div unat (tb_budget s) \<le> unat (tb_budget s) * 100 div unat (tb_budget s)"
    by (intro div_le_mono) (simp add: word_le_nat_alt)
  then have "unat (tb_consumed s) * 100 div unat (tb_budget s) \<le> 100"
    by (simp split: if_splits)
  with pct show "unat (usage_pct s) = unat (tb_consumed s) * 100 div unat (tb_budget s) \<and> unat (usage_pct s) \<le> 100"
    by simp
qed

text \<open>
  While consumption does not exceed the budget (and a hundred times it fits 64 bits), the usage
  percentage is the exact integer percentage and lies between 0 and 100; in general the eight-bit
  result is that percentage modulo 256.
\<close>

theorem usage_pct_exact:
  assumes "unat (tb_consumed s) * 100 < 2 ^ 64"
  shows "unat (usage_pct s) = unat (tb_consumed s) * 100 div unat (tb_budget s) mod 256 \<and>
    (tb_consumed s \<le> tb_budget s \<longrightarrow>
      unat (usage_pct s) = unat (tb_consumed s) * 100 div unat (tb_budget s) \<and> unat (usage_pct s) \<le> 100)"
  by (rule usage_pct_exact_facts [OF assms] conjI impI | assumption)+

theorem usage_pct_exact_witness: "unat (usage_pct \<lparr>tb_budget = 300, tb_consumed = 200\<rparr>) = 66"
  using usage_pct_exact [of "\<lparr>tb_budget = 300, tb_consumed = 200\<rparr>"] by simp

text \<open>
  Past the budget the percentage is not clamped: for every budget that is a multiple of 100
  (small enough not to overflow), a consumption of 2.56 times the budget is exceeded and yet
  reported as zero percent, the value the warning check treats as "no budget".
\<close>

theorem usage_pct_wraps_to_zero:
  assumes "0 < k" "k < 2 ^ 48"
  shows "is_exceeded \<lparr>tb_budget = of_nat (100 * k), tb_consumed = of_nat (256 * k)\<rparr> \<and>
    usage_pct \<lparr>tb_budget = of_nat (100 * k), tb_consumed = of_nat (256 * k)\<rparr> = 0"
proof -
  let ?s = "\<lparr>tb_budget = of_nat (100 * k), tb_consumed = of_nat (256 * k)\<rparr> :: token_budget"
  have b: "unat (tb_budget ?s) = 100 * k" "unat (tb_consumed ?s) = 256 * k"
    using assms by (simp_all only: token_budget.select_convs unat_of_nat) (simp_all del: of_nat_mult)
  have "unat (tb_consumed ?s) * 100 < 2 ^ 64" using assms b by simp
  from unat_usage_pct [OF this] have "unat (usage_pct ?s) = 0" using b assms by simp
  then have "usage_pct ?s = 0" by (rule unat_eq_zero [THEN iffD1])
  moreover have "is_exceeded ?s" using b by (simp only: is_exceeded_def word_le_nat_alt)
  ultimately show ?thesis by blast
qed

theorem usage_pct_wraps_to_zero_witness: "usage_pct \<lparr>tb_budget = 100, tb_consumed = 256\<rparr> = 0"
  using usage_pct_wraps_to_zero [of 1] by simp

lemma record_usage_total_facts:
  assumes "unat (tb_consumed t) + total_usage us < 2 ^ 64"
  shows "unat (tb_consumed (fold (\<lambda>(p, c). record_usage p c) us t)) = unat (tb_consumed t) + total_usage us"
    and "tb_budget (fold (\<lambda>(p, c). record_usage p c) us t) = tb_budget t"
proof -
  show "unat (tb_consumed (fold (\<lambda>(p, c). record_usage p c) us t)) = unat (tb_consumed t) + total_usage us"
    using assms
  proof (induction us arbitrary: t)
    case (Cons u us)
    obtain p c where u: "u = (p, c)" by (cases u)
    have "unat p + unat c < 2 ^ 64" "unat (tb_consumed t) + (unat p + unat c) < 2 ^ 64"
      using Cons.prems by (simp_all add: u total_usage_def)
    then have "unat (tb_consumed (record_usage p c t)) = unat (tb_consumed t) + (unat p + unat c)"
      by (simp add: record_usage_def unat_word_ariths sat_arith)
    with Cons.IH [of "record_usage p c t"] Cons.prems show ?case by (simp add: u total_usage_def)
  qed (simp add: total_usage_def)
  show "tb_budget (fold (\<lambda>(p, c). record_usage p c) us t) = tb_budget t"
    by (induction us arbitrary: t) (auto simp: record_usage_def)
qed

text \<open>
  Recording: after any sequence of calls the consumption is the initial one plus the sum of all
  prompt and completion tokens, as long as that sum fits 64 bits, and the limit is untouched.
\<close>

theorem record_usage_total:
  assumes "unat (tb_consumed t) + total_usage us < 2 ^ 64"
  shows "unat (tb_consumed (fold (\<lambda>(p, c). record_usage p c) us t)) = unat (tb_consumed t) + total_usage us \<and>
    tb_budget (fold (\<lambda>(p, c). record_usage p c) us t) = tb_budget t"
  by (rule record_usage_total_facts [OF assms] conjI impI | assumption)+

theorem record_usage_total_witness:
  "unat (tb_consumed (fold (\<lambda>(p, c). record_usage p c) [(3, 4), (5, 6)] (new_budget 100 1))) = 19"
  using record_usage_total [of "new_budget 100 1" "[(3, 4), (5, 6)]"]
  by (simp add: new_budget_def total_usage_def)

text \<open>
  Adjusting by a signed delta computes the exact new limit clamped to the 64-bit range; it is
  stored exactly when it stays above the consumption that was read, and on refusal the limit is
  unchanged and the attempted value is returned. Setting the remaining amount makes exactly that
  much (clamped) available.
\<close>

theorem adjust_delta_exact:
  "let b = max 0 (min (int (unat (tb_budget t)) + sint d) (2 ^ 64 - 1)) in
   (if nat b \<le> unat c
    then \<exists>x. adjust_delta c d t = (Inl x, t) \<and> unat x = nat b
    else \<exists>x. adjust_delta c d t = (Inr x, t\<lparr>tb_budget := x\<rparr>) \<and> unat x = nat b) \<and>
   unat (remaining (snd (set_remaining v t))) = min (unat v) (2 ^ 64 - 1 - unat (tb_consumed t))"
proof -
  define x where "x = (if 0 < sint d then sat_add (tb_budget t) (unsigned_abs d)
    else sat_sub (tb_budget t) (unsigned_abs d))"
  have b: "unat x = nat (max 0 (min (int (unat (tb_budget t)) + sint d) (2 ^ 64 - 1)))"
    unfolding x_def using clamp_nat [of "unat (tb_budget t)" "sint d"] unsigned_less [where 'a = nat, of "tb_budget t"]
    by (cases "0 < sint d") (simp_all only: if_True if_False sat_arith unat_unsigned_abs len64)
  have "adjust_delta c d t = (if unat x \<le> unat c then (Inl x, t) else (Inr x, t\<lparr>tb_budget := x\<rparr>))"
    by (simp add: adjust_delta_def x_def Let_def word_le_nat_alt)
  moreover have "unat (remaining (snd (set_remaining v t))) = min (unat v) (2 ^ 64 - 1 - unat (tb_consumed t))"
    using unsigned_less [where 'a = nat, of "tb_consumed t"] by (auto simp: remaining_def set_remaining_def Let_def sat_arith)
  ultimately show ?thesis unfolding Let_def b [symmetric] by auto
qed

end
