(* ===== verification/Context_Store.thy ===== *)
theory Context_Store
  imports Prelude
begin

text \<open>
  The agent's context log (\<open>kallip-runtime/src/context/turn.rs\<close>, \<open>manifest.rs\<close>, \<open>store.rs\<close>,
  \<open>compose.rs\<close>): conversation turns behind a block of pinned turns, the pinned-layer budget, usage
  accounting, warning state, and the split projection onto disk.

  A chat message belongs to the client library and is a type parameter; what the code asks of it
  (role, content, tool calls, the two constructors, and the token estimator) comes in the record
  \<open>chat_ops\<close>. Token counts, turn ids and timestamps are natural numbers (the source counts them in
  \<open>usize\<close> and \<open>u64\<close> far from their bounds); percentages and provider-reported usage keep their
  machine width.

  The trait \<open>AgenticContext\<close> is the locale \<open>agentic_context\<close>: its laws are what the tools rely on,
  its client lemmas follow from the laws, and it is interpreted on the concrete store.
\<close>

section \<open>Data\<close>

record tool_call =
  tc_id :: string
  tc_name :: string
  tc_arguments :: string

record 'm chat_ops =
  est_tokens :: "'m \<Rightarrow> nat"
  msg_role :: "'m \<Rightarrow> string"
  msg_content :: "'m \<Rightarrow> string option"
  msg_tool_calls :: "'m \<Rightarrow> tool_call list option"
  mk_user :: "string \<Rightarrow> 'm"
  mk_assistant :: "string \<Rightarrow> 'm"

datatype turn_kind = Conversation | Pinned string

record 'm turn =
  turn_id :: nat
  messages :: "'m list"
  estimated_tokens :: nat
  kind :: turn_kind

record cumulative_usage =
  cu_prompt :: u64
  cu_completion :: u64
  cu_cache_hit :: u64

record provider_usage =
  us_prompt :: u32
  us_completion :: u32
  us_cache_hit :: "u32 option"

datatype retry_kind = RateLimit | Timeout | Server | Transport

record retry_record =
  rr_timestamp :: nat
  rr_round :: nat
  rr_attempt :: u32
  rr_max_attempts :: u32
  rr_error :: string
  rr_delay :: nat
  rr_endpoint :: "string option"
  rr_kind :: retry_kind
  rr_quota_reset :: "nat option"

definition RETRY_LOG_KEEP :: nat where "RETRY_LOG_KEEP = 20"

record 'm pinned_item =
  pi_label :: string
  pi_message :: 'm
  pi_tokens :: nat

record evict_result =
  er_evicted :: nat
  er_remaining :: nat
  er_freed :: nat

record ('m, 'd) context_store =
  tool_definitions :: "'d list"
  turns :: "'m turn list"
  legacy_pinned :: "'m pinned_item list"
  legacy_summary :: "string option"
  legacy_summary_tokens :: nat
  last_prompt_tokens :: "u32 option"
  anchored_turn_count :: nat
  needs_full_estimate :: bool
  cumulative :: cumulative_usage
  next_turn_id :: nat
  retry_log :: "retry_record list"
  pinned_token_budget :: nat
  highest_warned_pct :: "u8 option"
  highest_budget_warned_pct :: "u8 option"
  injected_turn_ids :: "nat set"

record context_usage =
  cx_pinned_items :: "(string \<times> nat) list"
  cx_turn_count :: nat
  cx_turn_tokens :: nat
  cx_last_prompt :: "u32 option"
  cx_cumulative :: cumulative_usage
  cx_largest :: "(nat \<times> nat) list"

record manifest_doc =
  md_version :: nat
  md_conversation_turn_ids :: "nat list"
  md_cumulative :: cumulative_usage
  md_next_turn_id :: nat
  md_retry_log :: "retry_record list"

record 'm pin_record =
  pr_id :: nat
  pr_label :: string
  pr_message :: 'm
  pr_tokens :: nat

record 'm pins_doc =
  pd_version :: nat
  pd_pins :: "'m pin_record list"

datatype context_err =
    AlreadyPinned string
  | PinNotFound string
  | PinnedBudgetExceeded nat nat nat
  | ReplaceBudgetExceeded nat nat

definition FORMAT_VERSION :: nat where "FORMAT_VERSION = 1"

section \<open>Turns\<close>

definition is_pinned :: "'m turn \<Rightarrow> bool" where
  "is_pinned t \<longleftrightarrow> (case kind t of Pinned _ \<Rightarrow> True | Conversation \<Rightarrow> False)"

definition label :: "'m turn \<Rightarrow> string option" where
  "label t = (case kind t of Pinned l \<Rightarrow> Some l | Conversation \<Rightarrow> None)"

definition estimate_tokens :: "'m chat_ops \<Rightarrow> 'm list \<Rightarrow> nat" where
  "estimate_tokens ops ms = sum_list (map (est_tokens ops) ms)"

section \<open>The store\<close>

definition new_store :: "('m, 'd) context_store" where
  "new_store = \<lparr>tool_definitions = [], turns = [], legacy_pinned = [], legacy_summary = None,
     legacy_summary_tokens = 0, last_prompt_tokens = None, anchored_turn_count = 0,
     needs_full_estimate = True, cumulative = \<lparr>cu_prompt = 0, cu_completion = 0, cu_cache_hit = 0\<rparr>,
     next_turn_id = 0, retry_log = [], pinned_token_budget = 0, highest_warned_pct = None,
     highest_budget_warned_pct = None, injected_turn_ids = {}\<rparr>"

definition pinned_turn_count :: "('m, 'd) context_store \<Rightarrow> nat" where
  "pinned_turn_count s = length (takeWhile is_pinned (turns s))"

definition pinned_turns :: "('m, 'd) context_store \<Rightarrow> 'm turn list" where
  "pinned_turns s = filter is_pinned (turns s)"

definition pinned_tokens_total :: "('m, 'd) context_store \<Rightarrow> nat" where
  "pinned_tokens_total s = sum_list (map estimated_tokens (pinned_turns s))"

definition total_estimated_tokens :: "('m, 'd) context_store \<Rightarrow> nat" where
  "total_estimated_tokens s = sum_list (map estimated_tokens (turns s))"

definition insert_at :: "nat \<Rightarrow> 'a \<Rightarrow> 'a list \<Rightarrow> 'a list" where
  "insert_at i x xs = take i xs @ x # drop i xs"

fun position :: "('a \<Rightarrow> bool) \<Rightarrow> 'a list \<Rightarrow> nat option" where
  "position P [] = None"
| "position P (x # xs) = (if P x then Some 0 else map_option Suc (position P xs))"

definition insert_pin :: "string \<Rightarrow> 'm \<Rightarrow> nat \<Rightarrow> ('m, 'd) context_store \<Rightarrow> ('m, 'd) context_store" where
  "insert_pin l m tok s =
     s\<lparr>next_turn_id := next_turn_id s + 1,
       turns := insert_at (pinned_turn_count s)
         \<lparr>turn_id = next_turn_id s, messages = [m], estimated_tokens = tok, kind = Pinned l\<rparr> (turns s),
       needs_full_estimate := True\<rparr>"

definition pin ::
  "'m chat_ops \<Rightarrow> string \<Rightarrow> 'm \<Rightarrow> ('m, 'd) context_store \<Rightarrow> context_err + ('m, 'd) context_store" where
  "pin ops l m s =
     (if \<exists>t \<in> set (pinned_turns s). label t = Some l then Inl (AlreadyPinned l)
      else
        (let tok = est_tokens ops m; cur = pinned_tokens_total s
         in if 0 < pinned_token_budget s \<and> pinned_token_budget s < cur + tok
            then Inl (PinnedBudgetExceeded cur tok (pinned_token_budget s))
            else Inr (insert_pin l m tok s)))"

definition has_label :: "string \<Rightarrow> 'm turn \<Rightarrow> bool" where
  "has_label l t \<longleftrightarrow> is_pinned t \<and> label t = Some l"

definition unpin :: "string \<Rightarrow> ('m, 'd) context_store \<Rightarrow> context_err + ('m, 'd) context_store" where
  "unpin l s =
     rbind (ok_or (PinNotFound l) (position (has_label l) (turns s))) (\<lambda>i.
       Inr (s\<lparr>turns := take i (turns s) @ drop (Suc i) (turns s), needs_full_estimate := True\<rparr>))"

definition replace_pin ::
  "'m chat_ops \<Rightarrow> string \<Rightarrow> 'm \<Rightarrow> ('m, 'd) context_store \<Rightarrow> context_err + ('m, 'd) context_store" where
  "replace_pin ops l m s =
     (let tok = est_tokens ops m;
          idx = position (has_label l) (turns s);
          old = (case idx of None \<Rightarrow> 0 | Some i \<Rightarrow> estimated_tokens (turns s ! i));
          base = pinned_tokens_total s - old
      in if 0 < pinned_token_budget s \<and> pinned_token_budget s < base + tok
         then Inl (ReplaceBudgetExceeded (base + tok) (pinned_token_budget s))
         else Inr (case idx of
                     Some i \<Rightarrow> s\<lparr>turns := (turns s)[i := (turns s ! i)\<lparr>messages := [m], estimated_tokens := tok\<rparr>],
                                 needs_full_estimate := True\<rparr>
                   | None \<Rightarrow> insert_pin l m tok s))"

definition pinned_labels :: "('m, 'd) context_store \<Rightarrow> string list" where
  "pinned_labels s = List.map_filter label (pinned_turns s)"

definition larger_turn :: "nat \<times> nat \<Rightarrow> nat \<times> nat \<Rightarrow> bool" where
  "larger_turn a b \<longleftrightarrow> snd b < snd a \<or> snd a = snd b \<and> fst a \<le> fst b"

fun insort_turn :: "nat \<times> nat \<Rightarrow> (nat \<times> nat) list \<Rightarrow> (nat \<times> nat) list" where
  "insort_turn x [] = [x]"
| "insort_turn x (y # ys) = (if larger_turn x y then x # y # ys else y # insort_turn x ys)"

definition usage_snapshot :: "('m, 'd) context_store \<Rightarrow> context_usage" where
  "usage_snapshot s =
     (let convo = filter (\<lambda>t. \<not> is_pinned t) (turns s)
      in \<lparr>cx_pinned_items = List.map_filter (\<lambda>t. map_option (\<lambda>l. (l, estimated_tokens t)) (label t)) (pinned_turns s),
          cx_turn_count = length convo,
          cx_turn_tokens = sum_list (map estimated_tokens convo),
          cx_last_prompt = last_prompt_tokens s,
          cx_cumulative = cumulative s,
          cx_largest = take 5 (foldr insort_turn (map (\<lambda>t. (turn_id t, estimated_tokens t)) convo) [])\<rparr>)"

definition evict_turns :: "nat \<Rightarrow> ('m, 'd) context_store \<Rightarrow> evict_result \<times> ('m, 'd) context_store" where
  "evict_turns count s =
     (let pinned = pinned_turn_count s;
          convo_len = length (turns s) - pinned;
          to_evict = min count convo_len;
          freed = sum_list (map estimated_tokens (take to_evict (drop pinned (turns s))));
          s' = s\<lparr>turns := take pinned (turns s) @ drop (pinned + to_evict) (turns s),
                 needs_full_estimate := True\<rparr>
      in (\<lparr>er_evicted = to_evict, er_remaining = length (turns s') - pinned_turn_count s', er_freed = freed\<rparr>, s'))"

definition reset_context_warnings :: "('m, 'd) context_store \<Rightarrow> ('m, 'd) context_store" where
  "reset_context_warnings s = s\<lparr>highest_warned_pct := None\<rparr>"

definition newest_messages :: "('m, 'd) context_store \<Rightarrow> 'm list" where
  "newest_messages s = concat (map (rev \<circ> messages) (filter (\<lambda>t. \<not> is_pinned t) (rev (turns s))))"

definition last_conversation_message_by_role ::
  "'m chat_ops \<Rightarrow> string \<Rightarrow> ('m, 'd) context_store \<Rightarrow> 'm option" where
  "last_conversation_message_by_role ops role s =
     List.find (\<lambda>m. msg_role ops m = role \<and> (role \<noteq> ''assistant'' \<or> msg_content ops m \<noteq> None))
       (newest_messages s)"

definition tool_call_info :: "'m chat_ops \<Rightarrow> string \<Rightarrow> ('m, 'd) context_store \<Rightarrow> (string \<times> string) option" where
  "tool_call_info ops cid s =
     map_option (\<lambda>c. (tc_name c, tc_arguments c))
       (List.find (\<lambda>c. tc_id c = cid) (concat (List.map_filter (msg_tool_calls ops) (newest_messages s))))"

definition record_retries :: "retry_record list \<Rightarrow> nat \<Rightarrow> ('m, 'd) context_store \<Rightarrow> ('m, 'd) context_store" where
  "record_retries records keep_since s =
     (let log = filter (\<lambda>r. keep_since \<le> rr_timestamp r) (retry_log s @ records);
          len = length log
      in s\<lparr>retry_log := (if RETRY_LOG_KEEP < len then drop (len - RETRY_LOG_KEEP) log else log)\<rparr>)"

definition set_tool_definitions :: "'d list \<Rightarrow> ('m, 'd) context_store \<Rightarrow> ('m, 'd) context_store" where
  "set_tool_definitions defs s = s\<lparr>tool_definitions := defs\<rparr>"

definition add_usage :: "provider_usage \<Rightarrow> cumulative_usage \<Rightarrow> cumulative_usage" where
  "add_usage u c =
     \<lparr>cu_prompt = cu_prompt c + ucast (us_prompt u),
      cu_completion = cu_completion c + ucast (us_completion u),
      cu_cache_hit = (case us_cache_hit u of None \<Rightarrow> cu_cache_hit c | Some h \<Rightarrow> cu_cache_hit c + ucast h)\<rparr>"

definition accumulate_usage :: "provider_usage \<Rightarrow> ('m, 'd) context_store \<Rightarrow> ('m, 'd) context_store" where
  "accumulate_usage u s =
     s\<lparr>cumulative := add_usage u (cumulative s), last_prompt_tokens := Some (us_prompt u),
       anchored_turn_count := length (turns s), needs_full_estimate := False\<rparr>"

definition accumulate_usage_no_anchor :: "provider_usage \<Rightarrow> ('m, 'd) context_store \<Rightarrow> ('m, 'd) context_store" where
  "accumulate_usage_no_anchor u s = s\<lparr>cumulative := add_usage u (cumulative s)\<rparr>"

definition mark_needs_full_estimate :: "('m, 'd) context_store \<Rightarrow> ('m, 'd) context_store" where
  "mark_needs_full_estimate s = s\<lparr>needs_full_estimate := True\<rparr>"

definition push_turn ::
  "'m chat_ops \<Rightarrow> 'm list \<Rightarrow> ('m, 'd) context_store \<Rightarrow> (nat \<times> nat) \<times> ('m, 'd) context_store" where
  "push_turn ops ms s =
     (let est = estimate_tokens ops ms
      in ((next_turn_id s, est),
          s\<lparr>next_turn_id := next_turn_id s + 1,
            turns := turns s @ [\<lparr>turn_id = next_turn_id s, messages = ms, estimated_tokens = est, kind = Conversation\<rparr>]\<rparr>))"

definition drain_turns :: "nat \<Rightarrow> nat \<Rightarrow> ('m, 'd) context_store \<Rightarrow> 'm turn list \<times> ('m, 'd) context_store" where
  "drain_turns from_i to_i s =
     (take (to_i - from_i) (drop from_i (turns s)),
      s\<lparr>turns := take from_i (turns s) @ drop to_i (turns s), needs_full_estimate := True\<rparr>)"

definition or_unchanged :: "'s \<Rightarrow> 'e + 's \<Rightarrow> 's" where
  "or_unchanged s r = (case r of Inl _ \<Rightarrow> s | Inr s' \<Rightarrow> s')"

definition migrate_legacy_summary :: "'m chat_ops \<Rightarrow> ('m, 'd) context_store \<Rightarrow> ('m, 'd) context_store" where
  "migrate_legacy_summary ops s =
     (case legacy_summary s of
        None \<Rightarrow> s
      | Some summary \<Rightarrow>
          (let s1 = s\<lparr>legacy_summary := None\<rparr>;
               s2 = (if summary = [] then s1
                     else
                       (let u = or_unchanged s1 (unpin ''context_summary'' s1)
                        in or_unchanged u (pin ops ''context_summary'' (mk_assistant ops summary) u)))
           in s2\<lparr>legacy_summary_tokens := 0\<rparr>))"

definition reestimate_cached_tokens :: "'m chat_ops \<Rightarrow> ('m, 'd) context_store \<Rightarrow> ('m, 'd) context_store" where
  "reestimate_cached_tokens ops s =
     s\<lparr>turns := map (\<lambda>t. t\<lparr>estimated_tokens := estimate_tokens ops (messages t)\<rparr>) (turns s)\<rparr>"

fun migrate_items :: "'m pinned_item list \<Rightarrow> nat \<Rightarrow> ('m, 'd) context_store \<Rightarrow> nat \<times> ('m, 'd) context_store" where
  "migrate_items [] n s = (n, s)"
| "migrate_items (i # items) n s =
     migrate_items items (Suc n)
       (s\<lparr>next_turn_id := next_turn_id s + 1,
          turns := insert_at n \<lparr>turn_id = next_turn_id s, messages = [pi_message i],
            estimated_tokens = pi_tokens i, kind = Pinned (pi_label i)\<rparr> (turns s)\<rparr>)"

definition migrate_legacy_pinned :: "('m, 'd) context_store \<Rightarrow> ('m, 'd) context_store" where
  "migrate_legacy_pinned s =
     (let (n, s') = migrate_items (legacy_pinned s) 0 (s\<lparr>legacy_pinned := []\<rparr>)
      in if 0 < n then s'\<lparr>needs_full_estimate := True\<rparr> else s')"

definition turn_of_pin :: "'m pin_record \<Rightarrow> 'm turn" where
  "turn_of_pin p = \<lparr>turn_id = pr_id p, messages = [pr_message p], estimated_tokens = pr_tokens p,
     kind = Pinned (pr_label p)\<rparr>"

definition from_persisted :: "'m pins_doc \<Rightarrow> 'm turn list \<Rightarrow> manifest_doc \<Rightarrow> ('m, 'd) context_store" where
  "from_persisted pins convo manifest =
     (let ts = map turn_of_pin (pd_pins pins) @ convo;
          max_id = (if ts = [] then 0 else turn_id (last ts) + 1)
      in new_store\<lparr>turns := ts, next_turn_id := max (md_next_turn_id manifest) max_id,
           cumulative := md_cumulative manifest, retry_log := md_retry_log manifest\<rparr>)"

definition set_pinned_budget :: "nat \<Rightarrow> ('m, 'd) context_store \<Rightarrow> ('m, 'd) context_store" where
  "set_pinned_budget b s = s\<lparr>pinned_token_budget := b\<rparr>"

definition should_warn :: "('m, 'd) context_store \<Rightarrow> u8 \<Rightarrow> bool" where
  "should_warn s pct = (case highest_warned_pct s of None \<Rightarrow> True | Some prev \<Rightarrow> prev < pct)"

definition mark_warned :: "u8 \<Rightarrow> ('m, 'd) context_store \<Rightarrow> ('m, 'd) context_store" where
  "mark_warned pct s =
     s\<lparr>highest_warned_pct := Some (max (case highest_warned_pct s of None \<Rightarrow> 0 | Some p \<Rightarrow> p) pct)\<rparr>"

definition should_warn_budget :: "('m, 'd) context_store \<Rightarrow> u8 \<Rightarrow> bool" where
  "should_warn_budget s pct = (case highest_budget_warned_pct s of None \<Rightarrow> True | Some prev \<Rightarrow> prev < pct)"

definition mark_budget_warned :: "u8 \<Rightarrow> ('m, 'd) context_store \<Rightarrow> ('m, 'd) context_store" where
  "mark_budget_warned pct s =
     s\<lparr>highest_budget_warned_pct := Some (max (case highest_budget_warned_pct s of None \<Rightarrow> 0 | Some p \<Rightarrow> p) pct)\<rparr>"

definition register_injected_turn :: "nat \<Rightarrow> ('m, 'd) context_store \<Rightarrow> ('m, 'd) context_store" where
  "register_injected_turn tid s = s\<lparr>injected_turn_ids := insert tid (injected_turn_ids s)\<rparr>"

definition to_manifest_doc :: "('m, 'd) context_store \<Rightarrow> manifest_doc" where
  "to_manifest_doc s =
     \<lparr>md_version = FORMAT_VERSION,
      md_conversation_turn_ids =
        map turn_id (filter (\<lambda>t. \<not> is_pinned t \<and> turn_id t \<notin> injected_turn_ids s) (turns s)),
      md_cumulative = cumulative s, md_next_turn_id = next_turn_id s, md_retry_log = retry_log s\<rparr>"

definition pin_of_turn :: "'m turn \<Rightarrow> 'm pin_record" where
  "pin_of_turn t = \<lparr>pr_id = turn_id t, pr_label = the (label t), pr_message = messages t ! 0,
     pr_tokens = estimated_tokens t\<rparr>"

definition to_pins_doc :: "('m, 'd) context_store \<Rightarrow> 'm pins_doc" where
  "to_pins_doc s = \<lparr>pd_version = FORMAT_VERSION, pd_pins = map pin_of_turn (pinned_turns s)\<rparr>"

definition compose_context :: "('m, 'd) context_store \<Rightarrow> 'm list" where
  "compose_context s = concat (map messages (turns s))"


section \<open>Invariant\<close>

definition pinned_first :: "'m turn list \<Rightarrow> bool" where
  "pinned_first ts \<longleftrightarrow> sorted_wrt (\<lambda>x y. is_pinned y \<longrightarrow> is_pinned x) ts"

definition convo_turns :: "('m, 'd) context_store \<Rightarrow> 'm turn list" where
  "convo_turns s = filter (\<lambda>t. \<not> is_pinned t) (turns s)"

text \<open>
  Pinned block first, labels unique, ids unique and below the next id, conversation ids ascending,
  one message per pin, and the incremental-estimate anchor inside the log unless a full estimate is
  due.
\<close>

definition store_ok :: "('m, 'd) context_store \<Rightarrow> bool" where
  "store_ok s \<longleftrightarrow> pinned_first (turns s) \<and> distinct (List.map_filter label (turns s)) \<and>
     distinct (map turn_id (turns s)) \<and> (\<forall>t \<in> set (turns s). turn_id t < next_turn_id s) \<and>
     sorted_wrt (<) (map turn_id (convo_turns s)) \<and>
     (\<forall>t \<in> set (turns s). is_pinned t \<longrightarrow> length (messages t) = 1) \<and>
     (\<not> needs_full_estimate s \<longrightarrow> anchored_turn_count s \<le> length (turns s))"

inductive store_step :: "'m chat_ops \<Rightarrow> ('m, 'd) context_store \<Rightarrow> ('m, 'd) context_store \<Rightarrow> bool" for ops where
  cs_pin: "pin ops l m s = Inr s' \<Longrightarrow> store_step ops s s'"
| cs_unpin: "unpin l s = Inr s' \<Longrightarrow> store_step ops s s'"
| cs_replace: "replace_pin ops l m s = Inr s' \<Longrightarrow> store_step ops s s'"
| cs_evict: "store_step ops s (snd (evict_turns n s))"
| cs_push: "store_step ops s (snd (push_turn ops ms s))"
| cs_drain: "i \<le> j \<Longrightarrow> j \<le> length (turns s) \<Longrightarrow> store_step ops s (snd (drain_turns i j s))"
| cs_usage: "store_step ops s (accumulate_usage u s)"
| cs_usage_no_anchor: "store_step ops s (accumulate_usage_no_anchor u s)"
| cs_mark_full: "store_step ops s (mark_needs_full_estimate s)"
| cs_reestimate: "store_step ops s (reestimate_cached_tokens ops s)"
| cs_retries: "store_step ops s (record_retries rs since s)"
| cs_tools: "store_step ops s (set_tool_definitions defs s)"
| cs_budget: "store_step ops s (set_pinned_budget b s)"
| cs_reset: "store_step ops s (reset_context_warnings s)"
| cs_warned: "store_step ops s (mark_warned pct s)"
| cs_budget_warned: "store_step ops s (mark_budget_warned pct s)"
| cs_injected: "store_step ops s (register_injected_turn tid s)"

section \<open>Lists\<close>

lemma position_None: "position P xs = None \<longleftrightarrow> (\<forall>x \<in> set xs. \<not> P x)"
  by (induction xs) auto

lemma position_SomeE:
  assumes "position P xs = Some i"
  obtains A x B where "xs = A @ x # B" "length A = i" "P x" "\<forall>a \<in> set A. \<not> P a"
  using assms
proof (induction xs arbitrary: i thesis)
  case (Cons y ys)
  show ?case
  proof (cases "P y")
    case True
    with Cons.prems show ?thesis by (metis Cons.prems(1) append_Nil empty_iff list.set(1) list.size(3) option.inject position.simps(2))
  next
    case False
    with Cons.prems(2) obtain j where j: "position P ys = Some j" "i = Suc j" by auto
    then obtain A x B where "ys = A @ x # B" "length A = j" "P x" "\<forall>a \<in> set A. \<not> P a"
      using Cons.IH by blast
    with False j(2) Cons.prems(1) [of "y # A" x B] show ?thesis by simp
  qed
qed simp

lemma map_filter_append [simp]: "List.map_filter f (xs @ ys) = List.map_filter f xs @ List.map_filter f ys"
  by (simp add: map_filter_def)

lemma label_conversation [simp]: "\<not> is_pinned t \<Longrightarrow> label t = None"
  by (simp add: is_pinned_def label_def split: turn_kind.splits)

lemma label_pinned: "is_pinned t \<Longrightarrow> \<exists>l. label t = Some l"
  by (simp add: is_pinned_def label_def split: turn_kind.splits)

lemma label_Some_pinned: "label t = Some l \<Longrightarrow> is_pinned t"
  by (simp add: is_pinned_def label_def split: turn_kind.splits)

lemma has_label_iff: "has_label l t \<longleftrightarrow> label t = Some l"
  by (auto simp: has_label_def dest: label_Some_pinned)

lemma pinned_kind [simp]:
  "is_pinned \<lparr>turn_id = i, messages = ms, estimated_tokens = e, kind = Pinned l\<rparr>"
  "\<not> is_pinned \<lparr>turn_id = i, messages = ms, estimated_tokens = e, kind = Conversation\<rparr>"
  "label \<lparr>turn_id = i, messages = ms, estimated_tokens = e, kind = Pinned l\<rparr> = Some l"
  by (simp_all add: is_pinned_def label_def)

lemma retag_turn [simp]:
  "is_pinned (t\<lparr>messages := ms, estimated_tokens := e\<rparr>) = is_pinned t"
  "is_pinned (t\<lparr>estimated_tokens := e\<rparr>) = is_pinned t"
  "is_pinned (t\<lparr>messages := ms\<rparr>) = is_pinned t"
  "label (t\<lparr>messages := ms\<rparr>) = label t"
  "label (t\<lparr>messages := ms, estimated_tokens := e\<rparr>) = label t"
  "label (t\<lparr>estimated_tokens := e\<rparr>) = label t"
  by (simp_all add: is_pinned_def label_def)

lemma map_filter_pinned: "List.map_filter label (filter is_pinned ts) = List.map_filter label ts"
  by (induction ts) (auto simp: map_filter_simps split: option.split)

lemma pinned_labels_turns: "pinned_labels s = List.map_filter label (turns s)"
  by (simp add: pinned_labels_def pinned_turns_def map_filter_pinned)

lemma set_labels: "l \<in> set (List.map_filter label ts) \<longleftrightarrow> (\<exists>t \<in> set ts. label t = Some l)"
  by (force simp: map_filter_def)

section \<open>The two blocks\<close>

lemma pinned_first_blocks:
  "pinned_first ts \<Longrightarrow> takeWhile is_pinned ts = filter is_pinned ts \<and>
    dropWhile is_pinned ts = filter (\<lambda>t. \<not> is_pinned t) ts"
proof (induction ts)
  case (Cons t ts)
  then show ?case
    by (cases "is_pinned t") (auto simp: pinned_first_def filter_empty_conv filter_id_conv)
qed simp

lemma blocks:
  assumes "pinned_first (turns s)"
  shows "turns s = pinned_turns s @ convo_turns s" "pinned_turn_count s = length (pinned_turns s)"
    "take (pinned_turn_count s) (turns s) = pinned_turns s"
    "drop (pinned_turn_count s) (turns s) = convo_turns s"
proof -
  have *: "takeWhile is_pinned (turns s) = pinned_turns s" "dropWhile is_pinned (turns s) = convo_turns s"
    using pinned_first_blocks [OF assms] by (simp_all add: pinned_turns_def convo_turns_def)
  show eq: "turns s = pinned_turns s @ convo_turns s" by (metis * takeWhile_dropWhile_id)
  show n: "pinned_turn_count s = length (pinned_turns s)" by (simp add: pinned_turn_count_def *)
  show "take (pinned_turn_count s) (turns s) = pinned_turns s" by (subst eq) (simp add: n)
  show "drop (pinned_turn_count s) (turns s) = convo_turns s" by (subst eq) (simp add: n)
qed

lemma all_pinned: "t \<in> set (pinned_turns s) \<Longrightarrow> is_pinned t"
  by (simp add: pinned_turns_def)

lemma none_pinned: "t \<in> set (convo_turns s) \<Longrightarrow> \<not> is_pinned t"
  by (simp add: convo_turns_def)

lemma pinned_first_append:
  "pinned_first (xs @ ys) \<longleftrightarrow> pinned_first xs \<and> pinned_first ys \<and>
    (\<forall>x \<in> set xs. \<forall>y \<in> set ys. is_pinned y \<longrightarrow> is_pinned x)"
  by (auto simp: pinned_first_def sorted_wrt_append)

lemma pinned_first_Cons:
  "pinned_first (x # ys) \<longleftrightarrow> (\<forall>y \<in> set ys. is_pinned y \<longrightarrow> is_pinned x) \<and> pinned_first ys"
  by (auto simp: pinned_first_def)

lemma turns_insert_pin:
  "pinned_first (turns s) \<Longrightarrow> turns (insert_pin l m tok s) = pinned_turns s @
    \<lparr>turn_id = next_turn_id s, messages = [m], estimated_tokens = tok, kind = Pinned l\<rparr> # convo_turns s"
  by (simp add: insert_pin_def insert_at_def blocks(3,4))

lemma turns_evict:
  "pinned_first (turns s) \<Longrightarrow> turns (snd (evict_turns n s)) = pinned_turns s @ drop n (convo_turns s)"
proof -
  assume p: "pinned_first (turns s)"
  have len: "length (turns s) - pinned_turn_count s = length (convo_turns s)"
    by (subst blocks(1) [OF p]) (simp add: blocks(2) [OF p])
  have "drop (pinned_turn_count s + min n (length (convo_turns s))) (turns s) = drop n (convo_turns s)"
    by (subst add.commute, subst drop_drop [symmetric], subst blocks(4) [OF p]) (simp add: min_def)
  with len show ?thesis by (simp add: evict_turns_def Let_def blocks(3) [OF p])
qed


lemma store_okD:
  assumes "store_ok s"
  shows "pinned_first (turns s)" "distinct (List.map_filter label (turns s))"
    "distinct (map turn_id (turns s))" "sorted_wrt (<) (map turn_id (convo_turns s))"
    "\<forall>t \<in> set (turns s). turn_id t < next_turn_id s"
    "\<forall>t \<in> set (turns s). is_pinned t \<longrightarrow> length (messages t) = 1"
    "\<not> needs_full_estimate s \<Longrightarrow> anchored_turn_count s \<le> length (turns s)"
  using assms by (simp_all add: store_ok_def)

lemma store_ok_frame [intro]:
  "store_ok s \<Longrightarrow> store_ok (accumulate_usage u s)"
  "store_ok s \<Longrightarrow> store_ok (accumulate_usage_no_anchor u s)"
  "store_ok s \<Longrightarrow> store_ok (mark_needs_full_estimate s)"
  "store_ok s \<Longrightarrow> store_ok (record_retries rs since s)"
  "store_ok s \<Longrightarrow> store_ok (set_tool_definitions defs s)"
  "store_ok s \<Longrightarrow> store_ok (set_pinned_budget b s)"
  "store_ok s \<Longrightarrow> store_ok (reset_context_warnings s)"
  "store_ok s \<Longrightarrow> store_ok (mark_warned pct s)"
  "store_ok s \<Longrightarrow> store_ok (mark_budget_warned pct s)"
  "store_ok s \<Longrightarrow> store_ok (register_injected_turn tid s)"
  by (simp_all add: store_ok_def convo_turns_def accumulate_usage_def accumulate_usage_no_anchor_def
      mark_needs_full_estimate_def record_retries_def set_tool_definitions_def set_pinned_budget_def
      reset_context_warnings_def mark_warned_def mark_budget_warned_def register_injected_turn_def Let_def)

lemma store_ok_insert_pin:
  assumes ok: "store_ok s" and new: "\<forall>t \<in> set (turns s). label t \<noteq> Some l"
  shows "store_ok (insert_pin l m tok s)"
proof -
  have p: "pinned_first (turns s)" using ok by (simp add: store_ok_def)
  let ?t = "\<lparr>turn_id = next_turn_id s, messages = [m], estimated_tokens = tok, kind = Pinned l\<rparr>"
  have ts: "turns (insert_pin l m tok s) = pinned_turns s @ ?t # convo_turns s"
    by (rule turns_insert_pin [OF p])
  have eq: "turns s = pinned_turns s @ convo_turns s" by (rule blocks(1) [OF p])
  have mem: "t \<in> set (pinned_turns s) \<or> t \<in> set (convo_turns s) \<longleftrightarrow> t \<in> set (turns s)" for t
    by (subst eq) auto
  have "pinned_first (pinned_turns s @ ?t # convo_turns s)"
    using p by (subst (asm) eq) (auto simp: pinned_first_append pinned_first_Cons all_pinned)
  moreover have "distinct (List.map_filter label (pinned_turns s @ ?t # convo_turns s))"
  proof -
    have "distinct (List.map_filter label (pinned_turns s @ convo_turns s))"
      using ok eq by (simp add: store_ok_def)
    moreover have "l \<notin> set (List.map_filter label (pinned_turns s))" "l \<notin> set (List.map_filter label (convo_turns s))"
      using new mem by (auto simp: set_labels)
    ultimately show ?thesis by (auto simp: map_filter_simps)
  qed
  moreover have "distinct (map turn_id (pinned_turns s @ ?t # convo_turns s)) \<and>
      (\<forall>t \<in> set (pinned_turns s @ ?t # convo_turns s). turn_id t < Suc (next_turn_id s))"
  proof -
    have "distinct (map turn_id (pinned_turns s @ convo_turns s))"
      "\<forall>t \<in> set (pinned_turns s @ convo_turns s). turn_id t < next_turn_id s"
      using ok eq by (simp_all add: store_ok_def)
    then show ?thesis by (auto simp: less_Suc_eq)
  qed
  moreover have "convo_turns (insert_pin l m tok s) = convo_turns s"
    by (simp add: convo_turns_def [of "insert_pin l m tok s"] ts)
      (auto simp: filter_empty_conv filter_id_conv all_pinned none_pinned)
  moreover have "\<forall>t \<in> set (pinned_turns s @ ?t # convo_turns s). is_pinned t \<longrightarrow> length (messages t) = 1"
    using ok mem by (auto simp: store_ok_def)
  ultimately show ?thesis
    using ok unfolding store_ok_def ts by (simp add: insert_pin_def)
qed

lemma store_ok_subset:
  assumes ok: "store_ok s" and ts: "turns s = A @ B @ C"
    and s': "turns s' = A @ C" "next_turn_id s' = next_turn_id s" "needs_full_estimate s'"
  shows "store_ok s'"
proof -
  let ?c = "\<lambda>ts. map turn_id (filter (\<lambda>t. \<not> is_pinned t) ts)"
  note o = store_okD [OF ok, unfolded convo_turns_def ts]
  have "pinned_first (A @ C)" using o(1) unfolding pinned_first_append set_append by blast
  moreover have "distinct (List.map_filter label (A @ C))" using o(2) by auto
  moreover have "distinct (map turn_id (A @ C))" using o(3) by auto
  moreover have "sorted_wrt (<) (?c (A @ C))" using o(4) by (simp add: sorted_wrt_append)
  ultimately show ?thesis using o(5,6) by (simp add: store_ok_def convo_turns_def s' ball_Un)
qed

lemma store_ok_unpin:
  assumes "store_ok s" "unpin l s = Inr s'" shows "store_ok s'"
proof -
  from assms(2) obtain i where "position (has_label l) (turns s) = Some i"
    and s': "s' = s\<lparr>turns := take i (turns s) @ drop (Suc i) (turns s), needs_full_estimate := True\<rparr>"
    by (auto simp: unpin_def rbind_Inr_iff)
  then obtain A x B where "turns s = A @ [x] @ B" "length A = i" by (auto elim: position_SomeE)
  then show ?thesis
    by (intro store_ok_subset [OF assms(1), of A "[x]" B]) (simp_all add: s')
qed

lemma store_ok_map:
  assumes ok: "store_ok s" and f: "\<And>t. turn_id (f t) = turn_id t" "\<And>t. kind (f t) = kind t"
    "\<And>t. t \<in> set (turns s) \<Longrightarrow> is_pinned t \<Longrightarrow> length (messages (f t)) = 1"
    and s': "turns s' = map f (turns s)" "next_turn_id s' = next_turn_id s"
      "needs_full_estimate s' \<or> needs_full_estimate s' = needs_full_estimate s \<and> anchored_turn_count s' = anchored_turn_count s"
  shows "store_ok s'"
proof -
  have pin: "is_pinned (f t) = is_pinned t" "label (f t) = label t" for t
    by (simp_all add: is_pinned_def label_def f)
  have "List.map_filter label (map f ts) = List.map_filter label ts" for ts
    by (induction ts) (simp_all add: map_filter_simps pin split: option.split)
  moreover have "map turn_id (filter (\<lambda>t. \<not> is_pinned t) (map f ts)) = map turn_id (filter (\<lambda>t. \<not> is_pinned t) ts)" for ts
    by (induction ts) (simp_all add: pin f)
  moreover have "pinned_first (map f ts) = pinned_first ts" for ts
    by (simp add: pinned_first_def sorted_wrt_map pin)
  ultimately show ?thesis
    using ok s'(2,3) f(3) unfolding store_ok_def convo_turns_def s'(1)
    by (auto simp: comp_def f pin)
qed

lemma labels_unique:
  assumes "store_ok s" "turns s = A @ x # B" "label x = Some l"
  shows "\<forall>t \<in> set A \<union> set B. label t \<noteq> Some l"
proof -
  have "distinct (List.map_filter label A @ l # List.map_filter label B)"
    using assms by (simp add: store_ok_def map_filter_simps)
  then show ?thesis using set_labels by fastforce
qed

definition set_pin :: "string \<Rightarrow> 'm \<Rightarrow> nat \<Rightarrow> 'm turn \<Rightarrow> 'm turn" where
  "set_pin l m tok t = (if has_label l t then t\<lparr>messages := [m], estimated_tokens := tok\<rparr> else t)"

lemma turns_replace_existing:
  assumes "store_ok s" "position (has_label l) (turns s) = Some i"
  shows "(turns s)[i := (turns s ! i)\<lparr>messages := [m], estimated_tokens := tok\<rparr>] = map (set_pin l m tok) (turns s)"
proof -
  from assms(2) obtain A x B where ts: "turns s = A @ x # B" "length A = i" "has_label l x"
    by (auto elim: position_SomeE)
  then have "\<forall>t \<in> set A \<union> set B. \<not> has_label l t"
    using labels_unique [OF assms(1) ts(1)] by (auto simp: has_label_iff)
  then have "map (set_pin l m tok) A = A" "map (set_pin l m tok) B = B"
    by (auto simp: set_pin_def intro!: map_idI)
  with ts show ?thesis by (auto simp: set_pin_def nth_append list_update_append)
qed

lemma store_ok_replace:
  assumes ok: "store_ok s" and r: "replace_pin ops l m s = Inr s'"
  shows "store_ok s'"
proof (cases "position (has_label l) (turns s)")
  case None
  then have "s' = insert_pin l m (est_tokens ops m) s"
    using r by (simp add: replace_pin_def Let_def split: if_splits)
  moreover have "\<forall>t \<in> set (turns s). label t \<noteq> Some l"
    using None by (simp add: position_None has_label_iff)
  ultimately show ?thesis using store_ok_insert_pin [OF ok] by simp
next
  case (Some i)
  then have "s' = s\<lparr>turns := map (set_pin l m (est_tokens ops m)) (turns s), needs_full_estimate := True\<rparr>"
    using r turns_replace_existing [OF ok Some, where m = m and tok = "est_tokens ops m"]
    by (simp add: replace_pin_def Let_def split: if_splits)
  then show ?thesis
    using ok by (intro store_ok_map [OF ok, of "set_pin l m (est_tokens ops m)"])
      (auto simp: set_pin_def store_ok_def)
qed

lemma store_ok_push: "store_ok s \<Longrightarrow> store_ok (snd (push_turn ops ms s))"
  by (auto simp: store_ok_def push_turn_def Let_def convo_turns_def pinned_first_append pinned_first_def
      map_filter_simps sorted_wrt_append less_SucI dest: less_imp_le_nat)

lemma store_ok_evict:
  assumes ok: "store_ok s" shows "store_ok (snd (evict_turns n s))"
proof -
  have p: "pinned_first (turns s)" using ok by (simp add: store_ok_def)
  have "turns s = pinned_turns s @ take n (convo_turns s) @ drop n (convo_turns s)"
    using blocks(1) [OF p] by simp
  then show ?thesis
    by (rule store_ok_subset [OF ok]) (simp_all add: turns_evict [OF p], simp_all add: evict_turns_def Let_def)
qed

lemma store_ok_drain:
  assumes ok: "store_ok s" and "i \<le> j" shows "store_ok (snd (drain_turns i j s))"
proof -
  have "turns s = take i (turns s) @ take (j - i) (drop i (turns s)) @ drop j (turns s)"
    using assms(2) by (metis append_take_drop_id drop_drop le_add_diff_inverse2)
  then show ?thesis by (rule store_ok_subset [OF ok]) (simp_all add: drain_turns_def)
qed

lemma store_ok_pin: "store_ok s \<Longrightarrow> pin ops l m s = Inr s' \<Longrightarrow> store_ok s'"
  by (auto simp: pin_def Let_def pinned_turns_def split: if_splits
      intro!: store_ok_insert_pin dest: label_Some_pinned)

lemma store_step_ok: "store_step ops s s' \<Longrightarrow> store_ok s \<Longrightarrow> store_ok s'"
proof (induction rule: store_step.induct)
  case (cs_reestimate s)
  let ?f = "\<lambda>t. t\<lparr>estimated_tokens := estimate_tokens ops (messages t)\<rparr>"
  show ?case
    using cs_reestimate
    by (intro store_ok_map [OF cs_reestimate, of ?f]) (auto simp: reestimate_cached_tokens_def store_ok_def)
qed (auto intro: store_ok_pin store_ok_unpin store_ok_replace store_ok_evict store_ok_push store_ok_drain)

interpretation store: inv_system "\<lambda>s. s = new_store" "store_step ops" store_ok for ops
proof
  show "store_ok s" if "s = new_store" for s :: "('a, 'b) context_store"
    using that by (simp add: new_store_def store_ok_def pinned_first_def convo_turns_def map_filter_def)
qed (rule store_step_ok)


section \<open>The trait as an interface\<close>

text \<open>The part of \<open>AgenticContext\<close> that concerns the pinned layer, with the laws its clients use.\<close>

locale agentic_context =
  fixes pin_op :: "string \<Rightarrow> 'm \<Rightarrow> 's \<Rightarrow> 'e + 's"
    and unpin_op :: "string \<Rightarrow> 's \<Rightarrow> 'e + 's"
    and replace_op :: "string \<Rightarrow> 'm \<Rightarrow> 's \<Rightarrow> 'e + 's"
    and evict_op :: "nat \<Rightarrow> 's \<Rightarrow> 's"
    and labels_op :: "'s \<Rightarrow> string list"
    and ok :: "'s \<Rightarrow> bool"
  assumes pin_law: "ok s \<Longrightarrow> pin_op l m s = Inr s' \<Longrightarrow> ok s' \<and> labels_op s' = labels_op s @ [l]"
    and pin_dup: "l \<in> set (labels_op s) \<Longrightarrow> \<not> is_ok (pin_op l m s)"
    and unpin_law: "ok s \<Longrightarrow> unpin_op l s = Inr s' \<Longrightarrow> ok s' \<and> labels_op s' = remove1 l (labels_op s)"
    and unpin_ok: "ok s \<Longrightarrow> is_ok (unpin_op l s) \<longleftrightarrow> l \<in> set (labels_op s)"
    and replace_law: "ok s \<Longrightarrow> replace_op l m s = Inr s' \<Longrightarrow> ok s' \<and>
      labels_op s' = (if l \<in> set (labels_op s) then labels_op s else labels_op s @ [l])"
    and evict_law: "ok s \<Longrightarrow> ok (evict_op n s) \<and> labels_op (evict_op n s) = labels_op s"
begin

lemma pin_fresh: "pin_op l m s = Inr s' \<Longrightarrow> l \<notin> set (labels_op s)"
  using pin_dup [of l s m] by auto

lemma pin_unpin:
  assumes "ok s" "pin_op l m s = Inr s1"
  shows "\<exists>s2. unpin_op l s1 = Inr s2 \<and> labels_op s2 = labels_op s"
proof -
  have *: "ok s1" "labels_op s1 = labels_op s @ [l]" using pin_law [OF assms] by auto
  then obtain s2 where s2: "unpin_op l s1 = Inr s2"
    using unpin_ok [of s1 l] by (cases "unpin_op l s1") auto
  with unpin_law [OF *(1) s2] * pin_fresh [OF assms(2)] show ?thesis by (auto simp: remove1_append)
qed

lemma replace_then_evict:
  assumes "ok s" "replace_op l m s = Inr s1"
  shows "ok (evict_op n s1) \<and> l \<in> set (labels_op (evict_op n s1)) \<and>
    set (labels_op s) \<subseteq> set (labels_op (evict_op n s1))"
  using replace_law [OF assms] evict_law by (auto split: if_splits)

end

lemma blocks_append:
  assumes "\<forall>t \<in> set P. is_pinned t" "\<forall>t \<in> set C. \<not> is_pinned t" "turns s = P @ C"
  shows "pinned_turns s = P" "convo_turns s = C" "pinned_turn_count s = length P"
proof -
  have "filter is_pinned P = P" "filter is_pinned C = []" "filter (\<lambda>t. \<not> is_pinned t) P = []"
    "filter (\<lambda>t. \<not> is_pinned t) C = C" "takeWhile is_pinned (P @ C) = P"
    using assms(1,2) by (auto simp: filter_id_conv filter_empty_conv takeWhile_eq_all_conv takeWhile_append
        dest: hd_in_set intro: takeWhile_eq_Nil_iff [THEN iffD2])
  then show "pinned_turns s = P" "convo_turns s = C" "pinned_turn_count s = length P"
    by (simp_all add: pinned_turns_def convo_turns_def pinned_turn_count_def assms(3))
qed

lemma pinned_first_evict:
  assumes "pinned_first (turns s)"
  shows "pinned_turns (snd (evict_turns n s)) = pinned_turns s"
    "convo_turns (snd (evict_turns n s)) = drop n (convo_turns s)"
    "pinned_turn_count (snd (evict_turns n s)) = length (pinned_turns s)"
proof -
  have "\<forall>t \<in> set (pinned_turns s). is_pinned t" "\<forall>t \<in> set (drop n (convo_turns s)). \<not> is_pinned t"
    by (auto simp: all_pinned dest: in_set_dropD none_pinned)
  note b = blocks_append [OF this turns_evict [OF assms]]
  show "pinned_turns (snd (evict_turns n s)) = pinned_turns s" by (rule b(1))
  show "convo_turns (snd (evict_turns n s)) = drop n (convo_turns s)" by (rule b(2))
  show "pinned_turn_count (snd (evict_turns n s)) = length (pinned_turns s)" by (rule b(3))
qed

lemma insert_pin_blocks:
  assumes "pinned_first (turns s)"
  shows "pinned_turns (insert_pin l m tok s) = pinned_turns s @
      [\<lparr>turn_id = next_turn_id s, messages = [m], estimated_tokens = tok, kind = Pinned l\<rparr>]"
    "convo_turns (insert_pin l m tok s) = convo_turns s"
proof -
  let ?t = "\<lparr>turn_id = next_turn_id s, messages = [m], estimated_tokens = tok, kind = Pinned l\<rparr>"
  have "\<forall>t \<in> set (pinned_turns s @ [?t]). is_pinned t" "\<forall>t \<in> set (convo_turns s). \<not> is_pinned t"
    "turns (insert_pin l m tok s) = (pinned_turns s @ [?t]) @ convo_turns s"
    by (auto simp: all_pinned none_pinned turns_insert_pin [OF assms])
  note b = blocks_append [OF this]
  show "pinned_turns (insert_pin l m tok s) = pinned_turns s @ [?t]" by (rule b(1))
  show "convo_turns (insert_pin l m tok s) = convo_turns s" by (rule b(2))
qed

lemma labels_insert_pin:
  "pinned_first (turns s) \<Longrightarrow> pinned_labels (insert_pin l m tok s) = pinned_labels s @ [l]"
  by (simp add: pinned_labels_def insert_pin_blocks map_filter_simps)

lemma labels_unpin:
  assumes "store_ok s" "unpin l s = Inr s'"
  shows "pinned_labels s' = remove1 l (pinned_labels s)"
proof -
  from assms(2) obtain i where i: "position (has_label l) (turns s) = Some i"
    and s': "s' = s\<lparr>turns := take i (turns s) @ drop (Suc i) (turns s), needs_full_estimate := True\<rparr>"
    by (auto simp: unpin_def rbind_Inr_iff)
  then obtain A x B where ts: "turns s = A @ x # B" "length A = i" "has_label l x" "\<forall>a \<in> set A. \<not> has_label l a"
    by (auto elim: position_SomeE)
  then have "l \<notin> set (List.map_filter label A)" by (auto simp: set_labels has_label_iff)
  with ts show ?thesis
    by (auto simp: pinned_labels_turns s' remove1_append map_filter_simps has_label_iff)
qed

lemma labels_map_set_pin: "List.map_filter label (map (set_pin l m tok) ts) = List.map_filter label ts"
  by (induction ts) (auto simp: map_filter_simps set_pin_def split: option.split)

interpretation pins: agentic_context "pin ops" unpin "replace_pin ops"
  "\<lambda>n s. snd (evict_turns n s)" pinned_labels store_ok for ops
proof
  fix s s' :: "('a, 'b) context_store" and l m n
  show "store_ok s' \<and> pinned_labels s' = pinned_labels s @ [l]" if "store_ok s" "pin ops l m s = Inr s'"
    using store_ok_pin [OF that] that labels_insert_pin [OF store_okD(1) [OF that(1)], of l m "est_tokens ops m"]
    by (auto simp: pin_def Let_def split: if_splits)
  show "\<not> is_ok (pin ops l m s)" if "l \<in> set (pinned_labels s)"
    using that by (auto simp: pin_def pinned_labels_turns set_labels pinned_turns_def dest: label_Some_pinned)
  show "store_ok s' \<and> pinned_labels s' = remove1 l (pinned_labels s)" if "store_ok s" "unpin l s = Inr s'"
    using store_ok_unpin [OF that] labels_unpin [OF that] by simp
  show "is_ok (unpin l s) \<longleftrightarrow> l \<in> set (pinned_labels s)"
    using position_None [of "has_label l" "turns s"]
    by (cases "position (has_label l) (turns s)") (auto simp: unpin_def pinned_labels_turns set_labels has_label_iff)
  show "store_ok (snd (evict_turns n s)) \<and> pinned_labels (snd (evict_turns n s)) = pinned_labels s" if "store_ok s"
    using store_ok_evict [OF that] pinned_first_evict(1) [OF store_okD(1) [OF that]] by (simp add: pinned_labels_def)
  show "store_ok s' \<and> pinned_labels s' = (if l \<in> set (pinned_labels s) then pinned_labels s else pinned_labels s @ [l])"
    if r: "store_ok s" "replace_pin ops l m s = Inr s'"
  proof (cases "position (has_label l) (turns s)")
    case None
    then have "l \<notin> set (pinned_labels s)" by (simp add: pinned_labels_turns set_labels position_None has_label_iff)
    with None r store_ok_replace [OF r] show ?thesis
      using labels_insert_pin [OF store_okD(1) [OF r(1)]]
      by (auto simp: replace_pin_def Let_def split: if_splits)
  next
    case (Some i)
    then have "l \<in> set (pinned_labels s)"
      by (auto simp: pinned_labels_turns set_labels has_label_iff elim!: position_SomeE)
    moreover have "pinned_labels s' = pinned_labels s"
      using r Some turns_replace_existing [OF r(1) Some, where m = m and tok = "est_tokens ops m"]
      by (auto simp: replace_pin_def Let_def pinned_labels_turns labels_map_set_pin split: if_splits)
    ultimately show ?thesis using store_ok_replace [OF r] by simp
  qed
qed


section \<open>Properties\<close>

lemma context_store_invariant_facts:
  assumes "reaches (\<lambda>s. s = new_store) (store_step ops) s"
  shows "turns s = pinned_turns s @ filter (\<lambda>t. \<not> is_pinned t) (turns s)"
    and "distinct (pinned_labels s)"
    and "distinct (map turn_id (turns s))" "\<forall>t \<in> set (turns s). turn_id t < next_turn_id s"
    and "sorted_wrt (<) (md_conversation_turn_ids (to_manifest_doc s))"
    and "\<not> needs_full_estimate s \<Longrightarrow> anchored_turn_count s \<le> length (turns s)"
proof -
  have ok: "store_ok s" using assms by (rule store.reaches_inv)
  note o = store_okD [OF ok]
  show "turns s = pinned_turns s @ filter (\<lambda>t. \<not> is_pinned t) (turns s)"
    using blocks(1) [OF o(1)] by (simp add: convo_turns_def)
  show "distinct (pinned_labels s)" using o(2) by (simp add: pinned_labels_turns)
  show "distinct (map turn_id (turns s))" "\<forall>t \<in> set (turns s). turn_id t < next_turn_id s"
    by (rule o(3), rule o(5))
  have "md_conversation_turn_ids (to_manifest_doc s)
      = map turn_id (filter (\<lambda>t. turn_id t \<notin> injected_turn_ids s) (convo_turns s))"
    by (simp add: to_manifest_doc_def convo_turns_def conj_commute)
  then show "sorted_wrt (<) (md_conversation_turn_ids (to_manifest_doc s))"
    using o(4) by (simp add: sorted_wrt_map sorted_wrt_filter)
  show "\<not> needs_full_estimate s \<Longrightarrow> anchored_turn_count s \<le> length (turns s)" by (rule o(7))
qed


definition sample_ops :: "string chat_ops" where
  "sample_ops = \<lparr>est_tokens = length, msg_role = (\<lambda>_. ''user''), msg_content = Some,
     msg_tool_calls = (\<lambda>_. None), mk_user = (\<lambda>t. t), mk_assistant = (\<lambda>t. t)\<rparr>"

definition sample_store :: "(string, unit) context_store" where
  "sample_store = snd (push_turn sample_ops [''b'', ''c''] (snd (push_turn sample_ops [''a''] new_store)))"


lemma evict_turns_exact_facts:
  assumes "store_ok s" "evict_turns n s = (r, s')"
  shows "pinned_turns s' = pinned_turns s" and "convo_turns s' = drop n (convo_turns s)"
    and "er_evicted r = min n (length (convo_turns s))" "er_remaining r = length (convo_turns s) - n"
    and "er_freed r = sum_list (map estimated_tokens (take n (convo_turns s)))"
    and "total_estimated_tokens s' + er_freed r = total_estimated_tokens s"
    and "compose_context s' = concat (map messages (pinned_turns s)) @ concat (map messages (drop n (convo_turns s)))"
proof -
  have p: "pinned_first (turns s)" using assms(1) by (rule store_okD)
  have s': "s' = snd (evict_turns n s)" and r: "r = fst (evict_turns n s)" using assms(2) by simp_all
  have ts: "turns s = pinned_turns s @ convo_turns s" by (rule blocks(1) [OF p])
  have ts': "turns s' = pinned_turns s @ drop n (convo_turns s)" using turns_evict [OF p] by (simp add: s')
  show P: "pinned_turns s' = pinned_turns s" and C: "convo_turns s' = drop n (convo_turns s)"
    by (simp_all add: s' pinned_first_evict [OF p])
  have len: "length (turns s) - pinned_turn_count s = length (convo_turns s)"
    by (subst ts) (simp add: blocks(2) [OF p])
  then show "er_evicted r = min n (length (convo_turns s))"
    by (simp add: r evict_turns_def Let_def)
  have "er_remaining r = length (turns s') - pinned_turn_count s'"
    by (simp add: r s' evict_turns_def Let_def)
  then show "er_remaining r = length (convo_turns s) - n"
    using pinned_first_evict(3) [OF p, of n] by (simp add: ts' flip: s')
  have "er_freed r = sum_list (map estimated_tokens (take (min n (length (convo_turns s))) (convo_turns s)))"
    using len by (simp add: r evict_turns_def Let_def blocks(4) [OF p])
  then show freed: "er_freed r = sum_list (map estimated_tokens (take n (convo_turns s)))"
    by (simp add: min_def split: if_splits)
  have "sum_list (map estimated_tokens (convo_turns s))
      = sum_list (map estimated_tokens (take n (convo_turns s))) + sum_list (map estimated_tokens (drop n (convo_turns s)))"
    by (metis append_take_drop_id map_append sum_list_append)
  then show "total_estimated_tokens s' + er_freed r = total_estimated_tokens s"
    by (subst (2) total_estimated_tokens_def, subst ts) (simp add: total_estimated_tokens_def ts' freed)
  show "compose_context s' = concat (map messages (pinned_turns s)) @ concat (map messages (drop n (convo_turns s)))"
    by (simp add: compose_context_def ts')
qed

text \<open>
  Eviction removes exactly the oldest \<open>min n (conversation length)\<close> conversation turns, reports
  how many it removed, how many remain and the sum of their estimates, never touches the pinned
  block, and the next composed context is the pinned messages followed by the surviving turns'.
\<close>

theorem evict_turns_exact:
  assumes "store_ok s" "evict_turns n s = (r, s')"
  shows "pinned_turns s' = pinned_turns s \<and>
    convo_turns s' = drop n (convo_turns s) \<and>
    er_evicted r = min n (length (convo_turns s)) \<and>
    er_remaining r = length (convo_turns s) - n \<and>
    er_freed r = sum_list (map estimated_tokens (take n (convo_turns s))) \<and>
    total_estimated_tokens s' + er_freed r = total_estimated_tokens s \<and>
    compose_context s' = concat (map messages (pinned_turns s)) @ concat (map messages (drop n (convo_turns s)))"
  by (rule evict_turns_exact_facts [OF assms] conjI impI | assumption)+

theorem evict_turns_exact_witness:
  "compose_context (snd (evict_turns 1 sample_store)) = [''b'', ''c'']"
proof -
  have st: "turns sample_store =
      [\<lparr>turn_id = 0, messages = [''a''], estimated_tokens = 1, kind = Conversation\<rparr>,
       \<lparr>turn_id = 1, messages = [''b'', ''c''], estimated_tokens = 2, kind = Conversation\<rparr>]"
    by code_simp
  have "store_ok sample_store"
    unfolding sample_store_def by (intro store_ok_push) (simp add: new_store_def store_ok_def pinned_first_def convo_turns_def map_filter_def)
  from evict_turns_exact [OF this, of 1 "fst (evict_turns 1 sample_store)"] show ?thesis
    by (simp add: pinned_turns_def convo_turns_def st)
qed

lemma pin_budget_and_unpin_facts:
  assumes "store_ok s"
  shows "is_ok (pin ops l m s) \<longleftrightarrow> l \<notin> set (pinned_labels s) \<and>
      (pinned_token_budget s = 0 \<or> pinned_tokens_total s + est_tokens ops m \<le> pinned_token_budget s)"
    and "pin ops l m s = Inr s' \<Longrightarrow> pinned_tokens_total s' = pinned_tokens_total s + est_tokens ops m \<and>
      (pinned_token_budget s' = 0 \<or> pinned_tokens_total s' \<le> pinned_token_budget s') \<and>
      (\<exists>s''. unpin l s' = Inr s'' \<and> pinned_labels s'' = pinned_labels s)"
proof -
  have "l \<in> set (pinned_labels s) \<longleftrightarrow> (\<exists>t \<in> set (pinned_turns s). label t = Some l)"
    by (auto simp: pinned_labels_turns set_labels pinned_turns_def dest: label_Some_pinned)
  then show "is_ok (pin ops l m s) \<longleftrightarrow> l \<notin> set (pinned_labels s) \<and>
      (pinned_token_budget s = 0 \<or> pinned_tokens_total s + est_tokens ops m \<le> pinned_token_budget s)"
    by (auto simp: pin_def Let_def)
  assume pin: "pin ops l m s = Inr s'"
  then have s': "s' = insert_pin l m (est_tokens ops m) s"
    and fits: "pinned_token_budget s = 0 \<or> pinned_tokens_total s + est_tokens ops m \<le> pinned_token_budget s"
    by (auto simp: pin_def Let_def split: if_splits)
  have "pinned_tokens_total s' = pinned_tokens_total s + est_tokens ops m"
    by (simp add: pinned_tokens_total_def s' insert_pin_blocks [OF store_okD(1) [OF assms]])
  moreover have "pinned_token_budget s' = pinned_token_budget s" by (simp add: s' insert_pin_def)
  ultimately show "pinned_tokens_total s' = pinned_tokens_total s + est_tokens ops m \<and>
      (pinned_token_budget s' = 0 \<or> pinned_tokens_total s' \<le> pinned_token_budget s') \<and>
      (\<exists>s''. unpin l s' = Inr s'' \<and> pinned_labels s'' = pinned_labels s)"
    using fits pins.pin_unpin [OF assms pin] by simp
qed

text \<open>
  The pinned layer: pinning succeeds exactly when the label is new and the estimate fits the
  pinned budget (zero meaning unlimited), a success leaves the layer within the budget, and
  unpinning what was just pinned always succeeds and restores the list of labels.
\<close>

theorem pin_budget_and_unpin:
  assumes "store_ok s"
  shows "(is_ok (pin ops l m s) \<longleftrightarrow> l \<notin> set (pinned_labels s) \<and>
      (pinned_token_budget s = 0 \<or> pinned_tokens_total s + est_tokens ops m \<le> pinned_token_budget s)) \<and>
    (pin ops l m s = Inr s' \<longrightarrow> pinned_tokens_total s' = pinned_tokens_total s + est_tokens ops m \<and>
      (pinned_token_budget s' = 0 \<or> pinned_tokens_total s' \<le> pinned_token_budget s') \<and>
      (\<exists>s''. unpin l s' = Inr s'' \<and> pinned_labels s'' = pinned_labels s))"
  by (rule pin_budget_and_unpin_facts [OF assms] conjI impI | assumption)+

theorem pin_budget_and_unpin_witness:
  "is_ok (pin sample_ops ''note'' ''hello'' (set_pinned_budget 5 sample_store)) \<and>
   \<not> is_ok (pin sample_ops ''note'' ''hello!'' (set_pinned_budget 5 sample_store))"
proof -
  have "store_ok (set_pinned_budget 5 sample_store)"
    unfolding sample_store_def
    by (intro store_ok_frame store_ok_push) (simp add: new_store_def store_ok_def pinned_first_def convo_turns_def map_filter_def)
  note w = pin_budget_and_unpin [OF this, THEN conjunct1, of sample_ops "''note''"]
  have "pinned_labels (set_pinned_budget 5 sample_store) = []"
    "pinned_tokens_total (set_pinned_budget 5 sample_store) = 0" "pinned_token_budget (set_pinned_budget 5 sample_store) = 5"
    by code_simp+
  moreover have "est_tokens sample_ops = length" by (simp add: sample_ops_def)
  ultimately show ?thesis by (simp add: w)
qed

lemma persist_roundtrip_facts:
  assumes "store_ok s"
    and "convo = filter (\<lambda>t. turn_id t \<in> set (md_conversation_turn_ids (to_manifest_doc s)) \<and> \<not> is_pinned t) (turns s)"
  defines "s' \<equiv> from_persisted (to_pins_doc s) convo (to_manifest_doc s)"
  shows "turns s' = filter (\<lambda>t. is_pinned t \<or> turn_id t \<notin> injected_turn_ids s) (turns s)"
    and "next_turn_id s' = next_turn_id s" "cumulative s' = cumulative s" "retry_log s' = retry_log s"
      "needs_full_estimate s'"
proof -
  note o = store_okD [OF assms(1)]
  have pin: "turn_of_pin (pin_of_turn t) = t" if "t \<in> set (pinned_turns s)" for t
  proof -
    have t: "t \<in> set (turns s)" "is_pinned t" using that by (simp_all add: pinned_turns_def)
    then obtain m where "messages t = [m]" using o(6) by (auto simp: length_Suc_conv)
    moreover obtain l where "kind t = Pinned l" using t(2) by (auto simp: is_pinned_def split: turn_kind.splits)
    ultimately show ?thesis by (simp add: turn_of_pin_def pin_of_turn_def label_def)
  qed
  have pins: "map turn_of_pin (pd_pins (to_pins_doc s)) = pinned_turns s"
    using pin by (simp add: to_pins_doc_def map_idI)
  have convo: "convo = filter (\<lambda>t. turn_id t \<notin> injected_turn_ids s) (convo_turns s)"
  proof -
    have "turn_id t \<in> set (md_conversation_turn_ids (to_manifest_doc s)) \<longleftrightarrow> turn_id t \<notin> injected_turn_ids s"
      if "t \<in> set (turns s)" "\<not> is_pinned t" for t
      using that by (auto simp: to_manifest_doc_def)
    then show ?thesis unfolding assms(2) convo_turns_def filter_filter by (intro filter_cong) auto
  qed
  have split: "filter (\<lambda>t. is_pinned t \<or> turn_id t \<notin> injected_turn_ids s) (turns s) = pinned_turns s @ convo"
    unfolding convo by (subst blocks(1) [OF o(1)]) (auto simp: filter_id_conv all_pinned none_pinned intro!: filter_cong)
  show ts: "turns s' = filter (\<lambda>t. is_pinned t \<or> turn_id t \<notin> injected_turn_ids s) (turns s)"
    by (simp add: s'_def from_persisted_def Let_def pins split)
  have "set (pinned_turns s @ convo) \<subseteq> set (turns s)" using split by (metis filter_is_subset)
  then have "turn_id (last (pinned_turns s @ convo)) < next_turn_id s" if "pinned_turns s @ convo \<noteq> []"
    using that o(5) by (meson last_in_set subsetD)
  then show "next_turn_id s' = next_turn_id s"
    by (auto simp: s'_def from_persisted_def Let_def pins to_manifest_doc_def max_def)
  show "cumulative s' = cumulative s" "retry_log s' = retry_log s" "needs_full_estimate s'"
    by (simp_all add: s'_def from_persisted_def Let_def to_manifest_doc_def new_store_def)
qed

text \<open>
  Persistence round trip: projecting a well-formed store onto its pins and manifest documents
  and rebuilding it with the conversation turns the manifest names gives back the same log minus
  the injected restart notices, the same next id, usage and retry history, and asks for a full
  estimate.
\<close>

theorem persist_roundtrip:
  assumes "store_ok s"
    and "convo = filter (\<lambda>t. turn_id t \<in> set (md_conversation_turn_ids (to_manifest_doc s)) \<and> \<not> is_pinned t) (turns s)"
  shows "let s' = from_persisted (to_pins_doc s) convo (to_manifest_doc s) in
    turns s' = filter (\<lambda>t. is_pinned t \<or> turn_id t \<notin> injected_turn_ids s) (turns s) \<and>
    next_turn_id s' = next_turn_id s \<and> cumulative s' = cumulative s \<and> retry_log s' = retry_log s \<and>
    needs_full_estimate s'"
  unfolding Let_def using persist_roundtrip_facts [OF assms] by blast

theorem persist_roundtrip_witness:
  "next_turn_id (from_persisted (to_pins_doc sample_store) (turns sample_store) (to_manifest_doc sample_store)
     :: (string, unit) context_store) = 2"
proof -
  have st: "turns sample_store =
      [\<lparr>turn_id = 0, messages = [''a''], estimated_tokens = 1, kind = Conversation\<rparr>,
       \<lparr>turn_id = 1, messages = [''b'', ''c''], estimated_tokens = 2, kind = Conversation\<rparr>]"
    "injected_turn_ids sample_store = {}" "next_turn_id sample_store = 2"
    by code_simp+
  have ok: "store_ok sample_store"
    unfolding sample_store_def by (intro store_ok_push) (simp add: new_store_def store_ok_def pinned_first_def convo_turns_def map_filter_def)
  have convo: "turns sample_store = filter (\<lambda>t. turn_id t \<in> set (md_conversation_turn_ids (to_manifest_doc sample_store)) \<and> \<not> is_pinned t) (turns sample_store)"
    by (simp add: to_manifest_doc_def st)
  show ?thesis unfolding st(3) [symmetric]
    by (rule persist_roundtrip [OF ok convo, unfolded Let_def, THEN conjunct2, THEN conjunct1])
qed

text \<open>
  A stale manifest can make a turn id be assigned twice: when pins were added after the manifest
  was written, rebuilding takes the id after the last conversation turn and ignores the higher
  pinned ids, so the rebuilt store's next id is not above all its ids and the next pushed turn
  repeats the id of a pin.
\<close>

theorem from_persisted_reuses_id:
  assumes "convo \<noteq> []" "p \<in> set (pd_pins pins)" "pr_id p = Suc (turn_id (last convo))"
    "md_next_turn_id manifest \<le> pr_id p"
  defines "s \<equiv> from_persisted pins convo manifest"
  shows "\<exists>t \<in> set (turns s). is_pinned t \<and> turn_id t = fst (fst (push_turn ops ms s))"
proof -
  have "next_turn_id s = pr_id p"
    using assms(1,3,4) by (simp add: s_def from_persisted_def Let_def max_def)
  moreover have "turn_of_pin p \<in> set (turns s)"
    using assms(2) by (simp add: s_def from_persisted_def Let_def)
  moreover have "is_pinned (turn_of_pin p)" "turn_id (turn_of_pin p) = pr_id p"
    by (simp_all add: turn_of_pin_def is_pinned_def)
  ultimately show ?thesis by (auto simp: push_turn_def Let_def)
qed

theorem from_persisted_reuses_id_witness:
  "\<exists>t \<in> set (turns (from_persisted \<lparr>pd_version = 1, pd_pins = [\<lparr>pr_id = 5, pr_label = ''note'', pr_message = ''x'', pr_tokens = 1\<rparr>]\<rparr>
        [\<lparr>turn_id = 4, messages = [''a''], estimated_tokens = 1, kind = Conversation\<rparr>]
        (to_manifest_doc sample_store) :: (string, unit) context_store)). is_pinned t \<and> turn_id t = 5"
proof -
  let ?p = "\<lparr>pr_id = 5, pr_label = ''note'', pr_message = ''x'', pr_tokens = 1\<rparr>"
  let ?c = "[\<lparr>turn_id = 4, messages = [''a''], estimated_tokens = 1, kind = Conversation\<rparr>]"
  have "md_next_turn_id (to_manifest_doc sample_store) = 2" by code_simp
  with from_persisted_reuses_id [of ?c ?p "\<lparr>pd_version = 1, pd_pins = [?p]\<rparr>" "to_manifest_doc sample_store" sample_ops "[]"]
  show ?thesis by (simp add: push_turn_def Let_def from_persisted_def)
qed

end
