(* ===== verification/Text_Slice.thy ===== *)
theory Text_Slice
  imports Prelude
begin

text \<open>
  Budget-driven head and tail slicing (\<open>kallip-runtime/src/text_slice.rs\<close>), shared by the tool-result
  cap and the compaction of oversized turns.

  A text is the list of its characters. The token estimator is a parameter. The two bounded loops of
  \<open>converge_under_cap\<close> are recursion on the number of rounds left, the halving backstop is a
  function whose termination proof is that the cap shrinks.
\<close>

definition DEFAULT_TOOL_RESULT_LINE_MAX_TOKENS :: nat where
  "DEFAULT_TOOL_RESULT_LINE_MAX_TOKENS = 2000"

type_synonym slice = "nat \<times> nat \<times> string"

section \<open>Operations\<close>

fun last_newline :: "nat \<Rightarrow> nat \<Rightarrow> string \<Rightarrow> nat" where
  "last_newline i start [] = start"
| "last_newline i start (c # cs) = last_newline (Suc i) (if c = newline then Suc i else start) cs"

fun next_newline :: "nat \<Rightarrow> nat \<Rightarrow> string \<Rightarrow> nat" where
  "next_newline i tot [] = tot"
| "next_newline i tot (c # cs) = (if c = newline then Suc i else next_newline (Suc i) tot cs)"

definition line_bounds :: "string \<Rightarrow> nat \<Rightarrow> nat \<Rightarrow> nat \<times> nat" where
  "line_bounds str pos tot =
     (last_newline 0 0 (take pos str), next_newline pos tot (drop pos str))"

definition line_est :: "(string \<Rightarrow> nat) \<Rightarrow> string \<Rightarrow> nat \<Rightarrow> nat \<Rightarrow> nat" where
  "line_est est str start stop = est (take (stop - start) (drop start str))"

definition aligned_head_end :: "(string \<Rightarrow> nat) \<Rightarrow> string \<Rightarrow> nat \<Rightarrow> nat \<Rightarrow> nat" where
  "aligned_head_end est str pos tot =
     (let (start, stop) = line_bounds str pos tot
      in if line_est est str start stop \<le> DEFAULT_TOOL_RESULT_LINE_MAX_TOKENS then stop else pos)"

definition aligned_tail_start :: "(string \<Rightarrow> nat) \<Rightarrow> string \<Rightarrow> nat \<Rightarrow> nat \<Rightarrow> nat" where
  "aligned_tail_start est str pos tot =
     (let (start, stop) = line_bounds str pos tot
      in if line_est est str start stop \<le> DEFAULT_TOOL_RESULT_LINE_MAX_TOKENS then start else pos)"

definition marker :: "nat \<Rightarrow> string" where
  "marker omitted = newline # ''[... '' @ show_nat omitted @ '' chars omitted ...]'' @ [newline]"

definition marker_slice :: "string \<Rightarrow> nat \<Rightarrow> nat \<Rightarrow> slice" where
  "marker_slice str head_end tail_start =
     (head_end, length str - tail_start,
      take head_end str @ marker (tail_start - head_end) @ drop tail_start str)"

definition head_tail_slice :: "(string \<Rightarrow> nat) \<Rightarrow> string \<Rightarrow> nat \<Rightarrow> slice" where
  "head_tail_slice est str cap =
     (let tot = length str
      in if tot \<le> cap then (tot, 0, str)
         else
           (let head_cut = cap * 3 div 5;
                tail_cut = tot - (cap - head_cut);
                head_end = aligned_head_end est str head_cut tot;
                tail_start = aligned_tail_start est str tail_cut tot
            in if tail_start \<le> head_end then marker_slice str head_cut tail_cut
               else marker_slice str head_end tail_start))"

definition char_head_tail :: "string \<Rightarrow> nat \<Rightarrow> slice" where
  "char_head_tail str cap =
     (let tot = length str
      in if tot \<le> cap then (tot, 0, str)
         else
           (let head_end = cap * 3 div 5; tail_start = tot - (cap - head_end)
            in marker_slice str head_end tail_start))"

definition kept_text :: "slice \<Rightarrow> string" where
  "kept_text p = snd (snd p)"

text \<open>
  A bounded run of proportional steps: \<open>Inl\<close> the winning slice, or \<open>Inr\<close> the cap and slice reached.
\<close>

fun shrink_steps ::
  "(string \<Rightarrow> nat) \<Rightarrow> nat \<Rightarrow> (nat \<Rightarrow> slice) \<Rightarrow> nat \<Rightarrow> nat \<Rightarrow> slice \<Rightarrow> slice + (nat \<times> slice)" where
  "shrink_steps est target slicer 0 cap parts = Inr (cap, parts)"
| "shrink_steps est target slicer (Suc n) cap parts =
     (let kept = est (kept_text parts)
      in if kept \<le> target then Inl parts
         else (let cap' = cap * target div max kept 1 in shrink_steps est target slicer n cap' (slicer cap')))"

function halve :: "(string \<Rightarrow> nat) \<Rightarrow> nat \<Rightarrow> string \<Rightarrow> nat \<Rightarrow> slice \<Rightarrow> slice" where
  "halve est target str cap parts =
     (if 1 < cap
      then (let cap' = cap div 2; parts' = char_head_tail str cap'
            in if est (kept_text parts') \<le> target then parts' else halve est target str cap' parts')
      else parts)"
  by auto

termination by (relation "measure (\<lambda>(est, target, str, cap, parts). cap)") auto

declare halve.simps [simp del]

definition converge_under_cap :: "(string \<Rightarrow> nat) \<Rightarrow> string \<Rightarrow> nat \<Rightarrow> nat \<Rightarrow> slice" where
  "converge_under_cap est str chars_cap target =
     (let cap0 = max chars_cap 1
      in case shrink_steps est target (head_tail_slice est str) 4 cap0 (head_tail_slice est str cap0) of
           Inl parts \<Rightarrow> parts
         | Inr (cap1, parts1) \<Rightarrow>
             (case shrink_steps est target (char_head_tail str) 4 cap1 parts1 of
                Inl parts \<Rightarrow> parts
              | Inr (cap2, parts2) \<Rightarrow> halve est target str cap2 parts2))"

section \<open>What a slice is\<close>

text \<open>
  A faithful slice: either the whole text, or a proper head and a proper tail around the marker that
  states exactly how many characters are missing.
\<close>

definition faithful_slice :: "string \<Rightarrow> slice \<Rightarrow> bool" where
  "faithful_slice str p =
     (case p of (h, t, s) \<Rightarrow>
        h = length str \<and> t = 0 \<and> s = str \<or>
        h + t < length str \<and> s = take h str @ marker (length str - h - t) @ drop (length str - t) str)"

lemma marker_slice_faithful:
  "h < t \<Longrightarrow> t \<le> length str \<Longrightarrow> faithful_slice str (marker_slice str h t)"
  by (auto simp: faithful_slice_def marker_slice_def)

lemma last_newline_le: "start \<le> i \<Longrightarrow> last_newline i start cs \<le> i + length cs"
  by (induction i start cs rule: last_newline.induct) (auto simp: le_SucI)

lemma next_newline_le: "i + length cs \<le> tot \<Longrightarrow> next_newline i tot cs \<le> tot"
  by (induction i tot cs rule: next_newline.induct) auto

lemma aligned_tail_start_le: "pos \<le> length str \<Longrightarrow> aligned_tail_start est str pos tot \<le> pos"
  using last_newline_le [of 0 0 "take pos str"]
  by (auto simp: aligned_tail_start_def line_bounds_def Let_def)

lemma raw_cuts:
  fixes cap tot :: nat
  assumes "cap < tot"
  shows "cap * 3 div 5 < tot - (cap - cap * 3 div 5)" "tot - (cap - cap * 3 div 5) \<le> tot"
  using assms by auto

lemma head_tail_faithful: "faithful_slice str (head_tail_slice est str cap)"
proof (cases "length str \<le> cap")
  case True
  then show ?thesis by (simp add: head_tail_slice_def faithful_slice_def)
next
  case False
  define hc tc where "hc = cap * 3 div 5" and "tc = length str - (cap - cap * 3 div 5)"
  have c: "hc < tc" "tc \<le> length str"
    unfolding hc_def tc_def using False by (intro raw_cuts; simp)+
  then have ts: "aligned_tail_start est str tc (length str) \<le> length str"
    using aligned_tail_start_le [of tc str est "length str"] by simp
  have "head_tail_slice est str cap =
      (let h = aligned_head_end est str hc (length str); t = aligned_tail_start est str tc (length str)
       in if t \<le> h then marker_slice str hc tc else marker_slice str h t)"
    using False by (simp only: head_tail_slice_def Let_def hc_def tc_def if_False)
  with c ts show ?thesis by (auto simp: Let_def intro!: marker_slice_faithful)
qed

lemma char_head_tail_faithful: "faithful_slice str (char_head_tail str cap)"
  using raw_cuts [of cap "length str"]
  by (auto simp: char_head_tail_def Let_def faithful_slice_def [of _ "(_, 0, _)"] intro!: marker_slice_faithful)

lemma char_head_tail_size:
  "case char_head_tail str cap of (h, t, s) \<Rightarrow> h + t = min cap (length str)"
  by (auto simp: char_head_tail_def Let_def marker_slice_def split: prod.split)

lemma shrink_steps_inv:
  assumes "\<And>c. P (slicer c)" "P parts"
  shows "case shrink_steps est target slicer n cap parts of
    Inl p \<Rightarrow> P p \<and> est (kept_text p) \<le> target | Inr (c, p) \<Rightarrow> P p"
  using assms(2) by (induction n arbitrary: cap parts) (auto simp: Let_def assms(1))

lemma shrink_steps_cut:
  "0 < n \<Longrightarrow> shrink_steps est target slicer n cap parts = Inr (c, p) \<Longrightarrow> p = slicer c"
proof (induction n arbitrary: cap parts)
  case (Suc n)
  then show ?case by (cases n) (auto simp: Let_def split: if_splits)
qed simp

lemma halve_inv:
  "P parts \<Longrightarrow> (\<And>c. P (char_head_tail str c)) \<Longrightarrow> P (halve est target str cap parts)"
proof (induction est target str cap parts rule: halve.induct)
  case (1 est target str cap parts)
  then show ?case by (subst halve.simps) (auto simp: Let_def)
qed

lemma halve_lands:
  "(\<And>c. c \<le> 1 \<Longrightarrow> est (kept_text (char_head_tail str c)) \<le> target) \<Longrightarrow> parts = char_head_tail str cap \<Longrightarrow>
    est (kept_text (halve est target str cap parts)) \<le> target"
proof (induction est target str cap parts rule: halve.induct)
  case (1 est target str cap parts)
  then show ?case by (subst halve.simps) (auto simp: Let_def)
qed

section \<open>Properties\<close>

text \<open>
  Every slice the module produces is either the unchanged text or a true prefix and a true
  suffix with a gap of at least one character between them and a marker that states exactly the
  number of omitted characters; the reported counts are the sizes of the two kept ends.
\<close>

theorem slices_faithful:
  "faithful_slice str (head_tail_slice est str cap) \<and> faithful_slice str (char_head_tail str cap) \<and>
   faithful_slice str (converge_under_cap est str cap target)"
proof (intro conjI head_tail_faithful char_head_tail_faithful)
  let ?cap0 = "max cap 1"
  have 1: "case shrink_steps est target (head_tail_slice est str) 4 ?cap0 (head_tail_slice est str ?cap0) of
      Inl p \<Rightarrow> faithful_slice str p \<and> est (kept_text p) \<le> target | Inr (c, p) \<Rightarrow> faithful_slice str p"
    by (rule shrink_steps_inv [where P = "faithful_slice str"]) (rule head_tail_faithful)+
  show "faithful_slice str (converge_under_cap est str cap target)"
  proof (cases "shrink_steps est target (head_tail_slice est str) 4 ?cap0 (head_tail_slice est str ?cap0)")
    case (Inl p)
    with 1 show ?thesis by (simp add: converge_under_cap_def)
  next
    case (Inr cp)
    obtain c p where cp: "cp = (c, p)" by (cases cp)
    have 2: "case shrink_steps est target (char_head_tail str) 4 c p of
        Inl p \<Rightarrow> faithful_slice str p \<and> est (kept_text p) \<le> target | Inr (c, p) \<Rightarrow> faithful_slice str p"
      using 1 Inr cp by (intro shrink_steps_inv [where P = "faithful_slice str"] char_head_tail_faithful) simp
    then show ?thesis
      using halve_inv [where P = "faithful_slice str" and str = str, OF _ char_head_tail_faithful] Inr cp
      by (auto simp: converge_under_cap_def split: sum.splits)
  qed
qed

text \<open>
  Landing: \<open>converge_under_cap\<close> always returns, and if the target leaves room for the marker
  with at most one kept character (the documented precondition), the returned slice is estimated at
  no more than the target, for any estimator and any starting cap.
\<close>

theorem converge_lands:
  assumes "\<And>c. c \<le> 1 \<Longrightarrow> est (kept_text (char_head_tail str c)) \<le> target"
  shows "est (kept_text (converge_under_cap est str cap target)) \<le> target"
proof -
  let ?cap0 = "max cap 1"
  have 1: "case shrink_steps est target (head_tail_slice est str) 4 ?cap0 (head_tail_slice est str ?cap0) of
      Inl p \<Rightarrow> True \<and> est (kept_text p) \<le> target | Inr (c, p) \<Rightarrow> True"
    by (rule shrink_steps_inv [where P = "\<lambda>_. True"]) simp_all
  show ?thesis
  proof (cases "shrink_steps est target (head_tail_slice est str) 4 ?cap0 (head_tail_slice est str ?cap0)")
    case (Inl p)
    with 1 show ?thesis by (simp add: converge_under_cap_def)
  next
    case first: (Inr cp)
    obtain c p where cp: "cp = (c, p)" by (cases cp)
    have 2: "case shrink_steps est target (char_head_tail str) 4 c p of
        Inl p \<Rightarrow> True \<and> est (kept_text p) \<le> target | Inr (c, p) \<Rightarrow> True"
      by (rule shrink_steps_inv [where P = "\<lambda>_. True"]) simp_all
    show ?thesis
    proof (cases "shrink_steps est target (char_head_tail str) 4 c p")
      case (Inl q)
      with 2 first cp show ?thesis by (simp add: converge_under_cap_def)
    next
      case (Inr dq)
      obtain d q where dq: "dq = (d, q)" by (cases dq)
      then have "q = char_head_tail str d" using Inr shrink_steps_cut [of 4] by simp
      then have "est (kept_text (halve est target str d q)) \<le> target" 
        using halve_lands [where est = est and target = target and str = str, OF assms] by blast
      with Inr dq first cp show ?thesis by (simp add: converge_under_cap_def)
    qed
  qed
qed

theorem converge_lands_witness:
  "length (kept_text (converge_under_cap length (replicate 60 (CHR ''x'')) 50 40)) \<le> 40"
proof (rule converge_lands)
  fix c :: nat
  assume "c \<le> 1"
  then consider "c = 0" | "c = 1" by linarith
  then show "length (kept_text (char_head_tail (replicate 60 (CHR ''x'')) c)) \<le> 40"
    by cases (simp_all add: char_head_tail_def marker_slice_def kept_text_def marker_def Let_def show_nat.simps)
qed

end
