(* ===== verification/Context_Budget.thy ===== *)
theory Context_Budget
  imports Context_Store Token_Budget Text_Slice Policy
begin

text \<open>
  The context-budget layer around an LLM call (\<open>kallip-runtime/src/context/warnings.rs\<close>,
  \<open>summarize.rs\<close>, \<open>compact.rs\<close>, \<open>estimate.rs\<close>, \<open>kallip-runtime/src/budget_gate.rs\<close>, and the
  thresholds of \<open>kallip-runtime/src/config.rs\<close>).

  The agent's shared state is the record \<open>agent_ctx\<close>: its context store, the tagma-wide token budget,
  the append-only history, the last persisted documents and the failure streak. History and disk
  writes are fire-and-forget in the code: the flags say whether a history writer is attached and
  succeeds, whether there is an agent directory, and whether writing to it succeeds. The configuration
  loader refuses an effective budget of zero, so the division in the pre-call gate is defined. The LLM is a parameter, a function from
  the pass number and the request messages to an error or an answer; the renderings that use
  floating point or the provider's wire format are parameters too. The compaction loop is a
  function whose termination proof is that each pass evicts at least one conversation turn.
\<close>

section \<open>Data\<close>

record budget_config =
  bc_window :: nat
  bc_output_reserve :: nat
  bc_context_thresholds :: "u8 list"
  bc_token_warnings :: "u8 list"
  bc_summary_max :: nat

datatype record_kind = RkTurn | RkSystem

datatype system_event = AgentRestore | CompactionSummary

record 'm history_record =
  hr_turn :: "nat option"
  hr_messages :: "'m list"
  hr_tokens :: nat
  hr_kind :: record_kind
  hr_event :: "system_event option"

record ('m, 'd) agent_ctx =
  ac_store :: "('m, 'd) context_store"
  ac_tokens :: token_budget
  ac_history :: "'m history_record list"
  ac_history_ok :: bool
  ac_agent_dir :: bool
  ac_disk_ok :: bool
  ac_disk :: "(manifest_doc \<times> 'm pins_doc) option"
  ac_persist_failures :: u32

record summary =
  sm_text :: string
  sm_tokens :: nat
  sm_source_turns :: nat

datatype compact_outcome = Compacted | NothingToCompact | BudgetExceeded u64 u64

datatype compact_err = LlmFailed string | EmptySummary | PinFailed context_err

datatype chain_exhaustion = NoFailoverConfigured | AllBackupsExhausted | AllCandidatesUnbuildable | AllCandidatesInfeasible

datatype agent_outcome =
    OutcomeIdle
  | MaxRoundsExceeded
  | AgentCancelled
  | TokenBudgetExceeded u64 u64
  | FailoverChainExhausted chain_exhaustion string

datatype budget_action = Recompose | Return agent_outcome | Proceed

type_synonym 'm llm = "'m list \<Rightarrow> string + (string option \<times> provider_usage option)"

section \<open>Configuration\<close>

definition warning_thresholds :: "budget_config \<Rightarrow> u8 list" where
  "warning_thresholds c = take (length (bc_context_thresholds c) - 1) (bc_context_thresholds c)"

definition auto_compact_threshold :: "budget_config \<Rightarrow> u8" where
  "auto_compact_threshold c =
     (if bc_context_thresholds c = [] then 80 else last (bc_context_thresholds c))"

definition effective_budget :: "budget_config \<Rightarrow> nat" where
  "effective_budget c = bc_window c - bc_output_reserve c"

definition tail_recovery_budget :: "budget_config \<Rightarrow> nat" where
  "tail_recovery_budget c = effective_budget c div 4"

section \<open>History and warnings\<close>

definition append_history ::
  "nat option \<Rightarrow> 'm list \<Rightarrow> nat \<Rightarrow> record_kind \<Rightarrow> system_event option \<Rightarrow> ('m, 'd) agent_ctx \<Rightarrow> ('m, 'd) agent_ctx" where
  "append_history tid ms tok k ev ctx =
     (if ac_history_ok ctx
      then ctx\<lparr>ac_history := ac_history ctx @
             [\<lparr>hr_turn = tid, hr_messages = ms, hr_tokens = tok, hr_kind = k, hr_event = ev\<rparr>]\<rparr>
      else ctx)"

definition record_turn :: "'m chat_ops \<Rightarrow> 'm list \<Rightarrow> ('m, 'd) agent_ctx \<Rightarrow> nat \<times> ('m, 'd) agent_ctx" where
  "record_turn ops ms ctx =
     (let ((tid, tok), s) = push_turn ops ms (ac_store ctx)
      in (tid, append_history (Some tid) ms tok RkTurn None (ctx\<lparr>ac_store := s\<rparr>)))"

definition context_warning_text :: "u8 \<Rightarrow> nat \<Rightarrow> string" where
  "context_warning_text threshold budget =
     ''[system]'' @ [newline] @ ''Context usage is at '' @ show_nat (unat threshold) @ ''% ('' @
     show_nat (budget * unat threshold div 100) @ '' / '' @ show_nat budget @ '' tokens). '' @
     ''Use context_status to review current turns, then context_evict with a '' @
     ''summary to evict all turns while preserving key facts.''"

definition check_progressive_warnings ::
  "'m chat_ops \<Rightarrow> budget_config \<Rightarrow> nat \<Rightarrow> nat \<Rightarrow> ('m, 'd) agent_ctx \<Rightarrow> bool \<times> ('m, 'd) agent_ctx" where
  "check_progressive_warnings ops cfg pct budget ctx =
     (case warning_thresholds cfg of
        [] \<Rightarrow> (False, ctx)
      | lowest # _ \<Rightarrow>
          if pct < unat lowest
          then (False, ctx\<lparr>ac_store := reset_context_warnings (ac_store ctx)\<rparr>)
          else
            (case List.find (\<lambda>t. unat t \<le> pct \<and> should_warn (ac_store ctx) t) (rev (warning_thresholds cfg)) of
               None \<Rightarrow> (False, ctx)
             | Some threshold \<Rightarrow>
                 (True, snd (record_turn ops [mk_user ops (context_warning_text threshold budget)]
                          (ctx\<lparr>ac_store := mark_warned threshold (ac_store ctx)\<rparr>)))))"

definition budget_warning_text :: "(u64 \<Rightarrow> string) \<Rightarrow> u8 \<Rightarrow> budget_snapshot \<Rightarrow> string" where
  "budget_warning_text fmt_m threshold snap =
     ''[system]'' @ [newline] @ ''Token budget usage is at '' @ show_nat (unat threshold) @ ''% ('' @
     fmt_m (tb_consumed snap) @ '' consumed, '' @ fmt_m (remaining snap) @ '' remaining of '' @
     fmt_m (tb_budget snap) @ ''). Wrap up your current work concisely.''"

definition check_token_budget_warnings ::
  "'m chat_ops \<Rightarrow> (u64 \<Rightarrow> string) \<Rightarrow> budget_config \<Rightarrow> budget_snapshot \<Rightarrow> ('m, 'd) agent_ctx \<Rightarrow>
   bool \<times> ('m, 'd) agent_ctx" where
  "check_token_budget_warnings ops fmt_m cfg snap ctx =
     (if bc_token_warnings cfg = [] \<or> usage_pct snap = 0 then (False, ctx)
      else
        (case List.find (\<lambda>t. t \<le> usage_pct snap \<and> should_warn_budget (ac_store ctx) t)
                (rev (bc_token_warnings cfg)) of
           None \<Rightarrow> (False, ctx)
         | Some threshold \<Rightarrow>
             (True, snd (record_turn ops [mk_user ops (budget_warning_text fmt_m threshold snap)]
                      (ctx\<lparr>ac_store := mark_budget_warned threshold (ac_store ctx)\<rparr>)))))"

section \<open>Estimation\<close>

definition estimate_context_tokens ::
  "(string \<Rightarrow> nat) \<Rightarrow> ('m list \<Rightarrow> 'e + string) \<Rightarrow> ('d list \<Rightarrow> 'e + string) \<Rightarrow> (string \<Rightarrow> 'm) \<Rightarrow>
   ('m, 'd) context_store \<Rightarrow> 'm list \<Rightarrow> 'd list \<Rightarrow> string option \<Rightarrow> 'e + nat" where
  "estimate_context_tokens est render render_tools mk_system s ms tools sys =
     (case (last_prompt_tokens s, needs_full_estimate s) of
        (Some base, False) \<Rightarrow>
          (let delta = concat (map messages (drop (min (anchored_turn_count s) (length (turns s))) (turns s)))
           in if delta = [] then Inr (unat base)
              else rbind (render delta) (\<lambda>r. Inr (unat base + est r)))
      | _ \<Rightarrow>
          rbind (case sys of None \<Rightarrow> Inr [] | Some sp \<Rightarrow> render [mk_system sp]) (\<lambda>r0.
          rbind (render ms) (\<lambda>r1.
          rbind (render_tools tools) (\<lambda>r2. Inr (est (r0 @ r1 @ r2))))))"

section \<open>Summaries\<close>

definition SUMMARIZE_PROMPT :: string where
  "SUMMARIZE_PROMPT = ''Summarize the key facts from our conversation so far: '' @
     ''user goals, decisions made, important outcomes, and the current state of work. '' @ ''Be concise.''"

fun fitting_turns :: "nat \<Rightarrow> 'm turn list \<Rightarrow> 'm turn list" where
  "fitting_turns budget [] = []"
| "fitting_turns budget (t # ts) =
     (if budget < estimated_tokens t then [] else t # fitting_turns (budget - estimated_tokens t) ts)"

definition summarize ::
  "'m chat_ops \<Rightarrow> 'm llm \<Rightarrow> nat \<Rightarrow> 'm turn list \<Rightarrow> string option \<Rightarrow> nat \<Rightarrow>
   compact_err + (summary \<times> provider_usage option)" where
  "summarize ops llm max_tokens ts existing available =
     (let prev = map_option (\<lambda>e. mk_assistant ops (''[Previous context summary]'' @ [newline] @ e)) existing;
          budget0 = available - max_tokens;
          budget = (case prev of None \<Rightarrow> budget0 | Some m \<Rightarrow> budget0 - est_tokens ops m);
          used = fitting_turns budget ts;
          request = (case prev of None \<Rightarrow> [] | Some m \<Rightarrow> [m]) @ concat (map messages used)
            @ [mk_user ops SUMMARIZE_PROMPT]
      in case llm request of
           Inl e \<Rightarrow> Inl (LlmFailed e)
         | Inr (content, usage) \<Rightarrow>
             (case map_option trim content of
                None \<Rightarrow> Inl EmptySummary
              | Some [] \<Rightarrow> Inl EmptySummary
              | Some txt1 \<Rightarrow>
                  Inr (\<lparr>sm_text = txt1, sm_tokens = est_tokens ops (mk_assistant ops txt1),
                        sm_source_turns = length used\<rparr>, usage)))"

section \<open>Compaction\<close>

definition WEDGE_SLICE_MAX_CHARS :: nat where "WEDGE_SLICE_MAX_CHARS = 100000"

definition slice_oversized_turn ::
  "'m chat_ops \<Rightarrow> (string \<Rightarrow> nat) \<Rightarrow> 'm turn \<Rightarrow> nat \<Rightarrow> 'm turn" where
  "slice_oversized_turn ops est t input_budget =
     (let cap = min WEDGE_SLICE_MAX_CHARS (input_budget * 9 div 10);
          content = concat (map (\<lambda>m. case msg_content ops m of None \<Rightarrow> [] | Some c \<Rightarrow> c @ [newline]) (messages t));
          sliced = kept_text (head_tail_slice est content cap);
          ms = [mk_user ops (''[Turn '' @ show_nat (turn_id t) @ '' exceeded the summarizer budget; head+tail slice]''
                  @ [newline] @ sliced)]
      in \<lparr>turn_id = turn_id t, messages = ms, estimated_tokens = estimate_tokens ops ms, kind = Conversation\<rparr>)"

definition existing_summary :: "'m chat_ops \<Rightarrow> ('m, 'd) context_store \<Rightarrow> string option" where
  "existing_summary ops s =
     (case List.find (\<lambda>t. label t = Some ''context_summary'') (pinned_turns s) of
        None \<Rightarrow> None
      | Some t \<Rightarrow> (case messages t of [] \<Rightarrow> None | m # _ \<Rightarrow> msg_content ops m))"

definition compaction_window ::
  "'m chat_ops \<Rightarrow> (string \<Rightarrow> nat) \<Rightarrow> nat \<Rightarrow> ('m, 'd) context_store \<Rightarrow> 'm turn list" where
  "compaction_window ops est input_budget s =
     (let convo = filter (\<lambda>t. \<not> is_pinned t) (turns s); window = fitting_turns input_budget convo
      in if window \<noteq> [] then window
         else case convo of [] \<Rightarrow> [] | wedge # _ \<Rightarrow> [slice_oversized_turn ops est wedge input_budget])"

datatype ('m, 'd) pass_result =
    PassStop
  | PassFail compact_err
  | PassExceeded "('m, 'd) agent_ctx" u64 u64
  | PassNext "('m, 'd) agent_ctx"

definition charge_summary :: "provider_usage option \<Rightarrow> ('m, 'd) agent_ctx \<Rightarrow> ('m, 'd) agent_ctx" where
  "charge_summary usage ctx =
     (case usage of
        None \<Rightarrow> ctx
      | Some u \<Rightarrow>
          ctx\<lparr>ac_store := accumulate_usage_no_anchor u (ac_store ctx),
              ac_tokens := record_usage (ucast (us_prompt u)) (ucast (us_completion u)) (ac_tokens ctx)\<rparr>)"

definition persist :: "('m, 'd) agent_ctx \<Rightarrow> ('m, 'd) agent_ctx" where
  "persist ctx =
     (if \<not> ac_agent_dir ctx then ctx
      else if ac_disk_ok ctx
      then ctx\<lparr>ac_disk := Some (to_manifest_doc (ac_store ctx), to_pins_doc (ac_store ctx)), ac_persist_failures := 0\<rparr>
      else ctx\<lparr>ac_persist_failures := ac_persist_failures ctx + 1\<rparr>)"

text \<open>One iteration of the loop of \<open>summarize_and_evict\<close>.\<close>

definition write_phase ::
  "'m chat_ops \<Rightarrow> summary \<Rightarrow> provider_usage option \<Rightarrow> ('m, 'd) context_store \<Rightarrow> ('m, 'd) agent_ctx \<Rightarrow> ('m, 'd) agent_ctx" where
  "write_phase ops result usage s1 ctx =
     (let s2 = reset_context_warnings (snd (evict_turns (sm_source_turns result) s1));
          ctx1 = append_history None [mk_assistant ops (sm_text result)]
            (sm_tokens result) RkSystem (Some CompactionSummary) (ctx\<lparr>ac_store := s2\<rparr>)
      in charge_summary usage ctx1)"

definition compact_pass ::
  "'m chat_ops \<Rightarrow> (string \<Rightarrow> nat) \<Rightarrow> 'm llm \<Rightarrow> budget_config \<Rightarrow> ('m, 'd) agent_ctx \<Rightarrow> ('m, 'd) pass_result" where
  "compact_pass ops est llm cfg ctx =
     (let budget = effective_budget cfg;
          input_budget = budget - bc_summary_max cfg;
          s = ac_store ctx;
          window = compaction_window ops est input_budget s
      in if turns s = [] \<or> total_estimated_tokens s \<le> budget \<or> window = [] then PassStop
         else case summarize ops llm (bc_summary_max cfg) window (existing_summary ops s) budget of
                Inl e \<Rightarrow> PassFail e
              | Inr (result, usage) \<Rightarrow>
                  if sm_source_turns result = 0 then PassStop
                  else case replace_pin ops ''context_summary'' (mk_assistant ops (sm_text result)) s of
                         Inl e \<Rightarrow> PassFail (PinFailed e)
                       | Inr s1 \<Rightarrow>
                           (let ctx2 = write_phase ops result usage s1 ctx;
                                snap = snapshot (ac_tokens ctx2)
                            in if is_exceeded snap
                               then PassExceeded (persist ctx2) (tb_consumed snap) (tb_budget snap)
                               else PassNext ctx2))"

lemma evict_shrinks_convo:
  assumes "0 < n" "convo_turns s \<noteq> []"
  shows "length (convo_turns (snd (evict_turns n s))) < length (convo_turns s)"
proof -
  let ?p = "pinned_turn_count s"
  have take: "take ?p (turns s) = takeWhile is_pinned (turns s)"
    and drop: "drop ?p (turns s) = dropWhile is_pinned (turns s)"
    by (simp_all add: pinned_turn_count_def takeWhile_eq_take [symmetric] dropWhile_eq_drop [symmetric])
  have pre: "filter (\<lambda>t. \<not> is_pinned t) (takeWhile is_pinned (turns s)) = []"
    by (auto simp: filter_empty_conv dest: set_takeWhileD)
  have convo: "convo_turns s = filter (\<lambda>t. \<not> is_pinned t) (dropWhile is_pinned (turns s))"
    unfolding convo_turns_def using pre by (subst takeWhile_dropWhile_id [of is_pinned, symmetric]) (simp del: takeWhile_dropWhile_id)
  with assms(2) obtain x rest where x: "dropWhile is_pinned (turns s) = x # rest"
    by (cases "dropWhile is_pinned (turns s)") auto
  then have "\<not> is_pinned x" by (metis dropWhile_eq_Cons_conv)
  let ?k = "min n (length (turns s) - ?p)"
  have "length (turns s) - ?p = length (x # rest)" using drop x by (metis length_drop)
  then obtain j where j: "?k = Suc j" using assms(1) by (cases n) auto
  have "drop (?p + ?k) (turns s) = drop j rest"
    by (subst add.commute, subst drop_drop [symmetric]) (simp add: drop x j)
  then have "convo_turns (snd (evict_turns n s)) = filter (\<lambda>t. \<not> is_pinned t) (drop j rest)"
    by (simp add: evict_turns_def Let_def convo_turns_def take pre)
  moreover have "length (filter P (drop j rest)) \<le> length (filter P rest)" for P
    by (metis append_take_drop_id filter_append le_add2 length_append)
  ultimately show ?thesis
    by (simp add: convo x \<open>\<not> is_pinned x\<close> less_Suc_eq_le)
qed

lemma replace_pin_convo:
  assumes "replace_pin ops l m s = Inr s'"
  shows "length (convo_turns s') = length (convo_turns s)"
proof (cases "position (has_label l) (turns s)")
  case None
  let ?n = "\<lparr>turn_id = next_turn_id s, messages = [m], estimated_tokens = est_tokens ops m, kind = Pinned l\<rparr>"
  have "turns s' = take (pinned_turn_count s) (turns s) @ ?n # drop (pinned_turn_count s) (turns s)"
    using assms None by (auto simp: replace_pin_def Let_def insert_pin_def insert_at_def split: if_splits)
  then show ?thesis
    by (simp add: convo_turns_def) (metis append_take_drop_id filter_append length_append)
next
  case (Some i)
  then obtain A x B where "turns s = A @ x # B" "length A = i" by (auto elim: position_SomeE)
  with assms Some show ?thesis
    by (auto simp: replace_pin_def Let_def convo_turns_def list_update_append split: if_splits)
qed

lemma window_convo: "compaction_window ops est b s \<noteq> [] \<Longrightarrow> convo_turns s \<noteq> []"
  by (auto simp: compaction_window_def Let_def convo_turns_def split: list.splits if_splits)

lemma charge_summary_convo [simp]: "convo_turns (ac_store (charge_summary u ctx)) = convo_turns (ac_store ctx)"
  by (simp add: charge_summary_def convo_turns_def accumulate_usage_no_anchor_def split: option.split)

lemma reset_convo [simp]: "convo_turns (reset_context_warnings s) = convo_turns s"
  by (simp add: reset_context_warnings_def convo_turns_def)

lemma convo_write_phase [simp]:
  "convo_turns (ac_store (write_phase ops result usage s1 ctx)) = convo_turns (snd (evict_turns (sm_source_turns result) s1))"
  by (simp add: write_phase_def Let_def append_history_def)

lemma compact_pass_progressE:
  assumes "compact_pass ops est llm cfg ctx = r" "r = PassNext ctx' \<or> r = PassExceeded ctx' c b"
  obtains result :: summary and usage s1 where "convo_turns (ac_store ctx) \<noteq> []" "0 < sm_source_turns result"
    "replace_pin ops ''context_summary'' (mk_assistant ops (sm_text result)) (ac_store ctx) = Inr s1"
    "ctx' = (case r of PassNext _ \<Rightarrow> write_phase ops result usage s1 ctx | _ \<Rightarrow> persist (write_phase ops result usage s1 ctx))"
proof -
  let ?w = "compaction_window ops est (effective_budget cfg - bc_summary_max cfg) (ac_store ctx)"
  let ?sum = "summarize ops llm (bc_summary_max cfg) ?w (existing_summary ops (ac_store ctx)) (effective_budget cfg)"
  have "?w \<noteq> []" using assms by (auto simp: compact_pass_def Let_def split: if_splits)
  then have w: "convo_turns (ac_store ctx) \<noteq> []" by (rule window_convo)
  obtain result usage where su: "?sum = Inr (result, usage)" "0 < sm_source_turns result"
    using assms by (cases ?sum) (auto simp: compact_pass_def Let_def split: if_splits)
  obtain s1 where rp: "replace_pin ops ''context_summary'' (mk_assistant ops (sm_text result)) (ac_store ctx) = Inr s1"
    using assms su
    by (cases "replace_pin ops ''context_summary'' (mk_assistant ops (sm_text result)) (ac_store ctx)")
      (auto simp: compact_pass_def Let_def split: if_splits)
  from assms su rp w show ?thesis
    by (intro that [of result s1 usage]) (auto simp: compact_pass_def Let_def split: if_splits)
qed

lemma compact_pass_shrinks:
  assumes "compact_pass ops est llm cfg ctx = PassNext ctx'"
  shows "length (convo_turns (ac_store ctx')) < length (convo_turns (ac_store ctx))"
  using assms disjI1 [OF refl]
proof (rule compact_pass_progressE)
  fix result :: summary and usage s1
  assume *: "convo_turns (ac_store ctx) \<noteq> []" "0 < sm_source_turns result"
    "replace_pin ops ''context_summary'' (mk_assistant ops (sm_text result)) (ac_store ctx) = Inr s1"
    "ctx' = (case PassNext ctx' of PassNext _ \<Rightarrow> write_phase ops result usage s1 ctx | _ \<Rightarrow> persist (write_phase ops result usage s1 ctx))"
  have "length (convo_turns s1) = length (convo_turns (ac_store ctx))" using *(3) by (rule replace_pin_convo)
  moreover from this *(1) have "convo_turns s1 \<noteq> []" by auto
  moreover from *(4) have "ctx' = write_phase ops result usage s1 ctx" by simp
  ultimately show ?thesis using *(2) evict_shrinks_convo [of "sm_source_turns result" s1] by simp
qed

function compact_loop ::
  "'m chat_ops \<Rightarrow> (string \<Rightarrow> nat) \<Rightarrow> (nat \<Rightarrow> 'm llm) \<Rightarrow> budget_config \<Rightarrow> nat \<Rightarrow> ('m, 'd) agent_ctx \<Rightarrow>
   (compact_err + compact_outcome) \<times> ('m, 'd) agent_ctx" where
  "compact_loop ops est llm cfg k ctx =
     (case compact_pass ops est (llm k) cfg ctx of
        PassFail e \<Rightarrow> (Inl e, ctx)
      | PassExceeded ctx' c b \<Rightarrow> (Inr (BudgetExceeded c b), ctx')
      | PassNext ctx' \<Rightarrow> compact_loop ops est llm cfg (Suc k) ctx'
      | PassStop \<Rightarrow> if 0 < k then (Inr Compacted, persist ctx) else (Inr NothingToCompact, ctx))"
  by auto

termination
  by (relation "measure (\<lambda>(ops, est, llm, cfg, k, ctx). length (convo_turns (ac_store ctx)))")
    (auto dest: compact_pass_shrinks)

declare compact_loop.simps [simp del]

definition summarize_and_evict ::
  "'m chat_ops \<Rightarrow> (string \<Rightarrow> nat) \<Rightarrow> (nat \<Rightarrow> 'm llm) \<Rightarrow> budget_config \<Rightarrow> ('m, 'd) agent_ctx \<Rightarrow>
   (compact_err + compact_outcome) \<times> ('m, 'd) agent_ctx" where
  "summarize_and_evict ops est llm cfg ctx = compact_loop ops est llm cfg 0 ctx"

definition compact_if_needed ::
  "'m chat_ops \<Rightarrow> (string \<Rightarrow> nat) \<Rightarrow> (nat \<Rightarrow> 'm llm) \<Rightarrow> budget_config \<Rightarrow> ('m, 'd) agent_ctx \<Rightarrow>
   (compact_err + bool) \<times> ('m, 'd) agent_ctx" where
  "compact_if_needed ops est llm cfg ctx =
     (if total_estimated_tokens (ac_store ctx) \<le> effective_budget cfg then (Inr False, ctx)
      else case summarize_and_evict ops est llm cfg ctx of
             (Inl e, ctx') \<Rightarrow> (Inl e, ctx')
           | (Inr NothingToCompact, ctx') \<Rightarrow> (Inr False, ctx')
           | (Inr _, ctx') \<Rightarrow> (Inr True, ctx'))"

section \<open>The gates of the round loop\<close>

definition enforce_pre_call_budget ::
  "'m chat_ops \<Rightarrow> (string \<Rightarrow> nat) \<Rightarrow> (nat \<Rightarrow> 'm llm) \<Rightarrow> budget_config \<Rightarrow> nat \<Rightarrow> bool \<Rightarrow> ('m, 'd) agent_ctx \<Rightarrow>
   budget_action \<times> ('m, 'd) agent_ctx" where
  "enforce_pre_call_budget ops est llm cfg prompt_tokens cancelled ctx =
     (if prompt_tokens = 0 then (Proceed, ctx)
      else
        (let budget = effective_budget cfg;
             pct = prompt_tokens * 100 div budget;
             (warned, ctx1) = check_progressive_warnings ops cfg pct budget ctx
         in if warned then (Recompose, ctx1)
            else if unat (auto_compact_threshold cfg) \<le> pct
            then (case summarize_and_evict ops est llm cfg ctx1 of
                    (Inr Compacted, ctx2) \<Rightarrow> (Recompose, ctx2)
                  | (Inr (BudgetExceeded c b), ctx2) \<Rightarrow> (Return (TokenBudgetExceeded c b), ctx2)
                  | (_, ctx2) \<Rightarrow> if cancelled then (Return AgentCancelled, ctx2) else (Proceed, ctx2))
            else (Proceed, ctx1)))"

definition enforce_post_stream_budget ::
  "'m chat_ops \<Rightarrow> (u64 \<Rightarrow> string) \<Rightarrow> budget_config \<Rightarrow> provider_usage option \<Rightarrow> ('m, 'd) agent_ctx \<Rightarrow>
   budget_action \<times> ('m, 'd) agent_ctx" where
  "enforce_post_stream_budget ops fmt_m cfg usage ctx =
     (let ctx1 = (case usage of
                    None \<Rightarrow> ctx
                  | Some u \<Rightarrow> ctx\<lparr>ac_store := accumulate_usage u (ac_store ctx),
                      ac_tokens := record_usage (ucast (us_prompt u)) (ucast (us_completion u)) (ac_tokens ctx)\<rparr>);
          snap = snapshot (ac_tokens ctx1);
          (warned, ctx2) = check_token_budget_warnings ops fmt_m cfg snap ctx1
      in if warned then (Recompose, ctx2)
         else if is_exceeded snap then (Return (TokenBudgetExceeded (tb_consumed snap) (tb_budget snap)), ctx2)
         else (Proceed, ctx2))"


section \<open>Compaction keeps what it must keep\<close>

text \<open>What a run of the compaction may change.\<close>

definition compacted_to :: "('m, 'd) agent_ctx \<Rightarrow> ('m, 'd) agent_ctx \<Rightarrow> bool" where
  "compacted_to ctx ctx' \<longleftrightarrow> store_ok (ac_store ctx') \<and>
     (\<exists>k. convo_turns (ac_store ctx') = drop k (convo_turns (ac_store ctx))) \<and>
     set (pinned_labels (ac_store ctx)) \<subseteq> set (pinned_labels (ac_store ctx')) \<and>
     (\<exists>hs. ac_history ctx' = ac_history ctx @ hs) \<and>
     ac_agent_dir ctx' = ac_agent_dir ctx \<and> ac_disk_ok ctx' = ac_disk_ok ctx"

lemma compacted_to_refl: "store_ok (ac_store ctx) \<Longrightarrow> compacted_to ctx ctx"
  by (auto simp: compacted_to_def intro: exI [of _ 0])

lemma compacted_to_trans: "compacted_to a b \<Longrightarrow> compacted_to b c \<Longrightarrow> compacted_to a c"
  unfolding compacted_to_def by (auto simp: drop_drop)

lemma compacted_to_persist [simp]: "compacted_to ctx (persist ctx') = compacted_to ctx ctx'"
  by (simp add: compacted_to_def persist_def)

lemma replace_pin_convo_eq:
  assumes "store_ok s" "replace_pin ops l m s = Inr s'"
  shows "convo_turns s' = convo_turns s"
proof (cases "position (has_label l) (turns s)")
  case None
  then have "s' = insert_pin l m (est_tokens ops m) s"
    using assms(2) by (simp add: replace_pin_def Let_def split: if_splits)
  then show ?thesis by (simp add: insert_pin_blocks store_okD(1) [OF assms(1)])
next
  case (Some i)
  have "turns s' = map (set_pin l m (est_tokens ops m)) (turns s)"
    using assms(2) Some turns_replace_existing [OF assms(1) Some, where m = m and tok = "est_tokens ops m"]
    by (auto simp: replace_pin_def Let_def split: if_splits)
  moreover have "filter (\<lambda>t. \<not> is_pinned t) (map (set_pin l m e) ts) = filter (\<lambda>t. \<not> is_pinned t) ts" for e ts
    by (induction ts) (auto simp: set_pin_def has_label_def)
  ultimately show ?thesis by (simp add: convo_turns_def)
qed

lemma charge_summary_store:
  "store_ok (ac_store (charge_summary u ctx)) = store_ok (ac_store ctx)"
  "pinned_labels (ac_store (charge_summary u ctx)) = pinned_labels (ac_store ctx)"
  "ac_history (charge_summary u ctx) = ac_history ctx"
  "ac_agent_dir (charge_summary u ctx) = ac_agent_dir ctx"
  "ac_disk_ok (charge_summary u ctx) = ac_disk_ok ctx"
  by (auto simp: charge_summary_def accumulate_usage_no_anchor_def pinned_labels_def pinned_turns_def
      store_ok_def convo_turns_def split: option.split)

lemma write_phase_compacted:
  assumes ok: "store_ok (ac_store ctx)"
    and r: "replace_pin ops ''context_summary'' m (ac_store ctx) = Inr s1"
  shows "compacted_to ctx (write_phase ops result usage s1 ctx) \<and>
    ''context_summary'' \<in> set (pinned_labels (ac_store (write_phase ops result usage s1 ctx)))"
proof -
  let ?n = "sm_source_turns result"
  let ?s2 = "snd (evict_turns ?n s1)"
  have e: "store_ok ?s2" "''context_summary'' \<in> set (pinned_labels ?s2)"
    "set (pinned_labels (ac_store ctx)) \<subseteq> set (pinned_labels ?s2)"
    using pins.replace_then_evict [OF ok r] by auto
  have "store_ok s1" by (rule store_ok_replace [OF ok r])
  then have "convo_turns ?s2 = drop ?n (convo_turns (ac_store ctx))"
    by (simp add: pinned_first_evict(2) [OF store_okD(1)] replace_pin_convo_eq [OF ok r])
  moreover have "pinned_labels (reset_context_warnings s) = pinned_labels s" for s :: "('a, 'b) context_store"
    by (simp add: reset_context_warnings_def pinned_labels_def pinned_turns_def)
  ultimately show ?thesis
    using e by (auto simp: compacted_to_def) (auto simp: write_phase_def Let_def append_history_def charge_summary_store split: if_splits)
qed

lemma compact_pass_compacted:
  assumes "store_ok (ac_store ctx)" "compact_pass ops est llm cfg ctx = r" "r = PassNext ctx' \<or> r = PassExceeded ctx' c b"
  shows "compacted_to ctx ctx' \<and> ''context_summary'' \<in> set (pinned_labels (ac_store ctx'))"
  using assms(2,3)
proof (rule compact_pass_progressE)
  fix result :: summary and usage s1
  assume *: "replace_pin ops ''context_summary'' (mk_assistant ops (sm_text result)) (ac_store ctx) = Inr s1"
    "ctx' = (case r of PassNext _ \<Rightarrow> write_phase ops result usage s1 ctx | _ \<Rightarrow> persist (write_phase ops result usage s1 ctx))"
  let ?w = "write_phase ops result usage s1 ctx"
  have "ctx' = ?w \<or> ctx' = persist ?w" using *(2) assms(3) by (auto split: pass_result.splits)
  moreover have "ac_store (persist ?w) = ac_store ?w" by (simp add: persist_def)
  ultimately show ?thesis
    using write_phase_compacted [OF assms(1) *(1), of result usage] by (metis compacted_to_persist)
qed

lemma compact_loop_compacted:
  assumes "store_ok (ac_store ctx)" "compact_loop ops est llm cfg k ctx = (r, ctx')"
    and "0 < k \<Longrightarrow> ''context_summary'' \<in> set (pinned_labels (ac_store ctx))"
  shows "compacted_to ctx ctx' \<and>
    (r = Inr Compacted \<longrightarrow> ''context_summary'' \<in> set (pinned_labels (ac_store ctx')) \<and>
       (ac_agent_dir ctx \<and> ac_disk_ok ctx \<longrightarrow> ac_disk ctx' = Some (to_manifest_doc (ac_store ctx'), to_pins_doc (ac_store ctx')))) \<and>
    (r = Inr NothingToCompact \<longrightarrow> k = 0 \<and> ctx' = ctx)"
  using assms
proof (induction ops est llm cfg k ctx rule: compact_loop.induct)
  case (1 ops est llm cfg k ctx)
  show ?case
  proof (cases "compact_pass ops est (llm k) cfg ctx")
    case PassStop
    with 1(3,4) compacted_to_refl [OF 1(2)] show ?thesis
      by (subst (asm) compact_loop.simps) (auto simp: persist_def compacted_to_def split: if_splits)
  next
    case (PassFail e)
    with 1(3) compacted_to_refl [OF 1(2)] show ?thesis by (subst (asm) compact_loop.simps) auto
  next
    case (PassExceeded ctx1 c b)
    with 1(3) compact_pass_compacted [OF 1(2) PassExceeded] show ?thesis
      by (subst (asm) compact_loop.simps) auto
  next
    case (PassNext ctx1)
    have p: "compacted_to ctx ctx1" "''context_summary'' \<in> set (pinned_labels (ac_store ctx1))"
      using compact_pass_compacted [OF 1(2) PassNext] by auto
    have "compact_loop ops est llm cfg (Suc k) ctx1 = (r, ctx')"
      using 1(3) PassNext by (subst (asm) compact_loop.simps) simp
    moreover have "store_ok (ac_store ctx1)" using p(1) by (simp add: compacted_to_def)
    ultimately have "compacted_to ctx1 ctx' \<and>
        (r = Inr Compacted \<longrightarrow> ''context_summary'' \<in> set (pinned_labels (ac_store ctx')) \<and>
           (ac_agent_dir ctx1 \<and> ac_disk_ok ctx1 \<longrightarrow>
              ac_disk ctx' = Some (to_manifest_doc (ac_store ctx'), to_pins_doc (ac_store ctx')))) \<and>
        r \<noteq> Inr NothingToCompact"
      using 1(1) [OF PassNext] p(2) by simp
    moreover have "ac_agent_dir ctx1 = ac_agent_dir ctx" "ac_disk_ok ctx1 = ac_disk_ok ctx"
      using p(1) by (simp_all add: compacted_to_def)
    ultimately show ?thesis using compacted_to_trans [OF p(1)] by simp
  qed
qed

section \<open>Warnings fire once per level\<close>

lemma record_turn_store:
  "highest_warned_pct (ac_store (snd (record_turn ops ms ctx))) = highest_warned_pct (ac_store ctx)"
  "highest_budget_warned_pct (ac_store (snd (record_turn ops ms ctx))) = highest_budget_warned_pct (ac_store ctx)"
  by (simp_all add: record_turn_def append_history_def push_turn_def Let_def)

lemma find_rev_sorted:
  fixes ts :: "u8 list"
  assumes "sorted ts" "List.find P (rev ts) = Some t" "u \<in> set ts" "P u"
  shows "u \<le> t"
  using assms
proof (induction ts rule: rev_induct)
  case (snoc x xs)
  show ?case
  proof (cases "P x")
    case True
    with snoc.prems show ?thesis by (auto simp: sorted_append)
  next
    case False
    with snoc show ?thesis by (auto simp: sorted_append)
  qed
qed simp


lemma should_warn_marked:
  "highest_warned_pct s' = highest_warned_pct (mark_warned t s) \<Longrightarrow> should_warn s' u \<Longrightarrow> t < u \<and> should_warn s u"
  "highest_budget_warned_pct s' = highest_budget_warned_pct (mark_budget_warned t s) \<Longrightarrow>
     should_warn_budget s' u \<Longrightarrow> t < u \<and> should_warn_budget s u"
  by (auto simp: should_warn_def mark_warned_def should_warn_budget_def mark_budget_warned_def split: option.splits)

section \<open>Properties\<close>

lemma compaction_safe_facts:
  assumes "store_ok (ac_store ctx)" "summarize_and_evict ops est llm cfg ctx = (r, ctx')"
  shows "store_ok (ac_store ctx')"
    and "\<exists>k. convo_turns (ac_store ctx') = drop k (convo_turns (ac_store ctx))"
    and "set (pinned_labels (ac_store ctx)) \<subseteq> set (pinned_labels (ac_store ctx'))"
    and "\<exists>hs. ac_history ctx' = ac_history ctx @ hs"
    and "r = Inr Compacted \<Longrightarrow> ''context_summary'' \<in> set (pinned_labels (ac_store ctx')) \<and>
      (ac_agent_dir ctx \<and> ac_disk_ok ctx \<longrightarrow>
        ac_disk ctx' = Some (to_manifest_doc (ac_store ctx'), to_pins_doc (ac_store ctx')))"
    and "r = Inr NothingToCompact \<Longrightarrow> ctx' = ctx"
  using compact_loop_compacted [OF assms(1) assms(2) [unfolded summarize_and_evict_def]]
  by (auto simp: compacted_to_def)

text \<open>
  C35. Compaction always returns (each pass evicts at least one conversation turn). Whatever the
  summariser answers, the store stays well formed, the surviving conversation is a suffix of the old
  one, no pinned label disappears and history only grows; when it reports success a summary is
  pinned and, with an agent directory whose writes succeed, the persisted documents are those of the
  final store; when it reports that nothing was to do the state is unchanged.
\<close>

theorem compaction_safe:
  assumes "store_ok (ac_store ctx)" "summarize_and_evict ops est llm cfg ctx = (r, ctx')"
  shows "store_ok (ac_store ctx') \<and>
    (\<exists>k. convo_turns (ac_store ctx') = drop k (convo_turns (ac_store ctx))) \<and>
    set (pinned_labels (ac_store ctx)) \<subseteq> set (pinned_labels (ac_store ctx')) \<and>
    (\<exists>hs. ac_history ctx' = ac_history ctx @ hs) \<and>
    (r = Inr Compacted \<longrightarrow> ''context_summary'' \<in> set (pinned_labels (ac_store ctx')) \<and>
      (ac_agent_dir ctx \<and> ac_disk_ok ctx \<longrightarrow>
        ac_disk ctx' = Some (to_manifest_doc (ac_store ctx'), to_pins_doc (ac_store ctx')))) \<and>
    (r = Inr NothingToCompact \<longrightarrow> ctx' = ctx)"
  by (rule compaction_safe_facts [OF assms] conjI impI | assumption)+

definition sample_cfg :: budget_config where
  "sample_cfg = \<lparr>bc_window = 12, bc_output_reserve = 2, bc_context_thresholds = [60, 80],
     bc_token_warnings = [50, 80], bc_summary_max = 2\<rparr>"

definition sample_llm :: "nat \<Rightarrow> string llm" where
  "sample_llm k request = Inr (Some ''s'', Some \<lparr>us_prompt = 7, us_completion = 1, us_cache_hit = None\<rparr>)"

definition sample_ctx :: "(string, unit) agent_ctx" where
  "sample_ctx = \<lparr>ac_store = snd (push_turn sample_ops [''ccccc''] (snd (push_turn sample_ops [''aaaaaaa''] new_store))),
     ac_tokens = new_budget 1000 0, ac_history = [], ac_history_ok = True, ac_agent_dir = True, ac_disk_ok = True,
     ac_disk = None, ac_persist_failures = 0\<rparr>"

theorem compaction_safe_witness:
  "store_ok (ac_store (snd (summarize_and_evict sample_ops length sample_llm sample_cfg sample_ctx)))"
proof -
  have "store_ok (ac_store sample_ctx)"
    by (simp add: sample_ctx_def)
      (intro store_ok_push, simp add: new_store_def store_ok_def pinned_first_def convo_turns_def map_filter_def)
  from compaction_safe [OF this prod.collapse [symmetric]] show ?thesis by blast
qed

lemma warnings_fire_once_facts:
  assumes "sorted (warning_thresholds cfg)" "sorted (bc_token_warnings cfg)"
  shows "check_progressive_warnings ops cfg pct budget ctx = (True, ctx') \<Longrightarrow> pct' \<le> pct \<Longrightarrow>
      fst (check_progressive_warnings ops cfg pct' budget' ctx') = False"
    and "check_token_budget_warnings ops fmt_m cfg snap ctx = (True, ctx') \<Longrightarrow> usage_pct snap' \<le> usage_pct snap \<Longrightarrow>
      fst (check_token_budget_warnings ops fmt_m cfg snap' ctx') = False"
    and "check_progressive_warnings ops cfg pct budget ctx = (True, ctx') \<Longrightarrow>
      \<exists>t. turns (ac_store ctx') = turns (ac_store ctx) @ [t] \<and>
        ac_history ctx' = ac_history ctx @ (if ac_history_ok ctx
          then [\<lparr>hr_turn = Some (turn_id t), hr_messages = messages t, hr_tokens = estimated_tokens t,
                 hr_kind = RkTurn, hr_event = None\<rparr>] else [])"
proof -
  assume w: "check_progressive_warnings ops cfg pct budget ctx = (True, ctx')" and le: "pct' \<le> pct"
  let ?P = "\<lambda>t. unat t \<le> pct \<and> should_warn (ac_store ctx) t"
  from w obtain t ms where t: "List.find ?P (rev (warning_thresholds cfg)) = Some t"
    and ctx': "ctx' = snd (record_turn ops ms (ctx\<lparr>ac_store := mark_warned t (ac_store ctx)\<rparr>))"
    by (auto simp: check_progressive_warnings_def split: list.splits if_splits option.splits)
  have none: "List.find (\<lambda>u. unat u \<le> pct' \<and> should_warn (ac_store ctx') u) (rev (warning_thresholds cfg)) = None"
    unfolding find_None_iff
  proof (clarsimp)
    fix u assume u: "u \<in> set (warning_thresholds cfg)" "unat u \<le> pct'" "should_warn (ac_store ctx') u"
    have "t < u \<and> should_warn (ac_store ctx) u"
      by (rule should_warn_marked(1) [OF _ u(3)]) (simp add: ctx' record_turn_store)
    with find_rev_sorted [OF assms(1) t u(1)] u(2) le show False by auto
  qed
  then show "fst (check_progressive_warnings ops cfg pct' budget' ctx') = False"
    by (auto simp: check_progressive_warnings_def split: list.splits)
next
  assume w: "check_token_budget_warnings ops fmt_m cfg snap ctx = (True, ctx')" and le: "usage_pct snap' \<le> usage_pct snap"
  let ?P = "\<lambda>t. t \<le> usage_pct snap \<and> should_warn_budget (ac_store ctx) t"
  from w obtain t ms where t: "List.find ?P (rev (bc_token_warnings cfg)) = Some t"
    and ctx': "ctx' = snd (record_turn ops ms (ctx\<lparr>ac_store := mark_budget_warned t (ac_store ctx)\<rparr>))"
    by (auto simp: check_token_budget_warnings_def split: if_splits option.splits)
  have none: "List.find (\<lambda>u. u \<le> usage_pct snap' \<and> should_warn_budget (ac_store ctx') u) (rev (bc_token_warnings cfg)) = None"
    unfolding find_None_iff
  proof (clarsimp)
    fix u assume u: "u \<in> set (bc_token_warnings cfg)" "u \<le> usage_pct snap'" "should_warn_budget (ac_store ctx') u"
    have "t < u \<and> should_warn_budget (ac_store ctx) u"
      by (rule should_warn_marked(2) [OF _ u(3)]) (simp add: ctx' record_turn_store)
    moreover have "u \<le> usage_pct snap" using u(2) le by (rule order.trans)
    ultimately show False using find_rev_sorted [OF assms(2) t u(1)] by auto
  qed
  then show "fst (check_token_budget_warnings ops fmt_m cfg snap' ctx') = False"
    by (simp add: check_token_budget_warnings_def)
next
  assume "check_progressive_warnings ops cfg pct budget ctx = (True, ctx')"
  then show "\<exists>t. turns (ac_store ctx') = turns (ac_store ctx) @ [t] \<and>
        ac_history ctx' = ac_history ctx @ (if ac_history_ok ctx
          then [\<lparr>hr_turn = Some (turn_id t), hr_messages = messages t, hr_tokens = estimated_tokens t,
                 hr_kind = RkTurn, hr_event = None\<rparr>] else [])"
    by (auto simp: check_progressive_warnings_def record_turn_def push_turn_def append_history_def Let_def mark_warned_def
        split: list.splits if_splits option.splits)
qed

text \<open>
  Warnings fire once per level: with sorted thresholds (which the configuration loader enforces),
  after a context warning was injected the same or a lower usage injects nothing, and likewise for the
  tagma-wide token budget; an injected warning is exactly one new turn, recorded in the store and,
  when history writes succeed, in the history under the same id.
\<close>

theorem warnings_fire_once:
  assumes "sorted (warning_thresholds cfg)" "sorted (bc_token_warnings cfg)"
  shows "(check_progressive_warnings ops cfg pct budget ctx = (True, ctx') \<longrightarrow> pct' \<le> pct \<longrightarrow>
      fst (check_progressive_warnings ops cfg pct' budget' ctx') = False) \<and>
    (check_token_budget_warnings ops fmt_m cfg snap ctx = (True, ctx') \<longrightarrow> usage_pct snap' \<le> usage_pct snap \<longrightarrow>
      fst (check_token_budget_warnings ops fmt_m cfg snap' ctx') = False) \<and>
    (check_progressive_warnings ops cfg pct budget ctx = (True, ctx') \<longrightarrow>
      (\<exists>t. turns (ac_store ctx') = turns (ac_store ctx) @ [t] \<and>
        ac_history ctx' = ac_history ctx @ (if ac_history_ok ctx
          then [\<lparr>hr_turn = Some (turn_id t), hr_messages = messages t, hr_tokens = estimated_tokens t,
                 hr_kind = RkTurn, hr_event = None\<rparr>] else [])))"
  by (rule warnings_fire_once_facts [OF assms] conjI impI | assumption)+

theorem warnings_fire_once_witness:
  "fst (check_progressive_warnings sample_ops sample_cfg 70 10
     (snd (check_progressive_warnings sample_ops sample_cfg 75 10 sample_ctx))) = False"
proof -
  have "fst (check_progressive_warnings sample_ops sample_cfg 75 10 sample_ctx)" by code_simp
  then have fired: "check_progressive_warnings sample_ops sample_cfg 75 10 sample_ctx
      = (True, snd (check_progressive_warnings sample_ops sample_cfg 75 10 sample_ctx))"
    by (metis prod.collapse)
  have thresholds: "sorted (warning_thresholds sample_cfg)" "sorted (bc_token_warnings sample_cfg)" by code_simp+
  show ?thesis by (rule warnings_fire_once [OF thresholds, THEN conjunct1, rule_format, OF fired]) simp
qed

text \<open>
  A summariser call that makes no progress is not charged: when not even one turn fits beside
  the existing summary, the LLM is still asked, and whatever usage it reports, the pass stops and the
  whole run leaves both the store's cumulative usage and the tagma-wide token budget unchanged.
\<close>

theorem no_progress_call_uncharged:
  assumes "summarize ops (llm 0) (bc_summary_max cfg)
      (compaction_window ops est (effective_budget cfg - bc_summary_max cfg) (ac_store ctx))
      (existing_summary ops (ac_store ctx)) (effective_budget cfg) = Inr (result, Some u)"
    "sm_source_turns result = 0"
  shows "summarize_and_evict ops est llm cfg ctx = (Inr NothingToCompact, ctx)"
  using assms
  by (simp add: summarize_and_evict_def compact_loop.simps [of _ _ _ _ 0] compact_pass_def Let_def)


definition stuck_ctx :: "(string, unit) agent_ctx" where
  "stuck_ctx = sample_ctx\<lparr>ac_store :=
     snd (push_turn sample_ops [''ccccc''] (insert_pin ''context_summary'' ''ssssss'' 6 new_store))\<rparr>"

theorem no_progress_call_uncharged_witness:
  "ac_tokens (snd (summarize_and_evict sample_ops length sample_llm sample_cfg stuck_ctx)) = new_budget 1000 0"
proof -
  have "summarize sample_ops (sample_llm 0) (bc_summary_max sample_cfg)
      (compaction_window sample_ops length (effective_budget sample_cfg - bc_summary_max sample_cfg) (ac_store stuck_ctx))
      (existing_summary sample_ops (ac_store stuck_ctx)) (effective_budget sample_cfg)
    = Inr (\<lparr>sm_text = ''s'', sm_tokens = 1, sm_source_turns = 0\<rparr>,
        Some \<lparr>us_prompt = 7, us_completion = 1, us_cache_hit = None\<rparr>)"
    by code_simp
  from no_progress_call_uncharged [where llm = sample_llm, OF this] show ?thesis
    by (simp add: stuck_ctx_def sample_ctx_def)
qed

end
