(* ===== verification/Task_Ledger.thy ===== *)
theory Task_Ledger
  imports Prelude
begin

text \<open>
  The task ledger (\<open>daemon/kallip-task/src/{model,gates,store,lib}.rs\<close> and the wire types of
  \<open>kallip-common/src/protocol/task.rs\<close>): a coarse state machine per task on a flat table, an
  append-only event trail, and hard gates checked inside the transaction that performs the gated
  action.

  The database is a record with the two tables, in insertion order, and the two \<open>AUTOINCREMENT\<close>
  counters. Columns keep their stored form: a status is its spelling, rosters and payloads are JSON
  text. The body of every write transaction is one definition (\<open>..._tx\<close>) from a database to an error
  or the returned row and the new database; SQLite makes a transaction atomic, so a failing body
  leaves the table as it was. \<open>with_retry\<close> is the busy-retry loop around it.

  Parameters: the JSON codec (\<open>serde_json\<close>), the calendar conversion of the \<open>time\<close> crate, the
  clock (the value read at each program point of each attempt), the database failure of each attempt
  and the committed database each attempt finds once it holds the write lock (other writers may have
  committed in between), and for \<open>close\<close> the directory test and the packing of the dossier into the
  blob store. A query that asks for one row without an order takes the first in table order.
\<close>

section \<open>Wire vocabulary\<close>

datatype task_status = Queued | InProgress | Review | Closed

fun task_status_as_str :: "task_status \<Rightarrow> string" where
  "task_status_as_str Queued = ''queued''"
| "task_status_as_str InProgress = ''in_progress''"
| "task_status_as_str Review = ''review''"
| "task_status_as_str Closed = ''closed''"

definition task_status_parse :: "string \<Rightarrow> task_status option" where
  "task_status_parse raw =
     (if raw = ''queued'' then Some Queued
      else if raw = ''in_progress'' then Some InProgress
      else if raw = ''review'' then Some Review
      else if raw = ''closed'' then Some Closed
      else None)"

datatype closed_reason = Completed | NotPlanned | Duplicate

fun closed_reason_as_str :: "closed_reason \<Rightarrow> string" where
  "closed_reason_as_str Completed = ''completed''"
| "closed_reason_as_str NotPlanned = ''not_planned''"
| "closed_reason_as_str Duplicate = ''duplicate''"

definition closed_reason_parse :: "string \<Rightarrow> closed_reason option" where
  "closed_reason_parse raw =
     (if raw = ''completed'' then Some Completed
      else if raw = ''not_planned'' then Some NotPlanned
      else if raw = ''duplicate'' then Some Duplicate
      else None)"

record task_create_request =
  cr_title :: string
  cr_creator :: string
  cr_assignee :: "string option"
  cr_seats :: "string list"
  cr_dossier_path :: "string option"
  cr_inbox_id_start :: "int option"
  cr_inbox_id_end :: "int option"
  cr_room_id :: "string option"
  cr_room_seq_start :: "int option"
  cr_room_seq_end :: "int option"

record task_checkpoint_request =
  ck_actor :: string
  ck_note :: "string option"
  ck_receipt :: bool
  ck_review :: bool
  ck_waiting :: "bool option"

definition show_int :: "int \<Rightarrow> string" where
  "show_int i = (if i < 0 then ''-'' @ show_nat (nat (- i)) else show_nat (nat i))"

section \<open>The state machine\<close>

datatype transition = TrStart | TrReview | TrClose | TrReopen

fun from_str :: "transition \<Rightarrow> string" where
  "from_str TrStart = task_status_as_str Queued"
| "from_str TrReview = task_status_as_str InProgress"
| "from_str TrClose = ''''"
| "from_str TrReopen = task_status_as_str Closed"

fun to_str :: "transition \<Rightarrow> string" where
  "to_str TrStart = task_status_as_str InProgress"
| "to_str TrReview = task_status_as_str Review"
| "to_str TrClose = task_status_as_str Closed"
| "to_str TrReopen = task_status_as_str InProgress"

fun transition_name :: "transition \<Rightarrow> string" where
  "transition_name TrStart = ''start''"
| "transition_name TrReview = ''review''"
| "transition_name TrClose = ''close''"
| "transition_name TrReopen = ''reopen''"

fun legal_from :: "transition \<Rightarrow> task_status list" where
  "legal_from TrStart = [Queued]"
| "legal_from TrReview = [InProgress]"
| "legal_from TrClose = [InProgress, Review]"
| "legal_from TrReopen = [Closed]"

fun join_with :: "string \<Rightarrow> string list \<Rightarrow> string" where
  "join_with sep [] = ''''"
| "join_with sep [x] = x"
| "join_with sep (x # xs) = x @ sep @ join_with sep xs"

definition legal_from_str :: "transition \<Rightarrow> string" where
  "legal_from_str t = join_with ''|'' (map task_status_as_str (legal_from t))"

section \<open>Tables\<close>

record task =
  t_id :: int
  t_title :: string
  t_status :: string
  t_creator :: "string option"
  t_assignee :: "string option"
  t_seats :: string
  t_created_at :: int
  t_updated_at :: int
  t_started_at :: "int option"
  t_ended_at :: "int option"
  t_waiting :: int
  t_waiting_since :: "int option"
  t_archived :: int
  t_archived_at :: "int option"
  t_closed_reason :: "string option"
  t_close_summary :: "string option"
  t_inbox_id_start :: "int option"
  t_inbox_id_end :: "int option"
  t_room_id :: "string option"
  t_room_seq_start :: "int option"
  t_room_seq_end :: "int option"
  t_dossier_path :: "string option"
  t_archive_hash :: "string option"

record task_event =
  e_id :: int
  e_task_id :: int
  e_kind :: string
  e_name :: string
  e_actor :: "string option"
  e_assignee :: "string option"
  e_from_status :: "string option"
  e_to_status :: "string option"
  e_payload :: "string option"
  e_created_at :: int

record task_db =
  db_tasks :: "task list"
  db_events :: "task_event list"
  db_task_seq :: int
  db_event_seq :: int

definition empty_db :: task_db where
  "empty_db = \<lparr>db_tasks = [], db_events = [], db_task_seq = 0, db_event_seq = 0\<rparr>"

text \<open>Database errors, as deep as the busy classifier looks into them.\<close>

datatype sqlx_err = SqlxDatabase "string option" | SqlxOther string

datatype runtime_err = SqlxError sqlx_err | InternalError string

datatype db_err = DbConn runtime_err | DbExec runtime_err | DbQuery runtime_err | DbOther string

datatype task_err =
    NotFound int
  | InvalidTransition int string string string
  | SerialGate string int string
  | ReceiptGate string
  | ArchiveGate int string
  | DispatchGate int
  | GateReportGate int
  | DossierNotDir string
  | ArchiveNoBlobStore int string
  | AssociationInvalid string
  | CorruptRecord int string
  | Db db_err
  | Blob string
  | Io string
  | Json
  | Time
  | OtherErr string

section \<open>Statements\<close>

definition load :: "task_db \<Rightarrow> int \<Rightarrow> task_err + task" where
  "load db i = ok_or (NotFound i) (List.find (\<lambda>r. t_id r = i) (db_tasks db))"

definition insert_task :: "task \<Rightarrow> task_db \<Rightarrow> int \<times> task_db" where
  "insert_task r db =
     (let n = db_task_seq db + 1
      in (n, db\<lparr>db_tasks := db_tasks db @ [r\<lparr>t_id := n\<rparr>], db_task_seq := n\<rparr>))"

definition update_task :: "int \<Rightarrow> (task \<Rightarrow> task) \<Rightarrow> task_db \<Rightarrow> task_db" where
  "update_task i f db = db\<lparr>db_tasks := map (\<lambda>r. if t_id r = i then f r else r) (db_tasks db)\<rparr>"

definition insert_event :: "task_event \<Rightarrow> task_db \<Rightarrow> task_db" where
  "insert_event e db =
     (let n = db_event_seq db + 1
      in db\<lparr>db_events := db_events db @ [e\<lparr>e_id := n\<rparr>], db_event_seq := n\<rparr>)"

text \<open>The row an event insert sends: the id is not set, the table assigns it.\<close>

definition event_row ::
  "int \<Rightarrow> string \<Rightarrow> string \<Rightarrow> string option \<Rightarrow> string option \<Rightarrow> string option \<Rightarrow> string option
     \<Rightarrow> string option \<Rightarrow> int \<Rightarrow> task_event" where
  "event_row i kind name actor assignee from_status to_status payload created_at =
     \<lparr>e_id = 0, e_task_id = i, e_kind = kind, e_name = name, e_actor = actor, e_assignee = assignee,
      e_from_status = from_status, e_to_status = to_status, e_payload = payload, e_created_at = created_at\<rparr>"

definition append_event_tx ::
  "int \<Rightarrow> string \<Rightarrow> string \<Rightarrow> string option \<Rightarrow> string option \<Rightarrow> string option \<Rightarrow> string option
     \<Rightarrow> string option \<Rightarrow> int \<Rightarrow> task_db \<Rightarrow> task_db" where
  "append_event_tx i kind name actor assignee from_status to_status payload created_at =
     insert_event (event_row i kind name actor assignee from_status to_status payload created_at)"

definition parse_status :: "task \<Rightarrow> task_err + task_status" where
  "parse_status row =
     ok_or (OtherErr (''task '' @ show_int (t_id row) @ '' carries unknown status '' @ [CHR 0x27]
         @ t_status row @ [CHR 0x27]))
       (task_status_parse (t_status row))"

definition check_transition :: "transition \<Rightarrow> task_status \<Rightarrow> int \<Rightarrow> task_err + unit" where
  "check_transition t from i =
     (if from \<in> set (legal_from t) then Inr ()
      else Inl (InvalidTransition i (task_status_as_str from) (transition_name t) (legal_from_str t)))"

definition note_payload :: "json_codec \<Rightarrow> string option \<Rightarrow> string option" where
  "note_payload js note = map_option (\<lambda>n. to_text js (JObj [(''note'', JStr n)])) note"

definition reload :: "int \<Rightarrow> task_db \<Rightarrow> task_err + (task \<times> task_db)" where
  "reload i db = rbind (load db i) (\<lambda>t. Inr (t, db))"

text \<open>Deserialisation of a JSON text into \<open>Vec<String>\<close> and into \<open>DispatchPayload\<close>.\<close>

fun strings_of :: "json list \<Rightarrow> string list option" where
  "strings_of [] = Some []"
| "strings_of (JStr s # vs) = map_option ((#) s) (strings_of vs)"
| "strings_of _ = None"

fun string_vec :: "json \<Rightarrow> string list option" where
  "string_vec (JArr vs) = strings_of vs"
| "string_vec _ = None"

definition seats_from_str :: "json_codec \<Rightarrow> string \<Rightarrow> string list option" where
  "seats_from_str js s = Option.bind (from_text js s) string_vec"

fun dispatch_payload_of :: "json \<Rightarrow> string list option" where
  "dispatch_payload_of (JObj kvs) =
     (case filter (\<lambda>(k, _). k = ''seats'') kvs of [(_, v)] \<Rightarrow> string_vec v | _ \<Rightarrow> None)"
| "dispatch_payload_of (JArr [v]) = string_vec v"
| "dispatch_payload_of _ = None"

definition dispatch_payload_from_str :: "json_codec \<Rightarrow> string \<Rightarrow> string list option" where
  "dispatch_payload_from_str js s = Option.bind (from_text js s) dispatch_payload_of"

definition seats_json :: "string list \<Rightarrow> json" where
  "seats_json seats = JArr (map JStr seats)"

section \<open>Gates\<close>

definition serial_gate_blocked :: "task_db \<Rightarrow> string \<Rightarrow> int \<Rightarrow> (int \<times> string) option" where
  "serial_gate_blocked db assignee exclude_id =
     map_option (\<lambda>t. (t_id t, t_title t))
       (List.find (\<lambda>t. t_assignee t = Some assignee \<and> t_status t = ''in_progress'' \<and> t_id t \<noteq> exclude_id)
         (db_tasks db))"

text \<open>\<open>ORDER BY id DESC LIMIT 1\<close>.\<close>

definition newest :: "(task_event \<Rightarrow> bool) \<Rightarrow> task_event list \<Rightarrow> task_event option" where
  "newest P es = (case sort_key (\<lambda>e. - e_id e) (filter P es) of [] \<Rightarrow> None | e # _ \<Rightarrow> Some e)"

definition is_action :: "int \<Rightarrow> string \<Rightarrow> task_event \<Rightarrow> bool" where
  "is_action i name e \<longleftrightarrow> e_task_id e = i \<and> e_kind e = ''action'' \<and> e_name e = name"

definition is_reopen :: "int \<Rightarrow> task_event \<Rightarrow> bool" where
  "is_reopen i e \<longleftrightarrow> e_task_id e = i \<and> e_kind e = ''transition'' \<and> e_name e = ''reopen''"

definition id_or_zero :: "task_event option \<Rightarrow> int" where
  "id_or_zero eo = (case eo of None \<Rightarrow> 0 | Some e \<Rightarrow> e_id e)"

definition latest_reopen_event_id :: "task_db \<Rightarrow> int \<Rightarrow> int" where
  "latest_reopen_event_id db i = id_or_zero (newest (is_reopen i) (db_events db))"

definition latest_action_event_id :: "task_db \<Rightarrow> int \<Rightarrow> string \<Rightarrow> int" where
  "latest_action_event_id db i name = id_or_zero (newest (is_action i name) (db_events db))"

definition receipt_boundary :: "task_db \<Rightarrow> int \<Rightarrow> int" where
  "receipt_boundary db i = max (latest_reopen_event_id db i) (latest_action_event_id db i ''dispatch'')"

definition missing_receipts :: "task_db \<Rightarrow> int \<Rightarrow> string list \<Rightarrow> string list" where
  "missing_receipts db i seats =
     (let boundary = receipt_boundary db i;
          receipts = filter (\<lambda>e. is_action i ''receipt'' e \<and> boundary < e_id e) (db_events db);
          filed = List.map_filter e_actor receipts
      in filter (\<lambda>s. s \<notin> set filed) seats)"

definition latest_dispatch :: "task_db \<Rightarrow> int \<Rightarrow> task_event option" where
  "latest_dispatch db i = newest (is_action i ''dispatch'') (db_events db)"

definition dispatch_in_current_cycle :: "task_db \<Rightarrow> int \<Rightarrow> bool" where
  "dispatch_in_current_cycle db i \<longleftrightarrow>
     latest_reopen_event_id db i < latest_action_event_id db i ''dispatch''"

definition gate_report_current :: "task_db \<Rightarrow> int \<Rightarrow> bool" where
  "gate_report_current db i \<longleftrightarrow>
     latest_action_event_id db i ''chain_op'' < latest_action_event_id db i ''gate_report''"

section \<open>Bodies of the write transactions\<close>

definition window :: "int option \<Rightarrow> int option \<Rightarrow> string \<Rightarrow> task_err + unit" where
  "window start_id end_id what =
     (case (start_id, end_id) of
        (None, None) \<Rightarrow> Inr ()
      | (Some s, Some e) \<Rightarrow>
          if s \<le> e then Inr ()
          else Inl (AssociationInvalid (what @ '' window '' @ show_int s @ ''..'' @ show_int e @ '' is inverted''))
      | _ \<Rightarrow> Inl (AssociationInvalid (what @ '' window needs both bounds'')))"

definition validate_association :: "task_create_request \<Rightarrow> task_err + unit" where
  "validate_association req =
     rbind (window (cr_inbox_id_start req) (cr_inbox_id_end req) ''inbox id'') (\<lambda>_.
     rbind (window (cr_room_seq_start req) (cr_room_seq_end req) ''room seq'') (\<lambda>_.
     if cr_room_id req = None \<and> cr_room_seq_start req \<noteq> None
     then Inl (AssociationInvalid ''room seq window needs the room id it belongs to'')
     else Inr ()))"

definition new_row :: "string \<Rightarrow> int \<Rightarrow> task_create_request \<Rightarrow> task" where
  "new_row seats now req =
     \<lparr>t_id = 0, t_title = cr_title req, t_status = task_status_as_str Queued,
      t_creator = Some (cr_creator req), t_assignee = cr_assignee req, t_seats = seats,
      t_created_at = now, t_updated_at = now, t_started_at = None, t_ended_at = None,
      t_waiting = 0, t_waiting_since = None, t_archived = 0, t_archived_at = None,
      t_closed_reason = None, t_close_summary = None,
      t_inbox_id_start = cr_inbox_id_start req, t_inbox_id_end = cr_inbox_id_end req,
      t_room_id = cr_room_id req, t_room_seq_start = cr_room_seq_start req,
      t_room_seq_end = cr_room_seq_end req, t_dossier_path = cr_dossier_path req,
      t_archive_hash = None\<rparr>"

definition create_tx ::
  "string \<Rightarrow> int \<Rightarrow> task_create_request \<Rightarrow> task_db \<Rightarrow> task_err + (task \<times> task_db)" where
  "create_tx seats now req db =
     (let (n, db1) = insert_task (new_row seats now req) db;
          db2 = append_event_tx n ''action'' ''create'' (Some (cr_creator req)) (cr_assignee req)
            None None None now db1
      in reload n db2)"

definition serial_payload :: "json_codec \<Rightarrow> int \<Rightarrow> string \<Rightarrow> string option" where
  "serial_payload js blocked_by title =
     Some (to_text js (JObj [(''gate'', JStr ''serial''), (''blocked_by'', JInt blocked_by),
       (''blocked_title'', JStr title)]))"

definition start_tx ::
  "json_codec \<Rightarrow> (nat \<Rightarrow> int) \<Rightarrow> int \<Rightarrow> string \<Rightarrow> bool \<Rightarrow> task_db \<Rightarrow> task_err + (task \<times> task_db)" where
  "start_tx js clk i actor force db =
     rbind (load db i) (\<lambda>row.
     rbind (parse_status row) (\<lambda>status.
     rbind (check_transition TrStart status i) (\<lambda>_.
     let assignee = (case t_assignee row of Some a \<Rightarrow> a | None \<Rightarrow> actor) in
     rbind (case serial_gate_blocked db assignee (t_id row) of
              None \<Rightarrow> Inr db
            | Some (blocked_by, title) \<Rightarrow>
                if \<not> force then Inl (SerialGate assignee blocked_by title)
                else Inr (append_event_tx (t_id row) ''action'' ''force_start'' (Some actor) (Some assignee)
                       None None (serial_payload js blocked_by title) (clk 0) db)) (\<lambda>db1.
     let db2 = update_task (t_id row) (\<lambda>r. r\<lparr>t_status := to_str TrStart, t_assignee := Some assignee,
                 t_started_at := (case t_started_at row of None \<Rightarrow> Some (clk 1) | Some s \<Rightarrow> Some s),
                 t_updated_at := clk 2\<rparr>) db1;
         db3 = append_event_tx (t_id row) ''transition'' ''start'' (Some actor) (Some assignee)
                 (Some (task_status_as_str status)) (Some (to_str TrStart)) None (clk 3) db2
     in reload i db3))))"

definition checkpoint_review_tx ::
  "(nat \<Rightarrow> int) \<Rightarrow> task_checkpoint_request \<Rightarrow> task \<Rightarrow> task_status \<Rightarrow> task_db \<Rightarrow> task_err + task_db" where
  "checkpoint_review_tx clk opr row status db =
     (if \<not> ck_review opr then Inr db
      else if status \<noteq> InProgress
      then Inl (InvalidTransition (t_id row) (task_status_as_str status) ''review'' (legal_from_str TrReview))
      else Inr (append_event_tx (t_id row) ''transition'' ''review'' (Some (ck_actor opr)) (t_assignee row)
                  (Some (task_status_as_str status)) (Some (to_str TrReview)) None (clk 1)
                 (update_task (t_id row) (\<lambda>r. r\<lparr>t_status := to_str TrReview, t_updated_at := clk 0\<rparr>) db)))"

definition checkpoint_waiting_tx ::
  "(nat \<Rightarrow> int) \<Rightarrow> task_checkpoint_request \<Rightarrow> task \<Rightarrow> task_db \<Rightarrow> task_db" where
  "checkpoint_waiting_tx clk opr row db =
     (case ck_waiting opr of
        None \<Rightarrow> db
      | Some waiting \<Rightarrow>
          append_event_tx (t_id row) ''action'' (if waiting then ''waiting_set'' else ''waiting_clear'')
            (Some (ck_actor opr)) (t_assignee row) None None None (clk 4)
            (update_task (t_id row) (\<lambda>r. r\<lparr>t_waiting := (if waiting then 1 else 0),
                t_waiting_since := (if waiting then Some (clk 2) else None), t_updated_at := clk 3\<rparr>) db))"

definition checkpoint_tx ::
  "json_codec \<Rightarrow> (nat \<Rightarrow> int) \<Rightarrow> int \<Rightarrow> task_checkpoint_request \<Rightarrow> task_db \<Rightarrow> task_err + (task \<times> task_db)" where
  "checkpoint_tx js clk i opr db =
     rbind (load db i) (\<lambda>row.
     rbind (parse_status row) (\<lambda>status.
     if status \<noteq> InProgress \<and> status \<noteq> Review
     then Inl (InvalidTransition (t_id row) (task_status_as_str status) ''checkpoint'' ''in_progress|review'')
     else
       rbind (checkpoint_review_tx clk opr row status db) (\<lambda>db1.
       let db2 = checkpoint_waiting_tx clk opr row db1;
           db3 = (if ck_receipt opr
             then append_event_tx (t_id row) ''action'' ''receipt'' (Some (ck_actor opr)) (t_assignee row)
                    None None (note_payload js (ck_note opr)) (clk 5) db2
             else db2);
           db4 = (if \<not> ck_receipt opr \<and> (ck_note opr \<noteq> None \<or> (\<not> ck_review opr \<and> ck_waiting opr = None))
             then append_event_tx (t_id row) ''action'' ''checkpoint'' (Some (ck_actor opr)) (t_assignee row)
                    None None (note_payload js (ck_note opr)) (clk 6) db3
             else db3)
       in reload i db4)))"

text \<open>
  What \<open>close\<close> does before its transaction: the dossier, when the row registers one, is packed and
  ingested (the parameter \<open>pack_ingest\<close>, present when the caller handed a blob store in).
\<close>

definition close_archive ::
  "(string \<Rightarrow> bool) \<Rightarrow> (string \<Rightarrow> task_err + string) option \<Rightarrow> int \<Rightarrow> task_db \<Rightarrow> task_err + string option" where
  "close_archive is_dir blobs i db =
     rbind (load db i) (\<lambda>row.
     case (t_dossier_path row, blobs) of
       (Some dossier, Some pack_ingest) \<Rightarrow>
         if \<not> is_dir dossier then Inl (DossierNotDir dossier)
         else rbind (pack_ingest dossier) (\<lambda>hash. Inr (Some hash))
     | (Some dossier, None) \<Rightarrow> Inl (ArchiveNoBlobStore i dossier)
     | _ \<Rightarrow> Inr None)"

definition close_gate :: "json_codec \<Rightarrow> task \<Rightarrow> string list \<Rightarrow> task_db \<Rightarrow> task_err + unit" where
  "close_gate js row seats db =
     (if \<not> dispatch_in_current_cycle db (t_id row) then Inl (DispatchGate (t_id row))
      else
        let roster =
              (case Option.bind (Option.bind (latest_dispatch db (t_id row)) e_payload) (dispatch_payload_from_str js) of
                 Some rs \<Rightarrow> rs
               | None \<Rightarrow> seats);
            missing = missing_receipts db (t_id row) roster
        in if missing \<noteq> [] then Inl (ReceiptGate (join_with '', '' missing)) else Inr ())"

definition close_tx ::
  "json_codec \<Rightarrow> (nat \<Rightarrow> int) \<Rightarrow> int \<Rightarrow> string \<Rightarrow> closed_reason \<Rightarrow> string option \<Rightarrow> bool \<Rightarrow> string option
     \<Rightarrow> task_db \<Rightarrow> task_err + (task \<times> task_db)" where
  "close_tx js clk i actor reason summary force archive_hash db =
     rbind (load db i) (\<lambda>row.
     rbind (parse_status row) (\<lambda>status.
     rbind (check_transition TrClose status i) (\<lambda>_.
     rbind (ok_or Json (seats_from_str js (t_seats row))) (\<lambda>seats.
     let cycle_open = dispatch_in_current_cycle db (t_id row) in
     rbind (if \<not> force then rbind (close_gate js row seats db) (\<lambda>_. Inr db)
            else
              let escaped = (if \<not> cycle_open then [''dispatch'', ''receipts''] else [''receipts''])
              in Inr (append_event_tx (t_id row) ''action'' ''force_close'' (Some actor) (t_assignee row) None None
                   (Some (to_text js (JObj [(''gates'', JArr (map JStr escaped)),
                      (''registered_seats'', seats_json seats)]))) (clk 0) db)) (\<lambda>db1.
     let db2 = update_task (t_id row) (\<lambda>r. r\<lparr>t_status := to_str TrClose, t_ended_at := Some (clk 1),
                 t_updated_at := clk 2, t_closed_reason := Some (closed_reason_as_str reason),
                 t_close_summary := summary, t_archive_hash := archive_hash, t_waiting := 0,
                 t_waiting_since := None\<rparr>) db1;
         payload = JObj ([(''reason'', JStr (closed_reason_as_str reason))]
           @ (case summary of None \<Rightarrow> [] | Some s \<Rightarrow> [(''summary'', JStr s)])
           @ (case archive_hash of None \<Rightarrow> [] | Some h \<Rightarrow> [(''archive_hash'', JStr h)]));
         db3 = append_event_tx (t_id row) ''transition'' ''close'' (Some actor) (t_assignee row)
                 (Some (task_status_as_str status)) (Some (to_str TrClose)) (Some (to_text js payload)) (clk 3) db2
     in reload i db3)))))"

definition reopen_tx ::
  "json_codec \<Rightarrow> (nat \<Rightarrow> int) \<Rightarrow> int \<Rightarrow> string \<Rightarrow> bool \<Rightarrow> task_db \<Rightarrow> task_err + (task \<times> task_db)" where
  "reopen_tx js clk i actor force db =
     rbind (load db i) (\<lambda>row.
     rbind (parse_status row) (\<lambda>status.
     rbind (check_transition TrReopen status i) (\<lambda>_.
     rbind (case t_assignee row of
              None \<Rightarrow> Inr db
            | Some assignee \<Rightarrow>
                (case serial_gate_blocked db assignee (t_id row) of
                   None \<Rightarrow> Inr db
                 | Some (blocked_by, title) \<Rightarrow>
                     if \<not> force then Inl (SerialGate assignee blocked_by title)
                     else Inr (append_event_tx (t_id row) ''action'' ''force_reopen'' (Some actor) (t_assignee row)
                            None None (serial_payload js blocked_by title) (clk 0) db))) (\<lambda>db1.
     let db2 = update_task (t_id row) (\<lambda>r. r\<lparr>t_status := to_str TrReopen, t_ended_at := None,
                 t_updated_at := clk 1, t_closed_reason := None, t_close_summary := None, t_waiting := 0,
                 t_waiting_since := None\<rparr>) db1;
         db3 = append_event_tx (t_id row) ''transition'' ''reopen'' (Some actor) (t_assignee row)
                 (Some (task_status_as_str status)) (Some (to_str TrReopen)) None (clk 2) db2
     in reload i db3))))"

definition annotate_tx ::
  "json_codec \<Rightarrow> (nat \<Rightarrow> int) \<Rightarrow> int \<Rightarrow> string \<Rightarrow> string \<Rightarrow> task_db \<Rightarrow> task_err + (task \<times> task_db)" where
  "annotate_tx js clk i actor note db =
     rbind (load db i) (\<lambda>row.
       reload i (append_event_tx (t_id row) ''action'' ''annotate'' (Some actor) (t_assignee row)
         None None (note_payload js (Some note)) (clk 0) db))"

definition gate_report_tx ::
  "json_codec \<Rightarrow> (nat \<Rightarrow> int) \<Rightarrow> int \<Rightarrow> string \<Rightarrow> string \<Rightarrow> task_db \<Rightarrow> task_err + (task \<times> task_db)" where
  "gate_report_tx js clk i actor note db =
     rbind (load db i) (\<lambda>row.
       reload i (append_event_tx (t_id row) ''action'' ''gate_report'' (Some actor) (t_assignee row)
         None None (note_payload js (Some note)) (clk 0) db))"

definition dispatch_tx ::
  "json_codec \<Rightarrow> (nat \<Rightarrow> int) \<Rightarrow> int \<Rightarrow> string \<Rightarrow> string list option \<Rightarrow> task_db \<Rightarrow> task_err + (task \<times> task_db)" where
  "dispatch_tx js clk i actor seats db =
     rbind (load db i) (\<lambda>row.
     rbind (parse_status row) (\<lambda>status.
     if status \<noteq> InProgress \<and> status \<noteq> Review
     then Inl (InvalidTransition (t_id row) (task_status_as_str status) ''dispatch'' ''in_progress|review'')
     else
       rbind (case seats of
                Some roster \<Rightarrow> Inr roster
              | None \<Rightarrow> ok_or (CorruptRecord (t_id row) ''seats'') (seats_from_str js (t_seats row))) (\<lambda>roster.
       reload i (append_event_tx (t_id row) ''action'' ''dispatch'' (Some actor) (t_assignee row)
         None None (Some (to_text js (JObj [(''seats'', seats_json roster)]))) (clk 0) db))))"

definition chain_op_tx ::
  "json_codec \<Rightarrow> (nat \<Rightarrow> int) \<Rightarrow> int \<Rightarrow> string \<Rightarrow> string \<Rightarrow> string option \<Rightarrow> bool \<Rightarrow> task_db
     \<Rightarrow> task_err + (task \<times> task_db)" where
  "chain_op_tx js clk i actor opr detail force db =
     rbind (load db i) (\<lambda>row.
     if \<not> force \<and> \<not> gate_report_current db (t_id row) then Inl (GateReportGate (t_id row))
     else
       let payload = JObj ([(''op'', JStr opr)]
             @ (case detail of None \<Rightarrow> [] | Some d \<Rightarrow> [(''detail'', JStr d)])
             @ (if force then [(''gate'', JStr ''gate_report'')] else []))
       in reload i (append_event_tx (t_id row) ''action'' ''chain_op'' (Some actor) (t_assignee row)
            None None (Some (to_text js payload)) (clk 0) db))"

definition archive_task_tx ::
  "json_codec \<Rightarrow> (nat \<Rightarrow> int) \<Rightarrow> int \<Rightarrow> string \<Rightarrow> bool \<Rightarrow> task_db \<Rightarrow> task_err + (task \<times> task_db)" where
  "archive_task_tx js clk i actor force db =
     rbind (load db i) (\<lambda>row.
     rbind (parse_status row) (\<lambda>status.
     let escaped = (status \<noteq> Closed) in
     if escaped \<and> \<not> force then Inl (ArchiveGate (t_id row) (task_status_as_str status))
     else
       let payload = (if escaped
             then Some (to_text js (JObj [(''gate'', JStr ''archive_requires_closed''),
                    (''status'', JStr (task_status_as_str status))]))
             else None);
           db1 = update_task (t_id row) (\<lambda>r. r\<lparr>t_archived := 1, t_archived_at := Some (clk 0),
                   t_updated_at := clk 1\<rparr>) db
       in reload i (append_event_tx (t_id row) ''action'' ''archive'' (Some actor) (t_assignee row)
            None None payload (clk 2) db1)))"

section \<open>The busy-retry loop\<close>

definition BUSY_RETRIES :: nat where "BUSY_RETRIES = 3"

text \<open>\<open>str::parse::<u32>\<close>: an optional plus sign, at least one digit, no overflow.\<close>

fun parse_digits :: "nat \<Rightarrow> string \<Rightarrow> nat option" where
  "parse_digits acc [] = Some acc"
| "parse_digits acc (c # cs) =
     (if 48 \<le> (of_char c :: nat) \<and> (of_char c :: nat) \<le> 57
      then (let acc' = acc * 10 + (of_char c - 48) in if acc' < 2 ^ 32 then parse_digits acc' cs else None)
      else None)"

definition parse_u32 :: "string \<Rightarrow> u32 option" where
  "parse_u32 s =
     (let ds = (case s of c # cs \<Rightarrow> if c = CHR 0x2B then cs else s | [] \<Rightarrow> s)
      in if ds = [] then None else map_option of_nat (parse_digits 0 ds))"

definition is_busy_code :: "string option \<Rightarrow> bool" where
  "is_busy_code code =
     (let primary = map_option (\<lambda>c. and c 0xFF) (Option.bind code parse_u32)
      in primary = Some 5 \<or> primary = Some 6)"

fun is_busy_db :: "db_err \<Rightarrow> bool" where
  "is_busy_db (DbConn (SqlxError (SqlxDatabase code))) = is_busy_code code"
| "is_busy_db (DbExec (SqlxError (SqlxDatabase code))) = is_busy_code code"
| "is_busy_db (DbQuery (SqlxError (SqlxDatabase code))) = is_busy_code code"
| "is_busy_db _ = False"

fun is_busy_err :: "task_err \<Rightarrow> bool" where
  "is_busy_err (Db e) = is_busy_db e"
| "is_busy_err _ = False"

datatype txn_err = TxConnection db_err | TxTransaction task_err

fun flat_txn :: "txn_err \<Rightarrow> task_err" where
  "flat_txn (TxConnection e) = Db e"
| "flat_txn (TxTransaction e) = e"

fun retryable :: "txn_err \<Rightarrow> bool" where
  "retryable (TxConnection e) = is_busy_db e"
| "retryable (TxTransaction e) = is_busy_err e"

text \<open>
  One run of \<open>db.transaction\<close>. The environment decides whether the database fails: at begin or commit
  (a connection error) or at a statement of the body (a \<open>Db\<close> error of the body); either way nothing
  is committed.
\<close>

datatype txn_fault = BeginOrCommit db_err | Statement db_err

definition transact ::
  "txn_fault option \<Rightarrow> (task_db \<Rightarrow> task_err + ('a \<times> task_db)) \<Rightarrow> task_db \<Rightarrow> (txn_err + 'a) \<times> task_db" where
  "transact fault body db =
     (case fault of
        Some (BeginOrCommit e) \<Rightarrow> (Inl (TxConnection e), db)
      | Some (Statement e) \<Rightarrow> (Inl (TxTransaction (Db e)), db)
      | None \<Rightarrow> (case body db of Inl e \<Rightarrow> (Inl (TxTransaction e), db) | Inr (x, db') \<Rightarrow> (Inr x, db')))"

text \<open>
  What a verb call meets: per attempt, the database it finds once it has the write lock, the failure
  if any, and the clock.
\<close>

record txn_env =
  te_db :: "nat \<Rightarrow> task_db"
  te_fault :: "nat \<Rightarrow> txn_fault option"
  te_clock :: "nat \<Rightarrow> nat \<Rightarrow> int"

function with_retry ::
  "txn_env \<Rightarrow> (nat \<Rightarrow> task_db \<Rightarrow> task_err + ('a \<times> task_db)) \<Rightarrow> nat \<Rightarrow> (task_err + 'a) \<times> task_db" where
  "with_retry env body attempt =
     (case transact (te_fault env attempt) (body attempt) (te_db env attempt) of
        (Inl e, db) \<Rightarrow>
          if attempt < BUSY_RETRIES \<and> retryable e then with_retry env body (attempt + 1) else (Inl (flat_txn e), db)
      | (Inr x, db) \<Rightarrow> (Inr x, db))"
  by auto

termination by (relation "measure (\<lambda>(_, _, attempt). BUSY_RETRIES - attempt)") auto

declare with_retry.simps [simp del]

section \<open>The write verbs\<close>

definition create ::
  "json_codec \<Rightarrow> txn_env \<Rightarrow> int \<Rightarrow> task_create_request \<Rightarrow> (task_err + task) \<times> task_db" where
  "create js env now req =
     (case validate_association req of
        Inl e \<Rightarrow> (Inl e, te_db env 0)
      | Inr _ \<Rightarrow>
          (let seats = to_text js (seats_json (cr_seats req))
           in with_retry env (\<lambda>_. create_tx seats now req) 0))"

definition start :: "json_codec \<Rightarrow> txn_env \<Rightarrow> int \<Rightarrow> string \<Rightarrow> bool \<Rightarrow> (task_err + task) \<times> task_db" where
  "start js env i actor force = with_retry env (\<lambda>k. start_tx js (te_clock env k) i actor force) 0"

definition checkpoint ::
  "json_codec \<Rightarrow> txn_env \<Rightarrow> int \<Rightarrow> task_checkpoint_request \<Rightarrow> (task_err + task) \<times> task_db" where
  "checkpoint js env i opr = with_retry env (\<lambda>k. checkpoint_tx js (te_clock env k) i opr) 0"

text \<open>\<open>close\<close> first reads the row (\<open>db0\<close>, with its own possible failure) and archives the dossier.\<close>

definition close ::
  "json_codec \<Rightarrow> (string \<Rightarrow> bool) \<Rightarrow> (string \<Rightarrow> task_err + string) option \<Rightarrow> db_err option \<Rightarrow> task_db \<Rightarrow> txn_env
     \<Rightarrow> int \<Rightarrow> string \<Rightarrow> closed_reason \<Rightarrow> string option \<Rightarrow> bool \<Rightarrow> (task_err + task) \<times> task_db" where
  "close js is_dir blobs read_fault db0 env i actor reason summary force =
     (case (case read_fault of Some e \<Rightarrow> Inl (Db e) | None \<Rightarrow> close_archive is_dir blobs i db0) of
        Inl e \<Rightarrow> (Inl e, db0)
      | Inr archive_hash \<Rightarrow>
          with_retry env (\<lambda>k. close_tx js (te_clock env k) i actor reason summary force archive_hash) 0)"

definition reopen :: "json_codec \<Rightarrow> txn_env \<Rightarrow> int \<Rightarrow> string \<Rightarrow> bool \<Rightarrow> (task_err + task) \<times> task_db" where
  "reopen js env i actor force = with_retry env (\<lambda>k. reopen_tx js (te_clock env k) i actor force) 0"

definition annotate :: "json_codec \<Rightarrow> txn_env \<Rightarrow> int \<Rightarrow> string \<Rightarrow> string \<Rightarrow> (task_err + task) \<times> task_db" where
  "annotate js env i actor note = with_retry env (\<lambda>k. annotate_tx js (te_clock env k) i actor note) 0"

definition gate_report :: "json_codec \<Rightarrow> txn_env \<Rightarrow> int \<Rightarrow> string \<Rightarrow> string \<Rightarrow> (task_err + task) \<times> task_db" where
  "gate_report js env i actor note = with_retry env (\<lambda>k. gate_report_tx js (te_clock env k) i actor note) 0"

definition dispatch ::
  "json_codec \<Rightarrow> txn_env \<Rightarrow> int \<Rightarrow> string \<Rightarrow> string list option \<Rightarrow> (task_err + task) \<times> task_db" where
  "dispatch js env i actor seats = with_retry env (\<lambda>k. dispatch_tx js (te_clock env k) i actor seats) 0"

definition chain_op ::
  "json_codec \<Rightarrow> txn_env \<Rightarrow> int \<Rightarrow> string \<Rightarrow> string \<Rightarrow> string option \<Rightarrow> bool \<Rightarrow> (task_err + task) \<times> task_db" where
  "chain_op js env i actor opr detail force =
     with_retry env (\<lambda>k. chain_op_tx js (te_clock env k) i actor opr detail force) 0"

definition archive_task :: "json_codec \<Rightarrow> txn_env \<Rightarrow> int \<Rightarrow> string \<Rightarrow> bool \<Rightarrow> (task_err + task) \<times> task_db" where
  "archive_task js env i actor force = with_retry env (\<lambda>k. archive_task_tx js (te_clock env k) i actor force) 0"

section \<open>The read faces\<close>

record task_filter =
  tf_status :: "task_status option"
  tf_assignee :: "string option"
  tf_archived :: bool

text \<open>One read transaction: the rows come from one snapshot, or the database error.\<close>

definition read_txn :: "txn_fault option \<Rightarrow> (task_db \<Rightarrow> task_err + 'a) \<Rightarrow> task_db \<Rightarrow> task_err + 'a" where
  "read_txn fault body db =
     (case fst (transact fault (\<lambda>db. rbind (body db) (\<lambda>x. Inr (x, db))) db) of
        Inl e \<Rightarrow> Inl (flat_txn e)
      | Inr x \<Rightarrow> Inr x)"

definition list_tasks :: "task_filter \<Rightarrow> task_db \<Rightarrow> task list" where
  "list_tasks flt db =
     sort_key t_id (filter (\<lambda>t.
       t_archived t = (if tf_archived flt then 1 else 0) \<and>
       (case tf_status flt of None \<Rightarrow> True | Some s \<Rightarrow> t_status t = task_status_as_str s) \<and>
       (case tf_assignee flt of None \<Rightarrow> True | Some a \<Rightarrow> t_assignee t = Some a)) (db_tasks db))"

definition events_of :: "task_db \<Rightarrow> int \<Rightarrow> task_event list" where
  "events_of db i = sort_key e_id (filter (\<lambda>e. e_task_id e = i) (db_events db))"

definition get_in_tx :: "int \<Rightarrow> task_db \<Rightarrow> task_err + (task \<times> task_event list)" where
  "get_in_tx i db = rbind (load db i) (\<lambda>t. Inr (t, events_of db i))"

definition get_task :: "txn_fault option \<Rightarrow> int \<Rightarrow> task_db \<Rightarrow> task_err + (task \<times> task_event list)" where
  "get_task fault i = read_txn fault (get_in_tx i)"

definition pad_zero :: "nat \<Rightarrow> nat \<Rightarrow> string" where
  "pad_zero w n = replicate (w - length (show_nat n)) (CHR 0x30) @ show_nat n"

type_synonym calendar = "int \<Rightarrow> (int \<times> nat \<times> nat \<times> nat \<times> nat \<times> nat) option"

text \<open>
  \<open>from_unix_timestamp\<close> with \<open>to_calendar_date\<close> and \<open>as_hms\<close> of the \<open>time\<close> crate is the parameter \<open>cal\<close>;
  the width of a negative year includes its sign.
\<close>

definition iso8601_utc :: "calendar \<Rightarrow> int \<Rightarrow> task_err + string" where
  "iso8601_utc cal secs =
     rbind (ok_or Time (cal secs)) (\<lambda>(year, month, day, hh, mm, ss).
       Inr ((if year < 0 then ''-'' @ pad_zero 3 (nat (- year)) else pad_zero 4 (nat year))
         @ ''-'' @ pad_zero 2 month @ ''-'' @ pad_zero 2 day @ ''T'' @ pad_zero 2 hh @ '':'' @ pad_zero 2 mm
         @ '':'' @ pad_zero 2 ss @ ''Z''))"

definition iso_opt :: "calendar \<Rightarrow> int option \<Rightarrow> task_err + string option" where
  "iso_opt cal secs =
     (case secs of None \<Rightarrow> Inr None | Some s \<Rightarrow> rbind (iso8601_utc cal s) (\<lambda>x. Inr (Some x)))"

record association_export =
  ax_inbox_id_start :: "int option"
  ax_inbox_id_end :: "int option"
  ax_room_id :: "string option"
  ax_room_seq_start :: "int option"
  ax_room_seq_end :: "int option"

record event_export =
  ee_id :: int
  ee_kind :: string
  ee_name :: string
  ee_actor :: "string option"
  ee_assignee :: "string option"
  ee_from_status :: "string option"
  ee_to_status :: "string option"
  ee_payload :: "json option"
  ee_created_at :: "string option"

record task_export =
  ex_id :: int
  ex_title :: string
  ex_status :: string
  ex_creator :: "string option"
  ex_assignee :: "string option"
  ex_seats :: "string list"
  ex_created_at :: "string option"
  ex_updated_at :: "string option"
  ex_started_at :: "string option"
  ex_ended_at :: "string option"
  ex_waiting :: bool
  ex_waiting_since :: "string option"
  ex_archived :: bool
  ex_archived_at :: "string option"
  ex_closed_reason :: "string option"
  ex_close_summary :: "string option"
  ex_association :: "association_export option"
  ex_dossier_path :: "string option"
  ex_archive_hash :: "string option"
  ex_events :: "event_export list"

definition export_event :: "json_codec \<Rightarrow> calendar \<Rightarrow> task_event \<Rightarrow> task_err + event_export" where
  "export_event js cal e =
     rbind (case e_payload e of
              None \<Rightarrow> Inr None
            | Some p \<Rightarrow> rbind (ok_or Json (from_text js p)) (\<lambda>v. Inr (Some v))) (\<lambda>payload.
     rbind (iso_opt cal (Some (e_created_at e))) (\<lambda>created.
     Inr \<lparr>ee_id = e_id e, ee_kind = e_kind e, ee_name = e_name e, ee_actor = e_actor e,
          ee_assignee = e_assignee e, ee_from_status = e_from_status e, ee_to_status = e_to_status e,
          ee_payload = payload, ee_created_at = created\<rparr>))"

fun try_map :: "('a \<Rightarrow> 'e + 'b) \<Rightarrow> 'a list \<Rightarrow> 'e + 'b list" where
  "try_map f [] = Inr []"
| "try_map f (x # xs) = rbind (f x) (\<lambda>y. rbind (try_map f xs) (\<lambda>ys. Inr (y # ys)))"

definition to_export :: "json_codec \<Rightarrow> calendar \<Rightarrow> task \<Rightarrow> task_event list \<Rightarrow> task_err + task_export" where
  "to_export js cal t es =
     rbind (ok_or Json (seats_from_str js (t_seats t))) (\<lambda>seats.
     let association =
           (if t_inbox_id_start t \<noteq> None \<or> t_inbox_id_end t \<noteq> None \<or> t_room_id t \<noteq> None
            then Some \<lparr>ax_inbox_id_start = t_inbox_id_start t, ax_inbox_id_end = t_inbox_id_end t,
                   ax_room_id = t_room_id t, ax_room_seq_start = t_room_seq_start t,
                   ax_room_seq_end = t_room_seq_end t\<rparr>
            else None) in
     rbind (try_map (export_event js cal) es) (\<lambda>events.
     rbind (iso_opt cal (Some (t_created_at t))) (\<lambda>created.
     rbind (iso_opt cal (Some (t_updated_at t))) (\<lambda>updated.
     rbind (iso_opt cal (t_started_at t)) (\<lambda>started.
     rbind (iso_opt cal (t_ended_at t)) (\<lambda>ended.
     rbind (iso_opt cal (t_waiting_since t)) (\<lambda>waiting_since.
     rbind (iso_opt cal (t_archived_at t)) (\<lambda>archived_at.
     Inr \<lparr>ex_id = t_id t, ex_title = t_title t, ex_status = t_status t, ex_creator = t_creator t,
          ex_assignee = t_assignee t, ex_seats = seats, ex_created_at = created, ex_updated_at = updated,
          ex_started_at = started, ex_ended_at = ended, ex_waiting = (t_waiting t \<noteq> 0),
          ex_waiting_since = waiting_since, ex_archived = (t_archived t \<noteq> 0), ex_archived_at = archived_at,
          ex_closed_reason = t_closed_reason t, ex_close_summary = t_close_summary t,
          ex_association = association, ex_dossier_path = t_dossier_path t,
          ex_archive_hash = t_archive_hash t, ex_events = events\<rparr>))))))))"

definition export :: "json_codec \<Rightarrow> calendar \<Rightarrow> txn_fault option \<Rightarrow> int \<Rightarrow> task_db \<Rightarrow> task_err + task_export" where
  "export js cal fault i = read_txn fault (\<lambda>db. rbind (get_in_tx i db) (\<lambda>(t, es). to_export js cal t es))"

fun group_by_task :: "task_event list \<Rightarrow> (int, task_event list) btree_map \<Rightarrow> (int, task_event list) btree_map" where
  "group_by_task [] m = m"
| "group_by_task (e # es) m =
     group_by_task es (bt_insert (e_task_id e)
       ((case map_of m (e_task_id e) of None \<Rightarrow> [] | Some trail \<Rightarrow> trail) @ [e]) m)"

fun export_rows ::
  "json_codec \<Rightarrow> calendar \<Rightarrow> task list \<Rightarrow> (int, task_event list) btree_map \<Rightarrow> task_err + task_export list" where
  "export_rows js cal [] m = Inr []"
| "export_rows js cal (t # ts) m =
     rbind (to_export js cal t (case map_of m (t_id t) of None \<Rightarrow> [] | Some trail \<Rightarrow> trail)) (\<lambda>x.
     rbind (export_rows js cal ts (AList.delete (t_id t) m)) (\<lambda>xs. Inr (x # xs)))"

definition export_all :: "json_codec \<Rightarrow> calendar \<Rightarrow> txn_fault option \<Rightarrow> task_db \<Rightarrow> task_err + task_export list" where
  "export_all js cal fault = read_txn fault (\<lambda>db.
     export_rows js cal (sort_key t_id (db_tasks db)) (group_by_task (sort_key e_id (db_events db)) []))"

end
