(* ===== verification/Task_Laws.thy ===== *)
theory Task_Laws
  imports Task_Ledger
begin

text \<open>
  Correctness of the task ledger: the event trail derives the flat table, the serial gate can only be
  passed with a recorded escape, a close without force is a reviewed close, the trail is append-only,
  the busy retries are bounded and atomic, and the one-pass export agrees with the per-task one.

  Every verb except \<open>create\<close> changes one row and appends events for it; \<open>changes\<close> is that shape
  together with what the invariants need of it, proved once per verb, and the invariants are proved
  once from it.
\<close>

section \<open>Specification\<close>

definition legal_move :: "string \<Rightarrow> string \<Rightarrow> string \<Rightarrow> bool" where
  "legal_move name from to \<longleftrightarrow>
     list_ex (\<lambda>t. name = transition_name t \<and> from \<in> set (map task_status_as_str (legal_from t)) \<and> to = to_str t)
       [TrStart, TrReview, TrClose, TrReopen]"

text \<open>Replaying a trail: the status a task has after its events, or none if the trail is not a legal history.\<close>

definition replay_event :: "string option \<Rightarrow> task_event \<Rightarrow> string option" where
  "replay_event st e =
     (if e_kind e = ''transition''
      then (case (st, e_from_status e, e_to_status e) of
              (Some s, Some f, Some t) \<Rightarrow> if s = f \<and> legal_move (e_name e) f t then Some t else None
            | _ \<Rightarrow> None)
      else if e_name e = ''create'' then (if st = None then Some ''queued'' else None)
      else st)"

definition replay :: "string option \<Rightarrow> task_event list \<Rightarrow> string option" where
  "replay st es = foldl replay_event st es"

definition serial_escape :: "task_event \<Rightarrow> bool" where
  "serial_escape e \<longleftrightarrow> e_kind e = ''action'' \<and> (e_name e = ''force_start'' \<or> e_name e = ''force_reopen'')"

definition trail :: "task_db \<Rightarrow> int \<Rightarrow> task_event list" where
  "trail db i = filter (\<lambda>e. e_task_id e = i) (db_events db)"

definition tables_ok :: "task_db \<Rightarrow> bool" where
  "tables_ok db \<longleftrightarrow>
     sorted_wrt (<) (map t_id (db_tasks db)) \<and> (\<forall>r \<in> set (db_tasks db). t_id r \<le> db_task_seq db) \<and>
     sorted_wrt (<) (map e_id (db_events db)) \<and> (\<forall>e \<in> set (db_events db). 0 < e_id e \<and> e_id e \<le> db_event_seq db) \<and>
     0 \<le> db_event_seq db \<and>
     (\<forall>e \<in> set (db_events db). e_task_id e \<in> t_id ` set (db_tasks db))"

definition derives_ok :: "task_db \<Rightarrow> bool" where
  "derives_ok db \<longleftrightarrow> (\<forall>r \<in> set (db_tasks db). replay None (trail db (t_id r)) = Some (t_status r))"

definition serial_ok :: "task_db \<Rightarrow> bool" where
  "serial_ok db \<longleftrightarrow>
     (\<forall>r \<in> set (db_tasks db). \<forall>r' \<in> set (db_tasks db). \<forall>a.
        t_id r \<noteq> t_id r' \<and> t_status r = ''in_progress'' \<and> t_status r' = ''in_progress'' \<and>
        t_assignee r = Some a \<and> t_assignee r' = Some a \<longrightarrow>
        (\<exists>e \<in> set (db_events db). serial_escape e \<and> e_assignee e = Some a \<and>
           (e_task_id e = t_id r \<or> e_task_id e = t_id r')))"

definition dispatch_text :: "json_codec \<Rightarrow> string list \<Rightarrow> string" where
  "dispatch_text js seats = to_text js (JObj [(''seats'', seats_json seats)])"

definition texts_ok :: "json_codec \<Rightarrow> task_db \<Rightarrow> bool" where
  "texts_ok js db \<longleftrightarrow>
     (\<forall>r \<in> set (db_tasks db). \<exists>seats. t_seats r = to_text js (seats_json seats)) \<and>
     (\<forall>e \<in> set (db_events db). e_kind e = ''action'' \<and> e_name e = ''dispatch'' \<longrightarrow>
        (\<exists>seats. e_payload e = Some (dispatch_text js seats)))"

definition ledger_ok :: "json_codec \<Rightarrow> task_db \<Rightarrow> bool" where
  "ledger_ok js db \<longleftrightarrow> tables_ok db \<and> derives_ok db \<and> serial_ok db \<and> texts_ok js db"

text \<open>What the code relies on from the JSON library: it reads back the two roster shapes it wrote.\<close>

definition reads_back :: "json_codec \<Rightarrow> bool" where
  "reads_back js \<longleftrightarrow>
     (\<forall>seats. from_text js (to_text js (seats_json seats)) = Some (seats_json seats) \<and>
        from_text js (dispatch_text js seats) = Some (JObj [(''seats'', seats_json seats)]))"

section \<open>The shape of a change\<close>

fun numbered :: "int \<Rightarrow> task_event list \<Rightarrow> task_event list" where
  "numbered n [] = []"
| "numbered n (e # es) = e\<lparr>e_id := n + 1\<rparr> # numbered (n + 1) es"

definition effect :: "int \<Rightarrow> (task \<Rightarrow> task) \<Rightarrow> task_event list \<Rightarrow> task_db \<Rightarrow> task_db" where
  "effect i f rows db = fold insert_event rows (update_task i f db)"

lemma fold_insert_event:
  "db_tasks (fold insert_event rows db) = db_tasks db"
  "db_task_seq (fold insert_event rows db) = db_task_seq db"
  "db_events (fold insert_event rows db) = db_events db @ numbered (db_event_seq db) rows"
  "db_event_seq (fold insert_event rows db) = db_event_seq db + int (length rows)"
  by (induction rows arbitrary: db) (auto simp: insert_event_def Let_def)

lemma effect_simps [simp]:
  "db_tasks (effect i f rows db) = map (\<lambda>r. if t_id r = i then f r else r) (db_tasks db)"
  "db_task_seq (effect i f rows db) = db_task_seq db"
  "db_events (effect i f rows db) = db_events db @ numbered (db_event_seq db) rows"
  "db_event_seq (effect i f rows db) = db_event_seq db + int (length rows)"
  by (simp_all add: effect_def fold_insert_event update_task_def)

lemma update_insert_swap: "update_task i f (insert_event e db) = insert_event e (update_task i f db)"
  by (simp add: update_task_def insert_event_def Let_def)

lemma insert_event_effect: "insert_event e (effect i f rows db) = effect i f (rows @ [e]) db"
  by (simp add: effect_def)

lemma update_fold_swap: "update_task i f (fold insert_event rows db) = fold insert_event rows (update_task i f db)"
  by (induction rows arbitrary: db) (simp_all add: update_insert_swap)

lemma effect_empty: "db = effect i (\<lambda>r. r) [] db"
  by (simp add: effect_def update_task_def)

lemma update_task_effect:
  assumes "\<And>r. t_id (f r) = t_id r"
  shows "update_task i g (effect i f rows db) = effect i (g \<circ> f) rows db"
proof -
  have "update_task i g (update_task i f db) = update_task i (g \<circ> f) db"
    using assms by (simp add: update_task_def)
  then show ?thesis by (simp add: effect_def update_fold_swap)
qed

lemma set_numbered:
  "e \<in> set (numbered n rows) \<Longrightarrow> \<exists>r \<in> set rows. \<exists>k. e = r\<lparr>e_id := k\<rparr> \<and> n < k \<and> k \<le> n + int (length rows)"
  by (induction n rows rule: numbered.induct) fastforce+

lemma numbered_row: "r \<in> set rows \<Longrightarrow> \<exists>k. r\<lparr>e_id := k\<rparr> \<in> set (numbered n rows)"
  by (induction n rows rule: numbered.induct) auto

lemma sorted_numbered: "sorted_wrt (<) (map e_id (numbered n rows)) \<and> (\<forall>e \<in> set (numbered n rows). n < e_id e)"
  by (induction n rows rule: numbered.induct) (auto dest: set_numbered)

lemma replay_event_id [simp]: "replay_event st (e\<lparr>e_id := k\<rparr>) = replay_event st e"
  by (simp add: replay_event_def split: option.split)

lemma replay_numbered [simp]: "replay st (numbered n rows) = replay st rows"
  unfolding replay_def by (induction n rows arbitrary: st rule: numbered.induct) simp_all

lemma replay_append: "replay st (es @ es') = replay (replay st es) es'"
  by (simp add: replay_def)

definition change :: "json_codec \<Rightarrow> task_db \<Rightarrow> task \<Rightarrow> (task \<Rightarrow> task) \<Rightarrow> task_event list \<Rightarrow> bool" where
  "change js db row f rows \<longleftrightarrow>
     (\<forall>r. t_id (f r) = t_id r \<and> t_seats (f r) = t_seats r) \<and>
     rows \<noteq> [] \<and> (\<forall>e \<in> set rows. e_task_id e = t_id row) \<and>
     replay (Some (t_status row)) rows = Some (t_status (f row)) \<and>
     (\<forall>a. t_status (f row) = ''in_progress'' \<and> t_assignee (f row) = Some a \<longrightarrow>
        t_status row = ''in_progress'' \<and> t_assignee row = Some a \<or>
        serial_gate_blocked db a (t_id row) = None \<or>
        (\<exists>e \<in> set rows. serial_escape e \<and> e_assignee e = Some a)) \<and>
     (\<forall>e \<in> set rows. e_kind e = ''action'' \<and> e_name e = ''dispatch'' \<longrightarrow>
        (\<exists>seats. e_payload e = Some (dispatch_text js seats)))"

definition changes :: "json_codec \<Rightarrow> int \<Rightarrow> task_db \<Rightarrow> task_db \<Rightarrow> bool" where
  "changes js i db db' \<longleftrightarrow>
     (\<exists>row f rows. load db i = Inr row \<and> change js db row f rows \<and> db' = effect i f rows db)"

lemma changesI: "load db i = Inr row \<Longrightarrow> change js db row f rows \<Longrightarrow> changes js i db (effect i f rows db)"
  by (auto simp: changes_def)

lemma load_Inr: "load db i = Inr r \<Longrightarrow> r \<in> set (db_tasks db) \<and> t_id r = i"
  unfolding load_def by (auto simp: find_Some_iff)

lemma load_iff:
  assumes "sorted_wrt (<) (map t_id (db_tasks db))"
  shows "load db i = Inr r \<longleftrightarrow> r \<in> set (db_tasks db) \<and> t_id r = i"
proof
  assume r: "r \<in> set (db_tasks db) \<and> t_id r = i"
  then have "List.find (\<lambda>r. t_id r = i) (db_tasks db) \<noteq> None" by (auto simp: find_None_iff)
  then obtain r' where r': "load db i = Inr r'" by (auto simp: load_def)
  have "inj_on t_id (set (db_tasks db))"
    using assms by (simp add: strict_sorted_iff distinct_map)
  with r load_Inr [OF r'] have "r = r'" by (metis inj_onD)
  with r' show "load db i = Inr r" by simp
qed (rule load_Inr)

lemma reload_Inr: "reload i db = Inr (t, db') \<longleftrightarrow> db' = db \<and> load db i = Inr t"
  by (auto simp: reload_def rbind_Inr_iff)

lemma parse_status_Inr: "parse_status row = Inr st \<longleftrightarrow> t_status row = task_status_as_str st"
  by (cases st) (auto simp: parse_status_def task_status_parse_def)

lemma check_transition_Inr: "check_transition t st i = Inr u \<longleftrightarrow> st \<in> set (legal_from t)"
  by (simp add: check_transition_def)

lemmas tx_simps = rbind_Inr_iff reload_Inr parse_status_Inr check_transition_Inr append_event_tx_def Let_def

section \<open>Every verb is a change\<close>

lemma replay_simps [simp]:
  "replay st [] = st"
  "replay st (e # es) = replay (replay_event st e) es"
  by (simp_all add: replay_def)

lemma replay_action [simp]:
  "name \<noteq> ''create'' \<Longrightarrow> replay_event st (event_row i ''action'' name ac asg fs ts p c) = st"
  by (simp add: replay_event_def event_row_def)

lemma replay_transition [simp]:
  "replay_event (Some s) (event_row i ''transition'' name ac asg (Some f) (Some t) p c)
     = (if s = f \<and> legal_move name f t then Some t else None)"
  by (simp add: replay_event_def event_row_def)

lemma event_row_simps [simp]:
  "e_task_id (event_row i kind name ac asg fs ts p c) = i"
  "e_kind (event_row i kind name ac asg fs ts p c) = kind"
  "e_name (event_row i kind name ac asg fs ts p c) = name"
  "e_assignee (event_row i kind name ac asg fs ts p c) = asg"
  "e_actor (event_row i kind name ac asg fs ts p c) = ac"
  "e_payload (event_row i kind name ac asg fs ts p c) = p"
  by (simp_all add: event_row_def)

lemma escape_row [simp]:
  "serial_escape (event_row i kind name ac asg fs ts p c) \<longleftrightarrow>
     kind = ''action'' \<and> (name = ''force_start'' \<or> name = ''force_reopen'')"
  by (simp add: serial_escape_def)

lemma legal_moves [simp]:
  "legal_move ''start'' ''queued'' ''in_progress''" "legal_move ''review'' ''in_progress'' ''review''"
  "legal_move ''close'' ''in_progress'' ''closed''" "legal_move ''close'' ''review'' ''closed''"
  "legal_move ''reopen'' ''closed'' ''in_progress''"
  by (simp_all add: legal_move_def)

text \<open>An action event alone is a change, whatever it records (a dispatch with its roster).\<close>

lemma action_change:
  assumes "load db i = Inr row" "name \<noteq> ''create''"
    "name = ''dispatch'' \<Longrightarrow> \<exists>seats. p = Some (dispatch_text js seats)"
  shows "changes js i db (insert_event (event_row (t_id row) ''action'' name ac asg None None p c) db)"
proof -
  let ?e = "event_row (t_id row) ''action'' name ac asg None None p c"
  have "changes js i db (effect i (\<lambda>r. r) [?e] db)"
    by (rule changesI [OF assms(1)]) (use assms(2,3) in \<open>auto simp: change_def\<close>)
  then show ?thesis by (metis append_Nil effect_empty insert_event_effect)
qed

lemma start_changes:
  assumes "start_tx js clk i actor force db = Inr (t, db')"
  shows "changes js i db db'"
proof -
  obtain row where row: "load db i = Inr row" and q: "t_status row = ''queued''"
    using assms by (auto simp: start_tx_def tx_simps)
  define a where "a = (case t_assignee row of Some a \<Rightarrow> a | None \<Rightarrow> actor)"
  define f :: "task \<Rightarrow> task" where "f = (\<lambda>r. r\<lparr>t_status := ''in_progress'', t_assignee := Some a,
     t_started_at := (case t_started_at row of None \<Rightarrow> Some (clk 1) | Some s \<Rightarrow> Some s), t_updated_at := clk 2\<rparr>)"
  let ?e = "event_row (t_id row) ''transition'' ''start'' (Some actor) (Some a) (Some ''queued'') (Some ''in_progress'') None (clk 3)"
  have id: "t_id row = i" using load_Inr [OF row] by simp
  show ?thesis
  proof (cases "serial_gate_blocked db a i")
    case None
    then have "db' = effect i f [?e] db"
      using assms row q id by (auto simp: start_tx_def tx_simps a_def f_def effect_def)
    moreover have "change js db row f [?e]"
      using q id None by (auto simp: change_def f_def)
    ultimately show ?thesis using changesI [OF row] by simp
  next
    case (Some b)
    obtain x where "db' = effect i f [event_row (t_id row) ''action'' ''force_start'' (Some actor) (Some a) None None x (clk 0), ?e] db"
      using assms row q id Some
      by (cases b) (auto simp: start_tx_def tx_simps a_def f_def effect_def update_insert_swap split: if_splits)
    moreover have "change js db row f [event_row (t_id row) ''action'' ''force_start'' (Some actor) (Some a) None None x (clk 0), ?e]"
      using q id by (auto simp: change_def f_def)
    ultimately show ?thesis using changesI [OF row] by simp
  qed
qed

lemma checkpoint_review_effect:
  assumes "checkpoint_review_tx clk opr row st db = Inr db1" "t_id row = i" "t_status row = task_status_as_str st"
  obtains f rows where "db1 = effect i f rows db" "\<And>r. t_id (f r) = t_id r" "\<And>r. t_seats (f r) = t_seats r"
    "t_assignee (f row) = t_assignee row" "replay (Some (t_status row)) rows = Some (t_status (f row))"
    "\<And>e. e \<in> set rows \<Longrightarrow> e_task_id e = i \<and> e_kind e = ''transition''"
    "rows = [] \<longleftrightarrow> \<not> ck_review opr" "t_status (f row) = ''in_progress'' \<Longrightarrow> t_status row = ''in_progress''"
proof (cases "ck_review opr")
  case False
  then show thesis
    using assms by (intro that [of "\<lambda>r. r" "[]"]) (auto simp: checkpoint_review_tx_def effect_empty [symmetric])
next
  case True
  let ?f = "\<lambda>r. r\<lparr>t_status := ''review'', t_updated_at := clk 0\<rparr> :: task"
  let ?e = "event_row i ''transition'' ''review'' (Some (ck_actor opr)) (t_assignee row) (Some ''in_progress'') (Some ''review'') None (clk 1)"
  have "st = InProgress" "db1 = effect i ?f [?e] db"
    using assms True by (auto simp: checkpoint_review_tx_def append_event_tx_def effect_def split: if_splits)
  with True assms(3) show thesis by (intro that [of ?f "[?e]"]) auto
qed

lemma checkpoint_waiting_effect:
  assumes "t_id row = i" "\<And>r. t_id (f r) = t_id r"
  obtains g rows' where "checkpoint_waiting_tx clk opr row (effect i f rows db) = effect i (g \<circ> f) (rows @ rows') db"
    "\<And>r. t_id (g r) = t_id r \<and> t_seats (g r) = t_seats r \<and> t_status (g r) = t_status r \<and> t_assignee (g r) = t_assignee r"
    "\<And>e. e \<in> set rows' \<Longrightarrow> e_task_id e = i \<and> e_name e \<noteq> ''dispatch''"
    "\<And>st. replay st rows' = st" "rows' = [] \<longleftrightarrow> ck_waiting opr = None"
proof (cases "ck_waiting opr")
  case None
  then show thesis by (intro that [of "\<lambda>r. r" "[]"]) (simp_all add: checkpoint_waiting_tx_def comp_def)
next
  case (Some w)
  let ?g = "\<lambda>r. r\<lparr>t_waiting := (if w then 1 else 0), t_waiting_since := (if w then Some (clk 2) else None),
    t_updated_at := clk 3\<rparr> :: task"
  let ?e = "event_row i ''action'' (if w then ''waiting_set'' else ''waiting_clear'') (Some (ck_actor opr))
    (t_assignee row) None None None (clk 4)"
  have "checkpoint_waiting_tx clk opr row (effect i f rows db) = effect i (?g \<circ> f) (rows @ [?e]) db"
    using assms Some
    by (simp add: checkpoint_waiting_tx_def append_event_tx_def update_task_effect insert_event_effect)
  with Some show thesis by (intro that [of ?g "[?e]"]) simp_all
qed

lemma checkpoint_changes:
  assumes "checkpoint_tx js clk i opr db = Inr (t, db')"
  shows "changes js i db db'"
proof -
  obtain row st db1 where row: "load db i = Inr row" and st: "t_status row = task_status_as_str st"
    and db1: "checkpoint_review_tx clk opr row st db = Inr db1"
    using assms by (auto simp: checkpoint_tx_def tx_simps split: if_splits)
  have id: "t_id row = i" using load_Inr [OF row] by simp
  obtain f rows where f: "db1 = effect i f rows db" "\<And>r. t_id (f r) = t_id r" "\<And>r. t_seats (f r) = t_seats r"
    "t_assignee (f row) = t_assignee row" "replay (Some (t_status row)) rows = Some (t_status (f row))"
    "\<And>e. e \<in> set rows \<Longrightarrow> e_task_id e = i \<and> e_kind e = ''transition''"
    "rows = [] \<longleftrightarrow> \<not> ck_review opr" "t_status (f row) = ''in_progress'' \<Longrightarrow> t_status row = ''in_progress''"
    using checkpoint_review_effect [OF db1 id st] by metis
  obtain g rows' where g: "checkpoint_waiting_tx clk opr row db1 = effect i (g \<circ> f) (rows @ rows') db"
    "\<And>r. t_id (g r) = t_id r \<and> t_seats (g r) = t_seats r \<and> t_status (g r) = t_status r \<and> t_assignee (g r) = t_assignee r"
    "\<And>e. e \<in> set rows' \<Longrightarrow> e_task_id e = i \<and> e_name e \<noteq> ''dispatch''"
    "\<And>st. replay st rows' = st" "rows' = [] \<longleftrightarrow> ck_waiting opr = None"
    using checkpoint_waiting_effect [OF id f(2), of clk opr rows db] unfolding f(1) by metis
  define logged where "logged =
    (if ck_receipt opr then [event_row i ''action'' ''receipt'' (Some (ck_actor opr)) (t_assignee row)
        None None (note_payload js (ck_note opr)) (clk 5)]
     else if ck_note opr \<noteq> None \<or> (\<not> ck_review opr \<and> ck_waiting opr = None)
     then [event_row i ''action'' ''checkpoint'' (Some (ck_actor opr)) (t_assignee row)
        None None (note_payload js (ck_note opr)) (clk 6)] else [])"
  have "db' = effect i (g \<circ> f) (rows @ rows' @ logged) db"
  proof -
    have "reload i (fold insert_event logged (checkpoint_waiting_tx clk opr row db1)) = Inr (t, db')"
      using assms unfolding checkpoint_tx_def row rbind_simps parse_status_Inr [THEN iffD2, OF st] db1
      by (cases "ck_receipt opr"; cases "ck_note opr \<noteq> None \<or> (\<not> ck_review opr \<and> ck_waiting opr = None)")
        (auto simp: logged_def append_event_tx_def id Let_def split: if_splits)
    then show ?thesis unfolding g(1) by (simp add: reload_Inr effect_def)
  qed
  moreover have "change js db row (g \<circ> f) (rows @ rows' @ logged)"
  proof -
    have "rows @ rows' @ logged \<noteq> []" using f(7) g(5) by (auto simp: logged_def)
    moreover have "replay (Some (t_status row)) (rows @ rows' @ logged) = Some (t_status ((g \<circ> f) row))"
      using f(5) g(2,4) by (simp add: replay_append logged_def)
    moreover have "e_task_id e = i \<and> \<not> (e_kind e = ''action'' \<and> e_name e = ''dispatch'')"
      if "e \<in> set (rows @ rows' @ logged)" for e
      using that f(6) g(3) by (auto simp: logged_def split: if_splits)
    ultimately show ?thesis using f(2-4,8) g(2) id unfolding change_def by (simp add: comp_def) blast
  qed
  ultimately show ?thesis using changesI [OF row] by simp
qed

lemma close_changes:
  assumes "close_tx js clk i actor reason summary force hash db = Inr (t, db')"
  shows "changes js i db db'"
proof -
  obtain row st seats where row: "load db i = Inr row" and st: "t_status row = task_status_as_str st"
    and st_from: "st \<in> {InProgress, Review}" and seats: "seats_from_str js (t_seats row) = Some seats"
    using assms by (auto simp: close_tx_def tx_simps)
  have id: "t_id row = i" using load_Inr [OF row] by simp
  define f :: "task \<Rightarrow> task" where "f = (\<lambda>r. r\<lparr>t_status := ''closed'', t_ended_at := Some (clk 1), t_updated_at := clk 2,
    t_closed_reason := Some (closed_reason_as_str reason), t_close_summary := summary, t_archive_hash := hash,
    t_waiting := 0, t_waiting_since := None\<rparr>)"
  obtain rows p where rows: "db' = effect i f (rows @ [event_row i ''transition'' ''close'' (Some actor) (t_assignee row)
        (Some (t_status row)) (Some ''closed'') p (clk 3)]) db"
    and esc: "rows = [] \<or> (\<exists>x. rows = [event_row i ''action'' ''force_close'' (Some actor) (t_assignee row) None None x (clk 0)])"
  proof (cases force)
    case False
    then show thesis
      using assms row st seats id
      by (intro that [of "[]"]) (auto simp: close_tx_def tx_simps f_def effect_def)
  next
    case True
    let ?esc = "if dispatch_in_current_cycle db i then [''receipts''] else [''dispatch'', ''receipts'']"
    let ?x = "Some (to_text js (JObj [(''gates'', JArr (map JStr ?esc)), (''registered_seats'', seats_json seats)]))"
    from True show thesis
      using assms row st seats id
      by (intro that [of "[event_row i ''action'' ''force_close'' (Some actor) (t_assignee row) None None ?x (clk 0)]"])
        (auto simp: close_tx_def tx_simps f_def effect_def update_insert_swap)
  qed
  have "change js db row f (rows @ [event_row i ''transition'' ''close'' (Some actor) (t_assignee row)
        (Some (t_status row)) (Some ''closed'') p (clk 3)])"
    using esc st st_from id by (auto simp: change_def f_def)
  then show ?thesis using changesI [OF row] rows by simp
qed

lemma reopen_changes:
  assumes "reopen_tx js clk i actor force db = Inr (t, db')"
  shows "changes js i db db'"
proof -
  obtain row where row: "load db i = Inr row" and c: "t_status row = ''closed''"
    using assms by (auto simp: reopen_tx_def tx_simps)
  have id: "t_id row = i" using load_Inr [OF row] by simp
  define f :: "task \<Rightarrow> task" where "f = (\<lambda>r. r\<lparr>t_status := ''in_progress'', t_ended_at := None, t_updated_at := clk 1,
    t_closed_reason := None, t_close_summary := None, t_waiting := 0, t_waiting_since := None\<rparr>)"
  let ?e = "event_row i ''transition'' ''reopen'' (Some actor) (t_assignee row) (Some ''closed'') (Some ''in_progress'') None (clk 2)"
  show ?thesis
  proof (cases "Option.bind (t_assignee row) (\<lambda>a. serial_gate_blocked db a i)")
    case None
    then have "db' = effect i f [?e] db"
      using assms row c id by (cases "t_assignee row") (auto simp: reopen_tx_def tx_simps f_def effect_def)
    moreover have "change js db row f [?e]"
      using c id None by (auto simp: change_def f_def)
    ultimately show ?thesis using changesI [OF row] by simp
  next
    case (Some b)
    obtain x where "db' = effect i f [event_row i ''action'' ''force_reopen'' (Some actor) (t_assignee row) None None x (clk 0), ?e] db"
      using assms row c id Some
      by (cases b; cases "t_assignee row")
        (auto simp: reopen_tx_def tx_simps f_def effect_def update_insert_swap split: if_splits)
    moreover have "change js db row f [event_row i ''action'' ''force_reopen'' (Some actor) (t_assignee row) None None x (clk 0), ?e]"
      using c id by (auto simp: change_def f_def)
    ultimately show ?thesis using changesI [OF row] by simp
  qed
qed

lemma annotate_changes: "annotate_tx js clk i actor note db = Inr (t, db') \<Longrightarrow> changes js i db db'"
  by (auto simp: annotate_tx_def tx_simps intro!: action_change)

lemma gate_report_changes: "gate_report_tx js clk i actor note db = Inr (t, db') \<Longrightarrow> changes js i db db'"
  by (auto simp: gate_report_tx_def tx_simps intro!: action_change)

lemma dispatch_changes: "dispatch_tx js clk i actor seats db = Inr (t, db') \<Longrightarrow> changes js i db db'"
  by (auto simp: dispatch_tx_def tx_simps dispatch_text_def intro!: action_change split: if_splits)

lemma chain_op_changes: "chain_op_tx js clk i actor opr detail force db = Inr (t, db') \<Longrightarrow> changes js i db db'"
  by (auto simp: chain_op_tx_def tx_simps intro!: action_change split: if_splits)

lemma archive_changes:
  assumes "archive_task_tx js clk i actor force db = Inr (t, db')"
  shows "changes js i db db'"
proof -
  let ?f = "\<lambda>r. r\<lparr>t_archived := 1, t_archived_at := Some (clk 0), t_updated_at := clk 1\<rparr> :: task"
  obtain row p where row: "load db i = Inr row"
    and db': "db' = insert_event (event_row (t_id row) ''action'' ''archive'' (Some actor) (t_assignee row) None None p (clk 2))
      (update_task (t_id row) ?f db)"
    using assms by (auto simp: archive_task_tx_def tx_simps split: if_splits)
  let ?e = "event_row i ''action'' ''archive'' (Some actor) (t_assignee row) None None p (clk 2)"
  have id: "t_id row = i" using load_Inr [OF row] by simp
  have "change js db row ?f [?e]" using id by (auto simp: change_def)
  moreover have "db' = effect i ?f [?e] db" by (simp add: db' effect_def id)
  ultimately show ?thesis using changesI [OF row] by simp
qed

section \<open>Steps of the ledger and the invariant\<close>

inductive ledger_step :: "json_codec \<Rightarrow> task_db \<Rightarrow> task_db \<Rightarrow> bool" for js where
  ls_create: "validate_association req = Inr () \<Longrightarrow>
     create_tx (to_text js (seats_json (cr_seats req))) now req db = Inr (t, db') \<Longrightarrow> ledger_step js db db'"
| ls_start: "start_tx js clk i actor force db = Inr (t, db') \<Longrightarrow> ledger_step js db db'"
| ls_checkpoint: "checkpoint_tx js clk i opr db = Inr (t, db') \<Longrightarrow> ledger_step js db db'"
| ls_close: "close_tx js clk i actor reason summary force hash db = Inr (t, db') \<Longrightarrow> ledger_step js db db'"
| ls_reopen: "reopen_tx js clk i actor force db = Inr (t, db') \<Longrightarrow> ledger_step js db db'"
| ls_annotate: "annotate_tx js clk i actor note db = Inr (t, db') \<Longrightarrow> ledger_step js db db'"
| ls_gate_report: "gate_report_tx js clk i actor note db = Inr (t, db') \<Longrightarrow> ledger_step js db db'"
| ls_dispatch: "dispatch_tx js clk i actor seats db = Inr (t, db') \<Longrightarrow> ledger_step js db db'"
| ls_chain_op: "chain_op_tx js clk i actor cop detail force db = Inr (t, db') \<Longrightarrow> ledger_step js db db'"
| ls_archive: "archive_task_tx js clk i actor force db = Inr (t, db') \<Longrightarrow> ledger_step js db db'"

lemmas verb_changes = start_changes checkpoint_changes close_changes reopen_changes annotate_changes
  gate_report_changes dispatch_changes chain_op_changes archive_changes

lemma ledger_step_cases:
  assumes "ledger_step js db db'"
  obtains (created) req now t where "create_tx (to_text js (seats_json (cr_seats req))) now req db = Inr (t, db')"
  | (changed) i where "changes js i db db'"
  using assms by (cases rule: ledger_step.cases) (blast intro: verb_changes)+

lemma change_id: "change js db row f rows \<Longrightarrow> t_id (f r) = t_id r"
  by (simp add: change_def)

lemma ids_effect:
  "change js db row f rows \<Longrightarrow> map t_id (map (\<lambda>r. if t_id r = i then f r else r) ts) = map t_id ts"
  by (induction ts) (auto simp: change_id)

lemma loaded_row:
  assumes "tables_ok db" "load db i = Inr row" "r \<in> set (db_tasks db)" "t_id r = i"
  shows "r = row"
proof -
  have "load db i = Inr r" using load_iff [of db i r] assms(1,3,4) by (simp add: tables_ok_def)
  with assms(2) show ?thesis by simp
qed

lemma tables_effect:
  assumes "tables_ok db" "load db i = Inr row" "change js db row f rows"
  shows "tables_ok (effect i f rows db)"
proof -
  let ?n = "numbered (db_event_seq db) rows"
  have ids: "map t_id (db_tasks (effect i f rows db)) = map t_id (db_tasks db)"
    using ids_effect [OF assms(3)] by simp
  then have idset: "t_id ` set (db_tasks (effect i f rows db)) = t_id ` set (db_tasks db)"
    by (metis list.set_map)
  have new: "0 < e_id e \<and> db_event_seq db < e_id e \<and> e_id e \<le> db_event_seq db + int (length rows) \<and> e_task_id e \<in> t_id ` set (db_tasks db)"
    if "e \<in> set ?n" for e
    using set_numbered [OF that] assms(1,3) load_Inr [OF assms(2)] by (auto simp: change_def tables_ok_def)
  have "\<forall>r \<in> set (db_tasks (effect i f rows db)). t_id r \<le> db_task_seq db"
    using idset assms(1) by (auto simp: tables_ok_def change_id [OF assms(3)])
  moreover have "sorted_wrt (<) (map e_id (db_events db @ ?n))"
    using assms(1) sorted_numbered [of "db_event_seq db" rows] unfolding tables_ok_def
    by (fastforce simp: sorted_wrt_append)
  moreover have "\<forall>e \<in> set (db_events db @ ?n). 0 < e_id e \<and> e_id e \<le> db_event_seq db + int (length rows) \<and>
      e_task_id e \<in> t_id ` set (db_tasks db)"
    using assms(1) new by (auto simp: tables_ok_def)
  ultimately show ?thesis
    using assms(1) unfolding tables_ok_def ids idset effect_simps(2-4) by auto
qed

lemma trail_effect:
  assumes "change js db row f rows" "t_id row = i"
  shows "trail (effect i f rows db) j = trail db j @ (if j = i then numbered (db_event_seq db) rows else [])"
proof -
  have "e_task_id e = i" if "e \<in> set (numbered n rows)" for e n
    using set_numbered [OF that] assms by (auto simp: change_def)
  then have "filter (\<lambda>e. e_task_id e = j) (numbered n rows) = (if j = i then numbered n rows else [])" for n
    by (auto simp: filter_empty_conv filter_id_conv)
  then show ?thesis by (simp add: trail_def)
qed

lemma derives_effect:
  assumes "tables_ok db" "derives_ok db" "load db i = Inr row" "change js db row f rows"
  shows "derives_ok (effect i f rows db)"
  unfolding derives_ok_def
proof
  fix r' assume "r' \<in> set (db_tasks (effect i f rows db))"
  then obtain r where r: "r \<in> set (db_tasks db)" "r' = (if t_id r = i then f r else r)" by auto
  have "t_id r = i \<Longrightarrow> r = row" using loaded_row [OF assms(1,3) r(1)] by simp
  with r assms(2,4) load_Inr [OF assms(3)] show "replay None (trail (effect i f rows db) (t_id r')) = Some (t_status r')"
    by (auto simp: trail_effect [OF assms(4)] replay_append derives_ok_def change_def)
qed

lemma serial_effect:
  assumes "tables_ok db" "serial_ok db" "load db i = Inr row" "change js db row f rows"
  shows "serial_ok (effect i f rows db)"
proof -
  have row: "row \<in> set (db_tasks db)" "t_id row = i" using load_Inr [OF assms(3)] by auto
  have uniq: "r = row" if "r \<in> set (db_tasks db)" "t_id r = i" for r
    using loaded_row [OF assms(1,3) that] .
  let ?Ev = "\<lambda>a j k. \<exists>e \<in> set (db_events (effect i f rows db)). serial_escape e \<and> e_assignee e = Some a \<and>
      (e_task_id e = j \<or> e_task_id e = k)"
  have old: "?Ev a (t_id r) (t_id r')"
    if "r \<in> set (db_tasks db)" "r' \<in> set (db_tasks db)" "t_id r \<noteq> t_id r'" "t_status r = ''in_progress''"
      "t_status r' = ''in_progress''" "t_assignee r = Some a" "t_assignee r' = Some a" for r r' a
    using assms(2) that unfolding serial_ok_def by fastforce
  have new: "?Ev a i (t_id r)"
    if r: "r \<in> set (db_tasks db)" "t_id r \<noteq> i" "t_status r = ''in_progress''" "t_assignee r = Some a"
      and f: "t_status (f row) = ''in_progress''" "t_assignee (f row) = Some a" for r a
  proof -
    from assms(4) f consider "t_status row = ''in_progress''" "t_assignee row = Some a"
      | "serial_gate_blocked db a i = None" | e where "e \<in> set rows" "serial_escape e" "e_assignee e = Some a"
      by (auto simp: change_def row(2))
    then show ?thesis
    proof cases
      case 1
      then show ?thesis using old [OF row(1) r(1)] r row(2) by auto
    next
      case 2
      then show ?thesis using r by (auto simp: serial_gate_blocked_def find_None_iff)
    next
      case 3
      obtain k where k: "e\<lparr>e_id := k\<rparr> \<in> set (numbered (db_event_seq db) rows)" using numbered_row [OF 3(1)] by blast
      have "e_task_id e = i" using 3(1) assms(4) row(2) by (simp add: change_def)
      then show ?thesis using k 3(2,3) by (intro bexI [of _ "e\<lparr>e_id := k\<rparr>"]) (auto simp: serial_escape_def)
    qed
  qed
  show ?thesis
    unfolding serial_ok_def
  proof (intro ballI allI impI)
    fix r r' a
    assume s: "r \<in> set (db_tasks (effect i f rows db))" "r' \<in> set (db_tasks (effect i f rows db))"
      and p: "t_id r \<noteq> t_id r' \<and> t_status r = ''in_progress'' \<and> t_status r' = ''in_progress'' \<and>
        t_assignee r = Some a \<and> t_assignee r' = Some a"
    obtain q q' where q: "q \<in> set (db_tasks db)" "r = (if t_id q = i then f q else q)"
      "q' \<in> set (db_tasks db)" "r' = (if t_id q' = i then f q' else q')" using s by auto
    show "?Ev a (t_id r) (t_id r')"
    proof (cases "t_id q = i")
      case True
      then have "q = row" "t_id q' \<noteq> i" using q p uniq change_id [OF assms(4)] by (auto split: if_splits)
      with new [of q' a] q p True change_id [OF assms(4)] show ?thesis by auto
    next
      case False
      show ?thesis
      proof (cases "t_id q' = i")
        case True
        then have "q' = row" using q uniq by simp
        with new [of q a] q p True False change_id [OF assms(4)] have "?Ev a (t_id r') (t_id r)" by auto
        then show ?thesis by blast
      next
        case False
        with \<open>t_id q \<noteq> i\<close> q p show ?thesis using old [of q q' a] by simp
      qed
    qed
  qed
qed

lemma texts_effect:
  assumes "texts_ok js db" "change js db row f rows"
  shows "texts_ok js (effect i f rows db)"
  using assms by (auto simp: texts_ok_def change_def dest!: set_numbered)

lemma ledger_ok_changes:
  assumes "ledger_ok js db" "changes js i db db'"
  shows "ledger_ok js db'"
proof -
  obtain row f rows where c: "load db i = Inr row" "change js db row f rows" "db' = effect i f rows db"
    using assms(2) by (auto simp: changes_def)
  have ok: "tables_ok db" "derives_ok db" "serial_ok db" "texts_ok js db"
    using assms(1) by (simp_all add: ledger_ok_def)
  show ?thesis
    unfolding ledger_ok_def c(3)
    using tables_effect [OF ok(1) c(1,2)] derives_effect [OF ok(1,2) c(1,2)] serial_effect [OF ok(1,3) c(1,2)]
      texts_effect [OF ok(4) c(2)] by blast
qed

lemma create_db:
  assumes "create_tx seats now req db = Inr (t, db')"
  shows "db_tasks db' = db_tasks db @ [(new_row seats now req)\<lparr>t_id := db_task_seq db + 1\<rparr>]"
    and "db_task_seq db' = db_task_seq db + 1"
    and "db_events db' = db_events db @ [(event_row (db_task_seq db + 1) ''action'' ''create'' (Some (cr_creator req))
        (cr_assignee req) None None None now)\<lparr>e_id := db_event_seq db + 1\<rparr>]"
    and "db_event_seq db' = db_event_seq db + 1"
  using assms by (auto simp: create_tx_def insert_task_def insert_event_def tx_simps)

lemma trail_create:
  assumes "create_tx seats now req db = Inr (t, db')"
  shows "trail db' j = trail db j @ (if j = db_task_seq db + 1 then [(event_row j ''action'' ''create''
    (Some (cr_creator req)) (cr_assignee req) None None None now)\<lparr>e_id := db_event_seq db + 1\<rparr>] else [])"
  by (simp add: trail_def create_db(3) [OF assms])

lemma trail_fresh: "tables_ok db \<Longrightarrow> db_task_seq db < j \<Longrightarrow> trail db j = []"
  unfolding tables_ok_def trail_def by (fastforce simp: filter_empty_conv)

lemma ledger_ok_create:
  assumes "ledger_ok js db" "create_tx (to_text js (seats_json seats)) now req db = Inr (t, db')"
  shows "ledger_ok js db'"
proof -
  note db' = create_db [OF assms(2)]
  have ok: "tables_ok db" "derives_ok db" "serial_ok db" "texts_ok js db"
    using assms(1) by (simp_all add: ledger_ok_def)
  have "tables_ok db'"
    using ok(1) unfolding tables_ok_def db' by (fastforce simp: sorted_wrt_append)
  moreover have "derives_ok db'"
    unfolding derives_ok_def
  proof
    fix r assume "r \<in> set (db_tasks db')"
    then consider "r \<in> set (db_tasks db)" "t_id r \<noteq> db_task_seq db + 1"
      | "r = (new_row (to_text js (seats_json seats)) now req)\<lparr>t_id := db_task_seq db + 1\<rparr>"
      using ok(1) by (fastforce simp: db' tables_ok_def)
    then show "replay None (trail db' (t_id r)) = Some (t_status r)"
      by cases (use ok(2) trail_fresh [OF ok(1)] in
        \<open>auto simp: derives_ok_def trail_create [OF assms(2)] replay_event_def new_row_def event_row_def\<close>)
  qed
  moreover have "serial_ok db'"
    using ok(3) unfolding serial_ok_def db' by (fastforce simp: new_row_def)
  moreover have "texts_ok js db'"
    using ok(4) by (auto simp: texts_ok_def db' new_row_def)
  ultimately show ?thesis by (simp add: ledger_ok_def)
qed

interpretation ledger: inv_system "\<lambda>db. db = empty_db" "ledger_step js" "ledger_ok js" for js
proof unfold_locales
  fix db assume "db = empty_db"
  then show "ledger_ok js db"
    by (simp add: ledger_ok_def tables_ok_def derives_ok_def serial_ok_def texts_ok_def empty_db_def)
next
  fix db db' assume "ledger_step js db db'" "ledger_ok js db"
  then show "ledger_ok js db'"
    by (cases rule: ledger_step_cases) (auto intro: ledger_ok_create ledger_ok_changes)
qed

section \<open>The newest event of a kind\<close>

lemma newest_None: "newest P es = None \<longleftrightarrow> (\<forall>e \<in> set es. \<not> P e)"
proof -
  have "newest P es = None \<longleftrightarrow> sort_key (\<lambda>e. - e_id e) (filter P es) = []"
    by (simp add: newest_def split: list.split)
  also have "\<dots> \<longleftrightarrow> set (sort_key (\<lambda>e. - e_id e) (filter P es)) = {}" by (simp only: set_empty)
  also have "\<dots> \<longleftrightarrow> (\<forall>e \<in> set es. \<not> P e)" by auto
  finally show ?thesis .
qed

lemma newest_Some:
  assumes "newest P es = Some d"
  shows "d \<in> set es" "P d" "e \<in> set es \<Longrightarrow> P e \<Longrightarrow> e_id e \<le> e_id d"
proof -
  obtain ds where ds: "sort_key (\<lambda>e. - e_id e) (filter P es) = d # ds"
    using assms by (auto simp: newest_def split: list.splits)
  then have s: "set (d # ds) = {e \<in> set es. P e}" by (metis set_filter set_sort)
  then show "d \<in> set es" "P d" by auto
  have "sorted (map (\<lambda>e. - e_id e) (d # ds))" using sorted_sort_key ds by metis
  then show "e \<in> set es \<Longrightarrow> P e \<Longrightarrow> e_id e \<le> e_id d" using s by fastforce
qed

lemma less_id_newest:
  assumes "0 \<le> k"
  shows "k < id_or_zero (newest P es) \<longleftrightarrow> (\<exists>e \<in> set es. P e \<and> k < e_id e)"
proof (cases "newest P es")
  case None
  then have "\<forall>e \<in> set es. \<not> P e" by (simp add: newest_None)
  with None assms show ?thesis by (auto simp: id_or_zero_def)
next
  case (Some d)
  then show ?thesis using newest_Some [OF Some] by (fastforce simp: id_or_zero_def)
qed

lemma id_newest_less:
  assumes "0 < k"
  shows "id_or_zero (newest P es) < k \<longleftrightarrow> (\<forall>e \<in> set es. P e \<longrightarrow> e_id e < k)"
proof (cases "newest P es")
  case None
  then have "\<forall>e \<in> set es. \<not> P e" by (simp add: newest_None)
  with None assms show ?thesis by (auto simp: id_or_zero_def)
next
  case (Some d)
  then show ?thesis using newest_Some [OF Some] by (fastforce simp: id_or_zero_def)
qed

section \<open>Reading back\<close>

lemma events_of_trail:
  assumes "tables_ok db"
  shows "events_of db i = trail db i"
proof -
  have "sorted (map e_id (db_events db))"
    using assms by (simp add: tables_ok_def strict_sorted_iff)
  then have "sorted (map e_id (trail db i))" unfolding trail_def by (rule sorted_filter)
  then show ?thesis unfolding events_of_def trail_def by (rule sort_key_sorted)
qed

lemma load_other:
  assumes "change js db row f rows" "j \<noteq> i"
  shows "load (effect i f rows db) j = load db j"
proof -
  have "List.find (\<lambda>r. t_id r = j) (map (\<lambda>r. if t_id r = i then f r else r) ts) = List.find (\<lambda>r. t_id r = j) ts" for ts
    using assms by (induction ts) (auto simp: change_id)
  then show ?thesis by (simp add: load_def)
qed

lemma load_update:
  assumes "load db i = Inr row" "\<And>r. t_id (f r) = t_id r"
  shows "load (update_task i f db) i = Inr (f row)"
proof -
  have "List.find (\<lambda>r. t_id r = i) (map (\<lambda>r. if t_id r = i then f r else r) ts)
      = map_option f (List.find (\<lambda>r. t_id r = i) ts)" for ts
    using assms(2) by (induction ts) auto
  then show ?thesis using assms(1) by (simp add: load_def update_task_def)
qed

lemma load_insert [simp]: "load (insert_event e db) i = load db i"
  by (simp add: load_def insert_event_def Let_def)

definition valid_status :: "string \<Rightarrow> bool" where
  "valid_status s \<longleftrightarrow> task_status_parse s \<noteq> None"

lemma replay_valid:
  assumes "replay st es = Some s" "\<And>u. st = Some u \<Longrightarrow> valid_status u"
  shows "valid_status s"
  using assms
proof (induction es arbitrary: st)
  case (Cons e es)
  have "valid_status u" if "replay_event st e = Some u" for u
    using that Cons.prems(2)
    by (auto simp: replay_event_def legal_move_def valid_status_def task_status_parse_def split: if_splits option.splits)
  with Cons show ?case by simp
qed simp

lemma valid_statusE:
  assumes "valid_status s"
  obtains st where "s = task_status_as_str st"
proof -
  obtain st where "task_status_parse s = Some st" using assms by (auto simp: valid_status_def)
  then have "s = task_status_as_str st" by (auto simp: task_status_parse_def split: if_splits)
  then show thesis by (rule that)
qed

section \<open>The close gate\<close>

definition reviewed :: "json_codec \<Rightarrow> task_db \<Rightarrow> int \<Rightarrow> bool" where
  "reviewed js db i \<longleftrightarrow>
     (\<exists>d \<in> set (db_events db). is_action i ''dispatch'' d \<and>
        (\<forall>e \<in> set (db_events db). is_action i ''dispatch'' e \<longrightarrow> e_id e \<le> e_id d) \<and>
        (\<forall>e \<in> set (db_events db). is_reopen i e \<longrightarrow> e_id e < e_id d) \<and>
        (\<exists>seats. e_payload d = Some (dispatch_text js seats) \<and>
           (\<forall>s \<in> set seats. \<exists>r \<in> set (db_events db).
              is_action i ''receipt'' r \<and> e_actor r = Some s \<and> e_id d < e_id r)))"

lemma strings_of_map [simp]: "strings_of (map JStr xs) = Some xs"
  by (induction xs) auto

lemma roster_read:
  assumes "reads_back js"
  shows "dispatch_payload_from_str js (dispatch_text js seats) = Some seats"
    and "seats_from_str js (to_text js (seats_json seats)) = Some seats"
  using assms by (simp_all add: reads_back_def dispatch_payload_from_str_def seats_from_str_def seats_json_def)

lemma dispatch_text_inj: "reads_back js \<Longrightarrow> dispatch_text js xs = dispatch_text js ys \<longleftrightarrow> xs = ys"
  by (metis option.inject roster_read(1))

lemma missing_receipts_Nil:
  "missing_receipts db i seats = [] \<longleftrightarrow>
     (\<forall>s \<in> set seats. \<exists>r \<in> set (db_events db). is_action i ''receipt'' r \<and> e_actor r = Some s \<and> receipt_boundary db i < e_id r)"
  by (auto simp: missing_receipts_def Let_def filter_empty_conv set_map_filter)

lemma cycle_dispatch:
  assumes "tables_ok db"
  shows "dispatch_in_current_cycle db i \<longleftrightarrow>
    (\<exists>d. latest_dispatch db i = Some d \<and> (\<forall>e \<in> set (db_events db). is_reopen i e \<longrightarrow> e_id e < e_id d))"
proof (cases "latest_dispatch db i")
  case None
  then show ?thesis
    using assms newest_Some(1) [of "is_reopen i" "db_events db"]
    by (auto simp: latest_dispatch_def dispatch_in_current_cycle_def latest_action_event_id_def
        latest_reopen_event_id_def id_or_zero_def tables_ok_def split: option.splits) fastforce
next
  case (Some d)
  then have "0 < e_id d" using assms newest_Some(1) by (fastforce simp: latest_dispatch_def tables_ok_def)
  then show ?thesis
    using Some id_newest_less [of "e_id d" "is_reopen i" "db_events db"]
    by (simp add: latest_dispatch_def dispatch_in_current_cycle_def latest_action_event_id_def
        latest_reopen_event_id_def id_or_zero_def)
qed

lemma close_gate_reviewed:
  assumes "tables_ok db" "texts_ok js db" "reads_back js" "t_id row = i"
  shows "is_ok (close_gate js row seats db) \<longleftrightarrow> reviewed js db i"
proof (cases "dispatch_in_current_cycle db i")
  case False
  have "\<not> reviewed js db i"
  proof
    assume "reviewed js db i"
    then obtain d where d: "d \<in> set (db_events db)" "is_action i ''dispatch'' d"
      "\<forall>e \<in> set (db_events db). is_reopen i e \<longrightarrow> e_id e < e_id d" by (auto simp: reviewed_def)
    obtain d' where d': "latest_dispatch db i = Some d'"
      using d(1,2) newest_None [of "is_action i ''dispatch''" "db_events db"] unfolding latest_dispatch_def by fastforce
    then have "e_id d \<le> e_id d'" using newest_Some(3) d(1,2) unfolding latest_dispatch_def by blast
    with d(3) d' False show False unfolding cycle_dispatch [OF assms(1)] by fastforce
  qed
  with False show ?thesis using assms(4) by (simp add: close_gate_def)
next
  case True
  then obtain d where d: "latest_dispatch db i = Some d" and re: "\<forall>e \<in> set (db_events db). is_reopen i e \<longrightarrow> e_id e < e_id d"
    using cycle_dispatch [OF assms(1)] by blast
  note new = newest_Some [OF d [unfolded latest_dispatch_def]]
  obtain roster where r: "e_payload d = Some (dispatch_text js roster)"
    using assms(2) new(1,2) by (auto simp: texts_ok_def is_action_def)
  have "receipt_boundary db i = e_id d"
    using True d by (simp add: receipt_boundary_def dispatch_in_current_cycle_def latest_dispatch_def
        latest_action_event_id_def id_or_zero_def)
  then have gate: "is_ok (close_gate js row seats db) \<longleftrightarrow>
      (\<forall>s \<in> set roster. \<exists>r \<in> set (db_events db). is_action i ''receipt'' r \<and> e_actor r = Some s \<and> e_id d < e_id r)"
    using True d r assms(4) by (simp add: close_gate_def roster_read(1) [OF assms(3)] missing_receipts_Nil Let_def) blast
  show ?thesis
  proof
    assume "is_ok (close_gate js row seats db)"
    then show "reviewed js db i" unfolding reviewed_def gate using new re r by blast
  next
    assume "reviewed js db i"
    then obtain d' seats' where d': "d' \<in> set (db_events db)" "is_action i ''dispatch'' d'"
        "\<forall>e \<in> set (db_events db). is_action i ''dispatch'' e \<longrightarrow> e_id e \<le> e_id d'"
      and s: "e_payload d' = Some (dispatch_text js seats')" "\<forall>s \<in> set seats'. \<exists>r \<in> set (db_events db).
              is_action i ''receipt'' r \<and> e_actor r = Some s \<and> e_id d' < e_id r"
      by (auto simp: reviewed_def)
    have "e_id d' = e_id d" using d' new by (simp add: order.antisym)
    moreover have "inj_on e_id (set (db_events db))"
      using assms(1) by (simp add: tables_ok_def strict_sorted_iff distinct_map)
    ultimately have "d' = d" using d'(1) new(1) by (meson inj_onD)
    with s r show "is_ok (close_gate js row seats db)" unfolding gate by (simp add: dispatch_text_inj [OF assms(3)])
  qed
qed

lemma close_ok_iff:
  assumes "load db i = Inr row" "t_status row = task_status_as_str st" "seats_from_str js (t_seats row) = Some seats"
  shows "is_ok (close_tx js clk i actor reason summary False hash db) \<longleftrightarrow>
    st \<in> {InProgress, Review} \<and> is_ok (close_gate js row seats db)"
proof -
  have id: "t_id row = i" using load_Inr [OF assms(1)] by simp
  have "parse_status row = Inr st" using assms(2) by (simp add: parse_status_Inr)
  then show ?thesis
    using assms(1,3) id load_update [OF assms(1)]
    by (cases "close_gate js row seats db")
      (auto simp: close_tx_def check_transition_def append_event_tx_def Let_def reload_def)
qed

section \<open>Retries\<close>

definition outcome :: "(txn_err + 'a) \<times> task_db \<Rightarrow> (task_err + 'a) \<times> task_db" where
  "outcome p = (case p of (Inl e, db) \<Rightarrow> (Inl (flat_txn e), db) | (Inr x, db) \<Rightarrow> (Inr x, db))"

definition attempt_run ::
  "txn_env \<Rightarrow> (nat \<Rightarrow> task_db \<Rightarrow> task_err + ('a \<times> task_db)) \<Rightarrow> nat \<Rightarrow> (txn_err + 'a) \<times> task_db" where
  "attempt_run env body k = transact (te_fault env k) (body k) (te_db env k)"

definition busy_attempt :: "(txn_err + 'a) \<times> task_db \<Rightarrow> bool" where
  "busy_attempt p = (case fst p of Inl e \<Rightarrow> retryable e | Inr _ \<Rightarrow> False)"

lemma with_retry_unfold:
  "with_retry env body k =
     (if busy_attempt (attempt_run env body k) \<and> k < BUSY_RETRIES then with_retry env body (Suc k)
      else outcome (attempt_run env body k))"
  by (subst with_retry.simps)
    (auto simp: attempt_run_def busy_attempt_def outcome_def split: prod.splits sum.splits)

lemma with_retry_settles:
  "\<exists>m \<ge> k. (k \<le> BUSY_RETRIES \<longrightarrow> m \<le> BUSY_RETRIES) \<and>
     (\<forall>j. k \<le> j \<and> j < m \<longrightarrow> busy_attempt (attempt_run env body j)) \<and>
     (m < BUSY_RETRIES \<longrightarrow> \<not> busy_attempt (attempt_run env body m)) \<and>
     with_retry env body k = outcome (attempt_run env body m)"
proof (induction "BUSY_RETRIES - k" arbitrary: k)
  case 0
  then show ?case by (intro exI [of _ k]) (auto simp: with_retry_unfold [of env body k])
next
  case (Suc n)
  show ?case
  proof (cases "busy_attempt (attempt_run env body k)")
    case False
    then show ?thesis by (intro exI [of _ k]) (auto simp: with_retry_unfold [of env body k])
  next
    case True
    from Suc have "n = BUSY_RETRIES - Suc k" "k < BUSY_RETRIES" by auto
    with Suc.hyps(1) obtain m where m: "m \<ge> Suc k" "Suc k \<le> BUSY_RETRIES \<longrightarrow> m \<le> BUSY_RETRIES"
      "\<forall>j. Suc k \<le> j \<and> j < m \<longrightarrow> busy_attempt (attempt_run env body j)"
      "m < BUSY_RETRIES \<longrightarrow> \<not> busy_attempt (attempt_run env body m)"
      "with_retry env body (Suc k) = outcome (attempt_run env body m)" by blast
    have "busy_attempt (attempt_run env body j)" if "k \<le> j" "j < m" for j
      using that True m(3) by (cases "j = k") auto
    with m True \<open>k < BUSY_RETRIES\<close> show ?thesis
      by (intro exI [of _ m]) (auto simp: with_retry_unfold [of env body k])
  qed
qed

section \<open>Grouping\<close>

lemma group_by_task_lookup:
  assumes "bt_valid m"
  shows "bt_valid (group_by_task es m) \<and>
    (case map_of (group_by_task es m) i of None \<Rightarrow> [] | Some tr \<Rightarrow> tr)
      = (case map_of m i of None \<Rightarrow> [] | Some tr \<Rightarrow> tr) @ filter (\<lambda>e. e_task_id e = i) es"
  using assms
proof (induction es m rule: group_by_task.induct)
  case (2 e es m)
  let ?m = "bt_insert (e_task_id e) ((case map_of m (e_task_id e) of None \<Rightarrow> [] | Some tr \<Rightarrow> tr) @ [e]) m"
  have "bt_valid ?m" using 2(2) by (rule bt_valid_insert)
  with 2(1) show ?case by (auto simp: map_of_bt_insert)
qed simp

lemma export_rows_lookup:
  assumes "distinct (map t_id ts)"
    "\<And>t. t \<in> set ts \<Longrightarrow> (case map_of m (t_id t) of None \<Rightarrow> [] | Some tr \<Rightarrow> tr) = tr_of (t_id t)"
  shows "export_rows js cal ts m = try_map (\<lambda>t. to_export js cal t (tr_of (t_id t))) ts"
  using assms
proof (induction js cal ts m rule: export_rows.induct)
  case (2 js cal t ts m)
  have "(case map_of (AList.delete (t_id t) m) (t_id u) of None \<Rightarrow> [] | Some tr \<Rightarrow> tr) = tr_of (t_id u)"
    if "u \<in> set ts" for u
  proof -
    have "t_id u \<in> t_id ` set ts" using that by (rule imageI)
    then have "t_id u \<noteq> t_id t" using 2(2) by auto
    then show ?thesis using 2(3) [of u] that by (simp add: delete_conv')
  qed
  with 2 show ?case by simp
qed simp

lemma try_map_cong: "(\<And>x. x \<in> set xs \<Longrightarrow> f x = g x) \<Longrightarrow> try_map f xs = try_map g xs"
  by (induction xs) auto

lemma read_txn_None [simp]: "read_txn None body db = body db"
  by (cases "body db") (simp_all add: read_txn_def transact_def)

section \<open>A sample history\<close>

text \<open>A codec for the two roster shapes, and a ledger that walks one task through its life.\<close>

definition enc_seats :: "string list \<Rightarrow> string" where
  "enc_seats seats = concat (map (\<lambda>s. concat (map (\<lambda>c. [CHR ''x'', c]) s) @ ''.'') seats)"

fun dec_seats :: "string \<Rightarrow> string \<Rightarrow> string list option" where
  "dec_seats cur [] = (if cur = [] then Some [] else None)"
| "dec_seats cur (c # cs) =
     (if c = CHR ''x'' then (case cs of [] \<Rightarrow> None | d # ds \<Rightarrow> dec_seats (cur @ [d]) ds)
      else if c = CHR ''.'' then map_option ((#) cur) (dec_seats [] cs)
      else None)"

definition sample_codec :: json_codec where
  "sample_codec = \<lparr>
     to_text = (\<lambda>v. case string_vec v of
        Some seats \<Rightarrow> ''['' @ enc_seats seats
      | None \<Rightarrow> (case dispatch_payload_of v of Some seats \<Rightarrow> CHR 0x7B # enc_seats seats | None \<Rightarrow> ''null'')),
     from_text = (\<lambda>s. case s of
        [] \<Rightarrow> None
      | c # cs \<Rightarrow>
          if c = CHR ''['' then map_option seats_json (dec_seats [] cs)
          else if c = CHR 0x7B then map_option (\<lambda>seats. JObj [(''seats'', seats_json seats)]) (dec_seats [] cs)
          else Some JNull)\<rparr>"

lemma dec_enc_string: "dec_seats cur (concat (map (\<lambda>c. [CHR ''x'', c]) s) @ rest) = dec_seats (cur @ s) rest"
  by (induction s arbitrary: cur) auto

lemma dec_enc: "dec_seats [] (enc_seats seats) = Some seats"
  by (induction seats) (simp_all add: enc_seats_def dec_enc_string)

lemma sample_codec_reads_back: "reads_back sample_codec"
  by (simp add: reads_back_def sample_codec_def seats_json_def dispatch_text_def dec_enc)

definition after :: "(task_db \<Rightarrow> task_err + (task \<times> task_db)) \<Rightarrow> task_db \<Rightarrow> task_db" where
  "after body db = (case body db of Inl _ \<Rightarrow> db | Inr (_, db') \<Rightarrow> db')"

lemma reaches_after:
  assumes "reaches I (ledger_step js) db" "\<And>t db'. body db = Inr (t, db') \<Longrightarrow> ledger_step js db db'"
  shows "reaches I (ledger_step js) (after body db)"
  using assms by (cases "body db") (auto simp: after_def intro: reaches.move)

definition sample_req :: task_create_request where
  "sample_req = \<lparr>cr_title = ''ship'', cr_creator = ''root'', cr_assignee = Some ''dev'', cr_seats = [''qa''],
     cr_dossier_path = None, cr_inbox_id_start = None, cr_inbox_id_end = None, cr_room_id = None,
     cr_room_seq_start = None, cr_room_seq_end = None\<rparr>"

definition sample_receipt :: task_checkpoint_request where
  "sample_receipt = \<lparr>ck_actor = ''qa'', ck_note = None, ck_receipt = True, ck_review = True, ck_waiting = None\<rparr>"

definition sample_clock :: "nat \<Rightarrow> int" where
  "sample_clock k = 100 + int k"

definition started_db :: task_db where
  "started_db = after (start_tx sample_codec sample_clock 1 ''dev'' False)
     (after (create_tx (to_text sample_codec (seats_json [''qa''])) 100 sample_req) empty_db)"

definition reviewed_db :: task_db where
  "reviewed_db = after (checkpoint_tx sample_codec sample_clock 1 sample_receipt)
     (after (dispatch_tx sample_codec sample_clock 1 ''root'' None) started_db)"

definition closed_db :: task_db where
  "closed_db = after (close_tx sample_codec sample_clock 1 ''dev'' Completed None False None) reviewed_db"

definition archived_db :: task_db where
  "archived_db = after (archive_task_tx sample_codec sample_clock 1 ''root'' False) closed_db"

lemma started_db_reached: "reaches (\<lambda>db. db = empty_db) (ledger_step sample_codec) started_db"
  unfolding started_db_def
proof (intro reaches_after reaches.start refl)
  fix t db' assume "create_tx (to_text sample_codec (seats_json [''qa''])) 100 sample_req empty_db = Inr (t, db')"
  then show "ledger_step sample_codec empty_db db'"
    by (intro ls_create [of sample_req _ 100 _ t]) (simp_all add: sample_req_def validate_association_def window_def)
qed (rule ls_start)

lemma reviewed_db_reached: "reaches (\<lambda>db. db = empty_db) (ledger_step sample_codec) reviewed_db"
  unfolding reviewed_db_def
  by (intro reaches_after started_db_reached) (rule ls_dispatch, assumption, rule ls_checkpoint)

lemma archived_db_reached: "reaches (\<lambda>db. db = empty_db) (ledger_step sample_codec) archived_db"
  unfolding archived_db_def closed_db_def
  by (intro reaches_after reviewed_db_reached) (rule ls_close, assumption, rule ls_archive)

section \<open>Properties\<close>

lemma trail_derives_table_facts:
  assumes "reaches (\<lambda>db. db = empty_db) (ledger_step js) db" "r \<in> set (db_tasks db)"
  shows "replay None (events_of db (t_id r)) = Some (t_status r)"
    and "is_ok (parse_status r)"
    and "sorted_wrt (<) (map e_id (db_events db)) \<and> (\<forall>e \<in> set (db_events db). is_ok (load db (e_task_id e)))"
proof -
  have "ledger_ok js db" using assms(1) by (rule ledger.reaches_inv)
  then have ok: "tables_ok db" "derives_ok db" by (simp_all add: ledger_ok_def)
  show r: "replay None (events_of db (t_id r)) = Some (t_status r)"
    using ok assms(2) by (simp add: events_of_trail derives_ok_def)
  then have "valid_status (t_status r)" by (rule replay_valid) simp
  then show "is_ok (parse_status r)" by (auto simp: valid_status_def parse_status_def)
  have "is_ok (load db (e_task_id e))" if "e \<in> set (db_events db)" for e
  proof -
    obtain q where "q \<in> set (db_tasks db)" "t_id q = e_task_id e" using ok(1) \<open>e \<in> set (db_events db)\<close>
      by (fastforce simp: tables_ok_def)
    then have "load db (e_task_id e) = Inr q" using load_iff ok(1) unfolding tables_ok_def by blast
    then show ?thesis by simp
  qed
  with ok(1) show "sorted_wrt (<) (map e_id (db_events db)) \<and> (\<forall>e \<in> set (db_events db). is_ok (load db (e_task_id e)))"
    by (simp add: tables_ok_def)
qed

text \<open>
  C17. The trail derives the table: in every reachable ledger, replaying a task's events (the create
  event, then each transition from the status the previous one left, along a legal edge of the state
  machine) succeeds and ends in exactly the status stored on its row; the stored status is one of the
  four, so \<open>parse_status\<close> never fails; event ids ascend strictly; and no event lacks its task.
\<close>

theorem trail_derives_table:
  assumes "reaches (\<lambda>db. db = empty_db) (ledger_step js) db" "r \<in> set (db_tasks db)"
  shows "replay None (events_of db (t_id r)) = Some (t_status r) \<and>
    is_ok (parse_status r) \<and>
    (sorted_wrt (<) (map e_id (db_events db)) \<and> (\<forall>e \<in> set (db_events db). is_ok (load db (e_task_id e))))"
  by (rule trail_derives_table_facts [OF assms] conjI impI | assumption)+

theorem trail_derives_table_witness:
  "\<exists>r. db_tasks archived_db = [r] \<and> replay None (events_of archived_db (t_id r)) = Some ''closed''"
proof -
  have "map t_status (db_tasks archived_db) = [''closed'']" by code_simp
  then obtain r where r: "db_tasks archived_db = [r]" "t_status r = ''closed''" by auto
  then show ?thesis using trail_derives_table [OF archived_db_reached, of r] by simp
qed

text \<open>
  One task at a time, or a recorded escape: whenever two different tasks of one assignee are in
  progress in a reachable ledger, the trail of one of the two carries a \<open>force_start\<close> or
  \<open>force_reopen\<close> event for that assignee. Without a forced start or reopen the serial gate holds.
\<close>

theorem serial_gate_or_escape:
  assumes "reaches (\<lambda>db. db = empty_db) (ledger_step js) db"
    and "r \<in> set (db_tasks db)" "r' \<in> set (db_tasks db)" "t_id r \<noteq> t_id r'"
    and "t_status r = ''in_progress''" "t_status r' = ''in_progress''" "t_assignee r = Some a" "t_assignee r' = Some a"
  shows "\<exists>e \<in> set (events_of db (t_id r) @ events_of db (t_id r')). serial_escape e \<and> e_assignee e = Some a"
proof -
  have "ledger_ok js db" using assms(1) by (rule ledger.reaches_inv)
  then have ok: "tables_ok db" "serial_ok db" by (simp_all add: ledger_ok_def)
  obtain e where "e \<in> set (db_events db)" "serial_escape e" "e_assignee e = Some a"
    "e_task_id e = t_id r \<or> e_task_id e = t_id r'"
    using ok(2) assms(2-) unfolding serial_ok_def by blast
  then show ?thesis by (auto simp: events_of_trail [OF ok(1)] trail_def)
qed

definition crowded_db :: task_db where
  "crowded_db = after (start_tx sample_codec sample_clock 2 ''dev'' True)
     (after (create_tx (to_text sample_codec (seats_json [''qa''])) 100 sample_req) started_db)"

lemma crowded_db_reached: "reaches (\<lambda>db. db = empty_db) (ledger_step sample_codec) crowded_db"
  unfolding crowded_db_def
proof (intro reaches_after started_db_reached)
  fix t db' assume "create_tx (to_text sample_codec (seats_json [''qa''])) 100 sample_req started_db = Inr (t, db')"
  then show "ledger_step sample_codec started_db db'"
    by (intro ls_create [of sample_req _ 100 _ t]) (simp_all add: sample_req_def validate_association_def window_def)
qed (rule ls_start)

theorem serial_gate_or_escape_witness:
  "\<exists>e \<in> set (events_of crowded_db 1 @ events_of crowded_db 2). serial_escape e \<and> e_assignee e = Some ''dev''"
proof -
  have "map (\<lambda>r. (t_id r, t_status r, t_assignee r)) (db_tasks crowded_db)
      = [(1, ''in_progress'', Some ''dev''), (2, ''in_progress'', Some ''dev'')]" by code_simp
  then obtain r r' where r: "db_tasks crowded_db = [r, r']" "t_id r = 1" "t_id r' = 2" "t_status r = ''in_progress''"
    "t_status r' = ''in_progress''" "t_assignee r = Some ''dev''" "t_assignee r' = Some ''dev''" by auto
  show ?thesis
    using serial_gate_or_escape [OF crowded_db_reached, of r r' "''dev''"] r by simp
qed

text \<open>
  C6. A close without force is a reviewed close: in a reachable ledger it succeeds exactly when the
  task is in progress or in review, a dispatch follows every reopen of the task, and every seat of
  the newest dispatch's roster has filed a receipt after that dispatch. Receipts of an earlier cycle
  or of an earlier dispatch do not count.
\<close>

theorem close_requires_review:
  assumes "reaches (\<lambda>db. db = empty_db) (ledger_step js) db" "reads_back js"
  shows "is_ok (close_tx js clk i actor reason summary False hash db) \<longleftrightarrow>
    (\<exists>row \<in> set (db_tasks db). t_id row = i \<and> t_status row \<in> {''in_progress'', ''review''}) \<and> reviewed js db i"
proof (cases "load db i")
  case (Inl e)
  then have "\<not> (\<exists>row \<in> set (db_tasks db). t_id row = i)" by (auto simp: load_def find_None_iff)
  with Inl show ?thesis by (auto simp: close_tx_def)
next
  case (Inr row)
  have "ledger_ok js db" using assms(1) by (rule ledger.reaches_inv)
  then have ok: "tables_ok db" "derives_ok db" "texts_ok js db" by (simp_all add: ledger_ok_def)
  have row: "row \<in> set (db_tasks db)" "t_id row = i" using load_Inr [OF Inr] by auto
  have "valid_status (t_status row)"
    by (rule replay_valid [of None "trail db i"]) (use ok(2) row in \<open>auto simp: derives_ok_def\<close>)
  then obtain st where st: "t_status row = task_status_as_str st"
    by (rule valid_statusE)
  obtain seats where "seats_from_str js (t_seats row) = Some seats"
    using ok(3) row roster_read(2) [OF assms(2)] by (auto simp: texts_ok_def)
  note gate = close_ok_iff [OF Inr st this] close_gate_reviewed [OF ok(1,3) assms(2) row(2)]
  have "(\<exists>q \<in> set (db_tasks db). t_id q = i \<and> t_status q \<in> {''in_progress'', ''review''}) \<longleftrightarrow> st \<in> {InProgress, Review}"
  proof -
    have "(\<exists>q \<in> set (db_tasks db). t_id q = i \<and> t_status q \<in> {''in_progress'', ''review''})
        \<longleftrightarrow> t_status row \<in> {''in_progress'', ''review''}"
      using row loaded_row [OF ok(1) Inr] by blast
    then show ?thesis unfolding st by (cases st) simp_all
  qed
  then show ?thesis by (simp add: gate)
qed

theorem close_requires_review_witness:
  "reviewed sample_codec reviewed_db 1 \<and> \<not> reviewed sample_codec started_db 1"
proof -
  have ok: "is_ok (close_tx sample_codec sample_clock 1 ''dev'' Completed None False None reviewed_db)"
    "\<not> is_ok (close_tx sample_codec sample_clock 1 ''dev'' Completed None False None started_db)" by code_simp+
  have "map (\<lambda>r. (t_id r, t_status r)) (db_tasks started_db) = [(1, ''in_progress'')]" by code_simp
  then have "\<exists>row \<in> set (db_tasks started_db). t_id row = 1 \<and> t_status row \<in> {''in_progress'', ''review''}" by auto
  then show ?thesis
    using ok close_requires_review [OF reviewed_db_reached sample_codec_reads_back]
      close_requires_review [OF started_db_reached sample_codec_reads_back] by blast
qed

text \<open>
  The trail is append-only and a verb touches one task: a committed verb keeps every recorded
  event in place and appends at least one, all of them for one task with ids above all earlier ones;
  every other task's row and trail read the same before and after.
\<close>

theorem verbs_append_only:
  assumes "reaches (\<lambda>db. db = empty_db) (ledger_step js) db" "ledger_step js db db'"
  shows "\<exists>i new. new \<noteq> [] \<and> db_events db' = db_events db @ new \<and>
    (\<forall>e \<in> set new. e_task_id e = i \<and> db_event_seq db < e_id e) \<and>
    (\<forall>j. j \<noteq> i \<longrightarrow> load db' j = load db j \<and> events_of db' j = events_of db j)"
proof -
  have ok: "tables_ok db" "tables_ok db'"
    using ledger.reaches_inv [OF assms(1)] ledger.reaches_inv [OF reaches.move [OF assms]] by (simp_all add: ledger_ok_def)
  from assms(2) show ?thesis
  proof (cases rule: ledger_step_cases)
    case (created req now t)
    have "load db' j = load db j \<and> events_of db' j = events_of db j" if "j \<noteq> db_task_seq db + 1" for j
      using that by (auto simp: load_def create_db(1) [OF created] events_of_trail [OF ok(1)] events_of_trail [OF ok(2)]
          trail_create [OF created] find_append split: option.split)
    then show ?thesis
      by (intro exI [of _ "db_task_seq db + 1"] exI conjI) (auto simp: create_db(3) [OF created])
  next
    case (changed i)
    then obtain row f rows where c: "load db i = Inr row" "change js db row f rows" "db' = effect i f rows db"
      by (auto simp: changes_def)
    have id: "t_id row = i" using load_Inr [OF c(1)] by simp
    have "e_task_id e = i \<and> db_event_seq db < e_id e" if "e \<in> set (numbered (db_event_seq db) rows)" for e
      using set_numbered [OF that] c(2) id by (auto simp: change_def)
    moreover have "numbered (db_event_seq db) rows \<noteq> []"
      using c(2) by (cases rows) (auto simp: change_def)
    moreover have "load db' j = load db j \<and> events_of db' j = events_of db j" if "j \<noteq> i" for j
      using that load_other [OF c(2) that] trail_effect [OF c(2) id, of j]
      by (simp add: events_of_trail [OF ok(1)] events_of_trail [OF ok(2)] c(3) [symmetric])
    moreover have "db_events db' = db_events db @ numbered (db_event_seq db) rows" by (simp add: c(3))
    ultimately show ?thesis by blast
  qed
qed

theorem verbs_append_only_witness:
  "\<exists>i new. new \<noteq> [] \<and> db_events closed_db = db_events reviewed_db @ new \<and>
    (\<forall>e \<in> set new. e_task_id e = i \<and> db_event_seq reviewed_db < e_id e)"
proof -
  have "is_ok (close_tx sample_codec sample_clock 1 ''dev'' Completed None False None reviewed_db)" by code_simp
  then obtain t db' where "close_tx sample_codec sample_clock 1 ''dev'' Completed None False None reviewed_db = Inr (t, db')"
    by (cases "close_tx sample_codec sample_clock 1 ''dev'' Completed None False None reviewed_db") auto
  moreover from this have "closed_db = db'" by (simp add: closed_db_def after_def)
  ultimately have "ledger_step sample_codec reviewed_db closed_db" by (auto intro: ls_close)
  then show ?thesis using verbs_append_only [OF reviewed_db_reached] by blast
qed

text \<open>
  The busy retries are bounded and atomic: a verb makes at most four attempts; its answer and the
  database it leaves are those of one attempt, all earlier attempts failed with a busy-class error,
  and it stops before the fourth only on an attempt that did not. When the answer is an error, no
  attempt changed the database.
\<close>

theorem retries_bounded_atomic:
  "\<exists>m \<le> 3. with_retry env body 0 = outcome (attempt_run env body m) \<and>
     (\<forall>j < m. busy_attempt (attempt_run env body j) \<and> snd (attempt_run env body j) = te_db env j) \<and>
     (m < 3 \<longrightarrow> \<not> busy_attempt (attempt_run env body m)) \<and>
     (\<not> is_ok (fst (with_retry env body 0)) \<longrightarrow> snd (with_retry env body 0) = te_db env m)"
proof -
  obtain m where m: "m \<le> BUSY_RETRIES" "\<forall>j. 0 \<le> j \<and> j < m \<longrightarrow> busy_attempt (attempt_run env body j)"
    "m < BUSY_RETRIES \<longrightarrow> \<not> busy_attempt (attempt_run env body m)"
    "with_retry env body 0 = outcome (attempt_run env body m)"
    using with_retry_settles [of 0 env body] by auto
  have keep: "snd (attempt_run env body j) = te_db env j" if "\<not> is_ok (fst (attempt_run env body j))" for j
    using that by (auto simp: attempt_run_def transact_def split: option.splits txn_fault.splits sum.splits prod.splits)
  have "is_ok (fst (outcome p)) = is_ok (fst p)" "snd (outcome p) = snd p" for p :: "(txn_err + 'a) \<times> task_db"
    by (auto simp: outcome_def split: prod.splits sum.splits)
  moreover have "\<not> is_ok (fst p)" if "busy_attempt p" for p :: "(txn_err + 'a) \<times> task_db"
    using that by (cases "fst p") (auto simp: busy_attempt_def)
  ultimately show ?thesis
    using m keep unfolding BUSY_RETRIES_def by (intro exI [of _ m]) auto
qed

definition busy_env :: txn_env where
  "busy_env = \<lparr>te_db = (\<lambda>_. started_db),
     te_fault = (\<lambda>k. if k < 2 then Some (Statement (DbExec (SqlxError (SqlxDatabase (Some ''517''))))) else None),
     te_clock = (\<lambda>_. sample_clock)\<rparr>"

theorem retries_bounded_atomic_witness:
  "\<exists>m \<le> 3. 0 < m \<and> dispatch sample_codec busy_env 1 ''root'' None
      = outcome (attempt_run busy_env (\<lambda>k. dispatch_tx sample_codec (te_clock busy_env k) 1 ''root'' None) m)"
proof -
  let ?body = "\<lambda>k. dispatch_tx sample_codec (te_clock busy_env k) 1 ''root'' None"
  have "is_busy_code (Some ''517'')" by (simp add: is_busy_code_def parse_u32_def Let_def)
  then have "busy_attempt (attempt_run busy_env ?body 0)"
    by (simp add: busy_attempt_def attempt_run_def transact_def busy_env_def)
  moreover obtain m where "m \<le> 3" "with_retry busy_env ?body 0 = outcome (attempt_run busy_env ?body m)"
    "m < 3 \<longrightarrow> \<not> busy_attempt (attempt_run busy_env ?body m)"
    using retries_bounded_atomic [of busy_env ?body] by blast
  moreover from calculation have "0 < m" by (cases m) auto
  ultimately show ?thesis unfolding dispatch_def by blast
qed

text \<open>
  The one-pass export agrees with the per-task export: in a reachable ledger, grouping all events
  in one map and taking each task's group gives exactly the exports that separate reads of every task
  give, in id order, including the first error met.
\<close>

theorem export_all_per_task:
  assumes "reaches (\<lambda>db. db = empty_db) (ledger_step js) db"
  shows "export_all js' cal None db = try_map (\<lambda>t. export js' cal None (t_id t) db) (db_tasks db)"
proof -
  have ok: "tables_ok db" using ledger.reaches_inv [OF assms] by (simp add: ledger_ok_def)
  then have sorted: "sort_key t_id (db_tasks db) = db_tasks db" "sort_key e_id (db_events db) = db_events db"
    by (simp_all add: tables_ok_def strict_sorted_iff sort_key_sorted)
  have group: "(case map_of (group_by_task (db_events db) []) i of None \<Rightarrow> [] | Some tr \<Rightarrow> tr) = events_of db i" for i
    using group_by_task_lookup [of "[]" "db_events db" i] by (simp add: events_of_trail [OF ok] trail_def)
  have "export_all js' cal None db = try_map (\<lambda>t. to_export js' cal t (events_of db (t_id t))) (db_tasks db)"
    unfolding export_all_def read_txn_None sorted
    by (rule export_rows_lookup) (use ok group in \<open>auto simp: tables_ok_def strict_sorted_iff\<close>)
  also have "\<dots> = try_map (\<lambda>t. export js' cal None (t_id t) db) (db_tasks db)"
  proof (rule try_map_cong)
    fix t assume "t \<in> set (db_tasks db)"
    then have "load db (t_id t) = Inr t" using load_iff ok by (simp add: tables_ok_def)
    then show "to_export js' cal t (events_of db (t_id t)) = export js' cal None (t_id t) db"
      by (simp add: export_def get_in_tx_def)
  qed
  finally show ?thesis .
qed

theorem export_all_per_task_witness:
  "export_all sample_codec (\<lambda>_. None) None crowded_db = Inl Time"
proof -
  have "map t_id (db_tasks crowded_db) = [1, 2]" by code_simp
  then obtain r r' where r: "db_tasks crowded_db = [r, r']" "t_id r = 1" by auto
  have "export sample_codec (\<lambda>_. None) None 1 crowded_db = Inl Time" by code_simp
  then show ?thesis using export_all_per_task [OF crowded_db_reached, of sample_codec "\<lambda>_. None"] r by simp
qed

text \<open>
  Reopening does not lift the archive marker: a closed, archived task that is reopened is in
  progress again and yet missing from every default (not archived) list view, the very situation the
  archive gate exists to prevent: archiving that task now would be refused without force.
\<close>

theorem reopen_keeps_archived:
  assumes "load db i = Inr row" "t_archived row = 1" "reopen_tx js clk i actor force db = Inr (t, db')"
  shows "t_status t = ''in_progress'' \<and> load db' i = Inr t \<and>
    t \<notin> set (list_tasks \<lparr>tf_status = st, tf_assignee = asg, tf_archived = False\<rparr> db') \<and>
    archive_task_tx js clk' i actor' False db' = Inl (ArchiveGate i ''in_progress'')"
proof -
  have id: "t_id row = i" using load_Inr [OF assms(1)] by simp
  have t: "load db' i = Inr t" "t_status t = ''in_progress''" "t_archived t = 1"
    using assms id
    by (auto simp: reopen_tx_def tx_simps load_update split: option.splits if_splits)
  moreover have "t_id t = i" using load_Inr [OF t(1)] by simp
  ultimately show ?thesis
    by (simp add: list_tasks_def archive_task_tx_def parse_status_def task_status_parse_def Let_def)
qed

theorem reopen_keeps_archived_witness:
  "\<exists>t db'. reopen_tx sample_codec sample_clock 1 ''dev'' False archived_db = Inr (t, db') \<and> t_status t = ''in_progress'' \<and>
     t \<notin> set (list_tasks \<lparr>tf_status = None, tf_assignee = None, tf_archived = False\<rparr> db')"
proof -
  have "map (\<lambda>r. (t_id r, t_archived r)) (db_tasks archived_db) = [(1, 1)]" by code_simp
  then obtain row where row: "load archived_db 1 = Inr row" "t_archived row = 1" by (auto simp: load_def)
  have "is_ok (reopen_tx sample_codec sample_clock 1 ''dev'' False archived_db)" by code_simp
  then obtain t db' where re: "reopen_tx sample_codec sample_clock 1 ''dev'' False archived_db = Inr (t, db')"
    by (cases "reopen_tx sample_codec sample_clock 1 ''dev'' False archived_db") auto
  then show ?thesis using reopen_keeps_archived [OF row re] by blast
qed

end
