(* ===== verification/Shell_Ast.thy ===== *)
theory Shell_Ast
  imports Policy
begin

text \<open>
  The shell syntax tree and the static tables of the exec classifier
  (\<open>kallip-runtime/src/policy/classifier/util.rs\<close>, \<open>catalog.rs\<close>, and the name checks of \<open>mod.rs\<close>).

  The tree is the one the \<open>rable\<close> parser delivers, restricted to the fields the classifier reads; the
  parser itself is a parameter of the definitions that call it. Node kinds of one shape are grouped: a
  leaf, a node with one child, a node with two children; the kind is kept, so every arm of the walker
  is still told apart. A word carries its source text (quotes included) and its parts.
\<close>

section \<open>The tree\<close>

datatype list_operator = Background | ListOp string

datatype leaf_kind =
    WordLiteral | ParamExpansion | ParamLength | ParamIndirect | HereDoc | CondTerm | AnsiCQuote
  | LocaleString | BraceExpansion | ArrayLit | Comment | EmptyNode
  | ArithNumber | ArithVar | ArithEmpty | ArithEscape | ArithDeprecated

datatype unary_kind =
    FunctionDef | CommandSubstitution | ProcessSubstitution | Negation | TimeCmd | Coproc
  | UnaryTest | CondNot | CondParen | ArithUnaryOp | ArithPreIncr | ArithPostIncr | ArithPreDecr
  | ArithPostDecr | ArithSubscript

datatype binary_kind = BinaryTest | CondAnd | CondOr | ArithBinaryOp | ArithAssign | ArithComma

datatype loop_kind = WhileLoop | UntilLoop

datatype iter_kind = ForLoop | SelectLoop

datatype group_kind = Subshell | BraceGroup | ConditionalExpr

datatype node =
    NCommand "node list" "node list" "node list"
  | NPipeline "node list"
  | NList "(node \<times> list_operator option) list"
  | NIf node node "node option" "node list"
  | NLoop loop_kind node node "node list"
  | NIter iter_kind "node list option" node "node list"
  | NForArith node "node list"
  | NCase node "(node list \<times> node option) list" "node list"
  | NGroup group_kind node "node list"
  | NRedirect string node
  | NWord string "node list"
  | NArithmeticExpansion "node option"
  | NArithmeticCommand "node option" "node list"
  | NArithTernary node "node option" "node option"
  | NArithConcat "node list"
  | NLeaf leaf_kind
  | NUnary unary_kind node
  | NBinary binary_kind node node

type_synonym parser = "string \<Rightarrow> string + node list"

section \<open>Words\<close>

definition is_literal_part :: "node \<Rightarrow> bool" where
  "is_literal_part n \<longleftrightarrow> (case n of NLeaf k \<Rightarrow> k = WordLiteral | _ \<Rightarrow> False)"

definition word_literal_value :: "node \<Rightarrow> string option" where
  "word_literal_value w =
     (case w of NWord v ps \<Rightarrow> if list_all is_literal_part ps then Some v else None | _ \<Rightarrow> None)"

definition extract_command_name :: "node \<Rightarrow> string option" where
  "extract_command_name w = word_literal_value w"

definition quote_char :: char where "quote_char = CHR 0x27"

definition dquote_char :: char where "dquote_char = CHR 0x22"

definition strip_surrounding_quotes :: "string \<Rightarrow> string" where
  "strip_surrounding_quotes s =
     (if 2 \<le> length s \<and> (hd s = quote_char \<and> last s = quote_char \<or> hd s = dquote_char \<and> last s = dquote_char)
      then butlast (tl s) else s)"

definition redirect_target_literal :: "node \<Rightarrow> string option" where
  "redirect_target_literal n = map_option strip_surrounding_quotes (word_literal_value n)"

definition find_mutating_flag :: "node list \<Rightarrow> string list \<Rightarrow> string option" where
  "find_mutating_flag ws flags =
     (case List.map_filter (\<lambda>w. List.find (\<lambda>f. Some f = redirect_target_literal w) flags) (drop 1 ws) of
        [] \<Rightarrow> None
      | f # _ \<Rightarrow> Some f)"

definition eq_ignore_ascii_case :: "string \<Rightarrow> string \<Rightarrow> bool" where
  "eq_ignore_ascii_case a b \<longleftrightarrow> to_ascii_lowercase a = to_ascii_lowercase b"

definition before_eq :: "string \<Rightarrow> string" where
  "before_eq s = takeWhile (\<lambda>c. c \<noteq> CHR ''='') s"

definition begins :: "string \<Rightarrow> string \<Rightarrow> bool" where
  "begins pre s \<longleftrightarrow> take (length pre) s = pre"

section \<open>The \<open>env\<close> predicate\<close>

definition is_alpha :: "char \<Rightarrow> bool" where
  "is_alpha c \<longleftrightarrow> (let n = of_char c :: nat in 65 \<le> n \<and> n \<le> 90 \<or> 97 \<le> n \<and> n \<le> 122)"

definition is_digit :: "char \<Rightarrow> bool" where
  "is_digit c \<longleftrightarrow> (let n = of_char c :: nat in 48 \<le> n \<and> n \<le> 57)"

definition is_assignment :: "string \<Rightarrow> bool" where
  "is_assignment token \<longleftrightarrow>
     CHR ''='' \<in> set token \<and>
     (case before_eq token of
        [] \<Rightarrow> False
      | c # cs \<Rightarrow> (is_alpha c \<or> c = CHR ''_'') \<and>
          list_all (\<lambda>b. is_alpha b \<or> is_digit b \<or> b = CHR ''_'') (c # cs))"

definition is_split_string :: "string \<Rightarrow> bool" where
  "is_split_string t \<longleftrightarrow> t = ''-S'' \<or> t = ''--split-string'' \<or> begins ''--split-string='' t"

definition takes_value :: "string \<Rightarrow> bool" where
  "takes_value t \<longleftrightarrow> t \<in> set [''-u'', ''-C'', ''--unset'', ''--chdir'']"

text \<open>The loop of \<open>env_runs_command\<close>; the flag says that \<open>--\<close> has been seen.\<close>

function env_scan :: "bool \<Rightarrow> node list \<Rightarrow> bool" where
  "env_scan dd [] = False"
| "env_scan dd (w # ws) =
     (case word_literal_value w of
        None \<Rightarrow> True
      | Some token \<Rightarrow>
          if dd then \<not> is_assignment token \<or> env_scan True ws
          else if token = ''--'' then env_scan True ws
          else if is_split_string token then True
          else if takes_value token then env_scan False (drop 1 ws)
          else if begins ''-'' token then env_scan False ws
          else \<not> is_assignment token \<or> env_scan False ws)"
  by pat_completeness auto

termination by (relation "measure (\<lambda>(dd, ws). length ws)") simp_all

definition env_runs_command :: "node list \<Rightarrow> bool" where
  "env_runs_command ws = env_scan False (drop 1 ws)"

section \<open>The catalogue\<close>

datatype spec_constraint =
    Subcommands "string list"
  | MutatingFlags "string list"
  | MutatingPredicate "node list \<Rightarrow> bool"

record command_spec =
  sp_name :: string
  sp_constraints :: "spec_constraint list"

definition ro :: "string \<Rightarrow> command_spec" where
  "ro name = \<lparr>sp_name = name, sp_constraints = []\<rparr>"

definition READ_ONLY_CATALOG :: "command_spec list" where
  "READ_ONLY_CATALOG =
     map ro [''pwd'', ''ls'', ''stat'', ''file'', ''tree'', ''du'', ''df'',
       ''rg'', ''grep'', ''ag'', ''ack'', ''fgrep'', ''egrep'',
       ''cat'', ''head'', ''tail'', ''less'', ''more'', ''bat'',
       ''uniq'', ''wc'', ''cut'', ''tr'', ''comm'', ''diff'',
       ''echo'', ''printf'', ''printenv'', ''which'', ''type'',
       ''date'', ''uname'', ''hostname'', ''whoami'', ''id'',
       ''ps'', ''top'', ''htop'', ''jq'', ''test'', ''true'', ''false'', ''cd'', ''kallip'']
     @ [\<lparr>sp_name = ''find'', sp_constraints = [MutatingFlags [''-exec'', ''-execdir'', ''-ok'', ''-okdir'',
          ''-delete'', ''-fls'', ''-fprint'', ''-fprint0'', ''-fprintf'']]\<rparr>,
        \<lparr>sp_name = ''sort'', sp_constraints = [MutatingFlags [''-o'']]\<rparr>,
        \<lparr>sp_name = ''yq'', sp_constraints = [MutatingFlags [''-i'', ''--inplace'']]\<rparr>,
        \<lparr>sp_name = ''env'', sp_constraints = [MutatingPredicate env_runs_command]\<rparr>,
        \<lparr>sp_name = ''git'', sp_constraints =
          [Subcommands [''log'', ''status'', ''diff'', ''show'', ''blame''],
           MutatingFlags [''--hard'', ''--keep'']]\<rparr>]"

definition SHELL_INTERPRETERS :: "string list" where
  "SHELL_INTERPRETERS =
     [''bash'', ''sh'', ''dash'', ''zsh'', ''ksh'', ''csh'', ''tcsh'', ''fish'', ''ash'', ''busybox'']"

definition EVAL_COMMANDS :: "string list" where
  "EVAL_COMMANDS = [''eval'', ''exec'', ''source'', ''.'']"

definition COMMAND_STRING_FLAGS :: "string list" where
  "COMMAND_STRING_FLAGS = [''-c'']"

definition SENSITIVE_ENV_VARS :: "string list" where
  "SENSITIVE_ENV_VARS =
     [''PATH'', ''LD_LIBRARY_PATH'', ''LD_PRELOAD'', ''PYTHONPATH'', ''HOME'', ''SHELL'', ''IFS'']"

definition catalog_contains :: "string \<Rightarrow> bool" where
  "catalog_contains name \<longleftrightarrow> list_ex (\<lambda>sp. sp_name sp = name) READ_ONLY_CATALOG"

definition exec_baseline :: "string \<Rightarrow> exec_decision" where
  "exec_baseline name = (if catalog_contains name then Allow else Ask)"

section \<open>The builtin denylist\<close>

record deny_rule =
  dr_name :: string
  dr_subcommand :: "string option"
  dr_deny_flags :: "string list"
  dr_except_flags :: "string list"
  dr_reason :: string

definition GIT_VALUE_GLOBAL_FLAGS :: "string list" where
  "GIT_VALUE_GLOBAL_FLAGS =
     [''-c'', ''-C'', ''--git-dir'', ''--work-tree'', ''--namespace'', ''--exec-path'', ''--config-env'']"

definition GIT_BOOL_GLOBAL_FLAGS :: "string list" where
  "GIT_BOOL_GLOBAL_FLAGS =
     [''--version'', ''--help'', ''--no-pager'', ''-p'', ''--paginate'', ''--no-replace-objects'', ''--bare'',
      ''--no-optional-locks'', ''--literal-pathspecs'', ''--glob-pathspecs'', ''--noglob-pathspecs'',
      ''--icase-pathspecs'']"

definition BUILTIN_DENYLIST :: "deny_rule list" where
  "BUILTIN_DENYLIST =
     [\<lparr>dr_name = ''sed'', dr_subcommand = None, dr_deny_flags = [], dr_except_flags = [],
        dr_reason = ''silent substitution; the scope of changes is hard to confirm; make changes manually''\<rparr>,
      \<lparr>dr_name = ''awk'', dr_subcommand = None, dr_deny_flags = [], dr_except_flags = [],
        dr_reason = ''complex, error-prone syntax; a misread misleads decisions; use a more targeted tool''\<rparr>,
      \<lparr>dr_name = ''ed'', dr_subcommand = None, dr_deny_flags = [], dr_except_flags = [],
        dr_reason = ''line-editor scripts mutate files silently; hard to confirm the scope of changes''\<rparr>,
      \<lparr>dr_name = ''ex'', dr_subcommand = None, dr_deny_flags = [], dr_except_flags = [],
        dr_reason = ''line-editor (ex mode) scripts mutate files silently; hard to confirm the scope of changes''\<rparr>,
      \<lparr>dr_name = ''git'', dr_subcommand = Some ''rebase'', dr_deny_flags = [''-i'', ''--interactive''],
        dr_except_flags = [],
        dr_reason = ''interactive rebase rewrites history; that is operator-only (re-run with flags written literally if this was a false positive)''\<rparr>,
      \<lparr>dr_name = ''git'', dr_subcommand = Some ''push'', dr_deny_flags = [''-f'', ''--force'', ''--force-with-lease''],
        dr_except_flags = [],
        dr_reason = ''force push is operator-only: it publishes rewritten history (re-run with flags written literally if this was a false positive)''\<rparr>,
      \<lparr>dr_name = ''git'', dr_subcommand = Some ''filter-branch'', dr_deny_flags = [], dr_except_flags = [],
        dr_reason = ''filter-branch rewrites history wholesale; that is operator-only''\<rparr>,
      \<lparr>dr_name = ''git'', dr_subcommand = Some ''config'', dr_deny_flags = [],
        dr_except_flags = [''--get'', ''--get-all'', ''--get-regexp'', ''--list'', ''-l'', ''--get-color'', ''--get-colorbool''],
        dr_reason = ''git config writes are operator-only: they could plant an alias around these rules; reads need a --get/--list flag, written literally''\<rparr>]"

definition UNVERIFIABLE_GIT_SHAPE_REASON :: string where
  "UNVERIFIABLE_GIT_SHAPE_REASON = ''git subcommand or flag shape could not be verified statically - this floor gates rebase -i, force push, filter-branch, and config writes; rewrite the command with literal flags (or have the operator run it)''"

text \<open>Outer \<open>None\<close>: unverifiable. \<open>Some None\<close>: the words ran out before a subcommand.\<close>

function git_scan :: "node list \<Rightarrow> string option option" where
  "git_scan [] = Some None"
| "git_scan (w # ws) =
     (case word_literal_value w of
        None \<Rightarrow> None
      | Some raw \<Rightarrow>
          let token = strip_surrounding_quotes raw
          in if token \<in> set GIT_VALUE_GLOBAL_FLAGS
             then (case ws of
                     [] \<Rightarrow> Some None
                   | v # ws' \<Rightarrow> if word_literal_value v = None then None else git_scan ws')
             else if token \<in> set GIT_BOOL_GLOBAL_FLAGS then git_scan ws
             else if begins ''-'' token then None
             else Some (Some token))"
  by pat_completeness auto

termination by (relation "measure length") simp_all

definition locate_git_subcommand :: "node list \<Rightarrow> string option option" where
  "locate_git_subcommand ws = git_scan (drop 1 ws)"

definition flag_matches :: "string \<Rightarrow> string \<Rightarrow> bool" where
  "flag_matches token f \<longleftrightarrow>
     (if begins ''--'' f then before_eq token = f
      else token = f \<or>
        begins ''-'' token \<and> \<not> begins ''--'' token \<and> length f = 2 \<and> length token \<le> 3 \<and>
        f ! 1 \<in> set (drop 1 token))"

definition flags_match :: "node list \<Rightarrow> string list \<Rightarrow> bool" where
  "flags_match ws flags \<longleftrightarrow>
     list_ex (\<lambda>w. case redirect_target_literal w of
        None \<Rightarrow> False
      | Some token \<Rightarrow> list_ex (flag_matches token) flags) (drop 1 ws)"

definition rule_matches :: "string \<Rightarrow> node list \<Rightarrow> deny_rule \<Rightarrow> bool" where
  "rule_matches subc ws r \<longleftrightarrow>
     dr_subcommand r = Some subc \<and>
     (list_ex (\<lambda>w. word_literal_value w = None) (drop 2 ws) \<or>
      (dr_deny_flags r = [] \<or> flags_match ws (dr_deny_flags r)) \<and> \<not> flags_match ws (dr_except_flags r))"

definition builtin_deny_reason_for :: "string \<Rightarrow> node list \<Rightarrow> string option" where
  "builtin_deny_reason_for name ws =
     (let rules = filter (\<lambda>r. eq_ignore_ascii_case (dr_name r) name) BUILTIN_DENYLIST
      in case List.find (\<lambda>r. dr_subcommand r = None) rules of
           Some r \<Rightarrow> Some (dr_reason r)
         | None \<Rightarrow>
             if rules = [] then None
             else case locate_git_subcommand ws of
                    None \<Rightarrow> Some UNVERIFIABLE_GIT_SHAPE_REASON
                  | Some None \<Rightarrow> None
                  | Some (Some subc) \<Rightarrow> map_option dr_reason (List.find (rule_matches subc ws) rules))"

definition builtin_deny_reason :: "string \<Rightarrow> string option" where
  "builtin_deny_reason name =
     map_option dr_reason
       (List.find (\<lambda>r. dr_subcommand r = None \<and> eq_ignore_ascii_case (dr_name r) name) BUILTIN_DENYLIST)"

datatype key_err = EmptyKey | InterpreterKey string | DeniedKey string

definition is_valid_override_key :: "string \<Rightarrow> key_err + unit" where
  "is_valid_override_key name =
     (if trim name = [] then Inl EmptyKey
      else if name \<in> set SHELL_INTERPRETERS \<or> name \<in> set EVAL_COMMANDS then Inl (InterpreterKey name)
      else if builtin_deny_reason name \<noteq> None then Inl (DeniedKey name)
      else Inr ())"

end
