(* ===== verification/Exec_Classifier.thy ===== *)
theory Exec_Classifier
  imports Shell_Ast
begin

text \<open>
  The preset-aware shell-command classifier (\<open>kallip-runtime/src/policy/classifier/walker.rs\<close>,
  \<open>helpers.rs\<close>, \<open>delegate.rs\<close>, the catalogue lookup of \<open>catalog.rs\<close>, \<open>mod.rs\<close>) and the hook matcher
  (\<open>hooks.rs\<close>), over the tree of \<open>Shell_Ast\<close>.

  The walker and its helpers call each other; here a helper takes the walker as its argument \<open>walk\<close>,
  and congruence rules tell the termination checker which subtrees it is applied to. Interpreter
  delegation re-parses a string, so its recursion is not structural: \<open>delegate\<close> counts the remaining
  nesting in \<open>n\<close>, and what happens below nesting \<open>n\<close> is an argument \<open>deep\<close> that no result depends on
  once \<open>n\<close> exceeds the length of the text, for a parser whose words are no longer than the text they
  were read from.
\<close>

section \<open>Decisions\<close>

datatype tool_decision = TAllow | TAsk "string option" | TDeny string

fun stricter_decision :: "tool_decision \<Rightarrow> tool_decision \<Rightarrow> tool_decision" where
  "stricter_decision (TDeny r) _ = TDeny r"
| "stricter_decision _ (TDeny r) = TDeny r"
| "stricter_decision (TAsk ra) (TAsk rb) =
     TAsk (case (ra, rb) of
        (Some a, Some b) \<Rightarrow> if a = b then Some a else Some (a @ ''; '' @ b)
      | (Some a, None) \<Rightarrow> Some a
      | (None, Some b) \<Rightarrow> Some b
      | (None, None) \<Rightarrow> None)"
| "stricter_decision (TAsk r) TAllow = TAsk r"
| "stricter_decision TAllow (TAsk r) = TAsk r"
| "stricter_decision TAllow TAllow = TAllow"

definition strictest :: "tool_decision list \<Rightarrow> tool_decision" where
  "strictest ds = foldl stricter_decision TAllow ds"

record classify_ctx =
  cx_catalog :: "command_spec list"
  cx_preset :: policy_preset
  cx_overrides :: exec_policy

definition needs_approval :: "classify_ctx \<Rightarrow> string \<Rightarrow> tool_decision" where
  "needs_approval ctx r =
     (case cx_preset ctx of Auto \<Rightarrow> TAllow | Default \<Rightarrow> TAsk (Some r) | AllowAll \<Rightarrow> TDeny r)"

section \<open>The catalogue verdict\<close>

fun classify_spec :: "string \<Rightarrow> spec_constraint list \<Rightarrow> classify_ctx \<Rightarrow> node list \<Rightarrow> tool_decision" where
  "classify_spec name [] ctx ws = TAllow"
| "classify_spec name (Subcommands safe # cs) ctx ws =
     (case (case drop 1 ws of [] \<Rightarrow> None | w # _ \<Rightarrow> word_literal_value w) of
        None \<Rightarrow> classify_spec name cs ctx ws
      | Some subc \<Rightarrow>
          if subc \<notin> set safe
          then needs_approval ctx ([quote_char] @ name @ '' '' @ subc @ [quote_char] @ '' is not a read-only ''
                 @ name @ '' subcommand'')
          else classify_spec name cs ctx ws)"
| "classify_spec name (MutatingFlags flags # cs) ctx ws =
     (case find_mutating_flag ws flags of
        Some flag \<Rightarrow> needs_approval ctx ([quote_char] @ name @ [quote_char] @ '' flag '' @ [quote_char] @ flag
                 @ [quote_char] @ '' may mutate state'')
      | None \<Rightarrow> classify_spec name cs ctx ws)"
| "classify_spec name (MutatingPredicate predicate # cs) ctx ws =
     (if predicate ws
      then needs_approval ctx ([quote_char] @ name @ [quote_char] @ '' invocation runs a command'')
      else classify_spec name cs ctx ws)"

definition classify_named_command :: "classify_ctx \<Rightarrow> string \<Rightarrow> node list \<Rightarrow> tool_decision option" where
  "classify_named_command ctx name ws =
     map_option (\<lambda>sp. classify_spec (sp_name sp) (sp_constraints sp) ctx ws)
       (List.find (\<lambda>sp. sp_name sp = name) (cx_catalog ctx))"

definition ask_reason :: "string \<Rightarrow> exec_override option \<Rightarrow> string" where
  "ask_reason name ov =
     (case Option.bind ov reason of
        Some r \<Rightarrow> r
      | None \<Rightarrow> [quote_char] @ name @ [quote_char] @ '' is set to '' @ [quote_char] @ ''ask'' @ [quote_char]
          @ '' by exec_policy'')"

definition deny_reason :: "string \<Rightarrow> exec_override option \<Rightarrow> string" where
  "deny_reason name ov =
     (case Option.bind ov reason of
        Some r \<Rightarrow> r
      | None \<Rightarrow> ''denied by exec_policy override for '' @ [quote_char] @ name @ [quote_char])"

definition apply_override ::
  "classify_ctx \<Rightarrow> string \<Rightarrow> node list \<Rightarrow> tool_decision option \<Rightarrow> tool_decision" where
  "apply_override ctx name ws catalog_verdict =
     (case builtin_deny_reason_for name ws of
        Some r \<Rightarrow> TDeny r
      | None \<Rightarrow>
          let ov = override_for (cx_overrides ctx) name
          in case (catalog_verdict, map_option decision ov) of
               (None, Some Allow) \<Rightarrow> TAllow
             | (None, Some Ask) \<Rightarrow> TAsk (Some (ask_reason name ov))
             | (None, Some Deny) \<Rightarrow> TDeny (deny_reason name ov)
             | (None, None) \<Rightarrow>
                 needs_approval ctx ([quote_char] @ name @ [quote_char] @ '' is not in the read-only catalog'')
             | (Some d, Some Allow) \<Rightarrow> d
             | (Some d, Some Ask) \<Rightarrow> TAsk (Some (ask_reason name ov))
             | (Some d, Some Deny) \<Rightarrow> TDeny (deny_reason name ov)
             | (Some d, None) \<Rightarrow> d)"

section \<open>Redirects and assignments\<close>

definition READ_ONLY_REDIRECT_SINKS :: "string list" where
  "READ_ONLY_REDIRECT_SINKS = [''/dev/null'']"

definition WRITE_REDIRECT_OPS :: "string list" where
  "WRITE_REDIRECT_OPS = [''>'', ''>>'', ''>|'', ''<>'', ''&>'', ''&>>'']"

definition is_fd_number :: "string \<Rightarrow> bool" where
  "is_fd_number s \<longleftrightarrow> s \<noteq> [] \<and> list_all is_digit s"

definition classify_redirect_op :: "classify_ctx \<Rightarrow> string \<Rightarrow> string option \<Rightarrow> tool_decision" where
  "classify_redirect_op ctx op target_lit =
     (let is_write_op = op \<in> set WRITE_REDIRECT_OPS; is_dup_op = (op = ''>&'' \<or> op = ''<&'')
      in if op = ''>&-'' then TAllow
         else if (\<exists>t \<in> set_option target_lit. is_dup_op \<and> is_fd_number t) then TAllow
         else if op = ''<'' \<or> op = ''<<<'' then TAllow
         else case target_lit of
                Some t \<Rightarrow>
                  if is_write_op \<and> t \<in> set READ_ONLY_REDIRECT_SINKS then TAllow
                  else if is_write_op
                  then needs_approval ctx (''output redirect '' @ [quote_char] @ op @ [quote_char] @ '' to '' @ [quote_char]
                         @ t @ [quote_char])
                  else if is_dup_op
                  then needs_approval ctx (''redirect '' @ [quote_char] @ op @ [quote_char] @ '' to '' @ [quote_char] @ t
                         @ [quote_char])
                  else needs_approval ctx (''redirect operator '' @ [quote_char] @ op @ [quote_char] @ '' is not auto-approved'')
              | None \<Rightarrow>
                  if is_write_op
                  then needs_approval ctx (''output redirect '' @ [quote_char] @ op @ [quote_char] @ '' to a non-literal target'')
                  else needs_approval ctx (''redirect operator '' @ [quote_char] @ op @ [quote_char] @ '' is not auto-approved''))"

definition heredoc_decision :: "classify_ctx \<Rightarrow> tool_decision" where
  "heredoc_decision ctx = needs_approval ctx ''here-document is not auto-approved''"

definition classify_redirect_node :: "(node \<Rightarrow> tool_decision) \<Rightarrow> classify_ctx \<Rightarrow> node \<Rightarrow> tool_decision" where
  "classify_redirect_node walk ctx n =
     (case n of
        NRedirect op target \<Rightarrow>
          stricter_decision (classify_redirect_op ctx op (redirect_target_literal target)) (walk target)
      | NLeaf k \<Rightarrow> if k = HereDoc then heredoc_decision ctx else walk n
      | _ \<Rightarrow> walk n)"

definition classify_redirects :: "(node \<Rightarrow> tool_decision) \<Rightarrow> classify_ctx \<Rightarrow> node list \<Rightarrow> tool_decision" where
  "classify_redirects walk ctx rs = strictest (map (classify_redirect_node walk ctx) rs)"

definition classify_assignment_name :: "classify_ctx \<Rightarrow> node \<Rightarrow> tool_decision" where
  "classify_assignment_name ctx a =
     (case a of
        NWord v ps \<Rightarrow>
          if list_ex (\<lambda>x. eq_ignore_ascii_case x (before_eq v)) SENSITIVE_ENV_VARS
          then needs_approval ctx (''assignment to sensitive env var '' @ [quote_char] @ before_eq v @ [quote_char])
          else TAllow
      | _ \<Rightarrow> TAllow)"

definition classify_word_parts :: "(node \<Rightarrow> tool_decision) \<Rightarrow> node list \<Rightarrow> tool_decision" where
  "classify_word_parts walk ps = strictest (map walk ps)"

definition classify_assignment :: "(node \<Rightarrow> tool_decision) \<Rightarrow> classify_ctx \<Rightarrow> node \<Rightarrow> tool_decision" where
  "classify_assignment walk ctx a =
     stricter_decision (classify_assignment_name ctx a)
       (case a of NWord v ps \<Rightarrow> if ps \<noteq> [] then classify_word_parts walk ps else TAllow | _ \<Rightarrow> TAllow)"

definition classify_assignments :: "(node \<Rightarrow> tool_decision) \<Rightarrow> classify_ctx \<Rightarrow> node list \<Rightarrow> tool_decision" where
  "classify_assignments walk ctx asg = strictest (map (classify_assignment walk ctx) asg)"

definition classify_word_expansions :: "(node \<Rightarrow> tool_decision) \<Rightarrow> node list \<Rightarrow> tool_decision" where
  "classify_word_expansions walk ws = strictest (map walk (drop 1 ws))"

definition classify_multi ::
  "(node \<Rightarrow> tool_decision) \<Rightarrow> classify_ctx \<Rightarrow> node list \<Rightarrow> node option \<Rightarrow> node list \<Rightarrow> tool_decision" where
  "classify_multi walk ctx required opt redirects =
     (let dec = strictest (map walk required);
          dec1 = (case opt of None \<Rightarrow> dec | Some n \<Rightarrow> stricter_decision dec (walk n))
      in stricter_decision dec1 (classify_redirects walk ctx redirects))"

definition pipeline_names :: "node list \<Rightarrow> string list" where
  "pipeline_names cmds =
     List.map_filter
       (\<lambda>c. case c of
          NCommand asg ws rs \<Rightarrow>
            (case ws of [] \<Rightarrow> None | w # _ \<Rightarrow> map_option to_ascii_lowercase (word_literal_value w))
        | _ \<Rightarrow> None) cmds"

definition is_download_to_shell :: "node list \<Rightarrow> bool" where
  "is_download_to_shell cmds \<longleftrightarrow>
     list_ex (\<lambda>n. n = ''curl'' \<or> n = ''wget'') (pipeline_names cmds) \<and>
     list_ex (\<lambda>n. n \<in> set SHELL_INTERPRETERS) (pipeline_names cmds)"

section \<open>Interpreter delegation\<close>

fun find_c_flag :: "bool \<Rightarrow> node list \<Rightarrow> string option" where
  "find_c_flag found [] = None"
| "find_c_flag found (w # ws) =
     (case word_literal_value w of
        None \<Rightarrow> None
      | Some v \<Rightarrow> if found then Some v else find_c_flag (v \<in> set COMMAND_STRING_FLAGS) ws)"

definition find_c_flag_argument :: "node list \<Rightarrow> string option" where
  "find_c_flag_argument ws = find_c_flag False (drop 1 ws)"

fun join_space :: "string list \<Rightarrow> string" where
  "join_space [] = []"
| "join_space [s] = s"
| "join_space (s # t # ss) = s @ '' '' @ join_space (t # ss)"

definition collect_remaining_args :: "node list \<Rightarrow> string option" where
  "collect_remaining_args ws =
     (let args = List.map_filter (\<lambda>w. map_option strip_surrounding_quotes (word_literal_value w)) (drop 1 ws)
      in if args = [] then None else Some (join_space args))"

definition inner_source :: "string \<Rightarrow> node list \<Rightarrow> string option" where
  "inner_source name ws =
     map_option strip_surrounding_quotes
       (if name \<in> set SHELL_INTERPRETERS then find_c_flag_argument ws
        else if name \<in> set EVAL_COMMANDS then collect_remaining_args ws
        else None)"

section \<open>The walker\<close>

definition classify_simple_command ::
  "(node \<Rightarrow> tool_decision) \<Rightarrow> (string \<Rightarrow> tool_decision) \<Rightarrow> classify_ctx \<Rightarrow> node list \<Rightarrow> node list \<Rightarrow> node list \<Rightarrow>
   tool_decision" where
  "classify_simple_command walk dlg ctx ws redirects asg =
     (case ws of
        [] \<Rightarrow> classify_assignments walk ctx asg
      | w # _ \<Rightarrow>
          case extract_command_name w of
            None \<Rightarrow> stricter_decision (needs_approval ctx ''command name is not a literal word'') (walk w)
          | Some raw \<Rightarrow>
              let name = to_ascii_lowercase raw
              in case inner_source name ws of
                   Some src \<Rightarrow> dlg src
                 | None \<Rightarrow>
                     strictest [apply_override ctx name ws (classify_named_command ctx name ws),
                       classify_redirects walk ctx redirects, classify_word_expansions walk ws,
                       classify_assignments walk ctx asg])"

definition empty_command :: tool_decision where
  "empty_command = TDeny ''empty command''"

fun classify_leaf :: "classify_ctx \<Rightarrow> leaf_kind \<Rightarrow> tool_decision" where
  "classify_leaf ctx HereDoc = heredoc_decision ctx"
| "classify_leaf ctx ParamIndirect =
     needs_approval ctx ''indirect parameter expansion can read arbitrary variables''"
| "classify_leaf ctx EmptyNode = empty_command"
| "classify_leaf ctx _ = TAllow"

fun unary_base :: "classify_ctx \<Rightarrow> unary_kind \<Rightarrow> tool_decision option" where
  "unary_base ctx FunctionDef = Some (needs_approval ctx ''function definitions can later execute arbitrary code'')"
| "unary_base ctx ProcessSubstitution = Some (needs_approval ctx ''process substitution runs a command'')"
| "unary_base ctx Coproc = Some (needs_approval ctx (''coproc runs an unobservable background process; '' @
     ''use the runtime's native background execution instead''))"
| "unary_base ctx _ = None"

definition opt_walk :: "(node \<Rightarrow> tool_decision) \<Rightarrow> node option \<Rightarrow> tool_decision" where
  "opt_walk walk e = (case e of None \<Rightarrow> TAllow | Some n \<Rightarrow> walk n)"

definition then_opt :: "(node \<Rightarrow> tool_decision) \<Rightarrow> tool_decision \<Rightarrow> node option \<Rightarrow> tool_decision" where
  "then_opt walk d e = (case e of None \<Rightarrow> d | Some n \<Rightarrow> stricter_decision d (walk n))"

definition case_arm :: "(node \<Rightarrow> tool_decision) \<Rightarrow> tool_decision \<Rightarrow> node list \<times> node option \<Rightarrow> tool_decision" where
  "case_arm walk d arm =
     then_opt walk (foldl (\<lambda>acc n. stricter_decision acc (walk n)) d (fst arm)) (snd arm)"

lemma redirect_node_cong [fundef_cong]:
  assumes "n = n'"
    and "\<And>op t. n' = NRedirect op t \<Longrightarrow> walk t = walk' t"
    and "n' \<noteq> NLeaf HereDoc \<Longrightarrow> (\<forall>op t. n' \<noteq> NRedirect op t) \<Longrightarrow> walk n' = walk' n'"
  shows "classify_redirect_node walk ctx n = classify_redirect_node walk' ctx n'"
  using assms by (cases n') (auto simp: classify_redirect_node_def)

lemma redirects_cong [fundef_cong]:
  assumes "rs = rs'"
    and "\<And>n op t. n \<in> set rs' \<Longrightarrow> n = NRedirect op t \<Longrightarrow> walk t = walk' t"
    and "\<And>n. n \<in> set rs' \<Longrightarrow> walk n = walk' n"
  shows "classify_redirects walk ctx rs = classify_redirects walk' ctx rs'"
  unfolding classify_redirects_def
  by (rule arg_cong [of _ _ strictest], rule map_cong [OF assms(1)], rule redirect_node_cong)
    (use assms in auto)

lemma assignments_cong [fundef_cong]:
  assumes "asg = asg'"
    and "\<And>n v ps p. n \<in> set asg' \<Longrightarrow> n = NWord v ps \<Longrightarrow> p \<in> set ps \<Longrightarrow> walk p = walk' p"
  shows "classify_assignments walk ctx asg = classify_assignments walk' ctx asg'"
  unfolding classify_assignments_def classify_assignment_def classify_word_parts_def
  using assms by (auto cong: map_cong split: node.split intro!: arg_cong [of _ _ strictest] map_cong)


lemma multi_cong [fundef_cong]:
  assumes "req = req'" "opt = opt'" "rs = rs'"
    and "\<And>n. n \<in> set req' \<Longrightarrow> walk n = walk' n"
    and "\<And>n. opt' = Some n \<Longrightarrow> walk n = walk' n"
    and "\<And>n op t. n \<in> set rs' \<Longrightarrow> n = NRedirect op t \<Longrightarrow> walk t = walk' t"
    and "\<And>n. n \<in> set rs' \<Longrightarrow> walk n = walk' n"
  shows "classify_multi walk ctx req opt rs = classify_multi walk' ctx req' opt' rs'"
proof -
  have "map walk req = map walk' req'" using assms by simp
  moreover have "classify_redirects walk ctx rs = classify_redirects walk' ctx rs'"
    by (rule redirects_cong) (use assms in auto)
  ultimately show ?thesis
    using assms by (auto simp: classify_multi_def Let_def split: option.split cong: map_cong)
qed

lemma case_arm_cong [fundef_cong]:
  assumes "d = d'" "arm = arm'"
    and "\<And>ns b n. arm' = (ns, b) \<Longrightarrow> n \<in> set ns \<Longrightarrow> walk n = walk' n"
    and "\<And>ns n. arm' = (ns, Some n) \<Longrightarrow> walk n = walk' n"
  shows "case_arm walk d arm = case_arm walk' d' arm'"
proof -
  obtain ns b where a: "arm' = (ns, b)" by (cases arm')
  have "foldl (\<lambda>acc n. stricter_decision acc (walk n)) d' ns = foldl (\<lambda>acc n. stricter_decision acc (walk' n)) d' ns"
    by (rule foldl_cong) (use a assms(3) in auto)
  then show ?thesis using assms a by (auto simp: case_arm_def then_opt_def split: option.split)
qed

lemma opt_walk_cong [fundef_cong]:
  "e = e' \<Longrightarrow> (\<And>n. e' = Some n \<Longrightarrow> walk n = walk' n) \<Longrightarrow> opt_walk walk e = opt_walk walk' e'"
  by (auto simp: opt_walk_def split: option.split)

lemma then_opt_cong [fundef_cong]:
  "d = d' \<Longrightarrow> e = e' \<Longrightarrow> (\<And>n. e' = Some n \<Longrightarrow> walk n = walk' n) \<Longrightarrow> then_opt walk d e = then_opt walk' d' e'"
  by (auto simp: then_opt_def split: option.split)

lemma simple_command_cong [fundef_cong]:
  assumes "dlg = dlg'" "ws = ws'" "rs = rs'" "asg = asg'"
    and "\<And>n. n \<in> set ws' \<Longrightarrow> walk n = walk' n"
    and "\<And>n op t. n \<in> set rs' \<Longrightarrow> n = NRedirect op t \<Longrightarrow> walk t = walk' t"
    and "\<And>n. n \<in> set rs' \<Longrightarrow> walk n = walk' n"
    and "\<And>n v ps p. n \<in> set asg' \<Longrightarrow> n = NWord v ps \<Longrightarrow> p \<in> set ps \<Longrightarrow> walk p = walk' p"
  shows "classify_simple_command walk dlg ctx ws rs asg = classify_simple_command walk' dlg' ctx ws' rs' asg'"
proof -
  have "map walk (drop 1 ws) = map walk' (drop 1 ws')"
    using assms(2,5) by (auto dest: in_set_dropD)
  moreover have "classify_redirects walk ctx rs = classify_redirects walk' ctx rs'"
    by (rule redirects_cong) (use assms in auto)
  moreover have "classify_assignments walk ctx asg = classify_assignments walk' ctx asg'"
    by (rule assignments_cong) (use assms in auto)
  ultimately show ?thesis
    using assms(1,2,5) unfolding classify_simple_command_def classify_word_expansions_def Let_def
    by (auto split: list.split option.split cong: map_cong)
qed

lemma word_parts_cong [fundef_cong]:
  "ps = ps' \<Longrightarrow> (\<And>n. n \<in> set ps' \<Longrightarrow> walk n = walk' n) \<Longrightarrow> classify_word_parts walk ps = classify_word_parts walk' ps'"
  by (simp add: classify_word_parts_def cong: map_cong)

definition background_decision :: "classify_ctx \<Rightarrow> tool_decision" where
  "background_decision ctx = needs_approval ctx (''background operator '' @ [quote_char] @ ''&'' @ [quote_char]
     @ '' runs an unobservable process; '' @ ''use the runtime's native background execution instead'')"

definition download_decision :: tool_decision where
  "download_decision = TDeny (''downloading and piping to a shell is not allowed; '' @
     ''download the file first, review it, then execute it'')"

lemma size_in_list: "n \<in> set ns \<Longrightarrow> size n \<le> size_list size ns"
  by (rule size_list_estimation') auto

lemma size_redirect_in: "NRedirect op t \<in> set rs \<Longrightarrow> size t < size_list size rs"
  using size_in_list [of "NRedirect op t" rs] by simp

lemma size_part_in: "NWord v ps \<in> set asg \<Longrightarrow> p \<in> set ps \<Longrightarrow> size p < size_list size asg"
  using size_in_list [of "NWord v ps" asg] size_in_list [of p ps] by simp

lemma size_item_in:
  fixes c :: node
  assumes "(c, op) \<in> set items"
  shows "size c \<le> size_list (size_prod size (\<lambda>_. 0)) items"
  by (rule size_list_estimation' [OF assms]) simp

abbreviation arms_size :: "(node list \<times> node option) list \<Rightarrow> nat" where
  "arms_size \<equiv> size_list (size_prod (size_list size) (size_option size))"

lemma size_pattern_in:
  assumes "(ns, b) \<in> set arms" "n \<in> set ns"
  shows "size n \<le> arms_size arms"
  by (rule size_list_estimation' [OF assms(1)]) (use size_in_list [OF assms(2)] in simp)

lemma size_body_in: "(ns, Some n) \<in> set arms \<Longrightarrow> size n \<le> arms_size arms"
  by (rule size_list_estimation') auto

lemmas walk_sizes = size_in_list size_redirect_in size_part_in size_item_in size_pattern_in size_body_in

function classify_node :: "(string \<Rightarrow> tool_decision) \<Rightarrow> classify_ctx \<Rightarrow> node \<Rightarrow> tool_decision" where
  "classify_node dlg ctx (NCommand asg ws rs) =
     (if ws = [] \<and> asg = [] \<and> rs = [] then empty_command
      else classify_simple_command (classify_node dlg ctx) dlg ctx ws rs asg)"
| "classify_node dlg ctx (NPipeline cmds) =
     stricter_decision (if is_download_to_shell cmds then download_decision else TAllow)
       (strictest (map (classify_node dlg ctx) cmds))"
| "classify_node dlg ctx (NList items) =
     (if list_ex (\<lambda>(c, op). op = Some Background) items then background_decision ctx
      else strictest (map (\<lambda>(c, op). classify_node dlg ctx c) items))"
| "classify_node dlg ctx (NIf c t e rs) = classify_multi (classify_node dlg ctx) ctx [c, t] e rs"
| "classify_node dlg ctx (NLoop k c b rs) = classify_multi (classify_node dlg ctx) ctx [c, b] None rs"
| "classify_node dlg ctx (NIter k iter b rs) =
     (let dec = classify_multi (classify_node dlg ctx) ctx [b] None rs
      in case iter of
           None \<Rightarrow> dec
         | Some ws \<Rightarrow> stricter_decision dec (strictest (map (classify_node dlg ctx) ws)))"
| "classify_node dlg ctx (NForArith b rs) = classify_multi (classify_node dlg ctx) ctx [b] None rs"
| "classify_node dlg ctx (NCase w arms rs) =
     stricter_decision (foldl (case_arm (classify_node dlg ctx)) (classify_node dlg ctx w) arms)
       (classify_redirects (classify_node dlg ctx) ctx rs)"
| "classify_node dlg ctx (NGroup k b rs) =
     stricter_decision (classify_node dlg ctx b) (classify_redirects (classify_node dlg ctx) ctx rs)"
| "classify_node dlg ctx (NRedirect op t) =
     classify_redirect_node (classify_node dlg ctx) ctx (NRedirect op t)"
| "classify_node dlg ctx (NWord v ps) =
     (if ps = [] then TAllow else classify_word_parts (classify_node dlg ctx) ps)"
| "classify_node dlg ctx (NArithmeticExpansion e) = opt_walk (classify_node dlg ctx) e"
| "classify_node dlg ctx (NArithmeticCommand e rs) =
     stricter_decision (opt_walk (classify_node dlg ctx) e) (classify_redirects (classify_node dlg ctx) ctx rs)"
| "classify_node dlg ctx (NArithTernary c t f) =
     then_opt (classify_node dlg ctx) (then_opt (classify_node dlg ctx) (classify_node dlg ctx c) t) f"
| "classify_node dlg ctx (NArithConcat ps) = strictest (map (classify_node dlg ctx) ps)"
| "classify_node dlg ctx (NLeaf k) = classify_leaf ctx k"
| "classify_node dlg ctx (NUnary k c) =
     (case unary_base ctx k of
        None \<Rightarrow> classify_node dlg ctx c
      | Some d \<Rightarrow> stricter_decision d (classify_node dlg ctx c))"
| "classify_node dlg ctx (NBinary k l r) =
     stricter_decision (classify_node dlg ctx l) (classify_node dlg ctx r)"
  by pat_completeness auto

termination
  by (relation "measure (\<lambda>(dlg, ctx, n). size n)") (auto dest: walk_sizes)

declare classify_node.simps [simp del]

definition classify_nodes :: "(string \<Rightarrow> tool_decision) \<Rightarrow> classify_ctx \<Rightarrow> node list \<Rightarrow> tool_decision" where
  "classify_nodes dlg ctx ns = strictest (map (classify_node dlg ctx) ns)"

primrec delegate :: "parser \<Rightarrow> (string \<Rightarrow> tool_decision) \<Rightarrow> classify_ctx \<Rightarrow> nat \<Rightarrow> string \<Rightarrow> tool_decision" where
  "delegate parse deep ctx 0 src = deep src"
| "delegate parse deep ctx (Suc n) src =
     (case parse src of
        Inr nodes \<Rightarrow> classify_nodes (delegate parse deep ctx n) ctx nodes
      | Inl e \<Rightarrow> TDeny ''failed to parse inner command for interpreter delegate'')"

definition classify_interpreter_delegate :: "parser \<Rightarrow> (string \<Rightarrow> tool_decision) \<Rightarrow> classify_ctx \<Rightarrow> string \<Rightarrow> tool_decision" where
  "classify_interpreter_delegate parse deep ctx src = delegate parse deep ctx (Suc (length src)) src"

definition classify_command :: "parser \<Rightarrow> (string \<Rightarrow> tool_decision) \<Rightarrow> classify_ctx \<Rightarrow> string \<Rightarrow> tool_decision" where
  "classify_command parse deep ctx command =
     (let trimmed = trim command
      in if trimmed = [] then TDeny ''empty commands are not allowed''
         else case parse trimmed of
                Inr nodes \<Rightarrow>
                  if nodes = [] then TDeny ''command parsed to an empty AST''
                  else if cx_preset ctx = AllowAll then TAllow
                  else classify_nodes (classify_interpreter_delegate parse deep ctx) ctx nodes
              | Inl e \<Rightarrow> TDeny (''failed to parse command: '' @ e))"

definition classify_with ::
  "parser \<Rightarrow> (string \<Rightarrow> tool_decision) \<Rightarrow> string \<Rightarrow> exec_policy \<Rightarrow> policy_preset \<Rightarrow> tool_decision" where
  "classify_with parse deep command ov preset =
     classify_command parse deep
       \<lparr>cx_catalog = READ_ONLY_CATALOG, cx_preset = preset, cx_overrides = ov\<rparr> command"

section \<open>Hooks\<close>

datatype hook_trigger = Prefix "string list" | WriteRedirect

datatype hook_phase = Post | Pre

record hook_rule =
  hk_tool :: string
  hk_trigger :: hook_trigger
  hk_phase :: hook_phase
  hk_note :: string

type_synonym segment = "string option list"

record scan =
  sc_segments :: "segment list"
  sc_write :: bool

definition WRITE_REDIRECT_KEY :: string where "WRITE_REDIRECT_KEY = ''@write-redirect''"

definition override_key :: "hook_rule \<Rightarrow> string" where
  "override_key r = (case hk_trigger r of Prefix tokens \<Rightarrow> join_space tokens | WriteRedirect \<Rightarrow> WRITE_REDIRECT_KEY)"

definition is_write_redirect :: "node \<Rightarrow> bool" where
  "is_write_redirect n \<longleftrightarrow>
     (case n of
        NRedirect op t \<Rightarrow> op \<in> set WRITE_REDIRECT_OPS \<and>
          \<not> (\<exists>x \<in> set_option (redirect_target_literal t). x \<in> set READ_ONLY_REDIRECT_SINKS)
      | _ \<Rightarrow> False)"

definition observe_redirects :: "node list \<Rightarrow> scan \<Rightarrow> scan" where
  "observe_redirects rs sc = (if list_ex is_write_redirect rs then sc\<lparr>sc_write := True\<rparr> else sc)"

definition literal_token :: "node \<Rightarrow> string option" where
  "literal_token w = map_option to_ascii_lowercase (redirect_target_literal w)"

definition word_parts :: "node \<Rightarrow> node list" where
  "word_parts w = (case w of NWord v ps \<Rightarrow> ps | _ \<Rightarrow> [])"

definition runs_child :: "unary_kind \<Rightarrow> bool" where
  "runs_child k \<longleftrightarrow>
     k \<in> {FunctionDef, Negation, TimeCmd, Coproc, CommandSubstitution, ProcessSubstitution}"

definition opt_list :: "'a option \<Rightarrow> 'a list" where
  "opt_list x = (case x of None \<Rightarrow> [] | Some a \<Rightarrow> [a])"

text \<open>The nodes that \<open>collect_segments\<close> visits below a node, and the redirects it observes there.\<close>

fun scanned :: "node \<Rightarrow> node list" where
  "scanned (NCommand asg ws rs) = concat (map word_parts ws)"
| "scanned (NPipeline cmds) = cmds"
| "scanned (NList items) = map fst items"
| "scanned (NIf c t e rs) = c # t # opt_list e"
| "scanned (NLoop k c b rs) = [c, b]"
| "scanned (NIter k iter b rs) = concat (opt_list iter) @ [b]"
| "scanned (NForArith b rs) = [b]"
| "scanned (NCase w arms rs) = w # concat (map (\<lambda>(ps, b). opt_list b) arms)"
| "scanned (NGroup k b rs) = [b]"
| "scanned (NArithmeticCommand e rs) = opt_list e"
| "scanned (NWord v ps) = ps"
| "scanned (NUnary k c) = (if runs_child k then [c] else [])"
| "scanned _ = []"

fun observed :: "node \<Rightarrow> node list" where
  "observed (NCommand asg ws rs) = rs"
| "observed (NIf c t e rs) = rs"
| "observed (NLoop k c b rs) = rs"
| "observed (NIter k iter b rs) = rs"
| "observed (NForArith b rs) = rs"
| "observed (NCase w arms rs) = rs"
| "observed (NGroup k b rs) = rs"
| "observed (NArithmeticCommand e rs) = rs"
| "observed _ = []"

definition own_segment :: "node \<Rightarrow> segment list" where
  "own_segment n = (case n of NCommand asg ws rs \<Rightarrow> if ws = [] then [] else [map literal_token ws] | _ \<Rightarrow> [])"

lemma size_opt_in: "n \<in> set (opt_list e) \<Longrightarrow> size n < size_option size e"
  by (auto simp: opt_list_def split: option.splits)

lemma size_scanned: "m \<in> set (scanned n) \<Longrightarrow> size m < size n"
proof (induction n rule: scanned.induct)
  case (1 asg ws rs)
  then obtain w where "w \<in> set ws" "m \<in> set (word_parts w)" by auto
  then show ?case using size_part_in [of _ "word_parts w" ws m]
    by (force simp: word_parts_def split: node.splits)
next
  case (6 k iter b rs)
  then show ?case by (auto simp: opt_list_def split: option.splits dest: size_in_list)
next
  case (8 w arms rs)
  then show ?case by (auto simp: opt_list_def split: option.splits dest: size_body_in)
qed (auto dest: size_in_list size_item_in size_opt_in split: if_splits)

function collect_node :: "node \<Rightarrow> scan \<Rightarrow> scan" where
  "collect_node n sc =
     observe_redirects (observed n)
       (fold collect_node (scanned n) (sc\<lparr>sc_segments := sc_segments sc @ own_segment n\<rparr>))"
  by auto

termination
  by (relation "measure (\<lambda>(n, sc). size n)") (auto dest: size_scanned)

declare collect_node.simps [simp del]

definition collect_segments :: "node list \<Rightarrow> scan \<Rightarrow> scan" where
  "collect_segments ns sc = fold collect_node ns sc"

definition scan_command :: "parser \<Rightarrow> string \<Rightarrow> segment list \<times> bool" where
  "scan_command parse command =
     (let trimmed = trim command
      in if trimmed = [] then ([], False)
         else case parse trimmed of
                Inl e \<Rightarrow> ([], False)
              | Inr nodes \<Rightarrow>
                  (let sc = collect_segments nodes \<lparr>sc_segments = [], sc_write = False\<rparr>
                   in (sc_segments sc, sc_write sc)))"

definition prefix_matches :: "string list \<Rightarrow> segment \<Rightarrow> bool" where
  "prefix_matches pre seg \<longleftrightarrow>
     length pre \<le> length seg \<and> list_all2 (\<lambda>token tok. tok = Some (to_ascii_lowercase token)) pre (take (length pre) seg)"

definition hook_matches :: "hook_rule list \<Rightarrow> segment list \<Rightarrow> bool \<Rightarrow> hook_rule list" where
  "hook_matches rules segs write_redirect =
     filter (\<lambda>rule. case hk_trigger rule of
         Prefix pre \<Rightarrow> pre \<noteq> [] \<and> list_ex (prefix_matches pre) segs
       | WriteRedirect \<Rightarrow> write_redirect) rules"

end
