(* ===== verification/Exec_Laws.thy ===== *)
theory Exec_Laws
  imports Exec_Classifier
begin

text \<open>
  What the classifier of \<open>Exec_Classifier\<close> guarantees: it fails closed, a verdict dominates the
  verdicts of everything the walker looks at, the builtin denylist is a floor for every command the
  walker reaches (through interpreter delegation too), the \<open>auto\<close> preset never refuses less than
  \<open>default\<close>, and a stricter exec policy never yields a laxer verdict. The positions the walker does
  not look at are stated as theorems as well.
\<close>

section \<open>Severity\<close>

fun severity :: "tool_decision \<Rightarrow> exec_decision" where
  "severity TAllow = Allow" | "severity (TAsk r) = Ask" | "severity (TDeny r) = Deny"

lemma severity_order [simp]:
  "Allow \<le> d" "d \<le> Deny" "Deny \<le> d \<longleftrightarrow> d = Deny" "d \<le> Allow \<longleftrightarrow> d = Allow" "\<not> Ask \<le> Allow" "\<not> Deny \<le> Ask"
  by (cases d; simp add: less_eq_exec_decision_def)+

lemma severity_stricter [simp]: "severity (stricter_decision a b) = max (severity a) (severity b)"
  by (cases a; cases b) (auto simp: max_def less_eq_exec_decision_def)

lemma stricter_TAllow [simp]: "stricter_decision d TAllow = d" "stricter_decision TAllow d = d"
  by (cases d; simp)+

lemma severity_foldl_le:
  "severity (foldl stricter_decision d ds) \<le> s \<longleftrightarrow> severity d \<le> s \<and> (\<forall>x \<in> set ds. severity x \<le> s)"
  by (induction ds arbitrary: d) auto

lemma severity_strictest_le [simp]: "severity (strictest ds) \<le> s \<longleftrightarrow> (\<forall>x \<in> set ds. severity x \<le> s)"
  by (simp add: strictest_def severity_foldl_le)

lemma severity_strictest_ge: "x \<in> set ds \<Longrightarrow> s \<le> severity x \<Longrightarrow> s \<le> severity (strictest ds)"
  using severity_strictest_le [of ds "severity (strictest ds)"] by (meson order.refl order.trans)

lemma severity_Deny: "severity d = Deny \<longleftrightarrow> (\<exists>r. d = TDeny r)"
  by (cases d) auto

lemma severity_then_opt [simp]:
  "severity (then_opt walk d e) = (case e of None \<Rightarrow> severity d | Some n \<Rightarrow> max (severity d) (severity (walk n)))"
  by (simp add: then_opt_def split: option.split)

lemma severity_case_arm_le:
  "severity (case_arm walk d (ps, b)) \<le> s \<longleftrightarrow>
    severity d \<le> s \<and> (\<forall>p \<in> set ps. severity (walk p) \<le> s) \<and> (\<forall>n \<in> set_option b. severity (walk n) \<le> s)"
  using severity_foldl_le [of d "map walk ps" s]
  by (auto simp: case_arm_def foldl_map split: option.splits)

lemma severity_case_arms_le:
  "severity (foldl (case_arm walk) d arms) \<le> s \<longleftrightarrow>
    severity d \<le> s \<and> (\<forall>(ps, b) \<in> set arms. (\<forall>p \<in> set ps. severity (walk p) \<le> s) \<and>
      (\<forall>n \<in> set_option b. severity (walk n) \<le> s))"
  by (induction arms arbitrary: d) (auto simp: severity_case_arm_le)

section \<open>What the walker looks at\<close>

fun looked_at :: "node \<Rightarrow> node list" where
  "looked_at (NCommand asg ws rs) =
     (case ws of
        [] \<Rightarrow> concat (map word_parts asg)
      | w # ws' \<Rightarrow>
          case extract_command_name w of
            None \<Rightarrow> [w]
          | Some raw \<Rightarrow>
              if inner_source (to_ascii_lowercase raw) ws = None then ws' @ rs @ concat (map word_parts asg) else [])"
| "looked_at (NPipeline cmds) = cmds"
| "looked_at (NList items) = (if list_ex (\<lambda>(c, op). op = Some Background) items then [] else map fst items)"
| "looked_at (NIf c t e rs) = c # t # opt_list e @ rs"
| "looked_at (NLoop k c b rs) = c # b # rs"
| "looked_at (NIter k iter b rs) = concat (opt_list iter) @ b # rs"
| "looked_at (NForArith b rs) = b # rs"
| "looked_at (NCase w arms rs) = w # concat (map (\<lambda>(ps, b). ps @ opt_list b) arms) @ rs"
| "looked_at (NGroup k b rs) = b # rs"
| "looked_at (NRedirect op t) = [t]"
| "looked_at (NWord v ps) = ps"
| "looked_at (NArithmeticExpansion e) = opt_list e"
| "looked_at (NArithmeticCommand e rs) = opt_list e @ rs"
| "looked_at (NArithTernary c t f) = c # opt_list t @ opt_list f"
| "looked_at (NArithConcat ps) = ps"
| "looked_at (NLeaf k) = []"
| "looked_at (NUnary k c) = [c]"
| "looked_at (NBinary k l r) = [l, r]"

lemma redirect_node_walk [simp]:
  "classify_redirect_node (classify_node dlg ctx) ctx n = classify_node dlg ctx n"
  by (cases n) (auto simp: classify_redirect_node_def classify_node.simps)

lemma redirects_walk:
  "classify_redirects (classify_node dlg ctx) ctx rs = strictest (map (classify_node dlg ctx) rs)"
  by (simp add: classify_redirects_def cong: map_cong)

lemma assignment_le:
  "severity (classify_assignment walk ctx a) \<le> s \<longleftrightarrow>
    severity (classify_assignment_name ctx a) \<le> s \<and> (\<forall>p \<in> set (word_parts a). severity (walk p) \<le> s)"
  by (cases a) (auto simp: classify_assignment_def word_parts_def classify_word_parts_def)

lemma assignments_le:
  "severity (classify_assignments walk ctx asg) \<le> s \<longleftrightarrow>
    (\<forall>a \<in> set asg. severity (classify_assignment_name ctx a) \<le> s \<and>
      (\<forall>p \<in> set (word_parts a). severity (walk p) \<le> s))"
  by (simp add: classify_assignments_def assignment_le)

lemma multi_le:
  "severity (classify_multi (classify_node dlg ctx) ctx req e rs) \<le> s \<longleftrightarrow>
    (\<forall>n \<in> set (req @ opt_list e @ rs). severity (classify_node dlg ctx n) \<le> s)"
  by (auto simp: classify_multi_def Let_def redirects_walk opt_list_def split: option.splits)

text \<open>What a node contributes on its own, apart from the nodes below it.\<close>

fun own_verdict :: "(string \<Rightarrow> tool_decision) \<Rightarrow> classify_ctx \<Rightarrow> node \<Rightarrow> tool_decision" where
  "own_verdict dlg ctx (NCommand asg ws rs) =
     (case ws of
        [] \<Rightarrow> if asg = [] \<and> rs = [] then empty_command else strictest (map (classify_assignment_name ctx) asg)
      | w # _ \<Rightarrow>
          case extract_command_name w of
            None \<Rightarrow> needs_approval ctx ''command name is not a literal word''
          | Some raw \<Rightarrow>
              let name = to_ascii_lowercase raw
              in case inner_source name ws of
                   Some src \<Rightarrow> dlg src
                 | None \<Rightarrow> strictest (apply_override ctx name ws (classify_named_command ctx name ws) #
                     map (classify_assignment_name ctx) asg))"
| "own_verdict dlg ctx (NPipeline cmds) = (if is_download_to_shell cmds then download_decision else TAllow)"
| "own_verdict dlg ctx (NList items) =
     (if list_ex (\<lambda>(c, op). op = Some Background) items then background_decision ctx else TAllow)"
| "own_verdict dlg ctx (NRedirect op t) = classify_redirect_op ctx op (redirect_target_literal t)"
| "own_verdict dlg ctx (NLeaf k) = classify_leaf ctx k"
| "own_verdict dlg ctx (NUnary k c) = (case unary_base ctx k of None \<Rightarrow> TAllow | Some d \<Rightarrow> d)"
| "own_verdict dlg ctx _ = TAllow"

lemma severity_command:
  "severity (classify_node dlg ctx (NCommand asg ws rs)) \<le> s \<longleftrightarrow>
    severity (own_verdict dlg ctx (NCommand asg ws rs)) \<le> s \<and>
    (\<forall>m \<in> set (looked_at (NCommand asg ws rs)). severity (classify_node dlg ctx m) \<le> s)"
proof (cases ws)
  case Nil
  then show ?thesis
    by (cases "asg = [] \<and> rs = []")
      (auto simp: classify_node.simps classify_simple_command_def assignments_le)
next
  case (Cons w ws')
  then show ?thesis
    by (auto simp: classify_node.simps classify_simple_command_def assignments_le redirects_walk
        classify_word_expansions_def Let_def split: option.splits)
qed

text \<open>The walker's verdict is the join of the nodes' own verdicts over the nodes it looks at.\<close>

lemma severity_walk_le:
  "severity (classify_node dlg ctx n) \<le> s \<longleftrightarrow>
    severity (own_verdict dlg ctx n) \<le> s \<and> (\<forall>m \<in> set (looked_at n). severity (classify_node dlg ctx m) \<le> s)"
proof (cases n)
  case (NCommand asg ws rs)
  then show ?thesis by (simp only: severity_command)
next
  case (NCase w arms rs)
  then show ?thesis
    by (fastforce simp: classify_node.simps severity_case_arms_le redirects_walk opt_list_def split: option.splits)
qed (auto simp: classify_node.simps multi_le redirects_walk classify_redirect_node_def classify_word_parts_def
      opt_walk_def opt_list_def Let_def split: option.splits if_splits)

lemma size_looked_at: "m \<in> set (looked_at n) \<Longrightarrow> size m < size n"
proof (induction n rule: looked_at.induct)
  case (1 asg ws rs)
  then consider "m \<in> set ws" | "m \<in> set rs" | w where "w \<in> set asg" "m \<in> set (word_parts w)"
    by (auto split: list.splits option.splits if_splits)
  then show ?case
  proof cases
    case 3
    then show ?thesis using size_part_in [of _ "word_parts w" asg m]
      by (force simp: word_parts_def split: node.splits)
  qed (auto dest: size_in_list)
next
  case (6 k iter b rs)
  then show ?case by (auto simp: opt_list_def split: option.splits dest: size_in_list)
next
  case (8 w arms rs)
  then show ?case
    by (auto simp: opt_list_def split: option.splits dest: size_body_in size_pattern_in size_in_list)
qed (auto dest: size_in_list size_item_in size_opt_in split: if_splits)

inductive visible :: "node \<Rightarrow> node \<Rightarrow> bool" where
  visible_self: "visible n n"
| visible_down: "m \<in> set (looked_at n) \<Longrightarrow> visible m k \<Longrightarrow> visible n k"

lemma visible_dominated:
  "visible n m \<Longrightarrow> severity (classify_node dlg ctx n) \<le> s \<Longrightarrow> severity (classify_node dlg ctx m) \<le> s"
  by (induction rule: visible.induct) (blast dest: severity_walk_le [THEN iffD1])+

lemma visible_own:
  assumes "visible n m"
  shows "severity (own_verdict dlg ctx m) \<le> severity (classify_node dlg ctx n)"
  using visible_dominated [OF assms, of dlg ctx, OF order.refl] by (blast dest: severity_walk_le [THEN iffD1])

lemma join_attained:
  fixes v a :: "'a::linorder"
  assumes "\<And>s. v \<le> s \<longleftrightarrow> a \<le> s \<and> (\<forall>m \<in> set ms. f m \<le> s)"
  shows "v = a \<or> (\<exists>m \<in> set ms. v = f m)"
proof -
  let ?S = "insert a (f ` set ms)"
  have "v = Max ?S"
    using assms [of "Max ?S"] assms [of v] by (intro order.antisym) auto
  moreover have "Max ?S \<in> ?S" by (rule Max_in) auto
  ultimately show ?thesis by blast
qed

lemma walk_attained: "\<exists>m. visible n m \<and> severity (classify_node dlg ctx n) = severity (own_verdict dlg ctx m)"
proof (induction n rule: measure_induct_rule [of size])
  case (less n)
  from join_attained [OF severity_walk_le [of dlg ctx n]] show ?case
    using less size_looked_at visible_self visible_down by metis
qed

section \<open>Delegation\<close>

text \<open>
  The parser is frugal when the words of every simple command it delivers, each with one separating
  character, fit into the text it parsed.
\<close>

definition word_weight :: "node \<Rightarrow> nat" where
  "word_weight w = (case w of NWord v ps \<Rightarrow> Suc (length v) | _ \<Rightarrow> 0)"

definition frugal :: "parser \<Rightarrow> bool" where
  "frugal parse \<longleftrightarrow>
     (\<forall>src nodes n asg ws rs. parse src = Inr nodes \<longrightarrow> n \<in> set nodes \<longrightarrow> visible n (NCommand asg ws rs) \<longrightarrow>
        sum_list (map word_weight ws) \<le> Suc (length src))"

lemma literal_weight: "word_literal_value w = Some v \<Longrightarrow> word_weight w = Suc (length v)"
  by (auto simp: word_literal_value_def word_weight_def split: node.splits if_splits)

lemma strip_quotes_length: "length (strip_surrounding_quotes s) \<le> length s"
  by (simp add: strip_surrounding_quotes_def)

lemma find_c_flag_weight:
  "find_c_flag found ws = Some v \<Longrightarrow> length v + (if found then 1 else 2) \<le> sum_list (map word_weight ws)"
proof (induction found ws rule: find_c_flag.induct)
  case (2 found w ws)
  then show ?case
    by (cases "word_literal_value w") (auto simp: literal_weight COMMAND_STRING_FLAGS_def split: if_splits)
qed simp

lemma join_space_length: "args \<noteq> [] \<Longrightarrow> Suc (length (join_space args)) = sum_list (map (\<lambda>a. Suc (length a)) args)"
  by (induction args rule: join_space.induct) auto

lemma literal_args_weight:
  "sum_list (map (\<lambda>a. Suc (length a))
     (List.map_filter (\<lambda>w. map_option strip_surrounding_quotes (word_literal_value w)) ws))
   \<le> sum_list (map word_weight ws)"
proof (induction ws)
  case (Cons w ws)
  show ?case
  proof (cases "word_literal_value w")
    case (Some v)
    then show ?thesis using Cons strip_quotes_length [of v]
      by (simp add: map_filter_simps literal_weight)
  qed (use Cons in \<open>simp add: map_filter_simps\<close>)
qed (simp add: map_filter_simps)

lemma inner_source_shorter:
  assumes "inner_source (to_ascii_lowercase raw) (w # ws) = Some src" "extract_command_name w = Some raw"
  shows "length src + 1 < sum_list (map word_weight (w # ws))"
proof -
  have w: "word_weight w = Suc (length raw)"
    using assms(2) by (simp add: extract_command_name_def literal_weight)
  show ?thesis
  proof (cases "to_ascii_lowercase raw \<in> set SHELL_INTERPRETERS")
    case True
    then obtain v where "find_c_flag False ws = Some v" "src = strip_surrounding_quotes v"
      using assms(1) by (auto simp: inner_source_def find_c_flag_argument_def)
    then show ?thesis using find_c_flag_weight [of False ws v] strip_quotes_length [of v] w by auto
  next
    case False
    let ?args = "List.map_filter (\<lambda>w. map_option strip_surrounding_quotes (word_literal_value w)) ws"
    from False assms(1) have ev: "to_ascii_lowercase raw \<in> set EVAL_COMMANDS" "?args \<noteq> []"
        "src = strip_surrounding_quotes (join_space ?args)"
      by (auto simp: inner_source_def collect_remaining_args_def Let_def split: if_splits)
    have "1 \<le> length raw" using ev(1) by (cases raw) (auto simp: EVAL_COMMANDS_def to_ascii_lowercase_def)
    then show ?thesis
      using ev join_space_length [OF ev(2)] literal_args_weight [of ws] w
        strip_quotes_length [of "join_space ?args"] by simp
  qed
qed

lemma own_verdict_dlg:
  assumes "\<And>asg ws rs name src. n = NCommand asg ws rs \<Longrightarrow> inner_source name ws = Some src \<Longrightarrow>
      (\<exists>w ws' raw. ws = w # ws' \<and> extract_command_name w = Some raw \<and> name = to_ascii_lowercase raw) \<Longrightarrow>
      dlg src = dlg' src"
  shows "own_verdict dlg ctx n = own_verdict dlg' ctx n"
  using assms by (cases n) (auto simp: Let_def split: list.split option.split)

definition agree :: "(string \<Rightarrow> tool_decision) \<Rightarrow> (string \<Rightarrow> tool_decision) \<Rightarrow> node \<Rightarrow> bool" where
  "agree dlg dlg' n \<longleftrightarrow>
     (\<forall>asg w ws rs raw src. visible n (NCommand asg (w # ws) rs) \<longrightarrow> extract_command_name w = Some raw \<longrightarrow>
        inner_source (to_ascii_lowercase raw) (w # ws) = Some src \<longrightarrow> dlg src = dlg' src)"

lemma agreeI:
  assumes "\<And>asg w ws rs raw src. visible n (NCommand asg (w # ws) rs) \<Longrightarrow> extract_command_name w = Some raw \<Longrightarrow>
      inner_source (to_ascii_lowercase raw) (w # ws) = Some src \<Longrightarrow> dlg src = dlg' src"
  shows "agree dlg dlg' n"
  using assms unfolding agree_def by blast

lemma agreeD:
  "agree dlg dlg' (NCommand asg (w # ws) rs) \<Longrightarrow> extract_command_name w = Some raw \<Longrightarrow>
    inner_source (to_ascii_lowercase raw) (w # ws) = Some src \<Longrightarrow> dlg src = dlg' src"
  unfolding agree_def using visible_self by blast

lemma agree_down: "agree dlg dlg' n \<Longrightarrow> m \<in> set (looked_at n) \<Longrightarrow> agree dlg dlg' m"
  unfolding agree_def by (meson visible_down)

lemma multi_walk:
  "classify_multi (classify_node dlg ctx) ctx req e rs =
    stricter_decision (then_opt (classify_node dlg ctx) (strictest (map (classify_node dlg ctx) req)) e)
      (strictest (map (classify_node dlg ctx) rs))"
  by (simp add: classify_multi_def then_opt_def redirects_walk Let_def)

lemma assignments_walk_cong:
  assumes "\<And>p. p \<in> set (concat (map word_parts asg)) \<Longrightarrow> walk p = walk' p"
  shows "classify_assignments walk ctx asg = classify_assignments walk' ctx asg"
proof (rule assignments_cong)
  fix n v ps p assume "n \<in> set asg" "n = NWord v ps" "p \<in> set ps"
  then have "p \<in> set (concat (map word_parts asg))" by (auto simp: word_parts_def intro!: bexI [of _ n])
  then show "walk p = walk' p" by (rule assms)
qed simp

lemma walk_command_cong:
  assumes IH: "\<And>m. m \<in> set (looked_at (NCommand asg ws rs)) \<Longrightarrow> classify_node dlg ctx m = classify_node dlg' ctx m"
    and ag: "agree dlg dlg' (NCommand asg ws rs)"
  shows "classify_node dlg ctx (NCommand asg ws rs) = classify_node dlg' ctx (NCommand asg ws rs)"
proof (cases ws)
  case Nil
  have "classify_assignments (classify_node dlg ctx) ctx asg = classify_assignments (classify_node dlg' ctx) ctx asg"
    by (rule assignments_walk_cong) (use IH Nil in simp)
  then show ?thesis using Nil by (simp add: classify_node.simps classify_simple_command_def)
next
  case (Cons w ws')
  note c = this
  show ?thesis
  proof (cases "extract_command_name w")
    case None
    then show ?thesis using IH c by (simp add: classify_node.simps classify_simple_command_def)
  next
    case (Some raw)
    show ?thesis
    proof (cases "inner_source (to_ascii_lowercase raw) ws")
      case None
      then have sub: "classify_node dlg ctx m = classify_node dlg' ctx m"
        if "m \<in> set ws' \<union> set rs \<union> set (concat (map word_parts asg))" for m
        using IH [of m] that c Some by auto
      then have "map (classify_node dlg ctx) ws' = map (classify_node dlg' ctx) ws'"
        "map (classify_node dlg ctx) rs = map (classify_node dlg' ctx) rs"
        "classify_assignments (classify_node dlg ctx) ctx asg = classify_assignments (classify_node dlg' ctx) ctx asg"
        by (auto intro: assignments_walk_cong)
      then show ?thesis using None Some c
        by (simp add: classify_node.simps classify_simple_command_def redirects_walk
            classify_word_expansions_def Let_def cong: map_cong)
    next
      case (Some src)
      then show ?thesis
        using agreeD [OF ag [unfolded c] \<open>extract_command_name w = Some raw\<close>] \<open>extract_command_name w = Some raw\<close> c
        by (simp add: classify_node.simps classify_simple_command_def Let_def)
    qed
  qed
qed

lemma case_arms_cong:
  assumes "\<And>p. p \<in> set (concat (map (\<lambda>(ps, b). ps @ opt_list b) arms)) \<Longrightarrow> walk p = walk' p"
  shows "foldl (case_arm walk) d arms = foldl (case_arm walk') d arms"
proof (rule foldl_cong)
  fix acc arm assume arm: "arm \<in> set arms"
  have "x \<in> set (concat (map (\<lambda>(ps, b). ps @ opt_list b) arms))" if "x \<in> set (fst arm @ opt_list (snd arm))" for x
    using arm that by (auto simp: split_beta intro!: bexI [of _ arm])
  then show "case_arm walk acc arm = case_arm walk' acc arm"
    by (intro case_arm_cong assms) (auto simp: opt_list_def)
qed simp_all

lemma walk_dlg_cong: "agree dlg dlg' n \<Longrightarrow> classify_node dlg ctx n = classify_node dlg' ctx n"
proof (induction n rule: measure_induct_rule [of size])
  case (less n)
  have IH: "classify_node dlg ctx m = classify_node dlg' ctx m" if "m \<in> set (looked_at n)" for m
    using less.IH [OF size_looked_at [OF that]] agree_down [OF less.prems that] .
  show ?case
  proof (cases n)
    case (NCommand asg ws rs)
    then show ?thesis using walk_command_cong IH less.prems by simp
  next
    case (NCase w arms rs)
    then show ?thesis using IH case_arms_cong [of arms "classify_node dlg ctx" "classify_node dlg' ctx"]
      by (simp add: classify_node.simps redirects_walk cong: map_cong)
  next
    case (NList items)
    then show ?thesis using IH by (force simp: classify_node.simps intro!: arg_cong [of _ _ strictest])
  next
    case (NRedirect op t)
    then show ?thesis using IH by (simp add: classify_node.simps classify_redirect_node_def)
  qed (use IH in \<open>auto simp: classify_node.simps multi_walk redirects_walk classify_word_parts_def
      opt_walk_def then_opt_def opt_list_def Let_def split: option.splits cong: map_cong\<close>)
qed

lemma frugal_inner:
  assumes "frugal parse" "parse src = Inr nodes" "n \<in> set nodes" "visible n (NCommand asg (w # ws) rs)"
    "extract_command_name w = Some raw" "inner_source (to_ascii_lowercase raw) (w # ws) = Some inner"
  shows "length inner < length src"
proof -
  have "sum_list (map word_weight (w # ws)) \<le> Suc (length src)"
    using assms(1-4) unfolding frugal_def by blast
  with inner_source_shorter [OF assms(6,5)] show ?thesis by simp
qed

lemma delegate_enough:
  assumes "frugal parse"
  shows "length src < n \<Longrightarrow> length src < m \<Longrightarrow> delegate parse deep ctx n src = delegate parse deep' ctx m src"
proof (induction n arbitrary: m src)
  case (Suc n)
  then obtain m' where m: "m = Suc m'" by (cases m) auto
  have "classify_node (delegate parse deep ctx n) ctx nd = classify_node (delegate parse deep' ctx m') ctx nd"
    if "parse src = Inr nodes" "nd \<in> set nodes" for nodes nd
  proof (intro walk_dlg_cong agreeI)
    fix asg w ws rs raw inner
    assume "visible nd (NCommand asg (w # ws) rs)" "extract_command_name w = Some raw"
      "inner_source (to_ascii_lowercase raw) (w # ws) = Some inner"
    from frugal_inner [OF assms that this] show "delegate parse deep ctx n inner = delegate parse deep' ctx m' inner"
      using Suc.prems m by (intro Suc.IH) auto
  qed
  then show ?case by (auto simp: m classify_nodes_def split: sum.split intro!: arg_cong [of _ _ strictest])
qed simp

lemma delegate_unfold:
  assumes "frugal parse"
  shows "classify_interpreter_delegate parse deep ctx src =
    (case parse src of
       Inr nodes \<Rightarrow> classify_nodes (classify_interpreter_delegate parse deep ctx) ctx nodes
     | Inl e \<Rightarrow> TDeny ''failed to parse inner command for interpreter delegate'')"
proof -
  have "classify_node (delegate parse deep ctx (length src)) ctx nd =
      classify_node (classify_interpreter_delegate parse deep ctx) ctx nd"
    if "parse src = Inr nodes" "nd \<in> set nodes" for nodes nd
  proof (intro walk_dlg_cong agreeI)
    fix asg w ws rs raw inner
    assume "visible nd (NCommand asg (w # ws) rs)" "extract_command_name w = Some raw"
      "inner_source (to_ascii_lowercase raw) (w # ws) = Some inner"
    from frugal_inner [OF assms that this]
    show "delegate parse deep ctx (length src) inner = classify_interpreter_delegate parse deep ctx inner"
      unfolding classify_interpreter_delegate_def by (intro delegate_enough [OF assms]) auto
  qed
  then show ?thesis
    by (auto simp: classify_interpreter_delegate_def classify_nodes_def split: sum.split
        intro!: arg_cong [of _ _ strictest])
qed

section \<open>The floor\<close>

inductive executes :: "parser \<Rightarrow> node \<Rightarrow> string \<Rightarrow> node list \<Rightarrow> bool" for parse where
  executes_here: "visible n (NCommand asg (w # ws) rs) \<Longrightarrow> extract_command_name w = Some raw \<Longrightarrow>
    executes parse n (to_ascii_lowercase raw) (w # ws)"
| executes_inner: "visible n (NCommand asg (w # ws) rs) \<Longrightarrow> extract_command_name w = Some raw \<Longrightarrow>
    inner_source (to_ascii_lowercase raw) (w # ws) = Some src \<Longrightarrow> parse src = Inr nodes \<Longrightarrow>
    m \<in> set nodes \<Longrightarrow> executes parse m name args \<Longrightarrow> executes parse n name args"

lemma denylist_no_interpreter:
  "list_all (\<lambda>r. to_ascii_lowercase (dr_name r) \<notin> set SHELL_INTERPRETERS \<union> set EVAL_COMMANDS) BUILTIN_DENYLIST"
  by code_simp

lemma denied_in_list:
  assumes "builtin_deny_reason_for name ws = Some r"
  shows "\<exists>rule \<in> set BUILTIN_DENYLIST. eq_ignore_ascii_case (dr_name rule) name"
proof (rule ccontr)
  assume "\<not> ?thesis"
  then have "filter (\<lambda>r. eq_ignore_ascii_case (dr_name r) name) BUILTIN_DENYLIST = []"
    by (auto simp: filter_empty_conv)
  then show False using assms unfolding builtin_deny_reason_for_def Let_def by simp
qed

lemma denied_not_interpreter:
  assumes "builtin_deny_reason_for name ws = Some r" "to_ascii_lowercase name = name"
  shows "inner_source name ws = None"
proof -
  have "name \<notin> set SHELL_INTERPRETERS \<union> set EVAL_COMMANDS"
    using denied_in_list [OF assms(1)] denylist_no_interpreter assms(2)
    by (auto simp: list_all_iff eq_ignore_ascii_case_def)
  then show ?thesis by (simp add: inner_source_def)
qed

lemma denied_own:
  assumes "builtin_deny_reason_for (to_ascii_lowercase raw) (w # ws) = Some r" "extract_command_name w = Some raw"
  shows "severity (own_verdict dlg ctx (NCommand asg (w # ws) rs)) = Deny"
proof -
  have "Deny \<le> severity (own_verdict dlg ctx (NCommand asg (w # ws) rs))"
    using assms denied_not_interpreter [OF assms(1)]
    by (auto simp del: severity_order simp: apply_override_def Let_def intro!: severity_strictest_ge [where x = "TDeny r"])
  then show ?thesis by simp
qed

lemma executes_denied:
  assumes "frugal parse" "executes parse n name ws" "builtin_deny_reason_for name ws \<noteq> None"
  shows "severity (classify_node (classify_interpreter_delegate parse deep ctx) ctx n) = Deny"
  using assms(2,3)
proof (induction rule: executes.induct)
  case (executes_here n asg w ws rs raw)
  then obtain r where "builtin_deny_reason_for (to_ascii_lowercase raw) (w # ws) = Some r" by auto
  then show ?case
    using visible_own [OF executes_here(1), of "classify_interpreter_delegate parse deep ctx" ctx]
      denied_own [OF _ executes_here(2)] by simp
next
  case (executes_inner n asg w ws rs raw src nodes m name args)
  let ?dlg = "classify_interpreter_delegate parse deep ctx"
  have "Deny \<le> severity (classify_nodes ?dlg ctx nodes)"
    using executes_inner by (auto simp del: severity_order simp: classify_nodes_def intro!: severity_strictest_ge)
  then have "severity (?dlg src) = Deny"
    using executes_inner by (simp add: delegate_unfold [OF assms(1)])
  then show ?case
    using visible_own [OF executes_inner(1), of ?dlg ctx] executes_inner(2,3) by simp
qed

section \<open>Comparing contexts\<close>

lemma strictest_mono:
  assumes "\<And>x. x \<in> set xs \<Longrightarrow> severity (f x) \<le> severity (g x)"
  shows "severity (strictest (map f xs)) \<le> severity (strictest (map g xs))"
  by (auto intro!: severity_strictest_ge [OF _ assms])

lemma strictest_Cons: "severity (strictest (d # ds)) = max (severity d) (severity (strictest ds))"
  by (rule order.antisym) (auto simp: le_max_iff_disj intro: severity_strictest_ge)

lemma walk_mono:
  assumes own: "\<And>m. severity (own_verdict dlg ctx m) \<le> severity (own_verdict dlg' ctx' m)"
  shows "severity (classify_node dlg ctx n) \<le> severity (classify_node dlg' ctx' n)"
proof -
  obtain m where m: "visible n m" "severity (classify_node dlg ctx n) = severity (own_verdict dlg ctx m)"
    using walk_attained by blast
  have "severity (classify_node dlg ctx n) \<le> severity (own_verdict dlg' ctx' m)" using own m(2) by simp
  also have "\<dots> \<le> severity (classify_node dlg' ctx' n)" by (rule visible_own [OF m(1)])
  finally show ?thesis .
qed

lemma assignment_name_mono:
  assumes "\<And>r. severity (needs_approval ctx r) \<le> severity (needs_approval ctx' r)"
  shows "severity (classify_assignment_name ctx a) \<le> severity (classify_assignment_name ctx' a)"
  using assms by (cases a) (auto simp: classify_assignment_name_def)

lemma own_mono:
  assumes na: "\<And>r. severity (needs_approval ctx r) \<le> severity (needs_approval ctx' r)"
    and ov: "\<And>name ws. severity (apply_override ctx name ws (classify_named_command ctx name ws)) \<le>
      severity (apply_override ctx' name ws (classify_named_command ctx' name ws))"
    and dl: "\<And>src. severity (dlg src) \<le> severity (dlg' src)"
  shows "severity (own_verdict dlg ctx n) \<le> severity (own_verdict dlg' ctx' n)"
proof (cases n)
  case (NCommand asg ws rs)
  have asg: "severity (strictest (map (classify_assignment_name ctx) asg)) \<le>
      severity (strictest (map (classify_assignment_name ctx') asg))"
    by (rule strictest_mono [OF assignment_name_mono [OF na]])
  then show ?thesis
    using na dl ov unfolding NCommand
    by (auto simp: Let_def strictest_Cons simp del: severity_strictest_le max.bounded_iff split: list.split option.split
        intro: max.mono)
next
  case (NRedirect op t)
  then show ?thesis using na by (auto simp: classify_redirect_op_def Let_def split: option.split)
next
  case (NLeaf k)
  then show ?thesis using na by (cases k) (auto simp: heredoc_decision_def)
next
  case (NUnary k c)
  then show ?thesis using na by (cases k) auto
qed (use na in \<open>auto simp: background_decision_def\<close>)

lemma delegate_mono:
  assumes "\<And>r. severity (needs_approval ctx r) \<le> severity (needs_approval ctx' r)"
    and "\<And>name ws. severity (apply_override ctx name ws (classify_named_command ctx name ws)) \<le>
      severity (apply_override ctx' name ws (classify_named_command ctx' name ws))"
  shows "severity (delegate parse deep ctx n src) \<le> severity (delegate parse deep ctx' n src)"
proof (induction n arbitrary: src)
  case (Suc n)
  show ?case
    by (auto simp: classify_nodes_def simp del: severity_strictest_le split: sum.split
        intro!: strictest_mono walk_mono own_mono assms Suc)
qed simp

lemma classify_mono:
  assumes na: "\<And>r. severity (needs_approval ctx r) \<le> severity (needs_approval ctx' r)"
    and ov: "\<And>name ws. severity (apply_override ctx name ws (classify_named_command ctx name ws)) \<le>
      severity (apply_override ctx' name ws (classify_named_command ctx' name ws))"
    and all: "cx_preset ctx' = AllowAll \<Longrightarrow> cx_preset ctx = AllowAll"
  shows "severity (classify_command parse deep ctx command) \<le> severity (classify_command parse deep ctx' command)"
  using all
  by (auto simp: classify_command_def Let_def classify_nodes_def classify_interpreter_delegate_def
      simp del: severity_strictest_le split: sum.split
      intro!: strictest_mono walk_mono own_mono delegate_mono na ov)

lemma spec_mono:
  assumes "\<And>r. severity (needs_approval ctx r) \<le> severity (needs_approval ctx' r)"
  shows "severity (classify_spec name cs ctx ws) \<le> severity (classify_spec name cs ctx' ws)"
proof (induction cs)
  case (Cons c cs)
  then show ?case using assms by (cases c) (auto split: option.split)
qed simp

lemma strictest_Deny: "severity (strictest ds) = Deny \<longleftrightarrow> (\<exists>d \<in> set ds. severity d = Deny)"
proof
  assume d: "severity (strictest ds) = Deny"
  have "severity (strictest ds) = Allow \<or> (\<exists>d \<in> set ds. severity (strictest ds) = severity d)"
    by (rule join_attained) simp
  with d show "\<exists>d \<in> set ds. severity d = Deny" by (metis exec_decision.distinct(3))
next
  assume "\<exists>d \<in> set ds. severity d = Deny"
  then have "Deny \<le> severity (strictest ds)"
    by (auto simp del: severity_order intro!: severity_strictest_ge)
  then show "severity (strictest ds) = Deny" by simp
qed

subsection \<open>Presets\<close>

lemma needs_approval_cases:
  "severity (needs_approval ctx r) = (case cx_preset ctx of Auto \<Rightarrow> Allow | Default \<Rightarrow> Ask | AllowAll \<Rightarrow> Deny)"
  by (simp add: needs_approval_def split: policy_preset.split)

lemma spec_not_Deny:
  "cx_preset ctx \<noteq> AllowAll \<Longrightarrow> severity (classify_spec name cs ctx ws) \<noteq> Deny"
proof (induction cs)
  case (Cons c cs)
  then show ?case
    by (cases c) (auto simp: needs_approval_cases split: option.split policy_preset.split)
qed simp

lemma named_preset_mono:
  "severity (apply_override (ctx\<lparr>cx_preset := Auto\<rparr>) name ws (classify_named_command (ctx\<lparr>cx_preset := Auto\<rparr>) name ws)) \<le>
    severity (apply_override (ctx\<lparr>cx_preset := Default\<rparr>) name ws (classify_named_command (ctx\<lparr>cx_preset := Default\<rparr>) name ws))"
proof -
  have "severity (classify_spec n cs (ctx\<lparr>cx_preset := Auto\<rparr>) ws) \<le>
      severity (classify_spec n cs (ctx\<lparr>cx_preset := Default\<rparr>) ws)" for n cs
    by (rule spec_mono) (simp add: needs_approval_cases)
  then show ?thesis
    by (auto simp: apply_override_def classify_named_command_def Let_def needs_approval_cases
        split: option.split exec_decision.split)
qed

lemma named_preset_Deny:
  assumes "severity (apply_override (ctx\<lparr>cx_preset := Default\<rparr>) name ws
    (classify_named_command (ctx\<lparr>cx_preset := Default\<rparr>) name ws)) = Deny"
  shows "severity (apply_override (ctx\<lparr>cx_preset := Auto\<rparr>) name ws
    (classify_named_command (ctx\<lparr>cx_preset := Auto\<rparr>) name ws)) = Deny"
  using assms spec_not_Deny [of "ctx\<lparr>cx_preset := Default\<rparr>"]
  by (auto simp: apply_override_def classify_named_command_def Let_def needs_approval_cases
      split: option.splits exec_decision.splits)

lemma own_preset_Deny:
  assumes dl: "\<And>src. severity (dlg src) = Deny \<Longrightarrow> severity (dlg' src) = Deny"
    and d: "severity (own_verdict dlg (ctx\<lparr>cx_preset := Default\<rparr>) n) = Deny"
  shows "severity (own_verdict dlg' (ctx\<lparr>cx_preset := Auto\<rparr>) n) = Deny"
proof (cases n)
  case (NCommand asg ws rs)
  have asg: "severity (classify_assignment_name (ctx\<lparr>cx_preset := Default\<rparr>) a) \<noteq> Deny" for a
    by (cases a) (auto simp: classify_assignment_name_def needs_approval_cases)
  show ?thesis
    using d dl named_preset_Deny asg unfolding NCommand
    by (fastforce simp: Let_def strictest_Deny needs_approval_cases empty_command_def
        split: list.splits option.splits if_splits)
next
  case (NRedirect op t)
  then show ?thesis using d
    by (auto simp: classify_redirect_op_def Let_def needs_approval_cases split: option.splits if_splits)
next
  case (NLeaf k)
  then show ?thesis using d by (cases k) (auto simp: heredoc_decision_def needs_approval_cases)
next
  case (NUnary k c)
  then show ?thesis using d by (cases k) (auto simp: needs_approval_cases)
qed (use d in \<open>auto simp: background_decision_def needs_approval_cases split: if_splits\<close>)

lemma walk_preset_Deny:
  assumes "\<And>src. severity (dlg src) = Deny \<Longrightarrow> severity (dlg' src) = Deny"
    and "severity (classify_node dlg (ctx\<lparr>cx_preset := Default\<rparr>) n) = Deny"
  shows "severity (classify_node dlg' (ctx\<lparr>cx_preset := Auto\<rparr>) n) = Deny"
proof -
  obtain m where m: "visible n m" "severity (own_verdict dlg (ctx\<lparr>cx_preset := Default\<rparr>) m) = Deny"
    using walk_attained [of n dlg "ctx\<lparr>cx_preset := Default\<rparr>"] assms(2) by auto
  have "severity (own_verdict dlg' (ctx\<lparr>cx_preset := Auto\<rparr>) m) = Deny"
    by (rule own_preset_Deny [OF assms(1) m(2)])
  with visible_own [OF m(1), of dlg' "ctx\<lparr>cx_preset := Auto\<rparr>"] show ?thesis by simp
qed

lemma delegate_preset_Deny:
  "severity (delegate parse deep (ctx\<lparr>cx_preset := Default\<rparr>) n src) = Deny \<Longrightarrow>
    severity (delegate parse deep (ctx\<lparr>cx_preset := Auto\<rparr>) n src) = Deny"
proof (induction n arbitrary: src)
  case (Suc n)
  show ?case
  proof (cases "parse src")
    case (Inr nodes)
    with Suc.prems obtain nd where "nd \<in> set nodes"
      "severity (classify_node (delegate parse deep (ctx\<lparr>cx_preset := Default\<rparr>) n) (ctx\<lparr>cx_preset := Default\<rparr>) nd) = Deny"
      by (auto simp: classify_nodes_def strictest_Deny)
    then have "severity (classify_node (delegate parse deep (ctx\<lparr>cx_preset := Auto\<rparr>) n) (ctx\<lparr>cx_preset := Auto\<rparr>) nd) = Deny"
      by (intro walk_preset_Deny [OF Suc.IH])
    with \<open>nd \<in> set nodes\<close> Inr show ?thesis by (auto simp: classify_nodes_def strictest_Deny)
  qed simp
qed simp

subsection \<open>Policies\<close>

lemma override_mono:
  assumes strict: "stricter exec_baseline child parent" and ctx: "cx_catalog ctx = READ_ONLY_CATALOG" "cx_preset ctx = Default"
  shows "severity (apply_override (ctx\<lparr>cx_overrides := parent\<rparr>) name ws
      (classify_named_command (ctx\<lparr>cx_overrides := parent\<rparr>) name ws)) \<le>
    severity (apply_override (ctx\<lparr>cx_overrides := child\<rparr>) name ws
      (classify_named_command (ctx\<lparr>cx_overrides := child\<rparr>) name ws))"
proof -
  have same: "severity (classify_spec n cs (ctx\<lparr>cx_overrides := parent\<rparr>) ws) \<le>
      severity (classify_spec n cs (ctx\<lparr>cx_overrides := child\<rparr>) ws)" for n cs
    by (rule spec_mono) (simp add: needs_approval_cases)
  have notD: "severity (classify_spec n cs (ctx\<lparr>cx_overrides := parent\<rparr>) ws) \<noteq> Deny" for n cs
    by (rule spec_not_Deny) (simp add: ctx)
  have le: "effective exec_baseline parent name \<le> effective exec_baseline child name"
    using strict by (simp add: stricter_def)
  have cat: "catalog_contains name \<longleftrightarrow> List.find (\<lambda>sp. sp_name sp = name) READ_ONLY_CATALOG \<noteq> None"
    by (auto simp: catalog_contains_def list_ex_iff find_None_iff)
  have ask: "d \<noteq> Deny \<Longrightarrow> d \<le> Ask" for d by (cases d) (auto simp: less_eq_exec_decision_def)
  show ?thesis
  proof (cases "List.find (\<lambda>sp. sp_name sp = name) READ_ONLY_CATALOG")
    case None
    with cat have b: "exec_baseline name = Ask" by (simp add: exec_baseline_def)
    show ?thesis
      using le None by (auto simp: effective_def b apply_override_def classify_named_command_def ctx Let_def
          needs_approval_cases split: option.splits exec_decision.splits)
  next
    case (Some sp)
    with cat have b: "exec_baseline name = Allow" by (simp add: exec_baseline_def)
    show ?thesis
      using le Some same notD ask by (auto simp: effective_def b apply_override_def classify_named_command_def ctx Let_def
          split: option.splits exec_decision.splits)
  qed
qed

section \<open>A concrete parser for the witnesses\<close>

definition wd :: "string \<Rightarrow> node" where "wd s = NWord s [NLeaf WordLiteral]"

definition cmd :: "string list \<Rightarrow> node" where "cmd ss = NCommand [] (map wd ss) []"

definition sample_parse :: parser where
  "sample_parse src =
     (if src = ''bash -c \"sed x\"'' then Inr [cmd [''bash'', ''-c'', [dquote_char] @ ''sed x'' @ [dquote_char]]]
      else if src = ''sed x'' then Inr [cmd [''sed'', ''x'']]
      else if src = ''cargo'' then Inr [cmd [''cargo'']]
      else Inl ''syntax'')"

lemma wd_literal [simp]: "word_literal_value (wd s) = Some s"
  by (simp add: wd_def word_literal_value_def is_literal_part_def)

lemma wd_name [simp]: "extract_command_name (wd s) = Some s"
  by (simp add: extract_command_name_def)

lemma looked_at_cmd: "set (looked_at (cmd ss)) \<subseteq> set (map wd ss)"
  by (cases ss) (auto simp: cmd_def)

lemma visible_wd: "visible n k \<Longrightarrow> n \<in> range wd \<union> {NLeaf WordLiteral} \<Longrightarrow> k \<in> range wd \<union> {NLeaf WordLiteral}"
  by (induction rule: visible.induct) (auto simp: wd_def)

lemma visible_cmd: "visible (cmd ss) (NCommand asg ws rs) \<Longrightarrow> ws = map wd ss"
proof (erule visible.cases)
  fix m n k assume "cmd ss = n" "NCommand asg ws rs = k" "m \<in> set (looked_at n)" "visible m k"
  then have "NCommand asg ws rs \<in> range wd \<union> {NLeaf WordLiteral}"
    using visible_wd [of m k] looked_at_cmd [of ss] by auto
  then show ?thesis by (auto simp: wd_def)
qed (simp add: cmd_def)

lemma sample_frugal: "frugal sample_parse"
  unfolding frugal_def
  by (auto simp: sample_parse_def word_weight_def wd_def split: if_splits dest!: visible_cmd)

lemma sample_executes: "executes sample_parse (cmd [''bash'', ''-c'', [dquote_char] @ ''sed x'' @ [dquote_char]]) ''sed'' [wd ''sed'', wd ''x'']"
proof -
  have inner: "executes sample_parse (cmd [''sed'', ''x'']) (to_ascii_lowercase ''sed'') [wd ''sed'', wd ''x'']"
    by (rule executes_here [of _ "[]" _ _ "[]"]) (simp_all add: cmd_def visible_self)
  have lower: "to_ascii_lowercase ''sed'' = ''sed''" "to_ascii_lowercase ''bash'' = ''bash''" by code_simp+
  have src: "inner_source ''bash'' [wd ''bash'', wd ''-c'', wd ([dquote_char] @ ''sed x'' @ [dquote_char])] = Some ''sed x''"
    by (simp add: inner_source_def SHELL_INTERPRETERS_def find_c_flag_argument_def COMMAND_STRING_FLAGS_def
        strip_surrounding_quotes_def)
  show ?thesis
    by (rule executes_inner [where asg = "[]" and rs = "[]" and raw = "''bash''" and src = "''sed x''" and w = "wd ''bash''"
          and ws = "[wd ''-c'', wd ([dquote_char] @ ''sed x'' @ [dquote_char])]"
          and nodes = "[cmd [''sed'', ''x'']]" and m = "cmd [''sed'', ''x'']"])
      (use inner src lower in \<open>simp_all add: cmd_def visible_self sample_parse_def\<close>)
qed

section \<open>Properties\<close>

text \<open>
  C38. The classifier fails closed: an empty command, text the parser rejects and text without any
  command are denied under every preset, \<open>allow-all\<close> included; and it always decides (the nesting
  allowance is never exhausted): for a parser whose words fit into the text they were read from, the
  verdict does not depend on what is assumed beyond the allowance.
\<close>

theorem classifier_fails_closed:
  "(trim command = [] \<or> (\<exists>e. parse (trim command) = Inl e) \<or> parse (trim command) = Inr [] \<longrightarrow>
      (\<exists>r. classify_with parse deep command ov preset = TDeny r)) \<and>
    (frugal parse \<longrightarrow> classify_with parse deep command ov preset = classify_with parse deep' command ov preset)"
proof (intro conjI impI)
  assume fr: "frugal parse"
  have e: "classify_interpreter_delegate parse deep ctx = classify_interpreter_delegate parse deep' ctx" for ctx
    by (rule ext) (unfold classify_interpreter_delegate_def, rule delegate_enough [OF fr], simp_all)
  show "classify_with parse deep command ov preset = classify_with parse deep' command ov preset"
    unfolding classify_with_def classify_command_def e ..
qed (auto simp: classify_with_def classify_command_def Let_def)

theorem classifier_fails_closed_witness:
  "(\<exists>r. classify_with sample_parse (\<lambda>_. TAllow) '' '' \<lparr>overrides = []\<rparr> AllowAll = TDeny r) \<and>
    classify_with sample_parse (\<lambda>_. TAllow) ''sed x'' \<lparr>overrides = []\<rparr> Auto =
    classify_with sample_parse (\<lambda>_. TDeny []) ''sed x'' \<lparr>overrides = []\<rparr> Auto"
proof -
  have "trim '' '' = []" by code_simp
  then show ?thesis
    using classifier_fails_closed [THEN conjunct1, rule_format, of "'' ''" sample_parse "\<lambda>_. TAllow" "\<lparr>overrides = []\<rparr>" AllowAll]
      classifier_fails_closed [THEN conjunct2, rule_format, OF sample_frugal] by blast
qed



text \<open>
  C3. The builtin denylist is a floor: whenever running the text would run a denied invocation at a
  position the walker looks at, directly or inside any nesting of interpreter or eval strings, the
  verdict is a denial, whatever the per-agent overrides and under every preset but \<open>allow-all\<close>.
\<close>

theorem denylist_floor:
  assumes "frugal parse" "parse (trim command) = Inr nodes" "n \<in> set nodes" "executes parse n name ws"
    "builtin_deny_reason_for name ws \<noteq> None" "preset \<noteq> AllowAll" "trim command \<noteq> []"
  shows "\<exists>r. classify_with parse deep command ov preset = TDeny r"
proof -
  let ?ctx = "\<lparr>cx_catalog = READ_ONLY_CATALOG, cx_preset = preset, cx_overrides = ov\<rparr>"
  have "severity (classify_nodes (classify_interpreter_delegate parse deep ?ctx) ?ctx nodes) = Deny"
    using executes_denied [OF assms(1,4,5)] assms(3) by (auto simp: classify_nodes_def strictest_Deny)
  then show ?thesis
    using assms by (auto simp: classify_with_def classify_command_def Let_def severity_Deny)
qed

theorem denylist_floor_witness:
  "\<exists>r. classify_with sample_parse (\<lambda>_. TAllow) ''bash -c \"sed x\"''
    \<lparr>overrides = [(''sed'', new_override Allow)]\<rparr> Auto = TDeny r"
proof -
  have t: "trim ''bash -c \"sed x\"'' = ''bash -c \"sed x\"''" by code_simp
  have d: "builtin_deny_reason_for ''sed'' [wd ''sed'', wd ''x''] \<noteq> None"
    by (simp add: builtin_deny_reason_for_def BUILTIN_DENYLIST_def eq_ignore_ascii_case_def)
  show ?thesis
    by (rule denylist_floor [where nodes = "[cmd [''bash'', ''-c'', [dquote_char] @ ''sed x'' @ [dquote_char]]]",
          OF sample_frugal _ _ sample_executes d])
      (simp_all add: t sample_parse_def)
qed

text \<open>
  The \<open>auto\<close> preset waives approvals only: for every command its verdict is at most as severe as
  under \<open>default\<close>, and it denies exactly the commands \<open>default\<close> denies.
\<close>

theorem auto_waives_only_approval:
  "severity (classify_with parse deep command ov Auto) \<le> severity (classify_with parse deep command ov Default) \<and>
    ((\<exists>r. classify_with parse deep command ov Auto = TDeny r) \<longleftrightarrow>
     (\<exists>r. classify_with parse deep command ov Default = TDeny r))"
proof -
  let ?ctx = "\<lparr>cx_catalog = READ_ONLY_CATALOG, cx_preset = Auto, cx_overrides = ov\<rparr>"
  let ?A = "?ctx\<lparr>cx_preset := Auto\<rparr>" and ?D = "?ctx\<lparr>cx_preset := Default\<rparr>"
  have le: "severity (classify_command parse deep ?A command) \<le> severity (classify_command parse deep ?D command)"
    by (rule classify_mono [OF _ named_preset_mono]) (simp_all add: needs_approval_cases)
  have walk: "severity (classify_node (classify_interpreter_delegate parse deep ?A) ?A nd) = Deny"
    if "severity (classify_node (classify_interpreter_delegate parse deep ?D) ?D nd) = Deny" for nd
    using that by (intro walk_preset_Deny)
      (auto simp only: classify_interpreter_delegate_def dest: delegate_preset_Deny)
  have "severity (classify_command parse deep ?A command) = Deny" if "severity (classify_command parse deep ?D command) = Deny"
    using that walk unfolding classify_command_def Let_def classify_nodes_def
    by (auto simp: strictest_Deny split: sum.splits if_splits)
  with le show ?thesis by (auto simp: classify_with_def severity_Deny [symmetric])
qed

section \<open>What the hook scan sees\<close>

function scan_tree :: "node \<Rightarrow> node list" where
  "scan_tree n = n # concat (map scan_tree (scanned n))"
  by auto

termination by (relation "measure size") (auto dest: size_scanned)

declare scan_tree.simps [simp del]

lemma fold_collect:
  assumes "\<And>m sc. m \<in> set ms \<Longrightarrow> collect_node m sc =
      sc\<lparr>sc_segments := sc_segments sc @ concat (map own_segment (scan_tree m)),
        sc_write := sc_write sc \<or> list_ex (\<lambda>k. list_ex is_write_redirect (observed k)) (scan_tree m)\<rparr>"
  shows "fold collect_node ms sc =
      sc\<lparr>sc_segments := sc_segments sc @ concat (map own_segment (concat (map scan_tree ms))),
        sc_write := sc_write sc \<or> list_ex (\<lambda>k. list_ex is_write_redirect (observed k)) (concat (map scan_tree ms))\<rparr>"
  using assms by (induction ms arbitrary: sc) auto

lemma collect_node_tree:
  "collect_node n sc =
    sc\<lparr>sc_segments := sc_segments sc @ concat (map own_segment (scan_tree n)),
      sc_write := sc_write sc \<or> list_ex (\<lambda>k. list_ex is_write_redirect (observed k)) (scan_tree n)\<rparr>"
proof (induction n arbitrary: sc rule: measure_induct_rule [of size])
  case (less n)
  have "fold collect_node (scanned n) sc' =
      sc'\<lparr>sc_segments := sc_segments sc' @ concat (map own_segment (concat (map scan_tree (scanned n)))),
        sc_write := sc_write sc' \<or> list_ex (\<lambda>k. list_ex is_write_redirect (observed k)) (concat (map scan_tree (scanned n)))\<rparr>" for sc'
    by (rule fold_collect) (use less size_scanned in blast)
  then show ?case
    by (subst collect_node.simps, subst (1 2) scan_tree.simps) (auto simp: observe_redirects_def)
qed

text \<open>
  C24. Delegation never widens execution under the \<open>default\<close> preset: when the strictness check accepts a
  child's exec policy against its parent's, then for every command whatsoever the child's verdict is
  at least as severe as the parent's; what the parent is denied the child is denied too, and what the
  parent must ask for the child never runs unasked.
\<close>

theorem validated_child_never_laxer:
  assumes "is_ok (validate_at_least_as_strict_as child parent exec_baseline)"
  shows "severity (classify_with parse deep command parent Default) \<le>
    severity (classify_with parse deep command child Default)"
proof -
  let ?ctx = "\<lparr>cx_catalog = READ_ONLY_CATALOG, cx_preset = Default, cx_overrides = parent\<rparr>"
  have "severity (classify_command parse deep (?ctx\<lparr>cx_overrides := parent\<rparr>) command) \<le>
      severity (classify_command parse deep (?ctx\<lparr>cx_overrides := child\<rparr>) command)"
    by (rule classify_mono [OF _ override_mono]) (use assms in \<open>simp_all add: needs_approval_cases validate_ok_iff\<close>)
  then show ?thesis by (simp add: classify_with_def)
qed

theorem validated_child_never_laxer_witness:
  "severity (classify_with sample_parse (\<lambda>_. TAllow) ''cargo'' \<lparr>overrides = []\<rparr> Default) \<le>
    severity (classify_with sample_parse (\<lambda>_. TAllow) ''cargo'' \<lparr>overrides = [(''cargo'', new_override Deny)]\<rparr> Default)"
  by (rule validated_child_never_laxer)
    (simp add: validate_ok_iff stricter_def effective_def override_for_def new_override_def exec_baseline_def)

text \<open>
  Under the \<open>auto\<close> preset the same check does not carry over: the strictness check resolves a command
  without override to \<open>Ask\<close>, but \<open>auto\<close> runs it. A parent that must ask for a command can have a
  child, accepted by the check, for which the same command is allowed.
\<close>

theorem auto_child_drops_ask:
  "is_ok (validate_at_least_as_strict_as \<lparr>overrides = []\<rparr> \<lparr>overrides = [(''cargo'', new_override Ask)]\<rparr> exec_baseline) \<and>
    severity (classify_with sample_parse deep ''cargo'' \<lparr>overrides = [(''cargo'', new_override Ask)]\<rparr> Auto) = Ask \<and>
    classify_with sample_parse deep ''cargo'' \<lparr>overrides = []\<rparr> Auto = TAllow"
proof -
  have cat: "List.find (\<lambda>sp. sp_name sp = ''cargo'') READ_ONLY_CATALOG = None"
    by (simp add: READ_ONLY_CATALOG_def ro_def)
  have base: "exec_baseline ''cargo'' = Ask"
    using cat by (simp add: exec_baseline_def catalog_contains_def list_ex_iff find_None_iff)
  have t: "trim ''cargo'' = ''cargo''" "to_ascii_lowercase ''cargo'' = ''cargo''" by code_simp+
  have inner: "inner_source ''cargo'' [wd ''cargo''] = None"
    by (simp add: inner_source_def SHELL_INTERPRETERS_def EVAL_COMMANDS_def)
  have floor: "builtin_deny_reason_for ''cargo'' [wd ''cargo''] = None"
    by (simp add: builtin_deny_reason_for_def BUILTIN_DENYLIST_def eq_ignore_ascii_case_def to_ascii_lowercase_def ascii_lower_def)
  have v: "classify_with sample_parse deep ''cargo'' ov Auto = apply_override
      \<lparr>cx_catalog = READ_ONLY_CATALOG, cx_preset = Auto, cx_overrides = ov\<rparr> ''cargo'' [wd ''cargo''] None" for ov
    by (simp add: classify_with_def classify_command_def t sample_parse_def classify_nodes_def cmd_def
        classify_node.simps classify_simple_command_def inner classify_named_command_def cat
        classify_redirects_def classify_word_expansions_def classify_assignments_def strictest_def Let_def)
  show ?thesis
    by (simp add: v validate_ok_iff stricter_def effective_def override_for_def new_override_def base
        apply_override_def floor strictest_def needs_approval_def)
qed

text \<open>
  A background operator anywhere in a list replaces the verdict on all its items: under \<open>auto\<close> a list
  with a backgrounded item is allowed although an item on its own is denied by the builtin floor.
\<close>

theorem background_hides_denied:
  assumes "cx_preset ctx = Auto"
  shows "classify_node dlg ctx (NList [(cmd [''sed'', ''x''], Some Background)]) = TAllow \<and>
    severity (classify_node dlg ctx (cmd [''sed'', ''x''])) = Deny"
proof
  show "classify_node dlg ctx (NList [(cmd [''sed'', ''x''], Some Background)]) = TAllow"
    using assms by (simp add: classify_node.simps background_decision_def needs_approval_def)
  have "builtin_deny_reason_for (to_ascii_lowercase ''sed'') [wd ''sed'', wd ''x''] \<noteq> None"
    by (simp add: builtin_deny_reason_for_def BUILTIN_DENYLIST_def eq_ignore_ascii_case_def)
  then have "severity (own_verdict dlg ctx (cmd [''sed'', ''x''])) = Deny"
    using denied_own [of "''sed''" "wd ''sed''" "[wd ''x'']"] by (auto simp: cmd_def)
  with visible_own [OF visible_self, of dlg ctx "cmd [''sed'', ''x'']"]
  show "severity (classify_node dlg ctx (cmd [''sed'', ''x''])) = Deny" by simp
qed

theorem background_hides_denied_witness:
  "classify_node (\<lambda>_. TAllow) \<lparr>cx_catalog = READ_ONLY_CATALOG, cx_preset = Auto, cx_overrides = \<lparr>overrides = []\<rparr>\<rparr>
    (NList [(cmd [''sed'', ''x''], Some Background)]) = TAllow"
  by (rule background_hides_denied [THEN conjunct1]) simp

text \<open>
  Three more positions the walker does not look at: a command without words is allowed whatever it
  redirects (truncating a file needs no approval), the verdict on an interpreter or eval invocation
  ignores its redirects and assignments, and an eval drops its non-literal words before it re-parses
  the rest.
\<close>

theorem unchecked_positions:
  "(rs \<noteq> [] \<longrightarrow> classify_node dlg ctx (NCommand [] [] rs) = TAllow) \<and>
    (extract_command_name w = Some raw \<and> inner_source (to_ascii_lowercase raw) (w # ws) = Some src \<longrightarrow>
      classify_node dlg ctx (NCommand asg (w # ws) rs) = dlg src) \<and>
    (word_literal_value x = None \<longrightarrow> collect_remaining_args (w # x # ws) = collect_remaining_args (w # ws))"
  by (auto simp: classify_node.simps classify_simple_command_def classify_assignments_def strictest_def Let_def
      collect_remaining_args_def map_filter_simps)

theorem unchecked_positions_witness:
  "classify_node (\<lambda>_. TDeny []) \<lparr>cx_catalog = READ_ONLY_CATALOG, cx_preset = Default, cx_overrides = \<lparr>overrides = []\<rparr>\<rparr>
    (NCommand [] [] [NRedirect ''>'' (wd ''notes.md'')]) = TAllow"
  using unchecked_positions [THEN conjunct1, rule_format] by blast

text \<open>
  The command name is compared with its quotes: a quoted \<open>sed\<close> is not the denied \<open>sed\<close>, and \<open>auto\<close>
  allows it although the shell runs the same program.
\<close>

theorem quoted_name_evades_floor:
  assumes "cx_preset ctx = Auto" "cx_catalog ctx = READ_ONLY_CATALOG" "cx_overrides ctx = \<lparr>overrides = []\<rparr>"
  shows "classify_node dlg ctx (cmd [[quote_char] @ ''sed'' @ [quote_char]]) = TAllow"
proof -
  let ?q = "[quote_char] @ ''sed'' @ [quote_char]"
  have low: "to_ascii_lowercase ?q = ?q" by code_simp
  have floor: "builtin_deny_reason_for ?q [wd ?q] = None"
    by (simp add: builtin_deny_reason_for_def BUILTIN_DENYLIST_def eq_ignore_ascii_case_def low [simplified])
      (simp add: to_ascii_lowercase_def ascii_lower_def quote_char_def)
  have cat: "List.find (\<lambda>sp. sp_name sp = ?q) READ_ONLY_CATALOG = None"
    by (simp add: READ_ONLY_CATALOG_def ro_def quote_char_def)
  have inner: "inner_source ?q [wd ?q] = None"
    by (simp add: inner_source_def SHELL_INTERPRETERS_def EVAL_COMMANDS_def quote_char_def)
  show ?thesis
    using floor cat inner low assms
    by (simp add: cmd_def classify_node.simps classify_simple_command_def apply_override_def classify_named_command_def
        override_for_def needs_approval_def classify_redirects_def classify_word_expansions_def classify_assignments_def strictest_def)
qed

theorem quoted_name_evades_floor_witness:
  "classify_node (\<lambda>_. TAllow) \<lparr>cx_catalog = READ_ONLY_CATALOG, cx_preset = Auto, cx_overrides = \<lparr>overrides = []\<rparr>\<rparr>
    (cmd [[quote_char] @ ''sed'' @ [quote_char]]) = TAllow"
  by (rule quoted_name_evades_floor) simp_all

text \<open>
  The hook scan is the preorder walk of the commands the shell would run, unquoted and lowercased; a
  rule fires at most once however many commands match it, in the order of the rules; a prefix rule
  fires exactly when some command's words start with its tokens, the redirect rule exactly when some
  scanned node writes to something other than a sink; text the parser rejects fires nothing.
\<close>

theorem hook_rules_exact:
  "hook_matches rules segs w =
      filter (\<lambda>r. case hk_trigger r of
          WriteRedirect \<Rightarrow> w
        | Prefix pre \<Rightarrow> pre \<noteq> [] \<and> (\<exists>seg \<in> set segs. \<exists>rest. seg = map (Some \<circ> to_ascii_lowercase) pre @ rest)) rules \<and>
    scan_command parse command =
      (if trim command = [] then ([], False)
       else case parse (trim command) of
              Inl e \<Rightarrow> ([], False)
            | Inr nodes \<Rightarrow>
                (concat (map own_segment (concat (map scan_tree nodes))),
                 list_ex (\<lambda>k. list_ex is_write_redirect (observed k)) (concat (map scan_tree nodes))))"
proof
  have pre: "prefix_matches pre seg \<longleftrightarrow> (\<exists>rest. seg = map (Some \<circ> to_ascii_lowercase) pre @ rest)" for pre seg
  proof -
    have "list_all2 (\<lambda>token tok. tok = Some (to_ascii_lowercase token)) pre ys \<longleftrightarrow> ys = map (Some \<circ> to_ascii_lowercase) pre" for ys
      by (induction pre ys rule: list_induct2') auto
    then show ?thesis
      unfolding prefix_matches_def by (metis append_eq_conv_conj append_take_drop_id length_map length_append le_add1)
  qed
  show "hook_matches rules segs w =
      filter (\<lambda>r. case hk_trigger r of
          WriteRedirect \<Rightarrow> w
        | Prefix pre \<Rightarrow> pre \<noteq> [] \<and> (\<exists>seg \<in> set segs. \<exists>rest. seg = map (Some \<circ> to_ascii_lowercase) pre @ rest)) rules"
    unfolding hook_matches_def by (rule filter_cong) (auto simp: pre list_ex_iff split: hook_trigger.split)
  show "scan_command parse command =
      (if trim command = [] then ([], False)
       else case parse (trim command) of
              Inl e \<Rightarrow> ([], False)
            | Inr nodes \<Rightarrow>
                (concat (map own_segment (concat (map scan_tree nodes))),
                 list_ex (\<lambda>k. list_ex is_write_redirect (observed k)) (concat (map scan_tree nodes))))"
    unfolding scan_command_def Let_def collect_segments_def
    by (simp add: fold_collect [OF collect_node_tree] split: sum.split)
qed

end
