(* ===== verification/Json.thy ===== *)
theory Json
  imports Prelude
begin

text \<open>
  The law of a JSON codec (\<open>serde_json::to_string\<close> and \<open>from_str\<close>): a document is a value whose
  objects have distinct keys and whose integers are 64-bit, every document is read back from its own
  text, and reading yields only documents. \<open>flat_codec\<close> is a small prefix code that satisfies the law;
  it shows that the hypothesis can be met and is not a model of the JSON grammar.
\<close>

section \<open>Documents\<close>

fun json_ok :: "json \<Rightarrow> bool" where
  "json_ok (JInt i) \<longleftrightarrow> - (2 ^ 63) \<le> i \<and> i < 2 ^ 64"
| "json_ok (JArr xs) \<longleftrightarrow> (\<forall>x \<in> set xs. json_ok x)"
| "json_ok (JObj kvs) \<longleftrightarrow> distinct (map fst kvs) \<and> (\<forall>kv \<in> set kvs. json_ok (snd kv))"
| "json_ok _ \<longleftrightarrow> True"

definition lawful_codec :: "json_codec \<Rightarrow> bool" where
  "lawful_codec jc \<longleftrightarrow>
     (\<forall>v. json_ok v \<longrightarrow> from_text jc (to_text jc v) = Some v) \<and>
     (\<forall>s v. from_text jc s = Some v \<longrightarrow> json_ok v)"

lemma codec_back: "lawful_codec jc \<Longrightarrow> json_ok v \<Longrightarrow> from_text jc (to_text jc v) = Some v"
  by (simp add: lawful_codec_def)

lemma codec_ok: "lawful_codec jc \<Longrightarrow> from_text jc s = Some v \<Longrightarrow> json_ok v"
  by (simp add: lawful_codec_def)

lemma json_get_ok: "json_get k v = Some w \<Longrightarrow> json_ok v \<Longrightarrow> json_ok w"
  by (cases v) (force dest: map_of_SomeD)+

section \<open>A lawful codec\<close>

fun enc_str :: "string \<Rightarrow> string" where
  "enc_str [] = ''.''"
| "enc_str (c # s) = CHR ''+'' # c # enc_str s"

fun enc :: "json \<Rightarrow> string" where
  "enc JNull = ''n''"
| "enc (JBool b) = (if b then ''t'' else ''f'')"
| "enc (JInt i) = (if 0 \<le> i then ''i'' @ enc_str (replicate (nat i) CHR ''1'') else ''j'' @ enc_str (replicate (nat (- i)) CHR ''1''))"
| "enc (JStr s) = ''s'' @ enc_str s"
| "enc (JArr xs) = ''a'' @ concat (map (\<lambda>x. CHR ''+'' # enc x) xs) @ ''.''"
| "enc (JObj kvs) = ''o'' @ concat (map (\<lambda>kv. CHR ''+'' # enc_str (fst kv) @ enc (snd kv)) kvs) @ ''.''"

fun dec_str :: "string \<Rightarrow> (string \<times> string) option" where
  "dec_str (x # s) =
     (if x = CHR ''.'' then Some ([], s)
      else case s of [] \<Rightarrow> None | c # s' \<Rightarrow> map_option (\<lambda>(t, rest). (c # t, rest)) (dec_str s'))"
| "dec_str [] = None"

fun dec_seq :: "(string \<Rightarrow> ('a \<times> string) option) \<Rightarrow> nat \<Rightarrow> string \<Rightarrow> ('a list \<times> string) option" where
  "dec_seq f 0 s = None"
| "dec_seq f (Suc n) [] = None"
| "dec_seq f (Suc n) (x # s) =
     (if x = CHR ''.'' then Some ([], s)
      else Option.bind (f s) (\<lambda>(v, s1). map_option (\<lambda>(vs, rest). (v # vs, rest)) (dec_seq f n s1)))"

fun dec :: "nat \<Rightarrow> string \<Rightarrow> (json \<times> string) option" where
  "dec 0 s = None"
| "dec (Suc n) [] = None"
| "dec (Suc n) (x # s) =
     (if x = CHR ''n'' then Some (JNull, s)
      else if x = CHR ''t'' then Some (JBool True, s)
      else if x = CHR ''f'' then Some (JBool False, s)
      else if x = CHR ''i'' then map_option (\<lambda>(t, r). (JInt (int (length t)), r)) (dec_str s)
      else if x = CHR ''j'' then map_option (\<lambda>(t, r). (JInt (- int (length t)), r)) (dec_str s)
      else if x = CHR ''s'' then map_option (\<lambda>(t, r). (JStr t, r)) (dec_str s)
      else if x = CHR ''a'' then map_option (\<lambda>(vs, r). (JArr vs, r)) (dec_seq (dec n) (Suc n) s)
      else map_option (\<lambda>(vs, r). (JObj vs, r))
        (dec_seq (\<lambda>t. Option.bind (dec_str t) (\<lambda>(k, t1). map_option (\<lambda>(v, r). ((k, v), r)) (dec n t1))) (Suc n) s))"

definition flat_codec :: json_codec where
  "flat_codec = \<lparr>to_text = enc,
     from_text = (\<lambda>s. case dec (length s) s of Some (v, []) \<Rightarrow> if json_ok v then Some v else None | _ \<Rightarrow> None)\<rparr>"

lemma flat_dec_str [simp]: "dec_str (enc_str s @ r) = Some (s, r)"
  by (induction s) auto

lemma dec_seq_concat:
  assumes "\<And>x r. x \<in> set xs \<Longrightarrow> f (g x @ r) = Some (x, r)" "length xs < n"
  shows "dec_seq f n (concat (map (\<lambda>x. CHR ''+'' # g x) xs) @ ''.'' @ r) = Some (xs, r)"
  using assms
proof (induction xs arbitrary: n)
  case Nil
  then show ?case by (cases n) auto
next
  case (Cons x xs)
  from Cons.prems obtain m where "n = Suc m" "length xs < m" by (cases n) auto
  with Cons show ?case by simp
qed

lemma length_concat_less: "x \<in> set xs \<Longrightarrow> length (g x) \<le> length (concat (map g xs))"
  by (induction xs) auto

lemma length_le_concat: "(\<And>x. x \<in> set xs \<Longrightarrow> 0 < length (g x)) \<Longrightarrow> length xs \<le> length (concat (map g xs))"
proof (induction xs)
  case (Cons a xs)
  then have "length xs \<le> length (concat (map g xs))" "1 \<le> length (g a)" by (auto simp: Suc_le_eq)
  then show ?case by simp
qed simp

lemma flat_dec_enc: "length (enc v) \<le> n \<Longrightarrow> dec n (enc v @ r) = Some (v, r)"
proof (induction v arbitrary: n r)
  case (JArr xs)
  then obtain m where n: "n = Suc m" by (cases n) auto
  have b: "length (concat (map (\<lambda>x. CHR ''+'' # enc x) xs)) \<le> m" using JArr.prems n by simp
  have "dec_seq (dec m) (Suc m) (concat (map (\<lambda>x. CHR ''+'' # enc x) xs) @ ''.'' @ r) = Some (xs, r)"
  proof (rule dec_seq_concat)
    fix x r assume x: "x \<in> set xs"
    have "length (enc x) \<le> m" using length_concat_less [OF x, of "\<lambda>x. CHR ''+'' # enc x"] b by simp
    then show "dec m (enc x @ r) = Some (x, r)" by (rule JArr.IH [OF x])
  qed (use b length_le_concat [of xs "\<lambda>x. CHR ''+'' # enc x"] in simp)
  then show ?case by (simp add: n)
next
  case (JObj kvs)
  then obtain m where n: "n = Suc m" by (cases n) auto
  let ?g = "\<lambda>kv. CHR ''+'' # enc_str (fst kv) @ enc (snd kv)"
  have b: "length (concat (map ?g kvs)) \<le> m" using JObj.prems n by simp
  have "dec_seq (\<lambda>t. Option.bind (dec_str t) (\<lambda>(k, t1). map_option (\<lambda>(v, r). ((k, v), r)) (dec m t1))) (Suc m)
      (concat (map ?g kvs) @ ''.'' @ r) = Some (kvs, r)"
  proof (rule dec_seq_concat)
    fix kv r assume x: "kv \<in> set kvs"
    have "length (enc (snd kv)) \<le> m" using length_concat_less [OF x, of ?g] b by simp
    then have "dec m (enc (snd kv) @ r) = Some (snd kv, r)"
      using JObj.IH [OF x, of "snd kv"] by (cases kv) simp
    then show "Option.bind (dec_str ((enc_str (fst kv) @ enc (snd kv)) @ r))
        (\<lambda>(k, t1). map_option (\<lambda>(v, r). ((k, v), r)) (dec m t1)) = Some (kv, r)" by simp
  qed (use b length_le_concat [of kvs ?g] in simp)
  then show ?case by (simp add: n)
next
  case (JInt i)
  then obtain m where "n = Suc m" by (cases n) (auto split: if_splits)
  then show ?case by simp
next
  case (JBool b)
  then obtain m where "n = Suc m" by (cases n) (auto split: if_splits)
  then show ?case by simp
next
  case (JStr s)
  then obtain m where "n = Suc m" by (cases n) auto
  then show ?case by simp
next
  case JNull
  then obtain m where "n = Suc m" by (cases n) auto
  then show ?case by simp
qed

lemma flat_codec_lawful: "lawful_codec flat_codec"
  using flat_dec_enc [of _ _ "[]"]
  by (auto simp: lawful_codec_def flat_codec_def split: option.splits list.splits if_splits)

end
