(* ===== verification/Tool_Executor.thy ===== *)
theory Tool_Executor
  imports Approval Exec_Laws Json
begin

text \<open>
  The authorised tool executor (\<open>kallip-runtime/src/policy/executor.rs\<close>, \<open>policy/agent.rs\<close>), the
  result envelope (\<open>kallip-common/src/toolresult.rs\<close>) and the deferred-call result of
  \<open>kallip-runtime/src/approval.rs\<close>.

  The state is the approval store, the list of calls handed to the tool dispatcher and the notices put
  on the notice channel. Parameters, collected in \<open>exec_env\<close>: the JSON codec, the shell parser, the
  dispatcher (its answer to a call may depend on all earlier calls), the random ids and the clock of
  \<open>enqueue\<close> (indexed by the number of enqueued calls), and the renderings of error values. A call runs
  in two phases, up to and including the hand-over to the dispatcher, and after the dispatcher's
  answer, because the round loop may time out or cancel it in between.
\<close>

section \<open>The result envelope\<close>

record envelope =
  ev_ok :: bool
  ev_tool_name :: string
  ev_result :: "json option"
  ev_error :: "string option"
  ev_pending :: "bool option"
  ev_rest :: "(string \<times> json) list"

definition envelope_fields :: "string list" where
  "envelope_fields = [''ok'', ''tool_name'', ''result'', ''error'', ''pending_approval'']"

definition opt_field :: "string \<Rightarrow> json option \<Rightarrow> (string \<times> json) list" where
  "opt_field k v = (case v of None \<Rightarrow> [] | Some j \<Rightarrow> [(k, j)])"

definition envelope_to_json :: "envelope \<Rightarrow> json" where
  "envelope_to_json e =
     JObj ([(''ok'', JBool (ev_ok e)), (''tool_name'', JStr (ev_tool_name e))]
       @ opt_field ''result'' (ev_result e)
       @ opt_field ''error'' (map_option JStr (ev_error e))
       @ opt_field ''pending_approval'' (map_option JBool (ev_pending e))
       @ ev_rest e)"

text \<open>
  The derived deserialiser: an object; \<open>ok\<close> and \<open>tool_name\<close> are required; an optional field may be
  missing or null; a known field given twice is an error; every other entry is kept in \<open>rest\<close>.
\<close>

definition opt_value :: "(json \<Rightarrow> 'a option) \<Rightarrow> json option \<Rightarrow> 'a option option" where
  "opt_value conv v = (case v of None \<Rightarrow> Some None | Some JNull \<Rightarrow> Some None | Some j \<Rightarrow> map_option Some (conv j))"

fun json_bool :: "json \<Rightarrow> bool option" where
  "json_bool (JBool b) = Some b"
| "json_bool _ = None"

fun envelope_of_json :: "json \<Rightarrow> envelope option" where
  "envelope_of_json (JObj kvs) =
     (if \<not> distinct (filter (\<lambda>k. k \<in> set envelope_fields) (map fst kvs)) then None
      else case (Option.bind (map_of kvs ''ok'') json_bool, Option.bind (map_of kvs ''tool_name'') json_str,
                 opt_value Some (map_of kvs ''result''), opt_value json_str (map_of kvs ''error''),
                 opt_value json_bool (map_of kvs ''pending_approval'')) of
             (Some ok, Some name, Some res, Some err, Some pend) \<Rightarrow>
               Some \<lparr>ev_ok = ok, ev_tool_name = name, ev_result = res, ev_error = err, ev_pending = pend,
                 ev_rest = filter (\<lambda>(k, v). k \<notin> set envelope_fields) kvs\<rparr>
           | _ \<Rightarrow> None)"
| "envelope_of_json _ = None"

definition envelope_text :: "json_codec \<Rightarrow> envelope \<Rightarrow> string" where
  "envelope_text jc e = to_text jc (envelope_to_json e)"

definition success_result :: "json_codec \<Rightarrow> string \<Rightarrow> string \<Rightarrow> string" where
  "success_result jc name output =
     envelope_text jc \<lparr>ev_ok = True, ev_tool_name = name,
       ev_result = Some (case from_text jc output of Some j \<Rightarrow> j | None \<Rightarrow> JStr output),
       ev_error = None, ev_pending = None, ev_rest = []\<rparr>"

definition error_result :: "json_codec \<Rightarrow> string \<Rightarrow> string \<Rightarrow> string" where
  "error_result jc name err =
     envelope_text jc \<lparr>ev_ok = False, ev_tool_name = name, ev_result = None, ev_error = Some err,
       ev_pending = None, ev_rest = []\<rparr>"

definition skipped_tool_result :: "json_codec \<Rightarrow> string \<Rightarrow> string \<Rightarrow> string \<Rightarrow> string" where
  "skipped_tool_result jc name prior r =
     error_result jc name (''skipped: earlier tool call '' @ [quote_char] @ prior @ [quote_char] @ '' '' @ r
       @ '' in this round'')"

definition timed_out_tool_result :: "json_codec \<Rightarrow> string \<Rightarrow> nat \<Rightarrow> string" where
  "timed_out_tool_result jc name secs = error_result jc name (''timed out after '' @ show_nat secs @ ''s'')"

definition next_steps_text :: "string option \<Rightarrow> string" where
  "next_steps_text r =
     (case r of
        Some x \<Rightarrow> ''This tool call was deferred because it requires approval: '' @ x @ ''. '' @
          ''Call approval_commit with the id and a justification for why it is necessary, '' @
          ''or approval_cancel to abandon it.''
      | None \<Rightarrow> ''This tool call was deferred because it requires approval. '' @
          ''Call approval_commit with the id and a justification for why it is necessary, '' @
          ''or approval_cancel to abandon it.'')"

definition approval_result_json :: "json_codec \<Rightarrow> string \<Rightarrow> string \<Rightarrow> string option \<Rightarrow> string" where
  "approval_result_json jc aid name r =
     envelope_text jc \<lparr>ev_ok = True, ev_tool_name = name, ev_result = None, ev_error = None,
       ev_pending = Some True,
       ev_rest = [(''id'', JStr aid), (''next_steps'', JStr (next_steps_text r))]\<rparr>"

section \<open>Outcomes\<close>

datatype tool_call_outcome = Success string | Failed string | Deferred string

definition bash_foreground_failed :: "json \<Rightarrow> bool" where
  "bash_foreground_failed res \<longleftrightarrow>
     Option.bind (json_get ''task_id'' res) json_str = None \<and>
     Option.bind (json_get ''exit_code'' res) json_i64 \<noteq> Some 0"

definition BASH_EXEC :: string where "BASH_EXEC = ''bash_exec''"

definition classify_outcome :: "json_codec \<Rightarrow> string \<Rightarrow> tool_call_outcome" where
  "classify_outcome jc env =
     (case Option.bind (from_text jc env) envelope_of_json of
        None \<Rightarrow> Success env
      | Some e \<Rightarrow>
          if ev_pending e = Some True then Deferred env
          else if \<not> ev_ok e then Failed env
          else if ev_tool_name e = BASH_EXEC \<and> (\<exists>r \<in> set_option (ev_result e). bash_foreground_failed r)
          then Failed env
          else Success env)"

section \<open>The policy gate\<close>

record agent_policy =
  ap_exec :: exec_policy
  ap_preset :: policy_preset
  ap_rules :: "hook_rule list"

record exec_env =
  xe_codec :: json_codec
  xe_parse :: parser
  xe_deep :: "string \<Rightarrow> tool_decision"
  xe_dispatch :: "(string \<times> string) list \<Rightarrow> string \<Rightarrow> string \<Rightarrow> string + string"
  xe_uuid :: "nat \<Rightarrow> string"
  xe_clock :: "nat \<Rightarrow> int"
  xe_json_err :: "string \<Rightarrow> string"
  xe_approval_err :: "approval_err \<Rightarrow> string"
  xe_rfc3339 :: "int \<Rightarrow> string"
  xe_sink :: bool

definition capture_names :: "string list" where
  "capture_names = [''merged'', ''separate'', ''stdout'', ''stderr'']"

text \<open>A derived enum without fields reads its name, or an object with the name and null.\<close>

fun capture_ok :: "json \<Rightarrow> bool" where
  "capture_ok (JStr s) \<longleftrightarrow> s \<in> set capture_names"
| "capture_ok (JObj [(s, v)]) \<longleftrightarrow> s \<in> set capture_names \<and> v = JNull"
| "capture_ok _ \<longleftrightarrow> False"

text \<open>The command of well-formed \<open>bash_exec\<close> arguments; a derived struct reads an object or a sequence.\<close>

definition bash_args ::
  "json option \<Rightarrow> json option \<Rightarrow> json option \<Rightarrow> json option \<Rightarrow> string option" where
  "bash_args command timeout background capture =
     (if (\<exists>j \<in> set_option timeout. j \<noteq> JNull \<and> json_u64 j = None) then None
      else if (\<exists>j \<in> set_option background. json_bool j = None) then None
      else if (\<exists>j \<in> set_option capture. \<not> capture_ok j) then None
      else Option.bind command json_str)"

fun bash_args_of :: "json \<Rightarrow> string option" where
  "bash_args_of (JObj kvs) =
     (if \<not> distinct (filter (\<lambda>k. k \<in> {''command'', ''timeout'', ''background'', ''capture''}) (map fst kvs)) then None
      else bash_args (map_of kvs ''command'') (map_of kvs ''timeout'') (map_of kvs ''background'') (map_of kvs ''capture''))"
| "bash_args_of (JArr xs) =
     (if 4 < length xs then None
      else let at = (\<lambda>i. if i < length xs then Some (xs ! i) else None)
           in bash_args (at 0) (at 1) (at 2) (at 3))"
| "bash_args_of _ = None"

definition bash_command :: "exec_env \<Rightarrow> string \<Rightarrow> string option" where
  "bash_command env args = Option.bind (from_text (xe_codec env) args) bash_args_of"

definition classify_bash :: "exec_env \<Rightarrow> agent_policy \<Rightarrow> string \<Rightarrow> string + tool_decision" where
  "classify_bash env pol args =
     (case bash_command env args of
        None \<Rightarrow> Inl (xe_json_err env args)
      | Some command \<Rightarrow> Inr (classify_with (xe_parse env) (xe_deep env) command (ap_exec pol) (ap_preset pol)))"

definition evaluate :: "exec_env \<Rightarrow> agent_policy \<Rightarrow> string \<Rightarrow> string \<Rightarrow> string + tool_decision" where
  "evaluate env pol name args = (if name = BASH_EXEC then classify_bash env pol args else Inr TAllow)"

definition post_hook_notes :: "exec_env \<Rightarrow> agent_policy \<Rightarrow> string \<Rightarrow> string \<Rightarrow> string list" where
  "post_hook_notes env pol name args =
     (if ap_rules pol = [] \<or> name \<noteq> BASH_EXEC then []
      else case bash_command env args of
             None \<Rightarrow> []
           | Some command \<Rightarrow>
               (let (segs, w) = scan_command (xe_parse env) command
                in map hk_note (hook_matches (ap_rules pol) segs w)))"

section \<open>The executor\<close>

record exec_state =
  xs_approvals :: approval_store
  xs_calls :: "(string \<times> string) list"
  xs_notices :: "string list"
  xs_ticks :: nat

text \<open>After the first phase a call is either answered or waits for the dispatcher.\<close>

datatype call_phase = Answered string | Dispatched string string

definition hand_over :: "string \<Rightarrow> string \<Rightarrow> exec_state \<Rightarrow> call_phase \<times> exec_state" where
  "hand_over name args st = (Dispatched name args, st\<lparr>xs_calls := xs_calls st @ [(name, args)]\<rparr>)"

definition fire_hook_notes :: "exec_env \<Rightarrow> agent_policy \<Rightarrow> string \<Rightarrow> string \<Rightarrow> exec_state \<Rightarrow> exec_state" where
  "fire_hook_notes env pol name args st =
     (if xe_sink env
      then st\<lparr>xs_notices := xs_notices st @ map (\<lambda>n. ''[hook] NOTE: '' @ n) (post_hook_notes env pol name args)\<rparr>
      else st)"

definition parse_id :: "exec_env \<Rightarrow> string \<Rightarrow> string + string" where
  "parse_id env args =
     (case from_text (xe_codec env) args of
        None \<Rightarrow> Inl (xe_json_err env args)
      | Some v \<Rightarrow>
          (case Option.bind (json_get ''id'' v) json_str of
             Some s \<Rightarrow> Inr s
           | None \<Rightarrow> Inl (''missing or invalid '' @ [quote_char] @ ''id'' @ [quote_char] @ '' field'')))"

definition parse_status_filter :: "exec_env \<Rightarrow> string \<Rightarrow> approval_status option" where
  "parse_status_filter env args =
     Option.bind (from_text (xe_codec env) args) (\<lambda>v.
     Option.bind (json_get ''status'' v) (\<lambda>s.
     Option.bind (json_str s) status_from_str_name))"

definition parse_commit_args :: "exec_env \<Rightarrow> string \<Rightarrow> string + string \<times> string" where
  "parse_commit_args env args =
     rbind (parse_id env args) (\<lambda>aid.
       case Option.bind (from_text (xe_codec env) args) (\<lambda>v. Option.bind (json_get ''reason'' v) json_str) of
         Some r \<Rightarrow> Inr (aid, r)
       | None \<Rightarrow> Inl (''missing or invalid '' @ [quote_char] @ ''reason'' @ [quote_char] @ '' field''))"

definition opt_json :: "string option \<Rightarrow> json" where
  "opt_json x = (case x of None \<Rightarrow> JNull | Some s \<Rightarrow> JStr s)"

definition list_item_json :: "exec_env \<Rightarrow> json approval_info \<Rightarrow> json" where
  "list_item_json env a =
     JObj ([(''id'', JStr (info_id a)),
        (''content'', JObj [(''tool_name'', JStr (tcc_tool_name (info_content a))),
           (''arguments'', tcc_arguments (info_content a))]),
        (''commit_reason'', opt_json (info_commit_reason a)),
        (''status'', JStr (status_as_str (info_status a))),
        (''deny_reason'', opt_json (info_deny_reason a))]
       @ opt_field ''defer_reason'' (map_option JStr (info_defer_reason a))
       @ [(''created_at'', JStr (xe_rfc3339 env (info_created_at a)))])"

definition handle_list :: "exec_env \<Rightarrow> string \<Rightarrow> exec_state \<Rightarrow> string" where
  "handle_list env args st =
     to_text (xe_codec env) (JObj [(''ok'', JBool True),
       (''actions'', JArr (map (list_item_json env)
          (list_approvals (from_text (xe_codec env)) JNull (parse_status_filter env args) (xs_approvals st))))])"

definition handle_commit :: "exec_env \<Rightarrow> string \<Rightarrow> exec_state \<Rightarrow> string \<times> exec_state" where
  "handle_commit env args st =
     (case parse_commit_args env args of
        Inl e \<Rightarrow> (error_result (xe_codec env) ''approval_commit'' e, st)
      | Inr (aid, r) \<Rightarrow>
          (case commit aid r (xs_approvals st) of
             Inl e \<Rightarrow> (error_result (xe_codec env) ''approval_commit'' (xe_approval_err env e), st)
           | Inr q \<Rightarrow> (to_text (xe_codec env) (JObj [(''ok'', JBool True), (''committed'', JBool True), (''id'', JStr aid)]),
               st\<lparr>xs_approvals := q\<rparr>)))"

definition handle_cancel :: "exec_env \<Rightarrow> string \<Rightarrow> exec_state \<Rightarrow> string \<times> exec_state" where
  "handle_cancel env args st =
     (case parse_id env args of
        Inl e \<Rightarrow> (error_result (xe_codec env) ''approval_cancel'' e, st)
      | Inr aid \<Rightarrow>
          (case cancel aid (xs_approvals st) of
             Inl e \<Rightarrow> (error_result (xe_codec env) ''approval_cancel'' (xe_approval_err env e), st)
           | Inr (prev, q) \<Rightarrow>
               (to_text (xe_codec env) (JObj [(''ok'', JBool True), (''cancelled'', JStr aid),
                  (''previous_status'', JStr (status_as_str prev))]), st\<lparr>xs_approvals := q\<rparr>)))"

definition handle_redeem :: "exec_env \<Rightarrow> string \<Rightarrow> exec_state \<Rightarrow> call_phase \<times> exec_state" where
  "handle_redeem env args st =
     (case parse_id env args of
        Inl e \<Rightarrow> (Answered (error_result (xe_codec env) ''approval_redeem'' e), st)
      | Inr aid \<Rightarrow>
          (case take_for_redeem aid (xs_approvals st) of
             Inl e \<Rightarrow> (Answered (error_result (xe_codec env) ''approval_redeem'' (xe_approval_err env e)), st)
           | Inr (action, q) \<Rightarrow> hand_over (act_tool_name action) (act_args_json action) (st\<lparr>xs_approvals := q\<rparr>)))"

definition execute_tool :: "exec_env \<Rightarrow> agent_policy \<Rightarrow> string \<Rightarrow> string \<Rightarrow> exec_state \<Rightarrow> call_phase \<times> exec_state" where
  "execute_tool env pol name args st =
     (case evaluate env pol name args of
        Inl e \<Rightarrow> (Answered (error_result (xe_codec env) name (''policy evaluation failed: '' @ e)), st)
      | Inr TAllow \<Rightarrow> hand_over name args st
      | Inr (TDeny r) \<Rightarrow> (Answered (error_result (xe_codec env) name (''tool denied: '' @ r)), st)
      | Inr (TAsk r) \<Rightarrow>
          (let (aid, q) = enqueue (xe_uuid env (xs_ticks st)) (xe_clock env (xs_ticks st)) name args r (xs_approvals st)
           in (Answered (approval_result_json (xe_codec env) aid name r),
               st\<lparr>xs_approvals := q, xs_ticks := Suc (xs_ticks st)\<rparr>)))"

definition begin_call :: "exec_env \<Rightarrow> agent_policy \<Rightarrow> string \<Rightarrow> string \<Rightarrow> exec_state \<Rightarrow> call_phase \<times> exec_state" where
  "begin_call env pol name args st =
     (if name = ''approval_list'' then (Answered (handle_list env args st), st)
      else if name = ''approval_commit'' then (let (s, st') = handle_commit env args st in (Answered s, st'))
      else if name = ''approval_redeem'' then handle_redeem env args st
      else if name = ''approval_cancel'' then (let (s, st') = handle_cancel env args st in (Answered s, st'))
      else execute_tool env pol name args st)"

fun finish_call :: "exec_env \<Rightarrow> agent_policy \<Rightarrow> call_phase \<Rightarrow> exec_state \<Rightarrow> string \<times> exec_state" where
  "finish_call env pol (Answered s) st = (s, st)"
| "finish_call env pol (Dispatched name args) st =
     (case xe_dispatch env (butlast (xs_calls st)) name args of
        Inr output \<Rightarrow> (success_result (xe_codec env) name output, fire_hook_notes env pol name args st)
      | Inl e \<Rightarrow> (error_result (xe_codec env) name e, st))"

definition execute ::
  "exec_env \<Rightarrow> agent_policy \<Rightarrow> string \<Rightarrow> string \<Rightarrow> exec_state \<Rightarrow> tool_call_outcome \<times> exec_state" where
  "execute env pol name args st =
     (let (ph, st1) = begin_call env pol name args st; (s, st2) = finish_call env pol ph st1
      in (classify_outcome (xe_codec env) s, st2))"

section \<open>Runs of the executor\<close>

text \<open>
  What happens to an executor over its life: tool calls (under the policy in force at that time),
  reviews by the operator, and the round loop collecting the latest transitions.
\<close>

datatype exec_op =
    OpCall agent_policy string string
  | OpReviewApprove string
  | OpReviewDeny string string
  | OpCollect

datatype exec_event =
    Granted agent_policy string string
  | RedeemedCall string string string

fun event_call :: "exec_event \<Rightarrow> string \<times> string" where
  "event_call (Granted pol name args) = (name, args)"
| "event_call (RedeemedCall aid name args) = (name, args)"

definition collect_transitions ::
  "exec_state \<Rightarrow> (committed_info option \<times> string option \<times> string option) \<times> exec_state" where
  "collect_transitions st =
     (let (c, q1) = take_last_committed (xs_approvals st);
          (r, q2) = take_last_redeemed q1;
          (x, q3) = take_last_cancelled q2
      in ((c, r, x), st\<lparr>xs_approvals := q3\<rparr>))"

fun exec_op_step :: "exec_env \<Rightarrow> exec_op \<Rightarrow> exec_state \<Rightarrow> exec_state" where
  "exec_op_step env (OpCall pol name args) st = snd (execute env pol name args st)"
| "exec_op_step env (OpReviewApprove aid) st = st\<lparr>xs_approvals := or_same (xs_approvals st) (approve aid (xs_approvals st))\<rparr>"
| "exec_op_step env (OpReviewDeny aid r) st = st\<lparr>xs_approvals := or_same (xs_approvals st) (deny aid r (xs_approvals st))\<rparr>"
| "exec_op_step env OpCollect st = snd (collect_transitions st)"

text \<open>The hand-over to the dispatcher a step makes, with its reason, and the approval it grants.\<close>

fun op_events :: "exec_env \<Rightarrow> exec_op \<Rightarrow> exec_state \<Rightarrow> exec_event list" where
  "op_events env (OpCall pol name args) st =
     (case begin_call env pol name args st of
        (Answered s, _) \<Rightarrow> []
      | (Dispatched n a, _) \<Rightarrow>
          if name = ''approval_redeem''
          then (case parse_id env args of Inr aid \<Rightarrow> [RedeemedCall aid n a] | Inl e \<Rightarrow> [])
          else [Granted pol n a])"
| "op_events env _ st = []"

fun op_grants :: "exec_op \<Rightarrow> exec_state \<Rightarrow> string set" where
  "op_grants (OpReviewApprove aid) st = (if is_ok (approve aid (xs_approvals st)) then {aid} else {})"
| "op_grants _ st = {}"

fun exec_run :: "exec_env \<Rightarrow> exec_op list \<Rightarrow> exec_state \<Rightarrow> exec_state" where
  "exec_run env [] st = st"
| "exec_run env (x # xs) st = exec_run env xs (exec_op_step env x st)"

fun run_events :: "exec_env \<Rightarrow> exec_op list \<Rightarrow> exec_state \<Rightarrow> exec_event list" where
  "run_events env [] st = []"
| "run_events env (x # xs) st = op_events env x st @ run_events env xs (exec_op_step env x st)"

fun run_grants :: "exec_env \<Rightarrow> exec_op list \<Rightarrow> exec_state \<Rightarrow> string set" where
  "run_grants env [] st = {}"
| "run_grants env (x # xs) st = op_grants x st \<union> run_grants env xs (exec_op_step env x st)"

definition new_exec :: exec_state where
  "new_exec = \<lparr>xs_approvals = new_approvals, xs_calls = [], xs_notices = [], xs_ticks = 0\<rparr>"

fun redeemed_ids :: "exec_event list \<Rightarrow> string list" where
  "redeemed_ids [] = []"
| "redeemed_ids (RedeemedCall aid n a # evs) = aid # redeemed_ids evs"
| "redeemed_ids (Granted pol n a # evs) = redeemed_ids evs"

lemma redeemed_ids_append [simp]: "redeemed_ids (xs @ ys) = redeemed_ids xs @ redeemed_ids ys"
  by (induction xs rule: redeemed_ids.induct) auto

lemma set_redeemed_ids: "aid \<in> set (redeemed_ids evs) \<longleftrightarrow> (\<exists>n a. RedeemedCall aid n a \<in> set evs)"
  by (induction evs rule: redeemed_ids.induct) auto

section \<open>The two phases\<close>

lemma fire_hook_frame [simp]:
  "xs_approvals (fire_hook_notes env pol n a st) = xs_approvals st"
  "xs_calls (fire_hook_notes env pol n a st) = xs_calls st"
  "xs_ticks (fire_hook_notes env pol n a st) = xs_ticks st"
  by (simp_all add: fire_hook_notes_def)

lemma finish_frame:
  "finish_call env pol ph st = (s, st') \<Longrightarrow> xs_approvals st' = xs_approvals st \<and> xs_calls st' = xs_calls st \<and> xs_ticks st' = xs_ticks st"
  by (cases ph) (auto split: sum.splits)

lemma execute_frame:
  assumes "begin_call env pol name args st = (ph, st1)"
  shows "xs_approvals (snd (execute env pol name args st)) = xs_approvals st1"
    "xs_calls (snd (execute env pol name args st)) = xs_calls st1"
    "xs_ticks (snd (execute env pol name args st)) = xs_ticks st1"
proof -
  obtain s st2 where f: "finish_call env pol ph st1 = (s, st2)" by (cases "finish_call env pol ph st1")
  have e: "snd (execute env pol name args st) = st2" using assms f by (simp add: execute_def)
  show "xs_approvals (snd (execute env pol name args st)) = xs_approvals st1"
    "xs_calls (snd (execute env pol name args st)) = xs_calls st1"
    "xs_ticks (snd (execute env pol name args st)) = xs_ticks st1"
    using finish_frame [OF f] by (simp_all add: e)
qed

inductive_set begin_effects ::
  "exec_env \<Rightarrow> agent_policy \<Rightarrow> string \<Rightarrow> string \<Rightarrow> exec_state \<Rightarrow> (call_phase \<times> exec_state) set"
  for env pol name args st where
  be_same: "(Answered s, st) \<in> begin_effects env pol name args st"
| be_commit: "commit aid r (xs_approvals st) = Inr q \<Longrightarrow>
    (Answered s, st\<lparr>xs_approvals := q\<rparr>) \<in> begin_effects env pol name args st"
| be_cancel: "cancel aid (xs_approvals st) = Inr (p, q) \<Longrightarrow>
    (Answered s, st\<lparr>xs_approvals := q\<rparr>) \<in> begin_effects env pol name args st"
| be_redeem: "name = ''approval_redeem'' \<Longrightarrow> parse_id env args = Inr aid \<Longrightarrow> take_for_redeem aid (xs_approvals st) = Inr (a, q) \<Longrightarrow>
    (Dispatched (act_tool_name a) (act_args_json a),
      st\<lparr>xs_approvals := q, xs_calls := xs_calls st @ [(act_tool_name a, act_args_json a)]\<rparr>) \<in> begin_effects env pol name args st"
| be_grant: "name \<noteq> ''approval_redeem'' \<Longrightarrow> evaluate env pol name args = Inr TAllow \<Longrightarrow>
    (Dispatched name args, st\<lparr>xs_calls := xs_calls st @ [(name, args)]\<rparr>) \<in> begin_effects env pol name args st"
| be_defer: "evaluate env pol name args = Inr (TAsk r) \<Longrightarrow>
    (Answered s, st\<lparr>xs_approvals := snd (enqueue (xe_uuid env (xs_ticks st)) (xe_clock env (xs_ticks st)) name args r (xs_approvals st)),
      xs_ticks := Suc (xs_ticks st)\<rparr>) \<in> begin_effects env pol name args st"

lemma begin_call_effects: "begin_call env pol name args st \<in> begin_effects env pol name args st"
proof -
  consider "name = ''approval_list''" | "name = ''approval_commit''" | "name = ''approval_redeem''" | "name = ''approval_cancel''"
    | "name \<notin> {''approval_list'', ''approval_commit'', ''approval_redeem'', ''approval_cancel''}" by blast
  then show ?thesis
  proof cases
    case 1
    then show ?thesis by (simp add: begin_call_def be_same)
  next
    case 2
    then show ?thesis
      by (auto simp: begin_call_def handle_commit_def split: sum.splits intro: begin_effects.intros)
  next
    case 3
    then show ?thesis
      by (auto simp: begin_call_def handle_redeem_def hand_over_def split: sum.splits intro: begin_effects.intros)
  next
    case 4
    then show ?thesis
      by (auto simp: begin_call_def handle_cancel_def split: sum.splits intro: begin_effects.intros)
  next
    case 5
    then show ?thesis
      by (auto simp: begin_call_def execute_tool_def hand_over_def split: sum.splits tool_decision.splits prod.splits
          intro: begin_effects.intros)
        (metis be_defer snd_conv)
  qed
qed

section \<open>Every hand-over is justified\<close>

definition redeemed_as :: "approval_store \<Rightarrow> string \<Rightarrow> string \<Rightarrow> string \<Rightarrow> bool" where
  "redeemed_as q aid n a \<longleftrightarrow>
     (\<exists>act. map_of (st_actions q) aid = Some act \<and> act_status act = Redeemed \<and> act_tool_name act = n \<and> act_args_json act = a)"

definition exec_inv :: "exec_env \<Rightarrow> exec_event list \<Rightarrow> string set \<Rightarrow> exec_state \<Rightarrow> bool" where
  "exec_inv env evs grants st \<longleftrightarrow>
     xs_calls st = map event_call evs \<and>
     (\<forall>pol n a. Granted pol n a \<in> set evs \<longrightarrow> evaluate env pol n a = Inr TAllow) \<and>
     distinct (redeemed_ids evs) \<and>
     (\<forall>aid n a. RedeemedCall aid n a \<in> set evs \<longrightarrow> redeemed_as (xs_approvals st) aid n a) \<and>
     (\<forall>aid. status_at (xs_approvals st) aid = Some Redeemed \<longleftrightarrow> aid \<in> set (redeemed_ids evs)) \<and>
     (\<forall>aid. status_at (xs_approvals st) aid \<in> {Some Approved, Some Redeemed} \<longrightarrow> aid \<in> grants) \<and>
     (\<forall>aid. status_at (xs_approvals st) aid \<noteq> None \<longrightarrow> (\<exists>k < xs_ticks st. aid = ''ap_'' @ xe_uuid env k))"

text \<open>A change of one action that neither starts nor ends in \<open>Redeemed\<close> and does not newly approve.\<close>

lemma exec_inv_update:
  assumes inv: "exec_inv env evs grants st"
    and q: "st_actions q = AList.update aid act' (st_actions (xs_approvals st))"
    and act: "map_of (st_actions (xs_approvals st)) aid = Some act" "act_status act \<noteq> Redeemed"
    and new: "act_status act' \<noteq> Redeemed" "act_status act' = Approved \<Longrightarrow> aid \<in> grants'" and sub: "grants \<subseteq> grants'"
  shows "exec_inv env evs grants' (st\<lparr>xs_approvals := q\<rparr>)"
proof -
  have st: "status_at q x = (if x = aid then Some (act_status act') else status_at (xs_approvals st) x)" for x
    by (simp add: status_at_def q AList.update_conv')
  have red: "redeemed_as q x n a" if "redeemed_as (xs_approvals st) x n a" for x n a
    using that act by (auto simp: redeemed_as_def q AList.update_conv')
  have old: "status_at (xs_approvals st) aid = Some (act_status act)" using act by (simp add: status_at_def)
  have nr: "aid \<notin> set (redeemed_ids evs)" using inv old act(2) unfolding exec_inv_def by (metis option.inject)
  show ?thesis
    using inv new sub red old act(2) nr unfolding exec_inv_def by (auto simp: st split: if_splits)
qed

lemma exec_inv_frame:
  assumes "exec_inv env evs grants st" "st_actions q = st_actions (xs_approvals st)" "grants \<subseteq> grants'"
    "xs_approvals st' = q" "xs_calls st' = xs_calls st" "xs_ticks st' = xs_ticks st"
  shows "exec_inv env evs grants' st'"
  using assms unfolding exec_inv_def by (auto simp: status_at_def redeemed_as_def)

lemma exec_inv_redeem:
  assumes inv: "exec_inv env evs grants st" and r: "take_for_redeem aid (xs_approvals st) = Inr (a, q)"
  shows "exec_inv env (evs @ [RedeemedCall aid (act_tool_name a) (act_args_json a)]) grants
    (st\<lparr>xs_approvals := q, xs_calls := xs_calls st @ [(act_tool_name a, act_args_json a)]\<rparr>)"
proof -
  from r obtain act where act: "map_of (st_actions (xs_approvals st)) aid = Some act" "act_status act = Approved"
      "a = act\<lparr>act_status := Redeemed\<rparr>" "st_actions q = AList.update aid a (st_actions (xs_approvals st))"
    by (auto simp: redeem_Inr)
  have st: "status_at q x = (if x = aid then Some Redeemed else status_at (xs_approvals st) x)" for x
    using act by (simp add: status_at_def AList.update_conv')
  have old: "status_at (xs_approvals st) aid = Some Approved" using act by (simp add: status_at_def)
  have red: "redeemed_as q x n b" if "redeemed_as (xs_approvals st) x n b" for x n b
    using that act by (auto simp: redeemed_as_def AList.update_conv')
  have self: "redeemed_as q aid (act_tool_name a) (act_args_json a)"
    using act by (simp add: redeemed_as_def AList.update_conv')
  have fresh: "aid \<notin> set (redeemed_ids evs)" using inv old unfolding exec_inv_def by (metis option.inject approval_status.distinct(21))
  show ?thesis
    using inv red self old fresh unfolding exec_inv_def by (auto simp: st)
qed

lemma exec_inv_defer:
  assumes inv: "exec_inv env evs grants st" and inj: "inj (xe_uuid env)"
  shows "exec_inv env evs grants (st\<lparr>xs_approvals := snd (enqueue (xe_uuid env (xs_ticks st)) now n a r (xs_approvals st)),
    xs_ticks := Suc (xs_ticks st)\<rparr>)"
proof -
  let ?aid = "''ap_'' @ xe_uuid env (xs_ticks st)"
  have fresh: "map_of (st_actions (xs_approvals st)) ?aid = None"
  proof (rule ccontr)
    assume "\<not> ?thesis"
    then have "status_at (xs_approvals st) ?aid \<noteq> None" by (auto simp: status_at_def)
    then obtain k where "k < xs_ticks st" "?aid = ''ap_'' @ xe_uuid env k" using inv unfolding exec_inv_def by blast
    with inj show False by (simp add: inj_eq)
  qed
  have red: "redeemed_as (snd (enqueue (xe_uuid env (xs_ticks st)) now n a r (xs_approvals st))) x n' b"
    if "redeemed_as (xs_approvals st) x n' b" for x n' b
    using that fresh by (auto simp: redeemed_as_def enqueue_def Let_def AList.update_conv')
  have none: "status_at (xs_approvals st) ?aid = None" using fresh by (simp add: status_at_def)
  have nr: "?aid \<notin> set (redeemed_ids evs)" using inv none unfolding exec_inv_def by (metis option.distinct(1))
  show ?thesis
    using inv red none nr unfolding exec_inv_def
    by (auto simp: status_at_enqueue less_Suc_eq split: if_splits)
qed

lemma exec_inv_commit:
  assumes inv: "exec_inv env evs grants st" and c: "commit aid r (xs_approvals st) = Inr q"
  shows "exec_inv env evs grants (st\<lparr>xs_approvals := q\<rparr>)"
proof -
  from c obtain act where a: "map_of (st_actions (xs_approvals st)) aid = Some act" "act_status act = Pending"
      and q: "st_actions q = AList.update aid (act\<lparr>act_commit_reason := Some r, act_status := Committed\<rparr>) (st_actions (xs_approvals st))"
    by (auto simp: commit_Inr)
  show ?thesis by (rule exec_inv_update [OF inv q a(1)]) (use a in auto)
qed

lemma exec_inv_cancel:
  assumes inv: "exec_inv env evs grants st" and c: "cancel aid (xs_approvals st) = Inr (p, q)"
  shows "exec_inv env evs grants (st\<lparr>xs_approvals := q\<rparr>)"
proof -
  from c obtain act where a: "map_of (st_actions (xs_approvals st)) aid = Some act" "act_status act \<noteq> Redeemed"
      and q: "st_actions q = AList.update aid (act\<lparr>act_status := Cancelled\<rparr>) (st_actions (xs_approvals st))"
    by (auto simp: cancel_Inr)
  show ?thesis by (rule exec_inv_update [OF inv q a(1)]) (use a in auto)
qed

lemma exec_inv_approve:
  assumes inv: "exec_inv env evs grants st" and c: "approve aid (xs_approvals st) = Inr q"
  shows "exec_inv env evs (insert aid grants) (st\<lparr>xs_approvals := q\<rparr>)"
proof -
  from c obtain act where a: "map_of (st_actions (xs_approvals st)) aid = Some act" "act_status act = Committed"
      and q: "st_actions q = AList.update aid (act\<lparr>act_status := Approved\<rparr>) (st_actions (xs_approvals st))"
    by (auto simp: approve_Inr)
  show ?thesis by (rule exec_inv_update [OF inv q a(1)]) (use a in auto)
qed

lemma exec_inv_deny:
  assumes inv: "exec_inv env evs grants st" and c: "deny aid r (xs_approvals st) = Inr q"
  shows "exec_inv env evs grants (st\<lparr>xs_approvals := q\<rparr>)"
proof -
  from c obtain act where a: "map_of (st_actions (xs_approvals st)) aid = Some act" "act_status act = Committed"
      and q: "st_actions q = AList.update aid (act\<lparr>act_status := Denied, act_deny_reason := Some r\<rparr>) (st_actions (xs_approvals st))"
    by (auto simp: deny_Inr)
  show ?thesis by (rule exec_inv_update [OF inv q a(1)]) (use a in auto)
qed

lemma exec_inv_begin:
  assumes inv: "exec_inv env evs grants st" and inj: "inj (xe_uuid env)"
    and e: "(ph, st') \<in> begin_effects env pol name args st"
  shows "exec_inv env (evs @ (case ph of Answered s \<Rightarrow> []
      | Dispatched n a \<Rightarrow> if name = ''approval_redeem''
          then (case parse_id env args of Inr aid \<Rightarrow> [RedeemedCall aid n a] | Inl e \<Rightarrow> []) else [Granted pol n a])) grants st'"
  using e
proof cases
  case (be_commit aid r q s)
  then show ?thesis using exec_inv_commit [OF inv] by simp
next
  case (be_cancel aid p q s)
  then show ?thesis using exec_inv_cancel [OF inv] by simp
next
  case (be_redeem aid a q)
  then show ?thesis using exec_inv_redeem [OF inv] by simp
next
  case be_grant
  then show ?thesis using inv unfolding exec_inv_def by (auto simp: redeemed_as_def)
next
  case (be_defer r s)
  then show ?thesis using exec_inv_defer [OF inv inj] by simp
qed (use inv in simp)

lemma exec_inv_step:
  assumes inv: "exec_inv env evs grants st" and inj: "inj (xe_uuid env)"
  shows "exec_inv env (evs @ op_events env x st) (grants \<union> op_grants x st) (exec_op_step env x st)"
proof (cases x)
  case (OpCall pol name args)
  obtain ph st1 where b: "begin_call env pol name args st = (ph, st1)" by (cases "begin_call env pol name args st")
  have "exec_inv env (evs @ op_events env x st) grants st1"
    using exec_inv_begin [OF inv inj, of ph st1 pol name args] begin_call_effects [of env pol name args st]
    by (simp add: OpCall b split: call_phase.splits)
  then show ?thesis
    using OpCall by (auto intro!: exec_inv_frame [of env _ grants st1] simp: execute_frame [OF b])
next
  case (OpReviewApprove aid)
  show ?thesis
  proof (cases "approve aid (xs_approvals st)")
    case (Inr q)
    then show ?thesis using exec_inv_approve [OF inv Inr] OpReviewApprove by (simp add: or_same_def is_ok_def)
  qed (use inv OpReviewApprove in \<open>simp add: or_same_def\<close>)
next
  case (OpReviewDeny aid r)
  show ?thesis
  proof (cases "deny aid r (xs_approvals st)")
    case (Inr q)
    then show ?thesis using exec_inv_deny [OF inv Inr] OpReviewDeny by (simp add: or_same_def)
  qed (use inv OpReviewDeny in \<open>simp add: or_same_def\<close>)
next
  case OpCollect
  have "exec_inv env evs grants (exec_op_step env OpCollect st)"
    by (rule exec_inv_frame [OF inv])
      (simp_all add: collect_transitions_def take_last_committed_def take_last_redeemed_def take_last_cancelled_def)
  then show ?thesis by (simp add: OpCollect)
qed

lemma exec_inv_run:
  assumes "inj (xe_uuid env)" "exec_inv env evs grants st"
  shows "exec_inv env (evs @ run_events env ops st) (grants \<union> run_grants env ops st) (exec_run env ops st)"
  using assms(2)
proof (induction ops arbitrary: evs grants st)
  case (Cons x xs)
  from Cons.IH [OF exec_inv_step [OF Cons.prems assms(1)]] show ?case by (simp add: Un_assoc)
qed simp

lemma exec_inv_new: "exec_inv env [] {} new_exec"
  by (simp add: exec_inv_def new_exec_def new_approvals_def status_at_def redeemed_as_def)

section \<open>Reading an envelope back\<close>

definition envelope_ok :: "envelope \<Rightarrow> bool" where
  "envelope_ok e \<longleftrightarrow> distinct (map fst (ev_rest e)) \<and> (\<forall>kv \<in> set (ev_rest e). fst kv \<notin> set envelope_fields \<and> json_ok (snd kv)) \<and>
     (\<forall>r \<in> set_option (ev_result e). json_ok r)"

definition null_as_none :: "json option \<Rightarrow> json option" where
  "null_as_none v = (if v = Some JNull then None else v)"

lemma opt_field_simps [simp]:
  "opt_field k None = []"
  "opt_field k (Some v) = [(k, v)]"
  by (simp_all add: opt_field_def)

lemma opt_value_simps [simp]:
  "opt_value f None = Some None"
  "opt_value f (Some JNull) = Some None"
  "opt_value f (Some (JStr s)) = map_option Some (f (JStr s))"
  "opt_value f (Some (JBool b)) = map_option Some (f (JBool b))"
  "opt_value Some v = Some (null_as_none v)"
  by (auto simp: opt_value_def null_as_none_def split: option.splits json.splits)

lemma envelope_known:
  assumes "envelope_ok e"
  shows "k \<in> set envelope_fields \<Longrightarrow> map_of (ev_rest e) k = None"
    and "filter (\<lambda>k. k \<in> set envelope_fields) (map fst (ev_rest e)) = []"
    and "filter (\<lambda>(k, v). k \<notin> set envelope_fields) (ev_rest e) = ev_rest e"
  using assms by (force simp: envelope_ok_def map_of_eq_None_iff filter_empty_conv intro: filter_True)+

lemma envelope_json_ok: "envelope_ok e \<Longrightarrow> json_ok (envelope_to_json e)"
  by (cases "ev_result e"; cases "ev_error e"; cases "ev_pending e")
    (force simp: envelope_ok_def envelope_to_json_def envelope_fields_def)+

lemma envelope_back:
  assumes "envelope_ok e"
  shows "envelope_of_json (envelope_to_json e) = Some (e\<lparr>ev_result := null_as_none (ev_result e)\<rparr>)"
proof -
  note known = envelope_known [OF assms]
  have none: "map_of (ev_rest e) ''ok'' = None" "map_of (ev_rest e) ''tool_name'' = None" "map_of (ev_rest e) ''result'' = None"
      "map_of (ev_rest e) ''error'' = None" "map_of (ev_rest e) ''pending_approval'' = None"
    by (simp_all add: known(1) envelope_fields_def)
  show ?thesis
    using none known(2,3) [unfolded envelope_fields_def]
    by (cases "ev_result e"; cases "ev_error e"; cases "ev_pending e")
      (simp_all add: envelope_to_json_def envelope_fields_def null_as_none_def)
qed

lemma classify_envelope:
  assumes "lawful_codec jc" "envelope_ok e"
  shows "classify_outcome jc (envelope_text jc e) =
    (if ev_pending e = Some True then Deferred (envelope_text jc e)
     else if \<not> ev_ok e \<or> ev_tool_name e = BASH_EXEC \<and> (\<exists>r \<in> set_option (null_as_none (ev_result e)). bash_foreground_failed r)
     then Failed (envelope_text jc e) else Success (envelope_text jc e))"
  by (auto simp: classify_outcome_def envelope_text_def codec_back [OF assms(1) envelope_json_ok [OF assms(2)]]
      envelope_back [OF assms(2)])

lemma classify_error: "lawful_codec jc \<Longrightarrow> classify_outcome jc (error_result jc n e) = Failed (error_result jc n e)"
  by (simp add: error_result_def classify_envelope envelope_ok_def)

lemma classify_deferred:
  "lawful_codec jc \<Longrightarrow> classify_outcome jc (approval_result_json jc aid n r) = Deferred (approval_result_json jc aid n r)"
  by (simp add: approval_result_json_def classify_envelope envelope_ok_def envelope_fields_def)

text \<open>A dispatched call counts as failed when it is \<open>bash_exec\<close> in the foreground with another exit code than 0.\<close>

definition output_value :: "json_codec \<Rightarrow> string \<Rightarrow> json" where
  "output_value jc output = (case from_text jc output of Some j \<Rightarrow> j | None \<Rightarrow> JStr output)"

definition output_failed :: "json_codec \<Rightarrow> string \<Rightarrow> string \<Rightarrow> bool" where
  "output_failed jc name output \<longleftrightarrow>
     name = BASH_EXEC \<and> output_value jc output \<noteq> JNull \<and> bash_foreground_failed (output_value jc output)"

lemma classify_success:
  assumes "lawful_codec jc"
  shows "classify_outcome jc (success_result jc n out) =
    (if output_failed jc n out then Failed (success_result jc n out) else Success (success_result jc n out))"
proof -
  have ok: "json_ok (output_value jc out)"
    using codec_ok [OF assms] by (simp add: output_value_def split: option.splits)
  have s: "success_result jc n out = envelope_text jc \<lparr>ev_ok = True, ev_tool_name = n, ev_result = Some (output_value jc out),
      ev_error = None, ev_pending = None, ev_rest = []\<rparr>"
    by (simp add: success_result_def output_value_def)
  show ?thesis
    unfolding s using ok by (subst classify_envelope [OF assms]) (auto simp: envelope_ok_def null_as_none_def output_failed_def)
qed

lemma execute_granted:
  "execute_tool env pol name args st = hand_over name args st \<Longrightarrow> begin_call env pol name args st = hand_over name args st \<Longrightarrow>
    execute env pol name args st =
      (case xe_dispatch env (xs_calls st) name args of
         Inl e \<Rightarrow> (classify_outcome (xe_codec env) (error_result (xe_codec env) name e), st\<lparr>xs_calls := xs_calls st @ [(name, args)]\<rparr>)
       | Inr out \<Rightarrow> (classify_outcome (xe_codec env) (success_result (xe_codec env) name out),
           fire_hook_notes env pol name args (st\<lparr>xs_calls := xs_calls st @ [(name, args)]\<rparr>)))"
  by (auto simp: execute_def hand_over_def split: sum.splits)

definition approval_tools :: "string set" where
  "approval_tools = {''approval_list'', ''approval_commit'', ''approval_redeem'', ''approval_cancel''}"

lemma begin_other: "name \<notin> approval_tools \<Longrightarrow> begin_call env pol name args st = execute_tool env pol name args st"
  by (simp add: begin_call_def approval_tools_def)

section \<open>What the executor promises\<close>

definition sample_env :: exec_env where
  "sample_env = \<lparr>xe_codec = flat_codec, xe_parse = sample_parse, xe_deep = (\<lambda>_. TAllow),
     xe_dispatch = (\<lambda>calls name args. Inr ''done''), xe_uuid = (\<lambda>n. replicate n CHR ''x''), xe_clock = int,
     xe_json_err = (\<lambda>_. ''bad json''), xe_approval_err = (\<lambda>_. ''bad approval''), xe_rfc3339 = (\<lambda>_. []), xe_sink = True\<rparr>"

definition sample_agent_policy :: agent_policy where
  "sample_agent_policy = \<lparr>ap_exec = \<lparr>overrides = []\<rparr>, ap_preset = AllowAll, ap_rules = []\<rparr>"

definition blank_args :: string where
  "blank_args = to_text flat_codec (JObj [(''command'', JStr '' '')])"

lemma sample_uuid_inj: "inj (xe_uuid sample_env)"
  by (rule injI) (use replicate_eq_replicate in \<open>auto simp: sample_env_def\<close>)

text \<open>An envelope with extra entries outside the five known fields is read back from its own text,
  entry for entry; the one exception is a \<open>result\<close> of JSON null, which reads as a missing result.\<close>

theorem envelope_roundtrip:
  assumes "lawful_codec jc" "envelope_ok e"
  shows "Option.bind (from_text jc (envelope_text jc e)) envelope_of_json
    = Some (if ev_result e = Some JNull then e\<lparr>ev_result := None\<rparr> else e)"
  using assms by (simp add: envelope_text_def codec_back envelope_json_ok envelope_back null_as_none_def)

definition sample_envelope :: envelope where
  "sample_envelope = \<lparr>ev_ok = True, ev_tool_name = ''bash_exec'', ev_result = None, ev_error = None, ev_pending = Some True,
     ev_rest = [(''id'', JStr ''ap_1'')]\<rparr>"

theorem envelope_roundtrip_witness:
  "Option.bind (from_text flat_codec (envelope_text flat_codec sample_envelope)) envelope_of_json = Some sample_envelope"
  using envelope_roundtrip [OF flat_codec_lawful, of sample_envelope]
  by (simp add: sample_envelope_def envelope_ok_def envelope_fields_def)

text \<open>C33. What one call of an ordinary tool does, decision by decision: a call whose policy evaluation
  fails or that the policy denies changes nothing and fails; a call that needs approval is not handed
  to the dispatcher, adds exactly one pending action holding this very call under a new id, leaves all
  other actions alone and is reported as deferred; an allowed call is handed over exactly once, a
  dispatcher error is a failure without notes, an answer fires the hook notes and is a success except
  for a foreground \<open>bash_exec\<close> whose exit code is not 0.\<close>

theorem execute_by_decision:
  assumes "lawful_codec (xe_codec env)" "name \<notin> approval_tools"
  shows "case evaluate env pol name args of
      Inl e \<Rightarrow> execute env pol name args st = (Failed (error_result (xe_codec env) name (''policy evaluation failed: '' @ e)), st)
    | Inr (TDeny r) \<Rightarrow> execute env pol name args st = (Failed (error_result (xe_codec env) name (''tool denied: '' @ r)), st)
    | Inr (TAsk r) \<Rightarrow>
        (let aid = ''ap_'' @ xe_uuid env (xs_ticks st); (oc, st') = execute env pol name args st
         in oc = Deferred (approval_result_json (xe_codec env) aid name r) \<and>
            xs_calls st' = xs_calls st \<and> xs_notices st' = xs_notices st \<and>
            map_of (st_actions (xs_approvals st')) = (map_of (st_actions (xs_approvals st)))
              (aid \<mapsto> \<lparr>act_id = aid, act_tool_name = name, act_args_json = args, act_commit_reason = None,
                 act_status = Pending, act_deny_reason = None, act_defer_reason = r,
                 act_created_at = xe_clock env (xs_ticks st)\<rparr>))
    | Inr TAllow \<Rightarrow>
        (let st1 = st\<lparr>xs_calls := xs_calls st @ [(name, args)]\<rparr>
         in execute env pol name args st =
           (case xe_dispatch env (xs_calls st) name args of
              Inl e \<Rightarrow> (Failed (error_result (xe_codec env) name e), st1)
            | Inr out \<Rightarrow>
                ((if output_failed (xe_codec env) name out then Failed else Success) (success_result (xe_codec env) name out),
                 fire_hook_notes env pol name args st1)))"
proof -
  note b = begin_other [OF assms(2), of env pol args st]
  show ?thesis
  proof (cases "evaluate env pol name args")
    case (Inl e)
    then show ?thesis using b by (simp add: execute_def execute_tool_def classify_error assms)
  next
    case (Inr d)
    show ?thesis
    proof (cases d)
      case TAllow
      with Inr have "execute_tool env pol name args st = hand_over name args st" by (simp add: execute_tool_def)
      then show ?thesis
        using b Inr TAllow execute_granted [of env pol name args st]
        by (auto simp: classify_error classify_success assms split: sum.splits)
    next
      case (TAsk r)
      then show ?thesis
        using b Inr by (simp add: execute_def execute_tool_def classify_deferred assms enqueue_def Let_def AList.update_conv')
    next
      case (TDeny r)
      then show ?thesis using b Inr by (simp add: execute_def execute_tool_def classify_error assms)
    qed
  qed
qed

theorem execute_by_decision_witness:
  "\<exists>s. execute sample_env sample_agent_policy BASH_EXEC blank_args new_exec = (Failed s, new_exec)"
proof -
  have "from_text flat_codec blank_args = Some (JObj [(''command'', JStr '' '')])"
    unfolding blank_args_def by (rule codec_back [OF flat_codec_lawful]) simp
  moreover have "trim '' '' = []" by code_simp
  ultimately have "\<exists>r. evaluate sample_env sample_agent_policy BASH_EXEC blank_args = Inr (TDeny r)"
    by (simp add: evaluate_def classify_bash_def bash_command_def sample_env_def bash_args_def classify_with_def classify_command_def)
  then obtain r where r: "evaluate sample_env sample_agent_policy BASH_EXEC blank_args = Inr (TDeny r)" ..
  have l: "lawful_codec (xe_codec sample_env)" by (simp add: sample_env_def flat_codec_lawful)
  have n: "BASH_EXEC \<notin> approval_tools" by (simp add: BASH_EXEC_def approval_tools_def)
  show ?thesis using execute_by_decision [OF l n, of sample_agent_policy blank_args new_exec] by (simp add: r)
qed

text \<open>Over any run of an executor that starts empty (tool calls under whatever policy is in force,
  reviews, collections), with random ids that do not repeat: the calls handed to the dispatcher are
  exactly the listed hand-overs; a direct one was allowed by the policy in force; a redeemed one is the
  stored call, name and arguments, of an approval that an operator approved in this run; and no
  approval is redeemed twice.\<close>

theorem executor_run_authorised:
  assumes "inj (xe_uuid env)"
  shows "let evs = run_events env ops new_exec; st = exec_run env ops new_exec
    in xs_calls st = map event_call evs \<and>
       (\<forall>pol n a. Granted pol n a \<in> set evs \<longrightarrow> evaluate env pol n a = Inr TAllow) \<and>
       (\<forall>aid n a. RedeemedCall aid n a \<in> set evs \<longrightarrow>
          aid \<in> run_grants env ops new_exec \<and> redeemed_as (xs_approvals st) aid n a) \<and>
       distinct (redeemed_ids evs)"
proof -
  from exec_inv_run [OF assms exec_inv_new, of ops]
  have "exec_inv env (run_events env ops new_exec) (run_grants env ops new_exec) (exec_run env ops new_exec)" by simp
  then show ?thesis unfolding exec_inv_def Let_def by (auto simp: set_redeemed_ids)
qed

theorem executor_run_authorised_witness:
  "run_events sample_env [OpCall sample_agent_policy ''todo'' ''x''] new_exec = [Granted sample_agent_policy ''todo'' ''x''] \<and>
   xs_calls (exec_run sample_env [OpCall sample_agent_policy ''todo'' ''x''] new_exec) = [(''todo'', ''x'')] \<and>
   evaluate sample_env sample_agent_policy ''todo'' ''x'' = Inr TAllow"
proof -
  have ev: "run_events sample_env [OpCall sample_agent_policy ''todo'' ''x''] new_exec = [Granted sample_agent_policy ''todo'' ''x'']"
    by (simp add: begin_call_def execute_tool_def evaluate_def BASH_EXEC_def hand_over_def)
  show ?thesis
    using executor_run_authorised [OF sample_uuid_inj, of "[OpCall sample_agent_policy ''todo'' ''x'']"]
    unfolding Let_def ev by simp
qed

text \<open>
  The responses of \<open>approval_list\<close>, \<open>approval_commit\<close> and \<open>approval_cancel\<close> have no \<open>tool_name\<close>, so none
  of them is an envelope: the outcome is read from the branch for text that does not parse. It is a
  success only because that branch reports success.
\<close>

theorem approval_answers_are_no_envelopes:
  "envelope_of_json (JObj [(''ok'', JBool True), (''actions'', as)]) = None \<and>
    envelope_of_json (JObj [(''ok'', JBool True), (''committed'', JBool True), (''id'', JStr aid)]) = None \<and>
    envelope_of_json (JObj [(''ok'', JBool True), (''cancelled'', JStr aid), (''previous_status'', JStr s)]) = None"
  by (simp add: envelope_fields_def)

end
