(* ===== verification/Tool_Rounds.thy ===== *)
theory Tool_Rounds
  imports Tool_Executor Text_Slice Context_Store
begin

text \<open>
  The tool calls of one round (\<open>kallip-runtime/src/tool_execution.rs\<close>): the serial loop that stops at
  the first call without clean success, the outer timeout, the round cancel, the control-flow tool
  \<open>break\<close>, the cap on recorded results and the synthesis of missing results.

  Chat messages belong to a third-party crate: their constructors and accessors are the record
  \<open>chat_api\<close>, what the code relies on is \<open>chat_laws\<close>. What the environment does to a call (it finishes,
  the timer expires, the round is cancelled, and whether that is before the call took effect or while
  the dispatcher works on it) is the argument \<open>fates\<close>, one per call.
\<close>

section \<open>Messages and calls\<close>

record 'm chat_api =
  ca_tool_calls :: "'m \<Rightarrow> tool_call list option"
  ca_tool_call_id :: "'m \<Rightarrow> string option"
  ca_assistant :: "string option \<Rightarrow> string option \<Rightarrow> tool_call list \<Rightarrow> 'm"
  ca_tool_result :: "string \<Rightarrow> string \<Rightarrow> 'm"

definition chat_laws :: "'m chat_api \<Rightarrow> bool" where
  "chat_laws api \<longleftrightarrow>
     (\<forall>c r cs. ca_tool_calls api (ca_assistant api c r cs) = Some cs \<and> ca_tool_call_id api (ca_assistant api c r cs) = None) \<and>
     (\<forall>s i. ca_tool_calls api (ca_tool_result api s i) = None \<and> ca_tool_call_id api (ca_tool_result api s i) = Some i)"

record stream_consumed =
  sc_content :: string
  sc_reasoning :: string
  sc_tool_calls :: "tool_call list"
  sc_usage :: "provider_usage option"

datatype break_until = Idle | Wait nat

datatype 'm tool_exec_result = Messages "'m list" | Break "'m list" break_until | RoundCancelled

datatype tool_event =
    EvToolCall string string
  | EvToolResult string
  | EvCommitted string string json string
  | EvRedeemed string
  | EvCancelled string

section \<open>The result cap\<close>

definition DEFAULT_TOOL_RESULT_FULL_TOKENS :: nat where
  "DEFAULT_TOOL_RESULT_FULL_TOKENS = 30000"

definition DEFAULT_TOOL_RESULT_TRUNCATED_TOKENS :: nat where
  "DEFAULT_TOOL_RESULT_TRUNCATED_TOKENS = 10000"

definition with_banner :: "(string \<Rightarrow> nat) \<Rightarrow> nat \<Rightarrow> nat \<Rightarrow> slice \<Rightarrow> string" where
  "with_banner est tot full_est parts =
     kept_text parts @ newline # ''[... truncated: kept first '' @ show_nat (fst parts) @ '' and last ''
       @ show_nat (fst (snd parts)) @ '' of '' @ show_nat tot @ '' chars (~'' @ show_nat (est (kept_text parts))
       @ '' of ~'' @ show_nat full_est
       @ '' estimated tokens). Narrow the command's output and re-run to see other parts ...]''"

definition cap_tool_result :: "(string \<Rightarrow> nat) \<Rightarrow> string \<Rightarrow> string" where
  "cap_tool_result est res =
     (let full_est = est res
      in if full_est \<le> DEFAULT_TOOL_RESULT_FULL_TOKENS then res
         else (let tot = length res; chars_cap = DEFAULT_TOOL_RESULT_TRUNCATED_TOKENS * tot div full_est
               in with_banner est tot full_est
                    (converge_under_cap est res chars_cap DEFAULT_TOOL_RESULT_TRUNCATED_TOKENS)))"

section \<open>One call under the timer and the round cancel\<close>

definition OWNS_TIMEOUT_TOOLS :: "string list" where
  "OWNS_TIMEOUT_TOOLS = [''bash_exec'']"

datatype fate = Completes | Expires bool | Cancels bool

text \<open>The answer is \<open>None\<close> when the round was cancelled; the flag of a fate says whether the call was already with the dispatcher.\<close>

definition run_tool_bounded ::
  "exec_env \<Rightarrow> agent_policy \<Rightarrow> nat \<Rightarrow> fate \<Rightarrow> string \<Rightarrow> string \<Rightarrow> exec_state \<Rightarrow> tool_call_outcome option \<times> exec_state" where
  "run_tool_bounded env pol secs fate name args st =
     (let (ph, st1) = begin_call env pol name args st;
          (s, st2) = finish_call env pol ph st1;
          completed = (Some (classify_outcome (xe_codec env) s), st2);
          interrupted = (\<lambda>late ans. if \<not> late then (ans, st) else case ph of Answered _ \<Rightarrow> completed | Dispatched _ _ \<Rightarrow> (ans, st1))
      in case fate of
           Completes \<Rightarrow> completed
         | Expires late \<Rightarrow>
             if name \<in> set OWNS_TIMEOUT_TOOLS then completed
             else interrupted late (Some (Failed (timed_out_tool_result (xe_codec env) name secs)))
         | Cancels late \<Rightarrow> interrupted late None)"

section \<open>Break\<close>

definition DEFAULT_BREAK_TIMEOUT_SECS :: nat where
  "DEFAULT_BREAK_TIMEOUT_SECS = 600"

definition parse_break_args :: "json_codec \<Rightarrow> string \<Rightarrow> break_until" where
  "parse_break_args jc raw =
     (case from_text jc raw of
        None \<Rightarrow> Wait DEFAULT_BREAK_TIMEOUT_SECS
      | Some args \<Rightarrow>
          if Option.bind (json_get ''until'' args) json_str = Some ''idle'' then Idle
          else (case Option.bind (json_get ''timeout_secs'' args) json_u64 of
                  Some t \<Rightarrow> if 1 \<le> t then Wait t else Wait DEFAULT_BREAK_TIMEOUT_SECS
                | None \<Rightarrow> Wait DEFAULT_BREAK_TIMEOUT_SECS))"

definition dq :: "string \<Rightarrow> string" where
  "dq s = [dquote_char] @ s @ [dquote_char]"

fun break_ack :: "break_until \<Rightarrow> string" where
  "break_ack Idle = ''{'' @ dq ''ok'' @ '':true,'' @ dq ''tool_name'' @ '':'' @ dq ''break'' @ '','' @ dq ''result'' @ '':{''
     @ dq ''parked'' @ '':true,'' @ dq ''until'' @ '':'' @ dq ''idle'' @ ''}}''"
| "break_ack (Wait secs) = ''{'' @ dq ''ok'' @ '':true,'' @ dq ''tool_name'' @ '':'' @ dq ''break'' @ '','' @ dq ''result'' @ '':{''
     @ dq ''parked'' @ '':true,'' @ dq ''until'' @ '':'' @ dq ''wait'' @ '','' @ dq ''timeout_secs'' @ '':'' @ show_nat secs @ ''}}''"

section \<open>Pairing of calls and results\<close>

definition declared_calls :: "'m chat_api \<Rightarrow> 'm list \<Rightarrow> tool_call list" where
  "declared_calls api msgs = concat (List.map_filter (ca_tool_calls api) msgs)"

definition answered_ids :: "'m chat_api \<Rightarrow> 'm list \<Rightarrow> string list" where
  "answered_ids api msgs = List.map_filter (ca_tool_call_id api) msgs"

definition unanswered_call_ids :: "'m chat_api \<Rightarrow> 'm list \<Rightarrow> (string \<times> string) list" where
  "unanswered_call_ids api msgs =
     filter (\<lambda>(i, n). i \<notin> set (answered_ids api msgs)) (map (\<lambda>c. (tc_id c, tc_name c)) (declared_calls api msgs))"

definition orphan_result_ids :: "'m chat_api \<Rightarrow> 'm list \<Rightarrow> string list" where
  "orphan_result_ids api msgs =
     filter (\<lambda>i. i \<notin> set (map tc_id (declared_calls api msgs))) (answered_ids api msgs)"

definition synthesized_content :: "json_codec \<Rightarrow> break_until \<Rightarrow> string \<Rightarrow> string" where
  "synthesized_content jc until name =
     (if name = ''break'' then break_ack until
      else error_result jc name (''not executed: a '' @ [quote_char] @ ''break'' @ [quote_char]
        @ '' in this round terminated execution before this call ran''))"

definition synthesize_unanswered_results ::
  "json_codec \<Rightarrow> 'm chat_api \<Rightarrow> 'm list \<Rightarrow> break_until \<Rightarrow> 'm list" where
  "synthesize_unanswered_results jc api msgs until =
     msgs @ map (\<lambda>(i, n). ca_tool_result api (synthesized_content jc until n) i) (unanswered_call_ids api msgs)"

section \<open>The round\<close>

record 'm round_state =
  rd_exec :: exec_state
  rd_events :: "tool_event list"
  rd_skip :: "(string \<times> string) option"
  rd_messages :: "'m list"

definition send :: "tool_event list \<Rightarrow> 'm round_state \<Rightarrow> 'm round_state" where
  "send evs rd = rd\<lparr>rd_events := rd_events rd @ evs\<rparr>"

definition transition_events ::
  "json_codec \<Rightarrow> committed_info option \<times> string option \<times> string option \<Rightarrow> tool_event list" where
  "transition_events jc tr =
     (case tr of (committed, redeemed, cancelled) \<Rightarrow>
        (case committed of None \<Rightarrow> []
         | Some i \<Rightarrow> [EvCommitted (ci_id i) (ci_tool_name i)
             (case from_text jc (ci_args_json i) of Some v \<Rightarrow> v | None \<Rightarrow> JNull) (ci_commit_reason i)])
        @ (case redeemed of None \<Rightarrow> [] | Some i \<Rightarrow> [EvRedeemed i])
        @ (case cancelled of None \<Rightarrow> [] | Some i \<Rightarrow> [EvCancelled i]))"

fun outcome_text :: "tool_call_outcome \<Rightarrow> string" where
  "outcome_text (Success s) = s"
| "outcome_text (Failed s) = s"
| "outcome_text (Deferred s) = s"

fun armed_skip :: "string \<Rightarrow> tool_call_outcome \<Rightarrow> (string \<times> string) option" where
  "armed_skip name (Success s) = None"
| "armed_skip name (Failed s) = Some (name, ''did not succeed'')"
| "armed_skip name (Deferred s) = Some (name, ''is pending approval'')"

definition record_result :: "(string \<Rightarrow> nat) \<Rightarrow> 'm chat_api \<Rightarrow> tool_call \<Rightarrow> string \<Rightarrow> 'm round_state \<Rightarrow> 'm round_state" where
  "record_result est api call res rd =
     (let s = cap_tool_result est res
      in (send [EvToolResult s] rd)\<lparr>rd_messages := rd_messages rd @ [ca_tool_result api s (tc_id call)]\<rparr>)"

text \<open>One call that is not \<open>break\<close>; \<open>None\<close> when the round is cancelled during it, with the state it leaves.\<close>

definition one_call ::
  "exec_env \<Rightarrow> (string \<Rightarrow> nat) \<Rightarrow> 'm chat_api \<Rightarrow> agent_policy \<Rightarrow> nat \<Rightarrow> fate \<Rightarrow> tool_call \<Rightarrow> 'm round_state
    \<Rightarrow> bool \<times> 'm round_state" where
  "one_call env est api pol secs fate call rd =
     (case rd_skip rd of
        Some (prior, r) \<Rightarrow> (True, record_result est api call (skipped_tool_result (xe_codec env) (tc_name call) prior r) rd)
      | None \<Rightarrow>
          (let rd1 = send [EvToolCall (tc_name call) (tc_arguments call)] rd;
               (ans, st) = run_tool_bounded env pol secs fate (tc_name call) (tc_arguments call) (rd_exec rd1)
           in case ans of
                None \<Rightarrow> (False, rd1\<lparr>rd_exec := st\<rparr>)
              | Some oc \<Rightarrow>
                  (let (tr, st') = collect_transitions st;
                       rd2 = send (transition_events (xe_codec env) tr) (rd1\<lparr>rd_exec := st', rd_skip := armed_skip (tc_name call) oc\<rparr>)
                   in (True, record_result est api call (outcome_text oc) rd2))))"

fun call_loop ::
  "exec_env \<Rightarrow> (string \<Rightarrow> nat) \<Rightarrow> 'm chat_api \<Rightarrow> agent_policy \<Rightarrow> nat \<Rightarrow> (nat \<Rightarrow> fate) \<Rightarrow> nat \<Rightarrow> tool_call list \<Rightarrow> 'm round_state
    \<Rightarrow> 'm tool_exec_result \<times> 'm round_state" where
  "call_loop env est api pol secs fates i [] rd =
     (Messages (synthesize_unanswered_results (xe_codec env) api (rd_messages rd) (Wait DEFAULT_BREAK_TIMEOUT_SECS)), rd)"
| "call_loop env est api pol secs fates i (call # calls) rd =
     (if tc_name call = ''break'' then
        (let until = parse_break_args (xe_codec env) (tc_arguments call);
             rd' = send [EvToolCall ''break'' (tc_arguments call), EvToolResult (break_ack until)] rd
         in (Break (synthesize_unanswered_results (xe_codec env) api (rd_messages rd') until) until, rd'))
      else case one_call env est api pol secs (fates i) call rd of
             (False, rd') \<Rightarrow> (RoundCancelled, rd')
           | (True, rd') \<Rightarrow> call_loop env est api pol secs fates (Suc i) calls rd')"

definition non_empty :: "string \<Rightarrow> string option" where
  "non_empty s = (if s = [] then None else Some s)"

definition execute_tool_calls ::
  "exec_env \<Rightarrow> (string \<Rightarrow> nat) \<Rightarrow> 'm chat_api \<Rightarrow> agent_policy \<Rightarrow> nat \<Rightarrow> (nat \<Rightarrow> fate) \<Rightarrow> stream_consumed \<Rightarrow> exec_state
    \<Rightarrow> 'm tool_exec_result \<times> tool_event list \<times> exec_state" where
  "execute_tool_calls env est api pol secs fates consumed st =
     (let (r, rd) = call_loop env est api pol secs fates 0 (sc_tool_calls consumed)
            \<lparr>rd_exec = st, rd_events = [], rd_skip = None,
             rd_messages = [ca_assistant api (non_empty (sc_content consumed)) (non_empty (sc_reasoning consumed)) (sc_tool_calls consumed)]\<rparr>
      in (r, rd_events rd, rd_exec rd))"

section \<open>A reference for the loop\<close>

text \<open>
  Without the skip flag: run the calls one after the other until one is not a clean success (or the
  round is cancelled); the answer lists the outcomes of the calls that ran.
\<close>

fun run_prefix ::
  "exec_env \<Rightarrow> agent_policy \<Rightarrow> nat \<Rightarrow> (nat \<Rightarrow> fate) \<Rightarrow> nat \<Rightarrow> tool_call list \<Rightarrow> exec_state
    \<Rightarrow> tool_call_outcome list \<times> bool \<times> exec_state" where
  "run_prefix env pol secs fates i [] st = ([], False, st)"
| "run_prefix env pol secs fates i (call # calls) st =
     (case run_tool_bounded env pol secs (fates i) (tc_name call) (tc_arguments call) st of
        (None, st1) \<Rightarrow> ([], True, st1)
      | (Some oc, st1) \<Rightarrow>
          (let st2 = snd (collect_transitions st1)
           in case armed_skip (tc_name call) oc of
                Some _ \<Rightarrow> ([oc], False, st2)
              | None \<Rightarrow> (let (ocs, cancelled, st3) = run_prefix env pol secs fates (Suc i) calls st2 in (oc # ocs, cancelled, st3))))"

fun round_texts :: "json_codec \<Rightarrow> tool_call list \<Rightarrow> tool_call_outcome list \<Rightarrow> string list" where
  "round_texts jc (call # calls) (oc # ocs) =
     outcome_text oc # (case armed_skip (tc_name call) oc of
         None \<Rightarrow> round_texts jc calls ocs
       | Some (prior, r) \<Rightarrow> map (\<lambda>c. skipped_tool_result jc (tc_name c) prior r) calls)"
| "round_texts jc _ _ = []"

definition result_messages :: "(string \<Rightarrow> nat) \<Rightarrow> 'm chat_api \<Rightarrow> tool_call list \<Rightarrow> string list \<Rightarrow> 'm list" where
  "result_messages est api calls texts =
     map (\<lambda>(c, t). ca_tool_result api (cap_tool_result est t) (tc_id c)) (zip calls texts)"

definition finish_result :: "json_codec \<Rightarrow> 'm chat_api \<Rightarrow> tool_call list \<Rightarrow> 'm list \<Rightarrow> 'm tool_exec_result" where
  "finish_result jc api rest msgs =
     (case rest of
        [] \<Rightarrow> Messages (synthesize_unanswered_results jc api msgs (Wait DEFAULT_BREAK_TIMEOUT_SECS))
      | b # _ \<Rightarrow> (let until = parse_break_args jc (tc_arguments b)
                 in Break (synthesize_unanswered_results jc api msgs until) until))"

abbreviation not_break :: "tool_call \<Rightarrow> bool" where
  "not_break c \<equiv> tc_name c \<noteq> ''break''"

lemma send_simps [simp]:
  "rd_exec (send evs rd) = rd_exec rd" "rd_skip (send evs rd) = rd_skip rd" "rd_messages (send evs rd) = rd_messages rd"
  by (simp_all add: send_def)

lemma record_result_simps [simp]:
  "rd_exec (record_result est api c s rd) = rd_exec rd" "rd_skip (record_result est api c s rd) = rd_skip rd"
  "rd_messages (record_result est api c s rd) = rd_messages rd @ [ca_tool_result api (cap_tool_result est s) (tc_id c)]"
  by (simp_all add: record_result_def Let_def)

lemma result_messages_simps [simp]:
  "result_messages est api [] ts = []"
  "result_messages est api (c # cs) (t # ts) = ca_tool_result api (cap_tool_result est t) (tc_id c) # result_messages est api cs ts"
  by (simp_all add: result_messages_def)

lemma loop_skipping:
  assumes "rd_skip rd = Some (prior, r)"
  shows "\<exists>rd'. call_loop env est api pol secs fates i calls rd
      = (finish_result (xe_codec env) api (dropWhile not_break calls) (rd_messages rd'), rd') \<and> rd_exec rd' = rd_exec rd \<and>
    rd_messages rd' = rd_messages rd @ result_messages est api (takeWhile not_break calls)
      (map (\<lambda>c. skipped_tool_result (xe_codec env) (tc_name c) prior r) (takeWhile not_break calls))"
  using assms
proof (induction calls arbitrary: i rd)
  case Nil
  then show ?case by (simp add: finish_result_def)
next
  case (Cons c cs)
  show ?case
  proof (cases "tc_name c = ''break''")
    case True
    then show ?thesis by (simp add: finish_result_def Let_def)
  next
    case False
    let ?rd = "record_result est api c (skipped_tool_result (xe_codec env) (tc_name c) prior r) rd"
    have "rd_skip ?rd = Some (prior, r)" using Cons.prems by simp
    from Cons.IH [OF this, of "Suc i"] show ?thesis using False Cons.prems by (simp add: one_call_def)
  qed
qed

lemma length_round_texts:
  "run_prefix env pol secs fates i calls st = (ocs, False, st') \<Longrightarrow> length (round_texts jc calls ocs) = length calls"
  by (induction calls arbitrary: i st ocs st')
    (auto simp: Let_def split: prod.splits option.splits)

lemma loop_running:
  assumes "rd_skip rd = None" "run_prefix env pol secs fates i (takeWhile not_break calls) (rd_exec rd) = (ocs, cancelled, st')"
  shows "\<exists>rd'. call_loop env est api pol secs fates i calls rd
      = (if cancelled then RoundCancelled else finish_result (xe_codec env) api (dropWhile not_break calls) (rd_messages rd'), rd') \<and>
    rd_exec rd' = st' \<and>
    (\<not> cancelled \<longrightarrow> rd_messages rd' = rd_messages rd @ result_messages est api (takeWhile not_break calls)
      (round_texts (xe_codec env) (takeWhile not_break calls) ocs))"
  using assms
proof (induction calls arbitrary: i rd ocs)
  case Nil
  then show ?case by (simp add: finish_result_def)
next
  case (Cons c cs)
  show ?case
  proof (cases "tc_name c = ''break''")
    case True
    then show ?thesis using Cons.prems by (simp add: finish_result_def Let_def)
  next
    case nb: False
    let ?rd1 = "send [EvToolCall (tc_name c) (tc_arguments c)] rd"
    obtain ans st1 where run: "run_tool_bounded env pol secs (fates i) (tc_name c) (tc_arguments c) (rd_exec rd) = (ans, st1)"
      by (cases "run_tool_bounded env pol secs (fates i) (tc_name c) (tc_arguments c) (rd_exec rd)")
    show ?thesis
    proof (cases ans)
      case None
      then show ?thesis using Cons.prems nb run by (auto simp: one_call_def)
    next
      case (Some oc)
      obtain tr st2 where tr: "collect_transitions st1 = (tr, st2)" by (cases "collect_transitions st1")
      define rd2 where "rd2 = record_result est api c (outcome_text oc)
        (send (transition_events (xe_codec env) tr) (?rd1\<lparr>rd_exec := st2, rd_skip := armed_skip (tc_name c) oc\<rparr>))"
      have one: "one_call env est api pol secs (fates i) c rd = (True, rd2)"
        using Cons.prems run Some tr by (simp add: one_call_def rd2_def)
      have rd2: "rd_exec rd2 = st2" "rd_skip rd2 = armed_skip (tc_name c) oc"
          "rd_messages rd2 = rd_messages rd @ [ca_tool_result api (cap_tool_result est (outcome_text oc)) (tc_id c)]"
        by (simp_all add: rd2_def)
      show ?thesis
      proof (cases "armed_skip (tc_name c) oc")
        case (Some pr)
        obtain prior r where pr: "pr = (prior, r)" by (cases pr)
        have o: "ocs = [oc]" "\<not> cancelled" "st' = st2"
          using Cons.prems(2) nb run \<open>ans = Some oc\<close> Some tr by auto
        have "rd_skip rd2 = Some (prior, r)" using rd2 Some pr by simp
        from loop_skipping [OF this, of env est api pol secs fates "Suc i" cs]
        show ?thesis using nb one rd2 Some pr o by (auto simp: zip_map2)
      next
        case None
        obtain ocs' where o: "ocs = oc # ocs'" and
          rec: "run_prefix env pol secs fates (Suc i) (takeWhile not_break cs) (rd_exec rd2) = (ocs', cancelled, st')"
          using Cons.prems(2) nb run \<open>ans = Some oc\<close> None tr rd2
          by (auto simp: Let_def split: prod.splits)
        from Cons.IH [OF _ rec] show ?thesis using nb one rd2 None o by (auto simp: Let_def)
      qed
    qed
  qed
qed

definition assistant_message :: "'m chat_api \<Rightarrow> stream_consumed \<Rightarrow> 'm" where
  "assistant_message api consumed =
     ca_assistant api (non_empty (sc_content consumed)) (non_empty (sc_reasoning consumed)) (sc_tool_calls consumed)"

lemma execute_calls_spec:
  assumes "run_prefix env pol secs fates 0 (takeWhile not_break (sc_tool_calls consumed)) st = (ocs, cancelled, st')"
  shows "\<exists>evs. execute_tool_calls env est api pol secs fates consumed st =
    (if cancelled then RoundCancelled
     else finish_result (xe_codec env) api (dropWhile not_break (sc_tool_calls consumed))
       (assistant_message api consumed # result_messages est api (takeWhile not_break (sc_tool_calls consumed))
          (round_texts (xe_codec env) (takeWhile not_break (sc_tool_calls consumed)) ocs)), evs, st')"
proof -
  let ?rd = "\<lparr>rd_exec = st, rd_events = [], rd_skip = None, rd_messages = [assistant_message api consumed]\<rparr>"
  from loop_running [of ?rd env pol secs fates 0 "sc_tool_calls consumed" ocs cancelled st' est api] assms
  show ?thesis
    by (auto simp: execute_tool_calls_def assistant_message_def [symmetric] split: prod.splits)
qed

section \<open>Pairing\<close>

lemma pairing_simps:
  assumes "chat_laws api"
  shows "declared_calls api (assistant_message api consumed # map (\<lambda>(s, i). ca_tool_result api s i) rs) = sc_tool_calls consumed"
    and "answered_ids api (assistant_message api consumed # map (\<lambda>(s, i). ca_tool_result api s i) rs) = map snd rs"
proof -
  have "List.map_filter (ca_tool_calls api) (map (\<lambda>(s, i). ca_tool_result api s i) rs) = []"
    using assms by (induction rs) (auto simp: chat_laws_def map_filter_simps)
  then show "declared_calls api (assistant_message api consumed # map (\<lambda>(s, i). ca_tool_result api s i) rs) = sc_tool_calls consumed"
    using assms by (simp add: declared_calls_def assistant_message_def chat_laws_def map_filter_simps)
  have "List.map_filter (ca_tool_call_id api) (map (\<lambda>(s, i). ca_tool_result api s i) rs) = map snd rs"
    using assms by (induction rs) (auto simp: chat_laws_def map_filter_simps)
  then show "answered_ids api (assistant_message api consumed # map (\<lambda>(s, i). ca_tool_result api s i) rs) = map snd rs"
    using assms by (simp add: answered_ids_def assistant_message_def chat_laws_def map_filter_simps)
qed

definition result_pairs :: "(string \<Rightarrow> nat) \<Rightarrow> tool_call list \<Rightarrow> string list \<Rightarrow> (string \<times> string) list" where
  "result_pairs est calls texts = map (\<lambda>(c, t). (cap_tool_result est t, tc_id c)) (zip calls texts)"

lemma result_messages_pairs:
  "result_messages est api calls texts = map (\<lambda>(s, i). ca_tool_result api s i) (result_pairs est calls texts)"
  by (simp add: result_messages_def result_pairs_def comp_def split_def)

lemma snd_result_pairs: "length texts = length calls \<Longrightarrow> map snd (result_pairs est calls texts) = map tc_id calls"
  by (induction texts calls rule: list_induct2) (simp_all add: result_pairs_def)

lemma map_filter_distinct:
  "distinct (map tc_id (xs @ ys)) \<Longrightarrow> filter (\<lambda>c. tc_id c \<notin> set (map tc_id xs)) (xs @ ys) = ys"
proof -
  assume d: "distinct (map tc_id (xs @ ys))"
  have "filter (\<lambda>c. tc_id c \<notin> set (map tc_id xs)) xs = []" by (auto simp: filter_empty_conv)
  moreover have "filter (\<lambda>c. tc_id c \<notin> set (map tc_id xs)) ys = ys" using d by (intro filter_True) auto
  ultimately show ?thesis by (simp only: filter_append append_Nil)
qed

text \<open>Synthesis over an assistant message and any list of results.\<close>

lemma synthesized_paired:
  fixes rs :: "(string \<times> string) list"
  assumes laws: "chat_laws api" and sub: "set (map snd rs) \<subseteq> set (map tc_id (sc_tool_calls consumed))"
    and ms: "ms = synthesize_unanswered_results jc api (assistant_message api consumed # map (\<lambda>(s, i). ca_tool_result api s i) rs) until"
  shows "unanswered_call_ids api ms = []" and "orphan_result_ids api ms = []"
    and "declared_calls api ms = sc_tool_calls consumed"
    and "answered_ids api ms = map snd rs @ map tc_id (filter (\<lambda>c. tc_id c \<notin> set (map snd rs)) (sc_tool_calls consumed))"
proof -
  let ?open = "filter (\<lambda>c. tc_id c \<notin> set (map snd rs)) (sc_tool_calls consumed)"
  let ?rs = "rs @ map (\<lambda>c. (synthesized_content jc until (tc_name c), tc_id c)) ?open"
  have "unanswered_call_ids api (assistant_message api consumed # map (\<lambda>(s, i). ca_tool_result api s i) rs)
      = map (\<lambda>c. (tc_id c, tc_name c)) ?open"
    by (simp add: unanswered_call_ids_def pairing_simps [OF laws] filter_map comp_def)
  then have m: "ms = assistant_message api consumed # map (\<lambda>(s, i). ca_tool_result api s i) ?rs"
    unfolding ms synthesize_unanswered_results_def by simp
  show d: "declared_calls api ms = sc_tool_calls consumed" unfolding m by (rule pairing_simps [OF laws])
  have a: "answered_ids api ms = map snd rs @ map tc_id ?open" unfolding m pairing_simps(2) [OF laws] by simp
  then show "answered_ids api ms = map snd rs @ map tc_id ?open" .
  show "unanswered_call_ids api ms = []"
    unfolding unanswered_call_ids_def a d by (auto simp: filter_empty_conv)
  show "orphan_result_ids api ms = []"
    using sub unfolding orphan_result_ids_def a d by (auto simp: filter_empty_conv)
qed

section \<open>A concrete chat interface\<close>

datatype sample_msg = SCalls "tool_call list" | SResult string string

definition sample_api :: "sample_msg chat_api" where
  "sample_api = \<lparr>ca_tool_calls = (\<lambda>m. case m of SCalls cs \<Rightarrow> Some cs | SResult s i \<Rightarrow> None),
     ca_tool_call_id = (\<lambda>m. case m of SCalls cs \<Rightarrow> None | SResult s i \<Rightarrow> Some i),
     ca_assistant = (\<lambda>c r cs. SCalls cs), ca_tool_result = SResult\<rparr>"

lemma sample_api_laws: "chat_laws sample_api"
  by (simp add: chat_laws_def sample_api_def)

definition sample_call :: "string \<Rightarrow> string \<Rightarrow> tool_call" where
  "sample_call i n = \<lparr>tc_id = i, tc_name = n, tc_arguments = ''x''\<rparr>"

definition sample_turn :: stream_consumed where
  "sample_turn = \<lparr>sc_content = [], sc_reasoning = [],
     sc_tool_calls = [sample_call ''1'' ''break'', sample_call ''2'' ''todo''], sc_usage = None\<rparr>"

section \<open>Properties of a round\<close>


text \<open>
  Every recorded turn is protocol-valid: each declared call has a result and each result a declared
  call, on the normal path and on \<open>break\<close>; with distinct call ids there is exactly one result per call,
  in the order of the calls.
\<close>

theorem recorded_turn_paired:
  assumes laws: "chat_laws api"
    and r: "fst (execute_tool_calls env est api pol secs fates consumed st) \<in> {Messages ms, Break ms until}"
  shows "unanswered_call_ids api ms = [] \<and> orphan_result_ids api ms = [] \<and> declared_calls api ms = sc_tool_calls consumed \<and>
    (distinct (map tc_id (sc_tool_calls consumed)) \<longrightarrow> answered_ids api ms = map tc_id (sc_tool_calls consumed))"
proof -
  let ?pre = "takeWhile not_break (sc_tool_calls consumed)" and ?post = "dropWhile not_break (sc_tool_calls consumed)"
  obtain ocs cancelled st' where p: "run_prefix env pol secs fates 0 ?pre st = (ocs, cancelled, st')"
    by (cases "run_prefix env pol secs fates 0 ?pre st") auto
  from execute_calls_spec [OF p, of est api] r have "\<not> cancelled" by (auto split: if_splits)
  define rs where "rs = result_pairs est ?pre (round_texts (xe_codec env) ?pre ocs)"
  have ids: "map snd rs = map tc_id ?pre"
    unfolding rs_def by (rule snd_result_pairs, rule length_round_texts) (use p \<open>\<not> cancelled\<close> in simp)
  have "fst (execute_tool_calls env est api pol secs fates consumed st) =
      finish_result (xe_codec env) api ?post (assistant_message api consumed # map (\<lambda>(s, i). ca_tool_result api s i) rs)"
    using execute_calls_spec [OF p, of est api] \<open>\<not> cancelled\<close> by (auto simp: rs_def result_messages_pairs)
  with r obtain u where ms: "ms = synthesize_unanswered_results (xe_codec env) api
      (assistant_message api consumed # map (\<lambda>(s, i). ca_tool_result api s i) rs) u"
    by (auto simp: finish_result_def Let_def split: list.splits)
  have sub: "set (map snd rs) \<subseteq> set (map tc_id (sc_tool_calls consumed))"
    unfolding ids by (auto dest: set_takeWhileD)
  note paired = synthesized_paired [OF laws sub ms]
  have "answered_ids api ms = map tc_id (sc_tool_calls consumed)" if "distinct (map tc_id (sc_tool_calls consumed))"
    using that map_filter_distinct [of ?pre ?post] unfolding paired(4) ids
    by simp (metis map_append takeWhile_dropWhile_id)
  with paired show ?thesis by blast
qed

theorem recorded_turn_paired_witness:
  "\<exists>ms until. fst (execute_tool_calls sample_env length sample_api sample_agent_policy 10 (\<lambda>_. Completes) sample_turn new_exec) = Break ms until \<and>
     answered_ids sample_api ms = [''1'', ''2'']"
proof -
  obtain ms until where r: "fst (execute_tool_calls sample_env length sample_api sample_agent_policy 10 (\<lambda>_. Completes) sample_turn new_exec) = Break ms until"
    by (simp add: execute_tool_calls_def sample_turn_def sample_call_def Let_def)
  from r have m: "fst (execute_tool_calls sample_env length sample_api sample_agent_policy 10 (\<lambda>_. Completes) sample_turn new_exec)
      \<in> {Messages ms, Break ms until}" by simp
  from recorded_turn_paired [OF sample_api_laws m] have "answered_ids sample_api ms = [''1'', ''2'']"
    by (simp add: sample_turn_def sample_call_def)
  with r show ?thesis by blast
qed

lemma bounded_None: "run_tool_bounded env pol secs f name args st = (None, st') \<Longrightarrow> \<exists>late. f = Cancels late"
  by (auto simp: run_tool_bounded_def Let_def split: prod.splits fate.splits if_splits call_phase.splits)

lemma prefix_cancelled:
  "run_prefix env pol secs fates i calls st = (ocs, True, st') \<Longrightarrow> \<exists>k < length calls. \<exists>late. fates (i + k) = Cancels late"
proof (induction calls arbitrary: i st ocs)
  case (Cons c cs)
  obtain ans st1 where run: "run_tool_bounded env pol secs (fates i) (tc_name c) (tc_arguments c) st = (ans, st1)"
    by (cases "run_tool_bounded env pol secs (fates i) (tc_name c) (tc_arguments c) st")
  show ?case
  proof (cases ans)
    case None
    with run bounded_None show ?thesis by (intro exI [of _ 0]) simp
  next
    case (Some oc)
    then obtain ocs' where "run_prefix env pol secs fates (Suc i) cs (snd (collect_transitions st1)) = (ocs', True, st')"
      using Cons.prems run by (auto simp: Let_def split: option.splits prod.splits)
    from Cons.IH [OF this] obtain k late where "k < length cs" "fates (Suc i + k) = Cancels late" by blast
    then show ?thesis by (intro exI [of _ "Suc k"]) auto
  qed
qed simp

lemma parse_break_bounds: "parse_break_args jc raw = Wait t \<Longrightarrow> 1 \<le> t \<and> t < 2 ^ 64"
  by (auto simp: parse_break_args_def DEFAULT_BREAK_TIMEOUT_SECS_def json_u64_def Option.bind_eq_Some_conv
      split: option.splits if_splits json.splits)

lemma dropWhile_find: "dropWhile not_break calls = b # rest \<Longrightarrow> List.find (\<lambda>c. tc_name c = ''break'') calls = Some b"
  by (induction calls) (auto split: if_splits)

text \<open>
  \<open>break\<close> is never lost: unless the round is cancelled (which takes a cancel signal during one of its
  calls), a round with a \<open>break\<close> call parks, whatever failed before it, with the target of the first
  \<open>break\<close>; malformed arguments fall back to a timed wait, and a timed wait lasts at least a second. A
  round without \<open>break\<close> never parks.
\<close>

theorem break_always_parks:
  "case fst (execute_tool_calls env est api pol secs fates consumed st) of
     Messages ms \<Rightarrow> list_all not_break (sc_tool_calls consumed)
   | Break ms until \<Rightarrow>
       (\<exists>b. List.find (\<lambda>c. tc_name c = ''break'') (sc_tool_calls consumed) = Some b \<and>
            until = parse_break_args (xe_codec env) (tc_arguments b)) \<and>
       (case until of Idle \<Rightarrow> True | Wait t \<Rightarrow> 1 \<le> t \<and> t < 2 ^ 64)
   | RoundCancelled \<Rightarrow> \<exists>k < length (sc_tool_calls consumed). fates k \<in> {Cancels True, Cancels False}"
proof -
  let ?pre = "takeWhile not_break (sc_tool_calls consumed)" and ?post = "dropWhile not_break (sc_tool_calls consumed)"
  obtain ocs cancelled st' where p: "run_prefix env pol secs fates 0 ?pre st = (ocs, cancelled, st')"
    by (cases "run_prefix env pol secs fates 0 ?pre st") auto
  let ?msgs = "assistant_message api consumed # result_messages est api ?pre (round_texts (xe_codec env) ?pre ocs)"
  have spec: "fst (execute_tool_calls env est api pol secs fates consumed st) =
      (if cancelled then RoundCancelled else finish_result (xe_codec env) api ?post ?msgs)"
    using execute_calls_spec [OF p, of est api] by auto
  show ?thesis
  proof (cases cancelled)
    case True
    with p prefix_cancelled [of env pol secs fates 0 ?pre st ocs st'] obtain k late
      where "k < length ?pre" "fates k = Cancels late" by auto
    moreover have "length ?pre \<le> length (sc_tool_calls consumed)" by (rule length_takeWhile_le)
    ultimately have "k < length (sc_tool_calls consumed)" "fates k \<in> {Cancels True, Cancels False}" by auto
    then show ?thesis unfolding spec using True by auto
  next
    case False
    show ?thesis
    proof (cases ?post)
      case Nil
      then have "list_all not_break (sc_tool_calls consumed)" by (simp add: dropWhile_eq_Nil_conv list_all_iff)
      then show ?thesis unfolding spec finish_result_def Nil using False by simp
    next
      case (Cons b rest)
      from dropWhile_find [OF this] parse_break_bounds
      show ?thesis unfolding spec finish_result_def Cons using False by (auto simp: Let_def split: break_until.split)
    qed
  qed
qed

section \<open>Rounds keep the executor's promise\<close>

lemma bounded_inv:
  assumes inv: "exec_inv env evs grants st" and inj: "inj (xe_uuid env)"
  shows "\<exists>evs'. exec_inv env (evs @ evs') grants (snd (run_tool_bounded env pol secs f name args st))"
proof -
  obtain ph st1 where b: "begin_call env pol name args st = (ph, st1)" by (cases "begin_call env pol name args st")
  obtain s st2 where f: "finish_call env pol ph st1 = (s, st2)" by (cases "finish_call env pol ph st1")
  have "(ph, st1) \<in> begin_effects env pol name args st" using begin_call_effects [of env pol name args st] b by simp
  from exec_inv_begin [OF inv inj this] obtain evs' where i1: "exec_inv env (evs @ evs') grants st1" by blast
  have i2: "exec_inv env (evs @ evs') grants st2"
    by (rule exec_inv_frame [OF i1]) (use finish_frame [OF f] in auto)
  have i0: "exec_inv env (evs @ []) grants st" using inv by simp
  have "snd (run_tool_bounded env pol secs f name args st) \<in> {st, st1, st2}"
    using b f by (auto simp: run_tool_bounded_def Let_def split: fate.splits call_phase.splits)
  then consider "snd (run_tool_bounded env pol secs f name args st) = st" | "snd (run_tool_bounded env pol secs f name args st) = st1"
    | "snd (run_tool_bounded env pol secs f name args st) = st2" by blast
  then show ?thesis by cases (use i0 i1 i2 in metis)+
qed

lemma collect_inv: "exec_inv env evs grants st \<Longrightarrow> exec_inv env evs grants (snd (collect_transitions st))"
  by (rule exec_inv_frame)
    (auto simp: collect_transitions_def take_last_committed_def take_last_redeemed_def take_last_cancelled_def)

lemma prefix_inv:
  assumes "inj (xe_uuid env)" "exec_inv env evs grants st" "run_prefix env pol secs fates i calls st = (ocs, cancelled, st')"
  shows "\<exists>evs'. exec_inv env (evs @ evs') grants st'"
  using assms(2,3)
proof (induction calls arbitrary: i evs st ocs)
  case Nil
  then show ?case by (intro exI [of _ "[]"]) simp
next
  case (Cons c cs)
  obtain ans st1 where run: "run_tool_bounded env pol secs (fates i) (tc_name c) (tc_arguments c) st = (ans, st1)"
    by (cases "run_tool_bounded env pol secs (fates i) (tc_name c) (tc_arguments c) st")
  obtain evs1 where i1: "exec_inv env (evs @ evs1) grants st1"
    using bounded_inv [OF Cons.prems(1) assms(1), of pol secs "fates i" "tc_name c" "tc_arguments c"] run by auto
  consider "st' = st1" | "st' = snd (collect_transitions st1)"
    | ocs' where "run_prefix env pol secs fates (Suc i) cs (snd (collect_transitions st1)) = (ocs', cancelled, st')"
    using Cons.prems(2) run by (auto simp: Let_def split: option.splits prod.splits)
  then show ?case
  proof cases
    case 3
    from Cons.IH [OF collect_inv [OF i1] this] show ?thesis by auto
  qed (use i1 collect_inv [OF i1] in blast)+
qed

text \<open>The life of an agent's executor: rounds and reviews in any order.\<close>

datatype life_step =
    LRound agent_policy nat "nat \<Rightarrow> fate" stream_consumed
  | LApprove string
  | LDeny string string

fun live :: "exec_env \<Rightarrow> (string \<Rightarrow> nat) \<Rightarrow> 'm chat_api \<Rightarrow> life_step \<Rightarrow> exec_state \<Rightarrow> exec_state" where
  "live env est api (LRound pol secs fates consumed) st =
     snd (snd (execute_tool_calls env est api pol secs fates consumed st))"
| "live env est api (LApprove aid) st = st\<lparr>xs_approvals := or_same (xs_approvals st) (approve aid (xs_approvals st))\<rparr>"
| "live env est api (LDeny aid r) st = st\<lparr>xs_approvals := or_same (xs_approvals st) (deny aid r (xs_approvals st))\<rparr>"

lemma live_inv:
  assumes inj: "inj (xe_uuid env)" and inv: "exec_inv env evs grants st"
  shows "\<exists>evs'. exec_inv env (evs @ evs') (grants \<union> {aid. x = LApprove aid}) (live env est api x st)"
proof (cases x)
  case (LRound pol secs fates consumed)
  obtain ocs cancelled st' where
    p: "run_prefix env pol secs fates 0 (takeWhile not_break (sc_tool_calls consumed)) st = (ocs, cancelled, st')"
    by (cases "run_prefix env pol secs fates 0 (takeWhile not_break (sc_tool_calls consumed)) st") auto
  from execute_calls_spec [OF p, of est api] have "live env est api x st = st'" using LRound by auto
  with prefix_inv [OF inj inv p] LRound show ?thesis by simp
next
  case (LApprove aid)
  have "exec_inv env evs (insert aid grants) (live env est api x st)"
  proof (cases "approve aid (xs_approvals st)")
    case (Inl e)
    have "exec_inv env evs (insert aid grants) st" by (rule exec_inv_frame [OF inv]) auto
    then show ?thesis using Inl LApprove by (simp add: or_same_def)
  next
    case (Inr q)
    then show ?thesis using exec_inv_approve [OF inv Inr] LApprove by (simp add: or_same_def)
  qed
  then show ?thesis using LApprove by (intro exI [of _ "[]"]) (simp add: Un_commute)
next
  case (LDeny aid r)
  have "exec_inv env evs grants (live env est api x st)"
    using inv exec_inv_deny [OF inv, of aid r] LDeny by (cases "deny aid r (xs_approvals st)") (simp_all add: or_same_def)
  then show ?thesis using LDeny by (intro exI [of _ "[]"]) simp
qed

lemma life_inv:
  assumes inj: "inj (xe_uuid env)" and "exec_inv env evs grants st"
  shows "\<exists>evs'. exec_inv env (evs @ evs') (grants \<union> {aid. LApprove aid \<in> set xs}) (fold (live env est api) xs st)"
  using assms(2)
proof (induction xs arbitrary: evs grants st)
  case Nil
  then show ?case by (intro exI [of _ "[]"]) simp
next
  case (Cons x xs)
  obtain evs1 where "exec_inv env (evs @ evs1) (grants \<union> {aid. x = LApprove aid}) (live env est api x st)"
    using live_inv [OF inj Cons.prems] by blast
  from Cons.IH [OF this] obtain evs2
    where "exec_inv env ((evs @ evs1) @ evs2) ((grants \<union> {aid. x = LApprove aid}) \<union> {aid. LApprove aid \<in> set xs})
      (fold (live env est api) xs (live env est api x st))" by blast
  moreover have "(grants \<union> {aid. x = LApprove aid}) \<union> {aid. LApprove aid \<in> set xs} = grants \<union> {aid. LApprove aid \<in> set (x # xs)}"
    by auto
  ultimately show ?case by auto
qed



end
