(* ===== verification/Agent_Config.thy ===== *)
theory Agent_Config
  imports Context_Budget Tool_Rounds
begin

text \<open>
  Loading and validating the runtime configuration (\<open>kallip-runtime/src/config.rs\<close>,
  \<open>config/defaults.rs\<close>, \<open>env_util.rs\<close>) and the retry policy it carries (\<open>retry.rs\<close>).

  The process environment is a function from names to texts. Floating point enters with the pinned
  ratio only: its parser, the test for the half-open unit interval, the default and the product with a
  token count are the record \<open>ratio_ops\<close>. Durations are counted in nanoseconds.
\<close>

section \<open>Defaults\<close>

definition DEFAULT_CONTEXT_WINDOW_TOKENS :: nat where "DEFAULT_CONTEXT_WINDOW_TOKENS = 128000"
definition DEFAULT_MAX_TOOL_ROUNDS :: nat where "DEFAULT_MAX_TOOL_ROUNDS = 2 ^ 64 - 1"
definition DEFAULT_MAX_HEARTBEAT_ROUNDS :: nat where "DEFAULT_MAX_HEARTBEAT_ROUNDS = 3"
definition DEFAULT_MAX_TRANSIENT_RETRIES :: nat where "DEFAULT_MAX_TRANSIENT_RETRIES = 3"
definition DEFAULT_SUMMARY_MAX_TOKENS :: nat where "DEFAULT_SUMMARY_MAX_TOKENS = 1200"
definition DEFAULT_OUTPUT_RESERVE_TOKENS :: nat where "DEFAULT_OUTPUT_RESERVE_TOKENS = 8192"
definition DEFAULT_TOOL_TIMEOUT_SECS :: nat where "DEFAULT_TOOL_TIMEOUT_SECS = 120"
definition DEFAULT_MAX_RETRIES :: nat where "DEFAULT_MAX_RETRIES = 10"
definition DEFAULT_RETRY_BASE_DELAY_SECS :: nat where "DEFAULT_RETRY_BASE_DELAY_SECS = 1"
definition DEFAULT_RETRY_MAX_DELAY_SECS :: nat where "DEFAULT_RETRY_MAX_DELAY_SECS = 60"
definition DEFAULT_RETRY_TIMEOUT_SECS :: nat where "DEFAULT_RETRY_TIMEOUT_SECS = 300"
definition MAX_RETRIES_LIMIT :: nat where "MAX_RETRIES_LIMIT = 1000"
definition RETRY_DELAY_SECS_LIMIT :: nat where "RETRY_DELAY_SECS_LIMIT = 3600"
definition RETRY_TIMEOUT_SECS_LIMIT :: nat where "RETRY_TIMEOUT_SECS_LIMIT = 86400"
definition DEFAULT_CONTEXT_THRESHOLDS :: "u8 list" where "DEFAULT_CONTEXT_THRESHOLDS = [50, 60, 70, 80]"
definition DEFAULT_TOKEN_BUDGET_WARNINGS :: "u8 list" where "DEFAULT_TOKEN_BUDGET_WARNINGS = [80, 95]"

lemmas config_defaults = DEFAULT_CONTEXT_WINDOW_TOKENS_def DEFAULT_MAX_TOOL_ROUNDS_def DEFAULT_MAX_HEARTBEAT_ROUNDS_def
  DEFAULT_MAX_TRANSIENT_RETRIES_def DEFAULT_SUMMARY_MAX_TOKENS_def DEFAULT_OUTPUT_RESERVE_TOKENS_def
  DEFAULT_TOOL_TIMEOUT_SECS_def DEFAULT_MAX_RETRIES_def DEFAULT_RETRY_BASE_DELAY_SECS_def
  DEFAULT_RETRY_MAX_DELAY_SECS_def DEFAULT_RETRY_TIMEOUT_SECS_def MAX_RETRIES_LIMIT_def RETRY_DELAY_SECS_LIMIT_def
  RETRY_TIMEOUT_SECS_LIMIT_def DEFAULT_CONTEXT_THRESHOLDS_def DEFAULT_TOKEN_BUDGET_WARNINGS_def
  DEFAULT_TOOL_RESULT_FULL_TOKENS_def DEFAULT_TOOL_RESULT_TRUNCATED_TOKENS_def

section \<open>Data\<close>

definition nanos :: "nat \<Rightarrow> nat" where
  "nanos secs = secs * 10 ^ 9"

record retry_policy =
  rp_max_retries :: nat
  rp_base_delay :: nat
  rp_max_delay :: nat
  rp_retry_timeout :: nat

definition default_retry_policy :: retry_policy where
  "default_retry_policy = \<lparr>rp_max_retries = 10, rp_base_delay = nanos 1, rp_max_delay = nanos 60, rp_retry_timeout = nanos 300\<rparr>"

record 'f ratio_ops =
  ro_parse :: "string \<Rightarrow> 'f option"
  ro_unit :: "'f \<Rightarrow> bool"
  ro_share :: "'f \<Rightarrow> nat \<Rightarrow> nat"
  ro_default :: 'f

record 'f runtime_config =
  cf_prompt :: "string option"
  cf_system_prompt :: string
  cf_max_tool_rounds :: nat
  cf_max_heartbeat_rounds :: nat
  cf_max_transient_retries :: nat
  cf_workspace_root :: string
  cf_budget :: budget_config
  cf_tool_timeout_secs :: nat
  cf_skills :: "string list"
  cf_retry_policy :: retry_policy
  cf_pinned_ratio :: 'f
  cf_agent_id :: "string option"
  cf_created_by :: "string option"
  cf_permissions :: permission_profile
  cf_profile_set :: "string option"
  cf_permissions_class :: permission_class
  cf_role :: string
  cf_description :: string
  cf_delegation_mode :: delegation_mode

datatype config_err =
    EnvInvalid string
  | EnvListInvalid string
  | NoCurrentDir
  | RootUnresolved string
  | Bail string

definition config_is_root :: "'f runtime_config \<Rightarrow> bool" where
  "config_is_root c \<longleftrightarrow> cf_created_by c = None"

section \<open>Reading the environment\<close>

definition all_digits :: "string \<Rightarrow> bool" where
  "all_digits s \<longleftrightarrow> s \<noteq> [] \<and> list_all (\<lambda>c. 48 \<le> (of_char c :: nat) \<and> (of_char c :: nat) \<le> 57) s"

definition digits_value :: "string \<Rightarrow> nat" where
  "digits_value s = foldl (\<lambda>n c. n * 10 + (of_char c - 48)) 0 s"

text \<open>\<open>str::parse\<close> for an unsigned integer of the given width: an optional plus sign and digits that fit.\<close>

definition parse_unsigned :: "nat \<Rightarrow> string \<Rightarrow> nat option" where
  "parse_unsigned width s =
     (let body = (case s of c # t \<Rightarrow> if c = CHR ''+'' then t else s | [] \<Rightarrow> s)
      in if all_digits body \<and> digits_value body < 2 ^ width then Some (digits_value body) else None)"

type_synonym environment = "string \<Rightarrow> string option"

definition parse_env :: "(string \<Rightarrow> 'a option) \<Rightarrow> environment \<Rightarrow> string \<Rightarrow> config_err + 'a option" where
  "parse_env p env name =
     (case env name of None \<Rightarrow> Inr None | Some v \<Rightarrow> map_sum id Some (ok_or (EnvInvalid name) (p v)))"

fun split_at :: "char \<Rightarrow> string \<Rightarrow> string list" where
  "split_at d [] = [[]]"
| "split_at d (c # s) =
     (if c = d then [] # split_at d s
      else case split_at d s of [] \<Rightarrow> [[c]] | t # ts \<Rightarrow> (c # t) # ts)"

definition parse_env_list :: "(string \<Rightarrow> 'a option) \<Rightarrow> environment \<Rightarrow> string \<Rightarrow> config_err + 'a list option" where
  "parse_env_list p env name =
     (case env name of
        None \<Rightarrow> Inr None
      | Some v \<Rightarrow>
          if v = [] then Inr (Some [])
          else (let items = map (p \<circ> trim) (split_at (CHR '','') v)
                in if None \<in> set items then Inl (EnvListInvalid name) else Inr (Some (map the items))))"

definition env_or :: "(string \<Rightarrow> 'a option) \<Rightarrow> environment \<Rightarrow> string \<Rightarrow> 'a \<Rightarrow> config_err + 'a" where
  "env_or p env name d = rbind (parse_env p env name) (\<lambda>v. Inr (case v of None \<Rightarrow> d | Some x \<Rightarrow> x))"

definition env_list_or :: "environment \<Rightarrow> string \<Rightarrow> u8 list \<Rightarrow> config_err + u8 list" where
  "env_list_or env name d =
     rbind (parse_env_list (map_option of_nat \<circ> parse_unsigned 8) env name)
       (\<lambda>v. Inr (case v of None \<Rightarrow> d | Some x \<Rightarrow> x))"

definition bail_if :: "bool \<Rightarrow> string \<Rightarrow> config_err + unit" where
  "bail_if b msg = (if b then Inl (Bail msg) else Inr ())"

lemma bail_if_Inr [simp]: "bail_if b msg = Inr u \<longleftrightarrow> \<not> b"
  by (simp add: bail_if_def)

section \<open>Budget shape\<close>

definition check_context_budget :: "'f ratio_ops \<Rightarrow> nat \<Rightarrow> nat \<Rightarrow> nat \<Rightarrow> 'f \<Rightarrow> nat \<Rightarrow> nat \<Rightarrow> config_err + unit" where
  "check_context_budget rops window reserve summary_max ratio full truncated =
     rbind (bail_if (window = 0) ''context_window_tokens must be greater than zero'') (\<lambda>_.
     rbind (bail_if (window \<le> reserve) ''output_reserve_tokens must be less than context_window_tokens'') (\<lambda>_.
     let effective = window - reserve
     in rbind (bail_if (ro_share rops ratio effective < summary_max) ''summary_max_tokens exceeds pinned budget'') (\<lambda>_.
     rbind (bail_if (effective - summary_max \<le> truncated * 2)
       ''tool result truncated cap must stay well below the summarizer input budget'') (\<lambda>_.
     bail_if (full \<le> truncated) ''tool result full cap must be greater than the truncated cap''))))"

definition try_context_window :: "'f ratio_ops \<Rightarrow> nat \<Rightarrow> 'f runtime_config \<Rightarrow> config_err + unit" where
  "try_context_window rops tokens c =
     check_context_budget rops tokens (bc_output_reserve (cf_budget c)) (bc_summary_max (cf_budget c)) (cf_pinned_ratio c)
       DEFAULT_TOOL_RESULT_FULL_TOKENS DEFAULT_TOOL_RESULT_TRUNCATED_TOKENS"

text \<open>Validates before it mutates: the configuration is returned in both cases.\<close>

definition set_context_window :: "'f ratio_ops \<Rightarrow> nat \<Rightarrow> 'f runtime_config \<Rightarrow> (config_err + unit) \<times> 'f runtime_config" where
  "set_context_window rops tokens c =
     (case try_context_window rops tokens c of
        Inl e \<Rightarrow> (Inl e, c)
      | Inr _ \<Rightarrow> (Inr (), c\<lparr>cf_budget := (cf_budget c)\<lparr>bc_window := tokens\<rparr>\<rparr>))"

definition pinned_budget :: "'f ratio_ops \<Rightarrow> 'f runtime_config \<Rightarrow> nat" where
  "pinned_budget rops c = ro_share rops (cf_pinned_ratio c) (effective_budget (cf_budget c))"

definition set_max_tool_rounds :: "nat \<Rightarrow> 'f runtime_config \<Rightarrow> 'f runtime_config" where
  "set_max_tool_rounds v c = (if 0 < v then c\<lparr>cf_max_tool_rounds := v\<rparr> else c)"

section \<open>Loading\<close>

definition default_config :: "'f ratio_ops \<Rightarrow> string \<Rightarrow> 'f runtime_config" where
  "default_config rops system_prompt =
     \<lparr>cf_prompt = None, cf_system_prompt = system_prompt, cf_max_tool_rounds = DEFAULT_MAX_TOOL_ROUNDS,
      cf_max_heartbeat_rounds = DEFAULT_MAX_HEARTBEAT_ROUNDS, cf_max_transient_retries = DEFAULT_MAX_TRANSIENT_RETRIES,
      cf_workspace_root = [],
      cf_budget = \<lparr>bc_window = DEFAULT_CONTEXT_WINDOW_TOKENS, bc_output_reserve = DEFAULT_OUTPUT_RESERVE_TOKENS,
        bc_context_thresholds = DEFAULT_CONTEXT_THRESHOLDS, bc_token_warnings = DEFAULT_TOKEN_BUDGET_WARNINGS,
        bc_summary_max = DEFAULT_SUMMARY_MAX_TOKENS\<rparr>,
      cf_tool_timeout_secs = DEFAULT_TOOL_TIMEOUT_SECS, cf_skills = [], cf_retry_policy = default_retry_policy,
      cf_pinned_ratio = ro_default rops, cf_agent_id = None, cf_created_by = None, cf_permissions = new_profile [],
      cf_profile_set = None, cf_permissions_class = Normal, cf_role = [], cf_description = [], cf_delegation_mode = CarveOut\<rparr>"

definition load_retry_policy :: "environment \<Rightarrow> config_err + retry_policy" where
  "load_retry_policy env =
     rbind (env_or (parse_unsigned 32) env ''KALLIP_MAX_RETRIES'' DEFAULT_MAX_RETRIES) (\<lambda>max_retries.
     rbind (bail_if (MAX_RETRIES_LIMIT < max_retries) ''KALLIP_MAX_RETRIES must be at most 1000'') (\<lambda>_.
     rbind (env_or (parse_unsigned 64) env ''KALLIP_RETRY_BASE_DELAY_SECS'' DEFAULT_RETRY_BASE_DELAY_SECS) (\<lambda>base.
     rbind (bail_if (base = 0) ''KALLIP_RETRY_BASE_DELAY_SECS must be greater than zero'') (\<lambda>_.
     rbind (bail_if (RETRY_DELAY_SECS_LIMIT < base) ''KALLIP_RETRY_BASE_DELAY_SECS must be at most 3600'') (\<lambda>_.
     rbind (env_or (parse_unsigned 64) env ''KALLIP_RETRY_MAX_DELAY_SECS'' DEFAULT_RETRY_MAX_DELAY_SECS) (\<lambda>max_delay.
     rbind (bail_if (max_delay = 0) ''KALLIP_RETRY_MAX_DELAY_SECS must be greater than zero'') (\<lambda>_.
     rbind (bail_if (RETRY_DELAY_SECS_LIMIT < max_delay) ''KALLIP_RETRY_MAX_DELAY_SECS must be at most 3600'') (\<lambda>_.
     rbind (env_or (parse_unsigned 64) env ''KALLIP_RETRY_TIMEOUT_SECS'' DEFAULT_RETRY_TIMEOUT_SECS) (\<lambda>timeout.
     rbind (bail_if (timeout = 0) ''KALLIP_RETRY_TIMEOUT_SECS must be greater than zero'') (\<lambda>_.
     rbind (bail_if (RETRY_TIMEOUT_SECS_LIMIT < timeout) ''KALLIP_RETRY_TIMEOUT_SECS must be at most 86400'') (\<lambda>_.
     Inr \<lparr>rp_max_retries = max_retries, rp_base_delay = nanos base, rp_max_delay = nanos max_delay,
           rp_retry_timeout = nanos timeout\<rparr>)))))))))))"

definition in_percent :: "u8 \<Rightarrow> bool" where
  "in_percent t \<longleftrightarrow> 1 \<le> t \<and> t \<le> 99"

definition check_knobs :: "'f ratio_ops \<Rightarrow> 'f runtime_config \<Rightarrow> config_err + unit" where
  "check_knobs rops c =
     (let b = cf_budget c
      in rbind (bail_if (bc_summary_max b = 0) ''KALLIP_SUMMARY_MAX_TOKENS must be greater than zero'') (\<lambda>_.
     rbind (bail_if (cf_max_tool_rounds c = 0) ''KALLIP_MAX_TOOL_ROUNDS must be greater than zero'') (\<lambda>_.
     rbind (bail_if (cf_max_heartbeat_rounds c = 0) ''KALLIP_MAX_HEARTBEAT_ROUNDS must be greater than zero'') (\<lambda>_.
     rbind (bail_if (cf_max_transient_retries c = 0) ''KALLIP_MAX_TRANSIENT_RETRIES must be greater than zero'') (\<lambda>_.
     rbind (bail_if (\<not> ro_unit rops (cf_pinned_ratio c)) ''KALLIP_PINNED_BUDGET_RATIO must be between 0.0 and 1.0 (exclusive)'') (\<lambda>_.
     rbind (try_context_window rops (bc_window b) c) (\<lambda>_.
     rbind (bail_if (length (bc_context_thresholds b) < 2)
       ''KALLIP_CONTEXT_THRESHOLDS must have at least 2 values (warnings + auto-compact)'') (\<lambda>_.
     rbind (bail_if (\<not> sorted (bc_context_thresholds b)) ''KALLIP_CONTEXT_THRESHOLDS must be sorted ascending'') (\<lambda>_.
     rbind (bail_if (\<not> list_all in_percent (bc_context_thresholds b)) ''KALLIP_CONTEXT_THRESHOLDS values must be 1-99'') (\<lambda>_.
     rbind (bail_if (bc_token_warnings b = []) ''KALLIP_TOKEN_BUDGET_WARNINGS must have at least 1 value'') (\<lambda>_.
     rbind (bail_if (\<not> sorted (bc_token_warnings b)) ''KALLIP_TOKEN_BUDGET_WARNINGS must be sorted ascending'') (\<lambda>_.
     bail_if (\<not> list_all in_percent (bc_token_warnings b)) ''KALLIP_TOKEN_BUDGET_WARNINGS values must be 1-99''))))))))))))"

text \<open>
  \<open>current_dir\<close> is evaluated even when a workspace root is given, as the argument of \<open>unwrap_or\<close>.
  \<open>canonical\<close> resolves a path.
\<close>

definition load_config ::
  "'f ratio_ops \<Rightarrow> string \<Rightarrow> environment \<Rightarrow> string option \<Rightarrow> (string \<Rightarrow> string option) \<Rightarrow> string option \<Rightarrow> string list
    \<Rightarrow> string option \<Rightarrow> config_err + 'f runtime_config" where
  "load_config rops default_prompt env cwd canonical prompt skills root =
     rbind (env_or (parse_unsigned 64) env ''KALLIP_MAX_TOOL_ROUNDS'' DEFAULT_MAX_TOOL_ROUNDS) (\<lambda>tool_rounds.
     rbind (env_or (parse_unsigned 32) env ''KALLIP_MAX_HEARTBEAT_ROUNDS'' DEFAULT_MAX_HEARTBEAT_ROUNDS) (\<lambda>heartbeats.
     rbind (env_or (parse_unsigned 32) env ''KALLIP_MAX_TRANSIENT_RETRIES'' DEFAULT_MAX_TRANSIENT_RETRIES) (\<lambda>transients.
     rbind (ok_or NoCurrentDir cwd) (\<lambda>dir.
     let given = (case root of Some r \<Rightarrow> Some r | None \<Rightarrow> env ''KALLIP_WORKSPACE_ROOT'');
         workspace = (case given of Some r \<Rightarrow> r | None \<Rightarrow> dir)
     in rbind (env_or (parse_unsigned 64) env ''KALLIP_CONTEXT_WINDOW_TOKENS'' DEFAULT_CONTEXT_WINDOW_TOKENS) (\<lambda>window.
     rbind (env_or (parse_unsigned 64) env ''KALLIP_OUTPUT_RESERVE_TOKENS'' DEFAULT_OUTPUT_RESERVE_TOKENS) (\<lambda>reserve.
     rbind (env_or (parse_unsigned 32) env ''KALLIP_SUMMARY_MAX_TOKENS'' DEFAULT_SUMMARY_MAX_TOKENS) (\<lambda>summary_max.
     rbind (env_or (parse_unsigned 64) env ''KALLIP_TOOL_TIMEOUT_SECS'' DEFAULT_TOOL_TIMEOUT_SECS) (\<lambda>tool_timeout.
     rbind (env_or (ro_parse rops) env ''KALLIP_PINNED_BUDGET_RATIO'' (ro_default rops)) (\<lambda>ratio.
     rbind (env_list_or env ''KALLIP_CONTEXT_THRESHOLDS'' DEFAULT_CONTEXT_THRESHOLDS) (\<lambda>thresholds.
     rbind (env_list_or env ''KALLIP_TOKEN_BUDGET_WARNINGS'' DEFAULT_TOKEN_BUDGET_WARNINGS) (\<lambda>warnings.
     rbind (load_retry_policy env) (\<lambda>policy.
     rbind (ok_or (RootUnresolved workspace) (canonical workspace)) (\<lambda>resolved.
     let c = \<lparr>cf_prompt = prompt,
           cf_system_prompt = (case env ''KALLIP_SYSTEM_PROMPT'' of Some s \<Rightarrow> s | None \<Rightarrow> default_prompt),
           cf_max_tool_rounds = tool_rounds, cf_max_heartbeat_rounds = heartbeats, cf_max_transient_retries = transients,
           cf_workspace_root = resolved,
           cf_budget = \<lparr>bc_window = window, bc_output_reserve = reserve, bc_context_thresholds = thresholds,
             bc_token_warnings = warnings, bc_summary_max = summary_max\<rparr>,
           cf_tool_timeout_secs = tool_timeout, cf_skills = skills, cf_retry_policy = policy, cf_pinned_ratio = ratio,
           cf_agent_id = None, cf_created_by = None, cf_permissions = new_profile resolved, cf_profile_set = None,
           cf_permissions_class = Normal, cf_role = [], cf_description = [], cf_delegation_mode = CarveOut\<rparr>
     in rbind (check_knobs rops c) (\<lambda>_. Inr c))))))))))))))"

section \<open>What a loaded configuration satisfies\<close>

definition budget_ok :: "'f ratio_ops \<Rightarrow> 'f runtime_config \<Rightarrow> bool" where
  "budget_ok rops c \<longleftrightarrow>
     bc_output_reserve (cf_budget c) < bc_window (cf_budget c) \<and>
     bc_summary_max (cf_budget c) \<le> pinned_budget rops c \<and>
     2 * DEFAULT_TOOL_RESULT_TRUNCATED_TOKENS < effective_budget (cf_budget c) - bc_summary_max (cf_budget c)"

definition thresholds_ok :: "u8 list \<Rightarrow> bool" where
  "thresholds_ok ts \<longleftrightarrow> sorted ts \<and> (\<forall>t \<in> set ts. 1 \<le> t \<and> t \<le> 99)"

definition retry_policy_ok :: "retry_policy \<Rightarrow> bool" where
  "retry_policy_ok p \<longleftrightarrow>
     rp_max_retries p \<le> 1000 \<and> nanos 1 \<le> rp_base_delay p \<and> rp_base_delay p \<le> nanos 3600 \<and>
     nanos 1 \<le> rp_max_delay p \<and> rp_max_delay p \<le> nanos 3600 \<and>
     nanos 1 \<le> rp_retry_timeout p \<and> rp_retry_timeout p \<le> nanos 86400"

definition config_valid :: "'f ratio_ops \<Rightarrow> 'f runtime_config \<Rightarrow> bool" where
  "config_valid rops c \<longleftrightarrow>
     budget_ok rops c \<and> 0 < bc_summary_max (cf_budget c) \<and>
     0 < cf_max_tool_rounds c \<and> 0 < cf_max_heartbeat_rounds c \<and> 0 < cf_max_transient_retries c \<and>
     ro_unit rops (cf_pinned_ratio c) \<and>
     2 \<le> length (bc_context_thresholds (cf_budget c)) \<and> thresholds_ok (bc_context_thresholds (cf_budget c)) \<and>
     bc_token_warnings (cf_budget c) \<noteq> [] \<and> thresholds_ok (bc_token_warnings (cf_budget c)) \<and>
     retry_policy_ok (cf_retry_policy c)"

lemma try_window_Inr:
  "try_context_window rops tokens c = Inr u \<longleftrightarrow> budget_ok rops (c\<lparr>cf_budget := (cf_budget c)\<lparr>bc_window := tokens\<rparr>\<rparr>)"
  by (auto simp: try_context_window_def check_context_budget_def rbind_Inr_iff Let_def budget_ok_def pinned_budget_def
      effective_budget_def DEFAULT_TOOL_RESULT_FULL_TOKENS_def DEFAULT_TOOL_RESULT_TRUNCATED_TOKENS_def not_less not_le)

lemma check_knobs_Inr:
  "check_knobs rops c = Inr u \<Longrightarrow> retry_policy_ok (cf_retry_policy c) \<Longrightarrow> config_valid rops c"
  by (simp add: check_knobs_def rbind_Inr_iff Let_def try_window_Inr config_valid_def thresholds_ok_def in_percent_def list_all_iff)

lemma nanos_mono [simp]: "nanos a \<le> nanos b \<longleftrightarrow> a \<le> b"
  by (simp add: nanos_def)

lemma load_retry_Inr: "load_retry_policy env = Inr p \<Longrightarrow> retry_policy_ok p"
  by (auto simp: load_retry_policy_def rbind_Inr_iff retry_policy_ok_def MAX_RETRIES_LIMIT_def RETRY_DELAY_SECS_LIMIT_def
      RETRY_TIMEOUT_SECS_LIMIT_def not_less)

lemma config_load_Inr:
  assumes "load_config rops dp env cwd canonical prompt skills root = Inr c"
  shows "check_knobs rops c = Inr ()" and "load_retry_policy env = Inr (cf_retry_policy c)"
    and "cf_created_by c = None" and "cf_permissions c = new_profile (cf_workspace_root c)"
  using assms unfolding load_config_def by (auto simp: rbind_Inr_iff Let_def)

lemma env_unset [simp]: "env_or p (\<lambda>_. None) n d = Inr d" "env_list_or (\<lambda>_. None) n ts = Inr ts"
  by (simp_all add: env_or_def env_list_or_def parse_env_def parse_env_list_def rbind_def)

lemma load_retry_unset: "load_retry_policy (\<lambda>_. None) = Inr default_retry_policy"
  by (simp add: load_retry_policy_def default_retry_policy_def bail_if_def rbind_def config_defaults)

lemma check_default_knobs:
  assumes "ro_unit rops (ro_default rops)" "DEFAULT_SUMMARY_MAX_TOKENS \<le> ro_share rops (ro_default rops) 119808"
    "cf_budget c = cf_budget (default_config rops dp)" "cf_max_tool_rounds c = DEFAULT_MAX_TOOL_ROUNDS"
    "cf_max_heartbeat_rounds c = DEFAULT_MAX_HEARTBEAT_ROUNDS" "cf_max_transient_retries c = DEFAULT_MAX_TRANSIENT_RETRIES"
    "cf_pinned_ratio c = ro_default rops"
  shows "check_knobs rops c = Inr ()"
  using assms
  by (simp add: check_knobs_def try_context_window_def check_context_budget_def default_config_def config_defaults bail_if_def
      rbind_def in_percent_def Let_def)

definition percent_ops :: "nat ratio_ops" where
  "percent_ops = \<lparr>ro_parse = (\<lambda>_. None), ro_unit = (\<lambda>r. r < 100), ro_share = (\<lambda>r n. n * r div 100), ro_default = 25\<rparr>"

definition sample_config :: "nat runtime_config" where
  "sample_config = (default_config percent_ops [])\<lparr>cf_workspace_root := ''/w'', cf_permissions := new_profile ''/w''\<rparr>"

lemma sample_load: "load_config percent_ops [] (\<lambda>_. None) (Some ''/w'') Some None [] None = Inr sample_config"
proof -
  have k: "check_knobs percent_ops sample_config = Inr ()"
    by (rule check_default_knobs [of _ _ "[]"]) (simp_all add: sample_config_def default_config_def percent_ops_def config_defaults)
  then show ?thesis
    by (simp add: load_config_def load_retry_unset rbind_def ok_or_def sample_config_def default_config_def)
qed

text \<open>
  C40. A configuration that loads is valid, whatever the environment holds: the output reserve leaves a
  positive effective budget, a summary fits into the pinned share, the summariser has room for more
  than two truncated tool results, both threshold lists are sorted percentages from 1 to 99, every
  loop bound is positive, and the retry durations are between a second and their limits.
\<close>

theorem load_valid:
  assumes "load_config rops dp env cwd canonical prompt skills root = Inr c"
  shows "config_valid rops c"
  using check_knobs_Inr [OF config_load_Inr(1) [OF assms]] load_retry_Inr [OF config_load_Inr(2) [OF assms]] by blast

theorem load_valid_witness: "config_valid percent_ops sample_config"
  by (rule load_valid [OF sample_load])

text \<open>
  Installing a window succeeds exactly when the configuration with that window satisfies the budget
  shape; it then changes the window only and keeps the configuration valid; otherwise nothing changes.
\<close>

theorem set_context_window_exact:
  assumes "config_valid rops c"
  shows "let c' = c\<lparr>cf_budget := (cf_budget c)\<lparr>bc_window := tokens\<rparr>\<rparr>
    in if budget_ok rops c' then set_context_window rops tokens c = (Inr (), c') \<and> config_valid rops c'
       else \<exists>e. set_context_window rops tokens c = (Inl e, c)"
proof -
  have v: "config_valid rops (c\<lparr>cf_budget := (cf_budget c)\<lparr>bc_window := tokens\<rparr>\<rparr>)"
    if "budget_ok rops (c\<lparr>cf_budget := (cf_budget c)\<lparr>bc_window := tokens\<rparr>\<rparr>)"
    using assms that by (simp add: config_valid_def)
  show ?thesis
  proof (cases "try_context_window rops tokens c")
    case (Inl e)
    then have "\<not> budget_ok rops (c\<lparr>cf_budget := (cf_budget c)\<lparr>bc_window := tokens\<rparr>\<rparr>)"
      using try_window_Inr [of rops tokens c "()"] by auto
    with Inl show ?thesis by (simp add: set_context_window_def)
  next
    case (Inr u)
    then have "budget_ok rops (c\<lparr>cf_budget := (cf_budget c)\<lparr>bc_window := tokens\<rparr>\<rparr>)" by (simp add: try_window_Inr)
    with Inr v show ?thesis by (simp add: set_context_window_def)
  qed
qed

theorem set_context_window_exact_witness: "\<exists>e. set_context_window percent_ops 9000 sample_config = (Inl e, sample_config)"
proof -
  have v: "config_valid percent_ops sample_config"
    using check_knobs_Inr [OF config_load_Inr(1) [OF sample_load]] load_retry_Inr [OF config_load_Inr(2) [OF sample_load]] by blast
  show ?thesis
    using set_context_window_exact [OF v, of 9000]
    by (simp add: budget_ok_def pinned_budget_def effective_budget_def sample_config_def default_config_def percent_ops_def config_defaults)
qed

text \<open>
  With an empty environment the loader yields exactly the documented defaults, up to the workspace, the
  prompt and the skills it is given; so the placeholder configuration and the loader cannot drift apart.
\<close>

theorem load_unset_is_default:
  assumes "ro_unit rops (ro_default rops)" "DEFAULT_SUMMARY_MAX_TOKENS \<le> ro_share rops (ro_default rops) 119808"
    "canonical dir = Some resolved"
  shows "load_config rops dp (\<lambda>_. None) (Some dir) canonical prompt skills None =
    Inr ((default_config rops dp)\<lparr>cf_prompt := prompt, cf_skills := skills, cf_workspace_root := resolved,
      cf_permissions := new_profile resolved\<rparr>)"
proof -
  let ?c = "(default_config rops dp)\<lparr>cf_prompt := prompt, cf_skills := skills, cf_workspace_root := resolved,
      cf_permissions := new_profile resolved\<rparr>"
  have k: "check_knobs rops ?c = Inr ()"
    by (rule check_default_knobs [OF assms(1,2), of _ dp]) (simp_all add: default_config_def)
  show ?thesis
    using assms(3) k by (simp add: load_config_def load_retry_unset rbind_def ok_or_def default_config_def)
qed

theorem load_unset_is_default_witness:
  "load_config percent_ops [] (\<lambda>_. None) (Some ''/w'') Some None [] None =
    Inr ((default_config percent_ops [])\<lparr>cf_prompt := None, cf_skills := [], cf_workspace_root := ''/w'', cf_permissions := new_profile ''/w''\<rparr>)"
  by (rule load_unset_is_default) (simp_all add: percent_ops_def config_defaults)

text \<open>
  The current directory is resolved although a workspace root is given: without a readable current
  directory the load fails.
\<close>

theorem load_needs_current_dir:
  "load_config rops dp (\<lambda>_. None) None canonical prompt skills (Some root) = Inl NoCurrentDir"
  by (simp add: load_config_def rbind_def ok_or_def)

end
