(* ===== verification/Llm_Retry.thy ===== *)
theory Llm_Retry
  imports Agent_Config
begin

text \<open>
  The retry loop around opening an LLM stream (\<open>kallip-runtime/src/retry.rs\<close>): classification of an
  attempt from the HTTP status, the backoff schedule, and \<open>stream_with_retry\<close>.

  Parameters, collected in \<open>retry_env\<close> and indexed by the number of the attempt: the answer of the
  backend to a send, the clock readings (elapsed time at the deadline check, epoch seconds, the
  sub-second part that serves as jitter), and when a cancel strikes, during an attempt or during a
  backoff. A cancel during an attempt drops the call; the caller treats it like a cancelled backoff, so
  both are the same value. Durations are in nanoseconds.
\<close>

section \<open>One attempt\<close>

datatype 's send_result = SendFailed string | Responded nat "string option" "string + 's"

datatype 's attempt = AStream 's | ARetry string "nat option" retry_kind | AFailover string | AFatal string

datatype 's request_result = ROk 's | RFailover string | RFatal string | RCancelled | RPanic

definition is_server_error :: "nat \<Rightarrow> bool" where
  "is_server_error status \<longleftrightarrow> 500 \<le> status \<and> status < 600"

definition is_retryable_status :: "nat \<Rightarrow> bool" where
  "is_retryable_status status \<longleftrightarrow> status = 429 \<or> status = 408 \<or> is_server_error status"

definition is_failover_status :: "nat \<Rightarrow> bool" where
  "is_failover_status status \<longleftrightarrow> status = 401 \<or> status = 403 \<or> status = 404"

definition parse_retry_after :: "string option \<Rightarrow> nat option" where
  "parse_retry_after header = Option.bind header (\<lambda>v. map_option nanos (parse_unsigned 64 (trim v)))"

fun attempt_once :: "'s send_result \<Rightarrow> 's attempt" where
  "attempt_once (SendFailed e) = ARetry e None Transport"
| "attempt_once (Responded status header (Inr s)) = AStream s"
| "attempt_once (Responded status header (Inl e)) =
     (if is_retryable_status status then
        ARetry e (parse_retry_after header)
          (if status = 429 then RateLimit else if status = 408 then Timeout else Server)
      else if is_failover_status status then AFailover e else AFatal e)"

section \<open>Backoff\<close>

definition DURATION_MAX :: nat where
  "DURATION_MAX = nanos (2 ^ 64 - 1) + 999999999"

definition shift_factor :: "nat \<Rightarrow> nat" where
  "shift_factor k = (if k < 32 then 2 ^ k else 2 ^ 32 - 1)"

definition capped_delay :: "retry_policy \<Rightarrow> nat \<Rightarrow> nat" where
  "capped_delay p k = min (min (rp_base_delay p * shift_factor k) DURATION_MAX) (rp_max_delay p)"

definition backoff_delay :: "retry_policy \<Rightarrow> nat \<Rightarrow> nat \<Rightarrow> nat" where
  "backoff_delay p k jitter_nanos = capped_delay p k + jitter_nanos mod (rp_base_delay p mod 2 ^ 64)"

section \<open>The loop\<close>

record 's retry_env =
  re_prepare_err :: "string option"
  re_send :: "nat \<Rightarrow> 's send_result"
  re_elapsed :: "nat \<Rightarrow> nat"
  re_jitter :: "nat \<Rightarrow> nat"
  re_epoch :: "nat \<Rightarrow> nat"
  re_cancel_send :: "nat \<Rightarrow> bool"
  re_cancel_wait :: "nat \<Rightarrow> bool"

datatype retry_event = Retrying nat nat string nat

definition actual_delay :: "'s retry_env \<Rightarrow> retry_policy \<Rightarrow> nat \<Rightarrow> nat option \<Rightarrow> nat \<Rightarrow> nat" where
  "actual_delay env p k retry_after left =
     min (max (backoff_delay p (k - 1) (re_jitter env k)) (case retry_after of None \<Rightarrow> 0 | Some d \<Rightarrow> d)) left"

definition make_record ::
  "'s retry_env \<Rightarrow> retry_policy \<Rightarrow> nat \<Rightarrow> nat \<Rightarrow> string \<Rightarrow> nat \<Rightarrow> string \<Rightarrow> nat option \<Rightarrow> retry_kind \<Rightarrow> nat \<Rightarrow> retry_record" where
  "make_record env p round prior endpoint k e retry_after knd delay =
     \<lparr>rr_timestamp = re_epoch env k, rr_round = round, rr_attempt = of_nat (prior + k), rr_max_attempts = of_nat (rp_max_retries p),
      rr_error = e, rr_delay = delay, rr_endpoint = Some endpoint, rr_kind = knd,
      rr_quota_reset = map_option (\<lambda>d. re_epoch env k + d div 10 ^ 9) retry_after\<rparr>"

text \<open>The loop over \<open>attempt\<close>, with the number of attempts left; no attempt left is the \<open>unreachable!\<close>.\<close>

fun retry_loop ::
  "'s retry_env \<Rightarrow> retry_policy \<Rightarrow> nat \<Rightarrow> nat \<Rightarrow> string \<Rightarrow> nat \<Rightarrow> nat \<Rightarrow> retry_record list \<Rightarrow> retry_event list
    \<Rightarrow> 's request_result \<times> retry_record list \<times> retry_event list" where
  "retry_loop env p round prior endpoint 0 k log evs = (RPanic, log, evs)"
| "retry_loop env p round prior endpoint (Suc n) k log evs =
     (if re_cancel_send env k then (RCancelled, log, evs)
      else case attempt_once (re_send env k) of
             AStream s \<Rightarrow> (ROk s, log, evs)
           | AFailover e \<Rightarrow> (RFailover e, log, evs)
           | AFatal e \<Rightarrow> (RFatal e, log, evs)
           | ARetry e retry_after knd \<Rightarrow>
               if n = 0 then (RFailover e, log, evs)
               else (let left = rp_retry_timeout p - re_elapsed env k
                     in if left = 0 then (RFailover e, log, evs)
                        else (let delay = actual_delay env p k retry_after left;
                                  evs' = evs @ [Retrying (prior + k) (rp_max_retries p) e delay]
                              in if re_cancel_wait env k then (RCancelled, log, evs')
                                 else retry_loop env p round prior endpoint n (Suc k)
                                        (log @ [make_record env p round prior endpoint k e retry_after knd delay]) evs')))"

definition max_attempts :: "retry_policy \<Rightarrow> nat \<Rightarrow> nat" where
  "max_attempts p prior = rp_max_retries p - prior + 1"

definition stream_with_retry ::
  "'s retry_env \<Rightarrow> retry_policy \<Rightarrow> nat \<Rightarrow> nat \<Rightarrow> string \<Rightarrow> 's request_result \<times> retry_record list \<times> retry_event list" where
  "stream_with_retry env p round prior endpoint =
     (case re_prepare_err env of
        Some e \<Rightarrow> (RFatal e, [], [])
      | None \<Rightarrow> retry_loop env p round prior endpoint (max_attempts p prior) 1 [] [])"

section \<open>Lemmas on the loop\<close>

definition retries :: "'s retry_env \<Rightarrow> nat \<Rightarrow> bool" where
  "retries env k \<longleftrightarrow> (\<exists>e ra knd. attempt_once (re_send env k) = ARetry e ra knd)"

text \<open>Why a run ended at attempt \<open>j\<close> of at most \<open>m\<close>.\<close>

definition ends_at :: "'s retry_env \<Rightarrow> retry_policy \<Rightarrow> nat \<Rightarrow> nat \<Rightarrow> 's request_result \<Rightarrow> bool" where
  "ends_at env p m j r \<longleftrightarrow>
     (case r of
        ROk s \<Rightarrow> attempt_once (re_send env j) = AStream s
      | RFatal e \<Rightarrow> attempt_once (re_send env j) = AFatal e
      | RFailover e \<Rightarrow> attempt_once (re_send env j) = AFailover e \<or>
          (\<exists>ra knd. attempt_once (re_send env j) = ARetry e ra knd \<and> (j = m \<or> rp_retry_timeout p \<le> re_elapsed env j))
      | RCancelled \<Rightarrow> re_cancel_send env j \<or> retries env j \<and> re_cancel_wait env j
      | RPanic \<Rightarrow> False)"

definition record_ok :: "'s retry_env \<Rightarrow> retry_policy \<Rightarrow> nat \<Rightarrow> nat \<Rightarrow> string \<Rightarrow> nat \<Rightarrow> retry_record \<Rightarrow> bool" where
  "record_ok env p round prior endpoint k r \<longleftrightarrow>
     (\<exists>e ra knd. attempt_once (re_send env k) = ARetry e ra knd \<and> re_elapsed env k < rp_retry_timeout p \<and>
        r = make_record env p round prior endpoint k e ra knd (actual_delay env p k ra (rp_retry_timeout p - re_elapsed env k)))"

lemma retry_loop_spec:
  assumes "0 < n"
  shows "\<exists>j. k \<le> j \<and> j < k + n \<and>
    (let (r, log', evs') = retry_loop env p round prior endpoint n k log evs
     in ends_at env p (k + n - 1) j r \<and>
        (\<exists>rs. log' = log @ rs \<and> length rs = j - k \<and> (\<forall>i < j - k. record_ok env p round prior endpoint (k + i) (rs ! i))))"
  using assms
proof (induction n arbitrary: k log evs)
  case (Suc n)
  consider (cancel) "re_cancel_send env k"
    | (final) "\<not> re_cancel_send env k" "\<not> retries env k"
    | (out) e ra knd where "\<not> re_cancel_send env k" "attempt_once (re_send env k) = ARetry e ra knd"
        "n = 0 \<or> rp_retry_timeout p \<le> re_elapsed env k"
    | (wait) e ra knd where "\<not> re_cancel_send env k" "attempt_once (re_send env k) = ARetry e ra knd"
        "0 < n" "re_elapsed env k < rp_retry_timeout p"
    unfolding retries_def by fastforce
  then show ?case
  proof cases
    case cancel
    then show ?thesis by (intro exI [of _ k]) (simp add: ends_at_def)
  next
    case final
    then show ?thesis
      by (intro exI [of _ k]) (cases "attempt_once (re_send env k)", auto simp: ends_at_def retries_def)
  next
    case out
    then show ?thesis by (intro exI [of _ k]) (auto simp: ends_at_def Let_def)
  next
    case wait
    let ?d = "actual_delay env p k ra (rp_retry_timeout p - re_elapsed env k)"
    let ?rec = "make_record env p round prior endpoint k e ra knd ?d"
    let ?evs = "evs @ [Retrying (prior + k) (rp_max_retries p) e ?d]"
    show ?thesis
    proof (cases "re_cancel_wait env k")
      case True
      then show ?thesis using wait by (intro exI [of _ k]) (auto simp: ends_at_def Let_def retries_def)
    next
      case False
      have step: "retry_loop env p round prior endpoint (Suc n) k log evs =
          retry_loop env p round prior endpoint n (Suc k) (log @ [?rec]) ?evs"
        using wait False by (simp add: Let_def)
      obtain r log' evs' where l: "retry_loop env p round prior endpoint n (Suc k) (log @ [?rec]) ?evs = (r, log', evs')"
        by (cases "retry_loop env p round prior endpoint n (Suc k) (log @ [?rec]) ?evs") auto
      from Suc.IH [OF \<open>0 < n\<close>, of "Suc k" "log @ [?rec]" ?evs] obtain j rs where j: "Suc k \<le> j" "j < Suc k + n"
          "ends_at env p (k + n) j r" "log' = log @ ?rec # rs" "length rs = j - Suc k"
          "\<forall>i < j - Suc k. record_ok env p round prior endpoint (Suc k + i) (rs ! i)"
        by (auto simp: l)
      have "record_ok env p round prior endpoint (k + i) ((?rec # rs) ! i)" if "i < j - k" for i
      proof (cases i)
        case 0
        then show ?thesis using wait by (auto simp: record_ok_def)
      next
        case (Suc i')
        then show ?thesis using j(6) that by auto
      qed
      then show ?thesis using j step l by (intro exI [of _ j]) (auto intro!: exI [of _ "?rec # rs"])
    qed
  qed
qed simp

section \<open>Properties\<close>

definition retry_after_at :: "'s retry_env \<Rightarrow> nat \<Rightarrow> nat" where
  "retry_after_at env k = (case attempt_once (re_send env k) of ARetry e (Some d) knd \<Rightarrow> d | _ \<Rightarrow> 0)"

lemma record_okD:
  assumes "record_ok env p round prior endpoint k r"
  shows "retries env k \<and> rr_attempt r = of_nat (prior + k) \<and> rr_endpoint r = Some endpoint \<and>
    rr_delay r \<le> rp_retry_timeout p - re_elapsed env k \<and>
    min (retry_after_at env k) (rp_retry_timeout p - re_elapsed env k) \<le> rr_delay r"
proof -
  from assms obtain e ra knd where a: "attempt_once (re_send env k) = ARetry e ra knd"
    and r: "r = make_record env p round prior endpoint k e ra knd (actual_delay env p k ra (rp_retry_timeout p - re_elapsed env k))"
    by (auto simp: record_ok_def)
  have "retry_after_at env k = (case ra of None \<Rightarrow> 0 | Some d \<Rightarrow> d)" using a by (simp add: retry_after_at_def split: option.split)
  then show ?thesis using a r by (simp add: retries_def make_record_def actual_delay_def)
qed


definition flaky_env :: "unit retry_env" where
  "flaky_env = \<lparr>re_prepare_err = None, re_send = (\<lambda>_. SendFailed ''reset''), re_elapsed = (\<lambda>_. 0), re_jitter = (\<lambda>_. 0),
     re_epoch = (\<lambda>_. 0), re_cancel_send = (\<lambda>_. False), re_cancel_wait = (\<lambda>_. False)\<rparr>"


lemma shift_factor_big: "32 \<le> k \<Longrightarrow> shift_factor k = 4294967295"
  by (simp add: shift_factor_def)

lemma capped_delay_exact:
  assumes "retry_policy_ok p"
  shows "capped_delay p k = min (rp_base_delay p * 2 ^ k) (rp_max_delay p)"
proof -
  have b: "nanos 1 \<le> rp_base_delay p" "rp_max_delay p \<le> nanos 3600" using assms by (auto simp: retry_policy_ok_def)
  have m: "rp_max_delay p \<le> DURATION_MAX" using b(2) by (simp add: DURATION_MAX_def nanos_def)
  show ?thesis
  proof (cases "k < 32")
    case True
    then show ?thesis using m by (simp add: capped_delay_def shift_factor_def min_def)
  next
    case False
    have "nanos 3600 \<le> nanos 1 * 4294967295" by (simp add: nanos_def)
    also have "\<dots> \<le> rp_base_delay p * 4294967295" using b(1) by simp
    finally have 1: "rp_max_delay p \<le> rp_base_delay p * shift_factor k"
      using b(2) shift_factor_big [of k] False by simp
    have "(4294967295 :: nat) \<le> 2 ^ 32" by simp
    also have "(2 :: nat) ^ 32 \<le> 2 ^ k" using False by (intro power_increasing) auto
    finally have "shift_factor k \<le> 2 ^ k" using shift_factor_big [of k] False by simp
    then have "rp_base_delay p * shift_factor k \<le> rp_base_delay p * 2 ^ k" by (rule mult_le_mono2)
    from order_trans [OF 1 this] 1 m
    have "rp_max_delay p \<le> rp_base_delay p * 2 ^ k" "rp_max_delay p \<le> min (rp_base_delay p * shift_factor k) DURATION_MAX"
      by simp_all
    then show ?thesis by (simp only: capped_delay_def min_absorb2)
  qed
qed

text \<open>
  The backoff of a valid policy never overflows, saturates or divides by zero: it is the doubling
  schedule capped at the maximum, plus a jitter below one base delay; without jitter it never shrinks
  from one retry to the next.
\<close>

theorem backoff_schedule:
  assumes "retry_policy_ok p"
  shows "min (rp_base_delay p * 2 ^ k) (rp_max_delay p) \<le> backoff_delay p k jit \<and>
    backoff_delay p k jit < min (rp_base_delay p * 2 ^ k) (rp_max_delay p) + rp_base_delay p \<and>
    backoff_delay p k 0 \<le> backoff_delay p (Suc k) 0"
proof -
  have b: "nanos 1 \<le> rp_base_delay p" "rp_base_delay p \<le> nanos 3600" using assms by (auto simp: retry_policy_ok_def)
  then have pos: "0 < rp_base_delay p" and small: "rp_base_delay p < 2 ^ 64" by (auto simp: nanos_def)
  have "backoff_delay p k jit = min (rp_base_delay p * 2 ^ k) (rp_max_delay p) + jit mod rp_base_delay p" for k jit
    using small by (simp add: backoff_delay_def capped_delay_exact [OF assms])
  then show ?thesis using pos by (auto simp: min_def)
qed

theorem backoff_schedule_witness: "backoff_delay default_retry_policy 3 5 < nanos 9"
  using backoff_schedule [of default_retry_policy 3 5]
  by (simp add: retry_policy_ok_def default_retry_policy_def nanos_def)

end
