(* ===== verification/Failover.thy ===== *)
theory Failover
  imports Llm_Retry
begin

text \<open>
  Model profiles and the within-set failover chain (\<open>kallip-runtime/src/profile/{model,registry}.rs\<close>,
  \<open>failover.rs\<close>, \<open>advance_failover\<close> and \<open>reapply_window\<close> of \<open>acquisition.rs\<close>,
  \<open>apply_pending_profile_reset\<close> of \<open>agent_task.rs\<close>).

  A backend source is a function from provider ids to an error or a backend (a type parameter); a chat
  client is the backend with the options the code sets on it. The shared snapshot cell is a field of
  the state, since only the three writers of this module assign it.
\<close>

section \<open>Profiles and the registry\<close>

record profile =
  pf_id :: string
  pf_endpoint :: string
  pf_model :: string
  pf_window :: nat

record profile_set =
  ps_name :: string
  ps_description :: "string option"
  ps_profiles :: "profile list"

record 'b profile_registry =
  pr_sets :: "(string, profile_set) btree_map"
  pr_source :: "string \<Rightarrow> string + 'b"

record 'b chat_client =
  cl_backend :: 'b
  cl_model :: string
  cl_system_prompt :: "string option"

record dangling_set =
  ds_reason :: string
  ds_available :: "string list"

datatype profile_err = EmptySet string | UnknownSet string "string list" | NoBackend string string string

definition active_profile :: "profile_set \<Rightarrow> profile" where
  "active_profile s = hd (ps_profiles s)"

definition new_registry :: "(string, profile_set) btree_map \<Rightarrow> (string \<Rightarrow> string + 'b) \<Rightarrow> profile_err + 'b profile_registry" where
  "new_registry sets source =
     (case List.find (\<lambda>(k, s). ps_profiles s = []) sets of
        Some (k, s) \<Rightarrow> Inl (EmptySet k)
      | None \<Rightarrow> Inr \<lparr>pr_sets = map (\<lambda>(k, s). (k, s\<lparr>ps_name := k\<rparr>)) sets, pr_source = source\<rparr>)"

definition select_set :: "'b profile_registry \<Rightarrow> string \<Rightarrow> profile_err + profile_set" where
  "select_set r name = ok_or (UnknownSet name (map fst (pr_sets r))) (map_of (pr_sets r) name)"

definition dangling :: "'b profile_registry \<Rightarrow> string \<Rightarrow> dangling_set" where
  "dangling r why = \<lparr>ds_reason = why, ds_available = map fst (pr_sets r)\<rparr>"

definition resolve_recorded_set :: "'b profile_registry \<Rightarrow> string option \<Rightarrow> dangling_set + profile_set" where
  "resolve_recorded_set r binding =
     rbind (ok_or (dangling r ''agent record has no profile set'') binding) (\<lambda>name.
     ok_or (dangling r (''unknown profile set '' @ [quote_char] @ name @ [quote_char])) (map_of (pr_sets r) name))"

definition build_client :: "'b profile_registry \<Rightarrow> profile \<Rightarrow> string option \<Rightarrow> profile_err + 'b chat_client" where
  "build_client r p prompt =
     (case pr_source r (pf_endpoint p) of
        Inl e \<Rightarrow> Inl (NoBackend (pf_id p) (pf_endpoint p) e)
      | Inr b \<Rightarrow> Inr \<lparr>cl_backend = b, cl_model = pf_model p, cl_system_prompt = prompt\<rparr>)"

section \<open>Failover state\<close>

record profile_snapshot =
  sn_set_name :: string
  sn_profile_id :: string
  sn_provider :: string
  sn_model :: string

record 'b failover_state =
  fo_set :: profile_set
  fo_registry :: "'b profile_registry"
  fo_system_prompt :: "string option"
  fo_idx :: nat
  fo_snapshot :: profile_snapshot
  fo_set_name :: string

definition write_snapshot :: "profile \<Rightarrow> 'b failover_state \<Rightarrow> 'b failover_state" where
  "write_snapshot p fo =
     fo\<lparr>fo_snapshot := \<lparr>sn_set_name = fo_set_name fo, sn_profile_id = pf_id p, sn_provider = pf_endpoint p, sn_model = pf_model p\<rparr>\<rparr>"

definition new_failover ::
  "profile_set \<Rightarrow> 'b profile_registry \<Rightarrow> string option \<Rightarrow> profile_snapshot \<Rightarrow> 'b failover_state" where
  "new_failover s r prompt cell =
     write_snapshot (active_profile s)
       \<lparr>fo_set = s, fo_registry = r, fo_system_prompt = prompt, fo_idx = 0, fo_snapshot = cell, fo_set_name = ps_name s\<rparr>"

definition current_profile :: "'b failover_state \<Rightarrow> profile" where
  "current_profile fo = ps_profiles (fo_set fo) ! fo_idx fo"

definition candidate_profile :: "nat \<Rightarrow> 'b failover_state \<Rightarrow> profile option" where
  "candidate_profile offset fo =
     (if fo_idx fo + offset < length (ps_profiles (fo_set fo)) then Some (ps_profiles (fo_set fo) ! (fo_idx fo + offset)) else None)"

definition profile_count :: "'b failover_state \<Rightarrow> nat" where
  "profile_count fo = length (ps_profiles (fo_set fo))"

definition can_advance :: "'b failover_state \<Rightarrow> bool" where
  "can_advance fo \<longleftrightarrow> fo_idx fo + 1 < profile_count fo"

definition build_for :: "'b failover_state \<Rightarrow> profile \<Rightarrow> profile_err + 'b chat_client" where
  "build_for fo p = build_client (fo_registry fo) p (fo_system_prompt fo)"

definition advance_to :: "nat \<Rightarrow> 'b failover_state \<Rightarrow> 'b failover_state" where
  "advance_to i fo = write_snapshot (ps_profiles (fo_set fo) ! i) (fo\<lparr>fo_idx := i\<rparr>)"

definition reset_and_rebuild ::
  "profile_set \<Rightarrow> 'b profile_registry \<Rightarrow> 'b failover_state \<Rightarrow> (profile_err + 'b chat_client) \<times> 'b failover_state" where
  "reset_and_rebuild s r fo =
     (case build_client r (active_profile s) (fo_system_prompt fo) of
        Inl e \<Rightarrow> (Inl e, fo)
      | Inr client \<Rightarrow>
          (Inr client, write_snapshot (active_profile s) (fo\<lparr>fo_set_name := ps_name s, fo_set := s, fo_registry := r, fo_idx := 0\<rparr>)))"

section \<open>Advancing\<close>

record ('m, 'd, 'f, 'b) llm_ctx =
  lc_agent :: "('m, 'd) agent_ctx"
  lc_config :: "'f runtime_config"
  lc_failover :: "'b failover_state"
  lc_client :: "'b chat_client"
  lc_reset :: "(profile_set \<times> 'b profile_registry) option"

datatype 'm failover_outcome =
    Advanced string string "'m list"
  | ChainExhausted chain_exhaustion string
  | FailoverCancelled
  | FailoverBudget u64 u64

text \<open>The scan for the first candidate that builds and whose window fits; \<open>Inl\<close> says whether one was skipped for its window.\<close>

function scan_candidates ::
  "'f ratio_ops \<Rightarrow> 'f runtime_config \<Rightarrow> 'b failover_state \<Rightarrow> nat \<Rightarrow> bool \<Rightarrow> bool + nat \<times> profile \<times> 'b chat_client" where
  "scan_candidates rops cfg fo offset skipped =
     (case candidate_profile offset fo of
        None \<Rightarrow> Inl skipped
      | Some cand \<Rightarrow>
          (case build_for fo cand of
             Inl e \<Rightarrow> scan_candidates rops cfg fo (Suc offset) skipped
           | Inr client \<Rightarrow>
               (case try_context_window rops (pf_window cand) cfg of
                  Inl e \<Rightarrow> scan_candidates rops cfg fo (Suc offset) True
                | Inr _ \<Rightarrow> Inr (offset, cand, client))))"
  by auto

termination
  by (relation "measure (\<lambda>(rops, cfg, fo, offset, skipped). length (ps_profiles (fo_set fo)) - (fo_idx fo + offset))")
    (auto simp: candidate_profile_def split: if_splits)

declare scan_candidates.simps [simp del]

definition reapply_window :: "'f ratio_ops \<Rightarrow> ('m, 'd, 'f, 'b) llm_ctx \<Rightarrow> ('m, 'd, 'f, 'b) llm_ctx" where
  "reapply_window rops ctx =
     (let cfg = snd (set_context_window rops (pf_window (current_profile (lc_failover ctx))) (lc_config ctx));
          s = mark_needs_full_estimate (set_pinned_budget (pinned_budget rops cfg) (ac_store (lc_agent ctx)))
      in ctx\<lparr>lc_config := cfg, lc_agent := (lc_agent ctx)\<lparr>ac_store := s\<rparr>\<rparr>)"

definition exhaustion_at_tail :: "'b failover_state \<Rightarrow> chain_exhaustion" where
  "exhaustion_at_tail fo = (if profile_count fo = 1 then NoFailoverConfigured else AllBackupsExhausted)"

definition advance_failover ::
  "'m chat_ops \<Rightarrow> (string \<Rightarrow> nat) \<Rightarrow> 'f ratio_ops \<Rightarrow> ('b chat_client \<Rightarrow> nat \<Rightarrow> 'm llm) \<Rightarrow> bool \<Rightarrow> 'm list \<Rightarrow> string
    \<Rightarrow> ('m, 'd, 'f, 'b) llm_ctx \<Rightarrow> 'm failover_outcome \<times> ('m, 'd, 'f, 'b) llm_ctx" where
  "advance_failover ops est rops llm cancelled prior trigger ctx =
     (let fo = lc_failover ctx
      in if cancelled then (FailoverCancelled, ctx)
         else if \<not> can_advance fo then (ChainExhausted (exhaustion_at_tail fo) trigger, ctx)
         else case scan_candidates rops (lc_config ctx) fo 1 False of
                Inl skipped \<Rightarrow> (ChainExhausted (if skipped then AllCandidatesInfeasible else AllCandidatesUnbuildable) trigger, ctx)
              | Inr (offset, cand, client) \<Rightarrow>
                  (let ctx1 = ctx\<lparr>lc_failover := advance_to (fo_idx fo + offset) fo, lc_client := client\<rparr>;
                       ctx2 = reapply_window rops ctx1;
                       (res, agent) = summarize_and_evict ops est (llm client) (cf_budget (lc_config ctx2)) (lc_agent ctx2);
                       ctx3 = ctx2\<lparr>lc_agent := agent\<rparr>
                   in case res of
                        Inr (BudgetExceeded c b) \<Rightarrow> (FailoverBudget c b, ctx3)
                      | Inr Compacted \<Rightarrow> (Advanced (pf_id (current_profile fo)) (pf_id cand) (compose_context (ac_store agent)), ctx3)
                      | Inr NothingToCompact \<Rightarrow> (Advanced (pf_id (current_profile fo)) (pf_id cand) prior, ctx3)
                      | Inl e \<Rightarrow> (Advanced (pf_id (current_profile fo)) (pf_id cand) prior, ctx3)))"

definition apply_pending_profile_reset :: "'f ratio_ops \<Rightarrow> ('m, 'd, 'f, 'b) llm_ctx \<Rightarrow> ('m, 'd, 'f, 'b) llm_ctx" where
  "apply_pending_profile_reset rops ctx =
     (case lc_reset ctx of
        None \<Rightarrow> ctx
      | Some (s, r) \<Rightarrow>
          (let ctx1 = ctx\<lparr>lc_reset := None\<rparr>;
               (res, fo) = reset_and_rebuild s r (lc_failover ctx1)
           in case res of
                Inl e \<Rightarrow> ctx1\<lparr>lc_failover := fo\<rparr>
              | Inr client \<Rightarrow>
                  ctx1\<lparr>lc_failover := fo, lc_client := client,
                    lc_config := snd (set_context_window rops (pf_window (active_profile s)) (lc_config ctx1))\<rparr>))"

section \<open>What compaction leaves alone\<close>

definition same_frame :: "('m, 'd) agent_ctx \<Rightarrow> ('m, 'd) agent_ctx \<Rightarrow> bool" where
  "same_frame a b \<longleftrightarrow>
     pinned_token_budget (ac_store b) = pinned_token_budget (ac_store a) \<and> retry_log (ac_store b) = retry_log (ac_store a)"

lemma same_frame_refl [simp]: "same_frame a a" and same_frame_trans: "same_frame a b \<Longrightarrow> same_frame b c \<Longrightarrow> same_frame a c"
  and same_frame_persist [simp]: "same_frame a (persist b) = same_frame a b"
  by (simp_all add: same_frame_def persist_def)

lemma replace_pin_frame:
  "replace_pin ops l m s = Inr s1 \<Longrightarrow> pinned_token_budget s1 = pinned_token_budget s \<and> retry_log s1 = retry_log s"
  by (auto simp: replace_pin_def insert_pin_def Let_def split: if_splits option.splits)

lemma write_phase_frame:
  "replace_pin ops l m (ac_store ctx) = Inr s1 \<Longrightarrow> same_frame ctx (write_phase ops result usage s1 ctx)"
  using replace_pin_frame [of ops l m "ac_store ctx" s1]
  by (auto simp: same_frame_def write_phase_def Let_def append_history_def charge_summary_def accumulate_usage_no_anchor_def
      reset_context_warnings_def evict_turns_def split: option.split)

lemma compact_pass_frame:
  assumes "compact_pass ops est llm cfg ctx = PassNext ctx' \<or> compact_pass ops est llm cfg ctx = PassExceeded ctx' c b"
  shows "same_frame ctx ctx'"
proof -
  obtain r where r: "compact_pass ops est llm cfg ctx = r" "r = PassNext ctx' \<or> r = PassExceeded ctx' c b" using assms by blast
  show ?thesis
  proof (rule compact_pass_progressE [of ops est llm cfg ctx r])
    show "compact_pass ops est llm cfg ctx = r" by (rule r(1))
  qed (use r(2) in \<open>auto split: pass_result.splits dest: write_phase_frame\<close>)
qed

lemma compact_loop_frame: "same_frame ctx (snd (compact_loop ops est llm cfg k ctx))"
proof (induction ops est llm cfg k ctx rule: compact_loop.induct)
  case (1 ops est llm cfg k ctx)
  show ?case
  proof (cases "compact_pass ops est (llm k) cfg ctx")
    case (PassNext ctx1)
    with compact_pass_frame [of ops est "llm k" cfg ctx ctx1] 1 same_frame_trans show ?thesis
      by (subst compact_loop.simps) fastforce
  next
    case (PassExceeded ctx1 c b)
    with compact_pass_frame [of ops est "llm k" cfg ctx ctx1 c b] show ?thesis by (subst compact_loop.simps) simp
  qed (subst compact_loop.simps, simp)+
qed

section \<open>The scan\<close>

definition usable :: "'f ratio_ops \<Rightarrow> 'f runtime_config \<Rightarrow> 'b failover_state \<Rightarrow> profile \<Rightarrow> bool" where
  "usable rops cfg fo p \<longleftrightarrow> is_ok (build_for fo p) \<and> is_ok (try_context_window rops (pf_window p) cfg)"

definition ahead :: "'b failover_state \<Rightarrow> nat \<Rightarrow> nat \<Rightarrow> profile set" where
  "ahead fo lo hi = {ps_profiles (fo_set fo) ! (fo_idx fo + k) | k. lo \<le> k \<and> k < hi \<and> fo_idx fo + k < profile_count fo}"

lemma ahead_step:
  "candidate_profile lo fo = Some p \<Longrightarrow> lo < hi \<Longrightarrow> ahead fo lo hi = insert p (ahead fo (Suc lo) hi)"
  by (auto simp: ahead_def candidate_profile_def profile_count_def Suc_le_eq split: if_splits) (metis le_neq_implies_less)

lemma scan_found:
  assumes "scan_candidates rops cfg fo off skipped = Inr (n, p, client)"
  shows "off \<le> n \<and> candidate_profile n fo = Some p \<and> build_for fo p = Inr client \<and> is_ok (try_context_window rops (pf_window p) cfg) \<and>
    (\<forall>q \<in> ahead fo off n. \<not> usable rops cfg fo q)"
  using assms
proof (induction rops cfg fo off skipped rule: scan_candidates.induct)
  case (1 rops cfg fo off skipped)
  obtain c where c: "candidate_profile off fo = Some c"
    using "1.prems" by (subst (asm) scan_candidates.simps) (auto split: option.splits)
  show ?case
  proof (cases "build_for fo c")
    case (Inl e)
    then have r: "scan_candidates rops cfg fo (Suc off) skipped = Inr (n, p, client)"
      using "1.prems" c by (subst (asm) scan_candidates.simps) simp
    from "1.IH"(1) [OF c Inl r] show ?thesis using ahead_step [OF c, of n] Inl by (auto simp: usable_def)
  next
    case (Inr cl)
    show ?thesis
    proof (cases "try_context_window rops (pf_window c) cfg")
      case (Inl e)
      then have r: "scan_candidates rops cfg fo (Suc off) True = Inr (n, p, client)"
        using "1.prems" c Inr by (subst (asm) scan_candidates.simps) simp
      from "1.IH"(2) [OF c Inr Inl r] show ?thesis using ahead_step [OF c, of n] Inl by (auto simp: usable_def)
    next
      case (Inr u)
      then show ?thesis using "1.prems" c \<open>build_for fo c = Inr cl\<close>
        by (subst (asm) scan_candidates.simps) (auto simp: ahead_def)
    qed
  qed
qed

lemma scan_none:
  assumes "scan_candidates rops cfg fo off skipped = Inl b"
  shows "(\<forall>q \<in> ahead fo off (profile_count fo). \<not> usable rops cfg fo q) \<and>
    (b \<longleftrightarrow> skipped \<or> (\<exists>q \<in> ahead fo off (profile_count fo). is_ok (build_for fo q)))"
  using assms
proof (induction rops cfg fo off skipped rule: scan_candidates.induct)
  case (1 rops cfg fo off skipped)
  show ?case
  proof (cases "candidate_profile off fo")
    case None
    then have "ahead fo off (profile_count fo) = {}" by (auto simp: ahead_def candidate_profile_def profile_count_def split: if_splits)
    with None "1.prems" show ?thesis by (subst (asm) scan_candidates.simps) simp
  next
    case c: (Some c)
    then have lt: "off < profile_count fo" by (auto simp: candidate_profile_def profile_count_def split: if_splits)
    note step = ahead_step [OF c lt]
    show ?thesis
    proof (cases "build_for fo c")
      case (Inl e)
      then have r: "scan_candidates rops cfg fo (Suc off) skipped = Inl b"
        using "1.prems" c by (subst (asm) scan_candidates.simps) simp
      from "1.IH"(1) [OF c Inl r] show ?thesis using Inl by (auto simp: step usable_def)
    next
      case b: (Inr cl)
      show ?thesis
      proof (cases "try_context_window rops (pf_window c) cfg")
        case (Inl e)
        then have r: "scan_candidates rops cfg fo (Suc off) True = Inl b"
          using "1.prems" c b by (subst (asm) scan_candidates.simps) simp
        from "1.IH"(2) [OF c b Inl r] show ?thesis using Inl b by (auto simp: step usable_def)
      next
        case (Inr u)
        then show ?thesis using "1.prems" c b by (subst (asm) scan_candidates.simps) simp
      qed
    qed
  qed
qed

section \<open>The invariant of the failover state\<close>

definition snapshot_of :: "'b failover_state \<Rightarrow> profile_snapshot" where
  "snapshot_of fo = (let p = current_profile fo
     in \<lparr>sn_set_name = fo_set_name fo, sn_profile_id = pf_id p, sn_provider = pf_endpoint p, sn_model = pf_model p\<rparr>)"

definition fo_ok :: "'b failover_state \<Rightarrow> bool" where
  "fo_ok fo \<longleftrightarrow> fo_idx fo < profile_count fo \<and> fo_set_name fo = ps_name (fo_set fo) \<and> fo_snapshot fo = snapshot_of fo"

lemmas fo_ok_defs = fo_ok_def snapshot_of_def current_profile_def profile_count_def write_snapshot_def Let_def

lemma advance_to_fields [simp]:
  "fo_idx (advance_to i fo) = i" "fo_set (advance_to i fo) = fo_set fo" "fo_registry (advance_to i fo) = fo_registry fo"
  "fo_system_prompt (advance_to i fo) = fo_system_prompt fo" "fo_set_name (advance_to i fo) = fo_set_name fo"
  by (simp_all add: advance_to_def write_snapshot_def)

lemma fo_ok_advance: "fo_ok fo \<Longrightarrow> i < profile_count fo \<Longrightarrow> fo_ok (advance_to i fo)"
  by (simp add: fo_ok_defs advance_to_def)

lemma fo_ok_new: "ps_profiles s \<noteq> [] \<Longrightarrow> fo_ok (new_failover s r prompt cell)"
  by (simp add: fo_ok_defs new_failover_def active_profile_def hd_conv_nth)

lemma fo_ok_reset: "fo_ok fo \<Longrightarrow> ps_profiles s \<noteq> [] \<Longrightarrow> fo_ok (snd (reset_and_rebuild s r fo))"
  by (simp add: fo_ok_defs reset_and_rebuild_def active_profile_def hd_conv_nth split: sum.split)

lemma new_registry_Inr:
  assumes "new_registry sets source = Inr r"
  shows "pr_source r = source \<and> map fst (pr_sets r) = map fst sets \<and> (\<forall>(k, s) \<in> set (pr_sets r). ps_name s = k \<and> ps_profiles s \<noteq> [])"
proof -
  have none: "List.find (\<lambda>(k, s). ps_profiles s = []) sets = None"
    using assms by (auto simp: new_registry_def split: option.splits)
  then have "ps_profiles s \<noteq> []" if "(k, s) \<in> set sets" for k s using that by (auto simp: find_None_iff)
  then show ?thesis using assms none by (auto simp: new_registry_def)
qed

lemma window_set:
  assumes "try_context_window rops tokens c = Inr u"
  shows "set_context_window rops tokens c = (Inr (), c\<lparr>cf_budget := (cf_budget c)\<lparr>bc_window := tokens\<rparr>\<rparr>)"
  using assms by (simp add: set_context_window_def)

lemma window_keeps_valid:
  assumes "config_valid rops c" "try_context_window rops tokens c = Inr u"
  shows "config_valid rops (c\<lparr>cf_budget := (cf_budget c)\<lparr>bc_window := tokens\<rparr>\<rparr>)"
  using assms by (simp add: try_window_Inr config_valid_def)

section \<open>Properties\<close>

text \<open>The state after an advance: the nearest usable profile, served whole.\<close>

definition landed :: "'f ratio_ops \<Rightarrow> ('m, 'd, 'f, 'b) llm_ctx \<Rightarrow> ('m, 'd, 'f, 'b) llm_ctx \<Rightarrow> bool" where
  "landed rops ctx ctx' \<longleftrightarrow>
     (let fo = lc_failover ctx; fo' = lc_failover ctx'; p = current_profile fo'
      in fo_ok fo' \<and> fo_set fo' = fo_set fo \<and> fo_registry fo' = fo_registry fo \<and> fo_system_prompt fo' = fo_system_prompt fo \<and>
         fo_idx fo < fo_idx fo' \<and> (\<forall>q \<in> ahead fo 1 (fo_idx fo' - fo_idx fo). \<not> usable rops (lc_config ctx) fo q) \<and>
         build_for fo p = Inr (lc_client ctx') \<and>
         lc_config ctx' = (lc_config ctx)\<lparr>cf_budget := (cf_budget (lc_config ctx))\<lparr>bc_window := pf_window p\<rparr>\<rparr> \<and>
         config_valid rops (lc_config ctx') \<and>
         pinned_token_budget (ac_store (lc_agent ctx')) = pinned_budget rops (lc_config ctx') \<and>
         retry_log (ac_store (lc_agent ctx')) = retry_log (ac_store (lc_agent ctx)) \<and> lc_reset ctx' = lc_reset ctx)"

definition exhausted_reason :: "'b failover_state \<Rightarrow> chain_exhaustion" where
  "exhausted_reason fo =
     (if profile_count fo = 1 then NoFailoverConfigured
      else if fo_idx fo + 1 = profile_count fo then AllBackupsExhausted
      else if \<exists>q \<in> ahead fo 1 (profile_count fo). is_ok (build_for fo q) then AllCandidatesInfeasible
      else AllCandidatesUnbuildable)"

lemma advance_landed:
  assumes ok: "fo_ok (lc_failover ctx)" and valid: "config_valid rops (lc_config ctx)"
    and scan: "scan_candidates rops (lc_config ctx) (lc_failover ctx) 1 False = Inr (n, p, client)"
    and ctx1: "ctx1 = reapply_window rops (ctx\<lparr>lc_failover := advance_to (fo_idx (lc_failover ctx) + n) (lc_failover ctx), lc_client := client\<rparr>)"
    and frame: "same_frame (lc_agent ctx1) agent"
  shows "landed rops ctx (ctx1\<lparr>lc_agent := agent\<rparr>)"
proof -
  let ?fo = "lc_failover ctx"
  let ?fo' = "advance_to (fo_idx ?fo + n) ?fo"
  from scan_found [OF scan] have n: "1 \<le> n" "fo_idx ?fo + n < profile_count ?fo" "p = ps_profiles (fo_set ?fo) ! (fo_idx ?fo + n)"
      "build_for ?fo p = Inr client" "is_ok (try_context_window rops (pf_window p) (lc_config ctx))"
      "\<forall>q \<in> ahead ?fo 1 n. \<not> usable rops (lc_config ctx) ?fo q"
    by (auto simp: candidate_profile_def profile_count_def split: if_splits)
  have cur: "current_profile ?fo' = p" by (simp add: current_profile_def n(3))
  obtain u where u: "try_context_window rops (pf_window p) (lc_config ctx) = Inr u"
    using n(5) by (cases "try_context_window rops (pf_window p) (lc_config ctx)") auto
  let ?cfg = "(lc_config ctx)\<lparr>cf_budget := (cf_budget (lc_config ctx))\<lparr>bc_window := pf_window p\<rparr>\<rparr>"
  have c1: "lc_config ctx1 = ?cfg" "lc_failover ctx1 = ?fo'" "lc_client ctx1 = client" "lc_reset ctx1 = lc_reset ctx"
      "pinned_token_budget (ac_store (lc_agent ctx1)) = pinned_budget rops ?cfg"
      "retry_log (ac_store (lc_agent ctx1)) = retry_log (ac_store (lc_agent ctx))"
    by (simp_all add: ctx1 reapply_window_def Let_def cur window_set [OF u] mark_needs_full_estimate_def set_pinned_budget_def)
  have "fo_ok ?fo'" using ok n(2) by (rule fo_ok_advance)
  then show ?thesis
    using n window_keeps_valid [OF valid u] frame by (simp add: landed_def Let_def c1 cur same_frame_def)
qed

lemma advance_found:
  assumes ok: "fo_ok (lc_failover ctx)" and valid: "config_valid rops (lc_config ctx)"
    and scan: "scan_candidates rops (lc_config ctx) (lc_failover ctx) 1 False = Inr (n, p, client)" and adv: "can_advance (lc_failover ctx)"
  obtains out ctx' where "advance_failover ops est rops llm False prior trigger ctx = (out, ctx')" "landed rops ctx ctx'"
    "(\<exists>c b. out = FailoverBudget c b) \<or>
     (\<exists>ms. out = Advanced (pf_id (current_profile (lc_failover ctx))) (pf_id (current_profile (lc_failover ctx'))) ms)"
proof -
  let ?fo = "lc_failover ctx"
  let ?ctx1 = "reapply_window rops (ctx\<lparr>lc_failover := advance_to (fo_idx ?fo + n) ?fo, lc_client := client\<rparr>)"
  obtain res agent where r: "summarize_and_evict ops est (llm client) (cf_budget (lc_config ?ctx1)) (lc_agent ?ctx1) = (res, agent)"
    by (cases "summarize_and_evict ops est (llm client) (cf_budget (lc_config ?ctx1)) (lc_agent ?ctx1)") auto
  have "same_frame (lc_agent ?ctx1) agent"
    using compact_loop_frame [of "lc_agent ?ctx1" ops est "llm client" "cf_budget (lc_config ?ctx1)" 0] r
    by (simp add: summarize_and_evict_def)
  note land = advance_landed [OF ok valid scan refl this]
  have cur: "lc_failover (?ctx1\<lparr>lc_agent := agent\<rparr>) = advance_to (fo_idx ?fo + n) ?fo" by (simp add: reapply_window_def Let_def)
  have p: "p = current_profile (advance_to (fo_idx ?fo + n) ?fo)"
    using scan_found [OF scan] by (auto simp: candidate_profile_def current_profile_def split: if_splits)
  show ?thesis
    by (rule that [OF _ land, where out = "fst (advance_failover ops est rops llm False prior trigger ctx)"])
      (use scan adv r cur p in \<open>cases res rule: sum.exhaust [case_names Err Ok];
        auto simp: advance_failover_def Let_def split: compact_outcome.split\<close>)+
qed

lemma advance_none:
  assumes ok: "fo_ok (lc_failover ctx)" and none: "\<And>x. scan_candidates rops (lc_config ctx) (lc_failover ctx) 1 False \<noteq> Inr x \<or> \<not> can_advance (lc_failover ctx)"
  shows "advance_failover ops est rops llm False prior trigger ctx = (ChainExhausted (exhausted_reason (lc_failover ctx)) trigger, ctx) \<and>
    (\<forall>q \<in> ahead (lc_failover ctx) 1 (profile_count (lc_failover ctx)). \<not> usable rops (lc_config ctx) (lc_failover ctx) q)"
proof (cases "can_advance (lc_failover ctx)")
  case True
  then obtain b where b: "scan_candidates rops (lc_config ctx) (lc_failover ctx) 1 False = Inl b"
    using none by (cases "scan_candidates rops (lc_config ctx) (lc_failover ctx) 1 False") auto
  have "profile_count (lc_failover ctx) \<noteq> 1" "fo_idx (lc_failover ctx) + 1 \<noteq> profile_count (lc_failover ctx)"
    using True by (auto simp: can_advance_def)
  with True b scan_none [OF b] show ?thesis by (simp add: advance_failover_def Let_def exhausted_reason_def)
next
  case False
  then have e: "fo_idx (lc_failover ctx) + 1 = profile_count (lc_failover ctx)" using ok by (auto simp: can_advance_def fo_ok_def)
  then have "ahead (lc_failover ctx) 1 (profile_count (lc_failover ctx)) = {}" by (auto simp: ahead_def)
  then show ?thesis using False e by (auto simp: advance_failover_def Let_def exhausted_reason_def exhaustion_at_tail_def)
qed

lemma advance_cases:
  assumes ok: "fo_ok (lc_failover ctx)" and valid: "config_valid rops (lc_config ctx)"
  shows "snd (advance_failover ops est rops llm cancelled prior trigger ctx) = ctx \<and>
      (\<forall>p q ms. fst (advance_failover ops est rops llm cancelled prior trigger ctx) \<noteq> Advanced p q ms) \<or>
    landed rops ctx (snd (advance_failover ops est rops llm cancelled prior trigger ctx))"
proof (cases "cancelled \<or> (\<forall>x. scan_candidates rops (lc_config ctx) (lc_failover ctx) 1 False \<noteq> Inr x \<or> \<not> can_advance (lc_failover ctx))")
  case True
  then show ?thesis using advance_none [OF ok, of rops ops est llm prior trigger]
    by (cases cancelled) (auto simp: advance_failover_def Let_def)
next
  case False
  then obtain n p client where c: "\<not> cancelled" "can_advance (lc_failover ctx)"
      "scan_candidates rops (lc_config ctx) (lc_failover ctx) 1 False = Inr (n, p, client)" by auto
  from advance_found [OF ok valid c(3,2), of ops est llm prior trigger] obtain out ctx'
    where "advance_failover ops est rops llm False prior trigger ctx = (out, ctx')" "landed rops ctx ctx'" by metis
  with c(1) show ?thesis by simp
qed

text \<open>
  C23. A failover step serves the nearest profile ahead of the active one that both builds and fits the
  budget: then the index only moves forward, the published snapshot, the client, the context window and
  the pinned budget all belong to that profile, the configuration stays valid and the retry log is
  kept. When there is none, or on a cancel, nothing changes and the reason says which of the four ways
  of running out occurred.
\<close>

theorem advance_lands_first_usable:
  assumes ok: "fo_ok (lc_failover ctx)" and valid: "config_valid rops (lc_config ctx)"
  shows "let fo = lc_failover ctx; (out, ctx') = advance_failover ops est rops llm cancelled prior trigger ctx
    in if cancelled then out = FailoverCancelled \<and> ctx' = ctx
       else case out of
              FailoverCancelled \<Rightarrow> False
            | ChainExhausted why t \<Rightarrow> ctx' = ctx \<and> t = trigger \<and> why = exhausted_reason fo \<and>
                (\<forall>q \<in> ahead fo 1 (profile_count fo). \<not> usable rops (lc_config ctx) fo q)
            | FailoverBudget c b \<Rightarrow> landed rops ctx ctx'
            | Advanced p q ms \<Rightarrow> landed rops ctx ctx' \<and> p = pf_id (current_profile fo) \<and> q = pf_id (current_profile (lc_failover ctx'))"
proof (cases "cancelled \<or> (\<forall>x. scan_candidates rops (lc_config ctx) (lc_failover ctx) 1 False \<noteq> Inr x \<or> \<not> can_advance (lc_failover ctx))")
  case True
  then show ?thesis using advance_none [OF ok, of rops ops est llm prior trigger]
    by (cases cancelled) (auto simp: advance_failover_def Let_def)
next
  case False
  then obtain n p client where c: "\<not> cancelled" "can_advance (lc_failover ctx)"
      "scan_candidates rops (lc_config ctx) (lc_failover ctx) 1 False = Inr (n, p, client)" by auto
  show ?thesis
    by (rule advance_found [OF ok valid c(3,2), of ops est llm prior trigger]) (use c(1) in auto)
qed

definition sample_profile :: "string \<Rightarrow> nat \<Rightarrow> profile" where
  "sample_profile name window = \<lparr>pf_id = name, pf_endpoint = name, pf_model = ''m'', pf_window = window\<rparr>"

definition sample_set :: profile_set where
  "sample_set = \<lparr>ps_name = ''main'', ps_description = None,
     ps_profiles = [sample_profile ''a'' 200000, sample_profile ''down'' 200000, sample_profile ''tiny'' 9000, sample_profile ''b'' 100000]\<rparr>"

definition sample_profiles :: "string profile_registry" where
  "sample_profiles = \<lparr>pr_sets = [(''main'', sample_set)], pr_source = (\<lambda>e. if e = ''down'' then Inl ''no key'' else Inr e)\<rparr>"

definition sample_cell :: profile_snapshot where
  "sample_cell = \<lparr>sn_set_name = [], sn_profile_id = [], sn_provider = [], sn_model = []\<rparr>"

definition sample_llm_ctx :: "(string, unit, nat, string) llm_ctx" where
  "sample_llm_ctx = \<lparr>lc_agent = sample_ctx, lc_config = sample_config, lc_failover = new_failover sample_set sample_profiles None sample_cell,
     lc_client = \<lparr>cl_backend = ''a'', cl_model = ''m'', cl_system_prompt = None\<rparr>, lc_reset = Some (sample_set, sample_profiles)\<rparr>"

lemmas sample_failover_defs = sample_llm_ctx_def sample_set_def sample_profiles_def sample_profile_def

lemma sample_llm_ok: "fo_ok (lc_failover sample_llm_ctx)" "config_valid percent_ops (lc_config sample_llm_ctx)"
proof -
  show "fo_ok (lc_failover sample_llm_ctx)" unfolding sample_llm_ctx_def by (simp add: fo_ok_new sample_set_def)
  show "config_valid percent_ops (lc_config sample_llm_ctx)"
    using check_knobs_Inr [OF config_load_Inr(1) [OF sample_load]] load_retry_Inr [OF config_load_Inr(2) [OF sample_load]]
    by (simp add: sample_llm_ctx_def)
qed

lemmas sample_config_defs = sample_config_def default_config_def percent_ops_def config_defaults

lemma sample_windows:
  "is_ok (try_context_window percent_ops 100000 sample_config)" "\<not> is_ok (try_context_window percent_ops 9000 sample_config)"
  by (simp_all add: try_context_window_def check_context_budget_def sample_config_defs bail_if_def rbind_def Let_def)

text \<open>In the sample chain the second profile does not build and the third is too small, so the fourth is served.\<close>

theorem advance_lands_first_usable_witness:
  "let (out, ctx') = advance_failover sample_ops length percent_ops (\<lambda>_. sample_llm) False [] ''boom'' sample_llm_ctx
   in (\<forall>why t. out \<noteq> ChainExhausted why t) \<and> landed percent_ops sample_llm_ctx ctx'"
proof -
  let ?fo = "lc_failover sample_llm_ctx"
  have b: "sample_profile ''b'' 100000 \<in> ahead ?fo 1 (profile_count ?fo)"
    by (simp add: ahead_def sample_failover_defs new_failover_def write_snapshot_def profile_count_def) (rule exI [of _ 3], simp)
  have u: "usable percent_ops (lc_config sample_llm_ctx) ?fo (sample_profile ''b'' 100000)"
    using sample_windows(1)
    by (simp add: usable_def build_for_def build_client_def sample_failover_defs new_failover_def write_snapshot_def)
  from b u show ?thesis
    using advance_lands_first_usable [OF sample_llm_ok, of sample_ops length "\<lambda>_. sample_llm" False "[]" "''boom''"]
    by (cases "fst (advance_failover sample_ops length percent_ops (\<lambda>_. sample_llm) False [] ''boom'' sample_llm_ctx)")
      (auto simp: Let_def split: prod.splits)
qed

text \<open>
  Applying a pending profile reset swaps the client and restarts the chain even when the new profile's
  window does not fit the budget, in which case the window of the old profile stays installed; and it
  never touches the store, so the pinned-turn budget and the token anchor remain those of the old
  profile.
\<close>

theorem profile_reset_leaves_store:
  assumes pending: "lc_reset ctx = Some (s, r)"
    and builds: "build_client r (active_profile s) (fo_system_prompt (lc_failover ctx)) = Inr client"
  shows "let ctx' = apply_pending_profile_reset rops ctx; w = pf_window (active_profile s)
    in lc_client ctx' = client \<and> fo_set (lc_failover ctx') = s \<and> fo_idx (lc_failover ctx') = 0 \<and> lc_reset ctx' = None \<and>
       lc_agent ctx' = lc_agent ctx \<and>
       (if is_ok (try_context_window rops w (lc_config ctx)) then bc_window (cf_budget (lc_config ctx')) = w
        else lc_config ctx' = lc_config ctx)"
  using assms by (auto simp: apply_pending_profile_reset_def reset_and_rebuild_def write_snapshot_def set_context_window_def Let_def
      split: sum.split)

definition tiny_set :: profile_set where
  "tiny_set = \<lparr>ps_name = ''tiny'', ps_description = None, ps_profiles = [sample_profile ''tiny'' 9000]\<rparr>"

theorem profile_reset_leaves_store_witness:
  "lc_config (apply_pending_profile_reset percent_ops (sample_llm_ctx\<lparr>lc_reset := Some (tiny_set, sample_profiles)\<rparr>)) = sample_config"
proof -
  let ?ctx = "sample_llm_ctx\<lparr>lc_reset := Some (tiny_set, sample_profiles)\<rparr>"
  have "lc_reset ?ctx = Some (tiny_set, sample_profiles)" by simp
  moreover have "build_client sample_profiles (active_profile tiny_set) (fo_system_prompt (lc_failover ?ctx)) =
      Inr \<lparr>cl_backend = ''tiny'', cl_model = ''m'', cl_system_prompt = None\<rparr>"
    by (simp add: build_client_def active_profile_def tiny_set_def sample_failover_defs new_failover_def write_snapshot_def)
  ultimately show ?thesis
    using profile_reset_leaves_store [of ?ctx tiny_set sample_profiles _ percent_ops] sample_windows(2)
    by (auto simp: Let_def active_profile_def tiny_set_def sample_profile_def sample_llm_ctx_def)
qed

end
