(* ===== verification/Stream_Consume.thy ===== *)
theory Stream_Consume
  imports Tool_Rounds
begin

text \<open>
  Consuming the answer stream of the LLM (\<open>kallip-runtime/src/stream_accumulator.rs\<close> and
  \<open>consume_stream\<close> of \<open>acquisition.rs\<close>). The stream is the list of what it yields: a chunk, a transport
  error, or the round cancel winning the race at that point; its end is the end of the list. Events go
  to a channel whose failures are ignored; the model keeps the list of events sent.
\<close>

section \<open>The tool-call accumulator\<close>

record call_delta =
  cd_index :: "nat option"
  cd_id :: "string option"
  cd_kind :: "string option"
  cd_name :: "string option"
  cd_args :: "string option"

record accumulated_call =
  aq_id :: "string option"
  aq_kind :: "string option"
  aq_name :: "string option"
  aq_args :: string

type_synonym accumulator = "(nat, accumulated_call) btree_map"

definition new_call :: accumulated_call where
  "new_call = \<lparr>aq_id = None, aq_kind = None, aq_name = None, aq_args = []\<rparr>"

definition or_old :: "'a option \<Rightarrow> 'a option \<Rightarrow> 'a option" where
  "or_old new old = (case new of Some x \<Rightarrow> Some x | None \<Rightarrow> old)"

definition merge_delta :: "call_delta \<Rightarrow> accumulated_call \<Rightarrow> accumulated_call" where
  "merge_delta d a =
     \<lparr>aq_id = or_old (cd_id d) (aq_id a), aq_kind = or_old (cd_kind d) (aq_kind a), aq_name = or_old (cd_name d) (aq_name a),
      aq_args = aq_args a @ (case cd_args d of None \<Rightarrow> [] | Some s \<Rightarrow> s)\<rparr>"

definition index_of :: "call_delta \<Rightarrow> nat" where
  "index_of d = (case cd_index d of None \<Rightarrow> 0 | Some i \<Rightarrow> i)"

definition push_delta :: "call_delta \<Rightarrow> accumulator \<Rightarrow> accumulator" where
  "push_delta d acc =
     bt_insert (index_of d) (merge_delta d (case map_of acc (index_of d) of None \<Rightarrow> new_call | Some a \<Rightarrow> a)) acc"

definition or_empty :: "string option \<Rightarrow> string" where
  "or_empty x = (case x of None \<Rightarrow> [] | Some s \<Rightarrow> s)"

definition finish_call_of :: "accumulated_call \<Rightarrow> tool_call" where
  "finish_call_of a = \<lparr>tc_id = or_empty (aq_id a), tc_name = or_empty (aq_name a), tc_arguments = aq_args a\<rparr>"

definition finish_calls :: "accumulator \<Rightarrow> tool_call list" where
  "finish_calls acc = map (finish_call_of \<circ> snd) acc"

section \<open>The stream\<close>

record chunk_choice =
  cc_content :: "string option"
  cc_reasoning :: "string option"
  cc_tool_calls :: "call_delta list option"

record chunk =
  ck_choices :: "chunk_choice list"
  ck_usage :: "provider_usage option"

datatype stream_item = SChunk chunk | SError string | SCancel

datatype stream_event = ContentDelta string | ReasoningDelta string

datatype stream_outcome = StreamCancelled | StreamCompleted stream_consumed | StreamTransient string

record stream_acc =
  sa_content :: string
  sa_reasoning :: string
  sa_calls :: accumulator
  sa_usage :: "provider_usage option"

definition opt_events :: "('a \<Rightarrow> stream_event) \<Rightarrow> 'a option \<Rightarrow> stream_event list" where
  "opt_events f x = (case x of None \<Rightarrow> [] | Some v \<Rightarrow> [f v])"

definition take_chunk :: "chunk \<Rightarrow> stream_acc \<times> stream_event list \<Rightarrow> stream_acc \<times> stream_event list" where
  "take_chunk c st =
     (case st of (a, evs) \<Rightarrow>
        case ck_choices c of
          [] \<Rightarrow> (a, evs)
        | choice # _ \<Rightarrow>
            (\<lparr>sa_content = sa_content a @ or_empty (cc_content choice), sa_reasoning = sa_reasoning a @ or_empty (cc_reasoning choice),
              sa_calls = (case cc_tool_calls choice of None \<Rightarrow> sa_calls a | Some ds \<Rightarrow> fold push_delta ds (sa_calls a)),
              sa_usage = or_old (ck_usage c) (sa_usage a)\<rparr>,
             evs @ opt_events ContentDelta (cc_content choice) @ opt_events ReasoningDelta (cc_reasoning choice)))"

fun consume_loop :: "stream_item list \<Rightarrow> stream_acc \<times> stream_event list \<Rightarrow> stream_outcome \<times> stream_event list" where
  "consume_loop [] st =
     (StreamCompleted \<lparr>sc_content = sa_content (fst st), sc_reasoning = sa_reasoning (fst st),
        sc_tool_calls = finish_calls (sa_calls (fst st)), sc_usage = sa_usage (fst st)\<rparr>, snd st)"
| "consume_loop (SChunk c # items) st = consume_loop items (take_chunk c st)"
| "consume_loop (SError e # items) st = (StreamTransient e, snd st)"
| "consume_loop (SCancel # items) st = (StreamCancelled, snd st)"

definition consume_stream :: "stream_item list \<Rightarrow> stream_outcome \<times> stream_event list" where
  "consume_stream items =
     consume_loop items (\<lparr>sa_content = [], sa_reasoning = [], sa_calls = [], sa_usage = None\<rparr>, [])"

section \<open>What the stream assembles\<close>

definition last_some :: "'a option list \<Rightarrow> 'a option" where
  "last_some xs = fold or_old xs None"

definition assembled_call :: "call_delta list \<Rightarrow> tool_call" where
  "assembled_call ds =
     \<lparr>tc_id = or_empty (last_some (map cd_id ds)), tc_name = or_empty (last_some (map cd_name ds)),
      tc_arguments = concat (map (or_empty \<circ> cd_args) ds)\<rparr>"

definition assembled_calls :: "call_delta list \<Rightarrow> tool_call list" where
  "assembled_calls ds =
     map (\<lambda>i. assembled_call (filter (\<lambda>d. index_of d = i) ds)) (sorted_list_of_set (index_of ` set ds))"

definition chunk_choices :: "chunk list \<Rightarrow> chunk_choice list" where
  "chunk_choices cs = List.map_filter (\<lambda>c. case ck_choices c of [] \<Rightarrow> None | x # _ \<Rightarrow> Some x) cs"

definition assembled :: "chunk list \<Rightarrow> stream_consumed" where
  "assembled cs =
     \<lparr>sc_content = concat (map (or_empty \<circ> cc_content) (chunk_choices cs)),
      sc_reasoning = concat (map (or_empty \<circ> cc_reasoning) (chunk_choices cs)),
      sc_tool_calls = assembled_calls (concat (List.map_filter cc_tool_calls (chunk_choices cs))),
      sc_usage = last_some (map ck_usage (filter (\<lambda>c. ck_choices c \<noteq> []) cs))\<rparr>"

definition delta_events :: "chunk list \<Rightarrow> stream_event list" where
  "delta_events cs =
     concat (map (\<lambda>x. opt_events ContentDelta (cc_content x) @ opt_events ReasoningDelta (cc_reasoning x)) (chunk_choices cs))"

fun chunk_of :: "stream_item \<Rightarrow> chunk option" where
  "chunk_of (SChunk c) = Some c"
| "chunk_of _ = None"

fun is_chunk :: "stream_item \<Rightarrow> bool" where
  "is_chunk (SChunk c) = True"
| "is_chunk _ = False"

definition leading_chunks :: "stream_item list \<Rightarrow> chunk list" where
  "leading_chunks items = List.map_filter chunk_of (takeWhile is_chunk items)"

fun stream_end :: "stream_consumed \<Rightarrow> stream_item list \<Rightarrow> stream_outcome" where
  "stream_end c [] = StreamCompleted c"
| "stream_end c (SError e # _) = StreamTransient e"
| "stream_end c _ = StreamCancelled"

subsection \<open>The accumulator\<close>

lemma merged_fields:
  "aq_id (fold merge_delta ds a) = fold or_old (map cd_id ds) (aq_id a)"
  "aq_name (fold merge_delta ds a) = fold or_old (map cd_name ds) (aq_name a)"
  "aq_args (fold merge_delta ds a) = aq_args a @ concat (map (or_empty \<circ> cd_args) ds)"
  by (induction ds arbitrary: a) (simp_all add: merge_delta_def or_empty_def)

lemma finish_merged: "finish_call_of (fold merge_delta ds new_call) = assembled_call ds"
  by (simp add: finish_call_of_def assembled_call_def merged_fields new_call_def last_some_def)

lemma accumulated:
  "bt_valid acc \<Longrightarrow> bt_valid (fold push_delta ds acc) \<and> fst ` set (fold push_delta ds acc) = fst ` set acc \<union> index_of ` set ds \<and>
    (\<forall>i. map_of (fold push_delta ds acc) i =
      (if i \<in> index_of ` set ds \<or> map_of acc i \<noteq> None
       then Some (fold merge_delta (filter (\<lambda>d. index_of d = i) ds) (case map_of acc i of None \<Rightarrow> new_call | Some a \<Rightarrow> a))
       else None))"
proof (induction ds arbitrary: acc)
  case Nil
  then show ?case by (auto split: option.splits)
next
  case (Cons d ds)
  have v: "bt_valid (push_delta d acc)" using Cons.prems by (simp add: push_delta_def bt_valid_insert)
  have k: "fst ` set (push_delta d acc) = insert (index_of d) (fst ` set acc)" by (simp add: push_delta_def set_bt_insert_keys)
  have m: "map_of (push_delta d acc) i = (if i = index_of d then
      Some (merge_delta d (case map_of acc i of None \<Rightarrow> new_call | Some a \<Rightarrow> a)) else map_of acc i)" for i
    by (simp add: push_delta_def map_of_bt_insert)
  from Cons.IH [OF v] show ?case by (auto simp: k m)
qed

lemma sorted_keys: "bt_valid acc \<Longrightarrow> map fst acc = sorted_list_of_set (fst ` set acc)"
proof -
  assume "bt_valid acc"
  then have "sorted (map fst acc)" "distinct (map fst acc)" by (simp_all add: bt_valid_def strict_sorted_iff)
  then show ?thesis using sorted_list_of_set.idem_if_sorted_distinct [of "map fst acc"] by simp
qed

lemma finish_calls_exact: "finish_calls (fold push_delta ds []) = assembled_calls ds"
proof -
  let ?acc = "fold push_delta ds []"
  note acc = accumulated [of "[]" ds, simplified]
  have keys: "map fst ?acc = sorted_list_of_set (index_of ` set ds)"
    using acc sorted_keys [of ?acc] by (simp add: image_image)
  have "finish_call_of (snd kv) = assembled_call (filter (\<lambda>d. index_of d = fst kv) ds)" if "kv \<in> set ?acc" for kv
  proof -
    have "distinct (map fst ?acc)" using acc bt_valid_distinct by blast
    then have "map_of ?acc (fst kv) = Some (snd kv)" using that by simp
    then have "snd kv = fold merge_delta (filter (\<lambda>d. index_of d = fst kv) ds) new_call" using acc by (simp split: if_splits)
    then show ?thesis by (simp add: finish_merged)
  qed
  then have "finish_calls ?acc = map (\<lambda>i. assembled_call (filter (\<lambda>d. index_of d = i) ds)) (map fst ?acc)"
    by (simp add: finish_calls_def)
  then show ?thesis by (simp only: keys assembled_calls_def)
qed

subsection \<open>The loop\<close>

definition acc_of :: "chunk list \<Rightarrow> stream_acc" where
  "acc_of cs =
     \<lparr>sa_content = concat (map (or_empty \<circ> cc_content) (chunk_choices cs)),
      sa_reasoning = concat (map (or_empty \<circ> cc_reasoning) (chunk_choices cs)),
      sa_calls = fold push_delta (concat (List.map_filter cc_tool_calls (chunk_choices cs))) [],
      sa_usage = last_some (map ck_usage (filter (\<lambda>c. ck_choices c \<noteq> []) cs))\<rparr>"

lemma stream_map_filter_append: "List.map_filter f (xs @ ys) = List.map_filter f xs @ List.map_filter f ys"
  by (induction xs) (auto simp: List.map_filter_simps split: option.splits)

lemma take_chunk_acc: "take_chunk c (acc_of cs, delta_events cs) = (acc_of (cs @ [c]), delta_events (cs @ [c]))"
  by (cases "ck_choices c")
    (auto simp: take_chunk_def acc_of_def delta_events_def chunk_choices_def stream_map_filter_append List.map_filter_simps last_some_def
      split: option.splits)

lemma leading_simps [simp]:
  "leading_chunks [] = []"
  "leading_chunks (SChunk c # items) = c # leading_chunks items"
  "leading_chunks (SError e # items) = []"
  "leading_chunks (SCancel # items) = []"
  by (simp_all add: leading_chunks_def List.map_filter_simps)

lemma consume_loop_exact:
  "consume_loop items (acc_of cs, delta_events cs) =
    (stream_end (assembled (cs @ leading_chunks items)) (dropWhile is_chunk items), delta_events (cs @ leading_chunks items))"
proof (induction items arbitrary: cs)
  case Nil
  then show ?case by (simp add: assembled_def acc_of_def finish_calls_exact)
next
  case (Cons x items)
  then show ?case by (cases x) (simp_all add: take_chunk_acc)
qed

lemma consume_parts:
  "consume_stream items =
    (stream_end (assembled (leading_chunks items)) (dropWhile is_chunk items), delta_events (leading_chunks items))"
proof -
  have "acc_of [] = \<lparr>sa_content = [], sa_reasoning = [], sa_calls = [], sa_usage = None\<rparr>" "delta_events [] = []"
    by (simp_all add: acc_of_def delta_events_def chunk_choices_def last_some_def List.map_filter_simps)
  then show ?thesis using consume_loop_exact [of items "[]"] by (simp add: consume_stream_def)
qed

text \<open>
  C36. Consuming a stream: the chunks before the first error or cancel are taken in order; content and
  reasoning are the concatenation of their deltas, the tool calls are grouped by index in ascending
  order whatever the interleaving, each with the concatenation of its argument fragments and the last
  id and name sent for it; exactly the deltas of these chunks were emitted. An error or a cancel yields
  no partial answer.
\<close>

theorem consume_stream_exact:
  "fst (consume_stream items) = stream_end (assembled (leading_chunks items)) (dropWhile is_chunk items) \<and>
    snd (consume_stream items) = delta_events (leading_chunks items)"
  by (simp add: consume_parts)

text \<open>
  A chunk without choices is skipped whole, its usage included: a usage report that arrives in a
  closing chunk of its own (the form the requested usage option documents) is not seen.
\<close>

theorem usage_chunk_skipped:
  "ck_choices c = [] \<Longrightarrow> consume_stream (map SChunk cs @ [SChunk c]) = consume_stream (map SChunk cs)"
proof -
  assume c: "ck_choices c = []"
  have d: "dropWhile is_chunk (map SChunk xs) = []" for xs by (induction xs) auto
  have t: "leading_chunks (map SChunk xs) = xs" for xs by (induction xs) auto
  have "assembled (cs @ [c]) = assembled cs" "delta_events (cs @ [c]) = delta_events cs"
    using c by (simp_all add: assembled_def delta_events_def chunk_choices_def stream_map_filter_append List.map_filter_simps)
  moreover have "map SChunk cs @ [SChunk c] = map SChunk (cs @ [c])" by simp
  ultimately show ?thesis unfolding consume_parts by (simp only: d t)
qed

theorem usage_chunk_skipped_witness:
  "consume_stream [SChunk \<lparr>ck_choices = [], ck_usage = Some \<lparr>us_prompt = 7, us_completion = 3, us_cache_hit = None\<rparr>\<rparr>] = consume_stream []"
  using usage_chunk_skipped [of "\<lparr>ck_choices = [], ck_usage = Some \<lparr>us_prompt = 7, us_completion = 3, us_cache_hit = None\<rparr>\<rparr>" "[]"]
  by simp

end
