(* ===== verification/Acquisition.thy ===== *)
theory Acquisition
  imports Failover Stream_Consume
begin

text \<open>
  The acquisition loop of a round (\<open>acquire_stream\<close>, \<open>count_recent_retries\<close>, \<open>retry_keep_since\<close>,
  \<open>flush_retry_records\<close> and \<open>step_failover\<close> of \<open>kallip-runtime/src/acquisition.rs\<close>): open a stream with
  retries, consume it, retry a mid-stream drop in place while the endpoint's budget lasts, otherwise
  advance the failover chain.

  What the world does in one iteration is a record \<open>acq_turn\<close>: the answers to the sends (a function of
  the client, the messages and the time), how long opening and consuming take, whether the cancel token
  has fired when the chain is to be advanced or while the loop sleeps, and by how much the sleep
  overruns. The wall clock is a count of nanoseconds that the loop carries along; readings between two
  waits see one instant, the epoch seconds are its integer part and the jitter its sub-second part. The
  loop may run for ever, so it takes fuel and returns None when the fuel is used up.
\<close>

section \<open>The loop\<close>

record ('m, 'b) acq_turn =
  at_retry :: "'b chat_client \<Rightarrow> 'm list \<Rightarrow> nat \<Rightarrow> stream_item list retry_env"
  at_open :: nat
  at_consume :: nat
  at_cancelled :: bool
  at_advance :: nat
  at_cancel_sleep :: bool
  at_oversleep :: nat
  at_llm :: "'b chat_client \<Rightarrow> nat \<Rightarrow> 'm llm"

record ('m, 'f, 'b) acq_deps =
  ad_ops :: "'m chat_ops"
  ad_est :: "string \<Rightarrow> nat"
  ad_ratio :: "'f ratio_ops"
  ad_provider_error :: "'b chat_client \<Rightarrow> string \<Rightarrow> string"

datatype acquire_result = AcqConsumed stream_consumed | AcqOutcome agent_outcome | AcqError string | AcqPanic

datatype acq_event =
    RetryEvent retry_event
  | StreamEvent stream_event
  | StreamReset string nat nat nat
  | FailoverEvent string string string

datatype 'm failover_step = StepAdvanced "'m list" | StepDone acquire_result

definition epoch :: "nat \<Rightarrow> nat" where
  "epoch t = t div 10 ^ 9"

definition window_secs :: "('m, 'd, 'f, 'b) llm_ctx \<Rightarrow> nat" where
  "window_secs ctx = rp_retry_timeout (cf_retry_policy (lc_config ctx)) div 10 ^ 9"

definition count_recent_retries :: "('m, 'd, 'f, 'b) llm_ctx \<Rightarrow> string \<Rightarrow> nat \<Rightarrow> nat" where
  "count_recent_retries ctx endpoint t =
     length (filter (\<lambda>r. rr_endpoint r = Some endpoint \<and> epoch t < rr_timestamp r + window_secs ctx)
       (retry_log (ac_store (lc_agent ctx)))) mod 2 ^ 32"

definition retry_keep_since :: "('m, 'd, 'f, 'b) llm_ctx \<Rightarrow> nat \<Rightarrow> nat" where
  "retry_keep_since ctx t = epoch t - window_secs ctx"

definition store_retries :: "retry_record list \<Rightarrow> nat \<Rightarrow> ('m, 'd, 'f, 'b) llm_ctx \<Rightarrow> ('m, 'd, 'f, 'b) llm_ctx" where
  "store_retries rs t ctx =
     (let a = lc_agent ctx
      in ctx\<lparr>lc_agent := persist (a\<lparr>ac_store := record_retries rs (retry_keep_since ctx t) (ac_store a)\<rparr>)\<rparr>)"

definition flush_retry_records :: "retry_record list \<Rightarrow> nat \<Rightarrow> ('m, 'd, 'f, 'b) llm_ctx \<Rightarrow> ('m, 'd, 'f, 'b) llm_ctx" where
  "flush_retry_records rs t ctx = (if rs = [] then ctx else store_retries rs t ctx)"

definition step_failover ::
  "('m, 'f, 'b) acq_deps \<Rightarrow> ('m, 'b) acq_turn \<Rightarrow> 'm list \<Rightarrow> string \<Rightarrow> ('m, 'd, 'f, 'b) llm_ctx
    \<Rightarrow> 'm failover_step \<times> ('m, 'd, 'f, 'b) llm_ctx \<times> acq_event list" where
  "step_failover d turn ms trigger ctx =
     (let (out, ctx') = advance_failover (ad_ops d) (ad_est d) (ad_ratio d) (at_llm turn) (at_cancelled turn) ms trigger ctx
      in case out of
           Advanced p q ms' \<Rightarrow> (StepAdvanced ms', ctx', [FailoverEvent p q trigger])
         | ChainExhausted why t \<Rightarrow> (StepDone (AcqOutcome (FailoverChainExhausted why t)), ctx', [])
         | FailoverCancelled \<Rightarrow> (StepDone (AcqOutcome AgentCancelled), ctx', [])
         | FailoverBudget c b \<Rightarrow> (StepDone (AcqOutcome (TokenBudgetExceeded c b)), ctx', []))"

text \<open>The two arms that call \<open>step_failover\<close>: continue with the new messages or return.\<close>

definition follow_failover ::
  "('m, 'f, 'b) acq_deps \<Rightarrow> ('m, 'b) acq_turn \<Rightarrow> 'm list \<Rightarrow> string \<Rightarrow> nat \<Rightarrow> acq_event list \<Rightarrow> ('m, 'd, 'f, 'b) llm_ctx
    \<Rightarrow> (acquire_result + 'm list) \<times> nat \<times> ('m, 'd, 'f, 'b) llm_ctx \<times> acq_event list" where
  "follow_failover d turn ms trigger t evs ctx =
     (case step_failover d turn ms trigger ctx of
        (StepAdvanced ms', ctx', evs') \<Rightarrow> (Inr ms', t + at_advance turn, ctx', evs @ evs')
      | (StepDone r, ctx', evs') \<Rightarrow> (Inl r, t + at_advance turn, ctx', evs @ evs'))"

definition drop_record :: "('m, 'd, 'f, 'b) llm_ctx \<Rightarrow> nat \<Rightarrow> string \<Rightarrow> string \<Rightarrow> nat \<Rightarrow> nat \<Rightarrow> nat \<Rightarrow> retry_record" where
  "drop_record ctx round endpoint e prior delay t =
     \<lparr>rr_timestamp = epoch t, rr_round = round, rr_attempt = of_nat (prior + 1),
      rr_max_attempts = of_nat (rp_max_retries (cf_retry_policy (lc_config ctx))), rr_error = e, rr_delay = delay,
      rr_endpoint = Some endpoint, rr_kind = Transport, rr_quota_reset = None\<rparr>"

text \<open>The arm for a mid-stream drop, at time \<open>t\<close> and with the records of the opening already flushed.\<close>

definition after_drop ::
  "('m, 'f, 'b) acq_deps \<Rightarrow> ('m, 'b) acq_turn \<Rightarrow> nat \<Rightarrow> string \<Rightarrow> 'm list \<Rightarrow> string \<Rightarrow> nat \<Rightarrow> acq_event list \<Rightarrow> ('m, 'd, 'f, 'b) llm_ctx
    \<Rightarrow> (acquire_result + 'm list) \<times> nat \<times> ('m, 'd, 'f, 'b) llm_ctx \<times> acq_event list" where
  "after_drop d turn round endpoint ms e t evs ctx =
     (let prior = count_recent_retries ctx endpoint t;
          p = cf_retry_policy (lc_config ctx)
      in if rp_max_retries p \<le> prior
         then follow_failover d turn ms (ad_provider_error d (lc_client ctx) e) t
                (evs @ [StreamReset e (prior + 1) (rp_max_retries p) 0]) ctx
         else (let delay = backoff_delay p prior (t mod 10 ^ 9);
                   evs' = evs @ [StreamReset e (prior + 1) (rp_max_retries p) delay];
                   t' = t + delay + at_oversleep turn
               in if at_cancel_sleep turn then (Inl (AcqOutcome AgentCancelled), t, ctx, evs')
                  else (Inr ms, t', store_retries [drop_record ctx round endpoint e prior delay t] t' ctx, evs')))"

text \<open>One iteration: \<open>Inl\<close> returns, \<open>Inr\<close> goes round again with these messages.\<close>

definition acquire_step ::
  "('m, 'f, 'b) acq_deps \<Rightarrow> ('m, 'b) acq_turn \<Rightarrow> nat \<Rightarrow> 'm list \<Rightarrow> nat \<Rightarrow> ('m, 'd, 'f, 'b) llm_ctx
    \<Rightarrow> (acquire_result + 'm list) \<times> nat \<times> ('m, 'd, 'f, 'b) llm_ctx \<times> acq_event list" where
  "acquire_step d turn round ms t ctx =
     (let endpoint = pf_endpoint (current_profile (lc_failover ctx));
          prior = count_recent_retries ctx endpoint t;
          (res, rs, revs) = stream_with_retry (at_retry turn (lc_client ctx) ms t) (cf_retry_policy (lc_config ctx)) round prior endpoint;
          t1 = t + at_open turn;
          evs = map RetryEvent revs
      in case res of
           RFatal e \<Rightarrow> (Inl (AcqError e), t1, flush_retry_records rs t1 ctx, evs)
         | RFailover e \<Rightarrow> follow_failover d turn ms e t1 evs (flush_retry_records rs t1 ctx)
         | RCancelled \<Rightarrow> (Inl (AcqOutcome AgentCancelled), t1, flush_retry_records rs t1 ctx, evs)
         | RPanic \<Rightarrow> (Inl AcqPanic, t1, ctx, evs)
         | ROk items \<Rightarrow>
             (let (out, sevs) = consume_stream items;
                  t2 = t1 + at_consume turn;
                  ctx' = flush_retry_records rs t2 ctx;
                  evs' = evs @ map StreamEvent sevs
              in case out of
                   StreamCompleted c \<Rightarrow> (Inl (AcqConsumed c), t2, ctx', evs')
                 | StreamCancelled \<Rightarrow> (Inl (AcqOutcome AgentCancelled), t2, ctx', evs')
                 | StreamTransient e \<Rightarrow> after_drop d turn round endpoint ms e t2 evs' ctx'))"

fun acquire_loop ::
  "('m, 'f, 'b) acq_deps \<Rightarrow> (nat \<Rightarrow> ('m, 'b) acq_turn) \<Rightarrow> nat \<Rightarrow> nat \<Rightarrow> nat \<Rightarrow> 'm list \<Rightarrow> nat \<Rightarrow> ('m, 'd, 'f, 'b) llm_ctx \<Rightarrow> acq_event list
    \<Rightarrow> (acquire_result \<times> ('m, 'd, 'f, 'b) llm_ctx \<times> acq_event list) option" where
  "acquire_loop d world round 0 i ms t ctx evs = None"
| "acquire_loop d world round (Suc n) i ms t ctx evs =
     (case acquire_step d (world i) round ms t ctx of
        (Inl r, t', ctx', evs') \<Rightarrow> Some (r, ctx', evs @ evs')
      | (Inr ms', t', ctx', evs') \<Rightarrow> acquire_loop d world round n (Suc i) ms' t' ctx' (evs @ evs'))"

definition acquire_stream ::
  "('m, 'f, 'b) acq_deps \<Rightarrow> (nat \<Rightarrow> ('m, 'b) acq_turn) \<Rightarrow> nat \<Rightarrow> nat \<Rightarrow> 'm list \<Rightarrow> nat \<Rightarrow> ('m, 'd, 'f, 'b) llm_ctx
    \<Rightarrow> (acquire_result \<times> ('m, 'd, 'f, 'b) llm_ctx \<times> acq_event list) option" where
  "acquire_stream d world round fuel ms t ctx = acquire_loop d world round fuel 0 ms t ctx []"

section \<open>What one iteration keeps\<close>

definition acq_ok :: "'f ratio_ops \<Rightarrow> ('m, 'd, 'f, 'b) llm_ctx \<Rightarrow> bool" where
  "acq_ok rops ctx \<longleftrightarrow> fo_ok (lc_failover ctx) \<and> config_valid rops (lc_config ctx)"

text \<open>The chain as one iteration leaves it: the same, or advanced to the nearest usable profile.\<close>

definition same_chain :: "('m, 'd, 'f, 'b) llm_ctx \<Rightarrow> ('m, 'd, 'f, 'b) llm_ctx \<Rightarrow> bool" where
  "same_chain ctx ctx' \<longleftrightarrow> lc_failover ctx' = lc_failover ctx \<and> lc_config ctx' = lc_config ctx \<and> lc_client ctx' = lc_client ctx \<and>
     lc_reset ctx' = lc_reset ctx"

lemma same_chain_refl [simp]: "same_chain ctx ctx"
  by (simp add: same_chain_def)

lemma same_chain_store [simp]: "same_chain ctx (store_retries rs t ctx)" "same_chain ctx (flush_retry_records rs t ctx)"
  by (simp_all add: same_chain_def store_retries_def flush_retry_records_def Let_def)

lemma store_retries_fields [simp]:
  "lc_failover (store_retries rs t ctx) = lc_failover ctx" "lc_config (store_retries rs t ctx) = lc_config ctx"
  "lc_client (store_retries rs t ctx) = lc_client ctx"
  "lc_failover (flush_retry_records rs t ctx) = lc_failover ctx" "lc_config (flush_retry_records rs t ctx) = lc_config ctx"
  "lc_client (flush_retry_records rs t ctx) = lc_client ctx"
  by (simp_all add: store_retries_def flush_retry_records_def Let_def)

definition chain_step :: "'f ratio_ops \<Rightarrow> ('m, 'd, 'f, 'b) llm_ctx \<Rightarrow> ('m, 'd, 'f, 'b) llm_ctx \<Rightarrow> bool" where
  "chain_step rops ctx ctx' \<longleftrightarrow>
     (let fo = lc_failover ctx; fo' = lc_failover ctx'
      in acq_ok rops ctx' \<and> fo_set fo' = fo_set fo \<and> fo_registry fo' = fo_registry fo \<and> fo_system_prompt fo' = fo_system_prompt fo \<and>
         lc_reset ctx' = lc_reset ctx \<and> cf_retry_policy (lc_config ctx') = cf_retry_policy (lc_config ctx) \<and>
         fo_idx fo \<le> fo_idx fo' \<and> (fo_idx fo' = fo_idx fo \<longrightarrow> same_chain ctx ctx'))"

lemma chain_step_same: "acq_ok rops ctx \<Longrightarrow> same_chain ctx ctx' \<Longrightarrow> chain_step rops ctx ctx'"
  by (simp add: chain_step_def same_chain_def acq_ok_def Let_def)

lemma chain_step_trans: "chain_step rops a b \<Longrightarrow> chain_step rops b c \<Longrightarrow> chain_step rops a c"
  by (auto simp: chain_step_def same_chain_def Let_def)

lemma chain_step_landed: "landed rops ctx ctx' \<Longrightarrow> chain_step rops ctx ctx' \<and> fo_idx (lc_failover ctx) < fo_idx (lc_failover ctx')"
  by (auto simp: landed_def chain_step_def acq_ok_def Let_def)

lemma acq_ok_flush [simp]: "acq_ok rops (flush_retry_records rs t ctx) = acq_ok rops ctx" "acq_ok rops (store_retries rs t ctx) = acq_ok rops ctx"
  by (simp_all add: acq_ok_def)

lemma follow_cases:
  assumes "acq_ok (ad_ratio d) ctx" "follow_failover d turn ms trigger t evs ctx = (r, t', ctx', evs')"
  shows "t \<le> t' \<and> chain_step (ad_ratio d) ctx ctx' \<and> r \<noteq> Inl AcqPanic \<and>
    (is_ok r \<longrightarrow> fo_idx (lc_failover ctx) < fo_idx (lc_failover ctx'))"
proof -
  obtain out c where a: "advance_failover (ad_ops d) (ad_est d) (ad_ratio d) (at_llm turn) (at_cancelled turn) ms trigger ctx = (out, c)"
    by (cases "advance_failover (ad_ops d) (ad_est d) (ad_ratio d) (at_llm turn) (at_cancelled turn) ms trigger ctx") auto
  have "c = ctx \<and> (\<forall>p q ms. out \<noteq> Advanced p q ms) \<or> landed (ad_ratio d) ctx c"
    using advance_cases [of ctx "ad_ratio d" "ad_ops d" "ad_est d" "at_llm turn" "at_cancelled turn" ms trigger] assms(1) a
    by (simp add: acq_ok_def)
  then have "chain_step (ad_ratio d) ctx c \<and> ((\<exists>p q ms. out = Advanced p q ms) \<longrightarrow> fo_idx (lc_failover ctx) < fo_idx (lc_failover c))"
    using chain_step_same [OF assms(1), of ctx] chain_step_landed by fastforce
  then show ?thesis using assms(2) a
    by (cases out) (auto simp: follow_failover_def step_failover_def)
qed

definition no_drop :: "('m, 'b) acq_turn \<Rightarrow> bool" where
  "no_drop turn \<longleftrightarrow> (\<forall>cl ms t k items e. attempt_once (re_send (at_retry turn cl ms t) k) = AStream items \<longrightarrow> SError e \<notin> set items)"

lemma stream_source:
  assumes "stream_with_retry env p round prior endpoint = (ROk items, rs, revs)"
  shows "\<exists>k. attempt_once (re_send env k) = AStream items"
proof -
  have n: "re_prepare_err env = None" using assms by (auto simp: stream_with_retry_def split: option.splits)
  have "0 < max_attempts p prior" by (simp add: max_attempts_def)
  from retry_loop_spec [OF this, of 1 env p round prior endpoint "[]" "[]"] show ?thesis
    using assms n by (auto simp: stream_with_retry_def ends_at_def)
qed

lemma stream_no_panic: "stream_with_retry env p round prior endpoint \<noteq> (RPanic, rs, revs)"
proof
  assume a: "stream_with_retry env p round prior endpoint = (RPanic, rs, revs)"
  then have n: "re_prepare_err env = None" by (auto simp: stream_with_retry_def split: option.splits)
  have "0 < max_attempts p prior" by (simp add: max_attempts_def)
  from retry_loop_spec [OF this, of 1 env p round prior endpoint "[]" "[]"] show False
    using a n by (auto simp: stream_with_retry_def ends_at_def)
qed

lemma transient_has_error: "fst (consume_loop items st) = StreamTransient e \<Longrightarrow> SError e \<in> set items"
  by (induction items st rule: consume_loop.induct) auto

lemma after_drop_cases:
  assumes "acq_ok (ad_ratio d) ctx" "after_drop d turn round endpoint ms e t evs ctx = (r, t', ctx', evs')"
  shows "t \<le> t' \<and> chain_step (ad_ratio d) ctx ctx' \<and> r \<noteq> Inl AcqPanic"
proof (cases "rp_max_retries (cf_retry_policy (lc_config ctx)) \<le> count_recent_retries ctx endpoint t")
  case True
  then show ?thesis using assms(2) follow_cases [OF assms(1)] by (auto simp: after_drop_def Let_def)
next
  case False
  then show ?thesis using assms by (auto simp: after_drop_def Let_def chain_step_same split: if_splits)
qed

lemma acquire_step_cases:
  assumes ok: "acq_ok (ad_ratio d) ctx" and step: "acquire_step d turn round ms t ctx = (r, t', ctx', evs)"
  shows "t \<le> t' \<and> chain_step (ad_ratio d) ctx ctx' \<and> r \<noteq> Inl AcqPanic \<and>
    (is_ok r \<longrightarrow> fo_idx (lc_failover ctx) < fo_idx (lc_failover ctx') \<or> \<not> no_drop turn)"
proof -
  let ?ep = "pf_endpoint (current_profile (lc_failover ctx))"
  let ?env = "at_retry turn (lc_client ctx) ms t"
  let ?t1 = "t + at_open turn"
  obtain res rs revs where s: "stream_with_retry ?env (cf_retry_policy (lc_config ctx)) round (count_recent_retries ctx ?ep t) ?ep = (res, rs, revs)"
    by (cases "stream_with_retry ?env (cf_retry_policy (lc_config ctx)) round (count_recent_retries ctx ?ep t) ?ep") auto
  have flush: "chain_step (ad_ratio d) ctx (flush_retry_records rs u ctx)" for u by (rule chain_step_same [OF ok]) simp
  show ?thesis
  proof (cases res)
    case (RFailover e)
    then have f: "follow_failover d turn ms e ?t1 (map RetryEvent revs) (flush_retry_records rs ?t1 ctx) = (r, t', ctx', evs)"
      using step s by (simp add: acquire_step_def Let_def)
    from follow_cases [OF _ f] ok chain_step_trans [OF flush] show ?thesis by fastforce
  next
    case RPanic
    then show ?thesis using s stream_no_panic by blast
  next
    case (ROk items)
    let ?t2 = "?t1 + at_consume turn"
    let ?c = "flush_retry_records rs ?t2 ctx"
    obtain out sevs where c: "consume_stream items = (out, sevs)" by (cases "consume_stream items") auto
    show ?thesis
    proof (cases out)
      case (StreamTransient e)
      then have f: "after_drop d turn round ?ep ms e ?t2 (map RetryEvent revs @ map StreamEvent sevs) ?c = (r, t', ctx', evs)"
        using step s ROk c by (simp add: acquire_step_def Let_def)
      obtain k where "attempt_once (re_send ?env k) = AStream items" using stream_source [OF s [unfolded ROk]] by blast
      moreover have "SError e \<in> set items" 
        using transient_has_error [OF arg_cong [OF c [unfolded consume_stream_def StreamTransient], of fst, unfolded fst_conv]] .
      ultimately have "\<not> no_drop turn" unfolding no_drop_def by blast
      with after_drop_cases [OF _ f] ok chain_step_trans [OF flush] show ?thesis by fastforce
    qed (use step s ROk c flush in \<open>auto simp: acquire_step_def Let_def\<close>)
  qed (use step s flush in \<open>auto simp: acquire_step_def Let_def\<close>)
qed

lemma acquire_loop_keeps:
  assumes "acq_ok (ad_ratio d) ctx" "acquire_loop d world round n i ms t ctx evs = Some (r, ctx', evs')"
  shows "chain_step (ad_ratio d) ctx ctx' \<and> r \<noteq> AcqPanic"
  using assms
proof (induction n arbitrary: i ms t ctx evs)
  case (Suc n)
  obtain q t1 c1 e1 where s: "acquire_step d (world i) round ms t ctx = (q, t1, c1, e1)"
    by (cases "acquire_step d (world i) round ms t ctx") auto
  note step = acquire_step_cases [OF Suc.prems(1) s]
  show ?case
  proof (cases q)
    case (Inl r1)
    then show ?thesis using Suc.prems(2) s step by auto
  next
    case (Inr ms1)
    then have l: "acquire_loop d world round n (Suc i) ms1 t1 c1 (evs @ e1) = Some (r, ctx', evs')" using Suc.prems(2) s by simp
    have "acq_ok (ad_ratio d) c1" using step by (simp add: chain_step_def Let_def)
    from Suc.IH [OF this l] step chain_step_trans show ?thesis by blast
  qed
qed simp

lemma acquire_loop_finishes:
  assumes "acq_ok (ad_ratio d) ctx" "\<And>j. i + k \<le> j \<Longrightarrow> no_drop (world j)"
    "k + profile_count (lc_failover ctx) \<le> n + fo_idx (lc_failover ctx)"
  shows "acquire_loop d world round n i ms t ctx evs \<noteq> None"
  using assms
proof (induction n arbitrary: i k ms t ctx evs)
  case 0
  then show ?case by (auto simp: acq_ok_def fo_ok_def)
next
  case (Suc n)
  obtain q t1 c1 e1 where s: "acquire_step d (world i) round ms t ctx = (q, t1, c1, e1)"
    by (cases "acquire_step d (world i) round ms t ctx") auto
  note step = acquire_step_cases [OF Suc.prems(1) s]
  show ?case
  proof (cases q)
    case (Inr ms1)
    have ok: "acq_ok (ad_ratio d) c1" and same: "profile_count (lc_failover c1) = profile_count (lc_failover ctx)"
      and idx: "fo_idx (lc_failover ctx) \<le> fo_idx (lc_failover c1)"
      using step by (auto simp: chain_step_def profile_count_def Let_def)
    have "acquire_loop d world round n (Suc i) ms1 t1 c1 (evs @ e1) \<noteq> None"
    proof (rule Suc.IH [OF ok, where k = "k - 1"])
      show "no_drop (world j)" if "Suc i + (k - 1) \<le> j" for j using that by (intro Suc.prems(2)) simp
      show "k - 1 + profile_count (lc_failover c1) \<le> n + fo_idx (lc_failover c1)"
      proof (cases k)
        case 0
        then have "fo_idx (lc_failover ctx) < fo_idx (lc_failover c1)" using step Inr Suc.prems(2) [of i] by simp
        then show ?thesis using Suc.prems(3) same 0 by simp
      next
        case (Suc k')
        then show ?thesis using Suc.prems(3) same idx by simp
      qed
    qed
    then show ?thesis using s Inr by simp
  qed (simp add: s)
qed

section \<open>Properties\<close>

text \<open>
  Whatever the endpoints answer, an acquisition that returns keeps the failover state and the
  configuration valid and never reaches the unreachable arm of the retry loop; the chain keeps its set,
  its registry and its retry policy, and only moves forward: with the index unchanged, the client, the
  configuration and the published snapshot are unchanged.
\<close>

theorem acquire_keeps_chain:
  assumes "acq_ok (ad_ratio d) ctx" "acquire_stream d world round fuel ms t ctx = Some (r, ctx', evs)"
  shows "chain_step (ad_ratio d) ctx ctx' \<and> r \<noteq> AcqPanic"
  using acquire_loop_keeps [OF assms(1)] assms(2) by (simp add: acquire_stream_def)

text \<open>
  C32. An acquisition finishes: if from some iteration \<open>k\<close> on no opened stream is dropped half-way, then at
  most \<open>k\<close> iterations and one per remaining profile give a result, whatever else fails.
\<close>

theorem acquire_finishes:
  assumes "acq_ok (ad_ratio d) ctx" "\<forall>j \<ge> k. no_drop (world j)"
  shows "\<exists>r ctx' evs. acquire_stream d world round (k + profile_count (lc_failover ctx) - fo_idx (lc_failover ctx)) ms t ctx = Some (r, ctx', evs)"
proof -
  have "acquire_loop d world round (k + profile_count (lc_failover ctx) - fo_idx (lc_failover ctx)) 0 ms t ctx [] \<noteq> None"
    by (rule acquire_loop_finishes [OF assms(1), where k = k]) (use assms in auto)
  then show ?thesis by (auto simp: acquire_stream_def)
qed

section \<open>An endpoint that keeps dropping\<close>

text \<open>The backoff without jitter, summed over the first \<open>q\<close> retries.\<close>

definition waits :: "retry_policy \<Rightarrow> nat \<Rightarrow> nat" where
  "waits p q = (\<Sum>k<q. capped_delay p k)"

definition starved :: "retry_policy \<Rightarrow> bool" where
  "starved p \<longleftrightarrow> RETRY_LOG_KEEP < rp_max_retries p \<or> rp_retry_timeout p div 10 ^ 9 * 10 ^ 9 \<le> waits p (rp_max_retries p)"

definition drops :: "('m, 'b) acq_turn \<Rightarrow> bool" where
  "drops turn \<longleftrightarrow> \<not> at_cancel_sleep turn \<and>
     (\<forall>cl ms t. let env = at_retry turn cl ms t
        in re_prepare_err env = None \<and> \<not> re_cancel_send env 1 \<and>
           (\<exists>items e sevs. attempt_once (re_send env 1) = AStream items \<and> consume_stream items = (StreamTransient e, sevs)))"

text \<open>Every record still in the window is followed by so few others that their waits fit in the time passed since.\<close>

fun spaced :: "retry_policy \<Rightarrow> nat \<Rightarrow> nat list \<Rightarrow> bool" where
  "spaced p t [] = True"
| "spaced p t (s # ss) =
     ((epoch t < s + rp_retry_timeout p div 10 ^ 9 \<longrightarrow> s * 10 ^ 9 + waits p (Suc (length ss)) \<le> t) \<and> spaced p t ss)"

definition stamps :: "string \<Rightarrow> retry_record list \<Rightarrow> nat list" where
  "stamps endpoint log = map rr_timestamp (filter (\<lambda>r. rr_endpoint r = Some endpoint) log)"

lemma waits_mono: "q \<le> q' \<Longrightarrow> waits p q \<le> waits p q'"
  unfolding waits_def by (rule sum_mono2) auto

lemma capped_delay_mono: "k \<le> k' \<Longrightarrow> capped_delay p k \<le> capped_delay p k'"
proof -
  assume a: "k \<le> k'"
  have "shift_factor k \<le> shift_factor k'"
  proof (cases "k' < 32")
    case True
    then show ?thesis using a by (simp add: shift_factor_def)
  next
    case False
    have "2 ^ k \<le> (2 :: nat) ^ 31" if "k < 32" using that by (intro power_increasing) auto
    then show ?thesis using False by (auto simp: shift_factor_def)
  qed
  then have "rp_base_delay p * shift_factor k \<le> rp_base_delay p * shift_factor k'" by (rule mult_le_mono2)
  then show ?thesis unfolding capped_delay_def by (intro min.mono) auto
qed

lemma epoch_mono: "t \<le> t' \<Longrightarrow> epoch t \<le> epoch t'"
  by (simp add: epoch_def div_le_mono)

lemma spaced_later: "spaced p t ss \<Longrightarrow> t \<le> t' \<Longrightarrow> spaced p t' ss"
  by (induction ss) (use epoch_mono in \<open>fastforce+\<close>)

lemma spaced_filter: "spaced p t ss \<Longrightarrow> spaced p t (filter P ss)"
proof (induction ss)
  case (Cons s ss)
  have "waits p (Suc (length (filter P ss))) \<le> waits p (Suc (length ss))" by (rule waits_mono) simp
  then show ?case using Cons by auto
qed simp

lemma spaced_drop: "spaced p t ss \<Longrightarrow> spaced p t (drop n ss)"
  by (induction ss arbitrary: n) (auto simp: drop_Cons split: nat.splits)

lemma spaced_append:
  assumes "spaced p t ss" "sorted (ss @ [epoch t])" "t + capped_delay p q \<le> t'"
    "q = length (filter (\<lambda>s. epoch t < s + rp_retry_timeout p div 10 ^ 9) ss)"
  shows "spaced p t' (ss @ [epoch t])"
  using assms
proof (induction ss arbitrary: q)
  case Nil
  have "epoch t * 10 ^ 9 \<le> t" by (simp add: epoch_def)
  with Nil show ?case by (simp add: waits_def)
next
  case (Cons s ss)
  let ?in = "\<lambda>s. epoch t < s + rp_retry_timeout p div 10 ^ 9"
  have rest: "spaced p t' (ss @ [epoch t])"
  proof (rule Cons.IH [OF _ _ _ refl])
    have "capped_delay p (length (filter ?in ss)) \<le> capped_delay p q" using Cons.prems(4) by (intro capped_delay_mono) simp
    then show "t + capped_delay p (length (filter ?in ss)) \<le> t'" using Cons.prems(3) by simp
  qed (use Cons.prems in auto)
  have "s * 10 ^ 9 + waits p (Suc (length (ss @ [epoch t]))) \<le> t'" if w: "epoch t' < s + rp_retry_timeout p div 10 ^ 9"
  proof -
    have tt: "t \<le> t'" using Cons.prems(3) by simp
    then have "?in s" using w epoch_mono [OF tt] by simp
    moreover have "\<forall>x \<in> set ss. ?in x" using Cons.prems(2) \<open>?in s\<close> by fastforce
    ultimately have q: "q = Suc (length ss)" using Cons.prems(4) by (simp add: filter_id_conv)
    have "s * 10 ^ 9 + waits p (Suc (length ss)) \<le> t" using Cons.prems(1) \<open>?in s\<close> by simp
    moreover have "waits p (Suc (Suc (length ss))) = waits p (Suc (length ss)) + capped_delay p (Suc (length ss))"
      by (simp add: waits_def)
    ultimately show ?thesis using Cons.prems(3) q by simp
  qed
  with rest show ?case by simp
qed

lemma spaced_few:
  assumes "spaced p t ss" "rp_retry_timeout p div 10 ^ 9 * 10 ^ 9 \<le> waits p m" "0 < m"
  shows "length (filter (\<lambda>s. epoch t < s + rp_retry_timeout p div 10 ^ 9) ss) < m"
  using assms(1)
proof (induction ss)
  case (Cons s ss)
  let ?W = "rp_retry_timeout p div 10 ^ 9"
  show ?case
  proof (cases "epoch t < s + ?W")
    case True
    have "Suc (length ss) < m"
    proof (rule ccontr)
      assume "\<not> Suc (length ss) < m"
      then have "waits p m \<le> waits p (Suc (length ss))" by (intro waits_mono) simp
      then have "(s + ?W) * 10 ^ 9 \<le> t" using Cons.prems True assms(2) by (simp add: algebra_simps)
      then have "(s + ?W) * 10 ^ 9 div 10 ^ 9 \<le> t div 10 ^ 9" by (rule div_le_mono)
      then have "s + ?W \<le> t div 10 ^ 9" by simp
      then show False using True by (simp add: epoch_def)
    qed
    moreover have "length (filter (\<lambda>s. epoch t < s + ?W) (s # ss)) \<le> Suc (length ss)" by (metis length_Cons length_filter_le)
    ultimately show ?thesis by simp
  qed (use Cons in simp)
qed (use assms in simp)

definition dropping :: "retry_policy \<Rightarrow> string \<Rightarrow> nat \<Rightarrow> ('m, 'd, 'f, 'b) llm_ctx \<Rightarrow> bool" where
  "dropping p endpoint t ctx \<longleftrightarrow>
     (let log = retry_log (ac_store (lc_agent ctx))
      in cf_retry_policy (lc_config ctx) = p \<and> pf_endpoint (current_profile (lc_failover ctx)) = endpoint \<and>
         length log \<le> RETRY_LOG_KEEP \<and> spaced p t (stamps endpoint log) \<and> sorted (stamps endpoint log) \<and>
         (\<forall>s \<in> set (stamps endpoint log). s \<le> epoch t))"

lemma dropping_later: "dropping p endpoint t ctx \<Longrightarrow> t \<le> t' \<Longrightarrow> dropping p endpoint t' ctx"
  using epoch_mono [of t t'] by (fastforce simp: dropping_def Let_def intro: spaced_later)

lemma count_stamps:
  assumes "dropping p endpoint t ctx"
  shows "count_recent_retries ctx endpoint t =
    length (filter (\<lambda>s. epoch t < s + rp_retry_timeout p div 10 ^ 9) (stamps endpoint (retry_log (ac_store (lc_agent ctx)))))"
    and "count_recent_retries ctx endpoint t \<le> RETRY_LOG_KEEP"
proof -
  let ?log = "retry_log (ac_store (lc_agent ctx))"
  let ?n = "length (filter (\<lambda>s. epoch t < s + rp_retry_timeout p div 10 ^ 9) (stamps endpoint ?log))"
  have "?n \<le> length ?log"
    unfolding stamps_def by (metis (no_types, lifting) length_filter_le length_map order_trans)
  then have small: "?n \<le> RETRY_LOG_KEEP" using assms by (simp add: dropping_def Let_def)
  have "filter (\<lambda>r. rr_endpoint r = Some endpoint \<and> epoch t < rr_timestamp r + window_secs ctx) ?log =
      filter (\<lambda>r. epoch t < rr_timestamp r + window_secs ctx) (filter (\<lambda>r. rr_endpoint r = Some endpoint) ?log)"
    by (simp add: conj_commute)
  then show "count_recent_retries ctx endpoint t = ?n"
    using assms small unfolding count_recent_retries_def
    by (simp add: stamps_def filter_map o_def window_secs_def dropping_def Let_def RETRY_LOG_KEEP_def)
  with small show "count_recent_retries ctx endpoint t \<le> RETRY_LOG_KEEP" by simp
qed

lemma stamps_recorded:
  assumes "rr_endpoint r = Some endpoint"
  shows "\<exists>n P. stamps endpoint (retry_log (record_retries [r] since s)) =
    drop n (filter P (stamps endpoint (retry_log s) @ [rr_timestamp r]))"
proof -
  let ?ep = "\<lambda>r. rr_endpoint r = Some endpoint"
  have d: "filter Q (drop n xs) = drop (length (filter Q (take n xs))) (filter Q xs)" for Q n and xs :: "retry_record list"
    by (subst (3) append_take_drop_id [symmetric, of _ n]) (simp only: filter_append drop_append, simp)
  have "map rr_timestamp (filter ?ep (filter (\<lambda>r. since \<le> rr_timestamp r) (retry_log s @ [r]))) =
      filter ((\<le>) since) (stamps endpoint (retry_log s) @ [rr_timestamp r])"
    using assms by (simp add: stamps_def filter_map o_def conj_commute)
  then have "stamps endpoint (drop n (filter (\<lambda>r. since \<le> rr_timestamp r) (retry_log s @ [r]))) =
      drop (length (filter ?ep (take n (filter (\<lambda>r. since \<le> rr_timestamp r) (retry_log s @ [r])))))
        (filter ((\<le>) since) (stamps endpoint (retry_log s) @ [rr_timestamp r]))" for n
    unfolding stamps_def [of _ "drop n _"] d drop_map [symmetric] by simp
  then have some: "\<exists>m P. stamps endpoint (drop n (filter (\<lambda>r. since \<le> rr_timestamp r) (retry_log s @ [r]))) =
      drop m (filter P (stamps endpoint (retry_log s) @ [rr_timestamp r]))" for n by blast
  obtain n where "retry_log (record_retries [r] since s) = drop n (filter (\<lambda>r. since \<le> rr_timestamp r) (retry_log s @ [r]))"
    by (cases "RETRY_LOG_KEEP < length (filter (\<lambda>r. since \<le> rr_timestamp r) (retry_log s @ [r]))")
      (simp_all add: record_retries_def Let_def that [of 0] del: filter_append filter.simps length_append)
  then show ?thesis using some [of n] by simp
qed

lemma few_retries:
  assumes inv: "dropping p endpoint t ctx" and "starved p" "retry_policy_ok p"
  shows "count_recent_retries ctx endpoint t < rp_max_retries p"
proof (cases "RETRY_LOG_KEEP < rp_max_retries p")
  case True
  then show ?thesis using count_stamps(2) [OF inv] by simp
next
  case False
  then have w: "rp_retry_timeout p div 10 ^ 9 * 10 ^ 9 \<le> waits p (rp_max_retries p)" using assms(2) by (simp add: starved_def)
  have "1 \<le> rp_retry_timeout p div 10 ^ 9"
    using assms(3) div_le_mono [of "nanos 1" "rp_retry_timeout p" "10 ^ 9"] by (simp add: retry_policy_ok_def nanos_def)
  then have "0 < rp_max_retries p" using w by (cases "rp_max_retries p") (auto simp: waits_def)
  with spaced_few [OF _ w] inv show ?thesis unfolding count_stamps(1) [OF inv] by (simp add: dropping_def Let_def)
qed

lemma record_retries_short: "length (retry_log (record_retries rs since s)) \<le> RETRY_LOG_KEEP"
  by (auto simp: record_retries_def Let_def length_drop simp del: filter_append length_append)

lemma drop_iteration:
  assumes inv: "dropping p endpoint t ctx" and turn: "drops turn" and p: "starved p" "retry_policy_ok p"
  shows "\<exists>t' ctx' evs. acquire_step d turn round ms t ctx = (Inr ms, t', ctx', evs) \<and> dropping p endpoint t' ctx' \<and> same_chain ctx ctx'"
proof -
  let ?env = "at_retry turn (lc_client ctx) ms t"
  let ?t2 = "t + at_open turn + at_consume turn"
  from turn obtain items e sevs where env: "re_prepare_err ?env = None" "\<not> re_cancel_send ?env 1"
      "attempt_once (re_send ?env 1) = AStream items" "consume_stream items = (StreamTransient e, sevs)" "\<not> at_cancel_sleep turn"
    unfolding drops_def Let_def by metis
  have cf: "cf_retry_policy (lc_config ctx) = p" "pf_endpoint (current_profile (lc_failover ctx)) = endpoint"
    using inv by (simp_all add: dropping_def Let_def)
  have open1: "stream_with_retry ?env p round k endpoint = (ROk items, [], [])" for k
    using env(1-3) by (simp add: stream_with_retry_def max_attempts_def)
  have inv2: "dropping p endpoint ?t2 ctx" using inv by (rule dropping_later) simp
  let ?k = "count_recent_retries ctx endpoint ?t2"
  let ?delay = "backoff_delay p ?k (?t2 mod 10 ^ 9)"
  let ?t' = "?t2 + ?delay + at_oversleep turn"
  let ?r = "drop_record ctx round endpoint e ?k ?delay ?t2"
  let ?ctx' = "store_retries [?r] ?t' ctx"
  have step: "\<exists>evs. acquire_step d turn round ms t ctx = (Inr ms, ?t', ?ctx', evs)"
    using few_retries [OF inv2 p] env(4,5)
    by (simp add: acquire_step_def cf open1 Let_def flush_retry_records_def after_drop_def)
  have store': "ac_store (lc_agent ?ctx') = record_retries [?r] (retry_keep_since ctx ?t') (ac_store (lc_agent ctx))"
    by (simp add: store_retries_def Let_def persist_def)
  have "rr_endpoint ?r = Some endpoint" "rr_timestamp ?r = epoch ?t2" by (simp_all add: drop_record_def)
  then obtain n P where st: "stamps endpoint (retry_log (ac_store (lc_agent ?ctx'))) =
      drop n (filter P (stamps endpoint (retry_log (ac_store (lc_agent ctx))) @ [epoch ?t2]))"
    unfolding store' using stamps_recorded by metis
  let ?ss = "stamps endpoint (retry_log (ac_store (lc_agent ctx)))"
  have ss: "sorted (?ss @ [epoch ?t2])" "spaced p ?t2 ?ss" using inv2 by (auto simp: dropping_def Let_def sorted_append)
  have "?t2 + capped_delay p ?k \<le> ?t'" by (simp add: backoff_delay_def)
  from spaced_append [OF ss(2,1) this count_stamps(1) [OF inv2]]
  have sp: "spaced p ?t' (stamps endpoint (retry_log (ac_store (lc_agent ?ctx'))))"
    unfolding st by (intro spaced_drop spaced_filter)
  have so: "sorted (stamps endpoint (retry_log (ac_store (lc_agent ?ctx'))))"
    unfolding st using ss(1) by (intro sorted_wrt_drop sorted_wrt_filter)
  have "x \<le> epoch ?t'" if "x \<in> set (stamps endpoint (retry_log (ac_store (lc_agent ?ctx'))))" for x
  proof -
    have "x \<in> set (?ss @ [epoch ?t2])" using in_set_dropD [OF that [unfolded st]] by (simp only: set_filter mem_Collect_eq)
    then have "x \<le> epoch ?t2" using ss(1) by (auto simp: sorted_append)
    also have "epoch ?t2 \<le> epoch ?t'" by (rule epoch_mono) simp
    finally show ?thesis .
  qed
  moreover have "length (retry_log (ac_store (lc_agent ?ctx'))) \<le> RETRY_LOG_KEEP"
    unfolding store' by (rule record_retries_short)
  ultimately have "dropping p endpoint ?t' ?ctx'" using sp so cf by (simp add: dropping_def Let_def)
  with step show ?thesis by (metis same_chain_store(1))
qed

text \<open>
  A finding. When the waits of a full retry budget take at least as long as the window in which retries
  are counted (as they do for the default policy: 303 against 300 seconds), or when the budget is larger
  than the 20 records the log keeps, the count of recent retries never reaches the budget: an endpoint
  that accepts every request and then drops the stream is retried for ever and the failover chain is
  never advanced.
\<close>

theorem drops_never_fail_over:
  assumes "starved (cf_retry_policy (lc_config ctx))" "retry_policy_ok (cf_retry_policy (lc_config ctx))"
    and "retry_log (ac_store (lc_agent ctx)) = []" and "\<forall>i. drops (world i)"
  shows "acquire_stream d world round fuel ms t ctx = None"
proof -
  let ?p = "cf_retry_policy (lc_config ctx)"
  have "acquire_loop d world round n i ms t c evs = None" if "dropping ?p ep t c" for n i t c evs ep
    using that
  proof (induction n arbitrary: i t c evs)
    case (Suc n)
    from drop_iteration [OF Suc.prems assms(4) [rule_format, of i] assms(1,2)] obtain t' c' e'
      where "acquire_step d (world i) round ms t c = (Inr ms, t', c', e')" "dropping ?p ep t' c'" by metis
    then show ?case using Suc.IH by simp
  qed simp
  moreover have "dropping ?p (pf_endpoint (current_profile (lc_failover ctx))) t ctx"
    using assms(3) by (simp add: dropping_def stamps_def)
  ultimately show ?thesis by (simp add: acquire_stream_def)
qed

definition sample_deps :: "(string, nat, string) acq_deps" where
  "sample_deps = \<lparr>ad_ops = sample_ops, ad_est = length, ad_ratio = percent_ops, ad_provider_error = (\<lambda>_ e. e)\<rparr>"

definition steady_turn :: "stream_item list send_result \<Rightarrow> (string, string) acq_turn" where
  "steady_turn answer =
     \<lparr>at_retry = (\<lambda>_ _ _. \<lparr>re_prepare_err = None, re_send = (\<lambda>_. answer), re_elapsed = (\<lambda>_. 0), re_jitter = (\<lambda>_. 0),
        re_epoch = (\<lambda>_. 0), re_cancel_send = (\<lambda>_. False), re_cancel_wait = (\<lambda>_. False)\<rparr>),
      at_open = 0, at_consume = 0, at_cancelled = False, at_advance = 0, at_cancel_sleep = False, at_oversleep = 0,
      at_llm = (\<lambda>_. sample_llm)\<rparr>"

lemma sample_acq_ok: "acq_ok (ad_ratio sample_deps) sample_llm_ctx"
  using sample_llm_ok by (simp add: acq_ok_def sample_deps_def)

text \<open>An endpoint that refuses the key: the loop walks the chain and stops at its end.\<close>

theorem acquire_finishes_witness:
  "\<exists>r ctx' evs. acquire_stream sample_deps (\<lambda>_. steady_turn (Responded 401 None (Inl ''denied''))) 0 4 [] 0 sample_llm_ctx = Some (r, ctx', evs)"
proof -
  have "\<forall>j \<ge> 0. no_drop ((\<lambda>_. steady_turn (Responded 401 None (Inl ''denied''))) j)"
    by (simp add: no_drop_def steady_turn_def is_retryable_status_def is_server_error_def is_failover_status_def)
  note fin = acquire_finishes [OF sample_acq_ok this, of 0 "[]" 0]
  have n: "0 + profile_count (lc_failover sample_llm_ctx) - fo_idx (lc_failover sample_llm_ctx) = 4"
    by (simp add: sample_failover_defs new_failover_def write_snapshot_def profile_count_def)
  show ?thesis by (rule fin [unfolded n])
qed

theorem acquire_keeps_chain_witness:
  "chain_step percent_ops sample_llm_ctx sample_llm_ctx"
proof -
  have "acquire_stream sample_deps (\<lambda>_. steady_turn (Responded 200 None (Inr []))) 0 1 [] 0 sample_llm_ctx =
      Some (AcqConsumed \<lparr>sc_content = [], sc_reasoning = [], sc_tool_calls = [], sc_usage = None\<rparr>, sample_llm_ctx, [])"
    by (simp add: acquire_stream_def acquire_step_def stream_with_retry_def max_attempts_def steady_turn_def consume_stream_def
        flush_retry_records_def finish_calls_def Let_def)
  from acquire_keeps_chain [OF sample_acq_ok this] show ?thesis by (simp add: sample_deps_def)
qed

lemma default_starved: "starved default_retry_policy"
proof -
  have "capped_delay default_retry_policy k = nanos (min (2 ^ k) 60)" if "k < 10" for k
    using that by (simp add: capped_delay_def default_retry_policy_def nanos_def shift_factor_def DURATION_MAX_def min_def)
  then have "waits default_retry_policy 10 = (\<Sum>k<10. nanos (min (2 ^ k) 60))" unfolding waits_def by (intro sum.cong) auto
  also have "\<dots> = nanos 303" by (simp add: nanos_def lessThan_nat_numeral)
  finally show ?thesis by (simp add: starved_def default_retry_policy_def nanos_def)
qed

theorem drops_never_fail_over_witness:
  "\<forall>fuel. acquire_stream sample_deps (\<lambda>_. steady_turn (Responded 200 None (Inr [SError ''reset'']))) 0 fuel [] 0 sample_llm_ctx = None"
proof
  fix fuel
  have p: "cf_retry_policy (lc_config sample_llm_ctx) = default_retry_policy"
    by (simp add: sample_llm_ctx_def sample_config_def default_config_def)
  have ok: "starved (cf_retry_policy (lc_config sample_llm_ctx))" "retry_policy_ok (cf_retry_policy (lc_config sample_llm_ctx))"
    unfolding p by (rule default_starved) (simp add: retry_policy_ok_def default_retry_policy_def nanos_def)
  have log: "retry_log (ac_store (lc_agent sample_llm_ctx)) = []"
    by (simp add: sample_llm_ctx_def sample_ctx_def push_turn_def new_store_def Let_def)
  have "drops (steady_turn (Responded 200 None (Inr [SError ''reset''])))"
    by (simp add: drops_def steady_turn_def consume_stream_def)
  then show "acquire_stream sample_deps (\<lambda>_. steady_turn (Responded 200 None (Inr [SError ''reset'']))) 0 fuel [] 0 sample_llm_ctx = None"
    by (intro drops_never_fail_over [OF ok log]) simp
qed

end
