(* ===== verification/Agent_Task.thy ===== *)
theory Agent_Task
  imports Acquisition Tool_Rounds
begin

text \<open>
  The life of one agent task (\<open>kallip-runtime/src/{lifecycle,runner,agent_task}.rs\<close>): the round loop, the
  heartbeat loop \<open>run_and_report\<close> with its timers, and the arms of the outer loop.

  What happens outside the task is data: a record \<open>round_world\<close> for each round (queued interjections,
  whether spilling works, what other agents charge and what the operator decides, the answers of the
  LLM, the fates of the tool calls and what context tools did to the store), and a \<open>wake_world\<close> for each
  iteration of the heartbeat loop. The debug assertion of \<open>LifecycleState::transition\<close> is the ghost flag
  \<open>tk_illegal\<close>. Deadlines are nanoseconds; the spawned sleeps only deliver a permit that the arms check
  against the armed deadline, so they are the choice of the arm to run.
\<close>

section \<open>Lifecycle\<close>

datatype parked_reason =
    PkChainExhausted chain_exhaustion string
  | PkFatal string
  | PkTokenBudget u64 u64
  | PkMaxRounds
  | PkTransientExhausted

datatype lifecycle_state =
    LcRunning
  | LcWaiting nat
  | LcIdle
  | LcParked parked_reason nat
  | LcRetrying nat nat nat

fun legal :: "lifecycle_state \<Rightarrow> lifecycle_state \<Rightarrow> bool" where
  "legal LcIdle nxt \<longleftrightarrow> nxt = LcRunning"
| "legal LcRunning nxt \<longleftrightarrow> nxt \<noteq> LcRunning"
| "legal (LcWaiting t) nxt \<longleftrightarrow> (case nxt of LcRunning \<Rightarrow> True | LcWaiting _ \<Rightarrow> True | LcIdle \<Rightarrow> True | _ \<Rightarrow> False)"
| "legal (LcParked r t) nxt \<longleftrightarrow> (case nxt of LcRunning \<Rightarrow> True | LcIdle \<Rightarrow> True | _ \<Rightarrow> False)"
| "legal (LcRetrying a m t) nxt \<longleftrightarrow> (case nxt of LcRunning \<Rightarrow> True | LcRetrying _ _ _ \<Rightarrow> True | LcIdle \<Rightarrow> True | _ \<Rightarrow> False)"

section \<open>The task\<close>

record ('m, 'd, 'f, 'b) live_task =
  tk_llm :: "('m, 'd, 'f, 'b) llm_ctx"
  tk_exec :: exec_state
  tk_lifecycle :: lifecycle_state
  tk_illegal :: bool
  tk_transient_fails :: nat
  tk_retry_at :: "nat option"
  tk_wait_until :: "nat option"
  tk_wait_armed_secs :: nat

abbreviation task_agent :: "('m, 'd, 'f, 'b) live_task \<Rightarrow> ('m, 'd) agent_ctx" where
  "task_agent tk \<equiv> lc_agent (tk_llm tk)"

abbreviation task_config :: "('m, 'd, 'f, 'b) live_task \<Rightarrow> 'f runtime_config" where
  "task_config tk \<equiv> lc_config (tk_llm tk)"

definition apply_transition :: "lifecycle_state \<Rightarrow> ('m, 'd, 'f, 'b) live_task \<Rightarrow> ('m, 'd, 'f, 'b) live_task" where
  "apply_transition nxt tk = tk\<lparr>tk_lifecycle := nxt, tk_illegal := (tk_illegal tk \<or> \<not> legal (tk_lifecycle tk) nxt)\<rparr>"

definition on_agent :: "(('m, 'd) agent_ctx \<Rightarrow> ('m, 'd) agent_ctx) \<Rightarrow> ('m, 'd, 'f, 'b) live_task \<Rightarrow> ('m, 'd, 'f, 'b) live_task" where
  "on_agent f tk = tk\<lparr>tk_llm := (tk_llm tk)\<lparr>lc_agent := f (task_agent tk)\<rparr>\<rparr>"

record ('m, 'd, 'f, 'b) task_deps =
  td_acq :: "('m, 'f, 'b) acq_deps"
  td_api :: "'m chat_api"
  td_exec :: exec_env
  td_policy :: agent_policy
  td_fmt :: "u64 \<Rightarrow> string"
  td_render :: "'m list \<Rightarrow> string + string"
  td_render_tools :: "'d list \<Rightarrow> string + string"
  td_system :: "string \<Rightarrow> 'm"

datatype agent_event =
    Busy | EvIdle | EvWaiting nat | Interrupted | TaskCancelled | EvMaxRounds
  | EvTokenBudget u64 u64
  | EvChainExhausted chain_exhaustion string "(nat \<times> nat \<times> nat) option"
  | EvError string
  | AcqEvent acq_event
  | ToolEvent tool_event

section \<open>External messages\<close>

definition DEFAULT_MESSAGE_FULL_TOKENS :: nat where
  "DEFAULT_MESSAGE_FULL_TOKENS = DEFAULT_TOOL_RESULT_FULL_TOKENS"

definition cut_message :: "(string \<Rightarrow> nat) \<Rightarrow> string \<Rightarrow> string \<Rightarrow> string" where
  "cut_message est str path =
     (let full_est = est str;
          tot = length str;
          chars_cap = DEFAULT_TOOL_RESULT_TRUNCATED_TOKENS * tot div full_est;
          parts = converge_under_cap est str chars_cap DEFAULT_TOOL_RESULT_TRUNCATED_TOKENS
      in kept_text parts @ newline # ''[... message truncated: kept first '' @ show_nat (fst parts) @ '' and last ''
           @ show_nat (fst (snd parts)) @ '' of '' @ show_nat tot @ '' chars (~'' @ show_nat (est (kept_text parts))
           @ '' of ~'' @ show_nat full_est @ '' estimated tokens). Full original saved at '' @ path
           @ '' (a temporary file '' @ [CHR 0xE2, CHR 0x80, CHR 0x94] @ '' archive it yourself if you need it long-term). If you need the rest, ''
           @ ''ask the sender to resend the content in smaller parts ...]'')"

text \<open>The spill target answers with the path of the saved original, or fails.\<close>

definition cap_external_message :: "(string \<Rightarrow> nat) \<Rightarrow> (string \<Rightarrow> string option) \<Rightarrow> string \<Rightarrow> string" where
  "cap_external_message est spill str =
     (if est str \<le> DEFAULT_MESSAGE_FULL_TOKENS then str
      else case spill str of Some path \<Rightarrow> cut_message est str path | None \<Rightarrow> str)"

definition record_message ::
  "('m, 'd, 'f, 'b) task_deps \<Rightarrow> string \<Rightarrow> ('m, 'd, 'f, 'b) live_task \<Rightarrow> ('m, 'd, 'f, 'b) live_task" where
  "record_message d str = on_agent (\<lambda>a. snd (record_turn (ad_ops (td_acq d)) [mk_user (ad_ops (td_acq d)) str] a))"

definition record_message_turn ::
  "('m, 'd, 'f, 'b) task_deps \<Rightarrow> (string \<Rightarrow> string option) \<Rightarrow> string \<Rightarrow> ('m, 'd, 'f, 'b) live_task \<Rightarrow> ('m, 'd, 'f, 'b) live_task" where
  "record_message_turn d spill str = record_message d (cap_external_message (ad_est (td_acq d)) spill str)"

section \<open>The round loop\<close>

record ('m, 'd, 'b) round_world =
  rw_interjected :: "string list"
  rw_spill :: "string \<Rightarrow> string option"
  rw_tokens :: "token_budget \<Rightarrow> token_budget"
  rw_approvals :: "approval_store \<Rightarrow> approval_store"
  rw_cancel_estimate :: bool
  rw_llm :: "nat \<Rightarrow> 'm llm"
  rw_cancelled :: bool
  rw_acquire :: "nat \<Rightarrow> ('m, 'b) acq_turn"
  rw_clock :: nat
  rw_fates :: "nat \<Rightarrow> fate"
  rw_tools :: "('m, 'd) context_store \<Rightarrow> ('m, 'd) context_store"

datatype round_outcome = RBreak break_until | BareAssistant string | Park agent_outcome

definition interjection_text :: "(string \<Rightarrow> nat) \<Rightarrow> (string \<Rightarrow> string option) \<Rightarrow> string list \<Rightarrow> string" where
  "interjection_text est spill ts =
     join_lines (map (\<lambda>t. ''[Interjected message]'' @ newline # cap_external_message est spill t @ newline # ''[/Interjected message]'') ts)"

definition drain_interjections ::
  "('m, 'd, 'f, 'b) task_deps \<Rightarrow> ('m, 'd, 'b) round_world \<Rightarrow> ('m, 'd, 'f, 'b) live_task \<Rightarrow> ('m, 'd, 'f, 'b) live_task" where
  "drain_interjections d w tk =
     (if rw_interjected w = [] then tk
      else record_message d (interjection_text (ad_est (td_acq d)) (rw_spill w) (rw_interjected w)) tk)"

text \<open>What other agents and the operator did since the last round.\<close>

definition outside :: "('m, 'd, 'b) round_world \<Rightarrow> ('m, 'd, 'f, 'b) live_task \<Rightarrow> ('m, 'd, 'f, 'b) live_task" where
  "outside w tk =
     on_agent (\<lambda>a. a\<lparr>ac_tokens := rw_tokens w (ac_tokens a)\<rparr>)
       (tk\<lparr>tk_exec := (tk_exec tk)\<lparr>xs_approvals := rw_approvals w (xs_approvals (tk_exec tk))\<rparr>\<rparr>)"

definition inject_notifications ::
  "('m, 'd, 'f, 'b) task_deps \<Rightarrow> ('m, 'd, 'f, 'b) live_task \<Rightarrow> ('m, 'd, 'f, 'b) live_task" where
  "inject_notifications d tk =
     (let (ns, approvals) = drain_notifications (xs_approvals (tk_exec tk));
          tk1 = tk\<lparr>tk_exec := (tk_exec tk)\<lparr>xs_approvals := approvals\<rparr>\<rparr>
      in if ns = [] then tk1 else record_message d (format_approval_notifications ns) tk1)"

definition prompt_estimate :: "('m, 'd, 'f, 'b) task_deps \<Rightarrow> ('m, 'd, 'f, 'b) live_task \<Rightarrow> nat" where
  "prompt_estimate d tk =
     (let s = ac_store (task_agent tk)
      in case estimate_context_tokens (ad_est (td_acq d)) (td_render d) (td_render_tools d) (td_system d) s (compose_context s)
                (tool_definitions s) (cl_system_prompt (lc_client (tk_llm tk))) of
           Inl e \<Rightarrow> 0
         | Inr n \<Rightarrow> n)"

datatype 'a loop_step = Again | Leave 'a

text \<open>From the consumed stream on: post-stream gate, bare answers, tool calls.\<close>

definition after_stream ::
  "('m, 'd, 'f, 'b) task_deps \<Rightarrow> ('m, 'd, 'b) round_world \<Rightarrow> stream_consumed \<Rightarrow> ('m, 'd, 'f, 'b) live_task
    \<Rightarrow> (string + round_outcome) loop_step \<times> ('m, 'd, 'f, 'b) live_task \<times> agent_event list" where
  "after_stream d w consumed tk =
     (let ops = ad_ops (td_acq d);
          (act, a) = enforce_post_stream_budget ops (td_fmt d) (cf_budget (task_config tk)) (sc_usage consumed) (task_agent tk);
          tk1 = on_agent (\<lambda>_. a) tk
      in case act of
           Recompose \<Rightarrow> (Again, tk1, [])
         | Return oc \<Rightarrow> (Leave (Inr (Park oc)), tk1, [])
         | Proceed \<Rightarrow>
             if sc_tool_calls consumed = []
             then if sc_content consumed = []
                  then (Leave (Inl ''assistant returned neither tool calls nor final content''), tk1, [])
                  else (Leave (Inr (BareAssistant (sc_content consumed))), tk1, [])
             else (let (r, evs, ex) = execute_tool_calls (td_exec d) (ad_est (td_acq d)) (td_api d) (td_policy d)
                         (cf_tool_timeout_secs (task_config tk1)) (rw_fates w) consumed (tk_exec tk1);
                       tk2 = on_agent (\<lambda>a. a\<lparr>ac_store := rw_tools w (ac_store a)\<rparr>) (tk1\<lparr>tk_exec := ex\<rparr>)
                   in case r of
                        RoundCancelled \<Rightarrow> (Leave (Inr (Park AgentCancelled)), tk2, map ToolEvent evs)
                      | Break ms until \<Rightarrow>
                          (Leave (Inr (RBreak until)), on_agent (\<lambda>a. persist (snd (record_turn ops ms a))) tk2, map ToolEvent evs)
                      | Messages ms \<Rightarrow> (Again, on_agent (\<lambda>a. persist (snd (record_turn ops ms a))) tk2, map ToolEvent evs)))"

text \<open>One round; None when the acquisition runs out of fuel.\<close>

definition one_round ::
  "('m, 'd, 'f, 'b) task_deps \<Rightarrow> ('m, 'd, 'b) round_world \<Rightarrow> nat \<Rightarrow> nat \<Rightarrow> ('m, 'd, 'f, 'b) live_task
    \<Rightarrow> ((string + round_outcome) loop_step \<times> ('m, 'd, 'f, 'b) live_task \<times> agent_event list) option" where
  "one_round d w fuel round tk =
     (let ops = ad_ops (td_acq d);
          tk1 = drain_interjections d w (outside w tk);
          snap = snapshot (ac_tokens (task_agent tk1))
      in if is_exceeded snap then Some (Leave (Inr (Park (TokenBudgetExceeded (tb_consumed snap) (tb_budget snap)))), tk1, [])
         else (let tk2 = inject_notifications d tk1;
                   ms = compose_context (ac_store (task_agent tk2))
               in if rw_cancel_estimate w then Some (Leave (Inr (Park AgentCancelled)), tk2, [])
                  else (let (act, a) = enforce_pre_call_budget ops (ad_est (td_acq d)) (rw_llm w) (cf_budget (task_config tk2))
                              (prompt_estimate d tk2) (rw_cancelled w) (task_agent tk2);
                            tk3 = on_agent (\<lambda>_. a) tk2
                        in case act of
                             Recompose \<Rightarrow> Some (Again, tk3, [])
                           | Return oc \<Rightarrow> Some (Leave (Inr (Park oc)), tk3, [])
                           | Proceed \<Rightarrow>
                               (case acquire_stream (td_acq d) (rw_acquire w) round fuel ms (rw_clock w) (tk_llm tk3) of
                                  None \<Rightarrow> None
                                | Some (r, llm, evs) \<Rightarrow>
                                    (let tk4 = tk3\<lparr>tk_llm := llm\<rparr>; evs' = map AcqEvent evs
                                     in case r of
                                          AcqConsumed c \<Rightarrow>
                                            (let (st, tk5, evs2) = after_stream d w c tk4 in Some (st, tk5, evs' @ evs2))
                                        | AcqOutcome oc \<Rightarrow> Some (Leave (Inr (Park oc)), tk4, evs')
                                        | AcqError e \<Rightarrow> Some (Leave (Inl e), tk4, evs')
                                        | AcqPanic \<Rightarrow> None)))))"

text \<open>The \<open>for\<close> loop with the number of rounds left.\<close>

fun round_loop ::
  "('m, 'd, 'f, 'b) task_deps \<Rightarrow> (nat \<Rightarrow> ('m, 'd, 'b) round_world) \<Rightarrow> nat \<Rightarrow> nat \<Rightarrow> nat \<Rightarrow> ('m, 'd, 'f, 'b) live_task \<Rightarrow> agent_event list
    \<Rightarrow> ((string + round_outcome) \<times> ('m, 'd, 'f, 'b) live_task \<times> agent_event list) option" where
  "round_loop d ws fuel 0 round tk evs = Some (Inr (Park MaxRoundsExceeded), tk, evs)"
| "round_loop d ws fuel (Suc n) round tk evs =
     (case one_round d (ws round) fuel round tk of
        None \<Rightarrow> None
      | Some (Leave r, tk', evs') \<Rightarrow> Some (r, tk', evs @ evs')
      | Some (Again, tk', evs') \<Rightarrow> round_loop d ws fuel n (Suc round) tk' (evs @ evs'))"

definition run_agent_rounds ::
  "('m, 'd, 'f, 'b) task_deps \<Rightarrow> (nat \<Rightarrow> ('m, 'd, 'b) round_world) \<Rightarrow> nat \<Rightarrow> ('m, 'd, 'f, 'b) live_task
    \<Rightarrow> ((string + round_outcome) \<times> ('m, 'd, 'f, 'b) live_task \<times> agent_event list) option" where
  "run_agent_rounds d ws fuel tk = round_loop d ws fuel (cf_max_tool_rounds (task_config tk)) 0 tk []"

section \<open>Timers\<close>

definition schedule_transient_retry :: "nat \<Rightarrow> nat \<Rightarrow> ('m, 'd, 'f, 'b) live_task \<Rightarrow> (nat \<times> nat) \<times> ('m, 'd, 'f, 'b) live_task" where
  "schedule_transient_retry now jitter tk =
     (let delay = backoff_delay (cf_retry_policy (task_config tk)) (tk_transient_fails tk - 1) jitter;
          deadline = now + delay
      in ((deadline, delay), tk\<lparr>tk_retry_at := Some deadline\<rparr>))"

definition clear_transient_retry :: "('m, 'd, 'f, 'b) live_task \<Rightarrow> ('m, 'd, 'f, 'b) live_task" where
  "clear_transient_retry tk = tk\<lparr>tk_retry_at := None\<rparr>"

definition arm_wait_timer :: "nat \<Rightarrow> nat \<Rightarrow> ('m, 'd, 'f, 'b) live_task \<Rightarrow> nat \<times> ('m, 'd, 'f, 'b) live_task" where
  "arm_wait_timer now secs tk =
     (let deadline = now + nanos secs in (deadline, tk\<lparr>tk_wait_until := Some deadline, tk_wait_armed_secs := secs\<rparr>))"

definition clear_wait_timer :: "('m, 'd, 'f, 'b) live_task \<Rightarrow> ('m, 'd, 'f, 'b) live_task" where
  "clear_wait_timer tk = tk\<lparr>tk_wait_until := None\<rparr>"

definition due :: "nat option \<Rightarrow> nat \<Rightarrow> bool" where
  "due deadline now = (case deadline of None \<Rightarrow> False | Some t \<Rightarrow> t \<le> now)"

definition wait_timer_due :: "nat \<Rightarrow> ('m, 'd, 'f, 'b) live_task \<Rightarrow> bool" where
  "wait_timer_due now tk = due (tk_wait_until tk) now"

definition transient_retry_due :: "nat \<Rightarrow> ('m, 'd, 'f, 'b) live_task \<Rightarrow> bool" where
  "transient_retry_due now tk = due (tk_retry_at tk) now"

definition wait_elapsed_text :: "nat \<Rightarrow> string" where
  "wait_elapsed_text secs =
     ''[system] wait timer elapsed (armed '' @ show_nat secs @ ''s). Continue waiting with break({'' @ dq ''until'' @ '':'' @ dq ''wait''
       @ ''}), finish with break({'' @ dq ''until'' @ '':'' @ dq ''idle'' @ ''}), or work.''"

definition HEARTBEAT_TEXT :: string where
  "HEARTBEAT_TEXT =
     ''[system] You produced a response with no tool action and did not call `break`. If you are done, call `break` with `{''
       @ dq ''until'' @ '':'' @ dq ''idle'' @ ''}`; if you are blocked waiting on something, call `break` (the default parks you with ''
       @ ''a wake timer). Otherwise continue your work.''"

section \<open>The heartbeat loop\<close>

record ('m, 'd, 'b) wake_world =
  ww_rounds :: "nat \<Rightarrow> ('m, 'd, 'b) round_world"
  ww_now :: nat
  ww_jitter :: nat
  ww_lifecycle_cancelled :: bool

definition terminate_cancelled :: "('m, 'd, 'f, 'b) live_task \<Rightarrow> ('m, 'd, 'f, 'b) live_task" where
  "terminate_cancelled tk = on_agent persist tk"

definition U32_MAX :: nat where
  "U32_MAX = 2 ^ 32 - 1"

text \<open>The arm for an exhausted chain: arm a retry while attempts are left, otherwise park.\<close>

definition on_chain_exhausted ::
  "('m, 'd, 'b) wake_world \<Rightarrow> chain_exhaustion \<Rightarrow> string \<Rightarrow> ('m, 'd, 'f, 'b) live_task \<Rightarrow> ('m, 'd, 'f, 'b) live_task \<times> agent_event list" where
  "on_chain_exhausted w why detail tk =
     (let tk1 = tk\<lparr>tk_transient_fails := min (tk_transient_fails tk + 1) U32_MAX\<rparr>;
          n = tk_transient_fails tk1;
          m = cf_max_transient_retries (task_config tk1)
      in if n \<le> m
         then (let ((deadline, delay), tk2) = schedule_transient_retry (ww_now w) (ww_jitter w) tk1
               in (apply_transition (LcRetrying n m deadline) tk2, [EvChainExhausted why detail (Some (n, m, delay))]))
         else (apply_transition (LcParked PkTransientExhausted (ww_now w)) tk1, [EvChainExhausted why detail None]))"

text \<open>The arms of \<open>run_and_report\<close> other than the heartbeat; the flag is its result.\<close>

definition report ::
  "('m, 'd, 'b) wake_world \<Rightarrow> string + round_outcome \<Rightarrow> ('m, 'd, 'f, 'b) live_task \<Rightarrow> bool \<times> ('m, 'd, 'f, 'b) live_task \<times> agent_event list" where
  "report w r tk =
     (let tk0 = tk\<lparr>tk_transient_fails := 0\<rparr>
      in case r of
           Inl e \<Rightarrow> (False, apply_transition (LcParked (PkFatal e) (ww_now w)) tk0, [EvError e])
         | Inr (RBreak Idle) \<Rightarrow> (False, apply_transition LcIdle tk0, [EvIdle])
         | Inr (RBreak (Wait secs)) \<Rightarrow>
             (let (deadline, tk1) = arm_wait_timer (ww_now w) secs tk0 in (False, apply_transition (LcWaiting deadline) tk1, [EvWaiting secs]))
         | Inr (BareAssistant content) \<Rightarrow> (False, apply_transition LcIdle tk0, [EvIdle])
         | Inr (Park AgentCancelled) \<Rightarrow>
             if ww_lifecycle_cancelled w then (True, terminate_cancelled tk0, [TaskCancelled])
             else (False, apply_transition LcIdle tk0, [Interrupted])
         | Inr (Park (FailoverChainExhausted why detail)) \<Rightarrow> (let (tk1, evs) = on_chain_exhausted w why detail tk in (False, tk1, evs))
         | Inr (Park (TokenBudgetExceeded c b)) \<Rightarrow>
             (let (deadline, tk1) = arm_wait_timer (ww_now w) DEFAULT_BREAK_TIMEOUT_SECS tk0
              in (False, apply_transition (LcWaiting deadline) tk1, [EvTokenBudget c b]))
         | Inr (Park MaxRoundsExceeded) \<Rightarrow> (False, apply_transition (LcParked PkMaxRounds (ww_now w)) tk0, [EvMaxRounds])
         | Inr (Park OutcomeIdle) \<Rightarrow> (False, apply_transition LcIdle tk0, [EvIdle]))"

text \<open>The number of heartbeats left; a bare answer with none left is reported like a break to idle.\<close>

fun heartbeat_loop ::
  "('m, 'd, 'f, 'b) task_deps \<Rightarrow> (nat \<Rightarrow> ('m, 'd, 'b) wake_world) \<Rightarrow> nat \<Rightarrow> nat \<Rightarrow> nat \<Rightarrow> ('m, 'd, 'f, 'b) live_task \<Rightarrow> agent_event list
    \<Rightarrow> (bool \<times> ('m, 'd, 'f, 'b) live_task \<times> agent_event list) option" where
  "heartbeat_loop d ws fuel left i tk evs =
     (case run_agent_rounds d (ww_rounds (ws i)) fuel tk of
        None \<Rightarrow> None
      | Some (r, tk1, evs1) \<Rightarrow>
          (case (r, left) of
             (Inr (BareAssistant content), Suc n) \<Rightarrow>
               heartbeat_loop d ws fuel n (Suc i)
                 (record_message d HEARTBEAT_TEXT
                   (on_agent (\<lambda>a. snd (record_turn (ad_ops (td_acq d)) [mk_assistant (ad_ops (td_acq d)) content] a))
                     (tk1\<lparr>tk_transient_fails := 0\<rparr>)))
                 (evs @ Busy # evs1)
           | _ \<Rightarrow> (let (b, tk2, evs2) = report (ws i) r tk1 in Some (b, tk2, evs @ Busy # evs1 @ evs2))))"

declare heartbeat_loop.simps [simp del]

definition run_and_report ::
  "('m, 'd, 'f, 'b) task_deps \<Rightarrow> (nat \<Rightarrow> ('m, 'd, 'b) wake_world) \<Rightarrow> nat \<Rightarrow> ('m, 'd, 'f, 'b) live_task
    \<Rightarrow> (bool \<times> ('m, 'd, 'f, 'b) live_task \<times> agent_event list) option" where
  "run_and_report d ws fuel tk =
     (let tk1 = apply_transition LcRunning (tk\<lparr>tk_llm := apply_pending_profile_reset (ad_ratio (td_acq d)) (tk_llm tk)\<rparr>)
      in heartbeat_loop d ws fuel (cf_max_heartbeat_rounds (task_config tk1)) 0 tk1 [])"

section \<open>The outer loop\<close>

text \<open>
  One execution of each arm of the \<open>select!\<close>; the flag says that the task ends. What the arm finds
  (the inbox drained by \<open>pull_undelivered\<close>, the time) is an argument.
\<close>

definition prompt_arm ::
  "('m, 'd, 'f, 'b) task_deps \<Rightarrow> (string \<Rightarrow> string option) \<Rightarrow> string \<Rightarrow> (nat \<Rightarrow> ('m, 'd, 'b) wake_world) \<Rightarrow> string option
    \<Rightarrow> (nat \<Rightarrow> ('m, 'd, 'b) wake_world) \<Rightarrow> nat \<Rightarrow> ('m, 'd, 'f, 'b) live_task \<Rightarrow> (bool \<times> ('m, 'd, 'f, 'b) live_task \<times> agent_event list) option" where
  "prompt_arm d spill str ws pulled ws' fuel tk =
     (let tk1 = record_message_turn d spill str (clear_wait_timer (clear_transient_retry tk))
      in case run_and_report d ws fuel tk1 of
           None \<Rightarrow> None
         | Some (True, tk2, evs) \<Rightarrow> Some (True, tk2, evs)
         | Some (False, tk2, evs) \<Rightarrow>
             (case pulled of
                None \<Rightarrow> Some (False, tk2, evs)
              | Some msg \<Rightarrow>
                  (case run_and_report d ws' fuel (record_message_turn d spill msg tk2) of
                     None \<Rightarrow> None
                   | Some (b, tk3, evs') \<Rightarrow> Some (b, tk3, evs @ evs'))))"

definition cancel_arm :: "('m, 'd, 'f, 'b) live_task \<Rightarrow> bool \<times> ('m, 'd, 'f, 'b) live_task \<times> agent_event list" where
  "cancel_arm tk = (True, terminate_cancelled tk, [TaskCancelled])"

fun is_parked :: "lifecycle_state \<Rightarrow> bool" where
  "is_parked (LcParked r t) = True"
| "is_parked _ = False"

definition notify_arm ::
  "('m, 'd, 'f, 'b) task_deps \<Rightarrow> (string \<Rightarrow> string option) \<Rightarrow> string option \<Rightarrow> (nat \<Rightarrow> ('m, 'd, 'b) wake_world) \<Rightarrow> nat
    \<Rightarrow> ('m, 'd, 'f, 'b) live_task \<Rightarrow> (bool \<times> ('m, 'd, 'f, 'b) live_task \<times> agent_event list) option" where
  "notify_arm d spill pulled ws fuel tk =
     (let tk1 = tk\<lparr>tk_llm := apply_pending_profile_reset (ad_ratio (td_acq d)) (tk_llm tk)\<rparr>
      in if is_parked (tk_lifecycle tk1) then Some (False, tk1, [])
         else (let tk2 = (case pulled of None \<Rightarrow> tk1 | Some msg \<Rightarrow> record_message_turn d spill msg tk1)
               in if pulled \<noteq> None \<or> has_notifications (xs_approvals (tk_exec tk2))
                  then run_and_report d ws fuel (clear_wait_timer (clear_transient_retry tk2))
                  else Some (False, tk2, [])))"

definition retry_arm ::
  "('m, 'd, 'f, 'b) task_deps \<Rightarrow> nat \<Rightarrow> (nat \<Rightarrow> ('m, 'd, 'b) wake_world) \<Rightarrow> nat
    \<Rightarrow> ('m, 'd, 'f, 'b) live_task \<Rightarrow> (bool \<times> ('m, 'd, 'f, 'b) live_task \<times> agent_event list) option" where
  "retry_arm d now ws fuel tk =
     (if transient_retry_due now tk then run_and_report d ws fuel (clear_transient_retry tk) else Some (False, tk, []))"

definition wait_arm ::
  "('m, 'd, 'f, 'b) task_deps \<Rightarrow> nat \<Rightarrow> (nat \<Rightarrow> ('m, 'd, 'b) wake_world) \<Rightarrow> nat
    \<Rightarrow> ('m, 'd, 'f, 'b) live_task \<Rightarrow> (bool \<times> ('m, 'd, 'f, 'b) live_task \<times> agent_event list) option" where
  "wait_arm d now ws fuel tk =
     (if wait_timer_due now tk
      then (let tk1 = clear_wait_timer tk;
                tk2 = (if is_exceeded (snapshot (ac_tokens (task_agent tk1))) then tk1
                       else record_message d (wait_elapsed_text (tk_wait_armed_secs tk)) tk1)
            in run_and_report d ws fuel tk2)
      else Some (False, tk, []))"

definition start_task ::
  "('m, 'd, 'f, 'b) task_deps \<Rightarrow> (nat \<Rightarrow> 'm llm) \<Rightarrow> string option \<Rightarrow> (nat \<Rightarrow> ('m, 'd, 'b) wake_world) \<Rightarrow> nat
    \<Rightarrow> ('m, 'd, 'f, 'b) live_task \<Rightarrow> (bool \<times> ('m, 'd, 'f, 'b) live_task \<times> agent_event list) option" where
  "start_task d llm prompt ws fuel tk =
     (let tk1 = on_agent (\<lambda>a. snd (compact_if_needed (ad_ops (td_acq d)) (ad_est (td_acq d)) llm (cf_budget (task_config tk)) a)) tk
      in case prompt of
           None \<Rightarrow> Some (False, tk1, [])
         | Some p \<Rightarrow> if p = [] then Some (True, tk1, []) else run_and_report d ws fuel (record_message d p tk1))"

section \<open>What a round leaves alone\<close>

definition task_frame :: "'f ratio_ops \<Rightarrow> ('m, 'd, 'f, 'b) live_task \<Rightarrow> ('m, 'd, 'f, 'b) live_task \<Rightarrow> bool" where
  "task_frame rops tk tk' \<longleftrightarrow> chain_step rops (tk_llm tk) (tk_llm tk') \<and> tk_lifecycle tk' = tk_lifecycle tk \<and>
     tk_illegal tk' = tk_illegal tk \<and> tk_transient_fails tk' = tk_transient_fails tk \<and> tk_retry_at tk' = tk_retry_at tk \<and>
     tk_wait_until tk' = tk_wait_until tk"

lemma task_frame_trans: "task_frame rops a b \<Longrightarrow> task_frame rops b c \<Longrightarrow> task_frame rops a c"
  by (auto simp: task_frame_def intro: chain_step_trans)

lemma task_frame_refl: "acq_ok rops (tk_llm tk) \<Longrightarrow> task_frame rops tk tk"
  by (simp add: task_frame_def chain_step_same)

lemma task_frame_acq: "task_frame rops tk tk' \<Longrightarrow> acq_ok rops (tk_llm tk')"
  by (simp add: task_frame_def chain_step_def Let_def)

lemma on_agent_frame:
  assumes "acq_ok rops (tk_llm tk)"
  shows "task_frame rops tk (on_agent f tk)" and "task_frame rops tk (on_agent f (tk\<lparr>tk_exec := ex\<rparr>))"
  using assms by (auto simp: task_frame_def on_agent_def same_chain_def acq_ok_def intro!: chain_step_same)

lemma exec_frame: "acq_ok rops (tk_llm tk) \<Longrightarrow> task_frame rops tk (tk\<lparr>tk_exec := ex\<rparr>)"
  by (simp add: task_frame_def chain_step_same)

lemma drain_frame:
  assumes "acq_ok rops (tk_llm tk)"
  shows "task_frame rops tk (drain_interjections d w tk)" "task_frame rops tk (outside w tk)" "task_frame rops tk (record_message d str tk)"
  using assms by (auto simp: drain_interjections_def outside_def record_message_def intro: on_agent_frame task_frame_refl)

lemma inject_frame: "acq_ok rops (tk_llm tk) \<Longrightarrow> task_frame rops tk (inject_notifications d tk)"
  by (auto simp: inject_notifications_def Let_def record_message_def drain_notifications_def intro: on_agent_frame exec_frame)

lemma after_stream_frame:
  assumes "acq_ok rops (tk_llm tk)" "after_stream d w c tk = (st, tk', evs)"
  shows "task_frame rops tk tk'"
proof -
  obtain act a where g: "enforce_post_stream_budget (ad_ops (td_acq d)) (td_fmt d) (cf_budget (task_config tk)) (sc_usage c) (task_agent tk) = (act, a)"
    by (cases "enforce_post_stream_budget (ad_ops (td_acq d)) (td_fmt d) (cf_budget (task_config tk)) (sc_usage c) (task_agent tk)") auto
  let ?tk1 = "on_agent (\<lambda>_. a) tk"
  note 1 = on_agent_frame(1) [OF assms(1), of "\<lambda>_. a"]
  note ok = task_frame_acq [OF 1]
  show ?thesis
  proof (cases "act = Proceed \<and> sc_tool_calls c \<noteq> []")
    case True
    obtain r e ex where x: "execute_tool_calls (td_exec d) (ad_est (td_acq d)) (td_api d) (td_policy d)
        (cf_tool_timeout_secs (task_config ?tk1)) (rw_fates w) c (tk_exec ?tk1) = (r, e, ex)"
      by (cases "execute_tool_calls (td_exec d) (ad_est (td_acq d)) (td_api d) (td_policy d)
        (cf_tool_timeout_secs (task_config ?tk1)) (rw_fates w) c (tk_exec ?tk1)") auto
    let ?tk2 = "on_agent (\<lambda>a. a\<lparr>ac_store := rw_tools w (ac_store a)\<rparr>) (?tk1\<lparr>tk_exec := ex\<rparr>)"
    note 2 = task_frame_trans [OF 1 on_agent_frame(2) [OF ok, of "\<lambda>a. a\<lparr>ac_store := rw_tools w (ac_store a)\<rparr>" ex]]
    have "tk' = ?tk2 \<or> (\<exists>f. tk' = on_agent f ?tk2)"
      using assms(2) g True x by (cases r) (auto simp: after_stream_def Let_def)
    with 2 on_agent_frame(1) [OF task_frame_acq [OF 2]] task_frame_trans [OF 2] show ?thesis by blast
  next
    case False
    then have "tk' = ?tk1" using assms(2) g by (cases act) (auto simp: after_stream_def Let_def split: if_splits)
    with 1 show ?thesis by simp
  qed
qed

text \<open>The state in which a round reaches the acquisition, if it does.\<close>

definition pre_stream ::
  "('m, 'd, 'f, 'b) task_deps \<Rightarrow> ('m, 'd, 'b) round_world \<Rightarrow> ('m, 'd, 'f, 'b) live_task
    \<Rightarrow> (string + round_outcome) loop_step option \<times> 'm list \<times> ('m, 'd, 'f, 'b) live_task" where
  "pre_stream d w tk =
     (let tk1 = drain_interjections d w (outside w tk);
          snap = snapshot (ac_tokens (task_agent tk1))
      in if is_exceeded snap then (Some (Leave (Inr (Park (TokenBudgetExceeded (tb_consumed snap) (tb_budget snap))))), [], tk1)
         else (let tk2 = inject_notifications d tk1;
                   ms = compose_context (ac_store (task_agent tk2));
                   (act, a) = enforce_pre_call_budget (ad_ops (td_acq d)) (ad_est (td_acq d)) (rw_llm w) (cf_budget (task_config tk2))
                              (prompt_estimate d tk2) (rw_cancelled w) (task_agent tk2)
               in if rw_cancel_estimate w then (Some (Leave (Inr (Park AgentCancelled))), ms, tk2)
                  else (case act of Recompose \<Rightarrow> Some Again | Return oc \<Rightarrow> Some (Leave (Inr (Park oc))) | Proceed \<Rightarrow> None,
                        ms, on_agent (\<lambda>_. a) tk2)))"

lemma one_round_split:
  "one_round d w fuel round tk =
     (case pre_stream d w tk of
        (Some st, ms, tk1) \<Rightarrow> Some (st, tk1, [])
      | (None, ms, tk1) \<Rightarrow>
          (case acquire_stream (td_acq d) (rw_acquire w) round fuel ms (rw_clock w) (tk_llm tk1) of
             None \<Rightarrow> None
           | Some (r, llm, evs) \<Rightarrow>
               (case r of
                  AcqConsumed c \<Rightarrow>
                    (let (st, tk2, evs2) = after_stream d w c (tk1\<lparr>tk_llm := llm\<rparr>) in Some (st, tk2, map AcqEvent evs @ evs2))
                | AcqOutcome oc \<Rightarrow> Some (Leave (Inr (Park oc)), tk1\<lparr>tk_llm := llm\<rparr>, map AcqEvent evs)
                | AcqError e \<Rightarrow> Some (Leave (Inl e), tk1\<lparr>tk_llm := llm\<rparr>, map AcqEvent evs)
                | AcqPanic \<Rightarrow> None)))"
proof -
  let ?tk1 = "drain_interjections d w (outside w tk)"
  let ?tk2 = "inject_notifications d ?tk1"
  obtain act a where g: "enforce_pre_call_budget (ad_ops (td_acq d)) (ad_est (td_acq d)) (rw_llm w) (cf_budget (task_config ?tk2))
      (prompt_estimate d ?tk2) (rw_cancelled w) (task_agent ?tk2) = (act, a)" by fastforce
  show ?thesis
    unfolding one_round_def pre_stream_def Let_def g prod.case
    by (cases act) (simp_all split: option.split acquire_result.split)
qed

lemma pre_stream_frame:
  assumes "acq_ok rops (tk_llm tk)"
  shows "task_frame rops tk (snd (snd (pre_stream d w tk)))"
proof -
  let ?tk1 = "drain_interjections d w (outside w tk)"
  let ?tk2 = "inject_notifications d ?tk1"
  note 0 = drain_frame(2) [OF assms, of w]
  note 1 = task_frame_trans [OF 0 drain_frame(1) [OF task_frame_acq [OF 0], of d w]]
  note 2 = task_frame_trans [OF 1 inject_frame [OF task_frame_acq [OF 1], of d]]
  have 3: "task_frame rops tk (on_agent f ?tk2)" for f
    using task_frame_trans [OF 2 on_agent_frame(1) [OF task_frame_acq [OF 2]]] .
  show ?thesis using 1 2 3 by (simp add: pre_stream_def Let_def split: prod.split)
qed

lemma one_round_frame:
  assumes ok: "acq_ok (ad_ratio (td_acq d)) (tk_llm tk)" and one: "one_round d w fuel round tk = Some (st, tk', evs)"
  shows "task_frame (ad_ratio (td_acq d)) tk tk'"
proof -
  obtain s ms tk1 where p: "pre_stream d w tk = (s, ms, tk1)" by (cases "pre_stream d w tk") auto
  have 1: "task_frame (ad_ratio (td_acq d)) tk tk1" using pre_stream_frame [OF ok, of d w] p by simp
  show ?thesis
  proof (cases s)
    case (Some a)
    then show ?thesis using one p 1 by (simp add: one_round_split)
  next
    case None
    from one [unfolded one_round_split p None] obtain r llm aevs
      where a: "acquire_stream (td_acq d) (rw_acquire w) round fuel ms (rw_clock w) (tk_llm tk1) = Some (r, llm, aevs)"
      by (auto split: option.splits)
    let ?tk2 = "tk1\<lparr>tk_llm := llm\<rparr>"
    have "chain_step (ad_ratio (td_acq d)) (tk_llm tk1) llm"
      using acquire_loop_keeps [OF task_frame_acq [OF 1] a [unfolded acquire_stream_def]] by simp
    then have "task_frame (ad_ratio (td_acq d)) tk1 ?tk2" by (simp add: task_frame_def)
    note 2 = task_frame_trans [OF 1 this]
    have "tk' = ?tk2 \<or> (\<exists>c st evs2. after_stream d w c ?tk2 = (st, tk', evs2))"
      using one p None a by (cases r) (auto simp: one_round_split split: prod.splits)
    with 2 after_stream_frame [OF task_frame_acq [OF 2]] task_frame_trans [OF 2] show ?thesis by blast
  qed
qed

lemma round_loop_frame:
  assumes "acq_ok (ad_ratio (td_acq d)) (tk_llm tk)" "round_loop d ws fuel n round tk evs = Some (r, tk', evs')"
  shows "task_frame (ad_ratio (td_acq d)) tk tk'"
  using assms
proof (induction n arbitrary: round tk evs)
  case 0
  then show ?case by (simp add: task_frame_refl)
next
  case (Suc n)
  from Suc.prems(2) obtain st tk1 evs1 where o: "one_round d (ws round) fuel round tk = Some (st, tk1, evs1)"
    by (auto split: option.splits)
  note 1 = one_round_frame [OF Suc.prems(1) o]
  show ?case
  proof (cases st)
    case Again
    then have "round_loop d ws fuel n (Suc round) tk1 (evs @ evs1) = Some (r, tk', evs')" using Suc.prems(2) o by simp
    from task_frame_trans [OF 1 Suc.IH [OF task_frame_acq [OF 1] this]] show ?thesis .
  next
    case (Leave x)
    then show ?thesis using Suc.prems(2) o 1 by simp
  qed
qed

lemma rounds_return:
  assumes "acq_ok (ad_ratio (td_acq d)) (tk_llm tk)" "\<And>r j. no_drop (rw_acquire (ws r) j)"
    and "profile_count (lc_failover (tk_llm tk)) \<le> fuel"
  shows "round_loop d ws fuel n round tk evs \<noteq> None"
  using assms(1,3)
proof (induction n arbitrary: round tk evs)
  case (Suc n)
  let ?rops = "ad_ratio (td_acq d)"
  have same: "profile_count (lc_failover (tk_llm tk')) = profile_count (lc_failover (tk_llm tk))" if "task_frame ?rops tk tk'" for tk'
    using that by (simp add: task_frame_def chain_step_def profile_count_def Let_def)
  have "one_round d (ws round) fuel round tk \<noteq> None"
  proof (cases "pre_stream d (ws round) tk")
    case (fields s ms tk1)
    have 1: "task_frame ?rops tk tk1" using pre_stream_frame [OF Suc.prems(1), of d "ws round"] fields by simp
    have "acquire_loop (td_acq d) (rw_acquire (ws round)) round fuel 0 ms (rw_clock (ws round)) (tk_llm tk1) [] \<noteq> None"
      by (rule acquire_loop_finishes [OF task_frame_acq [OF 1], where k = 0]) (use assms(2) same [OF 1] Suc.prems(2) in auto)
    then obtain r llm aevs where a: "acquire_stream (td_acq d) (rw_acquire (ws round)) round fuel ms (rw_clock (ws round)) (tk_llm tk1) = Some (r, llm, aevs)"
      by (auto simp: acquire_stream_def)
    have "r \<noteq> AcqPanic" using acquire_loop_keeps [OF task_frame_acq [OF 1] a [unfolded acquire_stream_def]] by simp
    then show ?thesis using fields a by (cases s; cases r) (auto simp: one_round_split split: prod.splits)
  qed
  then obtain st tk1 evs1 where o: "one_round d (ws round) fuel round tk = Some (st, tk1, evs1)" by auto
  note 1 = one_round_frame [OF Suc.prems(1) o]
  have "round_loop d ws fuel n (Suc round) tk1 (evs @ evs1) \<noteq> None"
    by (rule Suc.IH [OF task_frame_acq [OF 1]]) (use same [OF 1] Suc.prems(2) in simp)
  then show ?case using o by (cases st) auto
qed simp

section \<open>How a wake ends\<close>

text \<open>
  The task between two wakes: it is not running, the legal-edge assertion never failed, and a waiting or
  retrying task has its fuse armed at the deadline its state shows.
\<close>

definition fuse_ok :: "('m, 'd, 'f, 'b) live_task \<Rightarrow> bool" where
  "fuse_ok tk \<longleftrightarrow>
     (case tk_lifecycle tk of
        LcRunning \<Rightarrow> False
      | LcWaiting t \<Rightarrow> tk_wait_until tk = Some t
      | LcRetrying a m t \<Rightarrow> tk_retry_at tk = Some t \<and> 1 \<le> a \<and> a \<le> m \<and> tk_transient_fails tk = a
      | _ \<Rightarrow> True)"

text \<open>A finished wake: either the lifecycle was cancelled, or the task is parked and only its own fuse was armed.\<close>

definition ended :: "bool \<Rightarrow> ('m, 'd, 'f, 'b) live_task \<Rightarrow> ('m, 'd, 'f, 'b) live_task \<Rightarrow> bool" where
  "ended b tk tk' \<longleftrightarrow> tk_illegal tk' = tk_illegal tk \<and>
     (if b then tk_lifecycle tk' = LcRunning
      else fuse_ok tk' \<and>
        (case tk_lifecycle tk' of LcWaiting t \<Rightarrow> True | _ \<Rightarrow> tk_wait_until tk' = tk_wait_until tk) \<and>
        (case tk_lifecycle tk' of LcRetrying a m t \<Rightarrow> True | _ \<Rightarrow> tk_retry_at tk' = tk_retry_at tk))"

lemmas ended_defs = ended_def fuse_ok_def apply_transition_def Let_def

lemma chain_exhausted_ended:
  assumes "tk_lifecycle tk = LcRunning" "on_chain_exhausted w why detail tk = (tk', evs)"
  shows "ended False tk tk' \<and> tk_llm tk' = tk_llm tk"
  using assms unfolding on_chain_exhausted_def
  by (auto simp: ended_defs schedule_transient_retry_def U32_MAX_def split: if_splits)

lemma report_ended:
  assumes run: "tk_lifecycle tk = LcRunning" and ok: "acq_ok rops (tk_llm tk)" and rep: "report w r tk = (b, tk', evs)"
  shows "ended b tk tk' \<and> chain_step rops (tk_llm tk) (tk_llm tk') \<and> (b \<longrightarrow> ww_lifecycle_cancelled w)"
proof (cases r)
  case (Inl e)
  then show ?thesis using rep run by (auto simp: report_def ended_defs chain_step_same [OF ok])
next
  case (Inr oc)
  show ?thesis
  proof (cases oc)
    case (RBreak u)
    then show ?thesis using rep run Inr by (cases u) (auto simp: report_def ended_defs arm_wait_timer_def chain_step_same [OF ok])
  next
    case (BareAssistant c)
    then show ?thesis using rep run Inr by (auto simp: report_def ended_defs chain_step_same [OF ok])
  next
    case (Park out)
    show ?thesis
    proof (cases out)
      case AgentCancelled
      then show ?thesis using rep run Inr Park
        by (auto simp: report_def ended_defs terminate_cancelled_def on_agent_def same_chain_def chain_step_same [OF ok] split: if_splits)
    next
      case (FailoverChainExhausted why detail)
      then obtain evs1 where "on_chain_exhausted w why detail tk = (tk', evs1)" "\<not> b"
        using rep Inr Park by (auto simp: report_def Let_def split: prod.splits)
      with chain_exhausted_ended [OF run this(1)] show ?thesis using chain_step_same [OF ok] by simp
    qed (use rep run Inr Park in \<open>auto simp: report_def ended_defs arm_wait_timer_def chain_step_same [OF ok]\<close>)
  qed
qed

lemma ended_from:
  assumes "ended b tk1 tk'" "tk_illegal tk1 = tk_illegal tk" "tk_wait_until tk1 = tk_wait_until tk" "tk_retry_at tk1 = tk_retry_at tk"
  shows "ended b tk tk'"
  using assms by (auto simp: ended_def split: lifecycle_state.splits if_splits)

definition heartbeat_turns ::
  "('m, 'd, 'f, 'b) task_deps \<Rightarrow> string \<Rightarrow> ('m, 'd, 'f, 'b) live_task \<Rightarrow> ('m, 'd, 'f, 'b) live_task" where
  "heartbeat_turns d content tk =
     record_message d HEARTBEAT_TEXT
       (on_agent (\<lambda>a. snd (record_turn (ad_ops (td_acq d)) [mk_assistant (ad_ops (td_acq d)) content] a)) (tk\<lparr>tk_transient_fails := 0\<rparr>))"

lemma heartbeat_turns_fields [simp]:
  "tk_lifecycle (heartbeat_turns d c tk) = tk_lifecycle tk" "tk_illegal (heartbeat_turns d c tk) = tk_illegal tk"
  "tk_retry_at (heartbeat_turns d c tk) = tk_retry_at tk" "tk_wait_until (heartbeat_turns d c tk) = tk_wait_until tk"
  "tk_transient_fails (heartbeat_turns d c tk) = 0"
  by (simp_all add: heartbeat_turns_def record_message_def on_agent_def)

lemma heartbeat_turns_chain: "acq_ok rops (tk_llm tk) \<Longrightarrow> chain_step rops (tk_llm tk) (tk_llm (heartbeat_turns d c tk))"
  by (rule chain_step_same) (simp_all add: heartbeat_turns_def record_message_def on_agent_def same_chain_def)

lemma heartbeat_loop_cases:
  "heartbeat_loop d ws fuel left i tk evs =
     (case run_agent_rounds d (ww_rounds (ws i)) fuel tk of
        None \<Rightarrow> None
      | Some (r, tk1, evs1) \<Rightarrow>
          if left \<noteq> 0 \<and> (\<exists>c. r = Inr (BareAssistant c))
          then heartbeat_loop d ws fuel (left - 1) (Suc i) (heartbeat_turns d (case r of Inr (BareAssistant c) \<Rightarrow> c) tk1) (evs @ Busy # evs1)
          else (let (b, tk2, evs2) = report (ws i) r tk1 in Some (b, tk2, evs @ Busy # evs1 @ evs2)))"
  by (subst heartbeat_loop.simps)
    (auto simp: heartbeat_turns_def split: option.split sum.split round_outcome.split nat.split)

lemma heartbeat_loop_ended:
  assumes "tk_lifecycle tk = LcRunning" "acq_ok (ad_ratio (td_acq d)) (tk_llm tk)"
    and "heartbeat_loop d ws fuel left i tk evs = Some (b, tk', evs')"
  shows "ended b tk tk' \<and> chain_step (ad_ratio (td_acq d)) (tk_llm tk) (tk_llm tk') \<and> (b \<longrightarrow> (\<exists>j. ww_lifecycle_cancelled (ws j)))"
  using assms
proof (induction left arbitrary: i tk evs rule: less_induct)
  case (less left)
  let ?rops = "ad_ratio (td_acq d)"
  from less.prems(3) obtain r tk1 evs1 where r: "run_agent_rounds d (ww_rounds (ws i)) fuel tk = Some (r, tk1, evs1)"
    by (subst (asm) heartbeat_loop_cases) (auto split: option.splits)
  have f: "task_frame ?rops tk tk1" using round_loop_frame [OF less.prems(2) r [unfolded run_agent_rounds_def]] .
  note f' = f [unfolded task_frame_def]
  note ok1 = task_frame_acq [OF f]
  show ?case
  proof (cases "left \<noteq> 0 \<and> (\<exists>c. r = Inr (BareAssistant c))")
    case True
    let ?tk2 = "heartbeat_turns d (case r of Inr (BareAssistant c) \<Rightarrow> c) tk1"
    have l: "heartbeat_loop d ws fuel (left - 1) (Suc i) ?tk2 (evs @ Busy # evs1) = Some (b, tk', evs')"
      using less.prems(3) True r by (subst (asm) heartbeat_loop_cases) simp
    have c: "chain_step ?rops (tk_llm tk1) (tk_llm ?tk2)" by (rule heartbeat_turns_chain [OF ok1])
    then have ok2: "acq_ok ?rops (tk_llm ?tk2)" by (simp add: chain_step_def Let_def)
    have "left - 1 < left" using True by simp
    from less.IH [OF this _ ok2 l] have
      "ended b ?tk2 tk' \<and> chain_step ?rops (tk_llm ?tk2) (tk_llm tk') \<and> (b \<longrightarrow> (\<exists>j. ww_lifecycle_cancelled (ws j)))"
      using f' less.prems(1) by simp
    with c f' show ?thesis using ended_from [of b ?tk2 tk' tk] chain_step_trans by (metis heartbeat_turns_fields(2-4))
  next
    case False
    then obtain evs2 where rep: "report (ws i) r tk1 = (b, tk', evs2)"
      using less.prems(3) r by (subst (asm) heartbeat_loop_cases) (auto split: prod.splits)
    from report_ended [OF _ ok1 rep] f' less.prems(1) show ?thesis
      using ended_from [of b tk1 tk' tk] chain_step_trans by (metis (no_types, lifting))
  qed
qed

lemma heartbeat_returns:
  assumes "acq_ok (ad_ratio (td_acq d)) (tk_llm tk)" "\<And>i r j. no_drop (rw_acquire (ww_rounds (ws i) r) j)"
    and "profile_count (lc_failover (tk_llm tk)) \<le> fuel"
  shows "heartbeat_loop d ws fuel left i tk evs \<noteq> None"
  using assms(1,3)
proof (induction left arbitrary: i tk evs rule: less_induct)
  case (less left)
  let ?rops = "ad_ratio (td_acq d)"
  have "run_agent_rounds d (ww_rounds (ws i)) fuel tk \<noteq> None"
    unfolding run_agent_rounds_def using less.prems assms(2) by (intro rounds_return) auto
  then obtain r tk1 evs1 where r: "run_agent_rounds d (ww_rounds (ws i)) fuel tk = Some (r, tk1, evs1)" by auto
  have f: "task_frame ?rops tk tk1" using round_loop_frame [OF less.prems(1) r [unfolded run_agent_rounds_def]] .
  show ?case
  proof (cases "left \<noteq> 0 \<and> (\<exists>c. r = Inr (BareAssistant c))")
    case True
    let ?tk2 = "heartbeat_turns d (case r of Inr (BareAssistant c) \<Rightarrow> c) tk1"
    have c: "chain_step ?rops (tk_llm tk) (tk_llm ?tk2)"
      using f chain_step_trans heartbeat_turns_chain [OF task_frame_acq [OF f]] by (metis task_frame_def)
    then have "acq_ok ?rops (tk_llm ?tk2)" "profile_count (lc_failover (tk_llm ?tk2)) \<le> fuel"
      using less.prems(2) by (simp_all add: chain_step_def profile_count_def Let_def)
    with less.IH [of "left - 1" ?tk2] True have "heartbeat_loop d ws fuel (left - 1) (Suc i) ?tk2 (evs @ Busy # evs1) \<noteq> None" by simp
    then show ?thesis using True r by (subst heartbeat_loop_cases) simp
  next
    case False
    then show ?thesis using r by (subst heartbeat_loop_cases) (auto split: prod.split)
  qed
qed

section \<open>Pending profile resets\<close>

definition reset_ok :: "('m, 'd, 'f, 'b) llm_ctx \<Rightarrow> bool" where
  "reset_ok ctx \<longleftrightarrow> (case lc_reset ctx of None \<Rightarrow> True | Some (s, r) \<Rightarrow> ps_profiles s \<noteq> [])"

lemma apply_reset_ok:
  assumes "acq_ok rops ctx" "reset_ok ctx"
  shows "acq_ok rops (apply_pending_profile_reset rops ctx) \<and> lc_reset (apply_pending_profile_reset rops ctx) = None"
proof (cases "lc_reset ctx")
  case None
  then show ?thesis using assms by (simp add: apply_pending_profile_reset_def)
next
  case (Some x)
  obtain s r where x: "x = (s, r)" by fastforce
  let ?w = "pf_window (active_profile s)"
  have valid: "config_valid rops (snd (set_context_window rops ?w (lc_config ctx)))"
    using assms(1) window_keeps_valid [of rops "lc_config ctx" ?w]
    by (cases "try_context_window rops ?w (lc_config ctx)") (auto simp: acq_ok_def set_context_window_def)
  have "fo_ok (snd (reset_and_rebuild s r (lc_failover ctx)))"
    using assms Some x by (intro fo_ok_reset) (auto simp: acq_ok_def reset_ok_def)
  then show ?thesis using assms(1) valid Some x
    by (auto simp: apply_pending_profile_reset_def acq_ok_def Let_def split: prod.split sum.split)
qed

lemma run_ended:
  assumes "tk_lifecycle tk \<noteq> LcRunning" "acq_ok (ad_ratio (td_acq d)) (tk_llm tk)" "reset_ok (tk_llm tk)"
    and "run_and_report d ws fuel tk = Some (b, tk', evs)"
  shows "ended b tk tk' \<and> acq_ok (ad_ratio (td_acq d)) (tk_llm tk') \<and> reset_ok (tk_llm tk') \<and> (b \<longrightarrow> (\<exists>j. ww_lifecycle_cancelled (ws j)))"
proof -
  let ?rops = "ad_ratio (td_acq d)"
  let ?tk1 = "apply_transition LcRunning (tk\<lparr>tk_llm := apply_pending_profile_reset ?rops (tk_llm tk)\<rparr>)"
  have ok: "acq_ok ?rops (tk_llm ?tk1)" and none: "lc_reset (tk_llm ?tk1) = None"
    using apply_reset_ok [OF assms(2,3)] by (simp_all add: apply_transition_def)
  have h: "heartbeat_loop d ws fuel (cf_max_heartbeat_rounds (task_config ?tk1)) 0 ?tk1 [] = Some (b, tk', evs)"
    using assms(4) by (simp add: run_and_report_def Let_def)
  have legal1: "legal (tk_lifecycle tk) LcRunning" using assms(1) by (cases "tk_lifecycle tk") auto
  from heartbeat_loop_ended [OF _ ok h] have e: "ended b ?tk1 tk'" "chain_step ?rops (tk_llm ?tk1) (tk_llm tk')"
      "b \<longrightarrow> (\<exists>j. ww_lifecycle_cancelled (ws j))" by (simp_all add: apply_transition_def)
  have "ended b tk tk'" by (rule ended_from [OF e(1)]) (use legal1 in \<open>simp_all add: apply_transition_def\<close>)
  moreover have "lc_reset (tk_llm tk') = None" using none e(2) by (simp add: chain_step_def Let_def)
  ultimately show ?thesis using e by (simp add: chain_step_def reset_ok_def Let_def)
qed

section \<open>The task as a transition system\<close>

definition fresh_task :: "'f ratio_ops \<Rightarrow> ('m, 'd, 'f, 'b) live_task \<Rightarrow> bool" where
  "fresh_task rops tk \<longleftrightarrow> tk_lifecycle tk = LcIdle \<and> \<not> tk_illegal tk \<and> tk_retry_at tk = None \<and> tk_wait_until tk = None \<and>
     acq_ok rops (tk_llm tk) \<and> reset_ok (tk_llm tk)"

definition started :: "('m, 'd, 'f, 'b) task_deps \<Rightarrow> ('m, 'd, 'f, 'b) live_task \<Rightarrow> bool" where
  "started d tk \<longleftrightarrow>
     (\<exists>tk0 llm prompt ws fuel evs. fresh_task (ad_ratio (td_acq d)) tk0 \<and> start_task d llm prompt ws fuel tk0 = Some (False, tk, evs))"

text \<open>The arms that keep the task alive, a profile reset signalled by the tagma, and decisions of the operator.\<close>

inductive task_step :: "('m, 'd, 'f, 'b) task_deps \<Rightarrow> ('m, 'd, 'f, 'b) live_task \<Rightarrow> ('m, 'd, 'f, 'b) live_task \<Rightarrow> bool" for d where
  ts_prompt: "prompt_arm d spill str ws pulled ws' fuel tk = Some (False, tk', evs) \<Longrightarrow> task_step d tk tk'"
| ts_notify: "notify_arm d spill pulled ws fuel tk = Some (False, tk', evs) \<Longrightarrow> task_step d tk tk'"
| ts_retry: "retry_arm d now ws fuel tk = Some (False, tk', evs) \<Longrightarrow> task_step d tk tk'"
| ts_wait: "wait_arm d now ws fuel tk = Some (False, tk', evs) \<Longrightarrow> task_step d tk tk'"
| ts_reset: "ps_profiles s \<noteq> [] \<Longrightarrow> task_step d tk (tk\<lparr>tk_llm := (tk_llm tk)\<lparr>lc_reset := Some (s, r)\<rparr>\<rparr>)"
| ts_operator: "task_step d tk (tk\<lparr>tk_exec := (tk_exec tk)\<lparr>xs_approvals := approvals\<rparr>\<rparr>)"

definition task_ok :: "'f ratio_ops \<Rightarrow> ('m, 'd, 'f, 'b) live_task \<Rightarrow> bool" where
  "task_ok rops tk \<longleftrightarrow> \<not> tk_illegal tk \<and> fuse_ok tk \<and> acq_ok rops (tk_llm tk) \<and> reset_ok (tk_llm tk)"

lemma fuse_not_running: "fuse_ok tk \<Longrightarrow> tk_lifecycle tk \<noteq> LcRunning"
  by (auto simp: fuse_ok_def)

lemma record_fields [simp]:
  "tk_lifecycle (record_message d str tk) = tk_lifecycle tk" "tk_illegal (record_message d str tk) = tk_illegal tk"
  "tk_retry_at (record_message d str tk) = tk_retry_at tk" "tk_wait_until (record_message d str tk) = tk_wait_until tk"
  "tk_transient_fails (record_message d str tk) = tk_transient_fails tk"
  "acq_ok rops (tk_llm (record_message d str tk)) = acq_ok rops (tk_llm tk)" "reset_ok (tk_llm (record_message d str tk)) = reset_ok (tk_llm tk)"
  by (simp_all add: record_message_def on_agent_def acq_ok_def reset_ok_def)

lemma clear_fields [simp]:
  "tk_lifecycle (clear_wait_timer tk) = tk_lifecycle tk" "tk_lifecycle (clear_transient_retry tk) = tk_lifecycle tk"
  "tk_illegal (clear_wait_timer tk) = tk_illegal tk" "tk_illegal (clear_transient_retry tk) = tk_illegal tk"
  "tk_llm (clear_wait_timer tk) = tk_llm tk" "tk_llm (clear_transient_retry tk) = tk_llm tk"
  "tk_wait_until (clear_wait_timer tk) = None" "tk_wait_until (clear_transient_retry tk) = tk_wait_until tk"
  by (simp_all add: clear_wait_timer_def clear_transient_retry_def)

text \<open>Every run starts outside \<open>Running\<close> with a lawful chain and ends in a lawful parked state.\<close>

lemma run_keeps:
  assumes "run_and_report d ws fuel tk = Some (False, tk', evs)" "tk_lifecycle tk \<noteq> LcRunning" "\<not> tk_illegal tk"
    "acq_ok (ad_ratio (td_acq d)) (tk_llm tk)" "reset_ok (tk_llm tk)"
  shows "task_ok (ad_ratio (td_acq d)) tk'"
  using run_ended [OF assms(2,4,5,1)] assms(3) by (simp add: task_ok_def ended_def)

lemma task_ok_fields:
  assumes "task_ok rops tk" "tk_lifecycle tk' = tk_lifecycle tk" "tk_illegal tk' = tk_illegal tk" "tk_retry_at tk' = tk_retry_at tk"
    "tk_wait_until tk' = tk_wait_until tk" "tk_transient_fails tk' = tk_transient_fails tk" "acq_ok rops (tk_llm tk')" "reset_ok (tk_llm tk')"
  shows "task_ok rops tk'"
  using assms by (cases "tk_lifecycle tk") (simp_all add: task_ok_def fuse_ok_def)

lemma task_ok_record: "task_ok rops tk \<Longrightarrow> task_ok rops (record_message_turn d spill msg tk)"
  by (rule task_ok_fields) (simp_all add: record_message_turn_def task_ok_def)

lemma task_step_ok:
  assumes "task_step d tk tk'" "task_ok (ad_ratio (td_acq d)) tk"
  shows "task_ok (ad_ratio (td_acq d)) tk'"
  using assms
proof (induction rule: task_step.induct)
  case (ts_prompt spill str ws pulled ws' fuel tk tk' evs)
  let ?tk1 = "record_message_turn d spill str (clear_wait_timer (clear_transient_retry tk))"
  from ts_prompt.hyps obtain tk2 evs2 where r1: "run_and_report d ws fuel ?tk1 = Some (False, tk2, evs2)"
      and cont: "tk' = tk2 \<or> (\<exists>msg evs3. run_and_report d ws' fuel (record_message_turn d spill msg tk2) = Some (False, tk', evs3))"
    by (cases "run_and_report d ws fuel ?tk1") (fastforce simp: prompt_arm_def Let_def split: option.splits bool.splits)+
  have 2: "task_ok (ad_ratio (td_acq d)) tk2"
    by (rule run_keeps [OF r1]) (use ts_prompt.prems fuse_not_running in \<open>auto simp: task_ok_def record_message_turn_def\<close>)
  from cont show ?case
  proof
    assume "\<exists>msg evs3. run_and_report d ws' fuel (record_message_turn d spill msg tk2) = Some (False, tk', evs3)"
    then obtain msg evs3 where r2: "run_and_report d ws' fuel (record_message_turn d spill msg tk2) = Some (False, tk', evs3)" by blast
    show ?thesis by (rule run_keeps [OF r2]) (use 2 fuse_not_running in \<open>auto simp: task_ok_def record_message_turn_def\<close>)
  qed (use 2 in simp)
next
  case (ts_notify spill pulled ws fuel tk tk' evs)
  let ?rops = "ad_ratio (td_acq d)"
  let ?tk1 = "tk\<lparr>tk_llm := apply_pending_profile_reset ?rops (tk_llm tk)\<rparr>"
  have a: "acq_ok ?rops (tk_llm ?tk1)" "reset_ok (tk_llm ?tk1)"
    using apply_reset_ok [of ?rops "tk_llm tk"] ts_notify.prems by (auto simp: task_ok_def reset_ok_def)
  have 1: "task_ok ?rops ?tk1" by (rule task_ok_fields [OF ts_notify.prems]) (use a in auto)
  let ?tk2 = "case pulled of None \<Rightarrow> ?tk1 | Some msg \<Rightarrow> record_message_turn d spill msg ?tk1"
  have 2: "task_ok ?rops ?tk2" using 1 task_ok_record by (cases pulled) auto
  show ?case
  proof (cases "tk' = ?tk1 \<or> tk' = ?tk2")
    case True
    with 1 2 show ?thesis by blast
  next
    case False
    then have r: "run_and_report d ws fuel (clear_wait_timer (clear_transient_retry ?tk2)) = Some (False, tk', evs)"
      using ts_notify.hyps by (auto simp: notify_arm_def Let_def split: if_splits)
    show ?thesis by (rule run_keeps [OF r]) (use 2 fuse_not_running in \<open>auto simp: task_ok_def\<close>)
  qed
next
  case (ts_retry now ws fuel tk tk' evs)
  show ?case
  proof (cases "transient_retry_due now tk")
    case True
    then have r: "run_and_report d ws fuel (clear_transient_retry tk) = Some (False, tk', evs)"
      using ts_retry.hyps by (simp add: retry_arm_def)
    show ?thesis by (rule run_keeps [OF r]) (use ts_retry.prems fuse_not_running in \<open>auto simp: task_ok_def\<close>)
  qed (use ts_retry in \<open>simp add: retry_arm_def\<close>)
next
  case (ts_wait now ws fuel tk tk' evs)
  show ?case
  proof (cases "wait_timer_due now tk")
    case True
    let ?tk2 = "if is_exceeded (snapshot (ac_tokens (task_agent (clear_wait_timer tk)))) then clear_wait_timer tk
      else record_message d (wait_elapsed_text (tk_wait_armed_secs tk)) (clear_wait_timer tk)"
    have r: "run_and_report d ws fuel ?tk2 = Some (False, tk', evs)" using ts_wait.hyps True by (simp add: wait_arm_def Let_def)
    show ?thesis by (rule run_keeps [OF r]) (use ts_wait.prems fuse_not_running in \<open>auto simp: task_ok_def\<close>)
  qed (use ts_wait in \<open>simp add: wait_arm_def\<close>)
next
  case (ts_reset s tk r)
  show ?case by (rule task_ok_fields [OF ts_reset.prems]) (use ts_reset in \<open>auto simp: task_ok_def acq_ok_def reset_ok_def\<close>)
next
  case (ts_operator tk approvals)
  show ?case by (rule task_ok_fields [OF ts_operator]) (use ts_operator in \<open>auto simp: task_ok_def\<close>)
qed

lemma started_ok:
  assumes "started d tk"
  shows "task_ok (ad_ratio (td_acq d)) tk"
proof -
  from assms obtain tk0 llm prompt ws fuel evs where fresh: "fresh_task (ad_ratio (td_acq d)) tk0"
      and s: "start_task d llm prompt ws fuel tk0 = Some (False, tk, evs)" by (auto simp: started_def)
  let ?tk1 = "on_agent (\<lambda>a. snd (compact_if_needed (ad_ops (td_acq d)) (ad_est (td_acq d)) llm (cf_budget (task_config tk0)) a)) tk0"
  have 1: "tk_lifecycle ?tk1 = LcIdle" "\<not> tk_illegal ?tk1" "acq_ok (ad_ratio (td_acq d)) (tk_llm ?tk1)" "reset_ok (tk_llm ?tk1)"
    using fresh by (simp_all add: fresh_task_def on_agent_def acq_ok_def reset_ok_def)
  show ?thesis
  proof (cases prompt)
    case None
    then show ?thesis using s 1 by (simp add: start_task_def task_ok_def fuse_ok_def Let_def)
  next
    case (Some p)
    then have r: "run_and_report d ws fuel (record_message d p ?tk1) = Some (False, tk, evs)"
      using s by (simp add: start_task_def Let_def split: if_splits)
    show ?thesis by (rule run_keeps [OF r]) (use 1 in simp_all)
  qed
qed

interpretation tasks: inv_system "started d" "task_step d" "task_ok (ad_ratio (td_acq d))" for d
  by unfold_locales (auto intro: started_ok task_step_ok)

section \<open>Properties\<close>

text \<open>
  C5. Between two wakes the task is never in the state Running, the debug assertion on lifecycle edges has
  never failed, and a task shown as waiting or retrying has the matching fuse armed at exactly that
  deadline, with an attempt number within its limit; so no such task sleeps for ever. The failover state
  and the configuration stay valid through every sequence of prompts, notifications, timers, profile
  resets and operator decisions.
\<close>

theorem parked_task_has_fuse:
  assumes "reaches (started d) (task_step d) tk"
  shows "\<not> tk_illegal tk \<and> fo_ok (lc_failover (tk_llm tk)) \<and> config_valid (ad_ratio (td_acq d)) (task_config tk) \<and>
    (case tk_lifecycle tk of
       LcRunning \<Rightarrow> False
     | LcWaiting t \<Rightarrow> tk_wait_until tk = Some t
     | LcRetrying a m t \<Rightarrow> tk_retry_at tk = Some t \<and> 1 \<le> a \<and> a \<le> m \<and> tk_transient_fails tk = a
     | _ \<Rightarrow> True)"
  using tasks.reaches_inv [OF assms] by (simp add: task_ok_def fuse_ok_def acq_ok_def)


text \<open>
  A finding. A prompt clears both fuses, but the inbox drain that follows the round starts a second run
  without clearing them: when the first run parked the task waiting and the second one ends otherwise,
  the fuse of the first stays armed. The wait arm looks at the deadline only, so it later injects the
  wait-elapsed turn into a task that finished or that is parked for the operator.
\<close>

theorem drain_leaves_stale_fuse:
  assumes ok: "task_ok (ad_ratio (td_acq d)) tk"
    and first: "run_and_report d ws fuel (record_message_turn d spill str (clear_wait_timer (clear_transient_retry tk))) = Some (False, tk1, evs1)"
      "tk_lifecycle tk1 = LcWaiting t"
    and second: "run_and_report d ws' fuel (record_message_turn d spill msg tk1) = Some (False, tk2, evs2)"
      "\<forall>u. tk_lifecycle tk2 \<noteq> LcWaiting u"
  shows "prompt_arm d spill str ws (Some msg) ws' fuel tk = Some (False, tk2, evs1 @ evs2) \<and> wait_timer_due t tk2 \<and>
    wait_arm d t ws3 fuel' tk2 =
      run_and_report d ws3 fuel'
        (if is_exceeded (snapshot (ac_tokens (task_agent tk2))) then clear_wait_timer tk2
         else record_message d (wait_elapsed_text (tk_wait_armed_secs tk2)) (clear_wait_timer tk2))"
proof -
  have 1: "task_ok (ad_ratio (td_acq d)) tk1"
    by (rule run_keeps [OF first(1)]) (use ok fuse_not_running in \<open>auto simp: task_ok_def record_message_turn_def\<close>)
  then have w: "tk_wait_until tk1 = Some t" using first(2) by (simp add: task_ok_def fuse_ok_def)
  have "ended False (record_message_turn d spill msg tk1) tk2"
    using run_ended [OF _ _ _ second(1)] 1 first(2) by (simp add: task_ok_def record_message_turn_def)
  then have "tk_wait_until tk2 = Some t"
    using second(2) w by (auto simp: ended_def record_message_turn_def split: lifecycle_state.splits)
  then have "wait_timer_due t tk2" by (simp add: wait_timer_due_def due_def)
  then show ?thesis using first second by (simp add: prompt_arm_def wait_arm_def Let_def)
qed

subsection \<open>A small task\<close>

definition string_api :: "string chat_api" where
  "string_api = \<lparr>ca_tool_calls = (\<lambda>_. None), ca_tool_call_id = (\<lambda>_. None), ca_assistant = (\<lambda>_ _ _. []), ca_tool_result = (\<lambda>s _. s)\<rparr>"

definition sample_task_deps :: "(string, unit, nat, string) task_deps" where
  "sample_task_deps = \<lparr>td_acq = sample_deps, td_api = string_api, td_exec = sample_env, td_policy = sample_agent_policy, td_fmt = (\<lambda>_. []),
     td_render = (\<lambda>_. Inr []), td_render_tools = (\<lambda>_. Inr []), td_system = (\<lambda>s. s)\<rparr>"

definition sample_task :: "(string, unit, nat, string) live_task" where
  "sample_task = \<lparr>tk_llm = sample_llm_ctx\<lparr>lc_reset := None\<rparr>, tk_exec = new_exec, tk_lifecycle = LcIdle, tk_illegal = False, tk_transient_fails = 0,
     tk_retry_at = None, tk_wait_until = None, tk_wait_armed_secs = 0\<rparr>"

text \<open>A wake whose rounds see the given budget and, if they get that far, are interrupted during the estimate.\<close>

definition sample_wake :: "token_budget \<Rightarrow> (string, unit, string) wake_world" where
  "sample_wake b = \<lparr>ww_rounds = (\<lambda>_. \<lparr>rw_interjected = [], rw_spill = (\<lambda>_. None), rw_tokens = (\<lambda>_. b), rw_approvals = (\<lambda>a. a),
       rw_cancel_estimate = True, rw_llm = sample_llm, rw_cancelled = False,
       rw_acquire = (\<lambda>_. steady_turn (Responded 401 None (Inl ''denied''))), rw_clock = 0, rw_fates = (\<lambda>_. Completes), rw_tools = (\<lambda>s. s)\<rparr>),
     ww_now = 0, ww_jitter = 0, ww_lifecycle_cancelled = False\<rparr>"

lemma sample_acq_ok2: "acq_ok (ad_ratio (td_acq sample_task_deps)) (tk_llm sample_task)" "reset_ok (tk_llm sample_task)"
  using sample_acq_ok by (simp_all add: sample_task_deps_def sample_task_def acq_ok_def reset_ok_def)

lemma run_first_round:
  assumes "one_round d (ww_rounds (ws 0) 0) fuel 0 (apply_transition LcRunning (tk\<lparr>tk_llm := apply_pending_profile_reset (ad_ratio (td_acq d)) (tk_llm tk)\<rparr>))
      = Some (Leave (Inr (Park oc)), tk1, evs)"
    and "0 < cf_max_tool_rounds (lc_config (apply_pending_profile_reset (ad_ratio (td_acq d)) (tk_llm tk)))"
    and "report (ws 0) (Inr (Park oc)) tk1 = (b, tk2, evs2)"
  shows "run_and_report d ws fuel tk = Some (b, tk2, Busy # evs @ evs2)"
proof -
  let ?tk = "apply_transition LcRunning (tk\<lparr>tk_llm := apply_pending_profile_reset (ad_ratio (td_acq d)) (tk_llm tk)\<rparr>)"
  have "run_agent_rounds d (ww_rounds (ws 0)) fuel ?tk = Some (Inr (Park oc), tk1, evs)"
    using assms(1,2) by (cases "cf_max_tool_rounds (task_config ?tk)") (auto simp: run_agent_rounds_def apply_transition_def)
  then show ?thesis using assms(3) by (simp add: run_and_report_def Let_def heartbeat_loop_cases [of d ws fuel _ 0])
qed

lemma sample_exceeded_run:
  assumes "lc_reset (tk_llm tk) = None" "0 < cf_max_tool_rounds (task_config tk)"
  shows "\<exists>tk' evs. run_and_report sample_task_deps (\<lambda>_. sample_wake (new_budget 5 5)) fuel tk = Some (False, tk', evs) \<and>
    tk_lifecycle tk' = LcWaiting (nanos 600) \<and> lc_reset (tk_llm tk') = None \<and> task_config tk' = task_config tk"
proof -
  let ?t = "outside (ww_rounds (sample_wake (new_budget 5 5)) 0) (apply_transition LcRunning tk)"
  have r: "apply_pending_profile_reset rops (tk_llm tk) = tk_llm tk" for rops using assms(1) by (simp add: apply_pending_profile_reset_def)
  have o: "one_round sample_task_deps (ww_rounds (sample_wake (new_budget 5 5)) 0) fuel 0 (apply_transition LcRunning tk) =
      Some (Leave (Inr (Park (TokenBudgetExceeded 5 5))), ?t, [])"
    by (simp add: one_round_def drain_interjections_def outside_def on_agent_def sample_wake_def is_exceeded_def snapshot_def new_budget_def)
  obtain b tk' evs where rep: "report (sample_wake (new_budget 5 5)) (Inr (Park (TokenBudgetExceeded 5 5))) ?t = (b, tk', evs)"
    by (cases "report (sample_wake (new_budget 5 5)) (Inr (Park (TokenBudgetExceeded 5 5))) ?t") auto
  have "\<not> b \<and> tk_lifecycle tk' = LcWaiting (nanos 600) \<and> lc_reset (tk_llm tk') = None \<and> task_config tk' = task_config tk"
    using rep assms(1)
    by (auto simp: report_def arm_wait_timer_def apply_transition_def outside_def on_agent_def sample_wake_def DEFAULT_BREAK_TIMEOUT_SECS_def Let_def)
  moreover have "run_and_report sample_task_deps (\<lambda>_. sample_wake (new_budget 5 5)) fuel tk = Some (b, tk', Busy # [] @ evs)"
    by (rule run_first_round [OF _ _ rep]) (use o assms in \<open>simp_all add: r\<close>)
  ultimately show ?thesis by auto
qed

lemma sample_interrupted_run:
  assumes "lc_reset (tk_llm tk) = None" "0 < cf_max_tool_rounds (task_config tk)"
  shows "\<exists>tk' evs. run_and_report sample_task_deps (\<lambda>_. sample_wake (new_budget 5 0)) fuel tk = Some (False, tk', evs) \<and> tk_lifecycle tk' = LcIdle"
proof -
  let ?t = "inject_notifications sample_task_deps (outside (ww_rounds (sample_wake (new_budget 5 0)) 0) (apply_transition LcRunning tk))"
  have r: "apply_pending_profile_reset rops (tk_llm tk) = tk_llm tk" for rops using assms(1) by (simp add: apply_pending_profile_reset_def)
  have o: "one_round sample_task_deps (ww_rounds (sample_wake (new_budget 5 0)) 0) fuel 0 (apply_transition LcRunning tk) =
      Some (Leave (Inr (Park AgentCancelled)), ?t, [])"
    by (simp add: one_round_def drain_interjections_def outside_def on_agent_def sample_wake_def is_exceeded_def snapshot_def new_budget_def Let_def)
  obtain b tk' evs where rep: "report (sample_wake (new_budget 5 0)) (Inr (Park AgentCancelled)) ?t = (b, tk', evs)"
    by (cases "report (sample_wake (new_budget 5 0)) (Inr (Park AgentCancelled)) ?t") auto
  have "\<not> b \<and> tk_lifecycle tk' = LcIdle" using rep by (auto simp: report_def apply_transition_def sample_wake_def Let_def)
  moreover have "run_and_report sample_task_deps (\<lambda>_. sample_wake (new_budget 5 0)) fuel tk = Some (b, tk', Busy # [] @ evs)"
    by (rule run_first_round [OF _ _ rep]) (use o assms in \<open>simp_all add: r\<close>)
  ultimately show ?thesis by auto
qed

lemma sample_rounds: "0 < cf_max_tool_rounds (task_config sample_task)"
  using sample_acq_ok2(1) by (simp add: acq_ok_def config_valid_def)

lemma sample_task_ok: "task_ok (ad_ratio (td_acq sample_task_deps)) sample_task"
  using sample_acq_ok2 by (simp add: task_ok_def fuse_ok_def sample_task_def)

text \<open>The budget stops the prompted run, the budget is raised, and the drain's run is interrupted: the task is idle with a fuse.\<close>

theorem drain_leaves_stale_fuse_witness:
  "\<exists>tk2 evs. prompt_arm sample_task_deps (\<lambda>_. None) ''hi'' (\<lambda>_. sample_wake (new_budget 5 5)) (Some ''mail'')
      (\<lambda>_. sample_wake (new_budget 5 0)) 4 sample_task = Some (False, tk2, evs) \<and> tk_lifecycle tk2 = LcIdle \<and> wait_timer_due (nanos 600) tk2"
proof -
  let ?r = "record_message_turn sample_task_deps (\<lambda>_. None)"
  let ?tk = "?r ''hi'' (clear_wait_timer (clear_transient_retry sample_task))"
  have cfg: "task_config (?r m tk) = task_config tk" "lc_reset (tk_llm (?r m tk)) = lc_reset (tk_llm tk)" for m tk
    by (simp_all add: record_message_turn_def record_message_def on_agent_def)
  have none: "lc_reset (tk_llm sample_task) = None" by (simp add: sample_task_def)
  obtain tk1 evs1 where 1: "run_and_report sample_task_deps (\<lambda>_. sample_wake (new_budget 5 5)) 4 ?tk = Some (False, tk1, evs1)"
      "tk_lifecycle tk1 = LcWaiting (nanos 600)" "lc_reset (tk_llm tk1) = None" "task_config tk1 = task_config sample_task"
    using sample_exceeded_run [of ?tk 4] sample_rounds none unfolding cfg clear_fields by metis
  obtain tk2 evs2 where 2: "run_and_report sample_task_deps (\<lambda>_. sample_wake (new_budget 5 0)) 4 (?r ''mail'' tk1) = Some (False, tk2, evs2)"
      "tk_lifecycle tk2 = LcIdle"
    using sample_interrupted_run [of "?r ''mail'' tk1" 4] 1(3,4) sample_rounds by (auto simp: cfg)
  from drain_leaves_stale_fuse [OF sample_task_ok 1(1,2) 2(1)] 2(2) show ?thesis by auto
qed


theorem parked_task_has_fuse_witness: "config_valid percent_ops (task_config sample_task)"
proof -
  let ?tk = "on_agent (\<lambda>a. snd (compact_if_needed sample_ops length sample_llm (cf_budget (task_config sample_task)) a)) sample_task"
  have "fresh_task (ad_ratio (td_acq sample_task_deps)) sample_task"
    using sample_acq_ok2 by (simp add: fresh_task_def sample_task_def)
  moreover have "start_task sample_task_deps sample_llm None ws 0 sample_task = Some (False, ?tk, [])" for ws
    by (simp add: start_task_def sample_task_deps_def sample_deps_def)
  ultimately have "started sample_task_deps ?tk" unfolding started_def by blast
  then have "reaches (started sample_task_deps) (task_step sample_task_deps) ?tk" by (rule reaches.start)
  from parked_task_has_fuse [OF this] show ?thesis by (simp add: sample_task_deps_def sample_deps_def on_agent_def)
qed

end
