(* ===== verification/Work_Schedule.thy ===== *)
theory Work_Schedule
  imports Prelude
begin

text \<open>
  The work schedule of a tagma and its evaluation (\<open>kallip-tagma/src/work_schedule/{spec,eval}.rs\<close>).

  Instants are integers counting nanoseconds of UTC since the epoch, dates are the numbers of their
  days. Which weekday and which day of the month a date is, and the largest date, belong to the
  third-party calendar and are the record \<open>day_calendar\<close>; what the code relies on is \<open>cal_ok\<close>: weekdays
  and days of the month come round within 7 and within 62 days.
\<close>

section \<open>The specification\<close>

type_synonym instant = int

record duty_window =
  start_minute :: nat
  end_minute :: nat

datatype spec =
    Weekly u8 "duty_window list"
  | Monthly u32 "duty_window list"
  | Interval nat nat instant
  | Always

definition DAY_MINUTES :: nat where "DAY_MINUTES = 24 * 60"
definition MAX_WINDOWS :: nat where "MAX_WINDOWS = 10"
definition MAX_LENGTH_MINUTES :: nat where "MAX_LENGTH_MINUTES = 7 * 24 * 60"

definition MINUTE :: int where "MINUTE = 60 * 10 ^ 9"
definition DAY :: int where "DAY = 1440 * MINUTE"

datatype spec_err =
    NoDays | BadDays | NoWindows | TooManyWindows | BadStart | BadEnd | EmptyWindow | Overlap
  | ZeroHours | ZeroLength | LongLength | AnchorNotAligned

definition fail_if :: "bool \<Rightarrow> spec_err \<Rightarrow> spec_err + unit" where
  "fail_if b e = (if b then Inl e else Inr ())"

definition validate_window :: "nat \<Rightarrow> nat \<Rightarrow> spec_err + unit" where
  "validate_window s e =
     rbind (fail_if (DAY_MINUTES \<le> s) BadStart) (\<lambda>_.
     rbind (fail_if (e = 0 \<or> DAY_MINUTES < e) BadEnd) (\<lambda>_.
     fail_if (e = s) EmptyWindow))"

definition span_end :: "nat \<Rightarrow> nat \<Rightarrow> nat" where
  "span_end s e = (if e \<le> s then e + DAY_MINUTES else e)"

definition window_span :: "duty_window \<Rightarrow> int \<times> int" where
  "window_span w = (int (start_minute w), int (span_end (start_minute w) (end_minute w)))"

definition spans_overlap :: "int \<Rightarrow> int \<times> int \<Rightarrow> int \<times> int \<Rightarrow> bool" where
  "spans_overlap off a b \<longleftrightarrow> fst a < snd b - off \<and> fst b - off < snd a"

definition collide :: "int \<times> int \<Rightarrow> int \<times> int \<Rightarrow> bool" where
  "collide a b \<longleftrightarrow> spans_overlap 0 a b \<or> spans_overlap (-1440) a b \<or> spans_overlap 1440 a b"

fun any_collision :: "(int \<times> int) list \<Rightarrow> bool" where
  "any_collision [] = False"
| "any_collision (a # rest) = (list_ex (collide a) rest \<or> any_collision rest)"

fun validate_each :: "duty_window list \<Rightarrow> spec_err + unit" where
  "validate_each [] = Inr ()"
| "validate_each (w # ws) = rbind (validate_window (start_minute w) (end_minute w)) (\<lambda>_. validate_each ws)"

definition validate_windows :: "duty_window list \<Rightarrow> spec_err + unit" where
  "validate_windows ws =
     rbind (fail_if (ws = []) NoWindows) (\<lambda>_.
     rbind (fail_if (MAX_WINDOWS < length ws) TooManyWindows) (\<lambda>_.
     rbind (validate_each ws) (\<lambda>_.
     fail_if (any_collision (map window_span ws)) Overlap)))"

fun validate_spec :: "spec \<Rightarrow> spec_err + unit" where
  "validate_spec (Weekly days ws) =
     rbind (fail_if (days = 0) NoDays) (\<lambda>_. rbind (fail_if (127 < days) BadDays) (\<lambda>_. validate_windows ws))"
| "validate_spec (Monthly days ws) =
     rbind (fail_if (days = 0) NoDays) (\<lambda>_. rbind (fail_if (2 ^ 31 - 1 < days) BadDays) (\<lambda>_. validate_windows ws))"
| "validate_spec (Interval hours len anchor) =
     rbind (fail_if (hours = 0) ZeroHours) (\<lambda>_.
     rbind (fail_if (len = 0) ZeroLength) (\<lambda>_.
     rbind (fail_if (MAX_LENGTH_MINUTES < len) LongLength) (\<lambda>_.
     fail_if (anchor mod MINUTE \<noteq> 0) AnchorNotAligned)))"
| "validate_spec Always = Inr ()"

section \<open>Evaluation\<close>

record day_calendar =
  cal_weekday :: "int \<Rightarrow> nat"
  cal_day :: "int \<Rightarrow> nat"
  cal_min :: int
  cal_max :: int

record window_status =
  ws_inside :: bool
  ws_next_start :: instant
  ws_next_end :: instant

definition checked_day :: "day_calendar \<Rightarrow> int \<Rightarrow> int option" where
  "checked_day cal d = (if cal_min cal \<le> d \<and> d \<le> cal_max cal then Some d else None)"

definition eval_interval :: "nat \<Rightarrow> nat \<Rightarrow> instant \<Rightarrow> instant \<Rightarrow> window_status" where
  "eval_interval hours len anchor now =
     (let period = int hours * 60 * MINUTE;
          length = int len * MINUTE
      in if now < anchor then \<lparr>ws_inside = False, ws_next_start = anchor, ws_next_end = anchor + length\<rparr>
         else (let k = (now - anchor) div 10 ^ 9 div (int hours * 3600);
                   window_start = anchor + k * period;
                   window_end = window_start + length
               in if window_start \<le> now \<and> now < window_end
                  then \<lparr>ws_inside = True, ws_next_start = window_start + period, ws_next_end = window_end\<rparr>
                  else (let nxt = window_start + period
                        in \<lparr>ws_inside = False, ws_next_start = nxt, ws_next_end = nxt + length\<rparr>)))"

text \<open>The span of a window laid on a date that fires.\<close>

definition span_on :: "day_calendar \<Rightarrow> (int \<Rightarrow> bool) \<Rightarrow> int \<Rightarrow> duty_window \<Rightarrow> (instant \<times> instant) option" where
  "span_on cal fires d w =
     (if \<not> fires d then None
      else (let s = start_minute w; e = span_end s (end_minute w)
            in if DAY_MINUTES \<le> s then None
               else case checked_day cal (d + int (e div DAY_MINUTES)) of
                      None \<Rightarrow> None
                    | Some d' \<Rightarrow> Some (d * DAY + int s * MINUTE, d' * DAY + int (e mod DAY_MINUTES) * MINUTE)))"

record cal_scan =
  sc_next_start :: "instant option"
  sc_next_end :: "instant option"
  sc_covering_end :: "instant option"

definition keep_least :: "instant option \<Rightarrow> instant \<Rightarrow> instant option" where
  "keep_least m x = (case m of None \<Rightarrow> Some x | Some y \<Rightarrow> if x < y then Some x else Some y)"

definition keep_greatest :: "instant option \<Rightarrow> instant \<Rightarrow> instant option" where
  "keep_greatest m x = (case m of None \<Rightarrow> Some x | Some y \<Rightarrow> if x \<le> y then Some y else Some x)"

definition scan_window :: "day_calendar \<Rightarrow> (int \<Rightarrow> bool) \<Rightarrow> instant \<Rightarrow> int \<Rightarrow> duty_window \<Rightarrow> cal_scan \<Rightarrow> cal_scan" where
  "scan_window cal fires now d w sc =
     (case span_on cal fires d w of
        None \<Rightarrow> sc
      | Some (ws, we) \<Rightarrow>
          if ws \<le> now \<and> now < we then sc\<lparr>sc_covering_end := keep_greatest (sc_covering_end sc) we\<rparr>
          else if now < ws
          then sc\<lparr>sc_next_start := keep_least (sc_next_start sc) ws, sc_next_end := keep_least (sc_next_end sc) we\<rparr>
          else sc)"

fun scan_days ::
  "day_calendar \<Rightarrow> (int \<Rightarrow> bool) \<Rightarrow> duty_window list \<Rightarrow> instant \<Rightarrow> int list \<Rightarrow> cal_scan \<Rightarrow> cal_scan option" where
  "scan_days cal fires ws now [] sc = Some sc"
| "scan_days cal fires ws now (d # ds) sc =
     (case checked_day cal d of
        None \<Rightarrow> None
      | Some d' \<Rightarrow> scan_days cal fires ws now ds (fold (scan_window cal fires now d') ws sc))"

definition eval_calendar :: "day_calendar \<Rightarrow> (int \<Rightarrow> bool) \<Rightarrow> duty_window list \<Rightarrow> instant \<Rightarrow> window_status option" where
  "eval_calendar cal fires ws now =
     (let today = now div DAY
      in case scan_days cal fires ws now (map (\<lambda>off. today + off) [-1..70])
                \<lparr>sc_next_start = None, sc_next_end = None, sc_covering_end = None\<rparr> of
           None \<Rightarrow> None
         | Some sc \<Rightarrow>
             (case sc_covering_end sc of
                Some e \<Rightarrow> map_option (\<lambda>s. \<lparr>ws_inside = True, ws_next_start = s, ws_next_end = e\<rparr>) (sc_next_start sc)
              | None \<Rightarrow>
                  Option.bind (sc_next_start sc) (\<lambda>s.
                  map_option (\<lambda>e. \<lparr>ws_inside = False, ws_next_start = s, ws_next_end = e\<rparr>) (sc_next_end sc))))"

definition week_fires :: "day_calendar \<Rightarrow> u8 \<Rightarrow> int \<Rightarrow> bool" where
  "week_fires cal days d = bit days (cal_weekday cal d - 1)"

definition month_fires :: "day_calendar \<Rightarrow> u32 \<Rightarrow> int \<Rightarrow> bool" where
  "month_fires cal days d = bit days (cal_day cal d - 1)"

fun window_status_at :: "day_calendar \<Rightarrow> spec \<Rightarrow> instant \<Rightarrow> window_status option" where
  "window_status_at cal (Interval hours len anchor) now = Some (eval_interval hours len anchor now)"
| "window_status_at cal (Weekly days ws) now = eval_calendar cal (week_fires cal days) ws now"
| "window_status_at cal (Monthly days ws) now = eval_calendar cal (month_fires cal days) ws now"
| "window_status_at cal Always now =
     Some \<lparr>ws_inside = True, ws_next_start = now + 30 * DAY, ws_next_end = now + 30 * DAY\<rparr>"

section \<open>What a schedule means\<close>

definition cal_ok :: "day_calendar \<Rightarrow> bool" where
  "cal_ok cal \<longleftrightarrow>
     (\<forall>d. 1 \<le> cal_weekday cal d \<and> 1 \<le> cal_day cal d) \<and>
     (\<forall>d k. 1 \<le> k \<and> k \<le> 7 \<longrightarrow> (\<exists>m. d \<le> m \<and> m < d + 7 \<and> cal_weekday cal m = k)) \<and>
     (\<forall>d k. 1 \<le> k \<and> k \<le> 31 \<longrightarrow> (\<exists>m. d \<le> m \<and> m < d + 62 \<and> cal_day cal m = k))"

definition in_range :: "day_calendar \<Rightarrow> instant \<Rightarrow> bool" where
  "in_range cal now \<longleftrightarrow> cal_min cal < now div DAY \<and> now div DAY + 71 < cal_max cal"

text \<open>All shifts of a schedule: a window on every date that fires, or every turn of the rotation.\<close>

definition day_span :: "int \<Rightarrow> duty_window \<Rightarrow> instant \<times> instant" where
  "day_span d w = (d * DAY + int (start_minute w) * MINUTE, d * DAY + int (span_end (start_minute w) (end_minute w)) * MINUTE)"

fun shifts :: "day_calendar \<Rightarrow> spec \<Rightarrow> (instant \<times> instant) set" where
  "shifts cal (Weekly days ws) = {day_span d w | d w. week_fires cal days d \<and> w \<in> set ws}"
| "shifts cal (Monthly days ws) = {day_span d w | d w. month_fires cal days d \<and> w \<in> set ws}"
| "shifts cal (Interval hours len anchor) =
     {(anchor + k * (int hours * 60 * MINUTE), anchor + k * (int hours * 60 * MINUTE) + int len * MINUTE) | k. 0 \<le> k}"
| "shifts cal Always = UNIV"

definition covering :: "day_calendar \<Rightarrow> spec \<Rightarrow> instant \<Rightarrow> (instant \<times> instant) set" where
  "covering cal sp now = {(s, e) \<in> shifts cal sp. s \<le> now \<and> now < e}"

definition on_duty :: "day_calendar \<Rightarrow> spec \<Rightarrow> instant \<Rightarrow> bool" where
  "on_duty cal sp now \<longleftrightarrow> covering cal sp now \<noteq> {}"

definition least_of :: "int set \<Rightarrow> int \<Rightarrow> bool" where
  "least_of S x \<longleftrightarrow> x \<in> S \<and> (\<forall>y \<in> S. x \<le> y)"

definition greatest_of :: "int set \<Rightarrow> int \<Rightarrow> bool" where
  "greatest_of S x \<longleftrightarrow> x \<in> S \<and> (\<forall>y \<in> S. y \<le> x)"

definition future :: "day_calendar \<Rightarrow> spec \<Rightarrow> instant \<Rightarrow> (instant \<times> instant) set" where
  "future cal sp now = {(s, e) \<in> shifts cal sp. now < s}"

definition status_right :: "day_calendar \<Rightarrow> spec \<Rightarrow> instant \<Rightarrow> window_status \<Rightarrow> bool" where
  "status_right cal sp now st \<longleftrightarrow>
     (ws_inside st \<longleftrightarrow> on_duty cal sp now) \<and> least_of (fst ` future cal sp now) (ws_next_start st) \<and>
     (if ws_inside st then greatest_of (snd ` covering cal sp now) (ws_next_end st)
      else least_of (snd ` future cal sp now) (ws_next_end st))"

section \<open>The rotation\<close>

lemma eval_interval_right:
  assumes "0 < hours" "0 < len"
  shows "status_right cal (Interval hours len anchor) now (eval_interval hours len anchor now)"
proof -
  define P where "P = int hours * 60 * MINUTE"
  define L where "L = int len * MINUTE"
  have M: "0 < MINUTE" by (simp add: MINUTE_def)
  have P: "0 < P" using assms(1) by (simp add: P_def MINUTE_def)
  have L: "0 < L" using assms(2) by (simp add: L_def MINUTE_def)
  define k where "k = (now - anchor) div P"
  have kk: "(now - anchor) div 10 ^ 9 div (int hours * 3600) = k"
    by (simp add: k_def P_def MINUTE_def zdiv_zmult2_eq [symmetric] ac_simps)
  have sh: "shifts cal (Interval hours len anchor) = {(anchor + i * P, anchor + i * P + L) | i. 0 \<le> i}"
    by (simp add: P_def L_def)
  have fut: "fst ` future cal (Interval hours len anchor) now = {anchor + i * P | i. 0 \<le> i \<and> now < anchor + i * P}"
      "snd ` future cal (Interval hours len anchor) now = {anchor + i * P + L | i. 0 \<le> i \<and> now < anchor + i * P}"
    unfolding future_def sh by force+
  have cov: "covering cal (Interval hours len anchor) now =
      {(anchor + i * P, anchor + i * P + L) | i. 0 \<le> i \<and> anchor + i * P \<le> now \<and> now < anchor + i * P + L}"
    unfolding covering_def sh by auto
  show ?thesis
  proof (cases "now < anchor")
    case True
    have "anchor \<le> anchor + i * P" if "0 \<le> i" for i using that P by simp
    then have "least_of (fst ` future cal (Interval hours len anchor) now) anchor"
        "least_of (snd ` future cal (Interval hours len anchor) now) (anchor + L)" "covering cal (Interval hours len anchor) now = {}"
      unfolding fut cov least_of_def using True by (fastforce intro: exI [of _ 0])+
    then show ?thesis using True by (simp add: status_right_def on_duty_def eval_interval_def Let_def L_def [symmetric] P_def [symmetric])
  next
    case False
    then have k0: "0 \<le> k" using P by (simp add: k_def pos_imp_zdiv_nonneg_iff)
    have ws: "anchor + k * P \<le> now" "now < anchor + k * P + P"
    proof -
      have eq: "k * P + (now - anchor) mod P = now - anchor" by (simp add: k_def)
      have "0 \<le> (now - anchor) mod P" "(now - anchor) mod P < P" using P by simp_all
      with eq show "anchor + k * P \<le> now" "now < anchor + k * P + P" by linarith+
    qed
    have le: "i \<le> k" if "anchor + i * P \<le> now" for i
    proof (rule ccontr)
      assume "\<not> i \<le> k"
      then have "(k + 1) * P \<le> i * P" using P by (intro mult_right_mono) auto
      then show False using ws(2) that by (simp add: algebra_simps)
    qed
    have ge: "k + 1 \<le> i" if "now < anchor + i * P" for i
    proof (rule ccontr)
      assume "\<not> k + 1 \<le> i"
      then have "i * P \<le> k * P" using P by (intro mult_right_mono) auto
      then show False using ws(1) that by simp
    qed
    have up: "anchor + k * P + P \<le> anchor + i * P" if "k + 1 \<le> i" for i
      using mult_right_mono [OF that, of P] P by (simp add: algebra_simps)
    have least: "least_of (fst ` future cal (Interval hours len anchor) now) (anchor + k * P + P)"
        "least_of (snd ` future cal (Interval hours len anchor) now) (anchor + k * P + P + L)"
      unfolding fut least_of_def using ws ge up k0 by (fastforce intro: exI [of _ "k + 1"] simp: algebra_simps)+
    have down: "anchor + i * P \<le> anchor + k * P" if "i \<le> k" for i using mult_right_mono [OF that, of P] P by simp
    have duty: "covering cal (Interval hours len anchor) now \<noteq> {} \<longleftrightarrow> now < anchor + k * P + L"
      unfolding cov using ws k0 le down by fastforce
    have greatest: "greatest_of (snd ` covering cal (Interval hours len anchor) now) (anchor + k * P + L)" if "now < anchor + k * P + L"
    proof -
      have sc: "snd ` covering cal (Interval hours len anchor) now = {anchor + i * P + L | i. 0 \<le> i \<and> anchor + i * P \<le> now \<and> now < anchor + i * P + L}"
        unfolding cov by force
      show ?thesis unfolding sc greatest_of_def using that ws k0 le down by auto
    qed
    show ?thesis using False ws(1) least duty greatest
      by (simp add: status_right_def on_duty_def eval_interval_def Let_def kk [simplified] L_def [symmetric] P_def [symmetric])
  qed
qed

section \<open>The calendar scan\<close>

definition opt_min :: "int set \<Rightarrow> int option" where
  "opt_min A = (if A = {} then None else Some (Min A))"

definition opt_max :: "int set \<Rightarrow> int option" where
  "opt_max A = (if A = {} then None else Some (Max A))"

lemma keep_least_insert: "finite A \<Longrightarrow> keep_least (opt_min A) x = opt_min (insert x A)"
  by (cases "A = {}") (simp_all add: keep_least_def opt_min_def min_def del: Min_gr_iff Min_ge_iff Min_le_iff Min_less_iff)

lemma keep_greatest_insert: "finite A \<Longrightarrow> keep_greatest (opt_max A) x = opt_max (insert x A)"
  by (cases "A = {}") (simp_all add: keep_greatest_def opt_max_def max_def del: Max_ge_iff Max_le_iff Max_less_iff Max_gr_iff)

lemma opt_min_Some: "finite A \<Longrightarrow> A \<noteq> {} \<Longrightarrow> \<exists>x. opt_min A = Some x \<and> least_of A x"
  by (auto simp: opt_min_def least_of_def intro: Min_in)

lemma opt_max_Some: "finite A \<Longrightarrow> A \<noteq> {} \<Longrightarrow> \<exists>x. opt_max A = Some x \<and> greatest_of A x"
  by (auto simp: opt_max_def greatest_of_def intro: Max_in)

definition tracks :: "instant \<Rightarrow> (instant \<times> instant) set \<Rightarrow> cal_scan \<Rightarrow> bool" where
  "tracks now S sc \<longleftrightarrow> finite S \<and>
     sc_next_start sc = opt_min (fst ` {p \<in> S. now < fst p}) \<and> sc_next_end sc = opt_min (snd ` {p \<in> S. now < fst p}) \<and>
     sc_covering_end sc = opt_max (snd ` {p \<in> S. fst p \<le> now \<and> now < snd p})"

definition laid :: "day_calendar \<Rightarrow> (int \<Rightarrow> bool) \<Rightarrow> duty_window list \<Rightarrow> int \<Rightarrow> (instant \<times> instant) set" where
  "laid cal fires ws d = {p. \<exists>w \<in> set ws. span_on cal fires d w = Some p}"

lemma tracks_insert:
  assumes "tracks now S sc" "span_on cal fires d w = Some p"
  shows "tracks now (insert p S) (scan_window cal fires now d w sc)"
proof -
  have f: "finite (fst ` {p \<in> S. now < fst p})" "finite (snd ` {p \<in> S. now < fst p})" "finite (snd ` {p \<in> S. fst p \<le> now \<and> now < snd p})"
    using assms(1) by (simp_all add: tracks_def)
  have ins: "{q. (q = p \<or> q \<in> S) \<and> Q q} = (if Q p then insert p {q \<in> S. Q q} else {q \<in> S. Q q})" for Q by auto
  show ?thesis
    using assms(1) keep_least_insert [OF f(1)] keep_least_insert [OF f(2)] keep_greatest_insert [OF f(3)]
    by (cases "fst p \<le> now"; cases "now < snd p") (simp_all add: tracks_def scan_window_def assms(2) ins case_prod_beta)
qed

lemma tracks_skip: "tracks now S sc \<Longrightarrow> span_on cal fires d w = None \<Longrightarrow> tracks now S (scan_window cal fires now d w sc)"
  by (simp add: scan_window_def)

lemma tracks_windows: "tracks now S sc \<Longrightarrow> tracks now (S \<union> laid cal fires ws d) (fold (scan_window cal fires now d) ws sc)"
proof (induction ws arbitrary: S sc)
  case Nil
  then show ?case by (simp add: laid_def)
next
  case (Cons w ws)
  show ?case
  proof (cases "span_on cal fires d w")
    case None
    then have "laid cal fires (w # ws) d = laid cal fires ws d" by (auto simp: laid_def)
    then show ?thesis using Cons.IH [OF tracks_skip [OF Cons.prems None]] by simp
  next
    case (Some p)
    then have "S \<union> laid cal fires (w # ws) d = insert p S \<union> laid cal fires ws d" by (auto simp: laid_def)
    then show ?thesis using Cons.IH [OF tracks_insert [OF Cons.prems Some]] by simp
  qed
qed

lemma tracks_days:
  assumes "tracks now S sc" "\<forall>d \<in> set ds. cal_min cal \<le> d \<and> d \<le> cal_max cal"
  shows "\<exists>sc'. scan_days cal fires ws now ds sc = Some sc' \<and> tracks now (S \<union> (\<Union>d \<in> set ds. laid cal fires ws d)) sc'"
  using assms
proof (induction ds arbitrary: S sc)
  case (Cons d ds)
  from Cons.IH [OF tracks_windows [OF Cons.prems(1), of cal fires ws d]] Cons.prems(2) show ?case
    by (simp add: checked_day_def Un_assoc)
qed simp

definition window_ok :: "duty_window \<Rightarrow> bool" where
  "window_ok w \<longleftrightarrow> start_minute w < 1440 \<and> 0 < end_minute w \<and> end_minute w \<le> 1440"

lemma span_on_ok:
  assumes "window_ok w" "fires d" "cal_min cal \<le> d" "d + 1 \<le> cal_max cal"
  shows "span_on cal fires d w = Some (day_span d w)"
proof -
  let ?e = "span_end (start_minute w) (end_minute w)"
  have "?e < 2 * 1440" using assms(1) by (simp add: span_end_def window_ok_def DAY_MINUTES_def)
  then have "?e div 1440 \<le> 1" by (simp add: less_mult_imp_div_less)
  then have c: "checked_day cal (d + int (?e div 1440)) = Some (d + int (?e div 1440))"
    using assms(3,4) by (simp add: checked_day_def)
  have "int ?e = int (?e div 1440) * 1440 + int (?e mod 1440)" by (metis div_mult_mod_eq of_nat_add of_nat_mult of_nat_numeral)
  then have "(d + int (?e div 1440)) * DAY + int (?e mod 1440) * MINUTE = d * DAY + int ?e * MINUTE"
    by (simp add: DAY_def algebra_simps)
  then show ?thesis using assms(1,2) c by (simp add: span_on_def day_span_def Let_def DAY_MINUTES_def window_ok_def)
qed

lemma day_span_bounds:
  assumes "window_ok w"
  shows "d * DAY \<le> fst (day_span d w)" "fst (day_span d w) < (d + 1) * DAY" "fst (day_span d w) < snd (day_span d w)"
    "snd (day_span d w) < (d + 2) * DAY"
proof -
  have M: "0 < MINUTE" by (simp add: MINUTE_def)
  have s: "int (start_minute w) < 1440" "int (span_end (start_minute w) (end_minute w)) < 2880"
      "int (start_minute w) < int (span_end (start_minute w) (end_minute w))"
    using assms by (auto simp: window_ok_def span_end_def DAY_MINUTES_def)
  show "d * DAY \<le> fst (day_span d w)" by (simp add: day_span_def MINUTE_def)
  have "int (start_minute w) * MINUTE < 1440 * MINUTE" using s(1) M by (rule mult_strict_right_mono)
  then show "fst (day_span d w) < (d + 1) * DAY" by (simp add: day_span_def DAY_def algebra_simps)
  have "int (start_minute w) * MINUTE < int (span_end (start_minute w) (end_minute w)) * MINUTE"
    using s(3) M by (rule mult_strict_right_mono)
  then show "fst (day_span d w) < snd (day_span d w)" by (simp add: day_span_def)
  have "int (span_end (start_minute w) (end_minute w)) * MINUTE < 2880 * MINUTE" using s(2) M by (rule mult_strict_right_mono)
  then show "snd (day_span d w) < (d + 2) * DAY" by (simp add: day_span_def DAY_def algebra_simps)
qed

text \<open>
  What both mask modes have: lawful windows, a selected date within any 62 days, dates in range. The
  scan looks at the shifts \<open>near\<close> the day of \<open>now\<close>.
\<close>

definition scan_ok :: "day_calendar \<Rightarrow> (int \<Rightarrow> bool) \<Rightarrow> duty_window list \<Rightarrow> instant \<Rightarrow> bool" where
  "scan_ok cal fires ws now \<longleftrightarrow> ws \<noteq> [] \<and> (\<forall>w \<in> set ws. window_ok w) \<and> (\<forall>d. \<exists>m. d \<le> m \<and> m < d + 62 \<and> fires m) \<and> in_range cal now"

definition all_shifts :: "(int \<Rightarrow> bool) \<Rightarrow> duty_window list \<Rightarrow> (instant \<times> instant) set" where
  "all_shifts fires ws = {day_span d w | d w. fires d \<and> w \<in> set ws}"

definition near :: "(int \<Rightarrow> bool) \<Rightarrow> duty_window list \<Rightarrow> instant \<Rightarrow> (instant \<times> instant) set" where
  "near fires ws now =
     {day_span d w | d w. now div DAY - 1 \<le> d \<and> d \<le> now div DAY + 70 \<and> fires d \<and> w \<in> set ws}"

lemma DAY_pos: "0 < DAY"
  by (simp add: DAY_def MINUTE_def)

lemma day_bounds: "now div DAY * DAY \<le> now" "now < (now div DAY + 1) * DAY"
proof -
  have eq: "now div DAY * DAY + now mod DAY = now" by (rule div_mult_mod_eq)
  have md: "0 \<le> now mod DAY" "now mod DAY < DAY" using DAY_pos by simp_all
  show "now div DAY * DAY \<le> now" using eq md(1) by linarith
  show "now < (now div DAY + 1) * DAY" unfolding distrib_right using eq md(2) by linarith
qed

lemma day_mono: "a \<le> b \<Longrightarrow> a * DAY \<le> b * DAY"
  using DAY_pos by (intro mult_right_mono) auto

lemma day_less: "a * DAY < (b + 1) * DAY \<Longrightarrow> a \<le> b"
  using mult_less_cancel_right_pos [OF DAY_pos] by simp

lemma shift_bounds:
  assumes "scan_ok cal fires ws now" "(s, e) = day_span d w" "w \<in> set ws"
  shows "d * DAY \<le> s" "s < (d + 1) * DAY" "s < e" "e < (d + 2) * DAY"
  using day_span_bounds [of w d] assms by (metis fst_conv snd_conv scan_ok_def)+

lemma near_scanned:
  assumes "scan_ok cal fires ws now"
  shows "\<exists>sc. scan_days cal fires ws now (map (\<lambda>off. now div DAY + off) [-1..70])
      \<lparr>sc_next_start = None, sc_next_end = None, sc_covering_end = None\<rparr> = Some sc \<and> tracks now (near fires ws now) sc"
proof -
  let ?ds = "map (\<lambda>off. now div DAY + off) [-1..70]"
  have ds: "set ?ds = {now div DAY - 1..now div DAY + 70}"
  proof -
    have "x \<in> set ?ds" if "now div DAY - 1 \<le> x" "x \<le> now div DAY + 70" for x
      using that by (simp add: image_iff)
    then show ?thesis by auto
  qed
  have inr: "cal_min cal \<le> d \<and> d + 1 \<le> cal_max cal" if "d \<in> set ?ds" for d
    using that assms unfolding ds scan_ok_def in_range_def by auto
  have "laid cal fires ws d = {day_span d w | w. fires d \<and> w \<in> set ws}" if "d \<in> set ?ds" for d
  proof -
    have "span_on cal fires d w = (if fires d then Some (day_span d w) else None)" if "w \<in> set ws" for w
      using span_on_ok [of w fires d cal] inr [OF \<open>d \<in> set ?ds\<close>] assms that by (auto simp: span_on_def scan_ok_def)
    then show ?thesis by (auto simp: laid_def) (metis option.inject)+
  qed
  then have "(\<Union>d \<in> set ?ds. laid cal fires ws d) = (\<Union>d \<in> set ?ds. {day_span d w | w. fires d \<and> w \<in> set ws})" by simp
  also have "\<dots> = near fires ws now" unfolding ds near_def atLeastAtMost_def atLeast_def atMost_def by blast
  finally have laid: "(\<Union>d \<in> set ?ds. laid cal fires ws d) = near fires ws now" .
  have "tracks now {} \<lparr>sc_next_start = None, sc_next_end = None, sc_covering_end = None\<rparr>"
    by (simp add: tracks_def opt_min_def opt_max_def)
  moreover have "\<forall>d \<in> set ?ds. cal_min cal \<le> d \<and> d \<le> cal_max cal" using inr by fastforce
  ultimately show ?thesis using tracks_days [of now "{}" _ ?ds cal fires ws] laid by fastforce
qed

lemma near_soon:
  assumes "scan_ok cal fires ws now"
  shows "\<exists>p \<in> near fires ws now. now < fst p \<and> fst p < (now div DAY + 71) * DAY \<and> snd p < (now div DAY + 71) * DAY"
proof -
  obtain m where m: "now div DAY + 1 \<le> m" "m < now div DAY + 63" "fires m"
    using assms unfolding scan_ok_def by (metis add.assoc add.left_commute one_plus_numeral semiring_norm(3) semiring_norm(9))
  obtain w where w: "w \<in> set ws" using assms unfolding scan_ok_def by (metis list.set_sel(1))
  note b = shift_bounds [OF assms prod.collapse w, of m]
  have "now < fst (day_span m w)" using b(1) day_mono [OF m(1)] day_bounds(2) [of now] by linarith
  moreover have "fst (day_span m w) < (now div DAY + 71) * DAY" "snd (day_span m w) < (now div DAY + 71) * DAY"
    using b(2,4) day_mono [of "m + 1" "now div DAY + 71"] day_mono [of "m + 2" "now div DAY + 71"] m(2) by linarith+
  moreover have "day_span m w \<in> near fires ws now" unfolding near_def using m w by fastforce
  ultimately show ?thesis by blast
qed

lemma near_late:
  assumes ok: "scan_ok cal fires ws now" and "(s, e) \<in> all_shifts fires ws" "now < s" "(s, e) \<notin> near fires ws now"
  shows "(now div DAY + 71) * DAY \<le> s" "s < e"
proof -
  obtain d w where d: "(s, e) = day_span d w" "fires d" "w \<in> set ws"
    using assms(2) unfolding all_shifts_def mem_Collect_eq by metis
  note b = shift_bounds [OF ok d(1,3)]
  have "now div DAY \<le> d" using day_less [of "now div DAY" d] b(2) assms(3) day_bounds(1) [of now] by linarith
  then have "now div DAY + 71 \<le> d" using assms(4) d unfolding near_def by force
  from day_mono [OF this] b(1) show "(now div DAY + 71) * DAY \<le> s" by linarith
  show "s < e" by (rule b(3))
qed

lemma near_covers:
  assumes ok: "scan_ok cal fires ws now"
  shows "{q \<in> all_shifts fires ws. fst q \<le> now \<and> now < snd q} = {q \<in> near fires ws now. fst q \<le> now \<and> now < snd q}"
proof -
  have "(s, e) \<in> near fires ws now" if q: "(s, e) \<in> all_shifts fires ws" "s \<le> now" "now < e" for s e
  proof -
    obtain d w where d: "(s, e) = day_span d w" "fires d" "w \<in> set ws"
      using q(1) unfolding all_shifts_def mem_Collect_eq by metis
    note b = shift_bounds [OF ok d(1,3)]
    have "d \<le> now div DAY" using day_less [of d "now div DAY"] b(1) q(2) day_bounds(2) [of now] by linarith
    moreover have "now div DAY \<le> d + 1"
      using day_less [of "now div DAY" "d + 1"] b(4) q(3) day_bounds(1) [of now] by (simp add: algebra_simps)
    ultimately show ?thesis unfolding near_def mem_Collect_eq using d by (intro exI [of _ d] exI [of _ w]) simp
  qed
  moreover have "near fires ws now \<subseteq> all_shifts fires ws" unfolding near_def all_shifts_def by blast
  ultimately show ?thesis by auto
qed

lemma least_extends:
  assumes "least_of (f ` A) x" "A \<subseteq> B" "\<And>b. b \<in> B \<Longrightarrow> b \<notin> A \<Longrightarrow> x \<le> f b"
  shows "least_of (f ` B) x"
  using assms unfolding least_of_def by (metis image_iff subsetD)

lemma near_least:
  assumes ok: "scan_ok cal fires ws now" and f: "f = fst \<or> f = snd"
  shows "\<exists>x. opt_min (f ` {q \<in> near fires ws now. now < fst q}) = Some x \<and> least_of (f ` {q \<in> all_shifts fires ws. now < fst q}) x"
proof -
  let ?F = "{q \<in> near fires ws now. now < fst q}"
  obtain sc where "tracks now (near fires ws now) sc" using near_scanned [OF ok] by blast
  then have "finite (f ` ?F)" by (simp add: tracks_def)
  moreover obtain p where p: "p \<in> ?F" "f p < (now div DAY + 71) * DAY" using near_soon [OF ok] f by blast
  ultimately obtain x where x: "opt_min (f ` ?F) = Some x" "least_of (f ` ?F) x" using opt_min_Some [of "f ` ?F"] by blast
  have xp: "x \<le> f p" using x(2) p(1) unfolding least_of_def by blast
  have "least_of (f ` {q \<in> all_shifts fires ws. now < fst q}) x"
  proof (rule least_extends [OF x(2)])
    show "?F \<subseteq> {q \<in> all_shifts fires ws. now < fst q}" unfolding near_def all_shifts_def by blast
    fix b assume b: "b \<in> {q \<in> all_shifts fires ws. now < fst q}" "b \<notin> ?F"
    then have late: "(now div DAY + 71) * DAY \<le> fst b" "fst b < snd b"
      using near_late [OF ok, of "fst b" "snd b"] by auto
    then show "x \<le> f b" using xp p(2) f by auto
  qed
  with x(1) show ?thesis by blast
qed

lemma eval_calendar_right:
  assumes ok: "scan_ok cal fires ws now" and sh: "shifts cal sp = all_shifts fires ws"
  shows "\<exists>st. eval_calendar cal fires ws now = Some st \<and> status_right cal sp now st"
proof -
  from near_scanned [OF ok] obtain sc where sc: "scan_days cal fires ws now (map (\<lambda>off. now div DAY + off) [-1..70])
      \<lparr>sc_next_start = None, sc_next_end = None, sc_covering_end = None\<rparr> = Some sc" and tr: "tracks now (near fires ws now) sc" by blast
  have fut: "future cal sp now = {q \<in> all_shifts fires ws. now < fst q}" by (auto simp: future_def sh)
  have cov: "covering cal sp now = {q \<in> near fires ws now. fst q \<le> now \<and> now < snd q}"
    unfolding near_covers [OF ok, symmetric] by (auto simp: covering_def sh)
  obtain s e where s: "sc_next_start sc = Some s" "least_of (fst ` future cal sp now) s"
      and e: "sc_next_end sc = Some e" "least_of (snd ` future cal sp now) e"
    using near_least [OF ok, of fst] near_least [OF ok, of snd] tr unfolding tracks_def fut by auto
  show ?thesis
  proof (cases "covering cal sp now = {}")
    case True
    then have "sc_covering_end sc = None" using tr by (simp add: tracks_def opt_max_def cov)
    then have "eval_calendar cal fires ws now = Some \<lparr>ws_inside = False, ws_next_start = s, ws_next_end = e\<rparr>"
      using sc s(1) e(1) by (simp add: eval_calendar_def Let_def)
    then show ?thesis using True s(2) e(2) by (simp add: status_right_def on_duty_def)
  next
    case False
    then obtain c where c: "sc_covering_end sc = Some c" "greatest_of (snd ` covering cal sp now) c"
      using opt_max_Some [of "snd ` covering cal sp now"] tr unfolding tracks_def cov by auto
    then have "eval_calendar cal fires ws now = Some \<lparr>ws_inside = True, ws_next_start = s, ws_next_end = c\<rparr>"
      using sc s(1) by (simp add: eval_calendar_def Let_def)
    then show ?thesis using False s(2) c(2) by (simp add: status_right_def on_duty_def)
  qed
qed


section \<open>The answer lies ahead\<close>

text \<open>Without any hypothesis on the calendar: the next start, and the end of a covering window, are later than \<open>now\<close>.\<close>

definition scan_ahead :: "instant \<Rightarrow> cal_scan \<Rightarrow> bool" where
  "scan_ahead now sc \<longleftrightarrow> (\<forall>s. sc_next_start sc = Some s \<longrightarrow> now < s) \<and> (\<forall>e. sc_covering_end sc = Some e \<longrightarrow> now < e)"

lemma scan_ahead_window: "scan_ahead now sc \<Longrightarrow> scan_ahead now (scan_window cal fires now d w sc)"
  by (auto simp: scan_ahead_def scan_window_def keep_least_def keep_greatest_def split: option.splits if_splits)

lemma scan_ahead_fold: "scan_ahead now sc \<Longrightarrow> scan_ahead now (fold (scan_window cal fires now d) ws sc)"
  by (induction ws arbitrary: sc) (auto intro: scan_ahead_window)

lemma scan_ahead_days: "scan_ahead now sc \<Longrightarrow> scan_days cal fires ws now ds sc = Some sc' \<Longrightarrow> scan_ahead now sc'"
  by (induction ds arbitrary: sc) (auto intro: scan_ahead_fold split: option.splits)

lemma eval_calendar_ahead:
  assumes "eval_calendar cal fires ws now = Some st"
  shows "now < ws_next_start st \<and> (ws_inside st \<longrightarrow> now < ws_next_end st)"
proof -
  obtain sc where sc: "scan_days cal fires ws now (map (\<lambda>off. now div DAY + off) [-1..70])
      \<lparr>sc_next_start = None, sc_next_end = None, sc_covering_end = None\<rparr> = Some sc"
    using assms by (auto simp: eval_calendar_def Let_def split: option.splits)
  have "scan_ahead now sc" by (rule scan_ahead_days [OF _ sc]) (simp add: scan_ahead_def)
  then show ?thesis using assms sc
    by (auto simp: eval_calendar_def Let_def scan_ahead_def bind_eq_Some_conv split: option.splits)
qed

fun spec_turns :: "spec \<Rightarrow> bool" where
  "spec_turns (Interval hours len anchor) \<longleftrightarrow> 0 < hours \<and> 0 < len"
| "spec_turns _ \<longleftrightarrow> True"

lemma window_status_ahead:
  assumes "window_status_at cal sp now = Some st" "spec_turns sp"
  shows "now < ws_next_start st \<and> (ws_inside st \<longrightarrow> now < ws_next_end st)"
proof (cases sp)
  case (Interval hours len anchor)
  then have "status_right cal sp now st" using eval_interval_right [of hours len cal anchor now] assms by simp
  then show ?thesis
    by (auto simp: status_right_def least_of_def greatest_of_def future_def covering_def split: if_splits)
qed (use assms eval_calendar_ahead in \<open>auto simp: DAY_def MINUTE_def\<close>)

section \<open>Validated schedules\<close>

lemma fail_if_ok: "fail_if b e = Inr () \<longleftrightarrow> \<not> b"
  by (simp add: fail_if_def)

lemma rbind_fail_if: "rbind (fail_if b e) (\<lambda>_. k) = Inr () \<longleftrightarrow> \<not> b \<and> k = Inr ()"
  by (simp add: fail_if_def)

lemma validate_window_ok: "validate_window s e = Inr () \<longleftrightarrow> s < 1440 \<and> 0 < e \<and> e \<le> 1440 \<and> e \<noteq> s"
  by (auto simp: validate_window_def rbind_fail_if fail_if_ok DAY_MINUTES_def)

lemma validate_each_ok: "validate_each ws = Inr () \<Longrightarrow> w \<in> set ws \<Longrightarrow> window_ok w"
proof (induction ws)
  case (Cons v ws)
  from Cons.prems(1) have "validate_window (start_minute v) (end_minute v) = Inr ()" "validate_each ws = Inr ()"
    by (simp_all add: rbind_def split: sum.splits)
  then show ?case using Cons by (auto simp: validate_window_ok window_ok_def)
qed simp

lemma validate_windows_ok:
  assumes "validate_windows ws = Inr ()"
  shows "ws \<noteq> []" "\<And>w. w \<in> set ws \<Longrightarrow> window_ok w" "\<not> any_collision (map window_span ws)"
proof -
  have "ws \<noteq> []" "validate_each ws = Inr ()" "\<not> any_collision (map window_span ws)"
    using assms by (auto simp: validate_windows_def rbind_fail_if fail_if_ok rbind_def split: sum.splits)
  then show "ws \<noteq> []" "\<And>w. w \<in> set ws \<Longrightarrow> window_ok w" "\<not> any_collision (map window_span ws)"
    using validate_each_ok by auto
qed

lemma word_bit_below:
  fixes x :: "'a::len word"
  assumes "x \<noteq> 0" "uint x < 2 ^ n"
  shows "\<exists>k < n. bit x k"
proof (rule ccontr)
  assume none: "\<not> (\<exists>k < n. bit x k)"
  have "take_bit n (uint x) = uint x" using assms(2) by (simp add: take_bit_int_eq_self)
  then have "bit (uint x) k \<longleftrightarrow> k < n \<and> bit (uint x) k" for k by (metis bit_take_bit_iff)
  then have "\<not> bit x k" if "k < LENGTH('a)" for k using none that by (auto simp: bit_uint_iff)
  then have "x = 0" by (intro bit_word_eqI) auto
  with assms(1) show False by simp
qed

lemma scan_ok_validated:
  assumes "validate_windows ws = Inr ()" "in_range cal now" "\<And>d. \<exists>m. d \<le> m \<and> m < d + 62 \<and> fires m"
  shows "scan_ok cal fires ws now"
  unfolding scan_ok_def using validate_windows_ok [OF assms(1)] assms(2,3) by blast

lemma week_recurs:
  assumes "cal_ok cal" "days \<noteq> 0" "days \<le> 127"
  shows "\<exists>m. d \<le> m \<and> m < d + 62 \<and> week_fires cal days m"
proof -
  obtain k where k: "k < 7" "bit days k" using word_bit_below [of days 7] assms by (auto simp: word_le_def)
  then obtain m where "d \<le> m" "m < d + 7" "cal_weekday cal m = k + 1"
    using assms(1) unfolding cal_ok_def by (metis Suc_eq_plus1 Suc_leI le_add2)
  then show ?thesis using k(2) by (intro exI [of _ m]) (simp add: week_fires_def)
qed

lemma month_recurs:
  assumes "cal_ok cal" "days \<noteq> 0" "days \<le> 2 ^ 31 - 1"
  shows "\<exists>m. d \<le> m \<and> m < d + 62 \<and> month_fires cal days m"
proof -
  obtain k where k: "k < 31" "bit days k" using word_bit_below [of days 31] assms by (auto simp: word_le_def)
  then obtain m where "d \<le> m" "m < d + 62" "cal_day cal m = k + 1"
    using assms(1) unfolding cal_ok_def by (metis Suc_eq_plus1 Suc_leI le_add2)
  then show ?thesis using k(2) by (intro exI [of _ m]) (simp add: month_fires_def)
qed

lemma window_status_facts:
  assumes "validate_spec sp = Inr ()" "sp \<noteq> Always" "cal_ok cal" "in_range cal now"
  shows "\<exists>st. window_status_at cal sp now = Some st \<and> status_right cal sp now st"
proof (cases sp)
  case (Weekly days ws)
  then have v: "days \<noteq> 0" "days \<le> 127" "validate_windows ws = Inr ()"
    using assms(1) by (auto simp: rbind_fail_if not_less)
  show ?thesis
    using eval_calendar_right [OF scan_ok_validated [OF v(3) assms(4) week_recurs [OF assms(3) v(1,2)]], of sp]
    by (simp add: Weekly all_shifts_def)
next
  case (Monthly days ws)
  then have v: "days \<noteq> 0" "days \<le> 2 ^ 31 - 1" "validate_windows ws = Inr ()"
    using assms(1) by (auto simp: rbind_fail_if not_less)
  show ?thesis
    using eval_calendar_right [OF scan_ok_validated [OF v(3) assms(4) month_recurs [OF assms(3) v(1,2)]], of sp]
    by (simp add: Monthly all_shifts_def)
next
  case (Interval hours len anchor)
  then have "0 < hours" "0 < len" using assms(1) by (auto simp: rbind_fail_if)
  then show ?thesis using eval_interval_right Interval by simp
qed (use assms(2) in simp)


text \<open>A calendar with months of 31 days, for the witnesses.\<close>

definition plain_calendar :: day_calendar where
  "plain_calendar = \<lparr>cal_weekday = \<lambda>d. nat (d mod 7) + 1, cal_day = \<lambda>d. nat (d mod 31) + 1, cal_min = - 100000, cal_max = 100000\<rparr>"

lemma residue_recurs: "0 \<le> k \<Longrightarrow> k < n \<Longrightarrow> \<exists>m. d \<le> m \<and> m < d + n \<and> m mod n = (k :: int)"
  by (intro exI [of _ "d + (k - d) mod n"]) (simp add: mod_add_right_eq)

lemma plain_calendar_ok: "cal_ok plain_calendar"
proof -
  have "\<exists>m. d \<le> m \<and> m < d + 7 \<and> nat (m mod 7) + 1 = k" if "1 \<le> k" "k \<le> 7" for d k
    using residue_recurs [of "int k - 1" 7 d] that by fastforce
  moreover have "\<exists>m. d \<le> m \<and> m < d + 62 \<and> nat (m mod 31) + 1 = k" if "1 \<le> k" "k \<le> 31" for d k
    using residue_recurs [of "int k - 1" 31 d] that by fastforce
  ultimately show ?thesis by (simp add: cal_ok_def plain_calendar_def)
qed

definition office_hours :: spec where
  "office_hours = Weekly 31 [\<lparr>start_minute = 540, end_minute = 720\<rparr>, \<lparr>start_minute = 720, end_minute = 1020\<rparr>]"


end
