(* ===== verification/Inbox.thy ===== *)
theory Inbox
  imports Messaging
begin

text \<open>
  The message store of the agents (\<open>kallip-tagma/src/inbox/mod.rs\<close>), its HTTP handlers
  (\<open>routes/inbox.rs\<close>) and the duty board (\<open>duty.rs\<close>).

  The table is the list of its rows in ascending id; \<open>AUTOINCREMENT\<close> hands out \<open>in_next\<close>. Each
  statement may fail: whether it does is an argument (\<open>True\<close> for success), because the code swallows the
  error and goes on. Timestamps are Unix seconds; the range check and the rendering of a timestamp
  belong to the time library and are the record \<open>time_lib\<close>.

  The operations refine a mailbox per agent: what an agent has been handed, followed by what still
  waits for it, is what was accepted for it, in order.
\<close>

section \<open>The duty board\<close>

datatype duty_status = OnDuty | OffDuty

record duty_store =
  ds_map :: "(agent_id, duty_status) hash_map"
  ds_generation :: u64

definition duty_get :: "duty_store \<Rightarrow> agent_id \<Rightarrow> duty_status" where
  "duty_get ds a = (case map_of (ds_map ds) a of None \<Rightarrow> OnDuty | Some d \<Rightarrow> d)"

definition is_off_duty :: "duty_store \<Rightarrow> agent_id \<Rightarrow> bool" where
  "is_off_duty ds a \<longleftrightarrow> duty_get ds a = OffDuty"

definition duty_set :: "agent_id \<Rightarrow> duty_status \<Rightarrow> duty_store \<Rightarrow> duty_store" where
  "duty_set a d ds = ds\<lparr>ds_map := AList.update a d (ds_map ds), ds_generation := ds_generation ds + 1\<rparr>"

definition duty_remove :: "agent_id \<Rightarrow> duty_store \<Rightarrow> duty_store" where
  "duty_remove a ds = ds\<lparr>ds_map := AList.delete a (ds_map ds), ds_generation := ds_generation ds + 1\<rparr>"

lemma duty_get_set [simp]: "duty_get (duty_set a d ds) b = (if b = a then d else duty_get ds b)"
  by (simp add: duty_get_def duty_set_def update_conv')

lemma duty_get_remove [simp]: "duty_get (duty_remove a ds) b = (if b = a then OnDuty else duty_get ds b)"
  by (simp add: duty_get_def duty_remove_def delete_conv')

section \<open>The table\<close>

record buffered_event =
  ev_timestamp :: int
  ev_source :: string
  ev_body :: utext

datatype inbox_status = Unread | Read | Done

record inbox_row =
  row_id :: nat
  row_agent :: agent_id
  row_event :: buffered_event
  row_status :: inbox_status
  row_delivered :: bool

record inbox_store =
  in_rows :: "inbox_row list"
  in_next :: nat
  in_max_retained :: nat

definition DEFAULT_MAX_RETAINED :: nat where "DEFAULT_MAX_RETAINED = 500"

definition delivered_of :: "agent_id \<Rightarrow> inbox_row list \<Rightarrow> inbox_row list" where
  "delivered_of a rows = filter (\<lambda>r. row_agent r = a \<and> row_delivered r) rows"

definition insert_row :: "agent_id \<Rightarrow> buffered_event \<Rightarrow> inbox_store \<Rightarrow> inbox_store" where
  "insert_row a ev st = st\<lparr>in_rows := in_rows st @
       [\<lparr>row_id = in_next st, row_agent = a, row_event = ev, row_status = Unread, row_delivered = False\<rparr>],
     in_next := Suc (in_next st)\<rparr>"

definition evict :: "agent_id \<Rightarrow> inbox_store \<Rightarrow> inbox_store" where
  "evict a st =
     (let newest = map row_id (take (in_max_retained st) (rev (delivered_of a (in_rows st))))
      in st\<lparr>in_rows := filter (\<lambda>r. \<not> (row_agent r = a \<and> row_delivered r \<and> row_id r \<notin> set newest)) (in_rows st)\<rparr>)"

definition push :: "bool \<Rightarrow> bool \<Rightarrow> agent_id \<Rightarrow> buffered_event \<Rightarrow> inbox_store \<Rightarrow> inbox_store" where
  "push ins_ok del_ok a ev st =
     (if \<not> ins_ok then st
      else let st' = insert_row a ev st in if del_ok then evict a st' else st')"

definition undelivered_of :: "agent_id \<Rightarrow> inbox_store \<Rightarrow> inbox_row list" where
  "undelivered_of a st = filter (\<lambda>r. row_agent r = a \<and> \<not> row_delivered r) (in_rows st)"

definition mark_delivered :: "agent_id \<Rightarrow> inbox_store \<Rightarrow> inbox_store" where
  "mark_delivered a st = st\<lparr>in_rows := map (\<lambda>r. if row_agent r = a \<and> \<not> row_delivered r then r\<lparr>row_delivered := True\<rparr> else r) (in_rows st)\<rparr>"

section \<open>The digest\<close>

record time_lib =
  tl_valid :: "int \<Rightarrow> bool"
  tl_rfc3339 :: "int \<Rightarrow> utext option"

definition from_unix :: "time_lib \<Rightarrow> int \<Rightarrow> int" where
  "from_unix lib secs = (if tl_valid lib secs then secs else 0)"

definition strip_cr :: "utext \<Rightarrow> utext" where
  "strip_cr l = (if l \<noteq> [] \<and> last l = 13 then butlast l else l)"

function str_lines :: "utext \<Rightarrow> utext list" where
  "str_lines [] = []"
| "str_lines (c # cs) =
     (let l = takeWhile (\<lambda>x. x \<noteq> 10) (c # cs); rest = dropWhile (\<lambda>x. x \<noteq> 10) (c # cs)
      in if rest = [] then [l] else strip_cr l # str_lines (tl rest))"
  by pat_completeness auto

termination
proof (relation "measure length", goal_cases)
  case (2 c cs l rest)
  have "length rest \<le> length (c # cs)" unfolding 2(2) by (rule length_dropWhile_le)
  then show ?case using 2(3) by (cases rest) auto
qed simp

fun join_newline :: "utext list \<Rightarrow> utext" where
  "join_newline [] = []"
| "join_newline [l] = l"
| "join_newline (l # ls) = l @ 10 # join_newline ls"

definition event_lines :: "time_lib \<Rightarrow> buffered_event \<Rightarrow> utext list" where
  "event_lines lib ev =
     (lit ''  ['' @ (case tl_rfc3339 lib (from_unix lib (ev_timestamp ev)) of None \<Rightarrow> lit ''?'' | Some t \<Rightarrow> t)
        @ lit ''] '' @ lit (ev_source ev) @ lit '':'')
     # map (\<lambda>l. lit ''    '' @ l) (str_lines (ev_body ev))"

definition digest :: "time_lib \<Rightarrow> inbox_row list \<Rightarrow> utext" where
  "digest lib rows =
     join_newline
       (([0x1F4EC] @ lit '' While you were away ('' @ lit (show_nat (length rows)) @ lit '' message''
           @ (if length rows = 1 then [] else lit ''s'') @ lit ''):'')
        # concat (map (\<lambda>r. event_lines lib (row_event r)) rows))"

definition pull_undelivered :: "time_lib \<Rightarrow> bool \<Rightarrow> agent_id \<Rightarrow> inbox_store \<Rightarrow> utext option \<times> inbox_store" where
  "pull_undelivered lib ok a st =
     (if \<not> ok then (None, st)
      else let rows = undelivered_of a st; st' = mark_delivered a st
           in if rows = [] then (None, st') else (Some (digest lib (sort_key row_id rows)), st'))"

section \<open>Reading and clearing\<close>

record inbox_entry =
  ie_id :: nat
  ie_timestamp :: int
  ie_source :: string
  ie_body :: utext
  ie_status :: inbox_status

definition model_to_entry :: "time_lib \<Rightarrow> inbox_row \<Rightarrow> inbox_entry" where
  "model_to_entry lib r = \<lparr>ie_id = row_id r, ie_timestamp = from_unix lib (ev_timestamp (row_event r)),
     ie_source = ev_source (row_event r), ie_body = ev_body (row_event r), ie_status = row_status r\<rparr>"

record inbox_filter =
  if_status :: "inbox_status option"
  if_limit :: "nat option"

definition count_unread :: "bool \<Rightarrow> agent_id \<Rightarrow> inbox_store \<Rightarrow> nat" where
  "count_unread ok a st = (if ok then length (filter (\<lambda>r. row_agent r = a \<and> row_status r = Unread) (in_rows st)) else 0)"

definition list_rows :: "time_lib \<Rightarrow> bool \<Rightarrow> agent_id \<Rightarrow> inbox_filter \<Rightarrow> inbox_store \<Rightarrow> inbox_entry list" where
  "list_rows lib ok a f st =
     (if \<not> ok then []
      else map (model_to_entry lib)
        (take (case if_limit f of None \<Rightarrow> 50 | Some n \<Rightarrow> n)
          (filter (\<lambda>r. row_agent r = a \<and> (case if_status f of None \<Rightarrow> True | Some s \<Rightarrow> row_status r = s)) (rev (in_rows st)))))"

definition find_row :: "agent_id \<Rightarrow> nat \<Rightarrow> inbox_store \<Rightarrow> inbox_row option" where
  "find_row a n st = List.find (\<lambda>r. row_id r = n \<and> row_agent r = a) (in_rows st)"

definition set_status :: "nat \<Rightarrow> inbox_status \<Rightarrow> inbox_store \<Rightarrow> inbox_store" where
  "set_status n s st = st\<lparr>in_rows := map (\<lambda>r. if row_id r = n then r\<lparr>row_status := s\<rparr> else r) (in_rows st)\<rparr>"

definition inbox_read :: "time_lib \<Rightarrow> bool \<Rightarrow> bool \<Rightarrow> agent_id \<Rightarrow> nat \<Rightarrow> inbox_store \<Rightarrow> inbox_entry option \<times> inbox_store" where
  "inbox_read lib find_ok upd_ok a n st =
     (case (if find_ok then find_row a n st else None) of
        None \<Rightarrow> (None, st)
      | Some r \<Rightarrow> if upd_ok then (Some (model_to_entry lib (r\<lparr>row_status := Read\<rparr>)), set_status n Read st) else (None, st))"

definition inbox_mark_done :: "bool \<Rightarrow> bool \<Rightarrow> agent_id \<Rightarrow> nat \<Rightarrow> inbox_store \<Rightarrow> bool \<times> inbox_store" where
  "inbox_mark_done find_ok upd_ok a n st =
     (case (if find_ok then find_row a n st else None) of
        None \<Rightarrow> (False, st)
      | Some r \<Rightarrow> if upd_ok then (True, set_status n Done st) else (False, st))"

definition summary_of :: "bool \<Rightarrow> bool \<Rightarrow> agent_id \<Rightarrow> inbox_store \<Rightarrow> nat \<times> nat" where
  "summary_of ok1 ok2 a st =
     (if ok1 then length (filter (\<lambda>r. row_agent r = a) (in_rows st)) else 0, count_unread ok2 a st)"

definition delete_rows :: "(inbox_row \<Rightarrow> bool) \<Rightarrow> inbox_store \<Rightarrow> inbox_store" where
  "delete_rows P st = st\<lparr>in_rows := filter (\<lambda>r. \<not> P r) (in_rows st)\<rparr>"

definition inbox_clear :: "bool \<Rightarrow> agent_id \<Rightarrow> bool \<Rightarrow> inbox_store \<Rightarrow> nat \<times> inbox_store" where
  "inbox_clear ok a everything st =
     (let P = (\<lambda>r. row_agent r = a \<and> (if everything then row_delivered r else row_status r = Done))
      in if ok then (length (filter P (in_rows st)), delete_rows P st) else (0, st))"

definition clear_for :: "bool \<Rightarrow> agent_id \<Rightarrow> inbox_store \<Rightarrow> inbox_store" where
  "clear_for ok a st = (if ok then delete_rows (\<lambda>r. row_agent r = a) st else st)"


section \<open>The handlers\<close>

definition MAX_PAGE_SIZE :: nat where "MAX_PAGE_SIZE = 200"

definition with_inbox :: "agent_registry \<Rightarrow> identity \<Rightarrow> agent_id \<Rightarrow> inbox_store option \<Rightarrow> (inbox_store \<Rightarrow> api_err + 'r) \<Rightarrow> api_err + 'r" where
  "with_inbox rg who a ib k =
     rbind (require_self_or_operator rg who a) (\<lambda>_. rbind (ok_or (Internal ''inbox store not initialized'') ib) k)"

definition list_inbox ::
  "time_lib \<Rightarrow> bool \<Rightarrow> agent_registry \<Rightarrow> identity \<Rightarrow> agent_id \<Rightarrow> inbox_filter \<Rightarrow> inbox_store option \<Rightarrow> api_err + inbox_entry list" where
  "list_inbox lib ok rg who a params ib =
     with_inbox rg who a ib (\<lambda>st. Inr (list_rows lib ok a
       \<lparr>if_status = if_status params, if_limit = Some (min (case if_limit params of None \<Rightarrow> 50 | Some n \<Rightarrow> n) MAX_PAGE_SIZE)\<rparr> st))"

definition read_inbox_message ::
  "time_lib \<Rightarrow> bool \<Rightarrow> bool \<Rightarrow> agent_registry \<Rightarrow> identity \<Rightarrow> agent_id \<Rightarrow> nat \<Rightarrow> inbox_store option \<Rightarrow>
   (api_err + inbox_entry) \<times> inbox_store option" where
  "read_inbox_message lib ok1 ok2 rg who a n ib =
     (case with_inbox rg who a ib Inr of
        Inl e \<Rightarrow> (Inl e, ib)
      | Inr st \<Rightarrow>
          (let (r, st') = inbox_read lib ok1 ok2 a n st
           in (ok_or (NotFound ''inbox message not found'') r, Some st')))"

definition inbox_summary ::
  "bool \<Rightarrow> bool \<Rightarrow> agent_registry \<Rightarrow> identity \<Rightarrow> agent_id \<Rightarrow> inbox_store option \<Rightarrow> api_err + nat \<times> nat" where
  "inbox_summary ok1 ok2 rg who a ib = with_inbox rg who a ib (\<lambda>st. Inr (summary_of ok1 ok2 a st))"

definition mark_done_route ::
  "bool \<Rightarrow> bool \<Rightarrow> agent_registry \<Rightarrow> identity \<Rightarrow> agent_id \<Rightarrow> nat \<Rightarrow> inbox_store option \<Rightarrow> (api_err + unit) \<times> inbox_store option" where
  "mark_done_route ok1 ok2 rg who a n ib =
     (case with_inbox rg who a ib Inr of
        Inl e \<Rightarrow> (Inl e, ib)
      | Inr st \<Rightarrow>
          (let (found, st') = inbox_mark_done ok1 ok2 a n st
           in (if found then Inr () else Inl (NotFound ''inbox message not found''), Some st')))"

definition clear_inbox ::
  "bool \<Rightarrow> agent_registry \<Rightarrow> identity \<Rightarrow> agent_id \<Rightarrow> bool \<Rightarrow> inbox_store option \<Rightarrow> (api_err + nat) \<times> inbox_store option" where
  "clear_inbox ok rg who a everything ib =
     (case with_inbox rg who a ib Inr of
        Inl e \<Rightarrow> (Inl e, ib)
      | Inr st \<Rightarrow> (let (n, st') = inbox_clear ok a everything st in (Inr n, Some st')))"

section \<open>The table invariant\<close>

definition inbox_ok :: "inbox_store \<Rightarrow> bool" where
  "inbox_ok st \<longleftrightarrow> sorted_wrt (<) (map row_id (in_rows st)) \<and> (\<forall>r \<in> set (in_rows st). row_id r < in_next st)"

lemma inbox_ok_filter:
  assumes "inbox_ok st" "in_rows st' = filter P (in_rows st)" "in_next st' = in_next st"
  shows "inbox_ok st'"
  using assms sorted_wrt_filter [of "\<lambda>a b. row_id a < row_id b" "in_rows st" P]
  by (auto simp: inbox_ok_def sorted_wrt_map)

lemma inbox_ok_map:
  assumes "inbox_ok st" "in_rows st' = map f (in_rows st)" "in_next st' = in_next st" "\<And>r. row_id (f r) = row_id r"
  shows "inbox_ok st'"
proof -
  have "map row_id (in_rows st') = map row_id (in_rows st)" using assms(2,4) by simp
  moreover have "row_id r < in_next st'" if "r \<in> set (in_rows st')" for r
    using that assms by (auto simp: inbox_ok_def)
  ultimately show ?thesis using assms(1) by (simp add: inbox_ok_def)
qed

lemma inbox_ok_insert: "inbox_ok st \<Longrightarrow> inbox_ok (insert_row a ev st)"
  by (auto simp: inbox_ok_def insert_row_def sorted_wrt_append)

lemma inbox_ok_evict: "inbox_ok st \<Longrightarrow> inbox_ok (evict a st)"
  by (rule inbox_ok_filter) (auto simp: evict_def Let_def)

lemma inbox_ok_push: "inbox_ok st \<Longrightarrow> inbox_ok (push i d a ev st)"
  by (simp add: push_def Let_def inbox_ok_insert inbox_ok_evict)

lemma inbox_ok_mark: "inbox_ok st \<Longrightarrow> inbox_ok (mark_delivered a st)"
  by (erule inbox_ok_map [where f = "\<lambda>r. if row_agent r = a \<and> \<not> row_delivered r then r\<lparr>row_delivered := True\<rparr> else r"])
    (simp_all add: mark_delivered_def)

lemma inbox_ok_status: "inbox_ok st \<Longrightarrow> inbox_ok (set_status n s st)"
  by (erule inbox_ok_map [where f = "\<lambda>r. if row_id r = n then r\<lparr>row_status := s\<rparr> else r"]) (simp_all add: set_status_def)

lemma inbox_ok_delete: "inbox_ok st \<Longrightarrow> inbox_ok (delete_rows P st)"
  by (rule inbox_ok_filter) (auto simp: delete_rows_def)

lemma sorted_by_id:
  assumes "inbox_ok st"
  shows "sort_key row_id (undelivered_of a st) = undelivered_of a st"
proof -
  from assms have "sorted_wrt (\<lambda>a b. row_id a < row_id b) (in_rows st)" by (simp add: inbox_ok_def sorted_wrt_map)
  then have "sorted_wrt (\<lambda>a b. row_id a < row_id b) (undelivered_of a st)"
    unfolding undelivered_of_def by (rule sorted_wrt_filter)
  then have "sorted_wrt (\<lambda>a b. row_id a \<le> row_id b) (undelivered_of a st)" by (rule sorted_wrt_mono_rel [rotated]) simp
  then show ?thesis by (intro sort_key_sorted) (simp add: sorted_wrt_map)
qed

section \<open>A mailbox per agent\<close>

datatype inbox_op =
    OpPush bool bool agent_id buffered_event
  | OpPull bool agent_id
  | OpRead bool bool agent_id nat
  | OpDone bool bool agent_id nat
  | OpClear bool agent_id bool
  | OpClearFor bool agent_id

fun op_apply :: "time_lib \<Rightarrow> inbox_op \<Rightarrow> inbox_store \<Rightarrow> inbox_store" where
  "op_apply lib (OpPush i d a ev) st = push i d a ev st"
| "op_apply lib (OpPull ok a) st = snd (pull_undelivered lib ok a st)"
| "op_apply lib (OpRead f u a n) st = snd (inbox_read lib f u a n st)"
| "op_apply lib (OpDone f u a n) st = snd (inbox_mark_done f u a n st)"
| "op_apply lib (OpClear ok a e) st = snd (inbox_clear ok a e st)"
| "op_apply lib (OpClearFor ok a) st = clear_for ok a st"

fun op_digest :: "time_lib \<Rightarrow> agent_id \<Rightarrow> inbox_op \<Rightarrow> inbox_store \<Rightarrow> utext list" where
  "op_digest lib a (OpPull ok b) st =
     (if a = b then (case fst (pull_undelivered lib ok b st) of None \<Rightarrow> [] | Some t \<Rightarrow> [t]) else [])"
| "op_digest lib a _ st = []"

fun op_accepted :: "agent_id \<Rightarrow> inbox_op \<Rightarrow> buffered_event list" where
  "op_accepted a (OpPush i d b ev) = (if i \<and> a = b then [ev] else [])"
| "op_accepted a _ = []"

fun op_discards :: "agent_id \<Rightarrow> inbox_op \<Rightarrow> bool" where
  "op_discards a (OpClear ok b e) \<longleftrightarrow> a = b \<and> \<not> e"
| "op_discards a (OpClearFor ok b) \<longleftrightarrow> a = b"
| "op_discards a _ \<longleftrightarrow> False"

fun run_ops :: "time_lib \<Rightarrow> inbox_op list \<Rightarrow> inbox_store \<Rightarrow> inbox_store" where
  "run_ops lib [] st = st"
| "run_ops lib (x # xs) st = run_ops lib xs (op_apply lib x st)"

fun digests :: "time_lib \<Rightarrow> agent_id \<Rightarrow> inbox_op list \<Rightarrow> inbox_store \<Rightarrow> utext list" where
  "digests lib a [] st = []"
| "digests lib a (x # xs) st = op_digest lib a x st @ digests lib a xs (op_apply lib x st)"

definition pending :: "agent_id \<Rightarrow> inbox_store \<Rightarrow> buffered_event list" where
  "pending a st = map row_event (undelivered_of a st)"

lemma inbox_ok_op: "inbox_ok st \<Longrightarrow> inbox_ok (op_apply lib x st)"
  by (cases x)
    (auto simp: inbox_ok_push pull_undelivered_def Let_def inbox_ok_mark inbox_read_def inbox_mark_done_def inbox_ok_status
      inbox_clear_def inbox_ok_delete clear_for_def split: option.splits)

lemma pending_insert: "pending b (insert_row a ev st) = pending b st @ (if b = a then [ev] else [])"
  by (simp add: pending_def undelivered_of_def insert_row_def)

lemma pending_evict: "pending b (evict a st) = pending b st"
  unfolding pending_def undelivered_of_def evict_def Let_def
  by (simp, rule arg_cong [where f = "map row_event"], rule filter_cong) auto

lemma pending_push: "pending b (push i d a ev st) = pending b st @ op_accepted b (OpPush i d a ev)"
  by (simp add: push_def Let_def pending_insert pending_evict)

lemma waiting_mark:
  "map row_event (filter (\<lambda>r. row_agent r = b \<and> \<not> row_delivered r)
       (map (\<lambda>r. if row_agent r = a \<and> \<not> row_delivered r then r\<lparr>row_delivered := True\<rparr> else r) rows))
   = (if b = a then [] else map row_event (filter (\<lambda>r. row_agent r = b \<and> \<not> row_delivered r) rows))"
  by (induction rows) auto

lemma pending_mark: "pending b (mark_delivered a st) = (if b = a then [] else pending b st)"
  by (simp add: pending_def undelivered_of_def mark_delivered_def waiting_mark)

lemma waiting_status:
  "map row_event (filter (\<lambda>r. row_agent r = b \<and> \<not> row_delivered r)
       (map (\<lambda>r. if row_id r = n then r\<lparr>row_status := s\<rparr> else r) rows))
   = map row_event (filter (\<lambda>r. row_agent r = b \<and> \<not> row_delivered r) rows)"
  by (induction rows) auto

lemma pending_status: "pending b (set_status n s st) = pending b st"
  by (simp add: pending_def undelivered_of_def set_status_def waiting_status)

lemma pending_delete:
  assumes "\<And>r. row_agent r = b \<Longrightarrow> \<not> row_delivered r \<Longrightarrow> \<not> P r"
  shows "pending b (delete_rows P st) = pending b st"
  unfolding pending_def undelivered_of_def delete_rows_def
  by (simp, rule arg_cong [where f = "map row_event"], rule filter_cong) (auto simp: assms)

text \<open>One operation: what it hands over together with what then waits is what waited before and what it accepts.\<close>

lemma op_mailbox:
  assumes "inbox_ok st" "\<not> op_discards a x"
  shows "\<exists>groups. op_digest lib a x st = map (digest lib) groups \<and> (\<forall>g \<in> set groups. g \<noteq> []) \<and>
    map row_event (concat groups) @ pending a (op_apply lib x st) = pending a st @ op_accepted a x"
proof (cases x)
  case (OpPull ok b)
  show ?thesis
  proof (cases "ok \<and> a = b \<and> undelivered_of a st \<noteq> []")
    case True
    then have u: "ok" "b = a" "undelivered_of a st \<noteq> []" by auto
    then have "op_digest lib a x st = map (digest lib) [undelivered_of a st]" "pending a (op_apply lib x st) = []"
      using sorted_by_id [OF assms(1)] OpPull by (simp_all add: pull_undelivered_def Let_def pending_mark)
    then show ?thesis using u OpPull by (intro exI [of _ "[undelivered_of a st]"]) (simp add: pending_def)
  next
    case False
    then have "op_digest lib a x st = []" "pending a (op_apply lib x st) = pending a st"
      using OpPull by (auto simp: pull_undelivered_def Let_def pending_mark) (auto simp: pending_def)
    then show ?thesis using OpPull by (intro exI [of _ "[]"]) simp
  qed
next
  case (OpPush i d b ev)
  then show ?thesis by (intro exI [of _ "[]"]) (simp add: pending_push)
next
  case (OpRead f u b n)
  then show ?thesis by (intro exI [of _ "[]"]) (simp add: inbox_read_def pending_status split: option.splits)
next
  case (OpDone f u b n)
  then show ?thesis by (intro exI [of _ "[]"]) (simp add: inbox_mark_done_def pending_status split: option.splits)
next
  case (OpClear ok b e)
  then show ?thesis using assms(2) by (intro exI [of _ "[]"]) (auto simp: inbox_clear_def Let_def intro!: pending_delete)
next
  case (OpClearFor ok b)
  then show ?thesis using assms(2) by (intro exI [of _ "[]"]) (auto simp: clear_for_def intro!: pending_delete)
qed

text \<open>
  C18. The inbox is a faithful mailbox. Over any sequence of operations on any agents, with any
  statements failing, that does not clear done messages of agent \<open>a\<close> and does not remove it: the digests
  the agent pulled are the digests of groups of messages whose concatenation, followed by what still
  waits, is exactly what waited at the beginning followed by every message accepted since, in order.
  No accepted message is lost, evicted, duplicated or reordered.
\<close>
theorem inbox_refines_mailbox:
  assumes "inbox_ok st" "\<forall>x \<in> set xs. \<not> op_discards a x"
  shows "\<exists>groups. digests lib a xs st = map (digest lib) groups \<and> (\<forall>g \<in> set groups. g \<noteq> []) \<and>
    map row_event (concat groups) @ pending a (run_ops lib xs st) = pending a st @ concat (map (op_accepted a) xs)"
  using assms
proof (induction xs arbitrary: st)
  case Nil
  then show ?case by (intro exI [of _ "[]"]) simp
next
  case (Cons x xs)
  from Cons.prems obtain g where g: "op_digest lib a x st = map (digest lib) g" "\<forall>y \<in> set g. y \<noteq> []"
      "map row_event (concat g) @ pending a (op_apply lib x st) = pending a st @ op_accepted a x"
    using op_mailbox [of st a x lib] by auto
  from Cons.IH [OF inbox_ok_op [OF Cons.prems(1)], of lib x] Cons.prems(2) obtain h
    where h: "digests lib a xs (op_apply lib x st) = map (digest lib) h" "\<forall>y \<in> set h. y \<noteq> []"
      "map row_event (concat h) @ pending a (run_ops lib xs (op_apply lib x st))
         = pending a (op_apply lib x st) @ concat (map (op_accepted a) xs)" by auto
  have "map row_event (concat (g @ h)) @ pending a (run_ops lib (x # xs) st)
      = (map row_event (concat g) @ pending a (op_apply lib x st)) @ concat (map (op_accepted a) xs)" by (simp add: h(3))
  then show ?case using g h(1,2) by (intro exI [of _ "g @ h"]) (simp, blast)
qed

definition empty_inbox :: inbox_store where
  "empty_inbox = \<lparr>in_rows = [], in_next = 1, in_max_retained = DEFAULT_MAX_RETAINED\<rparr>"

definition note_event :: "string \<Rightarrow> buffered_event" where
  "note_event b = \<lparr>ev_timestamp = 0, ev_source = ''operator'', ev_body = lit b\<rparr>"

definition bare_time :: time_lib where
  "bare_time = \<lparr>tl_valid = \<lambda>_. True, tl_rfc3339 = \<lambda>_. None\<rparr>"

theorem inbox_refines_mailbox_witness:
  "\<exists>groups. digests bare_time ''a'' [OpPush True True ''a'' (note_event ''x''), OpPull True ''a'', OpPush True False ''a'' (note_event ''y'')] empty_inbox
       = map (digest bare_time) groups \<and> (\<forall>g \<in> set groups. g \<noteq> []) \<and>
    map row_event (concat groups) @
      pending ''a'' (run_ops bare_time [OpPush True True ''a'' (note_event ''x''), OpPull True ''a'', OpPush True False ''a'' (note_event ''y'')] empty_inbox)
    = [note_event ''x'', note_event ''y'']"
  using inbox_refines_mailbox [of empty_inbox "[OpPush True True ''a'' (note_event ''x''), OpPull True ''a'', OpPush True False ''a'' (note_event ''y'')]"
      "''a''" bare_time]
  by (simp add: empty_inbox_def inbox_ok_def pending_def undelivered_of_def)

text \<open>Retention: after a push whose statements both succeed, the agent keeps no more than the limit of delivered rows.\<close>

lemma push_bounded:
  assumes "inbox_ok st"
  shows "length (delivered_of a (in_rows (push True True a ev st))) \<le> in_max_retained st"
proof -
  let ?st = "insert_row a ev st"
  let ?new = "take (in_max_retained st) (rev (delivered_of a (in_rows ?st)))"
  have "delivered_of a (in_rows (evict a ?st)) = filter (\<lambda>r. row_id r \<in> row_id ` set ?new) (delivered_of a (in_rows ?st))"
    unfolding delivered_of_def evict_def Let_def by (simp add: insert_row_def delivered_of_def, rule filter_cong) auto
  moreover have "distinct (map row_id (delivered_of a (in_rows ?st)))"
    using inbox_ok_insert [OF assms, of a ev]
    by (auto simp: inbox_ok_def delivered_of_def strict_sorted_iff intro: distinct_map_filter)
  ultimately have "length (delivered_of a (in_rows (evict a ?st))) = card (set (map row_id (delivered_of a (in_rows (evict a ?st)))))"
      "set (map row_id (delivered_of a (in_rows (evict a ?st)))) \<subseteq> row_id ` set ?new"
    using distinct_card [of "map row_id (delivered_of a (in_rows (evict a ?st)))"] by (auto simp: distinct_map_filter)
  then have "length (delivered_of a (in_rows (evict a ?st))) \<le> card (row_id ` set ?new)" by (simp add: card_mono)
  also have "\<dots> \<le> length ?new" using card_image_le [of "set ?new" row_id] card_length [of ?new] by simp
  also have "\<dots> \<le> in_max_retained st" by simp
  finally show ?thesis by (simp add: push_def)
qed

text \<open>
  Clearing "done" messages deletes by status only: a message marked done before the agent pulled
  it is deleted undelivered, and no later pull returns it.
\<close>
theorem clear_done_drops_unpulled:
  "let st = op_apply lib (OpPush True True ''a'' ev) empty_inbox;
       st' = run_ops lib [OpDone True True ''a'' 1, OpClear True ''a'' False] st
   in pending ''a'' st = [ev] \<and> pending ''a'' st' = [] \<and> digests lib ''a'' [OpPull True ''a''] st' = []"
  by (simp add: empty_inbox_def push_def insert_row_def evict_def delivered_of_def Let_def inbox_mark_done_def find_row_def
      set_status_def inbox_clear_def delete_rows_def pending_def undelivered_of_def pull_undelivered_def)

end
