(* ===== verification/Delivery.thy ===== *)
theory Delivery
  imports Inbox Workspace_Lock
begin

text \<open>
  Message delivery of the tagma (\<open>kallip-tagma/src/delivery.rs\<close>), the notices to a superior
  (\<open>bridge.rs\<close>) and the manual duty switch (\<open>routes/agent.rs\<close>).

  The state is the registry, the runtime handle of each agent (prompt channel, wake permit, wire state,
  parked payload, round slot), the inbox store, the duty board, the lock table, the names of the profile sets, the agent directories on disk and the transcript. A prompt channel is its queue, its
  capacity and whether its receiver is gone.

  The registry lock is released twice on the way to a reactivation; \<open>de_gap\<close> and \<open>de_during\<close> stand
  for what other tasks do there, and may be any functions. Whether the two statements of the inbox
  push and the spawn succeed are arguments too.
\<close>

section \<open>State\<close>

datatype agent_state = Idle | Busied | Waiting | Parked | Retrying

record agent_handle =
  ah_queue :: "utext list"
  ah_capacity :: nat
  ah_closed :: bool
  ah_notify :: bool
  ah_state :: agent_state
  ah_parked :: "(utext \<times> nat) option"
  ah_round :: "bool option"

record tagma =
  tg_registry :: agent_registry
  tg_handles :: "agent_id \<Rightarrow> agent_handle"
  tg_inbox :: "inbox_store option"
  tg_duty :: duty_store
  tg_locks :: dir_map
  tg_sets :: "string list"
  tg_dirs :: "string list"
  tg_transcript :: "(participant option \<times> utext \<times> string option) list option"
  tg_queue_size :: nat

record delivery_env =
  de_now :: int
  de_clock :: nat
  de_insert_ok :: bool
  de_evict_ok :: bool
  de_fs :: "string \<Rightarrow> path option"
  de_gap :: "tagma \<Rightarrow> tagma"
  de_during :: "tagma \<Rightarrow> tagma"
  de_spawn_ok :: bool

record message_response =
  mr_queue_depth :: nat
  mr_warning :: "string option"

datatype delivery_err = Api api_err | BadRequest string | Panicked

definition accepted :: "string option \<Rightarrow> message_response" where
  "accepted w = \<lparr>mr_queue_depth = 0, mr_warning = w\<rparr>"

section \<open>Channels and wake permits\<close>

definition upd_handle :: "agent_id \<Rightarrow> (agent_handle \<Rightarrow> agent_handle) \<Rightarrow> tagma \<Rightarrow> tagma" where
  "upd_handle a f tg = tg\<lparr>tg_handles := (tg_handles tg)(a := f (tg_handles tg a))\<rparr>"

definition try_send :: "utext \<Rightarrow> agent_handle \<Rightarrow> bool \<times> agent_handle" where
  "try_send t h =
     (if ah_closed h \<or> ah_capacity h \<le> length (ah_queue h) then (False, h)
      else (True, h\<lparr>ah_queue := ah_queue h @ [t]\<rparr>))"

definition notify_one :: "agent_id \<Rightarrow> tagma \<Rightarrow> tagma" where
  "notify_one a = upd_handle a (\<lambda>h. h\<lparr>ah_notify := True\<rparr>)"

definition close_channel :: "agent_handle \<Rightarrow> agent_handle" where
  "close_channel h = h\<lparr>ah_queue := [], ah_capacity := 1, ah_closed := True\<rparr>"

definition live_entry :: "tagma \<Rightarrow> agent_id \<Rightarrow> agent_entry option" where
  "live_entry tg a = Option.bind (registry_get (tg_registry tg) a) as_live"

definition close_prompt_channel :: "agent_id \<Rightarrow> tagma \<Rightarrow> tagma" where
  "close_prompt_channel a tg = (case live_entry tg a of None \<Rightarrow> tg | Some _ \<Rightarrow> upd_handle a close_channel tg)"

section \<open>The gates\<close>

definition recorded_set :: "string list \<Rightarrow> string option \<Rightarrow> string option" where
  "recorded_set sets binding =
     Option.bind binding (\<lambda>n. if n \<in> set sets then Some n else None)"

definition unresolved :: "tagma \<Rightarrow> agent_id \<Rightarrow> bool" where
  "unresolved tg a \<longleftrightarrow> recorded_set (tg_sets tg)
     (Option.bind (registry_get (tg_registry tg) a) (\<lambda>e. cfg_profile_set (config (identity_of e)))) = None"

definition dangling_binding :: "tagma \<Rightarrow> agent_id \<Rightarrow> bool" where
  "dangling_binding tg a \<longleftrightarrow> live_entry tg a \<noteq> None \<and> unresolved tg a"

definition format_parked_duration :: "nat \<Rightarrow> utext" where
  "format_parked_duration secs =
     (if secs < 60 then lit (show_nat secs @ ''s'')
      else if secs < 3600 then lit (show_nat (secs div 60) @ ''m '' @ show_nat (secs mod 60) @ ''s'')
      else lit (show_nat (secs div 3600) @ ''h '' @ show_nat ((secs mod 3600) div 60) @ ''m''))"

definition format_kick_text :: "nat \<Rightarrow> utext \<times> nat \<Rightarrow> utext" where
  "format_kick_text clock p =
     lit ''[system] you were parked '' @ format_parked_duration (clock - snd p) @ lit '' ago: '' @ fst p
       @ lit ''. Decide whether to retry, adjust, or report.''"

datatype parked_wake = Kick utext | ParkedWithoutReason

definition parked_gate :: "delivery_env \<Rightarrow> agent_id \<Rightarrow> tagma \<Rightarrow> parked_wake option" where
  "parked_gate env a tg =
     (case live_entry tg a of
        None \<Rightarrow> None
      | Some _ \<Rightarrow>
          let h = tg_handles tg a
          in if ah_state h \<noteq> Parked then None
             else (case ah_parked h of
                     Some p \<Rightarrow> Some (Kick (format_kick_text (de_clock env) p))
                   | None \<Rightarrow> Some ParkedWithoutReason))"

fun wake_parked :: "parked_wake \<Rightarrow> agent_id \<Rightarrow> tagma \<Rightarrow> message_response \<times> tagma" where
  "wake_parked (Kick t) a tg =
     (let (sent, h) = try_send t (tg_handles tg a)
      in (accepted (Some (if sent then ''agent was parked; a kick turn was sent to wake it''
            else ''agent is parked and its prompt queue is full; message buffered to inbox, wake deferred'')),
          if sent then upd_handle a (\<lambda>_. h) tg else tg))"
| "wake_parked ParkedWithoutReason a tg =
     (accepted (Some ''agent is parked without a parked reason (invariant break); message buffered to inbox''), tg)"

section \<open>Reactivation\<close>

datatype reserve_result = RFail delivery_err | RDone message_response | RSpawn agent_config string

definition reserve :: "agent_id \<Rightarrow> tagma \<Rightarrow> reserve_result \<times> tagma" where
  "reserve a tg =
     (case registry_get (tg_registry tg) a of
        None \<Rightarrow> (RFail (Api (NotFound ''agent not found'')), tg)
      | Some (Faulted _) \<Rightarrow> (RFail (Api (Conflict ''agent is faulted; cannot reactivate'')), tg)
      | Some (Live e) \<Rightarrow>
          if \<not> ah_closed (tg_handles tg a) then (RDone (accepted None), notify_one a tg)
          else
            (let tg1 = upd_handle a (\<lambda>h. h\<lparr>ah_queue := [], ah_capacity := tg_queue_size tg, ah_closed := False\<rparr>)
                         (tg\<lparr>tg_locks := release_all a (tg_locks tg)\<rparr>)
             in if unresolved tg a
                then (RFail (BadRequest ''dangling profile set''), upd_handle a (\<lambda>h. h\<lparr>ah_closed := True\<rparr>) tg1)
                else (RSpawn (config (ae_identity e))
                        (case agent_dir (ae_identity e) of None \<Rightarrow> '''' | Some d \<Rightarrow> d), tg1)))"

definition carve_chain :: "agent_registry \<Rightarrow> agent_config \<Rightarrow> agent_id list" where
  "carve_chain rg cfg =
     (case cfg_created_by cfg of
        None \<Rightarrow> []
      | Some s \<Rightarrow> (case supervisor_chain_ids rg s of Inl _ \<Rightarrow> [] | Inr ids \<Rightarrow> ids))"

definition abort_agent :: "agent_id \<Rightarrow> string \<Rightarrow> tagma \<Rightarrow> tagma" where
  "abort_agent a dir tg = tg\<lparr>tg_dirs := filter (\<lambda>d. d \<noteq> dir) (tg_dirs tg), tg_locks := release_all a (tg_locks tg)\<rparr>"

definition fresh_agent :: "agent_handle \<Rightarrow> agent_handle" where
  "fresh_agent h = h\<lparr>ah_notify := False, ah_state := Idle, ah_parked := None, ah_round := None\<rparr>"

definition install :: "agent_id \<Rightarrow> string \<Rightarrow> tagma \<Rightarrow> (delivery_err + message_response) \<times> tagma" where
  "install a dir tg =
     (case registry_get (tg_registry tg) a of
        None \<Rightarrow> (Inl (Api (NotFound ''agent removed during reactivation'')), abort_agent a dir tg)
      | Some (Faulted _) \<Rightarrow> (Inl (Api (Conflict ''agent became faulted during reactivation'')), abort_agent a dir tg)
      | Some (Live _) \<Rightarrow> (Inr (accepted None), notify_one a (upd_handle a fresh_agent tg)))"

definition respawn :: "delivery_env \<Rightarrow> agent_id \<Rightarrow> agent_config \<Rightarrow> string \<Rightarrow> tagma \<Rightarrow> (delivery_err + message_response) \<times> tagma" where
  "respawn env a cfg dir tg =
     (case root_agent (tg_registry tg) of
        None \<Rightarrow> (Inl Panicked, upd_handle a (\<lambda>h. h\<lparr>ah_closed := True\<rparr>) tg)
      | Some _ \<Rightarrow>
          (case try_acquire_workspace_lock (de_fs env) a cfg (carve_chain (tg_registry tg) cfg) (tg_locks tg) of
             (Inl (AcqBusy _ _), dirs) \<Rightarrow>
               (Inl (Api (Conflict ''workspace overlaps a write-lock; remove it or wait for release before reactivating'')),
                close_prompt_channel a (tg\<lparr>tg_locks := dirs\<rparr>))
           | (Inl (AcqOther _), dirs) \<Rightarrow>
               (Inl (Api (Internal ''failed to re-acquire workspace lock'')), close_prompt_channel a (tg\<lparr>tg_locks := dirs\<rparr>))
           | (Inr guard, dirs) \<Rightarrow>
               if de_spawn_ok env then install a dir (de_during env (tg\<lparr>tg_locks := dirs\<rparr>))
               else (Inl (Api (Internal ''reactivation failed'')),
                     close_prompt_channel a (tg\<lparr>tg_locks := (case guard of None \<Rightarrow> dirs | Some g \<Rightarrow> drop_guard g dirs)\<rparr>))))"

definition reactivate :: "delivery_env \<Rightarrow> agent_id \<Rightarrow> tagma \<Rightarrow> (delivery_err + message_response) \<times> tagma" where
  "reactivate env a tg =
     (case reserve a (de_gap env tg) of
        (RFail e, tg1) \<Rightarrow> (Inl e, tg1)
      | (RDone r, tg1) \<Rightarrow> (Inr r, tg1)
      | (RSpawn cfg dir, tg1) \<Rightarrow> respawn env a cfg dir tg1)"

text \<open>The panic watcher: a task that panicked leaves its entry faulted and holds no lock.\<close>

definition set_entry :: "agent_id \<Rightarrow> registry_entry \<Rightarrow> tagma \<Rightarrow> tagma" where
  "set_entry a e tg = tg\<lparr>tg_registry := (tg_registry tg)\<lparr>rg_agents := AList.update a e (rg_agents (tg_registry tg))\<rparr>\<rparr>"

definition watch_agent_task :: "agent_id \<Rightarrow> string \<Rightarrow> u64 \<Rightarrow> tagma \<Rightarrow> tagma" where
  "watch_agent_task a detail at tg =
     (case registry_get (tg_registry tg) a of
        Some (Live e) \<Rightarrow>
          (let f = \<lparr>fe_identity = ae_identity e, fe_subagent_ids = ae_subagent_ids e,
                    fe_reason = ''agent task panicked: '' @ detail, fe_at = at\<rparr>;
               tg1 = set_entry a (Faulted f) tg
           in tg1\<lparr>tg_registry := notify_invalidation (tg_registry tg1), tg_locks := release_all a (tg_locks tg1)\<rparr>)
      | _ \<Rightarrow> tg)"

section \<open>Delivery\<close>

definition deliver_live :: "delivery_env \<Rightarrow> agent_id \<Rightarrow> tagma \<Rightarrow> (delivery_err + message_response) \<times> tagma" where
  "deliver_live env a tg =
     (case registry_get (tg_registry tg) a of
        None \<Rightarrow> (Inl (Api (NotFound ''agent not found'')), tg)
      | Some (Faulted f) \<Rightarrow>
          (Inl (Api (Conflict (''agent is faulted ('' @ fe_reason f @ ''); it cannot receive messages''))), tg)
      | Some (Live e) \<Rightarrow>
          if \<not> ah_closed (tg_handles tg a) then (Inr (accepted None), notify_one a tg)
          else reactivate env a tg)"

definition prompt_event :: "delivery_env \<Rightarrow> string \<Rightarrow> utext \<Rightarrow> buffered_event" where
  "prompt_event env source body = \<lparr>ev_timestamp = de_now env, ev_source = source, ev_body = body\<rparr>"

definition store_prompt :: "delivery_env \<Rightarrow> agent_id \<Rightarrow> buffered_event \<Rightarrow> inbox_store \<Rightarrow> tagma \<Rightarrow> tagma" where
  "store_prompt env a ev st tg = tg\<lparr>tg_inbox := Some (push (de_insert_ok env) (de_evict_ok env) a ev st)\<rparr>"

definition enqueue_prompt ::
  "delivery_env \<Rightarrow> agent_id \<Rightarrow> utext \<Rightarrow> string \<Rightarrow> tagma \<Rightarrow> (delivery_err + message_response) \<times> tagma" where
  "enqueue_prompt env a envelope source tg =
     (if dangling_binding tg a then (Inl (Api (Conflict ''agent has no usable profile set (unbound or unknown)'')), tg)
      else case tg_inbox tg of
             None \<Rightarrow> (Inl (Api (Internal ''inbox store not installed'')), tg)
           | Some st \<Rightarrow>
               (let tg1 = store_prompt env a (prompt_event env source envelope) st tg
                in if is_off_duty (tg_duty tg1) a
                   then (Inr (accepted (Some ''agent is off-duty; message buffered to inbox'')), tg1)
                   else case parked_gate env a tg1 of
                          Some w \<Rightarrow> (let (r, tg2) = wake_parked w a tg1 in (Inr r, tg2))
                        | None \<Rightarrow> deliver_live env a tg1))"

definition header_of :: "agent_registry \<Rightarrow> identity \<Rightarrow> participant option \<Rightarrow> agent_id \<Rightarrow> message_sender \<times> sender_relation" where
  "header_of rg who sender a =
     (case who of
        Operator \<Rightarrow>
          (SentByOperator (case sender of Some p \<Rightarrow> if pt_human p then Some (pt_handle p) else None | None \<Rightarrow> None), RelOperator)
      | Agent sid \<Rightarrow>
          (SentByAgent sid (case registry_get rg sid of
                              Some e \<Rightarrow> lit (cfg_role (config (identity_of e)))
                            | None \<Rightarrow> lit ''unknown''),
           relation_of rg (Some sid) a))"

definition deliver_message ::
  "delivery_env \<Rightarrow> identity \<Rightarrow> participant option \<Rightarrow> agent_id \<Rightarrow> utext \<Rightarrow> string option \<Rightarrow> tagma \<Rightarrow>
   (delivery_err + message_response) \<times> tagma" where
  "deliver_message env who sender0 a body attachment tg =
     (let sender = map_option sanitize_sender sender0;
          (hs, rel) = header_of (tg_registry tg) who sender a
      in case enqueue_prompt env a (format_incoming hs rel body) ''operator'' tg of
           (Inl e, tg1) \<Rightarrow> (Inl e, tg1)
         | (Inr r, tg1) \<Rightarrow>
             (Inr r,
              if map_option fst (root_agent (tg_registry tg1)) = Some a \<and> rel = RelOperator
              then tg1\<lparr>tg_transcript := map_option (\<lambda>t. t @ [(sender, body, attachment)]) (tg_transcript tg1)\<rparr>
              else tg1))"

definition deliver_inbound_relay_message ::
  "delivery_env \<Rightarrow> agent_id \<Rightarrow> surface \<Rightarrow> string \<Rightarrow> string \<Rightarrow> utext \<Rightarrow> utext \<Rightarrow> tagma \<Rightarrow>
   (delivery_err + message_response) \<times> tagma" where
  "deliver_inbound_relay_message env a sf kind sid handle body tg =
     enqueue_prompt env a (format_relay_incoming kind sid handle sf body) (surface_source sf) tg"

section \<open>Notices to a superior and the duty switch\<close>

definition live_superior :: "agent_registry \<Rightarrow> agent_id \<Rightarrow> agent_id option" where
  "live_superior rg a =
     Option.bind (registry_get rg a) (\<lambda>e.
     Option.bind (created_by e) (\<lambda>s.
     Option.bind (Option.bind (registry_get rg s) as_live) (\<lambda>_. Some s)))"

definition deliver_to_superior :: "delivery_env \<Rightarrow> agent_id \<Rightarrow> agent_id \<Rightarrow> utext \<Rightarrow> tagma \<Rightarrow> tagma" where
  "deliver_to_superior env s sender body tg =
     (case tg_inbox tg of
        None \<Rightarrow> tg
      | Some st \<Rightarrow>
          (let tg1 = store_prompt env s (prompt_event env (''agent:'' @ sender) body) st tg
           in if is_off_duty (tg_duty tg1) s then tg1 else notify_one s tg1))"

definition route_to_superior :: "delivery_env \<Rightarrow> agent_id \<Rightarrow> utext \<Rightarrow> tagma \<Rightarrow> tagma" where
  "route_to_superior env a notification tg =
     (case live_superior (tg_registry tg) a of None \<Rightarrow> tg | Some s \<Rightarrow> deliver_to_superior env s a notification tg)"

definition require_operator :: "identity \<Rightarrow> api_err + unit" where
  "require_operator who = (if who = Operator then Inr () else Inl (Forbidden ''operator access required''))"

definition update_duty :: "identity \<Rightarrow> agent_id \<Rightarrow> duty_status \<Rightarrow> tagma \<Rightarrow> (api_err + unit) \<times> tagma" where
  "update_duty who a d tg =
     (case rbind (require_operator who) (\<lambda>_. ok_or (NotFound ''agent not found'') (registry_get (tg_registry tg) a)) of
        Inl e \<Rightarrow> (Inl e, tg)
      | Inr _ \<Rightarrow>
          (let tg1 = tg\<lparr>tg_duty := duty_set a d (tg_duty tg)\<rparr>
           in (Inr (), if d = OnDuty \<and> live_entry tg1 a \<noteq> None then notify_one a tg1 else tg1)))"


section \<open>What acceptance means\<close>

text \<open>Other tasks leave the inbox alone and do not close the channel of \<open>a\<close>.\<close>

definition undisturbed :: "agent_id \<Rightarrow> (tagma \<Rightarrow> tagma) \<Rightarrow> bool" where
  "undisturbed a f \<longleftrightarrow> (\<forall>tg. tg_inbox (f tg) = tg_inbox tg \<and> ah_closed (tg_handles (f tg) a) = ah_closed (tg_handles tg a))"

definition awake :: "tagma \<Rightarrow> agent_id \<Rightarrow> bool" where
  "awake tg a \<longleftrightarrow> live_entry tg a \<noteq> None \<and> \<not> ah_closed (tg_handles tg a) \<and> ah_notify (tg_handles tg a)"

lemma upd_handle_fields [simp]:
  "tg_inbox (upd_handle a f tg) = tg_inbox tg" "tg_registry (upd_handle a f tg) = tg_registry tg"
  "tg_locks (upd_handle a f tg) = tg_locks tg" "tg_dirs (upd_handle a f tg) = tg_dirs tg"
  "tg_duty (upd_handle a f tg) = tg_duty tg" "tg_handles (upd_handle a f tg) a = f (tg_handles tg a)"
  "tg_transcript (upd_handle a f tg) = tg_transcript tg" "live_entry (upd_handle a f tg) b = live_entry tg b"
  by (simp_all add: upd_handle_def live_entry_def)

lemma notify_one_fields [simp]:
  "tg_inbox (notify_one a tg) = tg_inbox tg" "tg_registry (notify_one a tg) = tg_registry tg"
  "tg_locks (notify_one a tg) = tg_locks tg" "tg_dirs (notify_one a tg) = tg_dirs tg"
  "tg_transcript (notify_one a tg) = tg_transcript tg" "tg_duty (notify_one a tg) = tg_duty tg"
  by (simp_all add: notify_one_def)

lemma live_entry_Live: "registry_get (tg_registry tg) a = Some (Live e) \<Longrightarrow> live_entry tg a = Some e"
  by (simp add: live_entry_def)

lemma notify_awake:
  assumes "registry_get (tg_registry tg) a = Some (Live e)" "\<not> ah_closed (tg_handles tg a)"
  shows "awake (notify_one a tg) a"
  using assms by (simp add: awake_def notify_one_def live_entry_Live)

lemma install_ok:
  assumes "install a dir tg = (Inr r, tg')" "\<not> ah_closed (tg_handles tg a)"
  shows "r = accepted None \<and> tg_inbox tg' = tg_inbox tg \<and> awake tg' a"
proof -
  from assms(1) obtain e where e: "registry_get (tg_registry tg) a = Some (Live e)"
    by (auto simp: install_def split: option.splits registry_entry.splits)
  then have "r = accepted None" "tg' = notify_one a (upd_handle a fresh_agent tg)"
    using assms(1) by (simp_all add: install_def)
  then show ?thesis
    using notify_awake [of "upd_handle a fresh_agent tg" a e] e assms(2) by (simp add: fresh_agent_def)
qed

lemma reserve_inbox: "reserve a tg = (x, tg') \<Longrightarrow> tg_inbox tg' = tg_inbox tg"
  by (auto simp: reserve_def Let_def split: option.splits registry_entry.splits if_splits)

lemma reserve_spawn: "reserve a tg = (RSpawn cfg dir, tg') \<Longrightarrow> \<not> ah_closed (tg_handles tg' a)"
  by (auto simp: reserve_def Let_def split: option.splits registry_entry.splits if_splits)

lemma reserve_done:
  assumes "reserve a tg = (RDone r, tg')"
  shows "r = accepted None \<and> awake tg' a"
proof -
  from assms obtain e where e: "registry_get (tg_registry tg) a = Some (Live e)" "\<not> ah_closed (tg_handles tg a)"
    by (auto simp: reserve_def Let_def split: option.splits registry_entry.splits if_splits)
  then have "r = accepted None" "tg' = notify_one a tg" using assms by (simp_all add: reserve_def)
  then show ?thesis using notify_awake [OF e] by simp
qed

lemma respawn_Inr:
  assumes "respawn env a cfg dir tg = (Inr r, tg')"
  shows "\<exists>g dirs. try_acquire_workspace_lock (de_fs env) a cfg (carve_chain (tg_registry tg) cfg) (tg_locks tg) = (Inr g, dirs) \<and>
    de_spawn_ok env \<and> install a dir (de_during env (tg\<lparr>tg_locks := dirs\<rparr>)) = (Inr r, tg')"
  using assms by (auto simp: respawn_def split: option.splits prod.splits sum.splits acquire_failure.splits if_splits)

lemma reactivate_ok:
  assumes "reactivate env a tg = (Inr r, tg')" "undisturbed a (de_gap env)" "undisturbed a (de_during env)"
  shows "r = accepted None \<and> tg_inbox tg' = tg_inbox tg \<and> awake tg' a"
proof -
  have gap: "tg_inbox (de_gap env tg) = tg_inbox tg" using assms(2) by (simp add: undisturbed_def)
  obtain x tg1 where x: "reserve a (de_gap env tg) = (x, tg1)" by fastforce
  have i1: "tg_inbox tg1 = tg_inbox tg" using reserve_inbox [OF x] gap by simp
  show ?thesis
  proof (cases x)
    case (RFail e)
    then show ?thesis using assms(1) x by (simp add: reactivate_def)
  next
    case (RDone r')
    then have "r = r'" "tg' = tg1" using assms(1) x by (simp_all add: reactivate_def)
    then show ?thesis using reserve_done [of a "de_gap env tg" r' tg1] x RDone i1 by simp
  next
    case (RSpawn cfg dir)
    then have "respawn env a cfg dir tg1 = (Inr r, tg')" using assms(1) x by (simp add: reactivate_def)
    then obtain dirs where "install a dir (de_during env (tg1\<lparr>tg_locks := dirs\<rparr>)) = (Inr r, tg')"
      using respawn_Inr by blast
    moreover have "\<not> ah_closed (tg_handles (de_during env (tg1\<lparr>tg_locks := dirs\<rparr>)) a)"
        "tg_inbox (de_during env (tg1\<lparr>tg_locks := dirs\<rparr>)) = tg_inbox tg1"
      using assms(3) reserve_spawn [of a "de_gap env tg" cfg dir tg1] x RSpawn by (simp_all add: undisturbed_def)
    ultimately show ?thesis using install_ok i1 by metis
  qed
qed

lemma deliver_live_ok:
  assumes "deliver_live env a tg = (Inr r, tg')" "undisturbed a (de_gap env)" "undisturbed a (de_during env)"
  shows "r = accepted None \<and> tg_inbox tg' = tg_inbox tg \<and> awake tg' a"
proof -
  from assms(1) obtain e where e: "registry_get (tg_registry tg) a = Some (Live e)"
    by (auto simp: deliver_live_def split: option.splits registry_entry.splits)
  show ?thesis
  proof (cases "ah_closed (tg_handles tg a)")
    case True
    then show ?thesis using reactivate_ok [OF _ assms(2,3)] assms(1) e by (simp add: deliver_live_def)
  next
    case False
    then have "r = accepted None" "tg' = notify_one a tg" using assms(1) e by (simp_all add: deliver_live_def)
    then show ?thesis using notify_awake [OF e False] by simp
  qed
qed

lemma wake_parked_ok:
  "wake_parked w a tg = (r, tg') \<Longrightarrow> mr_warning r \<noteq> None \<and> tg_inbox tg' = tg_inbox tg"
  by (cases w) (auto simp: accepted_def Let_def split: prod.splits if_splits)

lemma parked_gate_state: "parked_gate env a tg = Some w \<Longrightarrow> ah_state (tg_handles tg a) = Parked"
  by (auto simp: parked_gate_def Let_def split: option.splits if_splits)

lemma store_prompt_fields [simp]:
  "tg_registry (store_prompt env a ev st tg) = tg_registry tg" "tg_handles (store_prompt env a ev st tg) = tg_handles tg"
  "tg_duty (store_prompt env a ev st tg) = tg_duty tg" "tg_locks (store_prompt env a ev st tg) = tg_locks tg"
  "tg_dirs (store_prompt env a ev st tg) = tg_dirs tg" "tg_transcript (store_prompt env a ev st tg) = tg_transcript tg"
  "tg_inbox (store_prompt env a ev st tg) = Some (push (de_insert_ok env) (de_evict_ok env) a ev st)"
  "live_entry (store_prompt env a ev st tg) b = live_entry tg b"
  by (simp_all add: store_prompt_def live_entry_def)

lemma stored_pending:
  "de_insert_ok env \<Longrightarrow> pending a (push (de_insert_ok env) (de_evict_ok env) a ev st) = pending a st @ [ev]"
  by (simp add: pending_push)


text \<open>
  An off-duty agent is never woken: whatever the message, delivery changes nothing but the inbox;
  no wake permit is set, no prompt is queued, no agent is reactivated and no lock moves.
\<close>
theorem off_duty_never_wakes:
  assumes "is_off_duty (tg_duty tg) a" "enqueue_prompt env a body src tg = (res, tg')"
  shows "tg' = tg\<lparr>tg_inbox := tg_inbox tg'\<rparr> \<and> (is_ok res \<longrightarrow> (\<exists>r. res = Inr r \<and> mr_warning r \<noteq> None))"
proof (cases "dangling_binding tg a \<or> tg_inbox tg = None")
  case True
  then have "tg' = tg" "\<not> is_ok res" using assms(2) by (auto simp: enqueue_prompt_def split: if_splits)
  then show ?thesis by simp
next
  case False
  then show ?thesis using assms by (auto simp: enqueue_prompt_def Let_def store_prompt_def accepted_def)
qed

text \<open>
  A refused message is stored all the same. For an agent that is not registered, or is faulted,
  delivery answers an error, yet the message is already in the inbox: every retry of the sender adds
  another copy, and a faulted agent's copies all reach it when it lives again.
\<close>
theorem refused_message_is_stored:
  assumes "live_entry tg a = None" "tg_inbox tg = Some st" "de_insert_ok env" "\<not> is_off_duty (tg_duty tg) a"
  shows "\<not> is_ok (fst (enqueue_prompt env a body src tg)) \<and>
    (\<exists>st'. tg_inbox (snd (enqueue_prompt env a body src tg)) = Some st' \<and>
       pending a st' = pending a st @ [prompt_event env src body])"
proof -
  let ?tg = "store_prompt env a (prompt_event env src body) st tg"
  have "enqueue_prompt env a body src tg = deliver_live env a ?tg"
    using assms(1,2,4) by (simp add: enqueue_prompt_def dangling_binding_def Let_def parked_gate_def)
  moreover have "\<not> is_ok (fst (deliver_live env a ?tg)) \<and> snd (deliver_live env a ?tg) = ?tg"
    using assms(1) by (auto simp: deliver_live_def live_entry_def split: option.splits registry_entry.splits)
  ultimately show ?thesis using stored_pending [OF assms(3)] by simp
qed


section \<open>The workspace lock across a reactivation\<close>

definition keeps_foreign :: "agent_id \<Rightarrow> dir_map \<Rightarrow> dir_map \<Rightarrow> bool" where
  "keeps_foreign a d d' \<longleftrightarrow> (\<forall>b p. b \<noteq> a \<longrightarrow> (held d' p = Some b \<longleftrightarrow> held d p = Some b))"

definition holds_none :: "agent_id \<Rightarrow> dir_map \<Rightarrow> bool" where
  "holds_none a d \<longleftrightarrow> (\<forall>p. held d p \<noteq> Some a)"

lemma release_all_foreign:
  assumes "bt_valid d"
  shows "keeps_foreign a d (release_all a d)" "holds_none a (release_all a d)"
  by (simp_all add: keeps_foreign_def holds_none_def held_release_all [OF assms])

lemma keeps_foreign_trans: "keeps_foreign a d d' \<Longrightarrow> keeps_foreign a d' d'' \<Longrightarrow> keeps_foreign a d d''"
  by (simp add: keeps_foreign_def)

lemma overlap_conflict_not_own: "bt_valid dirs \<Longrightarrow> overlap_conflict dirs canon agent chain \<noteq> Some (Inr AlreadyHeld)"
  by (auto simp: blocked_by_def dest!: overlap_conflict_Some split: if_splits)

lemma acquire_held:
  assumes "bt_valid d" "acquire fs a raw chain d = (Inr x, d')" "x = Acquired \<or> x = AlreadyHeld"
  shows "\<exists>p. fs raw = Some p \<and> held d' p = Some a"
  using assms(2,3) overlap_conflict_not_granted [OF assms(1)] overlap_conflict_not_own [OF assms(1)]
  by (cases "fs raw") (auto simp: acquire_def canonicalize_def held_set_writer held_def [symmetric]
      split: option.splits if_splits)

lemma acquire_foreign:
  assumes "bt_valid d" "acquire fs a raw chain d = (r, d')"
  shows "keeps_foreign a d d' \<and> bt_valid d'"
proof (cases "d' = d")
  case False
  then obtain p where "held d p = None" "d' = set_writer p (Some a) d" using acquire_cases [OF assms] by blast
  then show ?thesis using assms(1) by (auto simp: keeps_foreign_def held_set_writer)
qed (use assms(1) in \<open>simp add: keeps_foreign_def\<close>)

lemma try_acquire_ok:
  assumes "bt_valid d" "try_acquire_workspace_lock fs a cfg chain d = (Inr g, d')"
  shows "keeps_foreign a d d' \<and> bt_valid d'"
    "cfg_permissions_class cfg = Normal \<Longrightarrow> \<exists>p. fs (cfg_workspace_root cfg) = Some p \<and> held d' p = Some a"
    "g = Some \<lparr>wg_id = a, wg_armed = True\<rparr> \<or> g = None \<and> d' = d"
proof -
  obtain r d'' where ac: "acquire fs a (cfg_workspace_root cfg) chain d = (r, d'')" by fastforce
  show "g = Some \<lparr>wg_id = a, wg_armed = True\<rparr> \<or> g = None \<and> d' = d"
    using assms(2) by (auto simp: try_acquire_workspace_lock_def split: if_splits prod.splits sum.splits acquire_outcome.splits)
  show "keeps_foreign a d d' \<and> bt_valid d'"
  proof (cases "cfg_permissions_class cfg = Normal")
    case True
    then have "d' = d''" using assms(2) ac
      by (auto simp: try_acquire_workspace_lock_def split: if_splits prod.splits sum.splits acquire_outcome.splits)
    then show ?thesis using acquire_foreign [OF assms(1) ac] by simp
  next
    case False
    then show ?thesis using assms by (simp add: try_acquire_workspace_lock_def keeps_foreign_def)
  qed
  show "\<exists>p. fs (cfg_workspace_root cfg) = Some p \<and> held d' p = Some a" if "cfg_permissions_class cfg = Normal"
  proof -
    from assms(2) ac that obtain x where "r = Inr x" "x = Acquired \<or> x = AlreadyHeld" "d' = d''"
      by (auto simp: try_acquire_workspace_lock_def split: sum.splits acquire_outcome.splits)
    then show ?thesis using acquire_held [OF assms(1), of fs a "cfg_workspace_root cfg" chain x d''] ac by simp
  qed
qed

lemma close_locks [simp]: "tg_locks (close_prompt_channel a tg) = tg_locks tg"
  by (simp add: close_prompt_channel_def split: option.split)

lemma install_locks:
  assumes "install a dir tg = (res, tg')"
  shows "tg_locks tg' = (if is_ok res then tg_locks tg else release_all a (tg_locks tg))"
  using assms by (auto simp: install_def abort_agent_def split: option.splits registry_entry.splits)

text \<open>The lock table after the spawn step of an agent that holds nothing.\<close>

lemma respawn_locks:
  assumes "respawn env a cfg dir tg = (res, tg')" "bt_valid (tg_locks tg)" "holds_none a (tg_locks tg)"
  assumes "\<And>t. tg_locks (de_during env t) = tg_locks t"
  shows "keeps_foreign a (tg_locks tg) (tg_locks tg') \<and>
    (if is_ok res then cfg_permissions_class cfg = Normal \<longrightarrow>
        (\<exists>p. de_fs env (cfg_workspace_root cfg) = Some p \<and> held (tg_locks tg') p = Some a)
     else holds_none a (tg_locks tg'))"
proof -
  have refl: "keeps_foreign a (tg_locks tg) (tg_locks tg)" by (simp add: keeps_foreign_def)
  obtain r d where tr: "try_acquire_workspace_lock (de_fs env) a cfg (carve_chain (tg_registry tg) cfg) (tg_locks tg) = (r, d)"
    by fastforce
  show ?thesis
  proof (cases "root_agent (tg_registry tg)")
    case None
    then show ?thesis using assms(1,3) refl by (auto simp: respawn_def)
  next
    case (Some root)
    show ?thesis
    proof (cases r)
      case (Inl e)
      then have "d = tg_locks tg" using try_acquire_err [OF assms(2)] tr by simp
      then have "tg_locks tg' = tg_locks tg \<and> \<not> is_ok res"
        using assms(1) Some tr Inl by (cases e) (auto simp: respawn_def)
      then show ?thesis using assms(3) refl by simp
    next
      case (Inr g)
      note ok = try_acquire_ok [OF assms(2) tr [unfolded Inr]]
      have drop: "tg_locks tg' = (case g of None \<Rightarrow> d | Some g \<Rightarrow> drop_guard g d) \<and> \<not> is_ok res" if "\<not> de_spawn_ok env"
        using assms(1) Some tr Inr that by (auto simp: respawn_def)
      have inst: "tg_locks tg' = (if is_ok res then d else release_all a d)" if "de_spawn_ok env"
        using assms(1,4) Some tr Inr that install_locks [of a dir "de_during env (tg\<lparr>tg_locks := d\<rparr>)" res tg']
        by (simp add: respawn_def)
      have rel: "keeps_foreign a (tg_locks tg) (release_all a d) \<and> holds_none a (release_all a d)"
        using release_all_foreign [of d a] ok(1) keeps_foreign_trans by blast
      have gone: "(case g of None \<Rightarrow> d | Some g \<Rightarrow> drop_guard g d) = release_all a d \<or> d = tg_locks tg \<and> g = None"
        using ok(3) by (auto simp: drop_guard_def)
      show ?thesis
      proof (cases "de_spawn_ok env")
        case True
        then show ?thesis using inst rel ok(1,2) by auto
      next
        case False
        then show ?thesis using drop gone rel assms(3) refl by auto
      qed
    qed
  qed
qed


lemma watch_get:
  assumes "registry_get (tg_registry tg) a = Some (Live e)"
  shows "\<exists>f. registry_get (tg_registry (watch_agent_task a detail at tg)) a = Some (Faulted f) \<and> fe_identity f = ae_identity e"
  using assms by (simp add: watch_agent_task_def set_entry_def registry_get_def update_conv' notify_invalidation_def Let_def)

text \<open>
  A panic during reactivation destroys the agent's data. When the fresh incarnation panics before
  it is installed, the watcher has made the entry faulted; the reactivation then deletes the agent's
  directory although the entry stays registered and still names it.
\<close>
theorem panic_erases_agent_dir:
  assumes "registry_get (tg_registry tg) a = Some (Live e)" "ah_closed (tg_handles tg a)" "\<not> unresolved tg a"
  assumes "agent_dir (ae_identity e) = Some dir" "root_agent (tg_registry tg) \<noteq> None" "de_spawn_ok env"
  assumes "cfg_permissions_class (config (ae_identity e)) \<noteq> Normal"
  assumes "de_gap env tg = tg" "de_during env = watch_agent_task a detail at"
  shows "\<exists>f. registry_get (tg_registry (snd (reactivate env a tg))) a = Some (Faulted f) \<and>
    agent_dir (fe_identity f) = Some dir \<and> dir \<notin> set (tg_dirs (snd (reactivate env a tg)))"
proof -
  obtain tg1 where r: "reserve a tg = (RSpawn (config (ae_identity e)) dir, tg1)" "tg_registry tg1 = tg_registry tg"
    using assms(1-4) by (auto simp: reserve_def Let_def)
  then have g: "registry_get (tg_registry (tg1\<lparr>tg_locks := tg_locks tg1\<rparr>)) a = Some (Live e)" using assms(1) by simp
  from watch_get [OF g, of detail at] obtain f
    where f: "registry_get (tg_registry (watch_agent_task a detail at tg1)) a = Some (Faulted f)" "fe_identity f = ae_identity e"
    by auto
  obtain root where "root_agent (tg_registry tg1) = Some root" using assms(5) r(2) by auto
  then have "reactivate env a tg = install a dir (watch_agent_task a detail at tg1)"
    using r assms(6-9) by (simp add: reactivate_def respawn_def try_acquire_workspace_lock_def)
  then show ?thesis using f assms(4) by (intro exI [of _ f]) (simp add: install_def abort_agent_def)
qed

section \<open>Witnesses\<close>

definition idle_handle :: "bool \<Rightarrow> agent_handle" where
  "idle_handle closed = \<lparr>ah_queue = [], ah_capacity = 4, ah_closed = closed, ah_notify = False, ah_state = Idle,
     ah_parked = None, ah_round = None\<rparr>"

definition sample_root :: "permission_class \<Rightarrow> agent_entry" where
  "sample_root c = \<lparr>ae_identity = \<lparr>config = \<lparr>cfg_created_by = None, cfg_workspace_root = ''/a/b'', cfg_permissions_class = c,
     cfg_delegation_mode = CarveOut, cfg_role = ''root'', cfg_description = [], cfg_profile_set = Some ''main'',
     cfg_permissions = new_profile ''/a/b''\<rparr>, agent_dir = Some ''/d/root''\<rparr>,
     ae_auth_token_hash = ''h0'', ae_subagent_ids = [], ae_exec_policy = \<lparr>overrides = []\<rparr>\<rparr>"

definition sample_tagma :: "permission_class \<Rightarrow> bool \<Rightarrow> (agent_id, duty_status) hash_map \<Rightarrow> tagma" where
  "sample_tagma c closed duty =
     \<lparr>tg_registry = register ''root'' (Live (sample_root c)) (with_invalidation True 0),
      tg_handles = \<lambda>_. idle_handle closed, tg_inbox = Some empty_inbox, tg_duty = \<lparr>ds_map = duty, ds_generation = 0\<rparr>,
      tg_locks = [], tg_sets = [''main''], tg_dirs = [''/d/root''],
      tg_transcript = Some [], tg_queue_size = 4\<rparr>"

definition quiet_env :: "(tagma \<Rightarrow> tagma) \<Rightarrow> delivery_env" where
  "quiet_env during = \<lparr>de_now = 5, de_clock = 7, de_insert_ok = True, de_evict_ok = True, de_fs = sample_fs,
     de_gap = \<lambda>t. t, de_during = during, de_spawn_ok = True\<rparr>"

lemma quiet_env_fields [simp]:
  "de_insert_ok (quiet_env f)" "de_gap (quiet_env f) = (\<lambda>t. t)" "de_during (quiet_env f) = f" "de_spawn_ok (quiet_env f)"
  "de_fs (quiet_env f) = sample_fs"
  by (simp_all add: quiet_env_def)

lemma sample_fields [simp]:
  "tg_inbox (sample_tagma c x d) = Some empty_inbox" "tg_duty (sample_tagma c x d) = \<lparr>ds_map = d, ds_generation = 0\<rparr>"
  "tg_handles (sample_tagma c x d) b = idle_handle x" "tg_locks (sample_tagma c x d) = []"
  by (simp_all add: sample_tagma_def)

lemma sample_get [simp]:
  "registry_get (tg_registry (sample_tagma c x d)) b = (if b = ''root'' then Some (Live (sample_root c)) else None)"
  by (simp add: sample_tagma_def register_def with_invalidation_def notify_invalidation_def update_subagents_def created_by_def
      sample_root_def registry_get_def)

lemma sample_live [simp]: "live_entry (sample_tagma c x d) b = (if b = ''root'' then Some (sample_root c) else None)"
  by (simp add: live_entry_def)

lemma sample_has_root: "root_agent (tg_registry (sample_tagma c x d)) \<noteq> None"
  by (simp add: sample_tagma_def register_def with_invalidation_def notify_invalidation_def update_subagents_def created_by_def
      sample_root_def root_agent_def is_root_def)

lemma sample_resolved [simp]: "\<not> unresolved (sample_tagma c x d) ''root''"
  by (simp add: sample_tagma_def unresolved_def recorded_set_def sample_root_def register_def registry_get_def
      notify_invalidation_def with_invalidation_def update_subagents_def created_by_def)

lemma idle_handle_fields [simp]: "ah_closed (idle_handle x) = x" "ah_state (idle_handle x) = Idle"
  by (simp_all add: idle_handle_def)

lemma undisturbed_id [simp]: "undisturbed a (\<lambda>t. t)"
  by (simp add: undisturbed_def)


theorem off_duty_never_wakes_witness:
  "tg_handles (snd (enqueue_prompt (quiet_env (\<lambda>t. t)) ''root'' (lit ''hi'') ''operator'' (sample_tagma Normal True [(''root'', OffDuty)])))
   = tg_handles (sample_tagma Normal True [(''root'', OffDuty)])"
proof -
  obtain res tg' where e: "enqueue_prompt (quiet_env (\<lambda>t. t)) ''root'' (lit ''hi'') ''operator'' (sample_tagma Normal True [(''root'', OffDuty)])
      = (res, tg')" by fastforce
  have "is_off_duty (tg_duty (sample_tagma Normal True [(''root'', OffDuty)])) ''root''" by (simp add: is_off_duty_def duty_get_def)
  from off_duty_never_wakes [OF this e, THEN conjunct1] show ?thesis unfolding e by (metis snd_conv tagma.simps(16) tagma.surjective tagma.update_convs(3) tagma.select_convs(2))
qed

theorem refused_message_is_stored_witness:
  "\<not> is_ok (fst (enqueue_prompt (quiet_env (\<lambda>t. t)) ''ghost'' (lit ''hi'') ''operator'' (sample_tagma Normal False [])))"
  using refused_message_is_stored [of "sample_tagma Normal False []" "''ghost''" empty_inbox "quiet_env (\<lambda>t. t)" "lit ''hi''" "''operator''"]
  by (simp add: is_off_duty_def duty_get_def)


theorem panic_erases_agent_dir_witness:
  "''/d/root'' \<notin> set (tg_dirs (snd (reactivate (quiet_env (watch_agent_task ''root'' ''boom'' 0)) ''root'' (sample_tagma Guest True []))))"
  using panic_erases_agent_dir [of "sample_tagma Guest True []" "''root''" "sample_root Guest" "''/d/root''"
      "quiet_env (watch_agent_task ''root'' ''boom'' 0)" "''boom''" 0] sample_has_root [of Guest True "[]"]
  by (auto simp: sample_root_def)

end
