(* ===== verification/Duty_Engine.thy ===== *)
theory Duty_Engine
  imports Work_Schedule Delivery
begin

text \<open>
  The scheduling engine of the tagma (\<open>kallip-tagma/src/engine.rs\<close>) and the handler that saves a
  schedule (\<open>work_schedule/mod.rs\<close>).

  A pass of the engine reads the clock once; \<open>now\<close> is that reading. The store is what its read
  returned (\<open>schedule_read\<close>). The loop that fires due transitions has fuel, and
  \<open>drain_always_returns\<close> shows that eight rounds are always enough. Log lines are left out.
\<close>

section \<open>Schedules and cycles\<close>

record work_schedule =
  wk_id :: string
  wk_spec :: spec
  wk_pre_warn_minutes :: nat
  wk_final_warn_minutes :: nat
  wk_final_warn_prompt :: "utext option"
  wk_wake_prompt :: utext
  wk_active :: bool
  wk_created_at :: instant

datatype schedule_phase = OffShift | Working | PreWarned | FinalWarned

record cycle_state =
  cs_spec :: spec
  cs_pre_warn_minutes :: nat
  cs_final_warn_minutes :: nat
  cs_final_warn_prompt :: "utext option"
  cs_agent_id :: agent_id
  cs_wake_prompt :: utext
  cs_phase :: schedule_phase
  cs_end_time :: instant
  cs_next_start :: instant

datatype duty_transition = StartShift | PreWarn | FinalWarn | EndShift

definition hour :: int where "hour = 60 * MINUTE"

definition minutes :: "nat \<Rightarrow> int" where
  "minutes n = int n * MINUTE"

definition init_cycle :: "day_calendar \<Rightarrow> work_schedule \<Rightarrow> agent_id \<Rightarrow> instant \<Rightarrow> cycle_state option" where
  "init_cycle cal sched root now =
     (case window_status_at cal (wk_spec sched) now of
        None \<Rightarrow> None
      | Some st \<Rightarrow>
          (let pre = wk_pre_warn_minutes sched; fin = wk_final_warn_minutes sched;
               phase = (if \<not> ws_inside st then OffShift
                        else if wk_spec sched = Always then Working
                        else if ws_next_end st - minutes fin \<le> now then FinalWarned
                        else if ws_next_end st - minutes pre \<le> now then PreWarned
                        else Working)
           in Some \<lparr>cs_spec = wk_spec sched, cs_pre_warn_minutes = pre, cs_final_warn_minutes = fin,
                    cs_final_warn_prompt = wk_final_warn_prompt sched, cs_agent_id = root,
                    cs_wake_prompt = wk_wake_prompt sched, cs_phase = phase,
                    cs_end_time = ws_next_end st, cs_next_start = ws_next_start st\<rparr>))"

definition pre_warn_time :: "cycle_state \<Rightarrow> instant" where
  "pre_warn_time cs = cs_end_time cs - minutes (cs_pre_warn_minutes cs)"

definition final_warn_time :: "cycle_state \<Rightarrow> instant" where
  "final_warn_time cs = cs_end_time cs - minutes (cs_final_warn_minutes cs)"

definition compute_transition :: "cycle_state \<Rightarrow> instant \<Rightarrow> duty_transition option" where
  "compute_transition cs now =
     (case cs_phase cs of
        OffShift \<Rightarrow> if cs_next_start cs \<le> now then Some StartShift else None
      | Working \<Rightarrow> if pre_warn_time cs \<le> now \<and> cs_spec cs \<noteq> Always then Some PreWarn else None
      | PreWarned \<Rightarrow> if final_warn_time cs \<le> now then Some FinalWarn else None
      | FinalWarned \<Rightarrow> if cs_end_time cs \<le> now then Some EndShift else None)"

definition end_covered_by_next :: "day_calendar \<Rightarrow> spec \<Rightarrow> instant \<Rightarrow> instant option" where
  "end_covered_by_next cal sp now =
     (case window_status_at cal sp now of
        Some st \<Rightarrow> if ws_inside st then Some (ws_next_end st) else None
      | None \<Rightarrow> None)"

definition recompute_start_after_end :: "day_calendar \<Rightarrow> instant \<Rightarrow> cycle_state \<Rightarrow> cycle_state" where
  "recompute_start_after_end cal now cs =
     (case window_status_at cal (cs_spec cs) now of
        Some st \<Rightarrow> cs\<lparr>cs_next_start := ws_next_start st\<rparr>
      | None \<Rightarrow> cs\<lparr>cs_next_start := now + 60 * MINUTE\<rparr>)"

section \<open>The phase executor\<close>

definition trim_text :: "utext \<Rightarrow> utext" where
  "trim_text s = rev (dropWhile is_whitespace (rev (dropWhile is_whitespace s)))"

fun replace_n :: "utext \<Rightarrow> utext \<Rightarrow> utext" where
  "replace_n r (a # b # c # cs) = (if a = 123 \<and> b = 78 \<and> c = 125 then r @ replace_n r cs else a # replace_n r (b # c # cs))"
| "replace_n r cs = cs"

definition interrupt_round :: "agent_id \<Rightarrow> tagma \<Rightarrow> tagma" where
  "interrupt_round a tg =
     (case live_entry tg a of
        None \<Rightarrow> tg
      | Some _ \<Rightarrow> upd_handle a (\<lambda>h. h\<lparr>ah_round := map_option (\<lambda>_. True) (ah_round h)\<rparr>) tg)"

definition DEFAULT_WAKE_PROMPT :: utext where
  "DEFAULT_WAKE_PROMPT = lit ''You are on duty '' @ [0x2014] @ lit '' check your inbox for messages received while you were off duty, and resume any work left unfinished at the end of your last shift.''"

definition set_duty :: "agent_id \<Rightarrow> duty_status \<Rightarrow> tagma \<Rightarrow> tagma" where
  "set_duty a d tg = tg\<lparr>tg_duty := duty_set a d (tg_duty tg)\<rparr>"

definition execute_start :: "delivery_env \<Rightarrow> cycle_state \<Rightarrow> tagma \<Rightarrow> tagma" where
  "execute_start env cs tg =
     (let a = cs_agent_id cs; tg1 = set_duty a OnDuty tg;
          custom = trim_text (cs_wake_prompt cs);
          body = (if custom = [] then DEFAULT_WAKE_PROMPT else DEFAULT_WAKE_PROMPT @ 10 # custom)
      in case tg_inbox tg1 of
           None \<Rightarrow> tg1
         | Some st \<Rightarrow>
             (let tg2 = store_prompt env a (prompt_event env ''system'' body) st tg1
              in if live_entry tg2 a = None then tg2 else notify_one a tg2))"

definition execute_pre_warn :: "delivery_env \<Rightarrow> cycle_state \<Rightarrow> tagma \<Rightarrow> tagma" where
  "execute_pre_warn env cs tg =
     snd (enqueue_prompt env (cs_agent_id cs)
       ([0x23F0] @ lit '' Your shift ends in '' @ lit (show_nat (cs_pre_warn_minutes cs)) @ lit '' minutes. Start wrapping up.'')
       ''system'' tg)"

definition final_warn_text :: "cycle_state \<Rightarrow> utext" where
  "final_warn_text cs =
     (let n = lit (show_nat (cs_final_warn_minutes cs));
          dflt = [0x23F0] @ lit '' '' @ n @ lit '' minutes until end of shift. Save your work now.''
      in case map_option trim_text (cs_final_warn_prompt cs) of
           Some custom \<Rightarrow> if custom \<noteq> [] then dflt @ 10 # replace_n n custom else dflt
         | None \<Rightarrow> dflt)"

definition execute_final_warn :: "delivery_env \<Rightarrow> cycle_state \<Rightarrow> tagma \<Rightarrow> tagma" where
  "execute_final_warn env cs tg = snd (enqueue_prompt env (cs_agent_id cs) (final_warn_text cs) ''system'' tg)"

definition execute_end :: "cycle_state \<Rightarrow> tagma \<Rightarrow> tagma" where
  "execute_end cs tg = interrupt_round (cs_agent_id cs) (set_duty (cs_agent_id cs) OffDuty tg)"

section \<open>Firing due transitions\<close>

fun fire :: "day_calendar \<Rightarrow> delivery_env \<Rightarrow> instant \<Rightarrow> duty_transition \<Rightarrow> cycle_state \<times> tagma \<Rightarrow> cycle_state \<times> tagma" where
  "fire cal env now StartShift (cs, tg) =
     (case window_status_at cal (cs_spec cs) (cs_next_start cs) of
        Some st \<Rightarrow>
          if ws_next_end st \<le> now
          then (recompute_start_after_end cal now (cs\<lparr>cs_phase := OffShift\<rparr>), set_duty (cs_agent_id cs) OffDuty tg)
          else (let cs' = cs\<lparr>cs_end_time := ws_next_end st\<rparr> in (cs'\<lparr>cs_phase := Working\<rparr>, execute_start env cs' tg))
      | None \<Rightarrow> (cs\<lparr>cs_phase := Working\<rparr>, execute_start env cs tg))"
| "fire cal env now PreWarn (cs, tg) =
     (cs\<lparr>cs_phase := PreWarned\<rparr>, if now < cs_end_time cs then execute_pre_warn env cs tg else tg)"
| "fire cal env now FinalWarn (cs, tg) =
     (cs\<lparr>cs_phase := FinalWarned\<rparr>, if now < cs_end_time cs then execute_final_warn env cs tg else tg)"
| "fire cal env now EndShift (cs, tg) =
     (case end_covered_by_next cal (cs_spec cs) now of
        Some e \<Rightarrow> (cs\<lparr>cs_end_time := e, cs_phase := Working\<rparr>, tg)
      | None \<Rightarrow> (recompute_start_after_end cal now (cs\<lparr>cs_phase := OffShift\<rparr>), execute_end cs tg))"

fun drain_loop :: "nat \<Rightarrow> day_calendar \<Rightarrow> delivery_env \<Rightarrow> instant \<Rightarrow> cycle_state \<times> tagma \<Rightarrow> (cycle_state \<times> tagma) option" where
  "drain_loop 0 cal env now p = None"
| "drain_loop (Suc n) cal env now p =
     (case compute_transition (fst p) now of
        None \<Rightarrow> Some p
      | Some tr \<Rightarrow> drain_loop n cal env now (fire cal env now tr p))"

section \<open>A pass and the loop of the engine\<close>

datatype schedule_read = NoStore | ReadFailed | Stored "work_schedule option"

type_synonym cycle_map = "(string, cycle_state) hash_map"

definition start_cycle :: "delivery_env \<Rightarrow> cycle_state \<Rightarrow> tagma \<Rightarrow> tagma" where
  "start_cycle env c tg = (if cs_phase c = OffShift then set_duty (cs_agent_id c) OffDuty tg else execute_start env c tg)"

definition edited :: "cycle_state \<Rightarrow> work_schedule \<Rightarrow> bool" where
  "edited cs s \<longleftrightarrow> cs_spec cs \<noteq> wk_spec s \<or> cs_pre_warn_minutes cs \<noteq> wk_pre_warn_minutes s \<or>
     cs_final_warn_minutes cs \<noteq> wk_final_warn_minutes s \<or> cs_final_warn_prompt cs \<noteq> wk_final_warn_prompt s \<or>
     cs_wake_prompt cs \<noteq> wk_wake_prompt s"

definition apply_edit ::
  "day_calendar \<Rightarrow> delivery_env \<Rightarrow> instant \<Rightarrow> agent_id \<Rightarrow> work_schedule \<Rightarrow> cycle_state \<times> tagma \<Rightarrow> cycle_state \<times> tagma" where
  "apply_edit cal env now root s p =
     (let (cs, tg) = p
      in if \<not> edited cs s then (cs, tg)
         else case init_cycle cal s root now of
                None \<Rightarrow> (cs, tg)
              | Some new \<Rightarrow>
                  (new,
                   if cs_phase cs = OffShift \<and> cs_phase new \<noteq> OffShift then execute_start env new tg
                   else set_duty (cs_agent_id new) (if cs_phase new = OffShift then OffDuty else OnDuty) tg))"

definition process_schedule ::
  "nat \<Rightarrow> day_calendar \<Rightarrow> delivery_env \<Rightarrow> instant \<Rightarrow> agent_id \<Rightarrow> work_schedule \<Rightarrow> cycle_map \<times> tagma \<Rightarrow> (cycle_map \<times> tagma) option" where
  "process_schedule fuel cal env now root s p =
     (let (cycles, tg) = p;
          init = (case map_of cycles (wk_id s) of
                    Some cs \<Rightarrow> Some (cs, tg)
                  | None \<Rightarrow> (case init_cycle cal s root now of None \<Rightarrow> None | Some c \<Rightarrow> Some (c, start_cycle env c tg)))
      in case init of
           None \<Rightarrow> Some (cycles, tg)
         | Some q \<Rightarrow>
             map_option (\<lambda>(cs', tg'). (AList.update (wk_id s) cs' cycles, tg'))
               (drain_loop fuel cal env now (apply_edit cal env now root s q)))"

definition deadline_of :: "cycle_state \<Rightarrow> instant" where
  "deadline_of cs =
     (case cs_phase cs of OffShift \<Rightarrow> cs_next_start cs | Working \<Rightarrow> pre_warn_time cs
      | PreWarned \<Rightarrow> final_warn_time cs | FinalWarned \<Rightarrow> cs_end_time cs)"

fun compute_next_deadline :: "cycle_map \<Rightarrow> instant option" where
  "compute_next_deadline [] = None"
| "compute_next_deadline ((k, cs) # m) =
     Some (case compute_next_deadline m of None \<Rightarrow> deadline_of cs | Some d \<Rightarrow> min (deadline_of cs) d)"

definition recompute ::
  "nat \<Rightarrow> day_calendar \<Rightarrow> delivery_env \<Rightarrow> instant \<Rightarrow> schedule_read \<Rightarrow> cycle_map \<times> tagma \<Rightarrow>
   ((unit + instant option) \<times> cycle_map \<times> tagma) option" where
  "recompute fuel cal env now rd p =
     (let (cycles, tg) = p
      in case rd of
           NoStore \<Rightarrow> Some (Inr None, cycles, tg)
         | ReadFailed \<Rightarrow> Some (Inl (), cycles, tg)
         | Stored so \<Rightarrow>
             (case root_agent (tg_registry tg) of
                None \<Rightarrow> Some (Inr None, [], tg)
              | Some (root, _) \<Rightarrow>
                  (case so of
                     Some s \<Rightarrow>
                       if wk_active s
                       then map_option (\<lambda>(cyc, tg'). (Inr (compute_next_deadline cyc), cyc, tg'))
                              (process_schedule fuel cal env now root s (filter (\<lambda>(k, _). k = wk_id s) cycles, tg))
                       else Some (Inr None, [], tg)
                   | None \<Rightarrow> Some (Inr None, [], tg))))"

definition RETRY_BACKOFF :: int where "RETRY_BACKOFF = 10 * 10 ^ 9"

definition deadline_due :: "instant \<Rightarrow> instant \<Rightarrow> bool" where
  "deadline_due deadline now \<longleftrightarrow> deadline \<le> now"

definition run_recompute ::
  "nat \<Rightarrow> day_calendar \<Rightarrow> delivery_env \<Rightarrow> instant \<Rightarrow> schedule_read \<Rightarrow> cycle_map \<times> tagma \<Rightarrow>
   (instant option \<times> cycle_map \<times> tagma) option" where
  "run_recompute fuel cal env now rd p =
     map_option (\<lambda>(res, q). (case res of Inr d \<Rightarrow> d | Inl _ \<Rightarrow> Some (now + RETRY_BACKOFF), q)) (recompute fuel cal env now rd p)"

datatype wake_cause = Notified | Tick

record engine_wake =
  ew_cause :: wake_cause
  ew_now :: instant
  ew_read :: schedule_read
  ew_world :: "tagma \<Rightarrow> tagma"

definition engine_step ::
  "nat \<Rightarrow> day_calendar \<Rightarrow> delivery_env \<Rightarrow> engine_wake \<Rightarrow> instant option \<times> cycle_map \<times> tagma \<Rightarrow>
   (instant option \<times> cycle_map \<times> tagma) option" where
  "engine_step fuel cal env w st =
     (let (deadline, cycles, tg0) = st; tg = ew_world w tg0
      in if ew_cause w = Notified \<or> (case deadline of None \<Rightarrow> False | Some d \<Rightarrow> deadline_due d (ew_now w))
         then run_recompute fuel cal env (ew_now w) (ew_read w) (cycles, tg)
         else Some (deadline, cycles, tg))"

fun engine_run ::
  "nat \<Rightarrow> day_calendar \<Rightarrow> delivery_env \<Rightarrow> engine_wake list \<Rightarrow> instant option \<times> cycle_map \<times> tagma \<Rightarrow>
   (instant option \<times> cycle_map \<times> tagma) option" where
  "engine_run fuel cal env [] st = Some st"
| "engine_run fuel cal env (w # ws) st = Option.bind (engine_step fuel cal env w st) (engine_run fuel cal env ws)"


section \<open>The drain returns\<close>

text \<open>How many transitions can still fire; every one lowers it.\<close>

definition rank :: "instant \<Rightarrow> cycle_state \<Rightarrow> nat" where
  "rank now cs =
     (case cs_phase cs of
        OffShift \<Rightarrow> if cs_next_start cs \<le> now then 7 else 0
      | Working \<Rightarrow> if cs_end_time cs \<le> now then 6 else 3
      | PreWarned \<Rightarrow> if cs_end_time cs \<le> now then 5 else 2
      | FinalWarned \<Rightarrow> if cs_end_time cs \<le> now then 4 else 1)"

lemma recompute_start_fields [simp]:
  "cs_phase (recompute_start_after_end cal now cs) = cs_phase cs" "cs_spec (recompute_start_after_end cal now cs) = cs_spec cs"
  "cs_agent_id (recompute_start_after_end cal now cs) = cs_agent_id cs"
  "cs_end_time (recompute_start_after_end cal now cs) = cs_end_time cs"
  by (simp_all add: recompute_start_after_end_def split: option.split)

lemma recompute_start_ahead:
  assumes "spec_turns (cs_spec cs)"
  shows "now < cs_next_start (recompute_start_after_end cal now cs)"
  using window_status_ahead [OF _ assms]
  by (auto simp: recompute_start_after_end_def MINUTE_def split: option.split)

lemma end_covered_ahead: "end_covered_by_next cal sp now = Some e \<Longrightarrow> spec_turns sp \<Longrightarrow> now < e"
  using window_status_ahead by (auto simp: end_covered_by_next_def split: option.splits if_splits)

lemma fire_spec [simp]: "cs_spec (fst (fire cal env now tr (cs, tg))) = cs_spec cs" "cs_agent_id (fst (fire cal env now tr (cs, tg))) = cs_agent_id cs"
  by (cases tr; simp add: Let_def split: option.split)+

lemma fire_rank:
  assumes "compute_transition cs now = Some tr" "spec_turns (cs_spec cs)"
  shows "rank now (fst (fire cal env now tr (cs, tg))) < rank now cs"
proof (cases "cs_phase cs")
  case OffShift
  then have d: "tr = StartShift" "cs_next_start cs \<le> now" using assms(1) by (auto simp: compute_transition_def split: if_splits)
  then show ?thesis using OffShift recompute_start_ahead [of "cs\<lparr>cs_phase := OffShift\<rparr>" now cal] assms(2)
    by (auto simp: rank_def Let_def split: option.split)
next
  case FinalWarned
  then have d: "tr = EndShift" "cs_end_time cs \<le> now" using assms(1) by (auto simp: compute_transition_def split: if_splits)
  then show ?thesis
    using FinalWarned recompute_start_ahead [of "cs\<lparr>cs_phase := OffShift\<rparr>" now cal] assms(2) end_covered_ahead [of cal "cs_spec cs" now]
    by (auto simp: rank_def split: option.split)
qed (use assms(1) in \<open>auto simp: compute_transition_def rank_def split: if_splits\<close>)

lemma drain_enough:
  assumes "spec_turns (cs_spec cs)" "rank now cs < n"
  shows "\<exists>q. drain_loop n cal env now (cs, tg) = Some q"
  using assms
proof (induction n arbitrary: cs tg)
  case (Suc n)
  show ?case
  proof (cases "compute_transition cs now")
    case (Some tr)
    let ?p = "fire cal env now tr (cs, tg)"
    have "rank now (fst ?p) < n" using fire_rank [OF Some Suc.prems(1), of cal env tg] Suc.prems(2) by simp
    from Suc.IH [OF _ this, of "snd ?p"] Suc.prems(1) Some show ?thesis by simp
  qed simp
qed simp

lemma rank_bound: "rank now cs < 8"
  by (simp add: rank_def split: schedule_phase.split)

text \<open>
  Firing due transitions always ends: whatever the cycle state, the clock and the effects of the
  messages sent, for a validated schedule the loop leaves after at most seven transitions, even where
  windows touch or overlap, where the warning times lie before the start, and after any stall.
\<close>
theorem drain_always_returns:
  assumes "validate_spec (cs_spec cs) = Inr ()"
  shows "\<exists>q. drain_loop 8 cal env now (cs, tg) = Some q"
proof -
  have "spec_turns (cs_spec cs)" using assms by (cases "cs_spec cs") (auto simp: rbind_fail_if)
  then show ?thesis using drain_enough rank_bound by blast
qed

theorem drain_always_returns_witness:
  "\<exists>q. drain_loop 8 plain_calendar (quiet_env (\<lambda>t. t)) (600 * MINUTE)
     (\<lparr>cs_spec = office_hours, cs_pre_warn_minutes = 10, cs_final_warn_minutes = 5, cs_final_warn_prompt = None,
       cs_agent_id = ''root'', cs_wake_prompt = [], cs_phase = OffShift, cs_end_time = 0, cs_next_start = 540 * MINUTE\<rparr>,
      sample_tagma Normal False []) = Some q"
  by (rule drain_always_returns) code_simp

section \<open>Duty follows the schedule\<close>

definition calm :: "delivery_env \<Rightarrow> bool" where
  "calm env \<longleftrightarrow> (\<forall>t. tg_duty (de_gap env t) = tg_duty t \<and> tg_duty (de_during env t) = tg_duty t)"

lemma install_duty: "tg_duty (snd (install a dir tg)) = tg_duty tg"
  by (simp add: install_def abort_agent_def split: option.split registry_entry.split)

lemma reserve_duty: "tg_duty (snd (reserve a tg)) = tg_duty tg"
  by (simp add: reserve_def Let_def split: option.split registry_entry.split)

lemma close_duty: "tg_duty (close_prompt_channel a tg) = tg_duty tg"
  by (simp add: close_prompt_channel_def split: option.split)

lemma respawn_duty: "calm env \<Longrightarrow> tg_duty (snd (respawn env a cfg dir tg)) = tg_duty tg"
  by (simp add: respawn_def install_duty close_duty calm_def split: option.split prod.split sum.split acquire_failure.split)

lemma enqueue_duty:
  assumes "calm env"
  shows "tg_duty (snd (enqueue_prompt env a body src tg)) = tg_duty tg"
proof -
  have react: "tg_duty (snd (reactivate env a t)) = tg_duty t" for t
    using reserve_duty [of a "de_gap env t"] respawn_duty [OF assms] assms
    by (auto simp: reactivate_def calm_def split: prod.split reserve_result.split)
  have live: "tg_duty (snd (deliver_live env a t)) = tg_duty t" for t
    by (simp add: deliver_live_def react split: option.split registry_entry.split)
  have wake: "tg_duty (snd (wake_parked w a t)) = tg_duty t" for w t
    by (cases w) (simp_all add: Let_def split: prod.split)
  show ?thesis
    using wake by (simp add: enqueue_prompt_def Let_def live split: option.split prod.split) (metis snd_conv store_prompt_fields(3))
qed

definition duty_matches :: "cycle_state \<Rightarrow> tagma \<Rightarrow> bool" where
  "duty_matches cs tg \<longleftrightarrow> duty_get (tg_duty tg) (cs_agent_id cs) = (if cs_phase cs = OffShift then OffDuty else OnDuty)"

lemma start_duty: "tg_duty (execute_start env cs tg) = duty_set (cs_agent_id cs) OnDuty (tg_duty tg)"
  by (simp add: execute_start_def Let_def set_duty_def split: option.split)

lemma end_duty: "tg_duty (execute_end cs tg) = duty_set (cs_agent_id cs) OffDuty (tg_duty tg)"
  by (simp add: execute_end_def interrupt_round_def set_duty_def split: option.split)

lemma fire_duty:
  assumes "compute_transition cs now = Some tr" "calm env" "duty_matches cs tg"
  shows "duty_matches (fst (fire cal env now tr (cs, tg))) (snd (fire cal env now tr (cs, tg)))"
  using assms
  by (cases tr; cases "cs_phase cs")
    (auto simp: duty_matches_def compute_transition_def start_duty end_duty set_duty_def Let_def execute_pre_warn_def
      execute_final_warn_def enqueue_duty split: option.splits if_splits)


text \<open>What a cycle promises about the schedule from an instant \<open>t\<close> on.\<close>

definition coherent :: "day_calendar \<Rightarrow> cycle_state \<Rightarrow> instant \<Rightarrow> bool" where
  "coherent cal cs t \<longleftrightarrow>
     (if cs_phase cs = OffShift
      then \<not> on_duty cal (cs_spec cs) t \<and> least_of (fst ` future cal (cs_spec cs) t) (cs_next_start cs)
      else t < cs_end_time cs \<and> (\<forall>u. t \<le> u \<and> u < cs_end_time cs \<longrightarrow> on_duty cal (cs_spec cs) u))"

definition stalled :: "day_calendar \<Rightarrow> cycle_state \<Rightarrow> instant \<Rightarrow> bool" where
  "stalled cal cs now \<longleftrightarrow>
     (case window_status_at cal (cs_spec cs) (cs_next_start cs) of
        Some st \<Rightarrow> cs_phase cs = OffShift \<and> ws_next_end st \<le> now
      | None \<Rightarrow> False)"

definition sched_ok :: "day_calendar \<Rightarrow> spec \<Rightarrow> bool" where
  "sched_ok cal sp \<longleftrightarrow> validate_spec sp = Inr () \<and> sp \<noteq> Always \<and> cal_ok cal"

lemma sched_status:
  assumes "sched_ok cal sp" "in_range cal now"
  obtains st where "window_status_at cal sp now = Some st" "status_right cal sp now st"
  using window_status_facts [of sp cal now] assms unfolding sched_ok_def by blast

lemma shift_nonempty:
  assumes "sched_ok cal sp" "(s, e) \<in> shifts cal sp"
  shows "s < e"
proof -
  have day: "s < e" if "(s, e) = day_span d w" "w \<in> set ws" "validate_windows ws = Inr ()" for d w ws
    using day_span_bounds(3) [OF validate_windows_ok(2) [OF that(3,2)], of d] that(1) by (metis fst_conv snd_conv)
  show ?thesis
  proof (cases sp)
    case (Weekly days ws)
    then have "validate_windows ws = Inr ()" using assms(1) by (auto simp: sched_ok_def rbind_fail_if)
    with assms(2) Weekly day show ?thesis by auto
  next
    case (Monthly days ws)
    then have "validate_windows ws = Inr ()" using assms(1) by (auto simp: sched_ok_def rbind_fail_if)
    with assms(2) Monthly day show ?thesis by auto
  next
    case (Interval hours len anchor)
    then show ?thesis using assms by (auto simp: sched_ok_def rbind_fail_if MINUTE_def)
  qed (use assms in \<open>simp add: sched_ok_def\<close>)
qed

lemma on_dutyI: "(s, e) \<in> shifts cal sp \<Longrightarrow> s \<le> u \<Longrightarrow> u < e \<Longrightarrow> on_duty cal sp u"
  by (force simp: on_duty_def covering_def)

lemma covered_until:
  assumes "greatest_of (snd ` covering cal sp t) e" "t \<le> u" "u < e"
  shows "on_duty cal sp u"
proof -
  obtain s where "(s, e) \<in> shifts cal sp" "s \<le> t" using assms(1) by (auto simp: greatest_of_def covering_def)
  then have "(s, e) \<in> covering cal sp u" using assms(2,3) by (simp add: covering_def)
  then show ?thesis by (auto simp: on_duty_def)
qed

text \<open>Nothing starts and nothing runs before the next start.\<close>

lemma off_until_start:
  assumes "\<not> on_duty cal sp t" "least_of (fst ` future cal sp t) s" "t \<le> u" "u < s"
  shows "\<not> on_duty cal sp u \<and> least_of (fst ` future cal sp u) s"
proof -
  have early: "e \<le> t" if "(b, e) \<in> shifts cal sp" "b \<le> u" for b e
  proof -
    have "b \<le> t" using assms(2,4) that by (force simp: least_of_def future_def)
    then show ?thesis using assms(1) that(1) by (force simp: on_duty_def covering_def)
  qed
  have "future cal sp u \<subseteq> future cal sp t" using assms(3) by (auto simp: future_def)
  moreover have "s \<in> fst ` future cal sp u" using assms(2,4) by (force simp: least_of_def future_def)
  ultimately have "least_of (fst ` future cal sp u) s" using assms(2) unfolding least_of_def by blast
  moreover have "\<not> on_duty cal sp u" using early assms(3) by (force simp: on_duty_def covering_def)
  ultimately show ?thesis by blast
qed

lemma coherent_later:
  assumes "coherent cal cs t" "t \<le> now"
  shows "coherent cal cs now \<or> (cs_phase cs = OffShift \<and> cs_next_start cs \<le> now) \<or> (cs_phase cs \<noteq> OffShift \<and> cs_end_time cs \<le> now)"
  using assms off_until_start [of cal "cs_spec cs" t "cs_next_start cs" now]
  by (auto simp: coherent_def split: if_splits)

text \<open>The state inside the loop: in step, or working past a nominal end.\<close>

definition midway :: "day_calendar \<Rightarrow> cycle_state \<Rightarrow> instant \<Rightarrow> bool" where
  "midway cal cs now \<longleftrightarrow> coherent cal cs now \<or> (cs_phase cs \<noteq> OffShift \<and> cs_end_time cs \<le> now)"

lemma fire_start_midway:
  assumes "sched_ok cal (cs_spec cs)" "in_range cal (cs_next_start cs)" "cs_phase cs = OffShift" "coherent cal cs t"
    "cs_next_start cs \<le> now" "\<not> stalled cal cs now"
  shows "coherent cal (fst (fire cal env now StartShift (cs, tg))) now"
proof -
  let ?s = "cs_next_start cs"
  obtain st where st: "window_status_at cal (cs_spec cs) ?s = Some st" "status_right cal (cs_spec cs) ?s st"
    using sched_status [OF assms(1,2)] by blast
  have late: "now < ws_next_end st" using assms(3,6) st(1) by (simp add: stalled_def)
  obtain e where "(?s, e) \<in> shifts cal (cs_spec cs)"
    using assms(3,4) by (auto simp: coherent_def least_of_def future_def)
  then have "on_duty cal (cs_spec cs) ?s" using shift_nonempty [OF assms(1)] by (force simp: on_duty_def covering_def)
  then have "greatest_of (snd ` covering cal (cs_spec cs) ?s) (ws_next_end st)"
    using st(2) by (simp add: status_right_def)
  then have "on_duty cal (cs_spec cs) u" if "now \<le> u" "u < ws_next_end st" for u
    using covered_until that assms(5) by (meson order_trans)
  then show ?thesis using late st(1) by (simp add: coherent_def Let_def)
qed

lemma fire_midway:
  assumes "sched_ok cal (cs_spec cs)" "in_range cal now" "midway cal cs now" "compute_transition cs now = Some tr"
  shows "midway cal (fst (fire cal env now tr (cs, tg))) now"
proof (cases "cs_phase cs")
  case OffShift
  then have "now < cs_next_start cs" using assms(3) by (auto simp: midway_def coherent_def least_of_def future_def)
  then show ?thesis using OffShift assms(4) by (simp add: compute_transition_def)
next
  case FinalWarned
  then have tr: "tr = EndShift" using assms(4) by (auto simp: compute_transition_def split: if_splits)
  obtain st where st: "window_status_at cal (cs_spec cs) now = Some st" "status_right cal (cs_spec cs) now st"
    using sched_status [OF assms(1,2)] by blast
  show ?thesis
  proof (cases "ws_inside st")
    case True
    then have g: "greatest_of (snd ` covering cal (cs_spec cs) now) (ws_next_end st)" using st(2) by (simp add: status_right_def)
    then have "now < ws_next_end st" by (auto simp: greatest_of_def covering_def)
    then show ?thesis using tr True st(1) covered_until [OF g]
      by (simp add: midway_def coherent_def end_covered_by_next_def)
  next
    case False
    then show ?thesis using tr st by (simp add: midway_def coherent_def end_covered_by_next_def recompute_start_after_end_def status_right_def)
  qed
qed (use assms(3,4) in \<open>auto simp: compute_transition_def midway_def coherent_def split: if_splits\<close>)

lemma quiet_midway:
  assumes "midway cal cs now" "compute_transition cs now = None" "cs_spec cs \<noteq> Always"
  shows "coherent cal cs now \<and> now < deadline_of cs"
proof -
  have m: "0 \<le> minutes n" for n by (simp add: minutes_def MINUTE_def)
  have "now < deadline_of cs"
    using assms(2,3) by (auto simp: compute_transition_def deadline_of_def split: schedule_phase.splits if_splits)
  moreover have "deadline_of cs \<le> cs_end_time cs" if "cs_phase cs \<noteq> OffShift"
    using that m by (cases "cs_phase cs") (simp_all add: deadline_of_def pre_warn_time_def final_warn_time_def)
  ultimately show ?thesis using assms(1) by (fastforce simp: midway_def)
qed

lemma drain_midway:
  assumes "sched_ok cal (cs_spec cs)" "in_range cal now" "calm env" "midway cal cs now" "duty_matches cs tg"
    "drain_loop n cal env now (cs, tg) = Some (cs', tg')"
  shows "coherent cal cs' now \<and> duty_matches cs' tg' \<and> cs_spec cs' = cs_spec cs \<and> cs_agent_id cs' = cs_agent_id cs \<and> now < deadline_of cs'"
  using assms(1,4-6)
proof (induction n arbitrary: cs tg)
  case (Suc n)
  show ?case
  proof (cases "compute_transition cs now")
    case None
    then show ?thesis using Suc.prems quiet_midway [OF Suc.prems(2)] by (auto simp: sched_ok_def)
  next
    case (Some tr)
    obtain c1 t1 where f: "fire cal env now tr (cs, tg) = (c1, t1)" by fastforce
    have "sched_ok cal (cs_spec c1)" "midway cal c1 now" "duty_matches c1 t1" "cs_spec c1 = cs_spec cs" "cs_agent_id c1 = cs_agent_id cs"
      using fire_spec [of cal env now tr cs tg] fire_midway [OF Suc.prems(1) assms(2) Suc.prems(2) Some, of env tg]
        fire_duty [OF Some assms(3) Suc.prems(3), of cal] Suc.prems(1) by (simp_all only: f fst_conv snd_conv)
    moreover have "drain_loop n cal env now (c1, t1) = Some (cs', tg')" using Suc.prems(4) Some f by (simp del: fire.simps)
    ultimately show ?thesis using Suc.IH [of c1 t1] by simp
  qed
qed simp

lemma drain_coherent:
  assumes "sched_ok cal (cs_spec cs)" "in_range cal now" "in_range cal (cs_next_start cs)" "calm env"
    "coherent cal cs t" "t \<le> now" "\<not> stalled cal cs now" "duty_matches cs tg"
    "drain_loop n cal env now (cs, tg) = Some (cs', tg')"
  shows "coherent cal cs' now \<and> duty_matches cs' tg' \<and> cs_spec cs' = cs_spec cs \<and> cs_agent_id cs' = cs_agent_id cs \<and> now < deadline_of cs'"
proof (cases "cs_phase cs = OffShift \<and> cs_next_start cs \<le> now")
  case True
  then have tr: "compute_transition cs now = Some StartShift" by (simp add: compute_transition_def)
  obtain m where n: "n = Suc m" using assms(9) by (cases n) auto
  obtain c1 t1 where f: "fire cal env now StartShift (cs, tg) = (c1, t1)" by fastforce
  have "coherent cal c1 now" using fire_start_midway [OF assms(1,3) _ assms(5) _ assms(7)] True f by (metis fst_conv)
  moreover have "duty_matches c1 t1" "cs_spec c1 = cs_spec cs" "cs_agent_id c1 = cs_agent_id cs"
    using fire_duty [OF tr assms(4,8), of cal] fire_spec [of cal env now StartShift cs tg] by (simp_all only: f fst_conv snd_conv)
  moreover have "drain_loop m cal env now (c1, t1) = Some (cs', tg')" using assms(9) tr f n by (simp del: fire.simps)
  ultimately show ?thesis using drain_midway [of cal c1 now env t1 m cs' tg'] assms(1,2,4) by (simp add: midway_def)
next
  case False
  then have "midway cal cs now" using coherent_later [OF assms(5,6)] by (auto simp: midway_def)
  then show ?thesis using drain_midway [OF assms(1,2,4) _ assms(8,9)] by blast
qed


section \<open>The engine as a state machine\<close>

lemma init_cycle_ok:
  assumes "sched_ok cal (wk_spec s)" "in_range cal now"
  shows "\<exists>c. init_cycle cal s root now = Some c \<and> cs_spec c = wk_spec s \<and> cs_agent_id c = root \<and> coherent cal c now"
proof -
  obtain st where st: "window_status_at cal (wk_spec s) now = Some st" "status_right cal (wk_spec s) now st"
    using sched_status [OF assms] by blast
  have na: "wk_spec s \<noteq> Always" using assms(1) by (simp add: sched_ok_def)
  show ?thesis
  proof (cases "ws_inside st")
    case True
    then have g: "greatest_of (snd ` covering cal (wk_spec s) now) (ws_next_end st)" using st(2) by (simp add: status_right_def)
    then have "now < ws_next_end st" by (auto simp: greatest_of_def covering_def)
    then show ?thesis using True st(1) na covered_until [OF g] by (auto simp: init_cycle_def Let_def coherent_def)
  next
    case False
    then show ?thesis using st by (simp add: init_cycle_def Let_def coherent_def status_right_def)
  qed
qed

lemma start_cycle_matches: "duty_matches c (start_cycle env c tg)"
  by (simp add: duty_matches_def start_cycle_def start_duty set_duty_def)

lemma edit_matches:
  "duty_matches new (if b then execute_start env new tg
     else set_duty (cs_agent_id new) (if cs_phase new = OffShift then OffDuty else OnDuty) tg)"
  if "b \<longrightarrow> cs_phase new \<noteq> OffShift"
  using that by (simp add: duty_matches_def start_duty set_duty_def)

definition cycle_ok :: "day_calendar \<Rightarrow> instant \<Rightarrow> tagma \<Rightarrow> cycle_state \<Rightarrow> bool" where
  "cycle_ok cal t tg cs \<longleftrightarrow> sched_ok cal (cs_spec cs) \<and> coherent cal cs t \<and> duty_matches cs tg \<and> t < deadline_of cs"

text \<open>What a pass may find for the schedule it processes: no cycle yet, or a lawful one that is not stalled.\<close>

definition pass_ready :: "day_calendar \<Rightarrow> instant \<Rightarrow> agent_id \<Rightarrow> cycle_state \<Rightarrow> bool" where
  "pass_ready cal now root cs \<longleftrightarrow> in_range cal (cs_next_start cs) \<and> \<not> stalled cal cs now \<and> cs_agent_id cs = root"

lemma edit_then_drain:
  assumes "sched_ok cal (wk_spec s)" "in_range cal now" "calm env" "t \<le> now"
    "sched_ok cal (cs_spec cs)" "coherent cal cs t" "duty_matches cs tg" "pass_ready cal now root cs"
    "drain_loop n cal env now (apply_edit cal env now root s (cs, tg)) = Some (cs', tg')"
  shows "cycle_ok cal now tg' cs' \<and> cs_agent_id cs' = root"
proof (cases "edited cs s")
  case False
  then have "apply_edit cal env now root s (cs, tg) = (cs, tg)" by (simp add: apply_edit_def)
  then show ?thesis
    using drain_coherent [OF assms(5,2) _ assms(3,6,4) _ assms(7)] assms(5,8,9) by (auto simp: cycle_ok_def pass_ready_def)
next
  case True
  obtain c where c: "init_cycle cal s root now = Some c" "cs_spec c = wk_spec s" "cs_agent_id c = root" "coherent cal c now"
    using init_cycle_ok [OF assms(1,2), of root] by blast
  let ?tg = "if cs_phase cs = OffShift \<and> cs_phase c \<noteq> OffShift then execute_start env c tg
    else set_duty (cs_agent_id c) (if cs_phase c = OffShift then OffDuty else OnDuty) tg"
  have "apply_edit cal env now root s (cs, tg) = (c, ?tg)" using True c(1) by (simp add: apply_edit_def)
  moreover have "duty_matches c ?tg" by (rule edit_matches) simp
  ultimately show ?thesis
    using drain_midway [of cal c now env ?tg n cs' tg'] c assms(1-3,9) by (simp add: cycle_ok_def midway_def)
qed

lemma process_ok:
  assumes "sched_ok cal (wk_spec s)" "in_range cal now" "calm env" "t \<le> now"
    "\<And>cs. map_of cycles (wk_id s) = Some cs \<Longrightarrow> sched_ok cal (cs_spec cs) \<and> coherent cal cs t \<and> duty_matches cs tg \<and> pass_ready cal now root cs"
    "process_schedule n cal env now root s (cycles, tg) = Some (cycles', tg')"
  shows "\<exists>cs'. cycles' = AList.update (wk_id s) cs' cycles \<and> cycle_ok cal now tg' cs' \<and> cs_agent_id cs' = root"
proof (cases "map_of cycles (wk_id s)")
  case (Some cs)
  then obtain cs' where d: "drain_loop n cal env now (apply_edit cal env now root s (cs, tg)) = Some (cs', tg')"
      "cycles' = AList.update (wk_id s) cs' cycles"
    using assms(6) by (auto simp: process_schedule_def)
  show ?thesis using edit_then_drain [OF assms(1-4) _ _ _ _ d(1)] assms(5) [OF Some] d(2) by blast
next
  case None
  obtain c where c: "init_cycle cal s root now = Some c" "cs_spec c = wk_spec s" "cs_agent_id c = root" "coherent cal c now"
    using init_cycle_ok [OF assms(1,2), of root] by blast
  have "\<not> edited c s" using c(1) by (auto simp: edited_def init_cycle_def Let_def split: option.splits)
  then have e: "apply_edit cal env now root s (c, start_cycle env c tg) = (c, start_cycle env c tg)" by (simp add: apply_edit_def)
  with None c obtain cs' where d: "drain_loop n cal env now (c, start_cycle env c tg) = Some (cs', tg')"
      "cycles' = AList.update (wk_id s) cs' cycles"
    using assms(6) by (auto simp: process_schedule_def)
  show ?thesis
    using drain_midway [OF _ assms(2,3) _ start_cycle_matches d(1)] c assms(1) d(2) by (auto simp: cycle_ok_def midway_def)
qed

text \<open>
  A pass of the engine with an active schedule, after other tasks changed the tagma without touching
  the duty board. The root is the agent the cycle was made for, and a due start is not stalled.
\<close>

inductive engine_pass :: "day_calendar \<Rightarrow> delivery_env \<Rightarrow> cycle_map \<times> tagma \<times> instant \<Rightarrow> cycle_map \<times> tagma \<times> instant \<Rightarrow> bool"
  for cal env where
  pass: "t \<le> now \<Longrightarrow> in_range cal now \<Longrightarrow> sched_ok cal (wk_spec s) \<Longrightarrow> wk_active s \<Longrightarrow> tg_duty tg1 = tg_duty tg \<Longrightarrow>
    root_agent (tg_registry tg1) = Some (root, e) \<Longrightarrow> (\<forall>cs. map_of cycles (wk_id s) = Some cs \<longrightarrow> pass_ready cal now root cs) \<Longrightarrow>
    recompute 8 cal env now (Stored (Some s)) (cycles, tg1) = Some (Inr d, cycles', tg') \<Longrightarrow>
    engine_pass cal env (cycles, tg, t) (cycles', tg', now)"

inductive_cases engine_passE: "engine_pass cal env st st'"

definition engine_ok :: "day_calendar \<Rightarrow> delivery_env \<Rightarrow> cycle_map \<times> tagma \<times> instant \<Rightarrow> bool" where
  "engine_ok cal env st \<longleftrightarrow>
     (let (cycles, tg, t) = st in calm env \<and> hm_valid cycles \<and> (\<forall>cs \<in> snd ` set cycles. cycle_ok cal t tg cs))"

definition engine_cold :: "delivery_env \<Rightarrow> cycle_map \<times> tagma \<times> instant \<Rightarrow> bool" where
  "engine_cold env st \<longleftrightarrow> calm env \<and> fst st = []"

lemma single_update:
  assumes "m' = AList.update k v (filter (\<lambda>(j, _). j = k) m)" "hm_valid m"
  shows "snd ` set m' = {v} \<and> hm_valid m'"
proof -
  have "hm_valid (filter (\<lambda>(j, _). j = k) m)" using assms(2) by (auto simp: hm_valid_def intro: distinct_map_filter)
  then have v: "hm_valid m'" unfolding assms(1) by (rule hm.valid_put)
  have keys: "fst ` set m' \<subseteq> {k}" unfolding assms(1) by (auto simp: update_keys dom_update [unfolded dom_map_of_conv_image_fst])
  have "map_of m' k = Some v" unfolding assms(1) by (simp add: update_conv')
  then have "(k, w) \<in> set m' \<longleftrightarrow> w = v" for w
    using map_of_eq_Some_distinct [OF v [unfolded hm_valid_def], of k] by (metis option.inject)
  then have "set m' = {(k, v)}" using keys by force
  then show ?thesis using v by simp
qed

lemma engine_pass_ok:
  assumes "engine_pass cal env st st'" "engine_ok cal env st"
  shows "engine_ok cal env st'"
  using assms(1)
proof (cases rule: engine_pass.cases)
  case (pass t now s tg1 tg root e cycles d cycles' tg')
  let ?m = "filter (\<lambda>(k, _). k = wk_id s) cycles"
  have ok: "calm env" "hm_valid cycles" "\<forall>cs \<in> snd ` set cycles. cycle_ok cal t tg cs"
    using assms(2) pass(1) by (auto simp: engine_ok_def)
  have p: "process_schedule 8 cal env now root s (?m, tg1) = Some (cycles', tg')"
    using pass(6,8,10) by (auto simp: recompute_def)
  have found: "sched_ok cal (cs_spec cs) \<and> coherent cal cs t \<and> duty_matches cs tg1 \<and> pass_ready cal now root cs"
    if "map_of ?m (wk_id s) = Some cs" for cs
  proof -
    have "map_of cycles (wk_id s) = Some cs"
      using that map_of_filter_distinct [of cycles "\<lambda>(k, _). k = wk_id s" "wk_id s"] ok(2)
      by (auto simp: hm_valid_def split: option.splits)
    then show ?thesis using ok(3) pass(7,9) by (force simp: cycle_ok_def duty_matches_def dest: map_of_SomeD)
  qed
  from process_ok [OF pass(5,4) ok(1) pass(3) found p] obtain cs'
    where "cycles' = AList.update (wk_id s) cs' ?m" "cycle_ok cal now tg' cs'" by blast
  then have "snd ` set cycles' = {cs'}" "hm_valid cycles'" "cycle_ok cal now tg' cs'" using single_update [OF _ ok(2)] by auto
  moreover from this have "snd x = cs'" if "x \<in> set cycles'" for x using that by (metis image_eqI singletonD)
  ultimately show ?thesis using ok(1) pass(2) by (simp add: engine_ok_def)
qed

interpretation engine: inv_system "engine_cold env" "engine_pass cal env" "engine_ok cal env" for cal env
proof
  show "engine_ok cal env st" if "engine_cold env st" for st
    using that by (auto simp: engine_cold_def engine_ok_def hm_valid_def)
qed (rule engine_pass_ok)



definition rotation :: spec where
  "rotation = Interval 4 120 0"

definition rota :: work_schedule where
  "rota = \<lparr>wk_id = ''ws'', wk_spec = rotation, wk_pre_warn_minutes = 10, wk_final_warn_minutes = 5, wk_final_warn_prompt = None,
     wk_wake_prompt = [], wk_active = True, wk_created_at = 0\<rparr>"

lemma rota_ok: "sched_ok plain_calendar (wk_spec rota)"
  by (simp add: sched_ok_def plain_calendar_ok rota_def rotation_def rbind_def fail_if_def MAX_LENGTH_MINUTES_def)

lemma sample_range: "0 \<le> n \<Longrightarrow> n < 24 \<Longrightarrow> in_range plain_calendar (n * hour)"
proof -
  assume n: "0 \<le> n" "n < 24"
  then have "n * hour div DAY = 0" by (simp add: hour_def DAY_def MINUTE_def)
  then show ?thesis by (simp add: in_range_def plain_calendar_def)
qed

lemma rotation_nine: "window_status_at plain_calendar rotation (9 * hour)
    = Some \<lparr>ws_inside = True, ws_next_start = 12 * hour, ws_next_end = 10 * hour\<rparr>"
  by (simp add: rotation_def eval_interval_def hour_def MINUTE_def)

lemma rotation_on: "on_duty plain_calendar rotation (9 * hour)"
proof -
  have "(8 * hour, 10 * hour) \<in> shifts plain_calendar rotation"
    by (auto simp: rotation_def hour_def MINUTE_def intro!: exI [of _ 2])
  moreover have "8 * hour \<le> 9 * hour \<and> 9 * hour < 10 * hour" by (simp add: hour_def MINUTE_def)
  ultimately have "(8 * hour, 10 * hour) \<in> covering plain_calendar rotation (9 * hour)" unfolding covering_def by blast
  then show ?thesis by (auto simp: on_duty_def)
qed

definition rota_cycle :: "schedule_phase \<Rightarrow> instant \<Rightarrow> instant \<Rightarrow> cycle_state" where
  "rota_cycle ph e s = \<lparr>cs_spec = rotation, cs_pre_warn_minutes = 10, cs_final_warn_minutes = 5, cs_final_warn_prompt = None,
     cs_agent_id = ''root'', cs_wake_prompt = [], cs_phase = ph, cs_end_time = e, cs_next_start = s\<rparr>"

lemma rota_init: "init_cycle plain_calendar rota ''root'' (9 * hour) = Some (rota_cycle Working (10 * hour) (12 * hour))"
  using rotation_nine by (simp add: init_cycle_def rota_def rota_cycle_def minutes_def hour_def MINUTE_def rotation_def)

lemma rota_pass:
  assumes "root_agent (tg_registry tg) = Some (''root'', e)"
  shows "\<exists>tg'. recompute 8 plain_calendar env (9 * hour) (Stored (Some rota)) ([], tg)
     = Some (Inr (Some (10 * hour - minutes 10)), [(''ws'', rota_cycle Working (10 * hour) (12 * hour))], tg')"
proof -
  let ?c = "rota_cycle Working (10 * hour) (12 * hour)"
  have q: "compute_transition ?c (9 * hour) = None"
    by (simp add: compute_transition_def rota_cycle_def pre_warn_time_def minutes_def hour_def MINUTE_def)
  have u: "\<not> edited ?c rota" by (simp add: edited_def rota_def rota_cycle_def)
  have "deadline_of ?c = 10 * hour - minutes 10" by (simp add: deadline_of_def rota_cycle_def pre_warn_time_def)
  moreover have "wk_active rota" "wk_id rota = ''ws''" by (simp_all add: rota_def)
  ultimately show ?thesis
    using assms by (simp add: recompute_def process_schedule_def rota_init apply_edit_def u q numeral_eq_Suc)
qed


section \<open>Where the engine falls short\<close>

text \<open>
  A stalled start skips the running shift. When the engine wakes up after the shift it was waiting
  for has ended, it does not ask whether another shift is running: an agent whose engine slept from
  before 4:00 to 9:00 stays off duty through the shift from 8:00 to 10:00, until 12:00.
\<close>
theorem stalled_start_skips_shift:
  "on_duty plain_calendar rotation (9 * hour) \<and>
   (\<exists>q. drain_loop 8 plain_calendar env (9 * hour) (rota_cycle OffShift e (4 * hour), tg) = Some q \<and>
      cs_phase (fst q) = OffShift \<and> cs_next_start (fst q) = 12 * hour \<and> duty_get (tg_duty (snd q)) ''root'' = OffDuty)"
proof -
  have four: "window_status_at plain_calendar rotation (4 * hour)
      = Some \<lparr>ws_inside = True, ws_next_start = 8 * hour, ws_next_end = 6 * hour\<rparr>"
    by (simp add: rotation_def eval_interval_def hour_def MINUTE_def)
  have le: "6 * hour \<le> 9 * hour" "4 * hour \<le> 9 * hour" "\<not> 12 * hour \<le> 9 * hour" by (simp_all add: hour_def MINUTE_def)
  have one: "compute_transition (rota_cycle OffShift e (4 * hour)) (9 * hour) = Some StartShift"
      "compute_transition (rota_cycle OffShift e (12 * hour)) (9 * hour) = None"
    using le by (simp_all add: compute_transition_def rota_cycle_def)
  have "fire plain_calendar env (9 * hour) StartShift (rota_cycle OffShift e (4 * hour), tg)
      = (rota_cycle OffShift e (12 * hour), set_duty ''root'' OffDuty tg)"
    using le four rotation_nine by (simp add: rota_cycle_def recompute_start_after_end_def)
  then have "drain_loop 8 plain_calendar env (9 * hour) (rota_cycle OffShift e (4 * hour), tg)
      = Some (rota_cycle OffShift e (12 * hour), set_duty ''root'' OffDuty tg)"
    using one by (simp add: numeral_eq_Suc del: fire.simps)
  then show ?thesis using rotation_on by (simp add: rota_cycle_def set_duty_def)
qed

text \<open>
  An engine that once found no root never looks again on its own. A pass without a root parks the
  engine with no deadline, and from then on no tick, however late, starts another pass: registering the
  root does not wake the engine, so an active schedule is not applied until it is saved again.
\<close>
theorem rootless_engine_parks:
  assumes "root_agent (tg_registry tg) = None" "\<forall>w \<in> set ws. ew_cause w = Tick"
  shows "run_recompute fuel cal env now (Stored so) (cycles, tg) = Some (None, [], tg) \<and>
    engine_run fuel cal env ws (None, [], tg) = Some (None, [], fold ew_world ws tg)"
proof
  show "run_recompute fuel cal env now (Stored so) (cycles, tg) = Some (None, [], tg)"
    using assms(1) by (simp add: run_recompute_def recompute_def)
  show "engine_run fuel cal env ws (None, [], tg) = Some (None, [], fold ew_world ws tg)" (is "?R ws tg")
    using assms(2) by (induction ws arbitrary: tg) (auto simp: engine_step_def)
qed

theorem rootless_engine_parks_witness:
  "engine_run 8 plain_calendar (quiet_env (\<lambda>t. t))
     [\<lparr>ew_cause = Tick, ew_now = 9 * hour, ew_read = Stored (Some rota), ew_world = \<lambda>_. sample_tagma Normal False []\<rparr>]
     (None, [], (sample_tagma Normal False [])\<lparr>tg_registry := with_invalidation True 0\<rparr>)
   = Some (None, [], sample_tagma Normal False [])"
  using rootless_engine_parks [of "(sample_tagma Normal False [])\<lparr>tg_registry := with_invalidation True 0\<rparr>"
      "[\<lparr>ew_cause = Tick, ew_now = 9 * hour, ew_read = Stored (Some rota), ew_world = \<lambda>_. sample_tagma Normal False []\<rparr>]"]
  by (simp add: root_agent_def with_invalidation_def)

text \<open>
  For the round-the-clock schedule the deadline is left behind. Past the warning time of its stand-in
  horizon no transition fires and the horizon is not renewed, so the deadline stays due and every tick
  runs another pass with its database read, from then on.
\<close>
theorem always_deadline_stays_due:
  assumes "cs_spec cs = Always" "cs_phase cs = Working" "pre_warn_time cs \<le> now" "now \<le> later"
  shows "drain_loop (Suc n) cal env later (cs, tg) = Some (cs, tg) \<and> deadline_due (deadline_of cs) later"
  using assms by (simp add: compute_transition_def deadline_due_def deadline_of_def)


section \<open>Saving a schedule\<close>

text \<open>
  The handlers of \<open>work_schedule/mod.rs\<close> over the single row of the store. Whether the read, the
  write and the row match succeed are arguments. \<open>pr_minute\<close> is the minute field of the anchor as the
  request writes it.
\<close>

record put_request =
  pr_spec :: spec
  pr_minute :: nat
  pr_pre_warn_minutes :: nat
  pr_final_warn_minutes :: nat
  pr_wake_prompt :: "utext option"
  pr_final_warn_prompt :: "utext option"
  pr_active :: bool

record put_env =
  pe_now :: instant
  pe_fresh_id :: string
  pe_read_ok :: bool
  pe_write_ok :: bool
  pe_row_hit :: bool

datatype put_err = PutApi api_err | PutBadRequest string | PutUnavailable string

definition normalize_prompt :: "utext \<Rightarrow> utext option" where
  "normalize_prompt t = (let t' = trim_text t in if t' = [] then None else Some t')"

definition save_anchor :: "instant \<Rightarrow> nat \<Rightarrow> instant" where
  "save_anchor now m = now - now mod hour + int m * MINUTE"

definition reanchor :: "put_env \<Rightarrow> put_request \<Rightarrow> work_schedule option \<Rightarrow> spec" where
  "reanchor env req existing =
     (case pr_spec req of
        Interval h l anchor \<Rightarrow>
          (let echoed = (case existing of
                           Some s \<Rightarrow> (case wk_spec s of Interval h' l' anchor' \<Rightarrow> h' = h \<and> l' = l \<and> anchor = anchor' | _ \<Rightarrow> False)
                         | None \<Rightarrow> False)
           in Interval h l (if echoed then anchor else save_anchor (pe_now env) (pr_minute req)))
      | sp \<Rightarrow> sp)"

definition merge_schedule :: "put_env \<Rightarrow> put_request \<Rightarrow> work_schedule option \<Rightarrow> work_schedule" where
  "merge_schedule env req existing =
     (case existing of
        Some s \<Rightarrow>
          s\<lparr>wk_spec := reanchor env req existing, wk_pre_warn_minutes := pr_pre_warn_minutes req,
            wk_final_warn_minutes := pr_final_warn_minutes req,
            wk_wake_prompt := (case pr_wake_prompt req of
                                 None \<Rightarrow> wk_wake_prompt s
                               | Some t \<Rightarrow> (case normalize_prompt t of None \<Rightarrow> [] | Some t' \<Rightarrow> t')),
            wk_final_warn_prompt := (case pr_final_warn_prompt req of None \<Rightarrow> wk_final_warn_prompt s | Some t \<Rightarrow> normalize_prompt t),
            wk_active := pr_active req\<rparr>
      | None \<Rightarrow>
          \<lparr>wk_id = pe_fresh_id env, wk_spec = reanchor env req existing, wk_pre_warn_minutes = pr_pre_warn_minutes req,
           wk_final_warn_minutes = pr_final_warn_minutes req,
           wk_final_warn_prompt = Option.bind (pr_final_warn_prompt req) normalize_prompt,
           wk_wake_prompt = (case Option.bind (pr_wake_prompt req) normalize_prompt of None \<Rightarrow> [] | Some t \<Rightarrow> t),
           wk_active = pr_active req, wk_created_at = pe_now env\<rparr>)"

definition put_checks :: "identity \<Rightarrow> put_request \<Rightarrow> tagma \<Rightarrow> put_err + unit" where
  "put_checks who req tg =
     (if who \<noteq> Operator then Inl (PutApi (Forbidden ''operator access required''))
      else if root_agent (tg_registry tg) = None then Inl (PutBadRequest ''the tagma has no root agent to carry the schedule'')
      else if validate_spec (pr_spec req) \<noteq> Inr () then Inl (PutBadRequest ''invalid spec'')
      else if pr_pre_warn_minutes req < pr_final_warn_minutes req
      then Inl (PutBadRequest ''pre_warn_minutes must be >= final_warn_minutes'')
      else Inr ())"

definition release_root :: "tagma \<Rightarrow> tagma" where
  "release_root tg = (case root_agent (tg_registry tg) of None \<Rightarrow> tg | Some (r, _) \<Rightarrow> set_duty r OnDuty tg)"

definition put_work_schedule ::
  "put_env \<Rightarrow> identity \<Rightarrow> put_request \<Rightarrow> work_schedule option option \<times> tagma \<Rightarrow>
   (put_err + work_schedule) \<times> work_schedule option option \<times> tagma" where
  "put_work_schedule env who req p =
     (let (store, tg) = p
      in case put_checks who req tg of
           Inl e \<Rightarrow> (Inl e, store, tg)
         | Inr _ \<Rightarrow>
             (case store of
                None \<Rightarrow> (Inl (PutUnavailable ''work schedules not configured''), store, tg)
              | Some existing \<Rightarrow>
                  if \<not> pe_read_ok env then (Inl (PutApi (Internal ''read failed'')), store, tg)
                  else
                    (let sched = merge_schedule env req existing;
                         paused = (case existing of None \<Rightarrow> False | Some s \<Rightarrow> wk_active s) \<and> \<not> pr_active req
                     in if \<not> pe_write_ok env then (Inl (PutApi (Internal ''write failed'')), store, tg)
                        else if existing \<noteq> None \<and> \<not> pe_row_hit env
                        then (Inl (PutApi (Internal ''work schedule write failed'')), store, tg)
                        else (Inr sched, Some (Some sched), if paused then release_root tg else tg))))"

definition get_work_schedule :: "bool \<Rightarrow> identity \<Rightarrow> work_schedule option option \<Rightarrow> put_err + work_schedule" where
  "get_work_schedule read_ok who store =
     (if who \<noteq> Operator then Inl (PutApi (Forbidden ''operator access required''))
      else case store of
             None \<Rightarrow> Inl (PutUnavailable ''work schedules not configured'')
           | Some row \<Rightarrow>
               if \<not> read_ok then Inl (PutApi (Internal ''read failed''))
               else ok_or (PutApi (Internal ''work-schedule row missing'')) row)"

definition lawful :: "work_schedule \<Rightarrow> bool" where
  "lawful s \<longleftrightarrow> validate_spec (wk_spec s) = Inr () \<and> wk_final_warn_minutes s \<le> wk_pre_warn_minutes s"

lemma save_anchor_aligned: "save_anchor now m mod MINUTE = 0"
proof -
  have "now - now mod hour = now div hour * hour" by (simp add: minus_mod_eq_div_mult)
  then have "save_anchor now m = (now div hour * 60 + int m) * MINUTE" by (simp add: save_anchor_def hour_def algebra_simps)
  then show ?thesis by simp
qed

lemma reanchor_valid: "validate_spec (pr_spec req) = Inr () \<Longrightarrow> validate_spec (reanchor env req existing) = Inr ()"
  using save_anchor_aligned by (auto simp: reanchor_def Let_def rbind_fail_if fail_if_ok split: spec.split)

lemma merge_fields:
  "wk_spec (merge_schedule env req existing) = reanchor env req existing"
  "wk_pre_warn_minutes (merge_schedule env req existing) = pr_pre_warn_minutes req"
  "wk_final_warn_minutes (merge_schedule env req existing) = pr_final_warn_minutes req"
  "wk_active (merge_schedule env req existing) = pr_active req"
  by (simp_all add: merge_schedule_def split: option.split)

text \<open>
  Only lawful schedules are ever stored. Whatever the request, the caller and the failures of the
  store, a row that was lawful stays lawful: its specification validates, also after an interval was
  anchored anew at save time, and the final warning is not before the first one. On an error neither the
  store nor the duty board changes; on success the stored row is the answer, and pausing an active
  schedule leaves the root on duty.
\<close>
theorem put_keeps_schedule_lawful:
  assumes "\<And>s. store = Some (Some s) \<Longrightarrow> lawful s" "put_work_schedule env who req (store, tg) = (res, store', tg')"
  shows "(\<forall>s. store' = Some (Some s) \<longrightarrow> lawful s) \<and>
    (case res of
       Inl _ \<Rightarrow> store' = store \<and> tg' = tg
     | Inr s \<Rightarrow> store' = Some (Some s) \<and> who = Operator \<and>
         (\<forall>old r e. store = Some (Some old) \<longrightarrow> wk_active old \<longrightarrow> \<not> wk_active s \<longrightarrow> root_agent (tg_registry tg) = Some (r, e) \<longrightarrow>
            duty_get (tg_duty tg') r = OnDuty))"
proof (cases res)
  case (Inl err)
  then have "store' = store" "tg' = tg"
    using assms(2) by (auto simp: put_work_schedule_def Let_def split: sum.splits option.splits if_splits)
  then show ?thesis using assms(1) Inl by simp
next
  case (Inr s)
  then obtain existing where e: "store = Some existing" "s = merge_schedule env req existing" "store' = Some (Some s)"
      "put_checks who req tg = Inr ()"
      "tg' = (if (case existing of None \<Rightarrow> False | Some s \<Rightarrow> wk_active s) \<and> \<not> pr_active req then release_root tg else tg)"
    using assms(2) by (auto simp: put_work_schedule_def Let_def split: sum.splits option.splits if_splits)
  have c: "who = Operator" "validate_spec (pr_spec req) = Inr ()" "pr_final_warn_minutes req \<le> pr_pre_warn_minutes req"
    using e(4) by (auto simp: put_checks_def split: if_splits)
  have "lawful s" using c(2,3) by (simp add: lawful_def e(2) merge_fields reanchor_valid)
  then show ?thesis using Inr e c(1) by (auto simp: merge_fields release_root_def set_duty_def)
qed

theorem put_keeps_schedule_lawful_witness:
  "duty_get (tg_duty (snd (snd (put_work_schedule
       \<lparr>pe_now = 9 * hour, pe_fresh_id = ''x'', pe_read_ok = True, pe_write_ok = True, pe_row_hit = True\<rparr> Operator
       \<lparr>pr_spec = rotation, pr_minute = 0, pr_pre_warn_minutes = 10, pr_final_warn_minutes = 5, pr_wake_prompt = None,
         pr_final_warn_prompt = None, pr_active = False\<rparr> (Some (Some rota), sample_tagma Normal False [(''root'', OffDuty)])))))
     ''root'' = OnDuty"
proof -
  let ?env = "\<lparr>pe_now = 9 * hour, pe_fresh_id = ''x'', pe_read_ok = True, pe_write_ok = True, pe_row_hit = True\<rparr>"
  let ?req = "\<lparr>pr_spec = rotation, pr_minute = 0, pr_pre_warn_minutes = 10, pr_final_warn_minutes = 5, pr_wake_prompt = None,
      pr_final_warn_prompt = None, pr_active = False\<rparr>"
  let ?tg = "sample_tagma Normal False [(''root'', OffDuty)]"
  have v: "validate_spec rotation = Inr ()" "lawful rota" using rota_ok by (simp_all add: sched_ok_def lawful_def rota_def)
  have r: "\<exists>e. root_agent (tg_registry ?tg) = Some (''root'', e)"
    by (simp add: root_agent_def sample_tagma_def register_def with_invalidation_def notify_invalidation_def update_subagents_def
        created_by_def sample_root_def is_root_def)
  then have "put_work_schedule ?env Operator ?req (Some (Some rota), ?tg)
      = (Inr (merge_schedule ?env ?req (Some rota)), Some (Some (merge_schedule ?env ?req (Some rota))), release_root ?tg)"
    using v(1) by (auto simp: put_work_schedule_def put_checks_def Let_def rota_def)
  from put_keeps_schedule_lawful [OF _ this] v(2) r this show ?thesis by (auto simp: merge_fields rota_def)
qed


lemma office_shifts:
  "(540 * MINUTE, 720 * MINUTE) \<in> shifts plain_calendar office_hours"
  "(720 * MINUTE, 1020 * MINUTE) \<in> shifts plain_calendar office_hours"
proof -
  have f: "week_fires plain_calendar 31 0" by code_simp
  have "day_span 0 \<lparr>start_minute = 540, end_minute = 720\<rparr> = (540 * MINUTE, 720 * MINUTE)"
      "day_span 0 \<lparr>start_minute = 720, end_minute = 1020\<rparr> = (720 * MINUTE, 1020 * MINUTE)"
    by (simp_all add: day_span_def span_end_def)
  then show "(540 * MINUTE, 720 * MINUTE) \<in> shifts plain_calendar office_hours"
      "(720 * MINUTE, 1020 * MINUTE) \<in> shifts plain_calendar office_hours"
    unfolding office_hours_def shifts.simps mem_Collect_eq using f by (metis list.set_intros(1), metis list.set_intros)
qed

lemma office_at_ten:
  "\<exists>s. window_status_at plain_calendar office_hours (600 * MINUTE)
     = Some \<lparr>ws_inside = True, ws_next_start = s, ws_next_end = 720 * MINUTE\<rparr>"
proof -
  have r: "in_range plain_calendar (600 * MINUTE)" by code_simp
  have v: "validate_spec office_hours = Inr ()" "office_hours \<noteq> Always" by code_simp+
  from window_status_facts [OF v plain_calendar_ok r] obtain st
    where st: "window_status_at plain_calendar office_hours (600 * MINUTE) = Some st"
      "status_right plain_calendar office_hours (600 * MINUTE) st" by blast
  have cov: "e = 720 * MINUTE" if "(s, e) \<in> covering plain_calendar office_hours (600 * MINUTE)" for s e
  proof -
    from that obtain d w where dw: "(s, e) = day_span d w" "w = \<lparr>start_minute = 540, end_minute = 720\<rparr> \<or> w = \<lparr>start_minute = 720, end_minute = 1020\<rparr>"
        "s \<le> 600 * MINUTE" "600 * MINUTE < e" unfolding covering_def office_hours_def by auto
    have "d \<le> 0" "0 \<le> d" using dw by (auto simp: day_span_def span_end_def DAY_def MINUTE_def)
    then show ?thesis using dw by (auto simp: day_span_def span_end_def DAY_def MINUTE_def)
  qed
  have "ws_inside st" using st(2) on_dutyI [OF office_shifts(1), of "600 * MINUTE"] by (simp add: status_right_def MINUTE_def)
  moreover from this have "ws_next_end st = 720 * MINUTE" using st(2) cov by (force simp: status_right_def greatest_of_def)
  ultimately show ?thesis using st(1) by (intro exI [of _ "ws_next_start st"]) simp
qed

text \<open>
  Touching windows are not merged: with shifts from 9:00 to 12:00 and from 12:00 to 17:00 the agent is on
  duty throughout, yet the engine that started at 10:00 holds 12:00 for the end of the shift and warns at 11:50.
\<close>
theorem touching_windows_warned:
  "(\<forall>u. 600 * MINUTE \<le> u \<longrightarrow> u < 1020 * MINUTE \<longrightarrow> on_duty plain_calendar office_hours u) \<and>
   (\<exists>c. init_cycle plain_calendar (rota\<lparr>wk_spec := office_hours\<rparr>) ''root'' (600 * MINUTE) = Some c \<and>
      cs_end_time c = 720 * MINUTE \<and> compute_transition c (710 * MINUTE) = Some PreWarn)"
proof
  show "\<forall>u. 600 * MINUTE \<le> u \<longrightarrow> u < 1020 * MINUTE \<longrightarrow> on_duty plain_calendar office_hours u"
  proof (intro allI impI)
    fix u assume u: "600 * MINUTE \<le> u" "u < 1020 * MINUTE"
    have m: "540 * MINUTE \<le> 600 * MINUTE" by (simp add: MINUTE_def)
    show "on_duty plain_calendar office_hours u"
    proof (cases "u < 720 * MINUTE")
      case True
      with u(1) m show ?thesis by (intro on_dutyI [OF office_shifts(1)]) linarith+
    next
      case False
      with u(2) show ?thesis by (intro on_dutyI [OF office_shifts(2)]) linarith+
    qed
  qed
  have na: "office_hours \<noteq> Always" by (simp add: office_hours_def)
  obtain s where w: "window_status_at plain_calendar office_hours (600 * MINUTE)
      = Some \<lparr>ws_inside = True, ws_next_start = s, ws_next_end = 720 * MINUTE\<rparr>" using office_at_ten by blast
  let ?c = "(rota_cycle Working (720 * MINUTE) s)\<lparr>cs_spec := office_hours\<rparr>"
  have "init_cycle plain_calendar (rota\<lparr>wk_spec := office_hours\<rparr>) ''root'' (600 * MINUTE) = Some ?c"
    using w na by (simp add: init_cycle_def rota_def rota_cycle_def minutes_def MINUTE_def)
  moreover have "cs_end_time ?c = 720 * MINUTE" "compute_transition ?c (710 * MINUTE) = Some PreWarn"
    using na by (simp_all add: rota_cycle_def compute_transition_def pre_warn_time_def minutes_def MINUTE_def)
  ultimately show "\<exists>c. init_cycle plain_calendar (rota\<lparr>wk_spec := office_hours\<rparr>) ''root'' (600 * MINUTE) = Some c \<and>
      cs_end_time c = 720 * MINUTE \<and> compute_transition c (710 * MINUTE) = Some PreWarn" by blast
qed

end
