(* ===== verification/Agent_Dirs.thy ===== *)
theory Agent_Dirs
  imports Restore_Chain Agent_Config
begin

text \<open>
  The directories of the agents on disk (\<open>kallip-runtime/src/persistence.rs\<close>): the three sibling areas
  \<open>agents\<close>, \<open>agents-inactive\<close> and \<open>archived\<close>, creation and metadata rewrites, the moves between the
  areas, the scans, and the check that a workspace does not overlap the data tree.

  A data tree gives each area the agent directories in it. A directory is its metadata (absent where
  \<open>meta.json\<close> cannot be read or parsed), its exec policy (absent where the file is unreadable) and the
  rest of its content. What the system calls do is an argument of each operation: a rename may succeed,
  fail or report a crossed device, a recursive copy may stop half-way and leave a partial directory, a
  recursive delete may leave a remainder. \<open>canonicalize\<close> is a function from rendered paths to canonical
  ones, undefined where the call fails.
\<close>

section \<open>Paths\<close>

definition display_path :: "path \<Rightarrow> string" where
  "display_path p = (if p = [] then ''/'' else concat (map ((#) (CHR ''/'')) p))"

definition components :: "string \<Rightarrow> path" where
  "components s = filter (\<lambda>c. c \<noteq> [] \<and> c \<noteq> ''.'') (split_at (CHR ''/'') s)"

definition plain_name :: "string \<Rightarrow> bool" where
  "plain_name c \<longleftrightarrow> c \<noteq> [] \<and> c \<noteq> ''.'' \<and> CHR ''/'' \<notin> set c"

lemma split_at_plain: "d \<notin> set c \<Longrightarrow> split_at d (c @ d # s) = c # split_at d s"
  by (induction c) auto

lemma split_at_plain_end: "d \<notin> set c \<Longrightarrow> split_at d c = [c]"
  by (induction c) auto

lemma split_display:
  "\<forall>c \<in> set p. plain_name c \<Longrightarrow> CHR ''/'' \<notin> set c0 \<Longrightarrow>
    split_at (CHR ''/'') (c0 @ concat (map ((#) (CHR ''/'')) p)) = c0 # p"
proof (induction p arbitrary: c0)
  case Nil
  then show ?case by (simp add: split_at_plain_end)
next
  case (Cons c p)
  then have "split_at (CHR ''/'') (c @ concat (map ((#) (CHR ''/'')) p)) = c # p"
    by (auto simp: plain_name_def)
  then show ?case using Cons.prems by (simp add: split_at_plain)
qed

lemma components_display: "\<forall>c \<in> set p. plain_name c \<Longrightarrow> components (display_path p) = p"
  using split_display [of p "[]"]
  by (cases "p = []") (auto simp: components_def display_path_def plain_name_def intro: filter_True)

section \<open>The data tree\<close>

datatype area = AgentsArea | InactiveArea | ArchivedArea

record agent_body =
  ab_meta :: "agent_meta option"
  ab_exec :: "exec_policy option"
  ab_rest :: string

type_synonym data_tree = "area \<Rightarrow> (agent_id, agent_body) hash_map"

datatype dir_err =
    NoPlatformDir | NoSlug | NoExistingAncestor | CannotCanonicalize | OverlapsDataTree
  | CannotList | NoSourceDir | DestinationExists | NoParentDir | MoveFailed | CopyError | RemoveError
  | MkdirError | WriteError | MetaUnreadable

datatype rename_outcome = Renamed | RenameFailed | CrossesDevices

datatype copy_outcome = Copied | CopyStopped "agent_body option"

datatype remove_outcome = Removed | RemoveStopped "agent_body option"

record move_env =
  mv_parent :: bool
  mv_rename :: rename_outcome
  mv_copy :: copy_outcome
  mv_remove :: remove_outcome

datatype create_outcome = Written | MkdirFailed | WriteFailed

datatype listing = Missing | Unlistable | Listed

definition body_at :: "data_tree \<Rightarrow> area \<Rightarrow> agent_id \<Rightarrow> agent_body option" where
  "body_at t ar a = map_of (t ar) a"

definition has_dir :: "data_tree \<Rightarrow> area \<Rightarrow> agent_id \<Rightarrow> bool" where
  "has_dir t ar a \<longleftrightarrow> body_at t ar a \<noteq> None"

definition put_body :: "area \<Rightarrow> agent_id \<Rightarrow> agent_body \<Rightarrow> data_tree \<Rightarrow> data_tree" where
  "put_body ar a b t = t(ar := AList.update a b (t ar))"

definition drop_body :: "area \<Rightarrow> agent_id \<Rightarrow> data_tree \<Rightarrow> data_tree" where
  "drop_body ar a t = t(ar := AList.delete a (t ar))"

definition leave_body :: "area \<Rightarrow> agent_id \<Rightarrow> agent_body option \<Rightarrow> data_tree \<Rightarrow> data_tree" where
  "leave_body ar a left t = (case left of None \<Rightarrow> drop_body ar a t | Some b \<Rightarrow> put_body ar a b t)"

lemma body_at_simps [simp]:
  "body_at (put_body ar a b t) ar' a' = (if ar' = ar \<and> a' = a then Some b else body_at t ar' a')"
  "body_at (drop_body ar a t) ar' a' = (if ar' = ar \<and> a' = a then None else body_at t ar' a')"
  "body_at (leave_body ar a left t) ar' a' = (if ar' = ar \<and> a' = a then left else body_at t ar' a')"
  by (auto simp: body_at_def put_body_def drop_body_def leave_body_def AList.update_conv' AList.delete_conv'
      split: option.split)

section \<open>Where the data lives\<close>

definition instance_slug :: "environment \<Rightarrow> dir_err + string" where
  "instance_slug env =
     (case env ''KALLIP_TAGMA_SLUG'' of
        None \<Rightarrow> Inl NoSlug
      | Some s \<Rightarrow> if s = [] then Inl NoSlug else Inr s)"

definition slug_root :: "path option \<Rightarrow> environment \<Rightarrow> dir_err + path" where
  "slug_root home env =
     rbind (ok_or NoPlatformDir home) (\<lambda>h.
     rbind (instance_slug env) (\<lambda>s. Inr (h @ [''kallipai'', ''tagmata'', s])))"

definition data_dir_root :: "path option \<Rightarrow> environment \<Rightarrow> dir_err + path" where
  "data_dir_root home env =
     (case env ''KALLIP_TAGMA_DATA_DIR'' of
        Some d \<Rightarrow> if d \<noteq> [] then Inr (components d) else slug_root home env
      | None \<Rightarrow> slug_root home env)"

definition config_dir_root :: "path option \<Rightarrow> environment \<Rightarrow> dir_err + path" where
  "config_dir_root home env = slug_root home env"

definition state_dir_root :: "path option \<Rightarrow> dir_err + path" where
  "state_dir_root home = rbind (ok_or NoPlatformDir home) (\<lambda>h. Inr (h @ [''kallipai'']))"

fun area_name :: "area \<Rightarrow> string" where
  "area_name AgentsArea = ''agents''"
| "area_name InactiveArea = ''agents-inactive''"
| "area_name ArchivedArea = ''archived''"

definition dir_of :: "path \<Rightarrow> area \<Rightarrow> agent_id \<Rightarrow> path" where
  "dir_of root ar a = root @ [area_name ar, a]"

text \<open>The data root may not exist yet: the nearest existing ancestor is canonicalized instead.\<close>

fun walk_up :: "(string \<Rightarrow> path option) \<Rightarrow> string list \<Rightarrow> path \<Rightarrow> dir_err + path" where
  "walk_up cz [] below = Inl NoExistingAncestor"
| "walk_up cz (name # up) below =
     (case cz (display_path (rev up)) of
        Some base \<Rightarrow> Inr (base @ name # below)
      | None \<Rightarrow> walk_up cz up (name # below))"

definition canonical_data_root :: "(string \<Rightarrow> path option) \<Rightarrow> path \<Rightarrow> dir_err + path" where
  "canonical_data_root cz root =
     (case cz (display_path root) of Some c \<Rightarrow> Inr c | None \<Rightarrow> walk_up cz (rev root) [])"

definition workspace_overlaps_data_root :: "(string \<Rightarrow> path option) \<Rightarrow> path \<Rightarrow> string \<Rightarrow> dir_err + bool" where
  "workspace_overlaps_data_root cz root ws =
     rbind (canonical_data_root cz root) (\<lambda>data.
     rbind (ok_or CannotCanonicalize (cz ws)) (\<lambda>w. Inr (starts_with data w \<or> starts_with w data)))"

definition ensure_workspace_disjoint :: "(string \<Rightarrow> path option) \<Rightarrow> path \<Rightarrow> string \<Rightarrow> dir_err + unit" where
  "ensure_workspace_disjoint cz root ws =
     rbind (workspace_overlaps_data_root cz root ws) (\<lambda>hit. if hit then Inl OverlapsDataTree else Inr ())"

section \<open>Creation and metadata\<close>

definition fresh_body :: "agent_meta option \<Rightarrow> agent_body" where
  "fresh_body m = \<lparr>ab_meta = m, ab_exec = Some \<lparr>overrides = []\<rparr>, ab_rest = []\<rparr>"

definition create_agent_dir ::
  "create_outcome \<Rightarrow> agent_id \<Rightarrow> agent_meta \<Rightarrow> data_tree \<Rightarrow> (dir_err + unit) \<times> data_tree" where
  "create_agent_dir oc a m t =
     (let old = body_at t AgentsArea a
      in case oc of
           MkdirFailed \<Rightarrow> (Inl MkdirError, t)
         | WriteFailed \<Rightarrow>
             (Inl WriteError, if old = None then put_body AgentsArea a (fresh_body None) t else t)
         | Written \<Rightarrow>
             (Inr (), put_body AgentsArea a
                (case old of None \<Rightarrow> fresh_body (Some m) | Some b \<Rightarrow> b\<lparr>ab_meta := Some m\<rparr>) t))"

definition read_meta :: "data_tree \<Rightarrow> area \<Rightarrow> agent_id \<Rightarrow> agent_meta option" where
  "read_meta t ar a = Option.bind (body_at t ar a) ab_meta"

definition patch_meta ::
  "string option \<Rightarrow> string option \<Rightarrow> string option \<Rightarrow> permission_class option \<Rightarrow> agent_meta \<Rightarrow> agent_meta" where
  "patch_meta role desc pset cls m =
     (let m1 = (case role of None \<Rightarrow> m | Some r \<Rightarrow> m\<lparr>meta_role := r\<rparr>);
          m2 = (case desc of None \<Rightarrow> m1 | Some d \<Rightarrow> m1\<lparr>meta_description := d\<rparr>);
          m3 = (case pset of None \<Rightarrow> m2 | Some s \<Rightarrow> m2\<lparr>meta_profile_set := Some s\<rparr>)
      in case cls of None \<Rightarrow> m3 | Some c \<Rightarrow> m3\<lparr>meta_permissions_class := c\<rparr>)"

definition rewrite_meta ::
  "bool \<Rightarrow> string option \<Rightarrow> string option \<Rightarrow> string option \<Rightarrow> permission_class option \<Rightarrow> agent_id \<Rightarrow> data_tree \<Rightarrow>
   (dir_err + unit) \<times> data_tree" where
  "rewrite_meta wr role desc pset cls a t =
     (case body_at t AgentsArea a of
        None \<Rightarrow> (Inl MetaUnreadable, t)
      | Some b \<Rightarrow>
          (case ab_meta b of
             None \<Rightarrow> (Inl MetaUnreadable, t)
           | Some m \<Rightarrow>
               if \<not> wr then (Inl WriteError, t)
               else (Inr (), put_body AgentsArea a (b\<lparr>ab_meta := Some (patch_meta role desc pset cls m)\<rparr>) t)))"

section \<open>Moves between the areas\<close>

definition move_agent_dir :: "move_env \<Rightarrow> area \<Rightarrow> area \<Rightarrow> agent_id \<Rightarrow> data_tree \<Rightarrow> (dir_err + unit) \<times> data_tree" where
  "move_agent_dir e src dst a t =
     (case body_at t src a of
        None \<Rightarrow> (Inl MoveFailed, t)
      | Some b \<Rightarrow>
          (case mv_rename e of
             Renamed \<Rightarrow> (Inr (), put_body dst a b (drop_body src a t))
           | RenameFailed \<Rightarrow> (Inl MoveFailed, t)
           | CrossesDevices \<Rightarrow>
               if has_dir t dst a then (Inl DestinationExists, t)
               else (case mv_copy e of
                       CopyStopped part \<Rightarrow> (Inl CopyError, leave_body dst a part t)
                     | Copied \<Rightarrow>
                         (case mv_remove e of
                            Removed \<Rightarrow> (Inr (), drop_body src a (put_body dst a b t))
                          | RemoveStopped left \<Rightarrow> (Inl RemoveError, leave_body src a left (put_body dst a b t))))))"

definition guarded_move ::
  "dir_err + unit \<Rightarrow> move_env \<Rightarrow> area \<Rightarrow> area \<Rightarrow> agent_id \<Rightarrow> data_tree \<Rightarrow> (dir_err + unit) \<times> data_tree" where
  "guarded_move missing e src dst a t =
     (if \<not> has_dir t src a then (missing, t)
      else if has_dir t dst a then (Inl DestinationExists, t)
      else if \<not> mv_parent e then (Inl NoParentDir, t)
      else move_agent_dir e src dst a t)"

definition deactivate_agent_dir :: "move_env \<Rightarrow> agent_id \<Rightarrow> data_tree \<Rightarrow> (dir_err + unit) \<times> data_tree" where
  "deactivate_agent_dir e = guarded_move (Inl NoSourceDir) e AgentsArea InactiveArea"

definition reactivate_agent_dir :: "move_env \<Rightarrow> agent_id \<Rightarrow> data_tree \<Rightarrow> (dir_err + unit) \<times> data_tree" where
  "reactivate_agent_dir e = guarded_move (Inl NoSourceDir) e InactiveArea AgentsArea"

definition archive_agent_dir :: "move_env \<Rightarrow> agent_id \<Rightarrow> data_tree \<Rightarrow> (dir_err + unit) \<times> data_tree" where
  "archive_agent_dir e = guarded_move (Inr ()) e AgentsArea ArchivedArea"

section \<open>Scans\<close>

definition read_agents_dir :: "listing \<Rightarrow> data_tree \<Rightarrow> dir_err + (agent_id, agent_body) hash_map" where
  "read_agents_dir l t =
     (case l of Missing \<Rightarrow> Inr [] | Unlistable \<Rightarrow> Inl CannotList | Listed \<Rightarrow> Inr (t AgentsArea))"

definition find_disk_root :: "listing \<Rightarrow> data_tree \<Rightarrow> dir_err + agent_id option" where
  "find_disk_root l t =
     rbind (read_agents_dir l t) (\<lambda>ds.
       Inr (map_option fst (List.find (\<lambda>(_, b). case ab_meta b of None \<Rightarrow> False | Some m \<Rightarrow> meta_created_by m = None) ds)))"

definition pending_of :: "(agent_id, agent_body) hash_map \<Rightarrow> (agent_id, agent_meta) hash_map" where
  "pending_of ds = List.map_filter (\<lambda>(a, b). map_option (Pair a) (ab_meta b)) ds"

definition refused_of :: "(agent_id, agent_body) hash_map \<Rightarrow> agent_id list" where
  "refused_of ds = map fst (filter (\<lambda>(_, b). ab_meta b = None) ds)"

definition scan_agents :: "listing \<Rightarrow> data_tree \<Rightarrow> dir_err + (agent_id, agent_meta) hash_map \<times> agent_id list" where
  "scan_agents l t = rbind (read_agents_dir l t) (\<lambda>ds. Inr (pending_of ds, refused_of ds))"

definition scan_inactive :: "listing \<Rightarrow> data_tree \<Rightarrow> dir_err + (agent_id, agent_meta) hash_map" where
  "scan_inactive l t =
     (case l of Missing \<Rightarrow> Inr [] | Unlistable \<Rightarrow> Inl CannotList | Listed \<Rightarrow> Inr (pending_of (t InactiveArea)))"

section \<open>Moves as one operation\<close>

datatype dir_op = Deactivate move_env | Reactivate move_env | Archive move_env

fun move_op :: "dir_op \<Rightarrow> agent_id \<Rightarrow> data_tree \<Rightarrow> (dir_err + unit) \<times> data_tree" where
  "move_op (Deactivate e) = deactivate_agent_dir e"
| "move_op (Reactivate e) = reactivate_agent_dir e"
| "move_op (Archive e) = archive_agent_dir e"

definition run_moves :: "(dir_op \<times> agent_id) list \<Rightarrow> data_tree \<Rightarrow> data_tree" where
  "run_moves ops t = fold (\<lambda>(mv, a) t. snd (move_op mv a t)) ops t"

definition stored :: "agent_id \<Rightarrow> agent_body \<Rightarrow> data_tree \<Rightarrow> bool" where
  "stored a b t \<longleftrightarrow> (\<exists>ar. body_at t ar a = Some b)"

lemmas move_defs = deactivate_agent_dir_def reactivate_agent_dir_def archive_agent_dir_def guarded_move_def
  move_agent_dir_def has_dir_def

text \<open>The trees a guarded move may leave behind.\<close>

lemma guarded_move_cases:
  assumes "guarded_move r e src dst a t = (res, t')"
  shows "t' = t \<and> (res = r \<and> \<not> has_dir t src a \<or> (\<exists>x. res = Inl x)) \<or>
    (\<exists>b. body_at t src a = Some b \<and> body_at t dst a = None \<and>
      (res = Inr () \<and> (t' = put_body dst a b (drop_body src a t) \<or> t' = drop_body src a (put_body dst a b t)) \<or>
       (\<exists>x. res = Inl x) \<and> (\<exists>part. t' = leave_body dst a part t) \<or>
       (\<exists>x. res = Inl x) \<and> (\<exists>left. t' = leave_body src a left (put_body dst a b t))))"
  using assms
  by (simp add: guarded_move_def move_agent_dir_def has_dir_def split: if_splits option.splits rename_outcome.splits
      copy_outcome.splits remove_outcome.splits) blast+

lemma guarded_move_keeps:
  assumes "src \<noteq> dst" "body_at t ar a' = Some b"
  shows "\<exists>ar'. body_at (snd (guarded_move r e src dst a t)) ar' a' = Some b"
proof -
  obtain res t' where g: "guarded_move r e src dst a t = (res, t')" by (cases "guarded_move r e src dst a t")
  from guarded_move_cases [OF g]
  have "body_at t' ar a' = Some b \<or> body_at t' dst a' = Some b"
    using assms by (elim disjE exE conjE) (auto split: if_splits)
  then show ?thesis by (auto simp: g)
qed

lemma move_op_keeps: "stored a' b t \<Longrightarrow> stored a' b (snd (move_op mv a t))"
  unfolding stored_def
  by (cases mv) (auto simp: deactivate_agent_dir_def reactivate_agent_dir_def archive_agent_dir_def
      intro: guarded_move_keeps)

lemma run_moves_keeps: "stored a b t \<Longrightarrow> stored a b (run_moves ops t)"
  by (induction ops arbitrary: t) (auto simp: run_moves_def dest: move_op_keeps)

lemma guarded_move_ok:
  assumes "guarded_move r e src dst a t = (Inr (), t')" "has_dir t src a" "src \<noteq> dst"
  shows "body_at t' ar x = (if x = a \<and> ar = src then None
      else if x = a \<and> ar = dst then body_at t src a else body_at t ar x) \<and> body_at t dst a = None"
  using guarded_move_cases [OF assms(1)] assms(2,3) by (elim disjE exE conjE) (auto simp: has_dir_def)

section \<open>Properties\<close>

text \<open>
  C27. No move loses or overwrites an agent. Whatever sequence of deactivations, reactivations and
  archivals runs, over any agents and with any outcome of every rename, copy and delete (crossed devices,
  copies that stop half-way, deletes that leave a remainder), an agent directory that was whole at the
  start is whole in some area at the end.
\<close>

theorem moves_never_lose_a_body:
  assumes "stored a b t"
  shows "stored a b (run_moves ops t)"
  using assms by (rule run_moves_keeps)

text \<open>
  Parking and restoring is the identity. When a deactivation and a later reactivation of the same
  agent both report success, by a rename or by a copy across devices, every area holds exactly the
  directories it held before, and a successful deactivation had no parked directory to overwrite.
\<close>

theorem park_restore_roundtrip:
  assumes "deactivate_agent_dir e a t = (Inr (), t1)" "reactivate_agent_dir e' a t1 = (Inr (), t2)"
  shows "body_at t2 = body_at t \<and> \<not> has_dir t InactiveArea a \<and>
    body_at t1 InactiveArea a = body_at t AgentsArea a \<and> \<not> has_dir t1 AgentsArea a"
proof -
  have src: "has_dir t AgentsArea a"
    using assms(1) by (auto simp: deactivate_agent_dir_def guarded_move_def split: if_splits)
  have one: "body_at t1 ar x = (if x = a \<and> ar = AgentsArea then None
      else if x = a \<and> ar = InactiveArea then body_at t AgentsArea a else body_at t ar x)"
    and free: "body_at t InactiveArea a = None" for ar x
    using guarded_move_ok [OF assms(1) [unfolded deactivate_agent_dir_def] src] by auto
  have src1: "has_dir t1 InactiveArea a" using src by (simp add: has_dir_def one)
  have "body_at t2 ar x = (if x = a \<and> ar = InactiveArea then None
      else if x = a \<and> ar = AgentsArea then body_at t1 InactiveArea a else body_at t1 ar x)" for ar x
    using guarded_move_ok [OF assms(2) [unfolded reactivate_agent_dir_def] src1] by auto
  then show ?thesis using free by (auto simp: one has_dir_def fun_eq_iff)
qed

lemma starts_with_comparable:
  "starts_with p x \<Longrightarrow> starts_with p y \<Longrightarrow> starts_with x y \<or> starts_with y x"
  by (auto simp: starts_with_def min_def) (metis nat_le_linear take_all take_take min_def)

text \<open>
  The data tree and the workspaces are disjoint. Where the check accepts a workspace, both the data
  root (or its nearest existing ancestor) and the workspace were resolved, and no path lies below both.
\<close>

theorem accepted_workspace_disjoint:
  assumes "ensure_workspace_disjoint cz root ws = Inr ()"
  shows "\<exists>data w. canonical_data_root cz root = Inr data \<and> cz ws = Some w \<and>
    \<not> (\<exists>p. starts_with p data \<and> starts_with p w)"
proof -
  obtain data w where "canonical_data_root cz root = Inr data" "cz ws = Some w"
    "\<not> starts_with data w" "\<not> starts_with w data"
    using assms by (auto simp: ensure_workspace_disjoint_def workspace_overlaps_data_root_def rbind_Inr_iff split: if_splits)
  then show ?thesis using starts_with_comparable by blast
qed

lemma scan_partition:
  assumes "scan_agents Listed t = Inr (ps, rs)"
  shows "set (map fst ps) \<union> set rs = {a. \<exists>b. (a, b) \<in> set (t AgentsArea)} \<and>
    length ps + length rs = length (t AgentsArea)"
proof -
  have "length (pending_of ds) + length (refused_of ds) = length ds" for ds
    by (induction ds) (auto simp: pending_of_def refused_of_def List.map_filter_simps split: option.splits)
  with assms show ?thesis
    by (force simp: scan_agents_def read_agents_dir_def rbind_Inr_iff pending_of_def refused_of_def
        set_map_filter image_iff)
qed

section \<open>Witnesses\<close>

definition easy_move :: move_env where
  "easy_move = \<lparr>mv_parent = True, mv_rename = Renamed, mv_copy = Copied, mv_remove = Removed\<rparr>"

definition far_move :: move_env where
  "far_move = easy_move\<lparr>mv_rename := CrossesDevices\<rparr>"

definition sample_dirs :: data_tree where
  "sample_dirs = (\<lambda>_. [])(AgentsArea := [(''kid'', fresh_body (Some sample_meta))])"

theorem moves_never_lose_a_body_witness:
  "stored ''kid'' (fresh_body (Some sample_meta))
     (run_moves [(Deactivate (far_move\<lparr>mv_copy := CopyStopped None\<rparr>), ''kid''), (Archive far_move, ''kid'')] sample_dirs)"
  by (rule moves_never_lose_a_body)
    (auto simp: stored_def sample_dirs_def body_at_def intro: exI [of _ AgentsArea])

theorem park_restore_roundtrip_witness:
  "body_at (snd (reactivate_agent_dir far_move ''kid'' (snd (deactivate_agent_dir easy_move ''kid'' sample_dirs))))
   = body_at sample_dirs"
proof -
  have s: "body_at sample_dirs AgentsArea ''kid'' = Some (fresh_body (Some sample_meta))"
    "body_at sample_dirs InactiveArea ''kid'' = None" by (simp_all add: sample_dirs_def body_at_def)
  let ?b = "fresh_body (Some sample_meta)"
  let ?t1 = "put_body InactiveArea ''kid'' ?b (drop_body AgentsArea ''kid'' sample_dirs)"
  let ?t2 = "drop_body InactiveArea ''kid'' (put_body AgentsArea ''kid'' ?b ?t1)"
  have 1: "deactivate_agent_dir easy_move ''kid'' sample_dirs = (Inr (), ?t1)"
    by (simp add: move_defs s easy_move_def)
  have 2: "reactivate_agent_dir far_move ''kid'' ?t1 = (Inr (), ?t2)"
    by (simp add: move_defs far_move_def easy_move_def)
  show ?thesis using park_restore_roundtrip [OF 1 2] by (simp add: 1 2)
qed

theorem accepted_workspace_disjoint_witness:
  "\<exists>data w. canonical_data_root (\<lambda>s. if s = ''/w'' then Some [''w''] else if s = ''/'' then Some [] else None) [''data'', ''x''] = Inr data \<and>
    (if ''/w'' = ''/w'' then Some [''w''] else if ''/w'' = ''/'' then Some [] else None) = Some w \<and>
    \<not> (\<exists>p. starts_with p data \<and> starts_with p w)"
  by (rule accepted_workspace_disjoint)
    (simp add: ensure_workspace_disjoint_def workspace_overlaps_data_root_def canonical_data_root_def display_path_def)

end
