(* ===== verification/Boot_Restore.thy ===== *)
theory Boot_Restore
  imports Agent_Dirs Workspace_Lock "HOL-Library.Multiset"
begin

text \<open>
  Restoring the agents at boot (\<open>kallip-tagma/src/lifecycle/restore.rs\<close>): one agent from its directory
  (\<open>restore_one\<close>), the faulted entries for directories that cannot come back, and the level-by-level walk
  of the supervision tree (\<open>restore_agents\<close>).

  The state is the registry and the table of directory locks; the data tree is only read. Loading the
  configuration, deserializing the context of an agent and starting its task are arguments of the
  environment, and so are the fresh tokens and the clock. The siblings of a level are polled in order;
  each runs to its end before the next one starts, which is what \<open>join_all\<close> does with restores that
  do not suspend.
\<close>

section \<open>Data\<close>

datatype restore_fail =
    LoadFailed string
  | BodyDamaged
  | DirFail dir_err
  | ChainFail restore_err
  | LockFail establish_failure
  | SpawnFail

record restore_env =
  re_canonicalize :: "string \<Rightarrow> path option"
  re_lock_fs :: "nat \<Rightarrow> string \<Rightarrow> path option"
  re_root :: path
  re_load :: "string \<Rightarrow> string + string"
  re_body_ok :: "agent_id \<Rightarrow> bool"
  re_spawn_ok :: "agent_id \<Rightarrow> bool"
  re_token :: "agent_id \<Rightarrow> token_hash"
  re_default_set :: string
  re_baseline :: "string \<Rightarrow> exec_decision"
  re_show :: "restore_fail \<Rightarrow> string"
  re_now :: u64

datatype boot_err = ScanFailed dir_err | MultipleRoots nat | RegisterRoot api_err

record boot =
  bo_registry :: agent_registry
  bo_locks :: dir_map

section \<open>One agent\<close>

definition disk_of :: "data_tree \<Rightarrow> restore_disk" where
  "disk_of t = \<lparr>dk_meta = pending_of (t AgentsArea),
     dk_exec = List.map_filter (\<lambda>(a, b). map_option (Pair a) (ab_exec b)) (t AgentsArea)\<rparr>"

definition restored_config :: "restore_env \<Rightarrow> string \<Rightarrow> agent_meta \<Rightarrow> u8 \<Rightarrow> agent_config" where
  "restored_config env ws m depth =
     \<lparr>cfg_created_by = meta_created_by m, cfg_workspace_root = ws,
      cfg_permissions_class = meta_permissions_class m, cfg_delegation_mode = meta_delegation_mode m,
      cfg_role = meta_role m, cfg_description = meta_description m,
      cfg_profile_set =
        (if meta_created_by m = None \<and> meta_profile_set m = None
         then (if re_default_set env = [] then None else Some (re_default_set env))
         else meta_profile_set m),
      cfg_permissions = (new_profile ws)\<lparr>max_depth := depth\<rparr>\<rparr>"

definition agent_dir_string :: "restore_env \<Rightarrow> agent_id \<Rightarrow> string" where
  "agent_dir_string env a = display_path (dir_of (re_root env) AgentsArea a)"

definition map_err :: "('e \<Rightarrow> 'f) \<Rightarrow> 'e + 'a \<Rightarrow> 'f + 'a" where
  "map_err f r = (case r of Inl e \<Rightarrow> Inl (f e) | Inr x \<Rightarrow> Inr x)"

definition restore_checks ::
  "restore_env \<Rightarrow> data_tree \<Rightarrow> restore_index \<Rightarrow> agent_id \<Rightarrow> agent_meta \<Rightarrow>
   restore_fail + (agent_config \<times> exec_policy \<times> agent_id list)" where
  "restore_checks env t ix a m =
     rbind (map_err LoadFailed (re_load env (display_path (meta_workspace_root m)))) (\<lambda>ws.
     rbind (if re_body_ok env a then Inr () else Inl BodyDamaged) (\<lambda>_.
     rbind (map_err DirFail (ensure_workspace_disjoint (re_canonicalize env) (re_root env) ws)) (\<lambda>_.
     rbind (map_err ChainFail (restore_chain_checks (re_baseline env) (disk_of t) ix a m DEFAULT_MAX_DEPTH)) (\<lambda>(depth, ids).
     rbind (map_err ChainFail (ok_or (NoExecPolicy a) (get_exec_policy (disk_of t) ix a))) (\<lambda>pol.
       Inr (restored_config env ws m depth, pol, ids))))))"

definition restore_one ::
  "restore_env \<Rightarrow> data_tree \<Rightarrow> restore_index \<Rightarrow> agent_id \<times> agent_meta \<Rightarrow> dir_map \<Rightarrow>
   (restore_fail + agent_entry) \<times> dir_map" where
  "restore_one env t ix p locks =
     (let (a, m) = p
      in case restore_checks env t ix a m of
           Inl e \<Rightarrow> (Inl e, locks)
         | Inr (cfg, pol, chain_ids) \<Rightarrow>
             (case establish_workspace_lock (re_lock_fs env) a cfg chain_ids locks of
                (Inl e, locks1) \<Rightarrow> (Inl (LockFail e), locks1)
              | (Inr est, locks1) \<Rightarrow>
                  if re_spawn_ok env a
                  then (Inr \<lparr>ae_identity = \<lparr>config = cfg, agent_dir = Some (agent_dir_string env a)\<rparr>,
                             ae_auth_token_hash = re_token env a, ae_subagent_ids = [], ae_exec_policy = pol\<rparr>,
                        drop_established (re_lock_fs env 3) (disarm est) locks1)
                  else (Inl SpawnFail, drop_established (re_lock_fs env 3) est locks1)))"

text \<open>One parked agent, for the converge face: the same path with an index of its own.\<close>

definition restore_inactive ::
  "restore_env \<Rightarrow> data_tree \<Rightarrow> agent_id \<Rightarrow> agent_meta \<Rightarrow> dir_map \<Rightarrow> (restore_fail + agent_entry) \<times> dir_map" where
  "restore_inactive env t a m locks =
     restore_one env t
       \<lparr>ri_meta = [(a, m)],
        ri_exec = (case map_of (dk_exec (disk_of t)) a of None \<Rightarrow> [] | Some pol \<Rightarrow> [(a, pol)])\<rparr> (a, m) locks"

definition faulted_from_meta :: "restore_env \<Rightarrow> agent_id \<Rightarrow> agent_meta \<Rightarrow> string \<Rightarrow> faulted_entry" where
  "faulted_from_meta env a m why =
     \<lparr>fe_identity = \<lparr>config = \<lparr>cfg_created_by = meta_created_by m,
          cfg_workspace_root = display_path (meta_workspace_root m),
          cfg_permissions_class = meta_permissions_class m, cfg_delegation_mode = meta_delegation_mode m,
          cfg_role = meta_role m, cfg_description = meta_description m,
          cfg_profile_set = meta_profile_set m, cfg_permissions = new_profile []\<rparr>,
        agent_dir = Some (agent_dir_string env a)\<rparr>,
      fe_subagent_ids = [], fe_reason = why, fe_at = re_now env\<rparr>"

definition refused_entry :: "restore_env \<Rightarrow> agent_id \<Rightarrow> faulted_entry" where
  "refused_entry env a =
     \<lparr>fe_identity = \<lparr>config = \<lparr>cfg_created_by = None, cfg_workspace_root = [],
          cfg_permissions_class = Normal, cfg_delegation_mode = CarveOut, cfg_role = [], cfg_description = [],
          cfg_profile_set = None, cfg_permissions = new_profile []\<rparr>,
        agent_dir = Some (agent_dir_string env a)\<rparr>,
      fe_subagent_ids = [], fe_reason = ''agent directory unreadable'', fe_at = re_now env\<rparr>"

definition register_refused :: "restore_env \<Rightarrow> agent_id list \<Rightarrow> agent_registry \<Rightarrow> agent_registry" where
  "register_refused env rs r = fold (\<lambda>a. register a (Faulted (refused_entry env a))) rs r"

section \<open>The tree on disk\<close>

definition scan_index :: "data_tree \<Rightarrow> (agent_id, agent_meta) hash_map \<Rightarrow> restore_index" where
  "scan_index t ps =
     \<lparr>ri_meta = ps,
      ri_exec = List.map_filter (\<lambda>(a, _). map_option (Pair a) (map_of (dk_exec (disk_of t)) a)) ps\<rparr>"

definition roots_of :: "(agent_id, agent_meta) hash_map \<Rightarrow> agent_id list" where
  "roots_of ps = map fst (filter (\<lambda>(_, m). meta_created_by m = None) ps)"

definition children_of :: "(agent_id, agent_meta) hash_map \<Rightarrow> agent_id \<Rightarrow> agent_id list" where
  "children_of ps s = map fst (filter (\<lambda>(_, m). meta_created_by m = Some s) ps)"

definition orphans_of :: "(agent_id, agent_meta) hash_map \<Rightarrow> (agent_id, agent_meta) hash_map" where
  "orphans_of ps =
     filter (\<lambda>(_, m). case meta_created_by m of None \<Rightarrow> False | Some s \<Rightarrow> s \<notin> fst ` set ps) ps"

definition orphan_reason :: "agent_id list \<Rightarrow> agent_meta \<Rightarrow> string" where
  "orphan_reason refused m =
     (case meta_created_by m of
        None \<Rightarrow> []
      | Some s \<Rightarrow> ''supervisor '' @ s @
          (if s \<in> set refused then '' unreadable (registered faulted)'' else '' not present on disk''))"

definition register_orphans ::
  "restore_env \<Rightarrow> agent_id list \<Rightarrow> (agent_id, agent_meta) hash_map \<Rightarrow> agent_registry \<Rightarrow> agent_registry" where
  "register_orphans env refused os r =
     fold (\<lambda>(a, m). register a (Faulted (faulted_from_meta env a m (orphan_reason refused m)))) os r"

section \<open>Level by level\<close>

fun take_tasks ::
  "agent_id list \<Rightarrow> (agent_id, agent_meta) hash_map \<Rightarrow>
   (agent_id, agent_meta) hash_map \<times> (agent_id, agent_meta) hash_map" where
  "take_tasks [] pend = ([], pend)"
| "take_tasks (a # as) pend =
     (case map_of pend a of
        None \<Rightarrow> take_tasks as pend
      | Some m \<Rightarrow> (let (ts, rest) = take_tasks as (AList.delete a pend) in ((a, m) # ts, rest)))"

type_synonym attempt = "agent_id \<times> agent_meta \<times> (restore_fail + agent_entry)"

fun restore_level ::
  "restore_env \<Rightarrow> data_tree \<Rightarrow> restore_index \<Rightarrow> (agent_id, agent_meta) hash_map \<Rightarrow> dir_map \<Rightarrow>
   attempt list \<times> dir_map" where
  "restore_level env t ix [] locks = ([], locks)"
| "restore_level env t ix ((a, m) # ts) locks =
     (let (r, locks1) = restore_one env t ix (a, m) locks;
          (rs, locks2) = restore_level env t ix ts locks1
      in ((a, m, r) # rs, locks2))"

definition successes :: "attempt list \<Rightarrow> (agent_id \<times> registry_entry) list" where
  "successes rs = List.map_filter (\<lambda>(a, m, r). case r of Inl _ \<Rightarrow> None | Inr e \<Rightarrow> Some (a, Live e)) rs"

definition failures :: "restore_env \<Rightarrow> attempt list \<Rightarrow> (agent_id \<times> registry_entry) list" where
  "failures env rs = List.map_filter (\<lambda>(a, m, r). case r of
       Inl e \<Rightarrow> Some (a, Faulted (faulted_from_meta env a m (''restore failed: '' @ re_show env e)))
     | Inr _ \<Rightarrow> None) rs"

definition register_restored :: "agent_id \<Rightarrow> registry_entry \<Rightarrow> agent_registry \<Rightarrow> boot_err + agent_registry" where
  "register_restored a e r =
     (if is_root (config (identity_of e)) then map_err RegisterRoot (register_root a e r)
      else Inr (register a e r))"

fun register_batch :: "(agent_id \<times> registry_entry) list \<Rightarrow> agent_registry \<Rightarrow> boot_err + agent_registry" where
  "register_batch [] r = Inr r"
| "register_batch ((a, e) # es) r = rbind (register_restored a e r) (register_batch es)"

lemma take_tasks_length: "take_tasks as pend = (ts, rest) \<Longrightarrow> length rest + length ts \<le> length pend"
proof (induction as pend arbitrary: ts rest rule: take_tasks.induct)
  case (2 a as pend)
  have "length (AList.delete a pend) < length pend" if "map_of pend a = Some m" for m
    using that by (induction pend) (auto simp: AList.delete_eq less_Suc_eq_le split: if_splits)
  with 2 show ?case by (force split: option.splits prod.splits)
qed simp

lemma restore_level_ids: "map (\<lambda>(a, m, _). (a, m)) (fst (restore_level env t ix ts locks)) = ts"
  by (induction env t ix ts locks rule: restore_level.induct) (auto split: prod.splits simp: Let_def)

function restore_levels ::
  "restore_env \<Rightarrow> data_tree \<Rightarrow> restore_index \<Rightarrow> (agent_id, agent_meta) hash_map \<Rightarrow>
   (agent_id, agent_meta) hash_map \<Rightarrow> agent_id list \<Rightarrow> boot \<Rightarrow>
   boot_err + (agent_id, agent_meta) hash_map \<times> boot" where
  "restore_levels env t ix ps pend level st =
     (if level = [] then Inr (pend, st)
      else
        (let (tasks, rest) = take_tasks level pend;
             (rs, locks) = restore_level env t ix tasks (bo_locks st)
         in case register_batch (successes rs @ failures env rs) (bo_registry st) of
              Inl e \<Rightarrow> Inl e
            | Inr r \<Rightarrow> restore_levels env t ix ps rest (sort (concat (map (children_of ps \<circ> fst) tasks)))
                \<lparr>bo_registry = r, bo_locks = locks\<rparr>))"
  by pat_completeness auto

termination
proof (relation "measure (\<lambda>(env, t, ix, ps, pend, level, st). 2 * length pend + (if level = [] then 0 else 1))", goal_cases)
  case (2 env t ix ps pend level st tr tasks rest lr rs locks r)
  then have "length rest + length tasks \<le> length pend" by (auto dest: take_tasks_length [OF sym])
  with 2(1) show ?case by (cases tasks) auto
qed simp

declare restore_levels.simps [simp del]

definition register_stragglers ::
  "restore_env \<Rightarrow> (agent_id, agent_meta) hash_map \<Rightarrow> agent_registry \<Rightarrow> agent_registry" where
  "register_stragglers env pend r =
     fold (\<lambda>(a, m). register_no_subagent_push a
       (Faulted (faulted_from_meta env a m ''not reached by restore: created_by cycle''))) pend r"

definition restore_scanned ::
  "restore_env \<Rightarrow> data_tree \<Rightarrow> (agent_id, agent_meta) hash_map \<Rightarrow> agent_id list \<Rightarrow> boot \<Rightarrow> boot_err + boot" where
  "restore_scanned env t ps refused st =
     (let st1 = st\<lparr>bo_registry := register_refused env refused (bo_registry st)\<rparr>
      in if ps = [] then Inr st1
         else
           (let os = orphans_of ps;
                pend = filter (\<lambda>(a, _). a \<notin> fst ` set os) ps;
                st2 = st1\<lparr>bo_registry := register_orphans env refused os (bo_registry st1)\<rparr>;
                roots = sort (roots_of ps);
                kids = sort (concat (map (children_of ps \<circ> fst) os))
            in if length roots > 1 then Inl (MultipleRoots (length roots))
               else rbind (restore_levels env t (scan_index t ps) ps pend (roots @ kids) st2) (\<lambda>(left, st3).
                 Inr (st3\<lparr>bo_registry := register_stragglers env left (bo_registry st3)\<rparr>))))"

definition restore_agents :: "restore_env \<Rightarrow> listing \<Rightarrow> data_tree \<Rightarrow> boot \<Rightarrow> boot_err + boot" where
  "restore_agents env l t st =
     rbind (map_err ScanFailed (scan_agents l t)) (\<lambda>(ps, refused). restore_scanned env t ps refused st)"

section \<open>Nobody vanishes\<close>

definition known :: "agent_registry \<Rightarrow> agent_id set" where
  "known r = {a. registry_get r a \<noteq> None}"

lemma known_update [simp]:
  "known (notify_invalidation r) = known r"
  by (simp add: known_def registry_get_def)

lemma update_subagents_keys: "{x. map_of (update_subagents f s agents) x \<noteq> None} = {x. map_of agents x \<noteq> None}"
  by (auto simp: update_subagents_def AList.update_conv' split: option.splits if_splits)

lemma registry_get_register: "registry_get (register a e r) a = Some e"
  by (simp add: registry_get_def register_def AList.update_conv')

lemma known_register [simp]: "known (register a e r) = insert a (known r)"
  using update_subagents_keys [of "\<lambda>ids. ids @ [a]" "created_by e" "rg_agents r"]
  by (auto simp: known_def registry_get_def register_def AList.update_conv' split: if_splits)

lemma known_reserved [simp]: "known (register_no_subagent_push a e r) = insert a (known r)"
  by (auto simp: known_def registry_get_def register_no_subagent_push_def AList.update_conv' split: if_splits)

lemma known_register_root: "register_root a e r = Inr r' \<Longrightarrow> known r' = insert a (known r)"
  by (auto simp: register_root_def split: if_splits)

lemma known_register_restored: "register_restored a e r = Inr r' \<Longrightarrow> known r' = insert a (known r)"
  by (auto simp: register_restored_def map_err_def known_register_root split: if_splits sum.splits)

lemma known_batch: "register_batch es r = Inr r' \<Longrightarrow> known r' = fst ` set es \<union> known r"
  by (induction es r rule: register_batch.induct) (auto simp: rbind_Inr_iff known_register_restored)

lemma known_refused: "known (register_refused env rs r) = set rs \<union> known r"
  by (induction rs arbitrary: r) (auto simp: register_refused_def)

lemma known_orphans: "known (register_orphans env rs os r) = fst ` set os \<union> known r"
  by (induction os arbitrary: r) (auto simp: register_orphans_def)

lemma known_stragglers: "known (register_stragglers env pend r) = fst ` set pend \<union> known r"
  by (induction pend arbitrary: r) (auto simp: register_stragglers_def)

lemma attempts_mset: "mset (map fst (successes rs @ failures env rs)) = mset (map fst rs)"
  by (induction rs) (auto simp: successes_def failures_def List.map_filter_simps split: sum.splits)

lemma attempts_all: "fst ` set (successes rs @ failures env rs) = fst ` set rs"
  using arg_cong [OF attempts_mset [of rs env], of set_mset] by (simp add: image_Un)

lemma level_ids: "restore_level env t ix ts locks = (rs, locks') \<Longrightarrow> fst ` set rs = fst ` set ts"
  using restore_level_ids [of env t ix ts locks] by (force simp: image_iff)

lemma delete_ids: "map_of m a = Some v \<Longrightarrow> fst ` set m = insert a (fst ` set (AList.delete a m))"
proof -
  assume "map_of m a = Some v"
  then have "a \<in> fst ` set m" by (auto dest!: map_of_SomeD intro: rev_image_eqI)
  moreover have "fst ` set (AList.delete a m) = fst ` set m - {a}"
    by (metis delete_keys list.set_map set_removeAll)
  ultimately show ?thesis by auto
qed

lemma take_tasks_ids: "take_tasks as pend = (ts, rest) \<Longrightarrow> fst ` set pend = fst ` set ts \<union> fst ` set rest"
proof (induction as pend arbitrary: ts rest rule: take_tasks.induct)
  case (2 a as pend)
  show ?case
  proof (cases "map_of pend a")
    case None
    then show ?thesis using 2(1,3) by simp
  next
    case (Some m)
    obtain ts' rest' where t: "take_tasks as (AList.delete a pend) = (ts', rest')" by fastforce
    then have "ts = (a, m) # ts'" "rest = rest'" using 2(3) Some by simp_all
    then have "fst ` set ts \<union> fst ` set rest = insert a (fst ` set ts' \<union> fst ` set rest')"
      by (simp only: list.set image_insert fst_conv Un_insert_left)
    then show ?thesis by (simp only: delete_ids [OF Some] 2(2) [OF Some t])
  qed
qed simp

lemma levels_everyone:
  "restore_levels env t ix ps pend level st = Inr (left, st') \<Longrightarrow>
    known (bo_registry st') \<union> fst ` set left = known (bo_registry st) \<union> fst ` set pend"
proof (induction env t ix ps pend level st rule: restore_levels.induct)
  case (1 env t ix ps pend level st)
  show ?case
  proof (cases "level = []")
    case True
    then show ?thesis using 1(2) by (simp add: restore_levels.simps)
  next
    case False
    obtain tasks rest where tt: "take_tasks level pend = (tasks, rest)" by fastforce
    obtain rs locks where rl: "restore_level env t ix tasks (bo_locks st) = (rs, locks)" by fastforce
    from 1(2) False obtain r where r: "register_batch (successes rs @ failures env rs) (bo_registry st) = Inr r"
      and rec: "restore_levels env t ix ps rest (sort (concat (map (children_of ps \<circ> fst) tasks)))
        \<lparr>bo_registry = r, bo_locks = locks\<rparr> = Inr (left, st')"
      by (subst (asm) restore_levels.simps) (auto simp: tt rl split: sum.splits)
    have "known (bo_registry st') \<union> fst ` set left = known r \<union> fst ` set rest"
      using 1(1) [OF False tt [symmetric] refl rl [symmetric] refl r rec] by simp
    moreover have "known r = fst ` set tasks \<union> known (bo_registry st)"
      using known_batch [OF r] level_ids [OF rl] by (simp only: attempts_all)
    ultimately show ?thesis using take_tasks_ids [OF tt] by auto
  qed
qed

lemma restore_scanned_everyone:
  assumes "restore_scanned env t ps refused st = Inr st'"
  shows "known (bo_registry st') = known (bo_registry st) \<union> set refused \<union> fst ` set ps"
proof (cases "ps = []")
  case True
  then show ?thesis using assms by (auto simp: restore_scanned_def Let_def known_refused)
next
  case False
  let ?os = "orphans_of ps"
  from assms False obtain left st3 pend st2 lv where *:
    "restore_levels env t (scan_index t ps) ps pend lv st2 = Inr (left, st3)"
    "pend = filter (\<lambda>(a, _). a \<notin> fst ` set ?os) ps"
    "bo_registry st2 = register_orphans env refused ?os (register_refused env refused (bo_registry st))"
    "st' = st3\<lparr>bo_registry := register_stragglers env left (bo_registry st3)\<rparr>"
    by (auto simp: restore_scanned_def Let_def rbind_Inr_iff simp del: restore_levels.simps split: if_splits)
  have "fst ` set ps = fst ` set pend \<union> fst ` set ?os"
    by (auto simp: *(2) orphans_of_def image_iff)
  then show ?thesis
    using levels_everyone [OF *(1)]
    by (auto simp: *(3,4) known_stragglers known_orphans known_refused)
qed

section \<open>What a registered entry is\<close>

definition origins :: "agent_registry \<Rightarrow> (agent_id \<times> agent_id option) list" where
  "origins r = map (\<lambda>(a, e). (a, created_by e)) (rg_agents r)"

lemma created_by_set_subagents [simp]: "created_by (set_subagent_ids ids e) = created_by e"
  by (cases e) (simp_all add: created_by_def)

lemma map_snd_update:
  "map (\<lambda>(a, e). (a, f e)) (AList.update k v m) = AList.update k (f v) (map (\<lambda>(a, e). (a, f e)) m)"
  by (induction m) auto

lemma update_same: "map_of m k = Some v \<Longrightarrow> AList.update k v m = m"
  by (induction m) auto

lemma update_new: "k \<notin> fst ` set m \<Longrightarrow> AList.update k v m = m @ [(k, v)]"
  by (induction m) auto

lemma origins_update_subagents:
  "map (\<lambda>(a, e). (a, created_by e)) (update_subagents f s agents) = map (\<lambda>(a, e). (a, created_by e)) agents"
proof -
  have "map_of (map (\<lambda>(a, e). (a, created_by e)) agents) x = map_option created_by (map_of agents x)" for x
    by (induction agents) auto
  then show ?thesis
    by (auto simp: update_subagents_def map_snd_update intro!: update_same split: option.split)
qed

lemma origins_register: "origins (register a e r) = AList.update a (created_by e) (origins r)"
  by (simp add: origins_def register_def map_snd_update origins_update_subagents)

lemma origins_keys: "fst ` set (origins r) = known r"
  by (force simp: origins_def known_def registry_get_def map_of_eq_None_iff image_iff)

lemma origins_register_new: "a \<notin> known r \<Longrightarrow> origins (register a e r) = origins r @ [(a, created_by e)]"
  by (simp add: origins_register update_new origins_keys)

lemma root_agent_None: "root_agent r = None \<longleftrightarrow> None \<notin> snd ` set (origins r)"
proof -
  have "snd ` set (origins r) = (created_by \<circ> snd) ` set (rg_agents r)" by (force simp: origins_def image_iff)
  moreover have "root_agent r = None \<longleftrightarrow> (\<forall>p \<in> set (rg_agents r). created_by (snd p) \<noteq> None)"
    unfolding root_agent_def find_None_iff by (simp add: case_prod_beta is_root_def created_by_def) force
  moreover have "None \<notin> (created_by \<circ> snd) ` A \<longleftrightarrow> (\<forall>p \<in> A. created_by (snd p) \<noteq> None)" for A :: "(agent_id \<times> registry_entry) set"
    by force
  ultimately show ?thesis by simp
qed

lemma register_new_rooted:
  "a \<notin> known r \<Longrightarrow> root_agent (register a e r) = None \<longleftrightarrow> root_agent r = None \<and> created_by e \<noteq> None"
  by (cases "created_by e") (auto simp: root_agent_None origins_register_new)

lemma refused_roots: "root_agent (register a (Faulted (refused_entry env a)) r) \<noteq> None"
proof -
  have "(a, created_by (Faulted (refused_entry env a))) \<in> set (origins (register a (Faulted (refused_entry env a)) r))"
    by (metis AList.update_conv' fun_upd_same map_of_SomeD origins_register)
  moreover have "created_by (Faulted (refused_entry env a)) = None" by (simp add: created_by_def refused_entry_def)
  ultimately show ?thesis by (metis image_eqI root_agent_None snd_conv)
qed

lemma register_refused_rooted:
  "refused \<noteq> [] \<Longrightarrow> root_agent (register_refused env refused r) \<noteq> None"
  by (cases refused rule: rev_cases) (auto simp: register_refused_def refused_roots)

lemma orphans_rooted:
  assumes "distinct (map fst os)" "fst ` set os \<inter> known r = {}" "\<forall>(a, m) \<in> set os. meta_created_by m \<noteq> None"
  shows "root_agent (register_orphans env rs os r) = None \<longleftrightarrow> root_agent r = None"
  using assms
proof (induction os arbitrary: r)
  case (Cons p os)
  obtain a m where p: "p = (a, m)" by (cases p)
  let ?e = "Faulted (faulted_from_meta env a m (orphan_reason rs m))"
  have "created_by ?e \<noteq> None" using Cons.prems(3) by (simp add: p created_by_def faulted_from_meta_def)
  moreover have "fst ` set os \<inter> known (register a ?e r) = {}" using Cons.prems by (auto simp: p)
  ultimately show ?case
    using Cons.IH [of "register a ?e r"] Cons.prems register_new_rooted [of a r ?e]
    by (auto simp: p register_orphans_def)
qed (simp add: register_orphans_def)

section \<open>When boot succeeds\<close>

lemma register_restored_ok:
  "is_ok (register_restored a e r) \<longleftrightarrow> created_by e \<noteq> None \<or> root_agent r = None"
  by (cases "root_agent r") (auto simp: register_restored_def is_root_def map_err_def register_root_def created_by_def)

lemma register_restored_val: "register_restored a e r = Inr r' \<Longrightarrow> r' = register a e r"
  by (auto simp: register_restored_def map_err_def register_root_def split: if_splits sum.splits)

lemma batch_subagents_ok: "\<forall>(a, e) \<in> set es. created_by e \<noteq> None \<Longrightarrow> is_ok (register_batch es r)"
proof (induction es r rule: register_batch.induct)
  case (2 a e es r)
  then obtain r' where "register_restored a e r = Inr r'"
    using register_restored_ok [of a e r] by (cases "register_restored a e r") auto
  with 2 show ?case by simp
qed simp

lemma batch_one_root:
  assumes "distinct (map fst (xs @ (a, e) # ys))" "fst ` set xs \<inter> known r = {}" "created_by e = None"
    "\<forall>(b, x) \<in> set (xs @ ys). created_by x \<noteq> None"
  shows "is_ok (register_batch (xs @ (a, e) # ys) r) \<longleftrightarrow> root_agent r = None"
  using assms
proof (induction xs arbitrary: r)
  case Nil
  show ?case
  proof (cases "register_restored a e r")
    case (Inl x)
    then show ?thesis using register_restored_ok [of a e r] Nil by simp
  next
    case (Inr r')
    then show ?thesis using register_restored_ok [of a e r] Nil batch_subagents_ok [of ys r'] by auto
  qed
next
  case (Cons p xs)
  obtain b x where p: "p = (b, x)" by (cases p)
  have x: "created_by x \<noteq> None" using Cons.prems(4) by (auto simp: p)
  then obtain r' where r': "register_restored b x r = Inr r'"
    using register_restored_ok [of b x r] by (cases "register_restored b x r") auto
  then have v: "r' = register b x r" by (rule register_restored_val)
  have "fst ` set xs \<inter> known r' = {}" using Cons.prems(1,2) by (auto simp: v p)
  then have "is_ok (register_batch (xs @ (a, e) # ys) r') \<longleftrightarrow> root_agent r' = None"
    using Cons.IH [of r'] Cons.prems by auto
  moreover have "b \<notin> known r" using Cons.prems(2) by (auto simp: p)
  ultimately show ?case using register_new_rooted [of b r x] x r' v by (simp add: p)
qed

lemma restore_checks_config:
  "restore_checks env t ix a m = Inr (cfg, pol, ids) \<Longrightarrow> cfg_created_by cfg = meta_created_by m \<and>
    cfg_permissions_class cfg = meta_permissions_class m"
  by (auto simp: restore_checks_def rbind_Inr_iff restored_config_def)

lemma restore_one_origin:
  "restore_one env t ix (a, m) locks = (Inr e, locks') \<Longrightarrow> created_by (Live e) = meta_created_by m"
  by (auto simp: restore_one_def Let_def created_by_def split: sum.splits prod.splits if_splits
      dest!: restore_checks_config)

lemma restore_level_origin:
  "restore_level env t ix ts locks = (rs, locks') \<Longrightarrow> (a, m, Inr e) \<in> set rs \<Longrightarrow> created_by (Live e) = meta_created_by m"
  by (induction env t ix ts locks arbitrary: rs locks' rule: restore_level.induct)
    (auto simp: Let_def split: prod.splits dest: restore_one_origin)

lemma level_entry_origin:
  assumes "restore_level env t ix ts locks = (rs, locks')" "(a, e) \<in> set (successes rs @ failures env rs)"
  shows "\<exists>m. (a, m) \<in> set ts \<and> created_by e = meta_created_by m"
proof -
  obtain m res where am: "(a, m, res) \<in> set rs" "(\<exists>x. res = Inr x \<and> e = Live x) \<or>
      (\<exists>x. res = Inl x \<and> e = Faulted (faulted_from_meta env a m (''restore failed: '' @ re_show env x)))"
    using assms(2) by (fastforce simp: successes_def failures_def set_map_filter split: sum.splits)
  have "(a, m) \<in> set ts"
    using restore_level_ids [of env t ix ts locks] am(1) assms(1) by (force simp: image_iff)
  moreover have "created_by e = meta_created_by m"
    using am restore_level_origin [OF assms(1)] by (auto simp: created_by_def faulted_from_meta_def)
  ultimately show ?thesis by blast
qed

lemma take_tasks_subset: "take_tasks as pend = (ts, rest) \<Longrightarrow> set ts \<subseteq> set pend \<and> set rest \<subseteq> set pend"
proof (induction as pend arbitrary: ts rest rule: take_tasks.induct)
  case (2 a as pend)
  have "set (AList.delete a pend) \<subseteq> set pend" by (auto simp: AList.delete_eq)
  with 2 show ?case by (fastforce split: option.splits prod.splits dest: map_of_SomeD)
qed simp

lemma take_tasks_level: "take_tasks as pend = (ts, rest) \<Longrightarrow> fst ` set ts \<subseteq> set as"
proof (induction as pend arbitrary: ts rest rule: take_tasks.induct)
  case (2 a as pend)
  show ?case
  proof (cases "map_of pend a")
    case None
    then show ?thesis using 2(1,3) by auto
  next
    case (Some m)
    obtain ts' rest' where t: "take_tasks as (AList.delete a pend) = (ts', rest')" by fastforce
    then have "ts = (a, m) # ts'" using 2(3) Some by simp
    then show ?thesis using 2(2) [OF Some t] by auto
  qed
qed simp

lemma levels_without_roots:
  assumes "hm_valid ps" "set pend \<subseteq> set ps" "\<forall>(a, m) \<in> set pend. a \<in> set level \<longrightarrow> meta_created_by m \<noteq> None"
  shows "is_ok (restore_levels env t ix ps pend level st)"
  using assms
proof (induction env t ix ps pend level st rule: restore_levels.induct)
  case (1 env t ix ps pend level st)
  show ?case
  proof (cases "level = []")
    case True
    then show ?thesis by (simp add: restore_levels.simps)
  next
    case False
    obtain tasks rest where tt: "take_tasks level pend = (tasks, rest)" by fastforce
    obtain rs locks where rl: "restore_level env t ix tasks (bo_locks st) = (rs, locks)" by fastforce
    let ?next = "sort (concat (map (children_of ps \<circ> fst) tasks))"
    have sub: "set tasks \<subseteq> set pend" "set rest \<subseteq> set pend" "fst ` set tasks \<subseteq> set level"
      using take_tasks_subset [OF tt] take_tasks_level [OF tt] by auto
    have "created_by e \<noteq> None" if ae: "(a, e) \<in> set (successes rs @ failures env rs)" for a e
    proof -
      obtain m where "(a, m) \<in> set tasks" "created_by e = meta_created_by m" using level_entry_origin [OF rl ae] by blast
      moreover from this have "(a, m) \<in> set pend" "a \<in> set level" using sub by force+
      ultimately show ?thesis using 1(4) by auto
    qed
    then obtain r where r: "register_batch (successes rs @ failures env rs) (bo_registry st) = Inr r"
      using batch_subagents_ok [of "successes rs @ failures env rs" "bo_registry st"]
      by (cases "register_batch (successes rs @ failures env rs) (bo_registry st)") auto
    have "meta_created_by m \<noteq> None" if "(a, m) \<in> set rest" "a \<in> set ?next" for a m
    proof -
      from that(2) obtain m' where m': "(a, m') \<in> set ps" "meta_created_by m' \<noteq> None"
        by (auto simp: children_of_def)
      have "m = m'" using that(1) sub 1(2,3) m'(1) by (metis hm_valid_def eq_key_imp_eq_value subset_iff)
      with m' show ?thesis by simp
    qed
    then have "is_ok (restore_levels env t ix ps rest ?next \<lparr>bo_registry = r, bo_locks = locks\<rparr>)"
      using 1(1) [OF False tt [symmetric] refl rl [symmetric] refl r 1(2)] sub 1(3) by blast
    then show ?thesis using False by (subst restore_levels.simps) (simp add: tt rl r)
  qed
qed

lemma take_tasks_distinct:
  "take_tasks as pend = (ts, rest) \<Longrightarrow> hm_valid pend \<Longrightarrow> distinct (map fst ts)"
proof (induction as pend arbitrary: ts rest rule: take_tasks.induct)
  case (2 a as pend)
  show ?case
  proof (cases "map_of pend a")
    case None
    then show ?thesis using 2(1,3,4) by auto
  next
    case (Some m)
    obtain ts' rest' where t: "take_tasks as (AList.delete a pend) = (ts', rest')" by fastforce
    then have "ts = (a, m) # ts'" using 2(3) Some by simp
    moreover have "a \<notin> fst ` set ts'" using take_tasks_subset [OF t] by (auto simp: AList.delete_eq)
    moreover have "hm_valid (AList.delete a pend)" using 2(4) by (simp add: hm_valid_def distinct_delete)
    ultimately show ?thesis using 2(2) [OF Some t] by simp
  qed
qed simp

lemma pending_valid: "hm_valid ds \<Longrightarrow> hm_valid (pending_of ds)"
  by (induction ds) (auto simp: hm_valid_def pending_of_def List.map_filter_simps set_map_filter image_iff
      split: option.splits)

lemma pending_refused_disjoint: "hm_valid ds \<Longrightarrow> fst ` set (pending_of ds) \<inter> set (refused_of ds) = {}"
  by (fastforce simp: hm_valid_def pending_of_def refused_of_def set_map_filter dest: eq_key_imp_eq_value)

lemma one_root_unique:
  assumes "roots_of ps = [a0]"
  shows "\<exists>m. (a0, m) \<in> set ps \<and> meta_created_by m = None"
    "\<And>a m. (a, m) \<in> set ps \<Longrightarrow> meta_created_by m = None \<Longrightarrow> a = a0"
proof -
  have "set (roots_of ps) = {a0}" using assms by simp
  then show "\<exists>m. (a0, m) \<in> set ps \<and> meta_created_by m = None"
    "\<And>a m. (a, m) \<in> set ps \<Longrightarrow> meta_created_by m = None \<Longrightarrow> a = a0"
    by (auto simp: roots_of_def image_def)
qed

text \<open>The first level of a tree with one root: its batch fails exactly when a root is registered already.\<close>

lemma root_level:
  assumes ps: "hm_valid ps" "roots_of ps = [a0]" "pend = filter (\<lambda>(a, _). a \<notin> fst ` set (orphans_of ps)) ps"
    and fresh: "fst ` set pend \<inter> known (bo_registry st) = {}"
  shows "is_ok (restore_levels env t ix ps pend (a0 # kids) st) \<longleftrightarrow> root_agent (bo_registry st) = None"
proof -
  obtain m0 where m0: "(a0, m0) \<in> set ps" "meta_created_by m0 = None" using one_root_unique [OF ps(2)] by blast
  have "a0 \<notin> fst ` set (orphans_of ps)"
    using m0 ps(1) by (auto simp: orphans_of_def hm_valid_def dest: eq_key_imp_eq_value split: option.splits)
  moreover have vp: "hm_valid pend" using ps(1) by (simp add: ps(3) hm_valid_def distinct_map_filter)
  ultimately have mo: "map_of pend a0 = Some m0" using m0(1) by (auto simp: ps(3) hm_valid_def)
  obtain ts rest where t: "take_tasks kids (AList.delete a0 pend) = (ts, rest)" by fastforce
  have tt: "take_tasks (a0 # kids) pend = ((a0, m0) # ts, rest)" by (simp add: mo t)
  have sub: "set ts \<subseteq> set pend - {p. fst p = a0}" "set rest \<subseteq> set pend - {p. fst p = a0}"
    using take_tasks_subset [OF t] by (auto simp: AList.delete_eq)
  have nr: "meta_created_by m \<noteq> None" if "(a, m) \<in> set ts \<union> set rest" for a m
    using that sub one_root_unique(2) [OF ps(2), of a m] by (auto simp: ps(3))
  obtain rs locks where rl: "restore_level env t ix ((a0, m0) # ts) (bo_locks st) = (rs, locks)" by fastforce
  let ?es = "successes rs @ failures env rs"
  have keys: "mset (map fst ?es) = mset (a0 # map fst ts)"
  proof -
    have "map fst rs = map fst (map (\<lambda>(a, m, _). (a, m)) rs)" by auto
    also have "\<dots> = a0 # map fst ts"
      using restore_level_ids [of env t ix "(a0, m0) # ts" "bo_locks st"] by (simp only: rl fst_conv list.map)
    finally show ?thesis using attempts_mset [of rs env] by simp
  qed
  have "distinct (a0 # map fst ts)"
    using take_tasks_distinct [OF tt] vp by (simp add: hm_valid_def)
  then have d: "distinct (map fst ?es)" using keys by (metis mset_eq_imp_distinct_iff)
  have "a0 \<in> set (map fst ?es)" using keys by (metis list.set_intros(1) set_mset_mset)
  then obtain e where "(a0, e) \<in> set ?es" unfolding set_map by (metis imageE prod.collapse)
  then obtain xs ys where es: "?es = xs @ (a0, e) # ys" by (metis split_list)
  have ent: "\<exists>m. (a, m) \<in> insert (a0, m0) (set ts) \<and> created_by x = meta_created_by m" if "(a, x) \<in> set ?es" for a x
    using level_entry_origin [OF rl that] by simp
  have e: "created_by e = None"
    using ent [of a0 e] sub m0(2) by (auto simp: es)
  have "created_by x \<noteq> None" if bx: "(b, x) \<in> set (xs @ ys)" for b x
  proof -
    have "a0 \<notin> fst ` set (xs @ ys)" using d unfolding es by auto
    moreover have "b \<in> fst ` set (xs @ ys)" using bx by (metis fst_conv image_eqI)
    ultimately have "b \<noteq> a0" by blast
    moreover obtain m where "(b, m) \<in> insert (a0, m0) (set ts)" "created_by x = meta_created_by m"
      using ent [of b x] bx by (auto simp: es)
    ultimately show ?thesis using nr [of b m] by auto
  qed
  then have others: "\<forall>(b, x) \<in> set (xs @ ys). created_by x \<noteq> None" by auto
  have "fst ` set xs \<inter> known (bo_registry st) = {}"
  proof -
    have "fst ` set xs \<subseteq> insert a0 (fst ` set ts)"
      using arg_cong [OF keys, of set_mset] unfolding es by auto
    moreover have "insert a0 (fst ` set ts) \<subseteq> fst ` set pend"
      using sub(1) map_of_SomeD [OF mo] by force
    ultimately show ?thesis using fresh by blast
  qed
  then have b: "is_ok (register_batch ?es (bo_registry st)) \<longleftrightarrow> root_agent (bo_registry st) = None"
    using batch_one_root [of xs a0 e ys "bo_registry st"] d e others by (simp add: es)
  show ?thesis
  proof (cases "register_batch ?es (bo_registry st)")
    case (Inl x)
    then show ?thesis using b by (subst restore_levels.simps) (simp add: tt rl del: restore_level.simps take_tasks.simps)
  next
    case (Inr r)
    have "is_ok (restore_levels env t ix ps rest lv st')" for lv st'
    proof (rule levels_without_roots [OF ps(1)])
      show "set rest \<subseteq> set ps" using sub(2) by (auto simp: ps(3))
      show "\<forall>(a, m) \<in> set rest. a \<in> set lv \<longrightarrow> meta_created_by m \<noteq> None" using nr by auto
    qed
    then show ?thesis using b Inr by (subst restore_levels.simps) (simp add: tt rl del: restore_level.simps take_tasks.simps)
  qed
qed

section \<open>Live entries have passed the checks\<close>

definition vouched :: "restore_env \<Rightarrow> data_tree \<Rightarrow> restore_index \<Rightarrow> (agent_id, agent_meta) hash_map \<Rightarrow> agent_id \<Rightarrow> agent_entry \<Rightarrow> bool" where
  "vouched env t ix ps a e \<longleftrightarrow>
     (\<exists>m ids. (a, m) \<in> set ps \<and> restore_checks env t ix a m = Inr (config (ae_identity e), ae_exec_policy e, ids))"

definition live_vouched ::
  "restore_env \<Rightarrow> data_tree \<Rightarrow> restore_index \<Rightarrow> (agent_id, agent_meta) hash_map \<Rightarrow> agent_registry \<Rightarrow> bool" where
  "live_vouched env t ix ps r \<longleftrightarrow> (\<forall>a e. (a, Live e) \<in> set (rg_agents r) \<longrightarrow> vouched env t ix ps a e)"

lemma set_update: "set (AList.update k v m) \<subseteq> insert (k, v) (set m)"
  by (induction m) auto

lemma vouched_subagents: "vouched env t ix ps a (e\<lparr>ae_subagent_ids := ids\<rparr>) = vouched env t ix ps a e"
  by (simp add: vouched_def)

lemma live_vouched_subagents:
  assumes "\<forall>a e. (a, Live e) \<in> set agents \<longrightarrow> vouched env t ix ps a e"
    "(a, Live e) \<in> set (update_subagents f s agents)"
  shows "vouched env t ix ps a e"
proof (cases "\<exists>b x. s = Some b \<and> map_of agents b = Some x")
  case True
  then obtain b x where b: "s = Some b" "map_of agents b = Some x" by blast
  then have "(b, x) \<in> set agents" by (simp add: map_of_SomeD)
  moreover have "(a, Live e) = (b, set_subagent_ids (f (subagent_ids x)) x) \<or> (a, Live e) \<in> set agents"
    using assms(2) set_update [of b "set_subagent_ids (f (subagent_ids x)) x" agents] b
    by (auto simp: update_subagents_def)
  ultimately show ?thesis using assms(1) by (cases x) (auto simp: vouched_subagents)
next
  case False
  then show ?thesis using assms by (auto simp: update_subagents_def split: option.splits)
qed

lemma live_vouched_register:
  assumes "live_vouched env t ix ps r" "\<And>l. e = Live l \<Longrightarrow> vouched env t ix ps a l"
  shows "live_vouched env t ix ps (register a e r)" "live_vouched env t ix ps (register_no_subagent_push a e r)"
proof -
  note in_upd = subsetD [OF set_update]
  show "live_vouched env t ix ps (register a e r)"
    using assms live_vouched_subagents [of "rg_agents r" env t ix ps]
    by (auto simp: live_vouched_def register_def dest!: in_upd)
  show "live_vouched env t ix ps (register_no_subagent_push a e r)"
    using assms by (auto simp: live_vouched_def register_no_subagent_push_def dest!: in_upd)
qed

lemma live_vouched_batch:
  "live_vouched env t ix ps r \<Longrightarrow> \<forall>(a, e) \<in> set es. \<forall>l. e = Live l \<longrightarrow> vouched env t ix ps a l \<Longrightarrow>
    register_batch es r = Inr r' \<Longrightarrow> live_vouched env t ix ps r'"
proof (induction es r rule: register_batch.induct)
  case (2 a e es r)
  then obtain r1 where r1: "register_restored a e r = Inr r1" "register_batch es r1 = Inr r'"
    by (auto simp: rbind_Inr_iff)
  moreover have "live_vouched env t ix ps r1"
    using 2(2,3) by (auto simp: register_restored_val [OF r1(1)] intro: live_vouched_register)
  ultimately show ?case using 2(1) 2(3) by auto
qed simp

lemma restore_one_vouched:
  assumes "restore_one env t ix (a, m) locks = (Inr e, locks')" "(a, m) \<in> set ps"
  shows "vouched env t ix ps a e"
  using assms by (auto simp: restore_one_def vouched_def Let_def split: sum.splits prod.splits if_splits)

lemma restore_level_vouched:
  "restore_level env t ix ts locks = (rs, locks') \<Longrightarrow> set ts \<subseteq> set ps \<Longrightarrow> (a, m, Inr e) \<in> set rs \<Longrightarrow> vouched env t ix ps a e"
  by (induction env t ix ts locks arbitrary: rs locks' rule: restore_level.induct)
    (auto simp: Let_def split: prod.splits dest: restore_one_vouched)

lemma levels_vouched:
  "restore_levels env t ix ps pend level st = Inr (left, st') \<Longrightarrow> set pend \<subseteq> set ps \<Longrightarrow>
    live_vouched env t ix ps (bo_registry st) \<Longrightarrow> live_vouched env t ix ps (bo_registry st')"
proof (induction env t ix ps pend level st rule: restore_levels.induct)
  case (1 env t ix ps pend level st)
  show ?case
  proof (cases "level = []")
    case True
    then show ?thesis using 1(2,4) by (simp add: restore_levels.simps)
  next
    case False
    obtain tasks rest where tt: "take_tasks level pend = (tasks, rest)" by fastforce
    obtain rs locks where rl: "restore_level env t ix tasks (bo_locks st) = (rs, locks)" by fastforce
    from 1(2) False obtain r where r: "register_batch (successes rs @ failures env rs) (bo_registry st) = Inr r"
      and rec: "restore_levels env t ix ps rest (sort (concat (map (children_of ps \<circ> fst) tasks)))
        \<lparr>bo_registry = r, bo_locks = locks\<rparr> = Inr (left, st')"
      by (subst (asm) restore_levels.simps) (auto simp: tt rl split: sum.splits)
    have sub: "set tasks \<subseteq> set ps" "set rest \<subseteq> set ps" using take_tasks_subset [OF tt] 1(3) by auto
    have "\<forall>(a, e) \<in> set (successes rs @ failures env rs). \<forall>l. e = Live l \<longrightarrow> vouched env t ix ps a l"
      using restore_level_vouched [OF rl sub(1)]
      by (fastforce simp: successes_def failures_def set_map_filter split: sum.splits)
    then have "live_vouched env t ix ps r" using live_vouched_batch [OF 1(4) _ r] by simp
    then show ?thesis using 1(1) [OF False tt [symmetric] refl rl [symmetric] refl r rec sub(2)] by simp
  qed
qed

lemma live_vouched_faulted:
  assumes "live_vouched env t ix ps r"
  shows "live_vouched env t ix ps (register a (Faulted f) r)"
    "live_vouched env t ix ps (register_no_subagent_push a (Faulted f) r)"
  using assms by (auto intro: live_vouched_register)

lemma fold_faulted_vouched:
  assumes "live_vouched env t ix ps r"
  shows "live_vouched env t ix ps (register_refused env rs r)"
    "live_vouched env t ix ps (register_orphans env rs os r)"
    "live_vouched env t ix ps (register_stragglers env os r)"
proof -
  show "live_vouched env t ix ps (register_refused env rs r)"
    using assms by (induction rs arbitrary: r) (auto simp: register_refused_def live_vouched_faulted)
  show "live_vouched env t ix ps (register_orphans env rs os r)"
    using assms by (induction os arbitrary: r) (auto simp: register_orphans_def live_vouched_faulted)
  show "live_vouched env t ix ps (register_stragglers env os r)"
    using assms by (induction os arbitrary: r) (auto simp: register_stragglers_def live_vouched_faulted)
qed

lemma scanned_vouched:
  assumes "restore_scanned env t ps refused st = Inr st'" "rg_agents (bo_registry st) = []"
  shows "live_vouched env t (scan_index t ps) ps (bo_registry st')"
proof -
  have "live_vouched env t (scan_index t ps) ps (bo_registry st)" by (simp add: live_vouched_def assms(2))
  note init = fold_faulted_vouched(1) [OF this]
  show ?thesis
  proof (cases "ps = []")
    case True
    then show ?thesis using assms(1) init by (auto simp: restore_scanned_def Let_def)
  next
    case False
    with assms(1) obtain left st3 pend st2 lv where *:
      "restore_levels env t (scan_index t ps) ps pend lv st2 = Inr (left, st3)" "set pend \<subseteq> set ps"
      "bo_registry st2 = register_orphans env refused (orphans_of ps) (register_refused env refused (bo_registry st))"
      "st' = st3\<lparr>bo_registry := register_stragglers env left (bo_registry st3)\<rparr>"
      by (auto simp: restore_scanned_def Let_def rbind_Inr_iff split: if_splits)
    have "live_vouched env t (scan_index t ps) ps (bo_registry st3)"
      using levels_vouched [OF *(1,2)] fold_faulted_vouched(2) [OF init] by (simp add: *(3))
    then show ?thesis by (simp add: *(4) fold_faulted_vouched(3))
  qed
qed

section \<open>Properties\<close>

lemma boot_scan:
  "restore_agents env Listed t st = restore_scanned env t (pending_of (t AgentsArea)) (refused_of (t AgentsArea)) st"
  by (simp add: restore_agents_def scan_agents_def read_agents_dir_def map_err_def)


text \<open>
  When boot succeeds. From an empty registry the restore reports success exactly when the disk
  holds at most one root and, if it holds one, no directory of the agents area is unreadable. So a single
  corrupted \<open>meta.json\<close> of any agent, beside a healthy root, keeps the tagma from starting: the faulted
  stand-in has no creator, counts as the root, and the real root is refused by \<open>register_root\<close>.
\<close>

theorem boot_outcome:
  assumes "hm_valid (t AgentsArea)" "bo_registry st = with_invalidation s g"
  shows "is_ok (restore_agents env Listed t st) \<longleftrightarrow>
    length (roots_of (pending_of (t AgentsArea))) \<le> 1 \<and>
    (roots_of (pending_of (t AgentsArea)) = [] \<or> refused_of (t AgentsArea) = [])"
proof -
  let ?ps = "pending_of (t AgentsArea)" and ?rs = "refused_of (t AgentsArea)"
  let ?os = "orphans_of ?ps" and ?pend = "filter (\<lambda>(a, _). a \<notin> fst ` set (orphans_of ?ps)) ?ps"
  let ?r1 = "register_refused env ?rs (bo_registry st)"
  let ?st2 = "st\<lparr>bo_registry := register_orphans env ?rs ?os ?r1\<rparr>"
  let ?kids = "sort (concat (map (children_of ?ps \<circ> fst) ?os))"
  have vps: "hm_valid ?ps" using pending_valid [OF assms(1)] .
  have none: "known (bo_registry st) = {}" "root_agent (bo_registry st) = None"
    by (simp_all add: assms(2) known_def registry_get_def with_invalidation_def root_agent_def)
  have os: "set ?os \<subseteq> set ?ps" "\<forall>(a, m) \<in> set ?os. meta_created_by m \<noteq> None" "distinct (map fst ?os)"
    using vps by (auto simp: orphans_of_def hm_valid_def distinct_map_filter split: option.splits)
  have disj: "fst ` set ?ps \<inter> set ?rs = {}" using pending_refused_disjoint [OF assms(1)] .
  have known1: "known ?r1 = set ?rs" by (simp add: known_refused none)
  have "fst ` set ?os \<inter> known ?r1 = {}" using os(1) disj by (auto simp: known1)
  note orph = orphans_rooted [OF os(3) this os(2), of env ?rs]
  have rooted: "root_agent (bo_registry ?st2) = None \<longleftrightarrow> ?rs = []"
  proof (cases "?rs = []")
    case True
    then have "root_agent ?r1 = None" using none(2) by (simp add: register_refused_def)
    with orph True show ?thesis by simp
  next
    case False
    with orph register_refused_rooted [OF False] show ?thesis by simp
  qed
  have dj: "fst ` set ?pend \<inter> known (bo_registry ?st2) = {}"
    using disj by (force simp: known_orphans known1)
  have levels: "is_ok (restore_levels env t (scan_index t ?ps) ?ps ?pend (sort (roots_of ?ps) @ ?kids) ?st2) \<longleftrightarrow>
      roots_of ?ps = [] \<or> ?rs = []" if "length (roots_of ?ps) \<le> 1"
  proof (cases "roots_of ?ps")
    case Nil
    then have "meta_created_by m \<noteq> None" if "(a, m) \<in> set ?ps" for a m
      using that by (auto simp: roots_of_def filter_empty_conv)
    then have "is_ok (restore_levels env t (scan_index t ?ps) ?ps ?pend ?kids ?st2)"
      using vps by (intro levels_without_roots) auto
    with Nil show ?thesis by simp
  next
    case (Cons a0 as)
    then have one: "roots_of ?ps = [a0]" using that by simp
    show ?thesis using root_level [OF vps one refl dj, of env t "scan_index t ?ps" ?kids] rooted by (simp add: one)
  qed
  show ?thesis
  proof (cases "?ps = []")
    case True
    then show ?thesis by (simp add: boot_scan restore_scanned_def Let_def roots_of_def)
  next
    case False
    have "restore_agents env Listed t st =
      (if length (roots_of ?ps) > 1 then Inl (MultipleRoots (length (roots_of ?ps)))
       else rbind (restore_levels env t (scan_index t ?ps) ?ps ?pend (sort (roots_of ?ps) @ ?kids) ?st2) (\<lambda>(left, st3).
              Inr (st3\<lparr>bo_registry := register_stragglers env left (bo_registry st3)\<rparr>)))"
      using False by (simp add: boot_scan restore_scanned_def Let_def)
    moreover have "is_ok (rbind x (\<lambda>(left, st3). Inr (st3\<lparr>bo_registry := register_stragglers env left (bo_registry st3)\<rparr>))) = is_ok x"
      for x :: "boot_err + (agent_id, agent_meta) hash_map \<times> boot" by (cases x) auto
    ultimately show ?thesis using levels by simp
  qed
qed


section \<open>Witnesses\<close>

definition boot_env :: restore_env where
  "boot_env = \<lparr>re_canonicalize = \<lambda>s. Some (if s = ''/w'' then [''w''] else [''d'']), re_lock_fs = \<lambda>_ _. None, re_root = [''d''],
     re_load = Inr, re_body_ok = \<lambda>_. True, re_spawn_ok = \<lambda>_. True, re_token = \<lambda>a. a, re_default_set = ''main'',
     re_baseline = \<lambda>_. Ask, re_show = \<lambda>_. [], re_now = 0\<rparr>"

definition empty_boot :: boot where
  "empty_boot = \<lparr>bo_registry = with_invalidation False 0, bo_locks = []\<rparr>"

definition root_meta :: agent_meta where
  "root_meta = \<lparr>meta_created_by = None, meta_workspace_root = [''w''], meta_permissions_class = Guest, meta_role = ''root'',
     meta_description = [], meta_profile_set = None, meta_delegation_mode = CarveOut\<rparr>"

definition kid_meta :: agent_meta where
  "kid_meta = root_meta\<lparr>meta_created_by := Some ''r'', meta_role := ''dev''\<rparr>"

definition fleet_tree :: data_tree where
  "fleet_tree = (\<lambda>_. [])(AgentsArea := [(''k'', fresh_body (Some kid_meta)), (''r'', fresh_body (Some root_meta))])"

definition torn_tree :: data_tree where
  "torn_tree = (\<lambda>_. [])(AgentsArea := [(''r'', fresh_body (Some root_meta)), (''x'', fresh_body None)])"

definition kid_after :: "boot \<Rightarrow> agent_entry option" where
  "kid_after st = Option.bind (registry_get (bo_registry st) ''k'') as_live"

theorem boot_outcome_witness:
  "\<not> is_ok (restore_agents boot_env Listed torn_tree empty_boot)"
proof -
  have v: "hm_valid (torn_tree AgentsArea)" by (simp add: torn_tree_def hm_valid_def)
  have e: "bo_registry empty_boot = with_invalidation False 0" by (simp add: empty_boot_def)
  have "roots_of (pending_of (torn_tree AgentsArea)) = [''r'']" "refused_of (torn_tree AgentsArea) = [''x'']"
    by (simp_all add: torn_tree_def roots_of_def pending_of_def refused_of_def List.map_filter_simps fresh_body_def root_meta_def)
  then show ?thesis using boot_outcome [where t = torn_tree and env = boot_env, OF v e] by simp
qed

lemma boot_env_fields [simp]:
  "re_load boot_env = Inr" "re_body_ok boot_env = (\<lambda>_. True)" "re_spawn_ok boot_env = (\<lambda>_. True)"
  "re_baseline boot_env = (\<lambda>_. Ask)" "re_token boot_env = (\<lambda>a. a)"
  by (simp_all add: boot_env_def)

lemma sample_meta_fields [simp]:
  "meta_created_by root_meta = None" "meta_workspace_root root_meta = [''w'']" "meta_permissions_class root_meta = Guest"
  "meta_delegation_mode root_meta = CarveOut" "meta_created_by kid_meta = Some ''r''" "meta_workspace_root kid_meta = [''w'']"
  "meta_permissions_class kid_meta = Guest" "meta_delegation_mode kid_meta = CarveOut"
  by (simp_all add: root_meta_def kid_meta_def)

lemma fleet_pending [simp]: "pending_of (fleet_tree AgentsArea) = [(''k'', kid_meta), (''r'', root_meta)]"
  "refused_of (fleet_tree AgentsArea) = []"
  by (simp_all add: fleet_tree_def pending_of_def refused_of_def List.map_filter_simps fresh_body_def)

definition fleet_index :: restore_index where
  "fleet_index = scan_index fleet_tree [(''k'', kid_meta), (''r'', root_meta)]"

lemma fleet_lookup [simp]:
  "get_exec_policy (disk_of fleet_tree) fleet_index ''k'' = Some \<lparr>overrides = []\<rparr>"
  "get_exec_policy (disk_of fleet_tree) fleet_index ''r'' = Some \<lparr>overrides = []\<rparr>"
  "get_meta (disk_of fleet_tree) fleet_index ''r'' = Some root_meta"
  by (simp_all add: fleet_index_def get_exec_policy_def get_meta_def scan_index_def disk_of_def fleet_tree_def
      List.map_filter_simps fresh_body_def)

lemma fleet_disjoint [simp]:
  "ensure_workspace_disjoint (re_canonicalize boot_env) (re_root boot_env) ''/w'' = Inr ()" "display_path [''w''] = ''/w''"
  by (simp_all add: ensure_workspace_disjoint_def workspace_overlaps_data_root_def canonical_data_root_def boot_env_def display_path_def)

lemma fleet_checks:
  "restore_checks boot_env fleet_tree fleet_index ''r'' root_meta =
     Inr (restored_config boot_env ''/w'' root_meta DEFAULT_MAX_DEPTH, \<lparr>overrides = []\<rparr>, [])"
  "restore_checks boot_env fleet_tree fleet_index ''k'' kid_meta =
     Inr (restored_config boot_env ''/w'' kid_meta (sat_sub DEFAULT_MAX_DEPTH 1), \<lparr>overrides = []\<rparr>, [''r''])"
proof -
  show "restore_checks boot_env fleet_tree fleet_index ''r'' root_meta =
     Inr (restored_config boot_env ''/w'' root_meta DEFAULT_MAX_DEPTH, \<lparr>overrides = []\<rparr>, [])"
    by (simp add: restore_checks_def map_err_def restore_chain_checks_def)
  have "load_chain (disk_of fleet_tree) fleet_index [] ''r'' =
      Inr [\<lparr>cn_agent_id = ''r'', cn_meta = root_meta, cn_exec_policy = \<lparr>overrides = []\<rparr>\<rparr>]"
    by (subst load_chain.simps) simp
  moreover have "exec_window_check (\<lambda>_. Ask) ''k'' \<lparr>overrides = []\<rparr> \<lparr>overrides = []\<rparr> = Inr ()"
    by (simp add: exec_window_ok stricter_def)
  ultimately show "restore_checks boot_env fleet_tree fleet_index ''k'' kid_meta =
     Inr (restored_config boot_env ''/w'' kid_meta (sat_sub DEFAULT_MAX_DEPTH 1), \<lparr>overrides = []\<rparr>, [''r''])"
    by (simp add: restore_checks_def map_err_def restore_chain_checks_def load_supervisor_chain_def
        validate_depth_from_chain_def validate_permission_class_from_chain_def class_window_check_def node_class_def
        validate_exec_policy_from_chain_def)
qed

definition fleet_entry :: "agent_id \<Rightarrow> agent_meta \<Rightarrow> u8 \<Rightarrow> agent_entry" where
  "fleet_entry a m d = \<lparr>ae_identity = \<lparr>config = restored_config boot_env ''/w'' m d,
     agent_dir = Some (agent_dir_string boot_env a)\<rparr>, ae_auth_token_hash = a, ae_subagent_ids = [],
     ae_exec_policy = \<lparr>overrides = []\<rparr>\<rparr>"

lemma fleet_one:
  "restore_one boot_env fleet_tree fleet_index (''r'', root_meta) [] = (Inr (fleet_entry ''r'' root_meta DEFAULT_MAX_DEPTH), [])"
  "restore_one boot_env fleet_tree fleet_index (''k'', kid_meta) [] =
     (Inr (fleet_entry ''k'' kid_meta (sat_sub DEFAULT_MAX_DEPTH 1)), [])"
  by (simp_all add: restore_one_def fleet_checks establish_workspace_lock_def try_acquire_workspace_lock_def
      restored_config_def fleet_entry_def)

lemma fleet_boot: "\<exists>st' e. restore_agents boot_env Listed fleet_tree empty_boot = Inr st' \<and>
  registry_get (bo_registry st') ''k'' = Some (Live e) \<and> created_by (Live e) = Some ''r''"
proof -
  let ?ps = "[(''k'', kid_meta), (''r'', root_meta)]"
  let ?r = "register ''r'' (Live (fleet_entry ''r'' root_meta DEFAULT_MAX_DEPTH)) (with_invalidation False 0)"
  let ?k = "Live (fleet_entry ''k'' kid_meta (sat_sub DEFAULT_MAX_DEPTH 1))"
  have lists: "orphans_of ?ps = []" "roots_of ?ps = [''r'']" "children_of ?ps ''r'' = [''k'']" "children_of ?ps ''k'' = []"
    by (simp_all add: orphans_of_def roots_of_def children_of_def)
  have cb: "created_by (Live (fleet_entry a m d)) = meta_created_by m" for a m d
    by (simp add: created_by_def fleet_entry_def restored_config_def)
  then have roots: "is_root (config (identity_of (Live (fleet_entry a m d)))) = (meta_created_by m = None)" for a m d
    by (simp add: is_root_def created_by_def)
  have reg: "register_restored ''r'' (Live (fleet_entry ''r'' root_meta DEFAULT_MAX_DEPTH)) (with_invalidation False 0) = Inr ?r"
    "register_restored ''k'' ?k ?r = Inr (register ''k'' ?k ?r)"
    by (simp_all only: register_restored_def roots sample_meta_fields)
      (simp_all add: register_root_def cb map_err_def root_agent_def with_invalidation_def)
  have lv: "restore_levels boot_env fleet_tree fleet_index ?ps [] [] st = Inr ([], st)" for st
    by (simp add: restore_levels.simps)
  have l1: "restore_levels boot_env fleet_tree fleet_index ?ps [(''k'', kid_meta)] [''k''] \<lparr>bo_registry = ?r, bo_locks = []\<rparr> =
      Inr ([], \<lparr>bo_registry = register ''k'' ?k ?r, bo_locks = []\<rparr>)"
    by (subst restore_levels.simps) (simp add: fleet_one successes_def failures_def List.map_filter_simps reg lists lv)
  have l0: "restore_levels boot_env fleet_tree fleet_index ?ps ?ps [''r''] empty_boot =
      Inr ([], \<lparr>bo_registry = register ''k'' ?k ?r, bo_locks = []\<rparr>)"
    by (subst restore_levels.simps)
      (simp add: empty_boot_def fleet_one successes_def failures_def List.map_filter_simps reg lists l1)
  have "restore_agents boot_env Listed fleet_tree empty_boot = Inr \<lparr>bo_registry = register ''k'' ?k ?r, bo_locks = []\<rparr>"
    using l0 by (simp add: boot_scan restore_scanned_def Let_def lists fleet_index_def register_refused_def register_orphans_def
        register_stragglers_def)
  moreover have "registry_get (bo_registry \<lparr>bo_registry = register ''k'' ?k ?r, bo_locks = []\<rparr>) ''k'' = Some ?k"
    by (simp only: boot.select_convs registry_get_register)
  moreover have "created_by ?k = Some ''r''" by (simp only: cb sample_meta_fields)
  ultimately show ?thesis by (intro exI conjI)
qed



end
