(* ===== verification/Agent_Spawn.thy ===== *)
theory Agent_Spawn
  imports Boot_Restore Delivery
begin

text \<open>
  The life of a subagent (\<open>kallip-tagma/src/routes/agent.rs\<close>, \<open>routes/agent/permissions.rs\<close> and
  \<open>lifecycle/spawn.rs\<close>): the reference monitor that validates a spawn, the slot reservation, the
  Materialize pipeline with its rollbacks, removal, metadata and profile updates, interruption.

  The state of the tagma here is the registry, the runtime handles, the inbox, the duty board, the lock
  table, the directories on disk, the profile sets with the default, the two limits, whether a shell runs
  under an agent (its exec gate), and the pending profile resets. The identity and token of a new agent,
  the outcomes of file operations, skill loading and task start are arguments; \<open>se_gap\<close> stands for what
  other tasks do while the new task is being started, with no registry lock held.
\<close>

section \<open>State\<close>

record fleet =
  fl_registry :: agent_registry
  fl_handles :: "agent_id \<Rightarrow> agent_handle"
  fl_inbox :: "inbox_store option"
  fl_duty :: duty_store
  fl_locks :: dir_map
  fl_tree :: data_tree
  fl_sets :: "string list"
  fl_default_set :: string
  fl_max_agents :: nat
  fl_max_subagents :: nat
  fl_shell :: "agent_id \<Rightarrow> bool"
  fl_resets :: "agent_id \<Rightarrow> string option"
  fl_queue_size :: nat

record spawn_env =
  se_id :: agent_id
  se_token :: token_hash
  se_canonicalize :: "string \<Rightarrow> path option"
  se_lock_fs :: "nat \<Rightarrow> string \<Rightarrow> path option"
  se_root :: path
  se_create :: create_outcome
  se_skill_ok :: "string \<Rightarrow> bool"
  se_pin_ok :: "string \<Rightarrow> bool"
  se_policy_ok :: bool
  se_spawn_ok :: bool
  se_rmdir_ok :: bool
  se_gap :: "fleet \<Rightarrow> fleet"

section \<open>The reference monitor\<close>

definition parse_requested_class :: "string \<Rightarrow> delivery_err + permission_class" where
  "parse_requested_class raw = map_err BadRequest (class_from_str raw)"

definition resolve_granted_class :: "permission_class \<Rightarrow> permission_class \<Rightarrow> delivery_err + permission_class" where
  "resolve_granted_class boss requested =
     (if boss < requested then Inl (Api (Forbidden ''requested permission class exceeds supervisor's''))
      else Inr requested)"

definition handoff_child :: "agent_registry \<Rightarrow> agent_id \<Rightarrow> bool" where
  "handoff_child rg c =
     (case registry_get rg c of None \<Rightarrow> False | Some e \<Rightarrow> cfg_delegation_mode (config (identity_of e)) = FullHandoff)"

definition require_that :: "bool \<Rightarrow> 'e \<Rightarrow> 'e + unit" where
  "require_that c e = (if c then Inr () else Inl e)"

definition validate_subagent_request ::
  "(string \<Rightarrow> path option) \<Rightarrow> agent_registry \<Rightarrow> identity \<Rightarrow> agent_id \<Rightarrow> string \<Rightarrow> permission_class \<Rightarrow> delegation_mode \<Rightarrow>
   delivery_err + (permission_profile \<times> exec_policy \<times> permission_class)" where
  "validate_subagent_request cz rg who boss_id ws cls mode =
     rbind (map_err Api (require_supervisor rg who boss_id)) (\<lambda>entry.
     rbind (ok_or (Api (Conflict ''supervisor is faulted; cannot spawn subagents'')) (as_live entry)) (\<lambda>boss.
     (let existing = ae_subagent_ids boss;
          perms = cfg_permissions (config (ae_identity boss));
          handoff = (mode = FullHandoff)
      in rbind (require_that (\<not> (handoff \<and> existing \<noteq> []))
                  (Api (Conflict ''a full-handoff subagent requires the supervisor to have no other subagents; remove them first''))) (\<lambda>_.
         rbind (require_that (\<not> list_ex (handoff_child rg) existing)
                  (Api (Conflict ''supervisor already has a full-handoff subagent; remove it before spawning others''))) (\<lambda>_.
         rbind (require_that (max_depth perms \<noteq> 0)
                  (Api (Forbidden ''supervisor has no remaining delegation depth''))) (\<lambda>_.
         rbind (ok_or (BadRequest ''invalid workspace_root'') (cz ws)) (\<lambda>sub.
         rbind (require_that (starts_with sub (components (boundary_root perms)))
                  (Api (Forbidden ''workspace_root must be within supervisor's workspace''))) (\<lambda>_.
         rbind (require_that (\<not> (handoff \<and> sub \<noteq> components (boundary_root perms)))
                  (BadRequest ''full_handoff requires the subagent workspace to be the supervisor's entire workspace root'')) (\<lambda>_.
         rbind (resolve_granted_class (cfg_permissions_class (config (ae_identity boss))) cls) (\<lambda>granted.
         rbind (require_that (\<not> (handoff \<and> granted \<noteq> Normal))
                  (BadRequest ''full-handoff requires permission_class normal'')) (\<lambda>_.
           Inr (subagent_profile (display_path sub) (max_depth perms), ae_exec_policy boss, granted))))))))))))"

section \<open>Slots\<close>

definition set_registry_entry :: "agent_id \<Rightarrow> registry_entry \<Rightarrow> agent_registry \<Rightarrow> agent_registry" where
  "set_registry_entry a e rg = rg\<lparr>rg_agents := AList.update a e (rg_agents rg)\<rparr>"

definition edit_children ::
  "(agent_id list \<Rightarrow> agent_id list) \<Rightarrow> agent_id option \<Rightarrow> agent_registry \<Rightarrow> agent_registry" where
  "edit_children f boss rg = rg\<lparr>rg_agents := update_subagents f boss (rg_agents rg)\<rparr>"

definition retract_slot :: "agent_id option \<Rightarrow> agent_id \<Rightarrow> agent_registry \<Rightarrow> agent_registry" where
  "retract_slot boss a = edit_children (filter (\<lambda>sid. sid \<noteq> a)) boss"

definition role_holder :: "agent_registry \<Rightarrow> string \<Rightarrow> agent_id option" where
  "role_holder rg role =
     map_option fst (List.find (\<lambda>(_, e). cfg_role (config (identity_of e)) = role) (rg_agents rg))"

definition reserve_slot ::
  "spawn_env \<Rightarrow> identity \<Rightarrow> agent_id \<Rightarrow> agent_config \<Rightarrow> permission_class \<Rightarrow> fleet \<Rightarrow>
   delivery_err + (agent_config \<times> exec_policy \<times> fleet)" where
  "reserve_slot env who boss cfg cls fl =
     (let rg = fl_registry fl in
      rbind (require_that (role_holder rg (cfg_role cfg) = None) (Api (Conflict ''role is already held''))) (\<lambda>_.
      rbind (validate_subagent_request (se_canonicalize env) rg who boss (cfg_workspace_root cfg) cls (cfg_delegation_mode cfg)) (\<lambda>(perms, pol, granted).
      rbind (ok_or (Api (NotFound ''supervisor not found'')) (registry_get rg boss)) (\<lambda>entry.
      rbind (require_that (length (subagent_ids entry) < fl_max_subagents fl)
               (Api (Unavailable ''supervisor has all its subagents, cannot create more''))) (\<lambda>_.
        Inr (cfg\<lparr>cfg_created_by := Some boss, cfg_permissions := perms, cfg_permissions_class := granted\<rparr>, pol,
             fl\<lparr>fl_registry := edit_children (\<lambda>ids. ids @ [se_id env]) (Some boss) rg\<rparr>))))))"

section \<open>Materialize\<close>

definition remove_agent_dir :: "spawn_env \<Rightarrow> agent_id \<Rightarrow> fleet \<Rightarrow> fleet" where
  "remove_agent_dir env a fl = (if se_rmdir_ok env then fl\<lparr>fl_tree := drop_body AgentsArea a (fl_tree fl)\<rparr> else fl)"

definition rollback_unspawned_create :: "spawn_env \<Rightarrow> agent_id option \<Rightarrow> fleet \<Rightarrow> fleet" where
  "rollback_unspawned_create env boss fl =
     remove_agent_dir env (se_id env) (fl\<lparr>fl_registry := retract_slot boss (se_id env) (fl_registry fl)\<rparr>)"

definition meta_of :: "agent_config \<Rightarrow> agent_meta" where
  "meta_of c = \<lparr>meta_created_by = cfg_created_by c, meta_workspace_root = components (cfg_workspace_root c),
     meta_permissions_class = cfg_permissions_class c, meta_role = cfg_role c, meta_description = cfg_description c,
     meta_profile_set = cfg_profile_set c, meta_delegation_mode = cfg_delegation_mode c\<rparr>"

fun load_skills :: "spawn_env \<Rightarrow> string list \<Rightarrow> delivery_err + unit" where
  "load_skills env [] = Inr ()"
| "load_skills env (s # ss) =
     (if \<not> se_skill_ok env s then Inl (BadRequest ''skill cannot be loaded'')
      else if \<not> se_pin_ok env s then Inl (Api (Internal ''skill cannot be pinned''))
      else load_skills env ss)"

definition set_exec_policy :: "agent_id \<Rightarrow> exec_policy \<Rightarrow> data_tree \<Rightarrow> data_tree" where
  "set_exec_policy a pol t =
     (case body_at t AgentsArea a of None \<Rightarrow> t | Some b \<Rightarrow> put_body AgentsArea a (b\<lparr>ab_exec := Some pol\<rparr>) t)"

definition spawn_chain :: "agent_registry \<Rightarrow> agent_config \<Rightarrow> api_err + agent_id list" where
  "spawn_chain rg cfg = (case cfg_created_by cfg of None \<Rightarrow> Inr [] | Some s \<Rightarrow> supervisor_chain_ids rg s)"

definition shell_in_flight :: "fleet \<Rightarrow> agent_id option \<Rightarrow> bool" where
  "shell_in_flight fl boss =
     (case boss of
        None \<Rightarrow> False
      | Some s \<Rightarrow> Option.bind (registry_get (fl_registry fl) s) as_live \<noteq> None \<and> fl_shell fl s)"

text \<open>The steps up to the workspace lock; every failure after the directory exists rolls back.\<close>

definition prepare ::
  "spawn_env \<Rightarrow> agent_config \<Rightarrow> exec_policy \<Rightarrow> agent_id option \<Rightarrow> string list \<Rightarrow> fleet \<Rightarrow>
   (delivery_err + established_lock) \<times> fleet" where
  "prepare env cfg pol boss skills fl =
     (case create_agent_dir (se_create env) (se_id env) (meta_of cfg) (fl_tree fl) of
        (Inl _, t) \<Rightarrow> (Inl (Api (Internal ''agent directory'')), fl\<lparr>fl_tree := t\<rparr>)
      | (Inr _, t) \<Rightarrow>
          (let fl1 = fl\<lparr>fl_tree := t\<rparr>;
               back_out = rollback_unspawned_create env boss
           in case load_skills env skills of
                Inl e \<Rightarrow> (Inl e, back_out fl1)
              | Inr _ \<Rightarrow>
                  if \<not> se_policy_ok env then (Inl (Api (Internal ''exec policy not written'')), back_out fl1)
                  else
                    (let fl2 = fl1\<lparr>fl_tree := set_exec_policy (se_id env) pol t\<rparr>
                     in case spawn_chain (fl_registry fl2) cfg of
                          Inl e \<Rightarrow> (Inl (Api e), back_out fl2)
                        | Inr chain \<Rightarrow>
                            if shell_in_flight fl2 (cfg_created_by cfg)
                            then (Inl (Api (Conflict ''supervisor has an in-flight shell'')), back_out fl2)
                            else (case establish_workspace_lock (se_lock_fs env) (se_id env) cfg chain (fl_locks fl2) of
                                    (Inl e, locks) \<Rightarrow>
                                      (Inl (case establish_lock_api_error e of
                                              HttpConflict \<Rightarrow> Api (Conflict ''workspace lock'')
                                            | HttpBadRequest \<Rightarrow> BadRequest ''workspace lock''
                                            | HttpInternal \<Rightarrow> Api (Internal ''workspace lock'')),
                                       back_out (fl2\<lparr>fl_locks := locks\<rparr>))
                                  | (Inr est, locks) \<Rightarrow> (Inr est, fl2\<lparr>fl_locks := locks\<rparr>)))))"

definition drop_lock :: "spawn_env \<Rightarrow> established_lock \<Rightarrow> fleet \<Rightarrow> fleet" where
  "drop_lock env est fl = fl\<lparr>fl_locks := drop_established (se_lock_fs env 3) est (fl_locks fl)\<rparr>"

definition new_handle :: "nat \<Rightarrow> agent_handle" where
  "new_handle cap = \<lparr>ah_queue = [], ah_capacity = cap, ah_closed = False, ah_notify = False, ah_state = Idle,
     ah_parked = None, ah_round = None\<rparr>"

definition new_entry :: "spawn_env \<Rightarrow> agent_config \<Rightarrow> exec_policy \<Rightarrow> agent_entry" where
  "new_entry env cfg pol =
     \<lparr>ae_identity = \<lparr>config = cfg, agent_dir = Some (display_path (dir_of (se_root env) AgentsArea (se_id env)))\<rparr>,
      ae_auth_token_hash = se_token env, ae_subagent_ids = [], ae_exec_policy = pol\<rparr>"

text \<open>The critical section at the end: the agent cap, the supervisor check, the registration.\<close>

definition install_agent ::
  "spawn_env \<Rightarrow> agent_config \<Rightarrow> exec_policy \<Rightarrow> agent_id option \<Rightarrow> established_lock \<Rightarrow> fleet \<Rightarrow>
   (delivery_err + agent_id) \<times> fleet" where
  "install_agent env cfg pol boss est fl =
     (let a = se_id env; rg = fl_registry fl; entry = Live (new_entry env cfg pol);
          seated = (\<lambda>rg'. (Inr a, drop_lock env (disarm est)
                     (fl\<lparr>fl_registry := rg', fl_handles := (fl_handles fl)(a := new_handle (fl_queue_size fl))\<rparr>)))
      in if fl_max_agents fl \<le> length (rg_agents rg)
         then (Inl (Api (Unavailable ''agent limit reached, remove agents to create new ones'')),
               drop_lock env est (remove_agent_dir env a (fl\<lparr>fl_registry := retract_slot boss a rg\<rparr>)))
         else if boss \<noteq> None \<and> registry_get rg (the boss) = None
         then (Inl (Api (Internal ''supervisor agent was removed during creation'')),
               drop_lock env est (remove_agent_dir env a fl))
         else if is_root cfg
         then (case register_root a entry rg of
                 Inl e \<Rightarrow> (Inl (Api e), drop_lock env est fl)
               | Inr rg' \<Rightarrow> seated rg')
         else seated (register_no_subagent_push a entry rg))"

definition materialize ::
  "spawn_env \<Rightarrow> agent_config \<Rightarrow> exec_policy \<Rightarrow> agent_id option \<Rightarrow> string list \<Rightarrow> fleet \<Rightarrow>
   (delivery_err + agent_id) \<times> fleet" where
  "materialize env cfg pol boss skills fl =
     (if recorded_set (fl_sets fl) (cfg_profile_set cfg) = None \<and> \<not> is_root cfg
      then (Inl (BadRequest ''unknown profile set''), fl)
      else case prepare env cfg pol boss skills fl of
             (Inl e, fl1) \<Rightarrow> (Inl e, fl1)
           | (Inr est, fl1) \<Rightarrow>
               if \<not> se_spawn_ok env
               then (Inl (Api (Internal ''agent task not started'')),
                     drop_lock env est (rollback_unspawned_create env boss fl1))
               else install_agent env cfg pol boss est (se_gap env fl1))"

section \<open>Creating agents\<close>

definition spawn_subagent ::
  "spawn_env \<Rightarrow> identity \<Rightarrow> agent_id \<Rightarrow> agent_config \<Rightarrow> permission_class \<Rightarrow> string list \<Rightarrow> fleet \<Rightarrow>
   (delivery_err + agent_id) \<times> fleet" where
  "spawn_subagent env who boss cfg cls skills fl =
     (case ensure_workspace_disjoint (se_canonicalize env) (se_root env) (cfg_workspace_root cfg) of
        Inl _ \<Rightarrow> (Inl (Api (Conflict ''workspace_root overlaps the tagma data directory'')), fl)
      | Inr _ \<Rightarrow>
          (case reserve_slot env who boss cfg cls fl of
             Inl e \<Rightarrow> (Inl e, fl)
           | Inr (cfg', pol, fl1) \<Rightarrow> materialize env cfg' pol (Some boss) skills fl1))"

record create_request =
  cr_created_by :: "agent_id option"
  cr_workspace_root :: string
  cr_skills :: "string list"
  cr_max_tool_rounds :: "nat option option"
  cr_role :: string
  cr_description :: string
  cr_delegation_mode :: "string option"
  cr_profile_set :: string
  cr_permission_class :: string

text \<open>\<open>load\<close> is the configuration loader: the resolved workspace, or the refusal.\<close>

definition create_agent ::
  "spawn_env \<Rightarrow> (string \<Rightarrow> string + string) \<Rightarrow> identity \<Rightarrow> create_request \<Rightarrow> fleet \<Rightarrow> (delivery_err + agent_id) \<times> fleet" where
  "create_agent env loader who req fl =
     (case rbind (ok_or (Api (Conflict ''root agent is managed by the tagma; spawn a subagent with 'created_by' set'')) (cr_created_by req)) (\<lambda>boss.
           rbind (map_err BadRequest (loader (cr_workspace_root req))) (\<lambda>ws.
           rbind (require_that (cr_max_tool_rounds req \<noteq> Some (Some 0)) (BadRequest ''max_tool_rounds must be greater than zero'')) (\<lambda>_.
           rbind (map_err BadRequest (delegation_from_str
                    (case cr_delegation_mode req of None \<Rightarrow> ''carve_out'' | Some m \<Rightarrow> m))) (\<lambda>mode.
           rbind (require_that (trim (cr_role req) \<noteq> []) (BadRequest ''subagent requires a non-empty role'')) (\<lambda>_.
           rbind (map_err (\<lambda>_. Api (Conflict ''workspace_root overlaps the tagma data directory''))
                    (ensure_workspace_disjoint (se_canonicalize env) (se_root env) ws)) (\<lambda>_.
           rbind (parse_requested_class (cr_permission_class req)) (\<lambda>cls.
             Inr (boss, cls,
               \<lparr>cfg_created_by = None, cfg_workspace_root = ws, cfg_permissions_class = Normal,
                cfg_delegation_mode = mode, cfg_role = cr_role req, cfg_description = cr_description req,
                cfg_profile_set = Some (cr_profile_set req), cfg_permissions = new_profile ws\<rparr>)))))))) of
        Inl e \<Rightarrow> (Inl e, fl)
      | Inr (boss, cls, cfg) \<Rightarrow> spawn_subagent env who boss cfg cls (cr_skills req) fl)"

datatype root_outcome = RootPresent | RootRefused | RootCreated agent_id

definition ensure_root_agent ::
  "spawn_env \<Rightarrow> (string option \<Rightarrow> string + string) \<Rightarrow> permission_class \<Rightarrow> listing \<Rightarrow> fleet \<Rightarrow> root_outcome \<times> fleet" where
  "ensure_root_agent env loader cls l fl =
     (if root_agent (fl_registry fl) \<noteq> None then (RootPresent, fl)
      else case find_disk_root l (fl_tree fl) of
             Inl _ \<Rightarrow> (RootRefused, fl)
           | Inr (Some _) \<Rightarrow> (RootRefused, fl)
           | Inr None \<Rightarrow>
               (case loader None of
                  Inl _ \<Rightarrow> (RootRefused, fl)
                | Inr ws \<Rightarrow>
                    if ensure_workspace_disjoint (se_canonicalize env) (se_root env) ws \<noteq> Inr () then (RootRefused, fl)
                    else
                      (case materialize env
                              \<lparr>cfg_created_by = None, cfg_workspace_root = ws, cfg_permissions_class = cls,
                               cfg_delegation_mode = CarveOut, cfg_role = ''root'', cfg_description = ''Tagma-owned root agent'',
                               cfg_profile_set = (if fl_default_set fl = [] then None else Some (fl_default_set fl)),
                               cfg_permissions = new_profile ws\<rparr> \<lparr>overrides = []\<rparr> None [] fl of
                         (Inl _, fl1) \<Rightarrow> (RootRefused, fl1)
                       | (Inr a, fl1) \<Rightarrow> (RootCreated a, fl1))))"

section \<open>Removing agents\<close>

definition return_handoff_lock :: "(string \<Rightarrow> path option) \<Rightarrow> agent_id \<Rightarrow> agent_config \<Rightarrow> dir_map \<Rightarrow> dir_map" where
  "return_handoff_lock cz a cfg locks =
     (if cfg_delegation_mode cfg = FullHandoff
      then (case cfg_created_by cfg of None \<Rightarrow> locks | Some s \<Rightarrow> snd (transfer cz a s (cfg_workspace_root cfg) locks))
      else locks)"

definition teardown_agent ::
  "(string \<Rightarrow> path option) \<Rightarrow> bool \<Rightarrow> agent_id \<Rightarrow> registry_entry \<Rightarrow> fleet \<Rightarrow> fleet" where
  "teardown_agent cz cleared a e fl =
     fl\<lparr>fl_locks := release_all a (return_handoff_lock cz a (config (identity_of e)) (fl_locks fl)),
        fl_duty := duty_remove a (fl_duty fl),
        fl_inbox := map_option (clear_for cleared a) (fl_inbox fl),
        fl_handles := (case e of
            Live _ \<Rightarrow> (fl_handles fl)(a := close_channel (fl_handles fl a))
          | Faulted _ \<Rightarrow> fl_handles fl)\<rparr>"

definition remove_check :: "identity \<Rightarrow> agent_id \<Rightarrow> fleet \<Rightarrow> delivery_err + registry_entry" where
  "remove_check who a fl =
     (let rg = fl_registry fl in
      rbind (require_that (\<not> (case root_agent rg of None \<Rightarrow> False | Some (r, e) \<Rightarrow> r = a \<and> as_live e \<noteq> None))
               (Api (Conflict ''root agent is tagma-managed and cannot be removed''))) (\<lambda>_.
      rbind (map_err Api (require_superior rg who a)) (\<lambda>_.
      rbind (ok_or (Api (NotFound ''agent not found'')) (registry_get rg a)) (\<lambda>e.
      rbind (require_that (\<not> (as_live e \<noteq> None \<and> ah_state (fl_handles fl a) = Busied))
               (Api (Conflict ''agent is busy, interrupt it first''))) (\<lambda>_.
      rbind (require_that (subagent_ids e = [])
               (Api (Conflict ''agent has active subagents, remove or interrupt them first''))) (\<lambda>_.
        Inr e))))))"

definition remove_agent ::
  "(string \<Rightarrow> path option) \<Rightarrow> bool \<Rightarrow> move_env \<Rightarrow> identity \<Rightarrow> agent_id \<Rightarrow> fleet \<Rightarrow> (delivery_err + unit) \<times> fleet" where
  "remove_agent cz cleared mv who a fl =
     (case remove_check who a fl of
        Inl e \<Rightarrow> (Inl e, fl)
      | Inr e \<Rightarrow>
          (let fl1 = teardown_agent cz cleared a e (fl\<lparr>fl_registry := snd (unregister a (fl_registry fl))\<rparr>)
           in (Inr (), fl1\<lparr>fl_tree := snd (archive_agent_dir mv a (fl_tree fl1))\<rparr>)))"

section \<open>Interrupting\<close>

definition interrupt_text :: utext where
  "interrupt_text = lit (''[system] you were interrupted while parked in the outer loop (waiting or retrying). ''
     @ ''The wait/retry fuse was dropped; finish with break, or continue if the interruption was unintended.'')"

definition interrupt_core :: "agent_id \<Rightarrow> fleet \<Rightarrow> (delivery_err + unit) \<times> fleet" where
  "interrupt_core a fl =
     (case registry_get (fl_registry fl) a of
        None \<Rightarrow> (Inl (Api (NotFound ''agent not found'')), fl)
      | Some (Faulted _) \<Rightarrow> (Inl (Api (Conflict ''agent is faulted; nothing to interrupt'')), fl)
      | Some (Live _) \<Rightarrow>
          (let h = fl_handles fl a; h1 = h\<lparr>ah_round := map_option (\<lambda>_. True) (ah_round h)\<rparr>
           in if ah_state h = Waiting \<or> ah_state h = Retrying
              then (let (sent, h2) = try_send interrupt_text h1
                    in (if sent then Inr () else Inl (Api (Conflict ''agent prompt queue is full'')),
                        fl\<lparr>fl_handles := (fl_handles fl)(a := h2)\<rparr>))
              else (Inr (), fl\<lparr>fl_handles := (fl_handles fl)(a := h1)\<rparr>)))"

definition interrupt_agent :: "identity \<Rightarrow> agent_id \<Rightarrow> fleet \<Rightarrow> (delivery_err + unit) \<times> fleet" where
  "interrupt_agent who a fl =
     (case require_superior (fl_registry fl) who a of
        Inl e \<Rightarrow> (Inl (Api e), fl)
      | Inr _ \<Rightarrow> interrupt_core a fl)"

section \<open>Metadata and bindings\<close>

definition edit_config :: "(agent_config \<Rightarrow> agent_config) \<Rightarrow> registry_entry \<Rightarrow> registry_entry" where
  "edit_config f e =
     (case e of
        Live l \<Rightarrow> Live (l\<lparr>ae_identity := (ae_identity l)\<lparr>config := f (config (ae_identity l))\<rparr>\<rparr>)
      | Faulted x \<Rightarrow> Faulted (x\<lparr>fe_identity := (fe_identity x)\<lparr>config := f (config (fe_identity x))\<rparr>\<rparr>))"

definition with_field :: "('a \<Rightarrow> agent_config \<Rightarrow> agent_config) \<Rightarrow> 'a option \<Rightarrow> agent_config \<Rightarrow> agent_config" where
  "with_field upd v c = (case v of None \<Rightarrow> c | Some x \<Rightarrow> upd x c)"

definition patch_config ::
  "string option \<Rightarrow> string option \<Rightarrow> string option \<Rightarrow> permission_class option \<Rightarrow> agent_config \<Rightarrow> agent_config" where
  "patch_config role desc pset cls c =
     with_field (\<lambda>x c. c\<lparr>cfg_permissions_class := x\<rparr>) cls
       (with_field (\<lambda>s c. c\<lparr>cfg_profile_set := Some s\<rparr>) pset
         (with_field (\<lambda>d c. c\<lparr>cfg_description := d\<rparr>) desc
           (with_field (\<lambda>r c. c\<lparr>cfg_role := r\<rparr>) role c)))"

definition other_holder :: "agent_registry \<Rightarrow> agent_id \<Rightarrow> string \<Rightarrow> bool" where
  "other_holder rg a role \<longleftrightarrow>
     list_ex (\<lambda>(b, e). b \<noteq> a \<and> cfg_role (config (identity_of e)) = role) (rg_agents rg)"

definition writable_entry :: "agent_registry \<Rightarrow> agent_id \<Rightarrow> delivery_err + registry_entry" where
  "writable_entry rg a =
     rbind (ok_or (Api (NotFound ''agent not found'')) (registry_get rg a)) (\<lambda>e.
     rbind (ok_or (Api (Internal ''agent has no on-disk directory to update'')) (agent_dir (identity_of e))) (\<lambda>_. Inr e))"

definition update_metadata ::
  "bool \<Rightarrow> identity \<Rightarrow> agent_id \<Rightarrow> string option \<Rightarrow> string option \<Rightarrow> fleet \<Rightarrow> (delivery_err + unit) \<times> fleet" where
  "update_metadata wr who a role desc fl =
     (let rg = fl_registry fl in
      case rbind (require_that (\<forall>r \<in> set_option role. trim r \<noteq> []) (BadRequest ''role must not be empty'')) (\<lambda>_.
           rbind (require_that (role \<noteq> None \<or> desc \<noteq> None) (BadRequest ''no fields to update'')) (\<lambda>_.
           rbind (map_err Api (require_direct_supervisor rg who a)) (\<lambda>_.
           rbind (require_that (\<not> (case role of None \<Rightarrow> False | Some r \<Rightarrow> other_holder rg a r))
                    (Api (Conflict ''role is already held''))) (\<lambda>_. writable_entry rg a)))) of
        Inl e \<Rightarrow> (Inl e, fl)
      | Inr e \<Rightarrow>
          (case rewrite_meta wr role desc None None a (fl_tree fl) of
             (Inl _, t) \<Rightarrow> (Inl (Api (Internal ''metadata write failed'')), fl\<lparr>fl_tree := t\<rparr>)
           | (Inr _, t) \<Rightarrow>
               (Inr (), fl\<lparr>fl_tree := t,
                  fl_registry := notify_invalidation (set_registry_entry a (edit_config (patch_config role desc None None) e) rg)\<rparr>)))"

definition signal_profile_reset :: "agent_id \<Rightarrow> string \<Rightarrow> fleet \<Rightarrow> fleet" where
  "signal_profile_reset a s fl =
     fl\<lparr>fl_resets := (fl_resets fl)(a := Some s),
        fl_handles := (fl_handles fl)(a := (fl_handles fl a)\<lparr>ah_notify := True\<rparr>)\<rparr>"

definition update_profile_set ::
  "bool \<Rightarrow> identity \<Rightarrow> agent_id \<Rightarrow> string \<Rightarrow> fleet \<Rightarrow> (delivery_err + unit) \<times> fleet" where
  "update_profile_set wr who a s fl =
     (let rg = fl_registry fl in
      case rbind (require_that (s \<in> set (fl_sets fl)) (BadRequest ''unknown profile set'')) (\<lambda>_.
           rbind (map_err Api (require_superior rg who a)) (\<lambda>_. writable_entry rg a)) of
        Inl e \<Rightarrow> (Inl e, fl)
      | Inr e \<Rightarrow>
          (case rewrite_meta wr None None (Some s) None a (fl_tree fl) of
             (Inl _, t) \<Rightarrow> (Inl (Api (Internal ''metadata write failed'')), fl\<lparr>fl_tree := t\<rparr>)
           | (Inr _, t) \<Rightarrow>
               (let fl1 = fl\<lparr>fl_tree := t,
                      fl_registry := set_registry_entry a (edit_config (patch_config None None (Some s) None) e) rg\<rparr>
                in (Inr (), if as_live e \<noteq> None then signal_profile_reset a s fl1 else fl1))))"

definition verify_agent :: "identity \<Rightarrow> agent_id \<Rightarrow> bool" where
  "verify_agent who a \<longleftrightarrow> who = Agent a"

definition list_agents :: "agent_id option \<Rightarrow> agent_registry \<Rightarrow> (agent_id \<times> registry_entry) list" where
  "list_agents boss rg = filter (\<lambda>(_, e). case boss of None \<Rightarrow> True | Some s \<Rightarrow> created_by e = Some s) (rg_agents rg)"

section \<open>Slots and their withdrawal\<close>

lemma require_that_Inr [simp]: "require_that c e = Inr x \<longleftrightarrow> c"
  by (auto simp: require_that_def)

lemma map_err_Inr [simp]: "map_err f r = Inr x \<longleftrightarrow> r = Inr x"
  by (cases r) (auto simp: map_err_def)

lemma set_subagent_ids_same: "set_subagent_ids (subagent_ids e) e = e"
  by (cases e) auto

lemma set_subagent_ids_twice [simp]: "set_subagent_ids xs (set_subagent_ids ys e) = set_subagent_ids xs e"
  by (cases e) auto

lemma subagent_ids_set [simp]: "subagent_ids (set_subagent_ids xs e) = xs"
  by (cases e) auto

lemma update_twice: "AList.update k v (AList.update k w m) = AList.update k v m"
  by (induction m) auto

lemma retract_reserved:
  assumes "registry_get rg boss = Some e" "a \<notin> set (subagent_ids e)"
  shows "retract_slot (Some boss) a (edit_children (\<lambda>ids. ids @ [a]) (Some boss) rg) = rg"
proof -
  have e: "map_of (rg_agents rg) boss = Some e" using assms(1) by (simp add: registry_get_def)
  have "filter (\<lambda>sid. sid \<noteq> a) (subagent_ids e) = subagent_ids e" using assms(2) by (auto intro: filter_True)
  then show ?thesis
    by (simp add: retract_slot_def edit_children_def update_subagents_def e AList.update_conv' update_twice
        set_subagent_ids_same update_same)
qed

lemma reserve_slot_ok:
  assumes "reserve_slot env who boss cfg cls fl = Inr (cfg', pol, fl1)"
  shows "\<exists>b sub. registry_get (fl_registry fl) boss = Some (Live b) \<and> (who = Operator \<or> who = Agent boss) \<and>
    role_holder (fl_registry fl) (cfg_role cfg) = None \<and> cls \<le> cfg_permissions_class (config (ae_identity b)) \<and>
    max_depth (cfg_permissions (config (ae_identity b))) \<noteq> 0 \<and> length (ae_subagent_ids b) < fl_max_subagents fl \<and>
    (cfg_delegation_mode cfg = FullHandoff \<longrightarrow> ae_subagent_ids b = [] \<and> cls = Normal) \<and>
    se_canonicalize env (cfg_workspace_root cfg) = Some sub \<and>
    starts_with sub (components (boundary_root (cfg_permissions (config (ae_identity b))))) \<and>
    pol = ae_exec_policy b \<and>
    cfg' = cfg\<lparr>cfg_created_by := Some boss,
      cfg_permissions := subagent_profile (display_path sub) (max_depth (cfg_permissions (config (ae_identity b)))),
      cfg_permissions_class := cls\<rparr> \<and>
    fl1 = fl\<lparr>fl_registry := edit_children (\<lambda>ids. ids @ [se_id env]) (Some boss) (fl_registry fl)\<rparr>"
proof -
  obtain perms granted entry where r: "role_holder (fl_registry fl) (cfg_role cfg) = None"
    "validate_subagent_request (se_canonicalize env) (fl_registry fl) who boss (cfg_workspace_root cfg) cls
       (cfg_delegation_mode cfg) = Inr (perms, pol, granted)"
    "registry_get (fl_registry fl) boss = Some entry" "length (subagent_ids entry) < fl_max_subagents fl"
    "cfg' = cfg\<lparr>cfg_created_by := Some boss, cfg_permissions := perms, cfg_permissions_class := granted\<rparr>"
    "fl1 = fl\<lparr>fl_registry := edit_children (\<lambda>ids. ids @ [se_id env]) (Some boss) (fl_registry fl)\<rparr>"
    using assms by (auto simp: reserve_slot_def rbind_Inr_iff Let_def)
  from r(2,3) obtain b sub where b: "entry = Live b" "who = Operator \<or> who = Agent boss"
    "cfg_delegation_mode cfg = FullHandoff \<longrightarrow> ae_subagent_ids b = []"
    "max_depth (cfg_permissions (config (ae_identity b))) \<noteq> 0"
    "se_canonicalize env (cfg_workspace_root cfg) = Some sub"
    "starts_with sub (components (boundary_root (cfg_permissions (config (ae_identity b)))))"
    "resolve_granted_class (cfg_permissions_class (config (ae_identity b))) cls = Inr granted"
    "cfg_delegation_mode cfg = FullHandoff \<longrightarrow> granted = Normal"
    "perms = subagent_profile (display_path sub) (max_depth (cfg_permissions (config (ae_identity b))))"
    "pol = ae_exec_policy b"
    by (auto simp: validate_subagent_request_def require_supervisor_def rbind_Inr_iff Let_def
        split: if_splits elim!: as_live.elims)
  from b(7) have "granted = cls" "cls \<le> cfg_permissions_class (config (ae_identity b))"
    by (auto simp: resolve_granted_class_def split: if_splits)
  with r b show ?thesis by auto
qed

section \<open>A failed spawn leaves no trace\<close>

lemma establish_carve_err:
  assumes "bt_valid dirs" "cfg_delegation_mode cfg = CarveOut" "establish_workspace_lock fs a cfg chain dirs = (Inl e, d)"
  shows "d = dirs"
  using assms try_acquire_err [OF assms(1), of "fs 1" a cfg chain]
  by (auto simp: establish_workspace_lock_def Let_def reverse_transfer_def split: prod.splits sum.splits acquire_failure.splits)

lemma establish_carve_drop:
  assumes "dirs_ok dirs" "cfg_delegation_mode cfg = CarveOut" "\<forall>p. held dirs p \<noteq> Some a"
    "establish_workspace_lock fs a cfg chain dirs = (Inr est, d)"
  shows "held (drop_established cz est d) = held dirs"
proof -
  have v: "bt_valid dirs" using assms(1) by (simp add: dirs_ok_def)
  have *: "try_acquire_workspace_lock (fs 1) a cfg chain dirs = (Inr (el_workspace est), d)" "el_handoff est = None"
    using assms(2,4)
    by (auto simp: establish_workspace_lock_def Let_def split: prod.splits sum.splits acquire_failure.splits)
  have d: "d = dirs \<or> (\<exists>p. held dirs p = None \<and> d = set_writer p (Some a) dirs)"
    using *(1) acquire_cases [OF v, of "fs 1" a "cfg_workspace_root cfg" chain]
    by (auto simp: try_acquire_workspace_lock_def split: if_splits prod.splits sum.splits acquire_outcome.splits)
  have vd: "bt_valid d" using d v by auto
  have w: "el_workspace est = None \<and> d = dirs \<or> el_workspace est = Some \<lparr>wg_id = a, wg_armed = True\<rparr>"
    using *(1) by (auto simp: try_acquire_workspace_lock_def split: if_splits prod.splits sum.splits acquire_outcome.splits)
  from w show ?thesis
  proof
    assume "el_workspace est = Some \<lparr>wg_id = a, wg_armed = True\<rparr>"
    then have "drop_established cz est d = release_all a d" by (simp add: drop_established_def *(2) drop_guard_def)
    moreover have "held (release_all a d) = held dirs"
      using d assms(3) by (auto simp: held_release_all [OF vd] held_set_writer fun_eq_iff split: if_splits)
    ultimately show ?thesis by simp
  qed (simp add: drop_established_def *(2))
qed

text \<open>The parts of the state a spawn may touch, and what it means that nothing changed.\<close>

definition untouched :: "fleet \<Rightarrow> fleet \<Rightarrow> bool" where
  "untouched fl fl' \<longleftrightarrow> fl_registry fl' = fl_registry fl \<and> body_at (fl_tree fl') = body_at (fl_tree fl) \<and>
     held (fl_locks fl') = held (fl_locks fl) \<and> fl_handles fl' = fl_handles fl \<and> fl_inbox fl' = fl_inbox fl \<and>
     fl_duty fl' = fl_duty fl"

definition reserved_from :: "spawn_env \<Rightarrow> agent_id \<Rightarrow> fleet \<Rightarrow> fleet \<Rightarrow> bool" where
  "reserved_from env boss fl fl1 \<longleftrightarrow>
     fl_registry fl1 = edit_children (\<lambda>ids. ids @ [se_id env]) (Some boss) (fl_registry fl) \<and>
     (\<forall>ar x. \<not> (ar = AgentsArea \<and> x = se_id env) \<longrightarrow> body_at (fl_tree fl1) ar x = body_at (fl_tree fl) ar x) \<and>
     fl_handles fl1 = fl_handles fl \<and> fl_inbox fl1 = fl_inbox fl \<and> fl_duty fl1 = fl_duty fl"

definition spawn_clean :: "spawn_env \<Rightarrow> agent_id \<Rightarrow> fleet \<Rightarrow> bool" where
  "spawn_clean env boss fl \<longleftrightarrow>
     (\<exists>e. registry_get (fl_registry fl) boss = Some e \<and> se_id env \<notin> set (subagent_ids e)) \<and>
     \<not> has_dir (fl_tree fl) AgentsArea (se_id env) \<and> dirs_ok (fl_locks fl) \<and>
     (\<forall>p. held (fl_locks fl) p \<noteq> Some (se_id env)) \<and> se_rmdir_ok env"

lemma rollback_untouched:
  assumes "spawn_clean env boss fl" "reserved_from env boss fl fl1" "held (fl_locks fl1) = held (fl_locks fl)"
  shows "untouched fl (rollback_unspawned_create env (Some boss) fl1)"
proof -
  obtain e where "registry_get (fl_registry fl) boss = Some e" "se_id env \<notin> set (subagent_ids e)"
    using assms(1) by (auto simp: spawn_clean_def)
  from retract_reserved [OF this] show ?thesis
    using assms
    by (auto simp: untouched_def rollback_unspawned_create_def remove_agent_dir_def reserved_from_def spawn_clean_def
        has_dir_def fun_eq_iff)
qed

lemma prepare_failed:
  assumes c: "spawn_clean env boss fl" and r: "reserved_from env boss fl fl1" "fl_locks fl1 = fl_locks fl"
    and p: "prepare env cfg pol (Some boss) skills fl1 = (Inl e, fl2)"
    and s: "se_create env = Written" "cfg_delegation_mode cfg = CarveOut"
  shows "untouched fl fl2"
proof -
  have bt: "bt_valid (fl_locks fl)" using c by (simp add: spawn_clean_def dirs_ok_def)
  let ?t = "snd (create_agent_dir Written (se_id env) (meta_of cfg) (fl_tree fl1))"
  have res: "reserved_from env boss fl (fl1\<lparr>fl_tree := ?t\<rparr>)"
    "reserved_from env boss fl (fl1\<lparr>fl_tree := set_exec_policy (se_id env) pol ?t\<rparr>)"
    "reserved_from env boss fl (fl1\<lparr>fl_tree := set_exec_policy (se_id env) pol ?t, fl_locks := l\<rparr>)" for l
    using r by (auto simp: reserved_from_def create_agent_dir_def Let_def set_exec_policy_def split: option.split)
  note undone = rollback_untouched [OF c]
  from p s(1) consider
      (made) "fl2 = rollback_unspawned_create env (Some boss) (fl1\<lparr>fl_tree := ?t\<rparr>)"
    | (ready) "fl2 = rollback_unspawned_create env (Some boss) (fl1\<lparr>fl_tree := set_exec_policy (se_id env) pol ?t\<rparr>)"
    | (locked) x chain locks where "establish_workspace_lock (se_lock_fs env) (se_id env) cfg chain (fl_locks fl1) = (Inl x, locks)"
      "fl2 = rollback_unspawned_create env (Some boss) (fl1\<lparr>fl_tree := set_exec_policy (se_id env) pol ?t, fl_locks := locks\<rparr>)"
    by (auto simp: prepare_def Let_def create_agent_dir_def split: sum.splits if_splits prod.splits)
  then show ?thesis
  proof cases
    case made
    then show ?thesis using undone [OF res(1)] r(2) by simp
  next
    case ready
    then show ?thesis using undone [OF res(2)] r(2) by simp
  next
    case locked
    then have "locks = fl_locks fl1" using establish_carve_err [OF _ s(2)] bt r(2) by metis
    then show ?thesis using undone [OF res(3)] r(2) locked(2) by simp
  qed
qed

lemma prepare_ok:
  assumes c: "spawn_clean env boss fl" and r: "reserved_from env boss fl fl1" "fl_locks fl1 = fl_locks fl"
    and p: "prepare env cfg pol (Some boss) skills fl1 = (Inr est, fl2)"
    and s: "cfg_delegation_mode cfg = CarveOut"
  shows "reserved_from env boss fl fl2 \<and> held (drop_established fs est (fl_locks fl2)) = held (fl_locks fl)"
proof -
  obtain t chain locks where e: "fst (create_agent_dir (se_create env) (se_id env) (meta_of cfg) (fl_tree fl1)) = Inr ()"
    "t = snd (create_agent_dir (se_create env) (se_id env) (meta_of cfg) (fl_tree fl1))"
    "establish_workspace_lock (se_lock_fs env) (se_id env) cfg chain (fl_locks fl1) = (Inr est, locks)"
    "fl2 = fl1\<lparr>fl_tree := set_exec_policy (se_id env) pol t, fl_locks := locks\<rparr>"
    using p by (auto simp: prepare_def Let_def split: sum.splits if_splits prod.splits)
  have "held (drop_established fs est locks) = held (fl_locks fl)"
    using establish_carve_drop [OF _ s _ e(3), where cz = fs] c r(2) by (auto simp: spawn_clean_def)
  moreover have "reserved_from env boss fl fl2"
    using r e(4) by (auto simp: reserved_from_def e(2) create_agent_dir_def Let_def set_exec_policy_def
        split: option.split create_outcome.split)
  ultimately show ?thesis by (simp add: e(4))
qed

lemma drop_lock_untouched:
  assumes "untouched fl (rollback_unspawned_create env (Some boss) (fl2\<lparr>fl_locks := l\<rparr>))"
    "l = drop_established (se_lock_fs env 3) est (fl_locks fl2)"
  shows "untouched fl (drop_lock env est (rollback_unspawned_create env (Some boss) fl2))"
  using assms by (auto simp: untouched_def drop_lock_def rollback_unspawned_create_def remove_agent_dir_def)

lemma materialize_failed:
  assumes c: "spawn_clean env boss fl" and r: "reserved_from env boss fl fl1" "fl_locks fl1 = fl_locks fl"
    and k: "recorded_set (fl_sets fl1) (cfg_profile_set cfg) \<noteq> None" "cfg_created_by cfg = Some boss"
    and s: "se_create env = Written" "cfg_delegation_mode cfg = CarveOut" "se_gap env = (\<lambda>x. x)"
    and m: "materialize env cfg pol (Some boss) skills fl1 = (Inl e, fl')"
  shows "untouched fl fl'"
proof (cases "prepare env cfg pol (Some boss) skills fl1")
  case (Pair res fl2)
  show ?thesis
  proof (cases res)
    case (Inl x)
    then have "fl' = fl2" using m k(1) Pair by (auto simp: materialize_def)
    then show ?thesis using prepare_failed [OF c r _ s(1,2)] Pair Inl by blast
  next
    case (Inr est)
    note ok = prepare_ok [OF c r Pair [unfolded Inr] s(2)]
    let ?l = "drop_established (se_lock_fs env 3) est (fl_locks fl2)"
    have "reserved_from env boss fl (fl2\<lparr>fl_locks := ?l\<rparr>)" using ok by (simp add: reserved_from_def)
    then have un: "untouched fl (drop_lock env est (rollback_unspawned_create env (Some boss) fl2))"
      using drop_lock_untouched [OF rollback_untouched [OF c] refl] ok by simp
    have boss: "registry_get (fl_registry fl2) boss \<noteq> None"
      using ok c by (auto simp: reserved_from_def spawn_clean_def registry_get_def edit_children_def update_subagents_def
          AList.update_conv' split: option.split)
    show ?thesis
    proof (cases "se_spawn_ok env")
      case False
      then show ?thesis using m k(1) un by (auto simp: materialize_def Pair Inr)
    next
      case True
      then have "install_agent env cfg pol (Some boss) est fl2 = (Inl e, fl')"
        using m k(1) by (simp add: materialize_def Pair Inr s(3) split: if_splits)
      then have "fl' = drop_lock env est (rollback_unspawned_create env (Some boss) fl2)"
        using boss k(2) by (auto simp: install_agent_def Let_def is_root_def rollback_unspawned_create_def split: if_splits)
      then show ?thesis using un by simp
    qed
  qed
qed

lemma spawn_failed_untouched:
  assumes c: "spawn_clean env boss fl" and s: "se_create env = Written" "cfg_delegation_mode cfg = CarveOut"
    "recorded_set (fl_sets fl) (cfg_profile_set cfg) \<noteq> None" "se_gap env = (\<lambda>x. x)"
    and f: "spawn_subagent env who boss cfg cls skills fl = (Inl e, fl')"
  shows "untouched fl fl'"
proof -
  have same: "untouched fl fl" by (simp add: untouched_def)
  show ?thesis
  proof (cases "ensure_workspace_disjoint (se_canonicalize env) (se_root env) (cfg_workspace_root cfg)")
    case (Inl x)
    then show ?thesis using f same by (simp add: spawn_subagent_def)
  next
    case (Inr u)
    show ?thesis
    proof (cases "reserve_slot env who boss cfg cls fl")
      case (Inl x)
      then show ?thesis using f same Inr by (simp add: spawn_subagent_def)
    next
      case r: (Inr x)
      obtain cfg' pol fl1 where x: "x = (cfg', pol, fl1)" by (cases x) auto
      from reserve_slot_ok [OF r [unfolded x]] obtain perms where
        fl1: "fl1 = fl\<lparr>fl_registry := edit_children (\<lambda>ids. ids @ [se_id env]) (Some boss) (fl_registry fl)\<rparr>"
        and cfg': "cfg' = cfg\<lparr>cfg_created_by := Some boss, cfg_permissions := perms, cfg_permissions_class := cls\<rparr>" by blast
      have m: "materialize env cfg' pol (Some boss) skills fl1 = (Inl e, fl')"
        using f r Inr by (simp add: spawn_subagent_def x)
      show ?thesis by (rule materialize_failed [OF c _ _ _ _ s(1) _ s(4) m])
        (use s in \<open>auto simp: reserved_from_def fl1 cfg'\<close>)
    qed
  qed
qed

section \<open>What spawning and removing promise\<close>

lemma get_own_registered [simp]: "registry_get (register_no_subagent_push a e rg) a = Some e"
  by (simp add: register_no_subagent_push_def registry_get_def notify_invalidation_def AList.update_conv')

lemma spawn_ok_steps:
  assumes "spawn_subagent env who boss cfg cls skills fl = (Inr a, fl')"
  obtains cfg' pol fl1 fl2 est where "reserve_slot env who boss cfg cls fl = Inr (cfg', pol, fl1)"
    "a = se_id env" "fl2 = se_gap env (snd (prepare env cfg' pol (Some boss) skills fl1))"
    "fl' = drop_lock env (disarm est) (fl2\<lparr>
       fl_registry := register_no_subagent_push (se_id env) (Live (new_entry env cfg' pol)) (fl_registry fl2),
       fl_handles := (fl_handles fl2)(se_id env := new_handle (fl_queue_size fl2))\<rparr>)"
    "length (rg_agents (fl_registry fl2)) < fl_max_agents fl2"
    "registry_get (fl_registry fl2) boss \<noteq> None" "recorded_set (fl_sets fl1) (cfg_profile_set cfg') \<noteq> None"
proof -
  obtain cfg' pol fl1 where r: "reserve_slot env who boss cfg cls fl = Inr (cfg', pol, fl1)"
    and m: "materialize env cfg' pol (Some boss) skills fl1 = (Inr a, fl')"
    using assms by (auto simp: spawn_subagent_def split: sum.splits)
  have nr: "\<not> is_root cfg'" using reserve_slot_ok [OF r] by (auto simp: is_root_def)
  obtain est fl2 where p: "prepare env cfg' pol (Some boss) skills fl1 = (Inr est, fl2)"
    "install_agent env cfg' pol (Some boss) est (se_gap env fl2) = (Inr a, fl')"
    "recorded_set (fl_sets fl1) (cfg_profile_set cfg') \<noteq> None"
    using m nr by (auto simp: materialize_def split: prod.splits sum.splits if_splits)
  show thesis
    by (rule that [OF r, of "se_gap env fl2" est])
      (use p nr in \<open>auto simp: install_agent_def Let_def not_le split: if_splits\<close>)
qed

text \<open>
  C9. The spawn monitor is complete mediation. Whatever other tasks do while the task is started, a
  successful spawn has an authorised caller and a live supervisor with depth and a slot left; no agent of
  the tagma held the role; the requested profile set exists; and the agent registered at the end is live,
  created by that supervisor, with exactly the requested class, which is at most the supervisor's, one
  level of depth less, a workspace inside the supervisor's boundary and the supervisor's exec policy.
\<close>

theorem spawn_within_authority:
  assumes "spawn_subagent env who boss cfg cls skills fl = (Inr a, fl')"
  shows "\<exists>b e sub. registry_get (fl_registry fl) boss = Some (Live b) \<and> (who = Operator \<or> who = Agent boss) \<and>
    length (ae_subagent_ids b) < fl_max_subagents fl \<and> role_holder (fl_registry fl) (cfg_role cfg) = None \<and>
    recorded_set (fl_sets fl) (cfg_profile_set cfg) \<noteq> None \<and>
    registry_get (fl_registry fl') a = Some (Live e) \<and> cfg_created_by (config (ae_identity e)) = Some boss \<and>
    cfg_permissions_class (config (ae_identity e)) = cls \<and> cls \<le> cfg_permissions_class (config (ae_identity b)) \<and>
    unat (max_depth (cfg_permissions (config (ae_identity e)))) + 1
      = unat (max_depth (cfg_permissions (config (ae_identity b)))) \<and>
    se_canonicalize env (cfg_workspace_root cfg) = Some sub \<and>
    boundary_root (cfg_permissions (config (ae_identity e))) = display_path sub \<and>
    starts_with sub (components (boundary_root (cfg_permissions (config (ae_identity b))))) \<and>
    ae_exec_policy e = ae_exec_policy b \<and> fl_handles fl' a = new_handle (ah_capacity (fl_handles fl' a))"
proof -
  from spawn_ok_steps [OF assms] obtain cfg' pol fl1 fl2 est where
    r: "reserve_slot env who boss cfg cls fl = Inr (cfg', pol, fl1)" and a: "a = se_id env" and
    fl': "fl' = drop_lock env (disarm est) (fl2\<lparr>
       fl_registry := register_no_subagent_push (se_id env) (Live (new_entry env cfg' pol)) (fl_registry fl2),
       fl_handles := (fl_handles fl2)(se_id env := new_handle (fl_queue_size fl2))\<rparr>)"
    and s: "recorded_set (fl_sets fl1) (cfg_profile_set cfg') \<noteq> None" by metis
  have e: "registry_get (fl_registry fl') a = Some (Live (new_entry env cfg' pol))"
    "fl_handles fl' a = new_handle (ah_capacity (fl_handles fl' a))"
    by (simp_all add: fl' a drop_lock_def new_handle_def)
  from reserve_slot_ok [OF r] obtain b sub where b: "registry_get (fl_registry fl) boss = Some (Live b)"
    "who = Operator \<or> who = Agent boss" "role_holder (fl_registry fl) (cfg_role cfg) = None"
    "cls \<le> cfg_permissions_class (config (ae_identity b))"
    "max_depth (cfg_permissions (config (ae_identity b))) \<noteq> 0" "length (ae_subagent_ids b) < fl_max_subagents fl"
    "se_canonicalize env (cfg_workspace_root cfg) = Some sub"
    "starts_with sub (components (boundary_root (cfg_permissions (config (ae_identity b)))))" "pol = ae_exec_policy b"
    and c: "cfg' = cfg\<lparr>cfg_created_by := Some boss,
      cfg_permissions := subagent_profile (display_path sub) (max_depth (cfg_permissions (config (ae_identity b)))),
      cfg_permissions_class := cls\<rparr>"
    and f: "fl1 = fl\<lparr>fl_registry := edit_children (\<lambda>ids. ids @ [se_id env]) (Some boss) (fl_registry fl)\<rparr>" by blast
  have d: "unat (max_depth (cfg_permissions cfg')) + 1 = unat (max_depth (cfg_permissions (config (ae_identity b))))"
    using b(5) by (simp add: c subagent_profile_def sat_sub_def unat_sub_if' unat_gt_0 Suc_le_eq word_le_nat_alt)
  have n: "ae_exec_policy (new_entry env cfg' pol) = pol" "config (ae_identity (new_entry env cfg' pol)) = cfg'"
    "cfg_created_by cfg' = Some boss" "cfg_permissions_class cfg' = cls"
    "boundary_root (cfg_permissions cfg') = display_path sub"
    "recorded_set (fl_sets fl) (cfg_profile_set cfg) \<noteq> None"
    using s by (simp_all add: new_entry_def c f subagent_profile_def)
  show ?thesis
    by (intro exI [of _ b] exI [of _ "new_entry env cfg' pol"] exI [of _ sub] conjI)
      (use b e d n in \<open>simp_all\<close>)
qed


text \<open>
  An unknown profile set leaks a slot. The set is looked up after the slot was reserved and its refusal
  rolls nothing back: the supervisor keeps the id of an agent that was never created, and from then on no
  caller can remove that supervisor.
\<close>

theorem unknown_set_leaks_slot:
  assumes "ensure_workspace_disjoint (se_canonicalize env) (se_root env) (cfg_workspace_root cfg) = Inr ()"
    "reserve_slot env who boss cfg cls fl = Inr (cfg', pol, fl1)" "recorded_set (fl_sets fl) (cfg_profile_set cfg) = None"
    "registry_get (fl_registry fl) (se_id env) = None"
  shows "\<exists>e fl'. spawn_subagent env who boss cfg cls skills fl = (Inl (BadRequest ''unknown profile set''), fl') \<and>
    registry_get (fl_registry fl') (se_id env) = None \<and> registry_get (fl_registry fl') boss = Some e \<and>
    se_id env \<in> set (subagent_ids e) \<and>
    (\<forall>cz cleared mv caller. \<exists>err. remove_agent cz cleared mv caller boss fl' = (Inl err, fl'))"
proof -
  from reserve_slot_ok [OF assms(2)] obtain b where b: "registry_get (fl_registry fl) boss = Some (Live b)"
    and c: "cfg_created_by cfg' = Some boss" "cfg_profile_set cfg' = cfg_profile_set cfg"
    and f: "fl1 = fl\<lparr>fl_registry := edit_children (\<lambda>ids. ids @ [se_id env]) (Some boss) (fl_registry fl)\<rparr>" by auto
  let ?e = "set_subagent_ids (ae_subagent_ids b @ [se_id env]) (Live b)"
  have m: "map_of (rg_agents (fl_registry fl)) boss = Some (Live b)" using b by (simp add: registry_get_def)
  have s: "spawn_subagent env who boss cfg cls skills fl = (Inl (BadRequest ''unknown profile set''), fl1)"
    using assms(1-3) c by (simp add: spawn_subagent_def materialize_def is_root_def f)
  have g: "registry_get (fl_registry fl1) boss = Some ?e"
    by (simp add: f registry_get_def edit_children_def update_subagents_def m AList.update_conv')
  have n: "registry_get (fl_registry fl1) (se_id env) = None"
    using assms(4) m by (auto simp: f registry_get_def edit_children_def update_subagents_def AList.update_conv')
  have "remove_check caller boss fl1 = Inl err \<or> (\<exists>err. remove_check caller boss fl1 = Inl err)" for caller err
    by (cases "remove_check caller boss fl1") (auto simp: remove_check_def Let_def rbind_Inr_iff g)
  then have "\<exists>err. remove_agent cz cleared mv caller boss fl1 = (Inl err, fl1)" for cz cleared mv caller
    by (metis (no_types, lifting) remove_agent_def sum.simps(5))
  then show ?thesis using s n g by (intro exI [of _ ?e] exI [of _ fl1]) simp
qed

lemma remove_ok:
  assumes "remove_agent cz cleared mv who a fl = (Inr (), fl')"
  obtains e where "remove_check who a fl = Inr e" "registry_get (fl_registry fl) a = Some e"
    "fl_registry fl' = snd (unregister a (fl_registry fl))"
    "fl_locks fl' = release_all a (return_handoff_lock cz a (config (identity_of e)) (fl_locks fl))"
    "fl_tree fl' = snd (archive_agent_dir mv a (fl_tree fl))"
  using assms
  by (auto simp: remove_agent_def Let_def teardown_agent_def remove_check_def rbind_Inr_iff split: sum.splits
      intro!: that)


section \<open>Witnesses\<close>

definition kid_config :: "string option \<Rightarrow> agent_config" where
  "kid_config pset = \<lparr>cfg_created_by = None, cfg_workspace_root = ''/w/kid'', cfg_permissions_class = Normal,
     cfg_delegation_mode = CarveOut, cfg_role = ''tester'', cfg_description = [], cfg_profile_set = pset,
     cfg_permissions = new_profile ''/w/kid''\<rparr>"

definition spawn_fleet :: "agent_registry \<Rightarrow> dir_map \<Rightarrow> fleet" where
  "spawn_fleet rg locks =
     \<lparr>fl_registry = rg, fl_handles = \<lambda>_. new_handle 4, fl_inbox = None, fl_duty = \<lparr>ds_map = [], ds_generation = 0\<rparr>,
      fl_locks = locks, fl_tree = \<lambda>_. [], fl_sets = [''std''], fl_default_set = ''std'', fl_max_agents = 9,
      fl_max_subagents = 3, fl_shell = \<lambda>_. False, fl_resets = \<lambda>_. None, fl_queue_size = 4\<rparr>"

definition spawn_disk :: "string \<Rightarrow> path option" where
  "spawn_disk s = (if s = ''/w/kid'' then Some [''w'', ''kid''] else if s = ''/'' then Some [] else None)"

definition spawn_sample :: "bool \<Rightarrow> spawn_env" where
  "spawn_sample starts = \<lparr>se_id = ''kid'', se_token = ''h9'', se_canonicalize = spawn_disk, se_lock_fs = \<lambda>_. spawn_disk,
     se_root = [''data'', ''x''], se_create = Written, se_skill_ok = \<lambda>_. True, se_pin_ok = \<lambda>_. True, se_policy_ok = True,
     se_spawn_ok = starts, se_rmdir_ok = True, se_gap = \<lambda>t. t\<rparr>"

lemma spawn_sample_fields [simp]:
  "se_id (spawn_sample x) = ''kid''" "se_canonicalize (spawn_sample x) = spawn_disk" "se_create (spawn_sample x) = Written"
  "se_gap (spawn_sample x) = (\<lambda>t. t)" "se_root (spawn_sample x) = [''data'', ''x'']" "se_rmdir_ok (spawn_sample x)"
  "se_policy_ok (spawn_sample x)" "se_spawn_ok (spawn_sample x) = x"
  by (simp_all add: spawn_sample_def)

lemma spawn_fleet_fields [simp]:
  "fl_registry (spawn_fleet rg ls) = rg" "fl_locks (spawn_fleet rg ls) = ls" "fl_sets (spawn_fleet rg ls) = [''std'']"
  "fl_max_agents (spawn_fleet rg ls) = 9" "fl_max_subagents (spawn_fleet rg ls) = 3"
  "\<not> fl_shell (spawn_fleet rg ls) s" "fl_tree (spawn_fleet rg ls) ar = []" "fl_handles (spawn_fleet rg ls) s = new_handle 4"
  by (simp_all add: spawn_fleet_def)

lemma sample_agents: "rg_agents sample_registry = [(''root'', sample_entry None ''h0'')]"
  by (simp add: sample_registry_def register_def with_invalidation_def notify_invalidation_def update_subagents_def
      created_by_def sample_entry_def)

lemma sample_disjoint: "ensure_workspace_disjoint spawn_disk [''data'', ''x''] ''/w/kid'' = Inr ()"
  by (simp add: ensure_workspace_disjoint_def workspace_overlaps_data_root_def canonical_data_root_def display_path_def
      spawn_disk_def)

lemma sample_reserve:
  "\<exists>cfg' pol. reserve_slot (spawn_sample x) Operator ''root'' (kid_config pset) Guest (spawn_fleet sample_registry ls)
    = Inr (cfg', pol, (spawn_fleet sample_registry ls)
        \<lparr>fl_registry := edit_children (\<lambda>ids. ids @ [''kid'']) (Some ''root'') sample_registry\<rparr>)"
  by (simp add: reserve_slot_def Let_def role_holder_def validate_subagent_request_def require_supervisor_def registry_get_def
      sample_agents sample_entry_def require_that_def kid_config_def spawn_disk_def new_profile_def components_def
      DEFAULT_MAX_DEPTH_def resolve_granted_class_def map_err_def less_permission_class_def)

theorem unknown_set_leaks_slot_witness:
  "\<exists>fl'. spawn_subagent (spawn_sample True) Operator ''root'' (kid_config (Some ''gone'')) Guest [] (spawn_fleet sample_registry [])
    = (Inl (BadRequest ''unknown profile set''), fl') \<and>
    (\<exists>err. remove_agent spawn_disk True easy_move Operator ''root'' fl' = (Inl err, fl'))"
proof -
  obtain cfg' pol fl1 where r: "reserve_slot (spawn_sample True) Operator ''root'' (kid_config (Some ''gone'')) Guest
      (spawn_fleet sample_registry []) = Inr (cfg', pol, fl1)" using sample_reserve by blast
  show ?thesis
    using unknown_set_leaks_slot [OF _ r, of "[]"] sample_disjoint
    by (auto simp: kid_config_def recorded_set_def registry_get_def sample_agents)
qed

text \<open>The sample spawn: it ends well exactly when the task starts.\<close>

lemma sample_spawn:
  "\<exists>r fl'. spawn_subagent (spawn_sample x) Operator ''root'' (kid_config (Some ''std'')) Guest [] (spawn_fleet sample_registry [])
    = (r, fl') \<and> (if x then r = Inr ''kid'' else r = Inl (Api (Internal ''agent task not started'')))"
proof -
  let ?rg = "edit_children (\<lambda>ids. ids @ [''kid'']) (Some ''root'') sample_registry"
  let ?fl = "(spawn_fleet sample_registry [])\<lparr>fl_registry := ?rg\<rparr>"
  obtain cfg' pol where r: "reserve_slot (spawn_sample x) Operator ''root'' (kid_config (Some ''std'')) Guest
      (spawn_fleet sample_registry []) = Inr (cfg', pol, ?fl)" using sample_reserve by blast
  from reserve_slot_ok [OF r] have c: "cfg_created_by cfg' = Some ''root''" "cfg_profile_set cfg' = Some ''std''"
    "cfg_permissions_class cfg' = Guest" "cfg_delegation_mode cfg' = CarveOut" by (auto simp: kid_config_def)
  obtain e where rg: "rg_agents ?rg = [(''root'', e)]" "created_by e = None"
    by (simp add: edit_children_def update_subagents_def sample_agents sample_entry_def created_by_def)
  have ch: "supervisor_chain_ids ?rg ''root'' = Inr [''root'']"
    unfolding chain_ids_Inr using root_path.rp_root [of "rg_agents ?rg" "''root''" e] rg
    by (intro exI [of _ "[(''root'', e)]"]) simp
  let ?est = "\<lparr>el_handoff = None, el_workspace = None\<rparr>"
  obtain t where p: "prepare (spawn_sample x) cfg' pol (Some ''root'') [] ?fl = (Inr ?est, ?fl\<lparr>fl_tree := t, fl_locks := []\<rparr>)"
    by (auto simp: prepare_def create_agent_dir_def Let_def spawn_chain_def c ch shell_in_flight_def
        establish_workspace_lock_def try_acquire_workspace_lock_def split: option.split)
  have w: "cfg_workspace_root (kid_config (Some ''std'')) = ''/w/kid''" by (simp add: kid_config_def)
  have sp: "spawn_subagent (spawn_sample x) Operator ''root'' (kid_config (Some ''std'')) Guest [] (spawn_fleet sample_registry [])
      = materialize (spawn_sample x) cfg' pol (Some ''root'') [] ?fl"
    by (simp add: spawn_subagent_def w sample_disjoint r)
  show ?thesis unfolding sp
    using c rg by (auto simp: materialize_def p recorded_set_def install_agent_def Let_def registry_get_def is_root_def)
qed

theorem spawn_within_authority_witness:
  "\<exists>fl' e. spawn_subagent (spawn_sample True) Operator ''root'' (kid_config (Some ''std'')) Guest [] (spawn_fleet sample_registry [])
    = (Inr ''kid'', fl') \<and> registry_get (fl_registry fl') ''kid'' = Some (Live e) \<and>
      boundary_root (cfg_permissions (config (ae_identity e))) = ''/w/kid''"
proof -
  obtain fl' where s: "spawn_subagent (spawn_sample True) Operator ''root'' (kid_config (Some ''std'')) Guest []
      (spawn_fleet sample_registry []) = (Inr ''kid'', fl')" using sample_spawn [of True] by auto
  have d: "spawn_disk (cfg_workspace_root (kid_config (Some ''std''))) = Some [''w'', ''kid'']"
    by (simp add: kid_config_def spawn_disk_def)
  from spawn_within_authority [OF s] show ?thesis
    by (auto simp: s d display_path_def)
qed



end
