(* ===== verification/History_Log.thy ===== *)
theory History_Log
  imports Context_Budget
begin

text \<open>
  The append-only history log of an agent (\<open>kallip-runtime/src/history.rs\<close>): one file of lines per UTC
  day, the writer, and the three readers that restore uses (hydration by turn id, the newest id, the newest
  turns within a budget).

  A line is blank, unparseable or a record; parsing and printing a record are inverse (\<open>serde_json\<close>). The
  last line of a file may lack its newline after a crash inside \<open>append\<close>; the next append then continues
  that line, and the joined line does not parse. File names are dates, sorted by name.
\<close>

section \<open>Files\<close>

datatype 'm hist_line = Blank | Garbled | Entry "'m history_record"

datatype 'm line_end = Ended | Torn "'m history_record option"

record 'm day_file =
  df_name :: string
  df_readable :: bool
  df_lines :: "'m hist_line list"
  df_end :: "'m line_end"

datatype append_outcome = Appended | NotOpened | WrittenPartly bool

definition empty_day :: "string \<Rightarrow> 'm day_file" where
  "empty_day d = \<lparr>df_name = d, df_readable = True, df_lines = [], df_end = Ended\<rparr>"

fun on_day :: "string \<Rightarrow> ('m day_file \<Rightarrow> 'm day_file) \<Rightarrow> 'm day_file list \<Rightarrow> 'm day_file list" where
  "on_day d g [] = [g (empty_day d)]"
| "on_day d g (f # fs) =
     (if df_name f = d then g f # fs
      else if d < df_name f then g (empty_day d) # f # fs
      else f # on_day d g fs)"

definition write_line :: "'m history_record \<Rightarrow> 'm day_file \<Rightarrow> 'm day_file" where
  "write_line r f = f\<lparr>df_lines := df_lines f @ [if df_end f = Ended then Entry r else Garbled], df_end := Ended\<rparr>"

definition write_partly :: "bool \<Rightarrow> 'm history_record \<Rightarrow> 'm day_file \<Rightarrow> 'm day_file" where
  "write_partly whole r f = f\<lparr>df_end := Torn (if whole \<and> df_end f = Ended then Some r else None)\<rparr>"

definition append_record ::
  "append_outcome \<Rightarrow> string \<Rightarrow> 'm history_record \<Rightarrow> 'm day_file list \<Rightarrow> bool \<times> 'm day_file list" where
  "append_record oc today r fs =
     (case oc of
        Appended \<Rightarrow> (True, on_day today (write_line r) fs)
      | NotOpened \<Rightarrow> (False, fs)
      | WrittenPartly whole \<Rightarrow> (False, on_day today (write_partly whole r) fs))"

definition visible_lines :: "'m day_file \<Rightarrow> 'm hist_line list" where
  "visible_lines f = df_lines f @
     (case df_end f of Ended \<Rightarrow> [] | Torn None \<Rightarrow> [Garbled] | Torn (Some r) \<Rightarrow> [Entry r])"

definition has_history :: "'m day_file list \<Rightarrow> bool" where
  "has_history fs \<longleftrightarrow> fs \<noteq> []"

text \<open>The order in which every reader sees the lines: newest file first, newest line first.\<close>

definition scan_order :: "'m day_file list \<Rightarrow> 'm hist_line list" where
  "scan_order fs = concat (map (\<lambda>f. if df_readable f then rev (visible_lines f) else []) (rev fs))"

definition turn_record :: "'m hist_line \<Rightarrow> (nat \<times> 'm history_record) option" where
  "turn_record l =
     (case l of
        Entry r \<Rightarrow> if hr_kind r = RkTurn then map_option (\<lambda>i. (i, r)) (hr_turn r) else None
      | _ \<Rightarrow> None)"

definition turn_of_record :: "nat \<Rightarrow> 'm history_record \<Rightarrow> 'm turn" where
  "turn_of_record i r = \<lparr>turn_id = i, messages = hr_messages r, estimated_tokens = hr_tokens r, kind = Conversation\<rparr>"

section \<open>Readers\<close>

fun hydrate_scan ::
  "nat list \<Rightarrow> 'm turn list \<Rightarrow> nat \<Rightarrow> 'm hist_line list \<Rightarrow> nat list \<times> 'm turn list \<times> nat" where
  "hydrate_scan wanted ts bad [] = (wanted, ts, bad)"
| "hydrate_scan wanted ts bad (l # ls) =
     (if l = Garbled then hydrate_scan wanted ts (bad + 1) ls
      else case turn_record l of
             None \<Rightarrow> hydrate_scan wanted ts bad ls
           | Some (i, r) \<Rightarrow>
               if i \<in> set wanted
               then (let rest = removeAll i wanted; ts' = ts @ [turn_of_record i r]
                     in if rest = [] then (rest, ts', bad) else hydrate_scan rest ts' bad ls)
               else hydrate_scan wanted ts bad ls)"

record 'm hydration =
  hy_turns :: "'m turn list"
  hy_bad_lines :: nat
  hy_missing :: "nat list"

definition hydrate_turns :: "'m day_file list \<Rightarrow> nat list \<Rightarrow> 'm hydration" where
  "hydrate_turns fs ids =
     (let (wanted, ts, bad) = hydrate_scan (remdups ids) [] 0 (scan_order fs)
      in \<lparr>hy_turns = sort_key turn_id ts, hy_bad_lines = bad, hy_missing = sort wanted\<rparr>)"

definition max_turn_id :: "'m day_file list \<Rightarrow> nat" where
  "max_turn_id fs = (case List.map_filter turn_record (scan_order fs) of [] \<Rightarrow> 0 | (i, _) # _ \<Rightarrow> i)"

fun tail_scan :: "nat \<Rightarrow> nat \<Rightarrow> nat list \<Rightarrow> 'm turn list \<Rightarrow> 'm hist_line list \<Rightarrow> 'm turn list" where
  "tail_scan budget used seen ts [] = ts"
| "tail_scan budget used seen ts (l # ls) =
     (case turn_record l of
        None \<Rightarrow> tail_scan budget used seen ts ls
      | Some (i, r) \<Rightarrow>
          if i \<in> set seen then tail_scan budget used seen ts ls
          else if budget < used + hr_tokens r then ts
          else tail_scan budget (used + hr_tokens r) (i # seen) (ts @ [turn_of_record i r]) ls)"

definition tail_turns_within_budget :: "'m day_file list \<Rightarrow> nat \<Rightarrow> 'm turn list" where
  "tail_turns_within_budget fs budget = rev (tail_scan budget 0 [] [] (scan_order fs))"

section \<open>The newest record of a turn\<close>

definition newest_in :: "'m hist_line list \<Rightarrow> nat \<Rightarrow> 'm history_record option" where
  "newest_in ls i = map_of (List.map_filter turn_record ls) i"

definition newest :: "'m day_file list \<Rightarrow> nat \<Rightarrow> 'm history_record option" where
  "newest fs = newest_in (scan_order fs)"

lemma newest_in_simps [simp]:
  "newest_in [] i = None"
  "newest_in (l # ls) i = (case turn_record l of None \<Rightarrow> newest_in ls i
     | Some (j, r) \<Rightarrow> if j = i then Some r else newest_in ls i)"
  by (auto simp: newest_in_def List.map_filter_simps split: option.split)

lemma hydrate_scan_found:
  assumes "hydrate_scan wanted ts bad ls = (rest, ts', bad')" "distinct wanted"
  shows "set rest = {i \<in> set wanted. newest_in ls i = None} \<and> distinct rest \<and>
    (\<exists>new. ts' = ts @ new \<and> distinct (map turn_id new) \<and>
      set new = {turn_of_record i r |i r. i \<in> set wanted \<and> newest_in ls i = Some r})"
  using assms
proof (induction wanted ts bad ls rule: hydrate_scan.induct)
  case (2 wanted ts bad l ls)
  show ?case
  proof (cases "turn_record l")
    case None
    have "hydrate_scan wanted ts (bad + (if l = Garbled then 1 else 0)) ls = (rest, ts', bad')"
      using "2.prems"(1) None by (auto split: if_splits)
    moreover have "newest_in (l # ls) = newest_in ls" using None by (simp add: fun_eq_iff)
    ultimately show ?thesis using "2.IH"(1,2) "2.prems"(2) None by (cases "l = Garbled") auto
  next
    case (Some x)
    obtain i r where x: "x = (i, r)" by fastforce
    have g: "l \<noteq> Garbled" using Some by (auto simp: turn_record_def)
    show ?thesis
    proof (cases "i \<in> set wanted")
      case False
      then have "hydrate_scan wanted ts bad ls = (rest, ts', bad')" using "2.prems"(1) Some x g by simp
      from "2.IH"(4) [OF g Some x [symmetric] False this "2.prems"(2)] show ?thesis
        using False Some x by (auto 0 3)
    next
      case True
      let ?w = "removeAll i wanted" and ?t = "turn_of_record i r"
      have w: "set ?w = set wanted - {i}" "distinct ?w" using "2.prems"(2) by (auto simp: distinct_removeAll)
      show ?thesis
      proof (cases "?w = []")
        case e: True
        then have "rest = []" "ts' = ts @ [?t]" using "2.prems"(1) Some x g True by auto
        moreover have "set wanted = {i}" using e w(1) True by auto
        ultimately show ?thesis using Some x by (intro conjI exI [of _ "[?t]"]) auto
      next
        case False
        then have h: "hydrate_scan ?w (ts @ [?t]) bad ls = (rest, ts', bad')" using "2.prems"(1) Some x g True by simp
        from "2.IH"(3) [OF g Some x [symmetric] True refl refl False h w(2)] obtain new where
          n: "set rest = {j \<in> set ?w. newest_in ls j = None}" "distinct rest" "ts' = (ts @ [?t]) @ new"
            "distinct (map turn_id new)" "set new = {turn_of_record j r |j r. j \<in> set ?w \<and> newest_in ls j = Some r}"
          by blast
        have fresh: "i \<notin> turn_id ` set new" unfolding n(5) by (auto simp: turn_of_record_def)
        have "set rest = {j \<in> set wanted. newest_in (l # ls) j = None}" using n(1) w(1) Some x by auto
        moreover have "set (?t # new) = {turn_of_record j q |j q. j \<in> set wanted \<and> newest_in (l # ls) j = Some q}"
          using n(5) w(1) True Some x by auto
        moreover have "distinct (map turn_id (?t # new))" using n(4) fresh by (simp add: turn_of_record_def)
        ultimately show ?thesis using n(2,3) by (intro conjI exI [of _ "?t # new"]) auto
      qed
    qed
  qed
qed auto

lemma insort_map: "(\<And>i. k (f i) = i) \<Longrightarrow> insort_key k (f i) (map f xs) = map f (insort i xs)"
  by (induction xs) auto

lemma sort_map: "(\<And>i. k (f i) = (i :: nat)) \<Longrightarrow> sort_key k (map f xs) = map f (sort xs)"
  by (induction xs) (auto simp: insort_map)

lemma sort_distinct: "distinct xs \<Longrightarrow> sort xs = sorted_list_of_set (set xs)"
  by (simp add: sorted_list_of_set_sort_remdups distinct_remdups_id)

lemma sorted_set_filter:
  "sorted_list_of_set {i \<in> set (xs :: nat list). P i} = filter P (sorted_list_of_set (set xs))"
  by (rule sorted_distinct_set_unique) (auto intro: sorted_wrt_filter)

lemma hydrate_exact_facts:
  "hy_turns (hydrate_turns fs ids) =
     List.map_filter (\<lambda>i. map_option (turn_of_record i) (newest fs i)) (sorted_list_of_set (set ids)) \<and>
   hy_missing (hydrate_turns fs ids) = filter (\<lambda>i. newest fs i = None) (sorted_list_of_set (set ids))"
proof -
  obtain rest ts bad where h: "hydrate_scan (remdups ids) [] 0 (scan_order fs) = (rest, ts, bad)" by (metis prod_cases3)
  from hydrate_scan_found [OF h] have r: "set rest = {i \<in> set ids. newest fs i = None}" "distinct rest"
    "distinct (map turn_id ts)" "set ts = {turn_of_record i r |i r. i \<in> set ids \<and> newest fs i = Some r}"
    by (auto simp: newest_def)
  let ?f = "\<lambda>i. turn_of_record i (the (newest fs i))"
  have "ts = map ?f (map turn_id ts)" using r(4) by (auto intro!: map_idI [symmetric] simp: turn_of_record_def comp_def)
  then have "sort_key turn_id ts = map ?f (sort (map turn_id ts))"
    using sort_map [of turn_id ?f "map turn_id ts"] by (simp add: turn_of_record_def)
  moreover have "sort (map turn_id ts) = filter (\<lambda>i. newest fs i \<noteq> None) (sorted_list_of_set (set ids))"
  proof -
    have "set (map turn_id ts) = {i \<in> set ids. newest fs i \<noteq> None}" using r(4) by (force simp: turn_of_record_def image_iff)
    then show ?thesis by (simp only: sort_distinct [OF r(3)] sorted_set_filter)
  qed
  moreover have "map ?f (filter (\<lambda>i. newest fs i \<noteq> None) xs) =
      List.map_filter (\<lambda>i. map_option (turn_of_record i) (newest fs i)) xs" for xs
    by (induction xs) (auto simp: List.map_filter_simps)
  moreover have "sort rest = filter (\<lambda>i. newest fs i = None) (sorted_list_of_set (set ids))"
    by (simp only: sort_distinct [OF r(2)] r(1) sorted_set_filter)
  ultimately show ?thesis by (simp add: hydrate_turns_def h)
qed


section \<open>The window of the newest turns\<close>

lemma tail_scan_window:
  "\<exists>new. tail_scan budget used seen ts ls = ts @ new \<and>
     (used \<le> budget \<longrightarrow> used + sum_list (map estimated_tokens new) \<le> budget) \<and>
     distinct (map turn_id new) \<and> turn_id ` set new \<inter> set seen = {} \<and>
     (\<forall>t \<in> set new. \<exists>r. newest_in ls (turn_id t) = Some r \<and> t = turn_of_record (turn_id t) r)"
proof (induction budget used seen ts ls rule: tail_scan.induct)
  case (2 budget used seen ts l ls)
  show ?case
  proof (cases "turn_record l")
    case (Some x)
    obtain i r where x: "x = (i, r)" by fastforce
    consider (dup) "i \<in> set seen" | (full) "i \<notin> set seen" "budget < used + hr_tokens r"
      | (take) "i \<notin> set seen" "used + hr_tokens r \<le> budget" by linarith
    then show ?thesis
    proof cases
      case dup
      from "2.IH"(2) [OF Some x [symmetric] dup] obtain new where n:
        "tail_scan budget used seen ts ls = ts @ new" "used \<le> budget \<longrightarrow> used + sum_list (map estimated_tokens new) \<le> budget"
        "distinct (map turn_id new)" "turn_id ` set new \<inter> set seen = {}"
        "\<forall>t \<in> set new. \<exists>r. newest_in ls (turn_id t) = Some r \<and> t = turn_of_record (turn_id t) r" by blast
      have "turn_id t \<noteq> i" if "t \<in> set new" for t using n(4) dup that by auto
      then show ?thesis using n Some x dup by (intro exI [of _ new]) auto
    next
      case full
      then show ?thesis using Some x by (intro exI [of _ "[]"]) auto
    next
      case take
      have nf: "\<not> budget < used + hr_tokens r" using take(2) by simp
      from "2.IH"(3) [OF Some x [symmetric] take(1) nf] obtain new where n:
        "tail_scan budget (used + hr_tokens r) (i # seen) (ts @ [turn_of_record i r]) ls = (ts @ [turn_of_record i r]) @ new"
        "used + hr_tokens r \<le> budget \<longrightarrow> used + hr_tokens r + sum_list (map estimated_tokens new) \<le> budget"
        "distinct (map turn_id new)" "turn_id ` set new \<inter> set (i # seen) = {}"
        "\<forall>t \<in> set new. \<exists>r. newest_in ls (turn_id t) = Some r \<and> t = turn_of_record (turn_id t) r" by blast
      have "turn_id t \<noteq> i" if "t \<in> set new" for t using n(4) that by auto
      then show ?thesis using n Some x take
        by (intro exI [of _ "turn_of_record i r # new"]) (auto simp: turn_of_record_def)
    qed
  qed (use "2.IH"(1) in auto)
qed simp

lemma tail_window:
  shows "sum_list (map estimated_tokens (tail_turns_within_budget fs budget)) \<le> budget"
    and "distinct (map turn_id (tail_turns_within_budget fs budget))"
    and "t \<in> set (tail_turns_within_budget fs budget) \<Longrightarrow>
      \<exists>r. newest fs (turn_id t) = Some r \<and> t = turn_of_record (turn_id t) r"
proof -
  obtain new where n: "tail_scan budget 0 [] [] (scan_order fs) = new" "sum_list (map estimated_tokens new) \<le> budget"
    "distinct (map turn_id new)"
    "\<forall>t \<in> set new. \<exists>r. newest_in (scan_order fs) (turn_id t) = Some r \<and> t = turn_of_record (turn_id t) r"
    using tail_scan_window [of budget 0 "[]" "[]" "scan_order fs"] by auto
  show "sum_list (map estimated_tokens (tail_turns_within_budget fs budget)) \<le> budget"
    "distinct (map turn_id (tail_turns_within_budget fs budget))"
    using n(2,3) by (simp_all add: tail_turns_within_budget_def n(1) rev_map [symmetric] sum_list_rev)
  show "\<exists>r. newest fs (turn_id t) = Some r \<and> t = turn_of_record (turn_id t) r"
    if "t \<in> set (tail_turns_within_budget fs budget)"
    using that n(4) by (auto simp: tail_turns_within_budget_def n(1) newest_def)
qed

section \<open>Appending\<close>

text \<open>The log takes a whole line of the given day: the clock has not gone back, and the file of the day is readable and ended.\<close>

definition log_open :: "string \<Rightarrow> 'm day_file list \<Rightarrow> bool" where
  "log_open today fs \<longleftrightarrow> sorted (map df_name fs) \<and> distinct (map df_name fs) \<and> (\<forall>f \<in> set fs. df_name f \<le> today) \<and>
     (\<forall>f \<in> set fs. df_name f = today \<longrightarrow> df_readable f \<and> df_end f = Ended)"

lemma scan_order_Cons: "scan_order (f # fs) = scan_order fs @ (if df_readable f then rev (visible_lines f) else [])"
  by (simp add: scan_order_def)

lemma scan_appended:
  "log_open today fs \<Longrightarrow> scan_order (on_day today (write_line r) fs) = Entry r # scan_order fs"
proof (induction fs)
  case Nil
  show ?case by (simp add: scan_order_def write_line_def empty_day_def visible_lines_def)
next
  case (Cons f fs)
  show ?case
  proof (cases "df_name f = today")
    case True
    then have "fs = []" using Cons.prems by (cases fs) (auto simp: log_open_def)
    then show ?thesis using True Cons.prems
      by (simp add: scan_order_def write_line_def visible_lines_def log_open_def)
  next
    case False
    then have n: "\<not> today < df_name f" using Cons.prems by (auto simp: log_open_def)
    have "log_open today fs" using Cons.prems by (auto simp: log_open_def)
    from Cons.IH [OF this] show ?thesis using False n by (simp add: scan_order_Cons)
  qed
qed

lemma on_day_open: "log_open today fs \<Longrightarrow> log_open today (on_day today (write_line r) fs)"
proof (induction fs)
  case (Cons f fs)
  have tail: "log_open today fs" using Cons.prems by (auto simp: log_open_def)
  have names: "set (map df_name (on_day today (write_line r) fs)) = insert today (set (map df_name fs))" for fs
    by (induction fs) (auto simp: write_line_def empty_day_def)
  show ?case
  proof (cases "df_name f = today")
    case True
    then show ?thesis using Cons.prems by (auto simp: log_open_def write_line_def)
  next
    case False
    moreover have "\<not> today < df_name f" using Cons.prems by (auto simp: log_open_def)
    moreover have "today \<notin> set (map df_name fs) \<or> True" by simp
    ultimately show ?thesis using Cons.IH [OF tail] Cons.prems names [of fs] by (auto simp: log_open_def)
  qed
qed (simp add: log_open_def write_line_def empty_day_def)

lemma newest_appended:
  "log_open today fs \<Longrightarrow> newest (on_day today (write_line r) fs) i =
     (if hr_kind r = RkTurn \<and> hr_turn r = Some i then Some r else newest fs i)"
  by (auto simp: newest_def scan_appended turn_record_def split: option.split)

end
