(* ===== verification/Context_Disk.thy ===== *)
theory Context_Disk
  imports History_Log Tool_Rounds
begin

text \<open>
  The context of an agent on disk (\<open>kallip-runtime/src/persistence.rs\<close>): the manifest and pins documents
  with their backups, loading through the backup chain, the rebuild from the history tail, the migration of
  the legacy format, the restore of an agent and the offline repair of its tool pairing.

  A document is absent, unparseable or parsed; writing a value and parsing it back gives the value
  (\<open>serde_json\<close>). \<open>atomic_write\<close> replaces a document whole or not at all; the copy to the backup is not
  atomic and may leave a torn backup. The outcomes of the file operations, in the order in which they run,
  are arguments. The approvals document is the type \<open>'a\<close>; \<open>None\<close> is the fresh store.
\<close>

section \<open>Documents\<close>

datatype 'a doc = NoFile | BadFile | GoodFile 'a

datatype copy_result = CopyDone | CopyRefused | CopyTorn

record disk_env =
  di_copy :: "nat \<Rightarrow> copy_result"
  di_write :: "nat \<Rightarrow> bool"
  di_rename :: bool
  di_append :: "nat \<Rightarrow> append_outcome"
  di_today :: string

record ('m, 'd, 'a) agent_disk =
  ad_manifest :: "manifest_doc doc"
  ad_manifest_bak :: "manifest_doc doc"
  ad_pins :: "'m pins_doc doc"
  ad_pins_bak :: "'m pins_doc doc"
  ad_legacy :: "('m, 'd) context_store doc"
  ad_legacy_archive :: "('m, 'd) context_store doc"
  ad_approvals :: "'a doc"
  ad_history :: "'m day_file list"

fun doc_exists :: "'a doc \<Rightarrow> bool" where
  "doc_exists NoFile = False"
| "doc_exists _ = True"

fun read_doc :: "'a doc \<Rightarrow> 'a option" where
  "read_doc (GoodFile x) = Some x"
| "read_doc _ = None"

fun backup_copy :: "copy_result \<Rightarrow> 'a doc \<Rightarrow> 'a doc \<Rightarrow> 'a doc" where
  "backup_copy CopyDone primary bak = primary"
| "backup_copy CopyRefused primary bak = bak"
| "backup_copy CopyTorn primary bak = BadFile"

definition write_with_backup :: "copy_result \<Rightarrow> bool \<Rightarrow> 'a \<Rightarrow> 'a doc \<times> 'a doc \<Rightarrow> bool \<times> 'a doc \<times> 'a doc" where
  "write_with_backup cp wr x = (\<lambda>(primary, bak).
     (wr, if wr then GoodFile x else primary, if doc_exists primary then backup_copy cp primary bak else bak))"

definition load_with_backup :: "'a doc \<Rightarrow> 'a doc \<Rightarrow> ('a \<times> bool) option" where
  "load_with_backup primary bak =
     (case read_doc primary of
        Some x \<Rightarrow> Some (x, False)
      | None \<Rightarrow> map_option (\<lambda>x. (x, True)) (read_doc bak))"

definition write_manifest ::
  "disk_env \<Rightarrow> nat \<Rightarrow> ('m, 'd) context_store \<Rightarrow> ('m, 'd, 'a) agent_disk \<Rightarrow> bool \<times> ('m, 'd, 'a) agent_disk" where
  "write_manifest env k s d =
     (let (ok, p, b) = write_with_backup (di_copy env k) (di_write env k) (to_manifest_doc s) (ad_manifest d, ad_manifest_bak d)
      in (ok, d\<lparr>ad_manifest := p, ad_manifest_bak := b\<rparr>))"

definition write_pins ::
  "disk_env \<Rightarrow> nat \<Rightarrow> ('m, 'd) context_store \<Rightarrow> ('m, 'd, 'a) agent_disk \<Rightarrow> bool \<times> ('m, 'd, 'a) agent_disk" where
  "write_pins env k s d =
     (let (ok, p, b) = write_with_backup (di_copy env k) (di_write env k) (to_pins_doc s) (ad_pins d, ad_pins_bak d)
      in (ok, d\<lparr>ad_pins := p, ad_pins_bak := b\<rparr>))"

definition persist_context ::
  "disk_env \<Rightarrow> ('m, 'd) context_store \<Rightarrow> ('m, 'd, 'a) agent_disk \<Rightarrow> bool \<times> ('m, 'd, 'a) agent_disk" where
  "persist_context env s d =
     (let (ok, d1) = write_manifest env 0 s d
      in if ok then write_pins env 1 s d1 else (False, d1))"

section \<open>Loading\<close>

datatype degradation =
    MissingHistoryTurns "nat list"
  | BadHistoryLines nat
  | UnansweredToolCalls nat "string list"
  | OrphanToolResults nat "string list"
  | TailRecovery nat nat nat nat nat
  | PinsLost

definition pairing_damaged :: "'m chat_api \<Rightarrow> 'm list \<Rightarrow> bool" where
  "pairing_damaged api ms \<longleftrightarrow> unanswered_call_ids api ms \<noteq> [] \<or> orphan_result_ids api ms \<noteq> []"

definition load_pins :: "('m, 'd, 'a) agent_disk \<Rightarrow> 'm pins_doc \<times> degradation list" where
  "load_pins d =
     (case load_with_backup (ad_pins d) (ad_pins_bak d) of
        Some (p, _) \<Rightarrow> (p, [])
      | None \<Rightarrow> (\<lparr>pd_version = FORMAT_VERSION, pd_pins = []\<rparr>, [PinsLost]))"

definition rebuild_window_from_tail ::
  "'m chat_api \<Rightarrow> nat \<Rightarrow> ('m, 'd, 'a) agent_disk \<Rightarrow> ('m, 'd) context_store \<times> degradation list" where
  "rebuild_window_from_tail api budget d =
     (let (pins, deg) = load_pins d;
          found = tail_turns_within_budget (ad_history d) budget;
          damaged = length (takeWhile (\<lambda>t. pairing_damaged api (messages t)) found);
          kept = drop damaged found;
          nxt = max_turn_id (ad_history d) + 1
      in (from_persisted pins kept
            \<lparr>md_version = FORMAT_VERSION, md_conversation_turn_ids = map turn_id kept,
             md_cumulative = \<lparr>cu_prompt = 0, cu_completion = 0, cu_cache_hit = 0\<rparr>,
             md_next_turn_id = nxt, md_retry_log = []\<rparr>,
          deg @ [TailRecovery (length kept) (length found) budget damaged nxt]))"

definition RESTART_MESSAGE :: string where
  "RESTART_MESSAGE = ''[system]'' @ [newline] @
     ''Agent restored from a previous state. Shell sessions have been reset '' @ [CHR 0xE2, CHR 0x80, CHR 0x94] @ [newline] @
     ''environment variables, working directory, and background processes are no'' @ [newline] @
     ''longer available. Review the current state of the project and re-establish'' @ [newline] @
     ''any necessary conditions before continuing. Directory write-locks are managed by'' @ [newline] @
     ''the system for the lifetime of your task and were re-established on restore; they'' @ [newline] @
     ''need no action from you.'' @ [newline]"

definition is_restart_turn :: "'m chat_ops \<Rightarrow> 'm turn \<Rightarrow> bool" where
  "is_restart_turn ops t \<longleftrightarrow> \<not> is_pinned t \<and> length (messages t) = 1 \<and> msg_content ops (messages t ! 0) = Some RESTART_MESSAGE"

definition strip_restart_turns :: "'m chat_ops \<Rightarrow> ('m, 'd) context_store \<Rightarrow> ('m, 'd) context_store" where
  "strip_restart_turns ops s =
     fold (\<lambda>i s. snd (drain_turns i (i + 1) s))
       (rev (filter (\<lambda>i. is_restart_turn ops (turns s ! i)) [0..<length (turns s)])) s"

datatype load_err = LegacyUnparseable | ApprovalsUnparseable | MigrationFailed

definition load_split ::
  "'m chat_api \<Rightarrow> nat \<Rightarrow> ('m, 'd, 'a) agent_disk \<Rightarrow> ('m, 'd) context_store \<times> degradation list" where
  "load_split api budget d =
     (case load_with_backup (ad_manifest d) (ad_manifest_bak d) of
        None \<Rightarrow> rebuild_window_from_tail api budget d
      | Some (manifest, _) \<Rightarrow>
          (let (pins, deg) = load_pins d;
               h = hydrate_turns (ad_history d) (md_conversation_turn_ids manifest)
           in (from_persisted pins (hy_turns h) manifest,
               deg @ (if 0 < hy_bad_lines h then [BadHistoryLines (hy_bad_lines h)] else [])
                   @ (if hy_missing h \<noteq> [] then [MissingHistoryTurns (hy_missing h)] else []))))"

definition load_store ::
  "'m chat_ops \<Rightarrow> 'm chat_api \<Rightarrow> disk_env \<Rightarrow> nat \<Rightarrow> ('m, 'd, 'a) agent_disk \<Rightarrow>
   (load_err + ('m, 'd) context_store \<times> bool \<times> degradation list) \<times> ('m, 'd, 'a) agent_disk" where
  "load_store ops api env budget d =
     (if doc_exists (ad_manifest d) \<or> doc_exists (ad_manifest_bak d)
      then (let d1 = (if doc_exists (ad_legacy d) \<and> di_rename env
                      then d\<lparr>ad_legacy := NoFile, ad_legacy_archive := ad_legacy d\<rparr> else d);
                (s, deg) = load_split api budget d1
            in (Inr (s, False, deg), d1))
      else case ad_legacy d of
             GoodFile s \<Rightarrow> (Inr (strip_restart_turns ops s, True, []), d)
           | BadFile \<Rightarrow> (Inl LegacyUnparseable, d)
           | NoFile \<Rightarrow>
               (if has_history (ad_history d)
                then (let (s, deg) = rebuild_window_from_tail api budget d in (Inr (s, False, deg), d))
                else (Inr (new_store, False, []), d)))"

section \<open>Restore\<close>

definition check_tool_pairing :: "'m chat_api \<Rightarrow> ('m, 'd) context_store \<Rightarrow> degradation list" where
  "check_tool_pairing api s =
     concat (map (\<lambda>t.
       (if unanswered_call_ids api (messages t) \<noteq> []
        then [UnansweredToolCalls (turn_id t) (map fst (unanswered_call_ids api (messages t)))] else []) @
       (if orphan_result_ids api (messages t) \<noteq> []
        then [OrphanToolResults (turn_id t) (orphan_result_ids api (messages t))] else [])) (turns s))"

definition migrate_legacy_to_split ::
  "disk_env \<Rightarrow> ('m, 'd) context_store \<Rightarrow> ('m, 'd, 'a) agent_disk \<Rightarrow> bool \<times> ('m, 'd, 'a) agent_disk" where
  "migrate_legacy_to_split env s d =
     (case write_pins env 0 s d of
        (False, d1) \<Rightarrow> (False, d1)
      | (True, d1) \<Rightarrow>
          (case write_manifest env 1 s d1 of
             (False, d2) \<Rightarrow> (False, d2)
           | (True, d2) \<Rightarrow>
               if di_rename env \<and> doc_exists (ad_legacy d2)
               then (True, d2\<lparr>ad_legacy := NoFile, ad_legacy_archive := ad_legacy d2\<rparr>) else (False, d2)))"

definition restart_record :: "'m chat_ops \<Rightarrow> nat \<Rightarrow> 'm history_record" where
  "restart_record ops est =
     \<lparr>hr_turn = None, hr_messages = [mk_user ops RESTART_MESSAGE], hr_tokens = est, hr_kind = RkSystem,
      hr_event = Some AgentRestore\<rparr>"

text \<open>The steps after the folds: the fresh notice, which stays out of the manifest, and its record.\<close>

definition announce_restart ::
  "'m chat_ops \<Rightarrow> disk_env \<Rightarrow> ('m, 'd) context_store \<Rightarrow> ('m, 'd, 'a) agent_disk \<Rightarrow>
   ('m, 'd) context_store \<times> ('m, 'd, 'a) agent_disk" where
  "announce_restart ops env s d =
     (let ((rid, est), s1) = push_turn ops [mk_user ops RESTART_MESSAGE] (strip_restart_turns ops s)
      in (register_injected_turn rid s1,
          d\<lparr>ad_history := snd (append_record (di_append env 0) (di_today env) (restart_record ops est) (ad_history d))\<rparr>))"

definition fold_legacy :: "'m chat_ops \<Rightarrow> ('m, 'd) context_store \<Rightarrow> ('m, 'd) context_store" where
  "fold_legacy ops s = migrate_legacy_summary ops (migrate_legacy_pinned s)"

definition restore_agent ::
  "'m chat_ops \<Rightarrow> 'm chat_api \<Rightarrow> disk_env \<Rightarrow> nat \<Rightarrow> ('m, 'd, 'a) agent_disk \<Rightarrow>
   (load_err + ('m, 'd) context_store \<times> 'a option \<times> degradation list) \<times> ('m, 'd, 'a) agent_disk" where
  "restore_agent ops api env budget d =
     (case load_store ops api env budget d of
        (Inl e, d1) \<Rightarrow> (Inl e, d1)
      | (Inr (s0, pending, deg), d1) \<Rightarrow>
          if ad_approvals d1 = BadFile then (Inl ApprovalsUnparseable, d1)
          else
            (let s1 = fold_legacy ops s0;
                 deg1 = deg @ check_tool_pairing api s1;
                 s2 = mark_needs_full_estimate (reestimate_cached_tokens ops s1);
                 (ok, d2) = (if pending then migrate_legacy_to_split env s2 d1 else (True, d1))
             in if \<not> ok then (Inl MigrationFailed, d2)
                else (let (s3, d3) = announce_restart ops env s2 d2
                      in (Inr (s3, read_doc (ad_approvals d1), deg1), d3))))"

section \<open>Offline repair\<close>

record repair_action =
  ra_turn :: nat
  ra_unanswered :: "string list"
  ra_orphans :: "string list"

definition repair_messages :: "json_codec \<Rightarrow> 'm chat_api \<Rightarrow> 'm list \<Rightarrow> 'm list" where
  "repair_messages jc api ms =
     filter (\<lambda>m. case ca_tool_call_id api m of None \<Rightarrow> True | Some i \<Rightarrow> i \<notin> set (orphan_result_ids api ms))
       (ms @ map (\<lambda>(i, n). ca_tool_result api
            (error_result jc n ''not executed: no result was ever recorded for this call (offline repair)'') i)
          (unanswered_call_ids api ms))"

definition repair_action_of :: "'m chat_api \<Rightarrow> 'm turn \<Rightarrow> repair_action" where
  "repair_action_of api t =
     \<lparr>ra_turn = turn_id t, ra_unanswered = map fst (unanswered_call_ids api (messages t)),
      ra_orphans = orphan_result_ids api (messages t)\<rparr>"

definition repaired_record :: "json_codec \<Rightarrow> 'm chat_ops \<Rightarrow> 'm chat_api \<Rightarrow> 'm turn \<Rightarrow> 'm history_record" where
  "repaired_record jc ops api t =
     (let ms = repair_messages jc api (messages t)
      in \<lparr>hr_turn = Some (turn_id t), hr_messages = ms, hr_tokens = estimate_tokens ops ms, hr_kind = RkTurn,
          hr_event = None\<rparr>)"

text \<open>The loop over the turns; an append that fails ends it with an error.\<close>

fun repair_turns ::
  "json_codec \<Rightarrow> 'm chat_ops \<Rightarrow> 'm chat_api \<Rightarrow> disk_env \<Rightarrow> bool \<Rightarrow> nat \<Rightarrow> 'm turn list \<Rightarrow> 'm day_file list \<Rightarrow>
   (unit + repair_action list) \<times> 'm day_file list" where
  "repair_turns jc ops api env really k [] fs = (Inr [], fs)"
| "repair_turns jc ops api env really k (t # ts) fs =
     (if is_pinned t \<or> \<not> pairing_damaged api (messages t)
      then repair_turns jc ops api env really k ts fs
      else
        (let (ok, fs1) = (if really
                          then append_record (di_append env k) (di_today env) (repaired_record jc ops api t) fs
                          else (True, fs))
         in if \<not> ok then (Inl (), fs1)
            else (let (r, fs2) = repair_turns jc ops api env really (Suc k) ts fs1
                  in (case r of Inl e \<Rightarrow> Inl e | Inr acts \<Rightarrow> Inr (repair_action_of api t # acts), fs2))))"

datatype repair_err = RepairLoad load_err | RepairAppend

definition repair_agent_context ::
  "json_codec \<Rightarrow> 'm chat_ops \<Rightarrow> 'm chat_api \<Rightarrow> disk_env \<Rightarrow> nat \<Rightarrow> bool \<Rightarrow> ('m, 'd, 'a) agent_disk \<Rightarrow>
   (repair_err + degradation list \<times> repair_action list) \<times> ('m, 'd, 'a) agent_disk" where
  "repair_agent_context jc ops api env budget really d =
     (case load_store ops api env budget d of
        (Inl e, d1) \<Rightarrow> (Inl (RepairLoad e), d1)
      | (Inr (s, _, deg), d1) \<Rightarrow>
          (let (r, fs) = repair_turns jc ops api env really 0 (turns s) (ad_history d1)
           in (case r of Inl _ \<Rightarrow> Inl RepairAppend | Inr acts \<Rightarrow> Inr (deg, acts), d1\<lparr>ad_history := fs\<rparr>)))"

section \<open>Restart notices\<close>

lemma fold_drop_append:
  assumes "sorted_wrt (>) is" "\<forall>i \<in> set is. i < length xs"
  shows "fold (\<lambda>i xs. take i xs @ drop (Suc i) xs) is (xs @ ys) =
    fold (\<lambda>i xs. take i xs @ drop (Suc i) xs) is xs @ ys"
  using assms
proof (induction "is" arbitrary: xs)
  case (Cons i "is")
  have i: "i < length xs" using Cons.prems by simp
  have "\<forall>j \<in> set is. j < length (take i xs @ drop (Suc i) xs)" using Cons.prems i by auto
  from Cons.IH [OF _ this] show ?case using Cons.prems i by simp
qed simp

lemma fold_drop_filter:
  "fold (\<lambda>i xs. take i xs @ drop (Suc i) xs) (rev (filter (\<lambda>i. P (xs ! i)) [0..<length xs])) xs = filter (\<lambda>x. \<not> P x) xs"
proof (induction xs rule: rev_induct)
  case (snoc x xs)
  let ?is = "rev (filter (\<lambda>i. P (xs ! i)) [0..<length xs])"
  have e: "filter (\<lambda>i. P ((xs @ [x]) ! i)) [0..<length xs] = filter (\<lambda>i. P (xs ! i)) [0..<length xs]"
    by (intro filter_cong) (auto simp: nth_append)
  have "sorted_wrt (>) ?is" by (simp add: sorted_wrt_rev sorted_wrt_filter)
  moreover have "\<forall>i \<in> set ?is. i < length xs" by auto
  ultimately have f: "fold (\<lambda>i xs. take i xs @ drop (Suc i) xs) ?is (xs @ [x]) = filter (\<lambda>x. \<not> P x) xs @ [x]"
    by (simp only: fold_drop_append snoc.IH)
  have u: "[0..<length (xs @ [x])] = [0..<length xs] @ [length xs]" by simp
  show ?case
  proof (cases "P x")
    case True
    then show ?thesis unfolding u filter_append e rev_append fold_append by (simp add: snoc.IH)
  next
    case False
    then show ?thesis unfolding u filter_append e rev_append fold_append by (simp add: f)
  qed
qed simp

lemma turns_drains:
  "turns (fold (\<lambda>i s. snd (drain_turns i (i + 1) s)) is s) = fold (\<lambda>i xs. take i xs @ drop (Suc i) xs) is (turns s)"
  "next_turn_id (fold (\<lambda>i s. snd (drain_turns i (i + 1) s)) is s) = next_turn_id s"
  "injected_turn_ids (fold (\<lambda>i s. snd (drain_turns i (i + 1) s)) is s) = injected_turn_ids s"
  by (induction "is" arbitrary: s) (simp_all add: drain_turns_def)

lemma strip_fields [simp]:
  "turns (strip_restart_turns ops s) = filter (\<lambda>t. \<not> is_restart_turn ops t) (turns s)"
  "next_turn_id (strip_restart_turns ops s) = next_turn_id s"
  "injected_turn_ids (strip_restart_turns ops s) = injected_turn_ids s"
  unfolding strip_restart_turns_def turns_drains by (rule fold_drop_filter refl)+

section \<open>Properties\<close>

text \<open>
  What a crash inside a durable write, or between the two, may leave: the old document; the old document
  with a torn or a fresh backup; the new one with any backup that the copy may have left.
\<close>

inductive write_crash :: "'a \<Rightarrow> 'a doc \<times> 'a doc \<Rightarrow> 'a doc \<times> 'a doc \<Rightarrow> bool" for x where
  wc_before: "write_crash x (p, b) (p, b)"
| wc_copying: "doc_exists p \<Longrightarrow> write_crash x (p, b) (p, BadFile)"
| wc_copied: "doc_exists p \<Longrightarrow> write_crash x (p, b) (p, p)"
| wc_done: "write_with_backup cp True x pb = (True, p', b') \<Longrightarrow> write_crash x pb (p', b')"

inductive persist_crash ::
  "('m, 'd) context_store \<Rightarrow> ('m, 'd, 'a) agent_disk \<Rightarrow> ('m, 'd, 'a) agent_disk \<Rightarrow> bool" for s d where
  pc_manifest: "write_crash (to_manifest_doc s) (ad_manifest d, ad_manifest_bak d) (p, b) \<Longrightarrow>
    persist_crash s d (d\<lparr>ad_manifest := p, ad_manifest_bak := b\<rparr>)"
| pc_pins: "write_with_backup cp True (to_manifest_doc s) (ad_manifest d, ad_manifest_bak d) = (True, p, b) \<Longrightarrow>
    write_crash (to_pins_doc s) (ad_pins d, ad_pins_bak d) (p', b') \<Longrightarrow>
    persist_crash s d (d\<lparr>ad_manifest := p, ad_manifest_bak := b, ad_pins := p', ad_pins_bak := b'\<rparr>)"

lemma write_crash_loads:
  assumes "write_crash x (GoodFile y, b) (p', b')"
  shows "\<exists>z. p' = GoodFile z \<and> (z = x \<or> z = y)"
  using assms by (cases rule: write_crash.cases) (auto simp: write_with_backup_def split: prod.splits)


lemma hydrated_ids: "t \<in> set (hy_turns (hydrate_turns fs ids)) \<Longrightarrow> turn_id t \<in> set ids"
  by (auto simp: hydrate_exact_facts set_map_filter turn_of_record_def)

definition split_format :: "('m, 'd, 'a) agent_disk \<Rightarrow> bool" where
  "split_format d \<longleftrightarrow> doc_exists (ad_manifest d) \<or> doc_exists (ad_manifest_bak d)"

lemma load_store_cases:
  "load_store ops api env budget d =
     (if split_format d
      then (case load_split api budget
              (if doc_exists (ad_legacy d) \<and> di_rename env then d\<lparr>ad_legacy := NoFile, ad_legacy_archive := ad_legacy d\<rparr> else d) of
              (s, deg) \<Rightarrow> (Inr (s, False, deg),
                if doc_exists (ad_legacy d) \<and> di_rename env then d\<lparr>ad_legacy := NoFile, ad_legacy_archive := ad_legacy d\<rparr> else d))
      else (case ad_legacy d of
              GoodFile s \<Rightarrow> (Inr (strip_restart_turns ops s, True, []), d)
            | BadFile \<Rightarrow> (Inl LegacyUnparseable, d)
            | NoFile \<Rightarrow> (if has_history (ad_history d)
                then (case rebuild_window_from_tail api budget d of (s, deg) \<Rightarrow> (Inr (s, False, deg), d))
                else (Inr (new_store, False, []), d))))"
  unfolding load_store_def split_format_def Let_def by simp

lemma migrate_ok:
  "fst (migrate_legacy_to_split env s d) \<longleftrightarrow> di_write env 0 \<and> di_write env 1 \<and> di_rename env \<and> doc_exists (ad_legacy d)"
  by (auto simp: migrate_legacy_to_split_def write_pins_def write_manifest_def write_with_backup_def Let_def
      split: prod.splits bool.splits)


text \<open>
  Exactly one restart notice. After every successful restore the log ends with the notice, no other
  conversation turn is one, whatever earlier restores or older formats left behind, and the notice stays
  out of the next manifest.
\<close>

theorem restart_announced_once:
  assumes "restore_agent ops api env budget d = (Inr (s, ap, deg), d')"
    "\<And>t. msg_content ops (mk_user ops t) = Some t"
  shows "turns s \<noteq> [] \<and> messages (last (turns s)) = [mk_user ops RESTART_MESSAGE] \<and>
    filter (is_restart_turn ops) (turns s) = [last (turns s)] \<and>
    turn_id (last (turns s)) \<notin> set (md_conversation_turn_ids (to_manifest_doc s))"
proof -
  obtain s2 d2 where a: "announce_restart ops env s2 d2 = (s, d')"
    using assms(1) by (auto simp: restore_agent_def Let_def split: prod.splits sum.splits if_splits)
  let ?n = "\<lparr>turn_id = next_turn_id s2, messages = [mk_user ops RESTART_MESSAGE],
    estimated_tokens = estimate_tokens ops [mk_user ops RESTART_MESSAGE], kind = Conversation\<rparr>"
  have t: "turns s = filter (\<lambda>t. \<not> is_restart_turn ops t) (turns s2) @ [?n]"
    "next_turn_id s2 \<in> injected_turn_ids s"
    using a by (auto simp: announce_restart_def push_turn_def register_injected_turn_def Let_def)
  have "is_restart_turn ops ?n" by (simp add: is_restart_turn_def is_pinned_def assms(2))
  then show ?thesis using t by (auto simp: to_manifest_doc_def)
qed

definition records_of :: "'m day_file list \<Rightarrow> 'm turn list \<Rightarrow> bool" where
  "records_of fs ts \<longleftrightarrow> (\<forall>t \<in> set ts. \<exists>r. newest fs (turn_id t) = Some r \<and> turn_of_record (turn_id t) r = t)"

lemma hydrate_recorded:
  assumes "records_of fs ts" "sorted_wrt (<) (map turn_id ts)"
  shows "hy_turns (hydrate_turns fs (map turn_id ts)) = ts" "hy_missing (hydrate_turns fs (map turn_id ts)) = []"
proof -
  have ids: "sorted_list_of_set (set (map turn_id ts)) = map turn_id ts"
    using assms(2) by (intro sorted_distinct_set_unique) (simp_all only: strict_sorted_iff sorted_sorted_list_of_set
        distinct_sorted_list_of_set set_sorted_list_of_set finite_set)
  have "List.map_filter (\<lambda>i. map_option (turn_of_record i) (newest fs i)) (map turn_id ts') = ts'" if "records_of fs ts'" for ts'
    using that by (induction ts') (auto simp: List.map_filter_simps records_of_def)
  then show "hy_turns (hydrate_turns fs (map turn_id ts)) = ts"
    using assms(1) by (simp only: hydrate_exact_facts ids)
  show "hy_missing (hydrate_turns fs (map turn_id ts)) = []"
    using assms(1) by (auto simp only: hydrate_exact_facts ids records_of_def filter_empty_conv) auto
qed

text \<open>
  C28. What is persisted is what is restored. After a successful \<open>persist_context\<close> of a well-formed store
  whose conversation turns are the newest records of their ids in the history, loading the directory gives
  back its log without the injected notices, its next id, usage and retry log, and no turn is missing.
\<close>

theorem persist_load_roundtrip:
  assumes "store_ok s" "persist_context env s d = (True, d')"
    "records_of (ad_history d) (filter (\<lambda>t. turn_id t \<notin> injected_turn_ids s) (convo_turns s))"
    "load_split api budget d' = (s', deg)"
  shows "turns s' = filter (\<lambda>t. is_pinned t \<or> turn_id t \<notin> injected_turn_ids s) (turns s) \<and>
    next_turn_id s' = next_turn_id s \<and> cumulative s' = cumulative s \<and> retry_log s' = retry_log s \<and>
    (\<forall>ids. MissingHistoryTurns ids \<notin> set deg) \<and> PinsLost \<notin> set deg"
proof -
  let ?c = "filter (\<lambda>t. turn_id t \<notin> injected_turn_ids s) (convo_turns s)"
  have d': "ad_manifest d' = GoodFile (to_manifest_doc s)" "ad_pins d' = GoodFile (to_pins_doc s)" "ad_history d' = ad_history d"
    using assms(2) by (auto simp: persist_context_def write_manifest_def write_pins_def write_with_backup_def Let_def
        split: prod.splits if_splits)
  have ids: "md_conversation_turn_ids (to_manifest_doc s) = map turn_id ?c"
    by (simp add: to_manifest_doc_def convo_turns_def conj_commute)
  have "sorted_wrt (<) (map turn_id ?c)"
    using store_okD(5) [OF assms(1)] store_okD [OF assms(1)] by (auto simp: store_ok_def sorted_wrt_map intro!: sorted_wrt_filter)
  note h = hydrate_recorded [OF assms(3) this]
  have convo: "?c = filter (\<lambda>t. turn_id t \<in> set (md_conversation_turn_ids (to_manifest_doc s)) \<and> \<not> is_pinned t) (turns s)"
    unfolding ids convo_turns_def filter_filter by (intro filter_cong) auto
  have s': "s' = from_persisted (to_pins_doc s) ?c (to_manifest_doc s)"
    and deg: "set deg \<subseteq> range BadHistoryLines"
    using assms(4) by (auto simp: load_split_def load_pins_def load_with_backup_def d' ids h Let_def split: if_splits)
  show ?thesis
    using persist_roundtrip_facts [OF assms(1) convo] deg unfolding s' by auto
qed

lemma hydrated_id: "t \<in> set (hy_turns (hydrate_turns fs ids)) \<Longrightarrow> turn_id t \<in> set ids"
  by (auto simp: hydrate_exact_facts List.map_filter_def turn_of_record_def)

text \<open>
  Persisting is not atomic over its two documents. Let a compaction evict a conversation turn and pin
  its summary. The manifest is written first, so there is a crash after which the directory loads without
  any degradation about it, and neither the turn nor the summary is in the loaded log.
\<close>

theorem torn_persist_loses_summary:
  fixes d :: "('m, 'd, 'a) agent_disk"
  assumes "store_ok s0" "store_ok s" "ad_pins d = GoodFile (to_pins_doc s0)"
    "t \<in> set (convo_turns s0)" "turn_id t \<notin> turn_id ` set (turns s)"
    "p \<in> set (pinned_turns s)" "turn_id p \<notin> turn_id ` set (turns s0)"
  shows "\<exists>d'. persist_crash s d d' \<and> PinsLost \<notin> set (snd (load_split api budget d')) \<and>
    (\<forall>x \<in> set (turns (fst (load_split api budget d'))). turn_id x \<noteq> turn_id t \<and> turn_id x \<noteq> turn_id p)"
proof -
  let ?d = "d\<lparr>ad_manifest := GoodFile (to_manifest_doc s),
    ad_manifest_bak := (if doc_exists (ad_manifest d) then ad_manifest d else ad_manifest_bak d)\<rparr>"
  have c: "persist_crash s d ?d"
    by (intro pc_manifest wc_done [where cp = CopyDone]) (simp add: write_with_backup_def)
  have pins: "\<exists>q \<in> set (pinned_turns s0). turn_id x = turn_id q" if "x \<in> set (map turn_of_pin (pd_pins (to_pins_doc s0)))" for x
    using that by (auto simp: to_pins_doc_def turn_of_pin_def pin_of_turn_def)
  have ids: "turn_id x \<in> turn_id ` set (convo_turns s)"
    if "x \<in> set (hy_turns (hydrate_turns (ad_history d) (md_conversation_turn_ids (to_manifest_doc s))))" for x
    using hydrated_id [OF that] by (auto simp: to_manifest_doc_def convo_turns_def)
  have s0: "turn_id q \<noteq> turn_id t" if "q \<in> set (pinned_turns s0)" for q
    using that assms(4) store_okD(3) [OF assms(1)]
    by (auto simp: pinned_turns_def convo_turns_def distinct_map inj_on_def)
  have sp: "turn_id p \<notin> turn_id ` set (convo_turns s)"
    using assms(6) store_okD(3) [OF assms(2)]
    by (auto simp: pinned_turns_def convo_turns_def distinct_map inj_on_def)
  have l: "load_split api budget ?d =
      (from_persisted (to_pins_doc s0) (hy_turns (hydrate_turns (ad_history d) (md_conversation_turn_ids (to_manifest_doc s))))
         (to_manifest_doc s), snd (load_split api budget ?d))" "PinsLost \<notin> set (snd (load_split api budget ?d))"
    by (simp_all add: load_split_def load_pins_def load_with_backup_def assms(3) Let_def)
  have "turn_id x \<noteq> turn_id t \<and> turn_id x \<noteq> turn_id p" if x: "x \<in> set (turns (fst (load_split api budget ?d)))" for x
  proof -
    have "x \<in> set (map turn_of_pin (pd_pins (to_pins_doc s0))) \<or>
        x \<in> set (hy_turns (hydrate_turns (ad_history d) (md_conversation_turn_ids (to_manifest_doc s))))"
      using x by (subst (asm) l(1)) (auto simp: from_persisted_def Let_def)
    then show ?thesis
    proof
      assume "x \<in> set (map turn_of_pin (pd_pins (to_pins_doc s0)))"
      then obtain q where q: "q \<in> set (pinned_turns s0)" "turn_id x = turn_id q" using pins by blast
      then have "q \<in> set (turns s0)" by (simp add: pinned_turns_def)
      then show ?thesis using q s0 assms(7) by (metis imageI)
    next
      assume "x \<in> set (hy_turns (hydrate_turns (ad_history d) (md_conversation_turn_ids (to_manifest_doc s))))"
      note i = ids [OF this]
      moreover have "turn_id ` set (convo_turns s) \<subseteq> turn_id ` set (turns s)" by (auto simp: convo_turns_def)
      ultimately show ?thesis using assms(5) sp by (metis subsetD)
    qed
  qed
  then show ?thesis using c l(2) by blast
qed

text \<open>
  A write over a damaged document puts its damage into the backup first: where the new write then fails,
  the good backup, from which the agent was just restored, is gone too.
\<close>

theorem damage_overwrites_backup:
  "load_with_backup BadFile (GoodFile y) = Some (y, True) \<and>
   (let (ok, p, b) = write_with_backup CopyDone False x (BadFile, GoodFile y) in \<not> ok \<and> load_with_backup p b = None)"
  by (simp add: load_with_backup_def write_with_backup_def)

section \<open>Repair\<close>

text \<open>A message is a call or a result, not both (\<open>ChatMessage\<close> is an enumeration of roles).\<close>

definition one_role :: "'m chat_api \<Rightarrow> bool" where
  "one_role api \<longleftrightarrow> (\<forall>m. ca_tool_call_id api m \<noteq> None \<longrightarrow> ca_tool_calls api m = None)"

lemma results_only:
  assumes "chat_laws api"
  shows "List.map_filter (ca_tool_calls api) (map (\<lambda>(i, n). ca_tool_result api (f n) i) us) = []"
    and "List.map_filter (ca_tool_call_id api) (map (\<lambda>(i, n). ca_tool_result api (f n) i) us) = map fst us"
  using assms by (induction us) (auto simp: List.map_filter_simps chat_laws_def)

lemma repair_declared:
  assumes "chat_laws api" "one_role api"
  shows "declared_calls api (repair_messages jc api ms) = declared_calls api ms"
proof -
  let ?keep = "\<lambda>m. case ca_tool_call_id api m of None \<Rightarrow> True | Some i \<Rightarrow> i \<notin> set (orphan_result_ids api ms)"
  have none: "ca_tool_calls api m = None" if "\<not> ?keep m" for m
    using that assms(2) by (auto simp: one_role_def split: option.splits)
  have "List.map_filter (ca_tool_calls api) (filter ?keep xs) = List.map_filter (ca_tool_calls api) xs" for xs
    using none by (induction xs) (auto simp: List.map_filter_simps split: option.split)
  then show ?thesis
    by (simp add: repair_messages_def declared_calls_def map_filter_append
        results_only(1) [OF assms(1), of "\<lambda>n. error_result jc n x" for x])
qed

lemma repair_answered:
  assumes "chat_laws api"
  shows "answered_ids api (repair_messages jc api ms) =
    filter (\<lambda>i. i \<notin> set (orphan_result_ids api ms)) (answered_ids api ms @ map fst (unanswered_call_ids api ms))"
proof -
  have "List.map_filter (ca_tool_call_id api) (filter (\<lambda>m. case ca_tool_call_id api m of None \<Rightarrow> True | Some i \<Rightarrow> P i) xs) =
      filter P (List.map_filter (ca_tool_call_id api) xs)" for P xs
    by (induction xs) (auto simp: List.map_filter_simps split: option.split)
  then show ?thesis
    by (simp add: repair_messages_def answered_ids_def map_filter_append
        results_only(2) [OF assms(1), of "\<lambda>n. error_result jc n x" for x])
qed

lemma repair_clean:
  assumes "chat_laws api" "one_role api"
  shows "\<not> pairing_damaged api (repair_messages jc api ms)"
proof -
  let ?d = "map tc_id (declared_calls api ms)"
  have u: "fst ` set (unanswered_call_ids api ms) = {i \<in> set ?d. i \<notin> set (answered_ids api ms)}"
    by (force simp: unanswered_call_ids_def)
  have o: "set (orphan_result_ids api ms) = {i \<in> set (answered_ids api ms). i \<notin> set ?d}"
    by (auto simp: orphan_result_ids_def)
  have a: "set (answered_ids api (repair_messages jc api ms)) = set ?d"
    unfolding repair_answered [OF assms(1)] using u o by auto
  show ?thesis
    using a by (auto simp: pairing_damaged_def unanswered_call_ids_def orphan_result_ids_def repair_declared [OF assms]
        filter_empty_conv)
qed

definition damaged_turn :: "'m chat_api \<Rightarrow> 'm turn \<Rightarrow> bool" where
  "damaged_turn api t \<longleftrightarrow> \<not> is_pinned t \<and> pairing_damaged api (messages t)"

lemma map_filter_ids:
  "distinct xs \<Longrightarrow> distinct (map turn_id (List.map_filter (\<lambda>i. map_option (turn_of_record i) (f i)) xs))"
proof -
  have "map turn_id (List.map_filter (\<lambda>i. map_option (turn_of_record i) (f i)) xs) = filter (\<lambda>i. f i \<noteq> None) xs"
    by (induction xs) (auto simp: List.map_filter_simps turn_of_record_def split: option.split)
  then show "distinct xs \<Longrightarrow> ?thesis" by simp
qed

lemma repair_turns_clean:
  "\<forall>t \<in> set ts. \<not> damaged_turn api t \<Longrightarrow> repair_turns jc ops api env really k ts fs = (Inr [], fs)"
  by (induction ts) (auto simp: damaged_turn_def)

lemma repair_turns_effect:
  assumes "\<And>k. di_append env k = Appended" "log_open (di_today env) fs"
    "distinct (map turn_id (filter (damaged_turn api) ts))"
  shows "\<exists>fs'. repair_turns jc ops api env True k ts fs = (Inr (map (repair_action_of api) (filter (damaged_turn api) ts)), fs') \<and>
    log_open (di_today env) fs' \<and>
    (\<forall>t \<in> set ts. damaged_turn api t \<longrightarrow> newest fs' (turn_id t) = Some (repaired_record jc ops api t)) \<and>
    (\<forall>i. i \<notin> turn_id ` set (filter (damaged_turn api) ts) \<longrightarrow> newest fs' i = newest fs i)"
  using assms(2,3)
proof (induction ts arbitrary: k fs)
  case (Cons t ts)
  show ?case
  proof (cases "damaged_turn api t")
    case False
    then show ?thesis using Cons.IH [of fs k] Cons.prems by (auto simp: damaged_turn_def)
  next
    case True
    let ?fs1 = "on_day (di_today env) (write_line (repaired_record jc ops api t)) fs"
    have n: "newest ?fs1 i = (if i = turn_id t then Some (repaired_record jc ops api t) else newest fs i)" for i
      by (auto simp: newest_appended [OF Cons.prems(1)] repaired_record_def Let_def)
    have "log_open (di_today env) ?fs1" by (rule on_day_open [OF Cons.prems(1)])
    from Cons.IH [OF this, of "Suc k"] Cons.prems(2) True obtain fs' where f:
      "repair_turns jc ops api env True (Suc k) ts ?fs1 = (Inr (map (repair_action_of api) (filter (damaged_turn api) ts)), fs')"
      "log_open (di_today env) fs'"
      "\<forall>u \<in> set ts. damaged_turn api u \<longrightarrow> newest fs' (turn_id u) = Some (repaired_record jc ops api u)"
      "\<forall>i. i \<notin> turn_id ` set (filter (damaged_turn api) ts) \<longrightarrow> newest fs' i = newest ?fs1 i" by auto
    have "newest fs' (turn_id t) = Some (repaired_record jc ops api t)"
      using f(4) n [of "turn_id t"] Cons.prems(2) True by auto
    moreover have "repair_turns jc ops api env True k (t # ts) fs =
        (Inr (map (repair_action_of api) (filter (damaged_turn api) (t # ts))), fs')"
      using True f(1) by (simp add: damaged_turn_def append_record_def assms(1))
    ultimately show ?thesis using f(2,3,4) n True by (intro exI [of _ fs']) auto
  qed
qed auto

lemma load_split_legacy: "load_split api budget (d\<lparr>ad_legacy := x, ad_legacy_archive := y\<rparr>) = load_split api budget d"
  by (simp add: load_split_def rebuild_window_from_tail_def load_pins_def Let_def cong: option.case_cong)

lemma repair_split_format:
  assumes "split_format d" "load_split api budget d = (s, deg)"
    "repair_turns jc ops api env really 0 (turns s) (ad_history d) = (Inr acts, fs)"
  shows "\<exists>d1. repair_agent_context jc ops api env budget really d = (Inr (deg, acts), d1) \<and> ad_history d1 = fs \<and>
    ad_manifest d1 = ad_manifest d \<and> ad_manifest_bak d1 = ad_manifest_bak d \<and> ad_pins d1 = ad_pins d \<and> ad_pins_bak d1 = ad_pins_bak d"
  using assms by (auto simp: repair_agent_context_def load_store_cases load_split_legacy Let_def)

lemma loaded_split:
  assumes "load_with_backup (ad_manifest d) (ad_manifest_bak d) = Some (m, fell_back)"
  shows "split_format d"
    and "turns (fst (load_split api budget d)) =
      map turn_of_pin (pd_pins (fst (load_pins d))) @ hy_turns (hydrate_turns (ad_history d) (md_conversation_turn_ids m))"
  using assms
  by (cases "ad_manifest d"; cases "ad_manifest_bak d"; auto simp: split_format_def load_with_backup_def)
    (use assms in \<open>simp add: load_split_def Let_def from_persisted_def split: prod.split\<close>)

lemma pins_not_damaged: "t \<in> set (map turn_of_pin ps) \<Longrightarrow> \<not> damaged_turn api t"
  by (auto simp: damaged_turn_def turn_of_pin_def is_pinned_def)

lemma hydrated_distinct: "distinct (map turn_id (hy_turns (hydrate_turns fs ids)))"
  unfolding hydrate_exact_facts [THEN conjunct1] by (rule map_filter_ids) simp

lemma hydrated_iff:
  "t \<in> set (hy_turns (hydrate_turns fs ids)) \<longleftrightarrow> (\<exists>i r. i \<in> set ids \<and> newest fs i = Some r \<and> t = turn_of_record i r)"
  by (force simp: hydrate_exact_facts List.map_filter_def)

text \<open>After the repairs are appended, every hydrated turn is a repaired one or was not damaged.\<close>

lemma repaired_clean:
  assumes laws: "chat_laws api" "one_role api"
    and f: "\<forall>t \<in> set ts. damaged_turn api t \<longrightarrow> newest fs' (turn_id t) = Some (repaired_record jc ops api t)"
      "\<forall>i. i \<notin> turn_id ` set (filter (damaged_turn api) ts) \<longrightarrow> newest fs' i = newest fs i"
    and sub: "set (hy_turns (hydrate_turns fs ids)) \<subseteq> set ts" and t: "t \<in> set (hy_turns (hydrate_turns fs' ids))"
  shows "\<not> damaged_turn api t"
proof -
  from t obtain i r where i: "i \<in> set ids" "newest fs' i = Some r" "t = turn_of_record i r" by (auto simp: hydrated_iff)
  show ?thesis
  proof (cases "i \<in> turn_id ` set (filter (damaged_turn api) ts)")
    case True
    then obtain u where "u \<in> set ts" "damaged_turn api u" "turn_id u = i" by auto
    then have "r = repaired_record jc ops api u" using f(1) i(2) by auto
    then show ?thesis using repair_clean [OF laws] i(3)
      by (simp add: damaged_turn_def turn_of_record_def repaired_record_def Let_def)
  next
    case False
    then have "t \<in> set (hy_turns (hydrate_turns fs ids))" using f(2) i by (auto simp: hydrated_iff)
    then have "t \<in> set ts" using sub by blast
    moreover have "turn_id t = i" by (simp add: i(3) turn_of_record_def)
    ultimately show ?thesis using False by auto
  qed
qed

text \<open>
  C29. Repair heals, once. In a directory whose manifest or backup loads, with an open log and every append
  succeeding, a repair reports exactly the damaged turns; afterwards every conversation turn that the
  directory loads pairs its calls and results, and a second repair finds nothing to do.
\<close>

theorem repair_heals_once:
  assumes laws: "chat_laws api" "one_role api" and m: "load_with_backup (ad_manifest d) (ad_manifest_bak d) = Some (m, fell_back)"
    and l: "log_open (di_today env) (ad_history d)" "\<And>k. di_append env k = Appended"
  shows "\<exists>deg deg' d1. repair_agent_context jc ops api env budget True d =
      (Inr (deg, map (repair_action_of api) (filter (damaged_turn api) (turns (fst (load_split api budget d))))), d1) \<and>
    (\<forall>t \<in> set (turns (fst (load_split api budget d1))). \<not> damaged_turn api t) \<and>
    fst (repair_agent_context jc ops api env budget True d1) = Inr (deg', [])"
proof -
  obtain s deg where s: "load_split api budget d = (s, deg)" by fastforce
  note ts = loaded_split(2) [OF m, of api budget, unfolded s fst_conv]
  have dist: "distinct (map turn_id (filter (damaged_turn api) (turns s)))"
    using distinct_map_filter [OF hydrated_distinct] pins_not_damaged [of _ _ api] by (simp add: ts)
  obtain fs' where f: "repair_turns jc ops api env True 0 (turns s) (ad_history d) =
        (Inr (map (repair_action_of api) (filter (damaged_turn api) (turns s))), fs')"
      "\<forall>t \<in> set (turns s). damaged_turn api t \<longrightarrow> newest fs' (turn_id t) = Some (repaired_record jc ops api t)"
      "\<forall>i. i \<notin> turn_id ` set (filter (damaged_turn api) (turns s)) \<longrightarrow> newest fs' i = newest (ad_history d) i"
    using repair_turns_effect [OF l(2) l(1) dist, of jc ops 0] by blast
  from repair_split_format [OF loaded_split(1) [OF m] s f(1)] obtain d1 where d1:
    "repair_agent_context jc ops api env budget True d = (Inr (deg, map (repair_action_of api) (filter (damaged_turn api) (turns s))), d1)"
    "ad_history d1 = fs'" "load_with_backup (ad_manifest d1) (ad_manifest_bak d1) = Some (m, fell_back)" using m by auto
  have "set (hy_turns (hydrate_turns (ad_history d) (md_conversation_turn_ids m))) \<subseteq> set (turns s)" by (simp add: ts)
  then have all: "\<forall>t \<in> set (turns (fst (load_split api budget d1))). \<not> damaged_turn api t"
    unfolding loaded_split(2) [OF d1(3)] set_append d1(2)
    using repaired_clean [OF laws f(2,3)] pins_not_damaged [of _ _ api] by blast
  obtain s' deg' where s': "load_split api budget d1 = (s', deg')" by fastforce
  have "repair_turns jc ops api env True 0 (turns s') (ad_history d1) = (Inr [], ad_history d1)"
    by (rule repair_turns_clean) (use all in \<open>simp add: s'\<close>)
  from repair_split_format [OF loaded_split(1) [OF d1(3)] s' this] show ?thesis using d1(1) all by (auto simp: s)
qed

lemma repair_turns_acts:
  assumes "\<And>k. di_append env k = Appended"
  shows "fst (repair_turns jc ops api env True k ts fs) = Inr (map (repair_action_of api) (filter (damaged_turn api) ts))"
  by (induction ts arbitrary: k fs)
    (auto simp: damaged_turn_def append_record_def assms split_beta Let_def)

text \<open>
  Repair of a legacy directory does not take. The repaired turns go to the history, but such a
  directory is loaded from its legacy document: the next repair finds the same damage and appends again.
\<close>

theorem legacy_repair_repeats:
  assumes "\<not> split_format d" "ad_legacy d = GoodFile s0" "\<And>k. di_append env k = Appended"
  shows "let (r, d1) = repair_agent_context jc ops api env budget True d
    in r = Inr ([], map (repair_action_of api) (filter (damaged_turn api) (turns (strip_restart_turns ops s0)))) \<and>
       fst (repair_agent_context jc ops api env budget True d1) = r"
proof -
  have run: "\<exists>fs. repair_agent_context jc ops api env budget True x =
      (Inr ([], map (repair_action_of api) (filter (damaged_turn api) (turns (strip_restart_turns ops s0)))), x\<lparr>ad_history := fs\<rparr>)"
    if "\<not> split_format x" "ad_legacy x = GoodFile s0" for x :: "('a, 'b, 'c) agent_disk"
    using repair_turns_acts [OF assms(3), of jc ops api 0 "turns (strip_restart_turns ops s0)" "ad_history x"] that
    by (cases "repair_turns jc ops api env True 0 (turns (strip_restart_turns ops s0)) (ad_history x)")
      (auto simp: repair_agent_context_def load_store_cases Let_def)
  from run [OF assms(1,2)] obtain fs where r: "repair_agent_context jc ops api env budget True d =
      (Inr ([], map (repair_action_of api) (filter (damaged_turn api) (turns (strip_restart_turns ops s0)))), d\<lparr>ad_history := fs\<rparr>)" ..
  have "\<not> split_format (d\<lparr>ad_history := fs\<rparr>)" "ad_legacy (d\<lparr>ad_history := fs\<rparr>) = GoodFile s0"
    using assms(1,2) by (simp_all add: split_format_def)
  from run [OF this] show ?thesis by (auto simp: r)
qed

lemma tail_scan_prefix: "\<exists>new. tail_scan budget used seen ts ls = ts @ new"
  using tail_scan_window [of budget used seen ts ls] by blast

text \<open>
  A repaired record hides the highest id. The reader that promises the highest recorded id returns the
  id of the newest record; after a repair that is an older turn. When the manifest is lost then, the window
  is rebuilt with the repaired turn last and ids of recorded turns are given out again.
\<close>

theorem repair_hides_highest_id:
  assumes "log_open today fs" "hr_kind r = RkTurn" "hr_turn r = Some k" "hr_tokens r \<le> budget"
    "\<not> pairing_damaged api (hr_messages r)" "ad_history d = on_day today (write_line r) fs"
    "load_with_backup (ad_manifest d) (ad_manifest_bak d) = None" "newest fs n \<noteq> None" "k < n"
  shows "max_turn_id (ad_history d) = k \<and> next_turn_id (fst (load_split api budget d)) = k + 1 \<and>
    turn_id (last (turns (fst (load_split api budget d)))) = k \<and>
    next_turn_id (fst (load_split api budget d)) \<le> n \<and> newest (ad_history d) n \<noteq> None"
proof -
  let ?t = "turn_of_record k r"
  have id: "turn_id ?t = k" by (simp add: turn_of_record_def)
  have sc: "scan_order (ad_history d) = Entry r # scan_order fs" using assms(1,6) by (simp add: scan_appended)
  have tr: "turn_record (Entry r) = Some (k, r)" using assms(2,3) by (simp add: turn_record_def)
  have mx: "max_turn_id (ad_history d) = k" by (simp add: max_turn_id_def sc List.map_filter_simps tr)
  obtain new where found: "tail_turns_within_budget (ad_history d) budget = rev new @ [?t]"
    using tail_scan_prefix [of budget "hr_tokens r" "[k]" "[?t]" "scan_order fs"] assms(4)
    by (auto simp: tail_turns_within_budget_def sc tr)
  let ?n = "length (takeWhile (\<lambda>t. pairing_damaged api (messages t)) (rev new @ [?t]))"
  have "?n \<le> length (rev new)"
    using assms(5) length_takeWhile_le [of _ "rev new"] by (auto simp: takeWhile_append turn_of_record_def)
  then have kept: "drop ?n (rev new @ [?t]) = drop ?n (rev new) @ [?t]" by simp
  obtain pins deg where p: "load_pins d = (pins, deg)" by fastforce
  have s: "turns (fst (load_split api budget d)) = map turn_of_pin (pd_pins pins) @ drop ?n (rev new) @ [?t]"
    "next_turn_id (fst (load_split api budget d)) = k + 1"
    by (simp_all add: load_split_def assms(7) rebuild_window_from_tail_def p found kept mx from_persisted_def Let_def id
        del: drop_append)
  have "newest (ad_history d) n \<noteq> None" using assms(8) by (simp add: newest_def sc tr)
  then show ?thesis using mx s assms(9) by (simp add: turn_of_record_def)
qed

section \<open>Witnesses\<close>

definition calm_disk :: disk_env where
  "calm_disk = \<lparr>di_copy = \<lambda>_. CopyDone, di_write = \<lambda>_. True, di_rename = True, di_append = \<lambda>_. Appended, di_today = ''2026-01-02''\<rparr>"

definition disk_with ::
  "manifest_doc doc \<Rightarrow> 'm pins_doc doc \<Rightarrow> ('m, unit) context_store doc \<Rightarrow> 'm day_file list \<Rightarrow> ('m, unit, unit) agent_disk" where
  "disk_with m p l h = \<lparr>ad_manifest = m, ad_manifest_bak = NoFile, ad_pins = p, ad_pins_bak = NoFile, ad_legacy = l,
     ad_legacy_archive = NoFile, ad_approvals = NoFile, ad_history = h\<rparr>"

lemma disk_with_fields [simp]:
  "ad_manifest (disk_with m p l h) = m" "ad_manifest_bak (disk_with m p l h) = NoFile" "ad_pins (disk_with m p l h) = p"
  "ad_pins_bak (disk_with m p l h) = NoFile" "ad_legacy (disk_with m p l h) = l" "ad_history (disk_with m p l h) = h"
  by (simp_all add: disk_with_def)

lemma calm_fields [simp]: "di_append calm_disk k = Appended" "di_write calm_disk k" "di_rename calm_disk" "di_copy calm_disk k = CopyDone"
  by (simp_all add: calm_disk_def)

definition turn_line :: "nat \<Rightarrow> 'm list \<Rightarrow> 'm history_record" where
  "turn_line i ms = \<lparr>hr_turn = Some i, hr_messages = ms, hr_tokens = length ms, hr_kind = RkTurn, hr_event = None\<rparr>"

definition one_day :: "'m history_record list \<Rightarrow> 'm day_file list" where
  "one_day rs = [\<lparr>df_name = ''2026-01-01'', df_readable = True, df_lines = map Entry rs, df_end = Ended\<rparr>]"

lemma one_day_open: "log_open (di_today calm_disk) (one_day rs)"
  by (simp add: log_open_def one_day_def calm_disk_def less_eq_char_def)

lemma one_day_newest: "newest (one_day (map (\<lambda>(i, ms). turn_line i ms) rs)) i = map_of (rev (map (\<lambda>(i, ms). (i, turn_line i ms)) rs)) i"
proof -
  have "List.map_filter turn_record (rev (map Entry (map (\<lambda>(i, ms). turn_line i ms) rs))) =
      rev (map (\<lambda>(i, ms). (i, turn_line i ms)) rs)"
    by (induction rs) (auto simp: List.map_filter_simps map_filter_append turn_record_def turn_line_def)
  then show ?thesis by (simp add: newest_def newest_in_def scan_order_def one_day_def visible_lines_def)
qed

definition plain_api :: "string chat_api" where
  "plain_api = \<lparr>ca_tool_calls = \<lambda>_. None, ca_tool_call_id = \<lambda>_. None, ca_assistant = \<lambda>_ _ _. [], ca_tool_result = \<lambda>s _. s\<rparr>"

lemma sample_store_ok: "store_ok sample_store"
  unfolding sample_store_def
  by (intro store_ok_push) (simp add: new_store_def store_ok_def pinned_first_def convo_turns_def List.map_filter_def)

lemma sample_turns:
  "turns sample_store = [\<lparr>turn_id = 0, messages = [''a''], estimated_tokens = 1, kind = Conversation\<rparr>,
     \<lparr>turn_id = 1, messages = [''b'', ''c''], estimated_tokens = 2, kind = Conversation\<rparr>]"
  "injected_turn_ids sample_store = {}" "next_turn_id sample_store = 2"
  by code_simp+


theorem restart_announced_once_witness:
  "\<exists>s ap deg d'. restore_agent sample_ops plain_api calm_disk 8 (disk_with NoFile NoFile NoFile []) = (Inr (s, ap, deg), d') \<and>
    filter (is_restart_turn sample_ops) (turns s) = [last (turns s)]"
proof -
  have "is_ok (fst (restore_agent sample_ops plain_api calm_disk 8 (disk_with NoFile NoFile NoFile [])))"
    by (simp add: restore_agent_def load_store_def has_history_def disk_with_def Let_def split: prod.split)
  then obtain s ap deg d' where r: "restore_agent sample_ops plain_api calm_disk 8 (disk_with NoFile NoFile NoFile []) =
      (Inr (s, ap, deg), d')"
    by (cases "restore_agent sample_ops plain_api calm_disk 8 (disk_with NoFile NoFile NoFile [])"; cases "fst (restore_agent sample_ops plain_api calm_disk 8 (disk_with NoFile NoFile NoFile []))")
      auto
  from restart_announced_once [OF r] show ?thesis using r by (simp add: sample_ops_def)
qed

theorem persist_load_roundtrip_witness:
  "next_turn_id (fst (load_split plain_api 8 (snd (persist_context calm_disk sample_store
     (disk_with NoFile NoFile NoFile (one_day (map (\<lambda>(i, ms). turn_line i ms) [(0, [''a'']), (1, [''b'', ''c''])]))))))) = 2"
proof -
  let ?d = "disk_with NoFile NoFile NoFile (one_day (map (\<lambda>(i, ms). turn_line i ms) [(0, [''a'']), (1, [''b'', ''c''])]))"
  obtain d' where p: "persist_context calm_disk sample_store ?d = (True, d')"
    by (simp add: persist_context_def write_manifest_def write_pins_def write_with_backup_def Let_def)
  have "records_of (ad_history ?d) (filter (\<lambda>t. turn_id t \<notin> injected_turn_ids sample_store) (convo_turns sample_store))"
    unfolding records_of_def disk_with_fields one_day_newest
    by (simp add: sample_turns convo_turns_def is_pinned_def turn_of_record_def turn_line_def)
  from persist_load_roundtrip [OF sample_store_ok p this, of plain_api 8] show ?thesis
    unfolding p by (cases "load_split plain_api 8 d'") (simp add: sample_turns)
qed

theorem torn_persist_loses_summary_witness:
  "\<exists>d' :: (string, unit, unit) agent_disk. \<forall>x \<in> set (turns (fst (load_split plain_api 8 d'))). turn_id x \<noteq> 0 \<and> turn_id x \<noteq> 2"
proof -
  let ?s1 = "snd (evict_turns 1 sample_store)" and ?m = "''sum''"
  obtain s where s: "pin sample_ops ''note'' ?m ?s1 = Inr s"
    by (simp add: pin_def evict_turns_def sample_turns pinned_turn_count_def pinned_turns_def is_pinned_def Let_def
        sample_store_def push_turn_def new_store_def)
  have ok: "store_ok s" using store_ok_pin [OF store_ok_evict [OF sample_store_ok] s] .
  have t: "turns s = [\<lparr>turn_id = 2, messages = [?m], estimated_tokens = 3, kind = Pinned ''note''\<rparr>,
      \<lparr>turn_id = 1, messages = [''b'', ''c''], estimated_tokens = 2, kind = Conversation\<rparr>]"
    using s by (auto simp: pin_def insert_pin_def insert_at_def evict_turns_def sample_turns pinned_turn_count_def
        pinned_turns_def is_pinned_def Let_def sample_ops_def split: if_splits)
  let ?d = "disk_with (GoodFile (to_manifest_doc sample_store)) (GoodFile (to_pins_doc sample_store)) NoFile []"
  have "\<exists>d'. persist_crash s ?d d' \<and> PinsLost \<notin> set (snd (load_split plain_api 8 d')) \<and>
      (\<forall>x \<in> set (turns (fst (load_split plain_api 8 d'))). turn_id x \<noteq> turn_id (hd (turns sample_store)) \<and> turn_id x \<noteq> turn_id (hd (turns s)))"
    by (rule torn_persist_loses_summary [OF sample_store_ok ok])
      (simp_all add: t sample_turns convo_turns_def pinned_turns_def is_pinned_def)
  then show ?thesis by (auto simp: t sample_turns)
qed

definition call_ops :: "sample_msg chat_ops" where
  "call_ops = \<lparr>est_tokens = \<lambda>_. 1, msg_role = \<lambda>_. ''tool'', msg_content = \<lambda>m. case m of SCalls _ \<Rightarrow> None | SResult s _ \<Rightarrow> Some s,
     msg_tool_calls = \<lambda>m. case m of SCalls cs \<Rightarrow> Some cs | SResult _ _ \<Rightarrow> None, mk_user = \<lambda>s. SResult s [],
     mk_assistant = \<lambda>s. SResult s []\<rparr>"

lemma sample_one_role: "one_role sample_api"
  by (simp add: one_role_def sample_api_def split: sample_msg.split)

definition lone_call :: "sample_msg list" where
  "lone_call = [SCalls [sample_call ''1'' ''todo'']]"

theorem repair_heals_once_witness:
  "\<exists>d1 deg' :: degradation list. fst (repair_agent_context flat_codec call_ops sample_api calm_disk 8 True
     (d1 :: (sample_msg, unit, unit) agent_disk)) = Inr (deg', [])"
proof -
  let ?m = "\<lparr>md_version = 1, md_conversation_turn_ids = [0], md_cumulative = \<lparr>cu_prompt = 0, cu_completion = 0, cu_cache_hit = 0\<rparr>,
    md_next_turn_id = 1, md_retry_log = []\<rparr>"
  let ?d = "disk_with (GoodFile ?m) NoFile NoFile (one_day [turn_line 0 lone_call])"
  have m: "load_with_backup (ad_manifest ?d) (ad_manifest_bak ?d) = Some (?m, False)" by (simp add: load_with_backup_def)
  have o: "log_open (di_today calm_disk) (ad_history ?d)" using one_day_open by simp
  from repair_heals_once [OF sample_api_laws sample_one_role m o calm_fields(1)] show ?thesis by blast
qed

theorem legacy_repair_repeats_witness:
  "let d = disk_with NoFile NoFile (GoodFile (snd (push_turn call_ops lone_call new_store))) [];
       (r, d1) = repair_agent_context flat_codec call_ops sample_api calm_disk 8 True d
   in fst (repair_agent_context flat_codec call_ops sample_api calm_disk 8 True d1) = r"
  using legacy_repair_repeats [of "disk_with NoFile NoFile (GoodFile (snd (push_turn call_ops lone_call new_store))) []"
      "snd (push_turn call_ops lone_call new_store)" calm_disk flat_codec call_ops sample_api 8]
  by (auto simp: split_format_def Let_def)

theorem repair_hides_highest_id_witness:
  "next_turn_id (fst (load_split sample_api 8 (disk_with NoFile NoFile NoFile
     (on_day ''2026-01-02'' (write_line (turn_line 0 [])) (one_day (map (\<lambda>(i, ms). turn_line i ms) [(0, lone_call), (1, lone_call)])))))) \<le> 1"
proof -
  let ?fs = "one_day (map (\<lambda>(i, ms). turn_line i ms) [(0, lone_call), (1, lone_call)])"
  let ?d = "disk_with NoFile NoFile NoFile (on_day ''2026-01-02'' (write_line (turn_line 0 [])) ?fs)"
  have o: "log_open ''2026-01-02'' ?fs" using one_day_open by (simp add: calm_disk_def)
  have "newest ?fs 1 \<noteq> None" unfolding one_day_newest by simp
  moreover have "\<not> pairing_damaged sample_api (hr_messages (turn_line 0 []))"
    by (simp add: turn_line_def pairing_damaged_def unanswered_call_ids_def orphan_result_ids_def
        declared_calls_def answered_ids_def List.map_filter_def)
  ultimately show ?thesis
    using repair_hides_highest_id [OF o, of "turn_line 0 []" 0 8 sample_api ?d 1]
    by (simp add: turn_line_def load_with_backup_def)
qed

end
