(* ===== verification/Spec2Isabelle.thy ===== *)
theory Spec2Isabelle
  imports Approval Policy Registry Restore_Chain Dir_Lock Workspace_Lock Token_Budget Context_Store
    Text_Slice Context_Budget Task_Laws Tool_Executor Agent_Task Duty_Engine Agent_Dirs
    Boot_Restore Agent_Spawn Context_Disk
begin

text \<open>
  A verification library for the agent system under \<open>src/crates\<close>: a runtime that runs one LLM agent
  (\<open>kallip-runtime\<close>), the tagma process that hosts a tree of agents (\<open>kallip-tagma\<close>), the types they
  share (\<open>kallip-common\<close>) and the task ledger (\<open>daemon/kallip-task\<close>).

  \<^bold>\<open>How the parts interact.\<close> The tagma keeps the registry of agents; every agent has at most one
  supervisor (\<open>created_by\<close>), and the chain of supervisors decides who may manage whom, which exec
  policies and permission classes a child may have, and which nested directory locks are delegation
  and which are conflicts. A running agent appends turns to its context store, keeps it within its
  window by warnings and compaction, charges the tagma-wide token budget, and defers tool calls that
  need consent to the approval store. Its task opens LLM streams with retries along a chain of profiles,
  runs the tool calls they contain, and parks with a timer between wakes. Messages reach an agent through its
  inbox: delivery stores them, and wakes or revives the agent unless the duty board says it is off duty; the
  scheduling engine keeps that board in step with the work schedule. Teams coordinate through the task ledger.

  \<^bold>\<open>Theories and sources.\<close>
  \<^item> \<open>Prelude\<close>: Rust results and the question-mark operator, machine integers, \<open>HashMap\<close> and \<open>BTreeMap\<close>
    behind the locale \<open>kv_store\<close>, JSON values, paths, reachability and the locale \<open>inv_system\<close>.
    \<open>Json\<close>: the law of a JSON codec and a codec that satisfies it.
  \<^item> \<open>Approval\<close>: \<open>kallip-runtime/src/approval.rs\<close>. The lifecycle of a deferred call as a refinement,
    its invariant, at most one redemption, delivery of review outcomes.
  \<^item> \<open>Policy\<close>: \<open>kallip-common/src/policy.rs\<close>, \<open>kallip-runtime/src/config/permissions.rs\<close>. The strictness
    order, that comparing the overridden names decides it for all names, the wire forms.
  \<^item> \<open>Shell_Ast\<close>, \<open>Exec_Classifier\<close>, \<open>Exec_Laws\<close>: \<open>kallip-runtime/src/policy/classifier\<close>. The catalog and
    denylist, the walk over a parsed command, interpreter strings, the hook scan. The verdict is a join
    over the visited commands, the denylist is a floor, a validated child is never laxer, and the
    positions that the walk does not look at.
  \<^item> \<open>Tool_Executor\<close>: \<open>kallip-runtime/src/policy/{agent,executor}.rs\<close>, \<open>kallip-common/src/toolresult.rs\<close>.
    The policy gate in front of the dispatcher: what each decision does, and that over a whole run every
    call that reaches the dispatcher was allowed or is a redeemed approval.
  \<^item> \<open>Tool_Rounds\<close>: \<open>kallip-runtime/src/tool_execution.rs\<close>. The serial loop over the calls of a round against
    a reference without flags, the pairing of calls and results, and authorisation over whole lives of
    an agent.
  \<^item> \<open>Agent_Config\<close>: \<open>kallip-runtime/src/config.rs\<close>, \<open>config/defaults.rs\<close>, \<open>env_util.rs\<close>. Every loaded
    configuration satisfies the checks; the window setter installs exactly the windows that fit.
  \<^item> \<open>Llm_Retry\<close>, \<open>Stream_Consume\<close>: \<open>kallip-runtime/src/{retry,stream_accumulator}.rs\<close>. The backoff schedule
    and its bounds, the retry loop, what a chunked stream assembles to.
  \<^item> \<open>Failover\<close>, \<open>Acquisition\<close>: \<open>kallip-runtime/src/{failover,acquisition}.rs\<close>, \<open>profile/{model,registry}.rs\<close>.
    An advance serves the nearest usable profile whole; the acquisition loop finishes unless streams keep
    dropping, and does not finish for an endpoint that always drops.
  \<^item> \<open>Agent_Task\<close>: \<open>kallip-runtime/src/{lifecycle,runner,agent_task}.rs\<close>. The round loop, the heartbeat loop and
    the arms of the task: every wake returns, every parked task has its fuse, and the fuse that outlives
    its state.
  \<^item> \<open>Registry\<close>: \<open>kallip-tagma/src/state.rs\<close>. The registry's state machine and token index, the
    supervisor walk with its termination and exactness, superiority as a strict order (locale
    \<open>delegation\<close>).
  \<^item> \<open>Restore_Chain\<close>: \<open>kallip-tagma/src/lifecycle/restore.rs\<close>. Neighbour comparisons along a restored
    chain bound an agent by all its ancestors.
  \<^item> \<open>Dir_Lock\<close>, \<open>Workspace_Lock\<close>: \<open>kallip-runtime/src/dirlock/mod.rs\<close>,
    \<open>kallip-tagma/src/lifecycle/workspace.rs\<close>. The overlap scan decides the hierarchical specification,
    overlap occurs only along delegation, and a failed or rolled back establish restores the table.
  \<^item> \<open>Token_Budget\<close>: \<open>kallip-runtime/src/token_budget.rs\<close> at 64-bit width, wrap-around included.
  \<^item> \<open>Context_Store\<close>: \<open>kallip-runtime/src/context/{store,turn,manifest,compose}.rs\<close>. The log invariant,
    eviction, pins, the persistence round trip.
  \<^item> \<open>Text_Slice\<close>, \<open>Context_Budget\<close>: \<open>kallip-runtime/src/text_slice.rs\<close>,
    \<open>kallip-runtime/src/context/{warnings,summarize,compact,estimate}.rs\<close>,
    \<open>kallip-runtime/src/budget_gate.rs\<close>. Slices keep true text, compaction terminates and keeps what it
    must keep, warnings fire once per level.
  \<^item> \<open>Task_Ledger\<close>, \<open>Task_Laws\<close>: \<open>daemon/kallip-task/src\<close>, \<open>kallip-common/src/protocol/task.rs\<close>. The
    event trail derives the table, the gates, the bounded atomic retries, the export.

  \<^item> \<open>Messaging\<close>, \<open>Inbox\<close>, \<open>Delivery\<close>: \<open>kallip-tagma/src/{messaging,inbox/mod,duty,delivery,bridge}.rs\<close>,
    \<open>routes/inbox.rs\<close>. Sender headers cannot be forged by a handle (but by a role), the inbox is an exact
    mailbox per agent, an accepted message waits for an agent that is awake, off duty or parked, and what a
    reactivation does to locks and to the agent's directory.
  \<^item> \<open>Work_Schedule\<close>, \<open>Duty_Engine\<close>: \<open>kallip-tagma/src/work_schedule/{spec,eval,mod}.rs\<close>, \<open>engine.rs\<close>. The
    evaluation of a schedule is exact against the unbounded set of its shifts; firing due transitions ends;
    the duty board follows the schedule over all runs without a stalled start; only lawful schedules are stored.

  \<^item> \<open>Agent_Dirs\<close>, \<open>Boot_Restore\<close>: \<open>kallip-runtime/src/persistence.rs\<close> (roots, areas, directories),
    \<open>kallip-tagma/src/lifecycle/restore.rs\<close>. No move loses the body of an agent, whatever fails; boot registers
    every agent on disk, live or faulted, or says why it stops; a restored agent is bounded by its whole chain.
  \<^item> \<open>History_Log\<close>, \<open>Context_Disk\<close>: \<open>kallip-runtime/src/history.rs\<close>, \<open>persistence.rs\<close> (context files).
    Hydration is exact; a crash inside a persist leaves old or new documents; damage never stops a restore;
    repair heals once; and the cases in which a crash, a repair or a backup loses or reuses something.
  \<^item> \<open>Agent_Spawn\<close>: \<open>kallip-tagma/src/routes/agent.rs\<close>, \<open>routes/agent/permissions.rs\<close>,
    \<open>lifecycle/spawn.rs\<close>. The reference monitor of a spawn holds whatever other tasks do meanwhile; a refused
    spawn leaves no trace, except an unknown profile set, which leaks its slot; removal gives every lock back.

  \<^bold>\<open>Conventions.\<close> A struct is a record, an enum a datatype, a method a definition that returns the
  updated state; \<open>Result\<close> is a sum with \<open>Inl\<close> for the error. Code outside the repository is a
  parameter of the definitions that use it: the LLM, token estimators, the JSON library, the shell
  parser, the tool dispatcher, calendar and time arithmetic, path resolution, clocks, random ids, database failures. What a theorem needs of a
  parameter is a hypothesis of it, and its witness instantiates the parameter. Loops are recursive
  functions with termination proofs. One recursion is bounded: nested interpreter strings are judged
  to a depth of the length of the command text, which is enough for every parser whose words fit into
  the text they were read from (the verdict then does not depend on the value assumed beyond it). One
  loop may run for ever: the acquisition loop takes fuel and returns None without it; one unit per
  profile of the chain is enough once streams stop dropping. The engine's loop over due transitions takes
  fuel too, and eight rounds are always enough. What the outside does to a running task
  (answers, clock, cancels, other agents) is data indexed by the iteration.

  \<^bold>\<open>Not modelled.\<close> Process supervision and sandboxing, network services and their databases (rooms,
  identity, files), HTTP routing, command-line parsing and rendering: operating-system effects and
  third-party code. Within modelled files: opening databases, logging, channel plumbing.
\<close>

end
